(* ===== verification/Prelude.thy ===== *)
theory Prelude
  imports Main "HOL-Library.AList" "HOL-Library.List_Lexorder" "HOL-Library.Product_Lexorder"
begin

text \<open>
  Shared vocabulary of the development: Python strings as lists of code points, insertion-ordered
  dictionaries as association lists, and the state-and-exception computations in which the
  stateful classes are written, and the rules for what they keep
  of an invariant.
\<close>

named_theorems dict_simps \<open>lookup and key facts for the dictionary operations\<close>
named_theorems proc_simps \<open>unfolding rules that run a state-and-exception computation\<close>
named_theorems keeps_rules \<open>what a computation keeps of an invariant\<close>

section \<open>Strings\<close>

text \<open>
  A Python \<open>str\<close> is a sequence of code points and is ordered lexicographically by code point,
  which is the order the library gives to lists of integers. \<open>lit\<close> writes an ASCII literal.
\<close>

type_synonym pystr = "int list"

definition lit :: "string \<Rightarrow> pystr" where
  "lit s = map of_char s"

lemma lit_Nil [simp]: "lit [] = []"
  by (simp add: lit_def)

lemma lit_Cons [simp]: "lit (c # cs) = of_char c # lit cs"
  by (simp add: lit_def)

lemma lit_append: "lit (a @ b) = lit a @ lit b"
  by (simp add: lit_def)

text \<open>\<open>str(n)\<close> for integers, and the zero-padded form \<open>f"{n:08d}"\<close> for \<open>n \<ge> 0\<close>.\<close>

fun show_nat :: "nat \<Rightarrow> pystr" where
  "show_nat n = (if n < 10 then [48 + int n] else show_nat (n div 10) @ [48 + int (n mod 10)])"

declare show_nat.simps [simp del]

definition show_int :: "int \<Rightarrow> pystr" where
  "show_int i = (if i < 0 then 45 # show_nat (nat (- i)) else show_nat (nat i))"

definition pad8 :: "nat \<Rightarrow> pystr" where
  "pad8 n = (let s = show_nat n in replicate (8 - length s) 48 @ s)"

text \<open>\<open>s.split(":", 1)[1]\<close> for a string that holds a colon.\<close>

definition after_colon :: "pystr \<Rightarrow> pystr" where
  "after_colon s = tl (dropWhile (\<lambda>c. c \<noteq> 58) s)"

text \<open>\<open>len(s.encode("utf-8"))\<close>; \<open>None\<close> where Python raises on a lone surrogate.\<close>

fun utf8_len :: "pystr \<Rightarrow> int option" where
  "utf8_len [] = Some 0"
| "utf8_len (c # cs) =
     (if 55296 \<le> c \<and> c \<le> 57343 then None
      else map_option (\<lambda>n. n + (if c < 128 then 1 else if c < 2048 then 2
                               else if c < 65536 then 3 else 4)) (utf8_len cs))"

lemma utf8_len_nonneg: "utf8_len s = Some n \<Longrightarrow> 0 \<le> n"
  by (induction s arbitrary: n) (auto split: if_splits)

text \<open>A text that UTF-8 can encode.\<close>

definition encodable :: "pystr \<Rightarrow> bool" where
  "encodable s \<longleftrightarrow> utf8_len s \<noteq> None"

lemma encodable_Nil [simp]: "encodable []"
  by (simp add: encodable_def)

lemma encodable_Cons [simp]: "encodable (c # s) \<longleftrightarrow> \<not> (55296 \<le> c \<and> c \<le> 57343) \<and> encodable s"
  by (simp add: encodable_def)

lemma encodable_append [simp]: "encodable (s @ t) \<longleftrightarrow> encodable s \<and> encodable t"
  by (induction s) auto

lemma encodable_concat: "encodable (concat ss) \<longleftrightarrow> (\<forall>s \<in> set ss. encodable s)"
  by (induction ss) auto

subsection \<open>Decimal digits\<close>

definition digit :: "int \<Rightarrow> bool" where
  "digit c \<longleftrightarrow> 48 \<le> c \<and> c \<le> 57"

fun dec_value :: "pystr \<Rightarrow> int" where
  "dec_value [] = 0"
| "dec_value (c # cs) = (c - 48) * 10 ^ length cs + dec_value cs"

lemma dec_value_append: "dec_value (xs @ ys) = dec_value xs * 10 ^ length ys + dec_value ys"
  by (induction xs) (auto simp: algebra_simps power_add)

lemma dec_value_zeros [simp]: "dec_value (replicate n 48 @ s) = dec_value s"
  by (induction n) auto

lemma show_nat_nonempty [simp]: "show_nat n \<noteq> []"
  by (subst show_nat.simps) simp

lemma show_nat_digits: "c \<in> set (show_nat n) \<Longrightarrow> digit c"
proof (induction n rule: show_nat.induct)
  case (1 n)
  have "int (n mod 10) \<le> 9" by presburger
  with 1 show ?case
    by (subst (asm) (2) show_nat.simps) (auto simp: digit_def split: if_splits)
qed

lemma dec_value_show_nat: "dec_value (show_nat n) = int n"
proof (induction n rule: show_nat.induct)
  case (1 n)
  show ?case
  proof (cases "n < 10")
    case True
    then show ?thesis by (subst show_nat.simps) simp
  next
    case False
    with 1 have "dec_value (show_nat (n div 10)) = int (n div 10)" by simp
    with False show ?thesis
      by (subst show_nat.simps) (simp add: dec_value_append zmod_int zdiv_int)
  qed
qed

lemma show_nat_inj: "show_nat m = show_nat n \<Longrightarrow> m = n"
  by (metis dec_value_show_nat of_nat_eq_iff)

lemma length_show_nat: "n < 10 ^ k \<Longrightarrow> 0 < k \<Longrightarrow> length (show_nat n) \<le> k"
proof (induction n arbitrary: k rule: show_nat.induct)
  case (1 n)
  show ?case
  proof (cases "n < 10")
    case True
    with 1(3) show ?thesis by (subst show_nat.simps) simp
  next
    case False
    obtain j where k: "k = Suc j" using 1(3) by (cases k) auto
    with False 1(2) have j: "0 < j" by (cases j) auto
    have "n div 10 < 10 ^ j" using 1(2) k by (simp add: less_mult_imp_div_less mult.commute)
    from 1(1) [OF False this j] False k show ?thesis by (subst show_nat.simps) simp
  qed
qed

lemma length_pad8: "n < 10 ^ 8 \<Longrightarrow> length (pad8 n) = 8"
  using length_show_nat [of n 8] by (simp add: pad8_def Let_def)

lemma dec_value_pad8: "dec_value (pad8 n) = int n"
  by (simp add: pad8_def Let_def dec_value_show_nat)

lemma pad8_digits: "c \<in> set (pad8 n) \<Longrightarrow> digit c"
  by (auto simp: pad8_def Let_def digit_def dest: show_nat_digits[unfolded digit_def])

lemma dec_value_bounds:
  "(\<forall>c \<in> set s. digit c) \<Longrightarrow> 0 \<le> dec_value s \<and> dec_value s < 10 ^ length s"
proof (induction s)
  case (Cons c s)
  then have "0 \<le> c - 48" "c - 48 \<le> 9" by (auto simp: digit_def)
  then have "0 \<le> (c - 48) * 10 ^ length s" "(c - 48) * 10 ^ length s \<le> 9 * 10 ^ length s"
    by (simp_all add: mult_right_mono)
  moreover have "0 \<le> dec_value s \<and> dec_value s < 10 ^ length s" using Cons by simp
  ultimately have "(c - 48) * 10 ^ length s + dec_value s < 10 * 10 ^ length s" by linarith
  moreover have "0 \<le> (c - 48) * 10 ^ length s + dec_value s"
    using \<open>0 \<le> (c - 48) * 10 ^ length s\<close> \<open>0 \<le> dec_value s \<and> dec_value s < 10 ^ length s\<close> by linarith
  ultimately show ?case by simp
qed simp

text \<open>Equally long digit strings are ordered as the numbers they denote.\<close>

lemma dec_value_less_lex:
  assumes "length s = length t" "\<forall>c \<in> set s. digit c" "\<forall>c \<in> set t. digit c"
    "dec_value s < dec_value t"
  shows "s < t"
  using assms
proof (induction s t rule: list_induct2)
  case (Cons c s d t)
  let ?p = "10 ^ length s :: int"
  from Cons have b: "0 \<le> dec_value s" "dec_value t < ?p"
    using dec_value_bounds [of s] dec_value_bounds [of t] by auto
  show ?case
  proof (cases "c = d")
    case True
    with Cons show ?thesis by auto
  next
    case False
    have "c < d"
    proof (rule ccontr)
      assume "\<not> c < d"
      with False have "d + 1 \<le> c" by simp
      then have "(d - 48 + 1) * ?p \<le> (c - 48) * ?p" by (intro mult_right_mono) auto
      with b Cons.prems(3) Cons.hyps show False by (auto simp: algebra_simps)
    qed
    then show ?thesis by simp
  qed
qed simp

lemma pad8_less: "i < j \<Longrightarrow> j < 10 ^ 8 \<Longrightarrow> pad8 i < pad8 j"
  by (rule dec_value_less_lex)
    (simp_all add: length_pad8 dec_value_pad8 pad8_digits)

lemma after_colon_pad8 [simp]: "after_colon (pad8 n @ 58 # s) = s"
proof -
  have "\<forall>c \<in> set (pad8 n). c \<noteq> 58" using pad8_digits by (fastforce simp: digit_def)
  then show ?thesis by (simp add: after_colon_def dropWhile_append2)
qed

lemma less_append_same_length:
  fixes a b :: "'a::linorder list"
  shows "length a = length b \<Longrightarrow> a < b \<Longrightarrow> a @ x < b @ y"
  by (induction a b rule: list_induct2) auto

section \<open>Dictionaries\<close>

text \<open>
  A Python dictionary keeps its keys in insertion order: assigning to an existing key leaves its
  place, a new key goes to the end, deletion closes the gap. Association lists with
  \<^const>\<open>AList.update\<close>, \<^const>\<open>AList.delete\<close> and \<^const>\<open>AList.map_entry\<close> behave the same.
\<close>

type_synonym ('k, 'v) dict = "('k \<times> 'v) list"

abbreviation dget :: "('k, 'v) dict \<Rightarrow> 'k \<Rightarrow> 'v option" where
  "dget d k \<equiv> map_of d k"

definition dput :: "'k \<Rightarrow> 'v \<Rightarrow> ('k, 'v) dict \<Rightarrow> ('k, 'v) dict" where
  "dput k v d = AList.update k v d"

definition dpop :: "'k \<Rightarrow> ('k, 'v) dict \<Rightarrow> ('k, 'v) dict" where
  "dpop k d = AList.delete k d"

definition dmod :: "'k \<Rightarrow> ('v \<Rightarrow> 'v) \<Rightarrow> ('k, 'v) dict \<Rightarrow> ('k, 'v) dict" where
  "dmod k f d = AList.map_entry k f d"

definition dkeys :: "('k, 'v) dict \<Rightarrow> 'k list" where
  "dkeys d = map fst d"

definition dvals :: "('k, 'v) dict \<Rightarrow> 'v list" where
  "dvals d = map snd d"

definition dwf :: "('k, 'v) dict \<Rightarrow> bool" where
  "dwf d \<longleftrightarrow> distinct (dkeys d)"

lemma dkeys_simps [simp]: "dkeys [] = []" "dkeys ((k, v) # d) = k # dkeys d"
  by (simp_all add: dkeys_def)

lemma dget_dput [dict_simps]: "dget (dput k v d) = (dget d)(k \<mapsto> v)"
  by (simp add: dput_def update_conv' fun_upd_def)

lemma dget_dpop [dict_simps]: "dget (dpop k d) = (dget d)(k := None)"
  by (simp add: dpop_def delete_conv' fun_upd_def)

lemma dget_dmod [dict_simps]: "dget (dmod k f d) = (dget d)(k := map_option f (dget d k))"
  by (auto simp: dmod_def map_of_map_entry fun_eq_iff split: option.splits)

lemma dkeys_dmod [dict_simps]: "dkeys (dmod k f d) = dkeys d"
  by (induction d) (auto simp: dkeys_def dmod_def)

lemma set_dkeys_dput [dict_simps]: "set (dkeys (dput k v d)) = insert k (set (dkeys d))"
  by (simp add: dkeys_def dput_def dom_update)

lemma dwf_dput [dict_simps]: "dwf d \<Longrightarrow> dwf (dput k v d)"
  by (simp add: dwf_def dkeys_def dput_def distinct_update)

lemma dwf_dpop [dict_simps]: "dwf d \<Longrightarrow> dwf (dpop k d)"
  by (simp add: dwf_def dkeys_def dpop_def distinct_delete)

lemma dwf_dmod [dict_simps]: "dwf (dmod k f d) = dwf d"
  by (simp add: dwf_def dkeys_dmod)

lemma dwf_Nil [simp]: "dwf []"
  by (simp add: dwf_def dkeys_def)

lemma dget_iff_mem: "dwf d \<Longrightarrow> dget d k = Some v \<longleftrightarrow> (k, v) \<in> set d"
  by (simp add: dwf_def dkeys_def)

lemma dget_dkeys: "k \<in> set (dkeys d) \<longleftrightarrow> dget d k \<noteq> None"
  by (metis dkeys_def domIff dom_map_of_conv_image_fst list.set_map)

lemma dvals_iff: "dwf d \<Longrightarrow> v \<in> set (dvals d) \<longleftrightarrow> (\<exists>k. dget d k = Some v)"
  by (force simp: dvals_def dget_iff_mem)

lemma dmod_comp: "dmod k f (dmod k g d) = dmod k (f \<circ> g) d"
  by (induction d) (auto simp: dmod_def)

lemma dmod_id: "dget d k = Some v \<Longrightarrow> f v = v \<Longrightarrow> dmod k f d = d"
  by (induction d) (auto simp: dmod_def split: if_splits)

lemma dget_map_vals: "dget (map (\<lambda>(k, v). (k, f v)) d) k = map_option f (dget d k)"
  by (induction d) auto

lemma dget_zip_key: "distinct (map g xs) \<Longrightarrow>
    dget (map (\<lambda>x. (g x, f x)) xs) k = Some v \<longleftrightarrow> (\<exists>x \<in> set xs. g x = k \<and> f x = v)"
  by (induction xs) (auto split: if_splits simp: rev_image_eqI)

text \<open>The laws a component may rely on when it keeps objects in a keyed store.\<close>

locale keyed_store =
  fixes get :: "'s \<Rightarrow> 'k \<Rightarrow> 'v option"
    and put :: "'k \<Rightarrow> 'v \<Rightarrow> 's \<Rightarrow> 's"
    and pop :: "'k \<Rightarrow> 's \<Rightarrow> 's"
    and ok :: "'s \<Rightarrow> bool"
  assumes get_put: "get (put k v s) j = (if j = k then Some v else get s j)"
    and get_pop: "get (pop k s) j = (if j = k then None else get s j)"
    and ok_put: "ok s \<Longrightarrow> ok (put k v s)"
    and ok_pop: "ok s \<Longrightarrow> ok (pop k s)"
begin

lemma get_put_same: "get (put k v s) k = Some v"
  by (simp add: get_put)

lemma move_lookup:
  "get (pop k s) k = None \<and> get (put k v t) k = Some v"
  by (simp add: get_put get_pop)

lemma move_disjoint:
  "(\<And>j. get s j = None \<or> get t j = None) \<Longrightarrow> get (pop k s) j = None \<or> get (put k v t) j = None"
  by (auto simp: get_put get_pop)

lemma put_grows: "get t j \<noteq> None \<Longrightarrow> get (put k v t) j \<noteq> None"
  by (simp add: get_put)

end

interpretation dict: keyed_store "map_of" dput dpop dwf
  by unfold_locales (auto simp: dict_simps)

section \<open>Results\<close>

definition ok_part :: "'e + 'a \<Rightarrow> 'a option" where
  "ok_part r = (case r of Inl _ \<Rightarrow> None | Inr x \<Rightarrow> Some x)"

lemma ok_part_simps [simp]: "ok_part (Inr x) = Some x" "ok_part (Inl e) = None"
  by (simp_all add: ok_part_def)

lemma ok_part_Some [simp]: "ok_part r = Some x \<longleftrightarrow> r = Inr x"
  by (cases r) auto

lemma ok_part_eqI: "(\<And>x. r = Inr x \<longleftrightarrow> o' = Some x) \<Longrightarrow> ok_part r = o'"
  by (cases o'; cases r) auto

section \<open>State-and-exception computations\<close>

text \<open>
  A Python method mutates its object and may raise; what it changed before raising stays changed.
  So a computation maps a state to an error or a value, together with the new state in both cases.
\<close>

type_synonym ('s, 'e, 'a) proc = "'s \<Rightarrow> ('e + 'a) \<times> 's"

definition ret :: "'a \<Rightarrow> ('s, 'e, 'a) proc" where
  "ret x = (\<lambda>s. (Inr x, s))"

definition raise :: "'e \<Rightarrow> ('s, 'e, 'a) proc" where
  "raise e = (\<lambda>s. (Inl e, s))"

definition chain :: "('s, 'e, 'a) proc \<Rightarrow> ('a \<Rightarrow> ('s, 'e, 'b) proc) \<Rightarrow> ('s, 'e, 'b) proc" where
  "chain c f = (\<lambda>s. case c s of (Inl e, s') \<Rightarrow> (Inl e, s') | (Inr x, s') \<Rightarrow> f x s')"

definition andThen :: "('s, 'e, unit) proc \<Rightarrow> ('s, 'e, 'b) proc \<Rightarrow> ('s, 'e, 'b) proc" where
  "andThen c d = chain c (\<lambda>_. d)"

definition reads :: "('s \<Rightarrow> 'a) \<Rightarrow> ('s, 'e, 'a) proc" where
  "reads f = (\<lambda>s. (Inr (f s), s))"

definition modify :: "('s \<Rightarrow> 's) \<Rightarrow> ('s, 'e, unit) proc" where
  "modify f = (\<lambda>s. (Inr (), f s))"

text \<open>A lookup whose absence raises (\<open>d[k]\<close> with \<open>KeyError\<close>, or a caught and renamed one).\<close>

definition fetch :: "('s \<Rightarrow> 'a option) \<Rightarrow> 'e \<Rightarrow> ('s, 'e, 'a) proc" where
  "fetch f e = (\<lambda>s. case f s of None \<Rightarrow> (Inl e, s) | Some x \<Rightarrow> (Inr x, s))"

fun for_each :: "'a list \<Rightarrow> ('a \<Rightarrow> ('s, 'e, unit) proc) \<Rightarrow> ('s, 'e, unit) proc" where
  "for_each [] f = ret ()"
| "for_each (x # xs) f = andThen (f x) (for_each xs f)"

lemmas proc_defs [proc_simps] =
  ret_def raise_def chain_def andThen_def reads_def modify_def fetch_def

lemma chain_Inr: "c s = (Inr x, s') \<Longrightarrow> chain c f s = f x s'"
  by (simp add: chain_def)

lemma chain_Inl: "c s = (Inl e, s') \<Longrightarrow> chain c f s = (Inl e, s')"
  by (simp add: chain_def)

lemma andThen_Inr: "c s = (Inr (), s') \<Longrightarrow> andThen c d s = d s'"
  by (simp add: andThen_def chain_def)

lemma andThen_Inl: "c s = (Inl e, s') \<Longrightarrow> andThen c d s = (Inl e, s')"
  by (simp add: andThen_def chain_def)

lemma andThen_modify: "andThen (modify f) d s = d (f s)"
  by (simp add: andThen_def chain_def modify_def)

lemma chain_reads: "chain (reads f) g s = g (f s) s"
  by (simp add: chain_def reads_def)

text \<open>
  What a run of a computation leaves behind: an invariant of the state in every case, and no error
  outside a given set. The rules follow the computation forwards from a fixed state.
\<close>

definition keeps :: "('s \<Rightarrow> bool) \<Rightarrow> ('e \<Rightarrow> bool) \<Rightarrow> ('e + 'a) \<times> 's \<Rightarrow> bool" where
  "keeps I F r \<longleftrightarrow> I (snd r) \<and> (\<forall>e. fst r = Inl e \<longrightarrow> F e)"

lemma keeps_ret [keeps_rules]: "I s \<Longrightarrow> keeps I F (ret x s)"
  by (simp add: keeps_def proc_simps)

lemma keeps_raise [keeps_rules]: "I s \<Longrightarrow> F e \<Longrightarrow> keeps I F (raise e s)"
  by (simp add: keeps_def proc_simps)

lemma keeps_modify [keeps_rules]: "I (f s) \<Longrightarrow> keeps I F (modify f s)"
  by (simp add: keeps_def proc_simps)

lemma keeps_pair: "keeps I F (Inr x, s) \<longleftrightarrow> I s" "keeps I F (Inl e, s) \<longleftrightarrow> I s \<and> F e"
  by (simp_all add: keeps_def)

lemma keeps_chain:
  "keeps I F (c s) \<Longrightarrow> (\<And>x s'. c s = (Inr x, s') \<Longrightarrow> I s' \<Longrightarrow> keeps I F (f x s')) \<Longrightarrow>
     keeps I F (chain c f s)"
  by (cases "c s"; cases "fst (c s)") (auto simp: keeps_def chain_def)

lemma keeps_andThen:
  "keeps I F (c s) \<Longrightarrow> (\<And>s'. c s = (Inr (), s') \<Longrightarrow> I s' \<Longrightarrow> keeps I F (d s')) \<Longrightarrow>
     keeps I F (andThen c d s)"
  unfolding andThen_def by (rule keeps_chain) simp_all

lemma keeps_for_each:
  "I s \<Longrightarrow> (\<And>x s. x \<in> set xs \<Longrightarrow> I s \<Longrightarrow> keeps I F (f x s)) \<Longrightarrow> keeps I F (for_each xs f s)"
proof (induction xs arbitrary: s)
  case (Cons x xs)
  show ?case unfolding for_each.simps
    by (rule keeps_andThen) (use Cons in auto)
qed (simp add: keeps_ret)

lemma keeps_weaken:
  "keeps I F r \<Longrightarrow> (\<And>s. I s \<Longrightarrow> J s) \<Longrightarrow> (\<And>e. F e \<Longrightarrow> G e) \<Longrightarrow> keeps J G r"
  by (auto simp: keeps_def)

section \<open>State machines\<close>

text \<open>
  The contract between a transition system and an invariant, and what follows for every run. A
  component provides the two laws for its own steps and obtains the invariant of all its reachable
  states; \<open>stable\<close> properties, once true, stay true.
\<close>

locale state_machine =
  fixes init :: "'s \<Rightarrow> bool"
    and step :: "'s \<Rightarrow> 's \<Rightarrow> bool"
    and inv :: "'s \<Rightarrow> bool"
  assumes init_inv: "init s \<Longrightarrow> inv s"
    and step_inv: "inv s \<Longrightarrow> step s t \<Longrightarrow> inv t"
begin

lemma run_inv: "inv s \<Longrightarrow> step\<^sup>*\<^sup>* s t \<Longrightarrow> inv t"
  by (rotate_tac, induction rule: rtranclp_induct) (auto intro: step_inv)

lemma runs_keep: "init s \<Longrightarrow> step\<^sup>*\<^sup>* s t \<Longrightarrow> inv t"
  using run_inv init_inv by blast

lemma run_stable:
  assumes "\<And>s t. inv s \<Longrightarrow> step s t \<Longrightarrow> P s \<Longrightarrow> P t" "inv s" "P s" "step\<^sup>*\<^sup>* s t"
  shows "P t"
  using assms(4) by (induction rule: rtranclp_induct) (use assms(1-3) run_inv in blast)+

end

end
