(* ===== verification/Chaos_Types.thy ===== *)
theory Chaos_Types
  imports Prelude
begin

text \<open>
  The data of the reference model, \<open>tools/chaos_lab/model.py\<close>: states, retry policy, tasks,
  workflows, workers, leases, events, actions, the model object itself, and its errors. Field names
  are the source's with a prefix per class (\<open>t_\<close> task, \<open>wf_\<close> workflow, \<open>wk_\<close> worker, \<open>ls_\<close> lease,
  \<open>ev_\<close> event, \<open>ac_\<close> action), because record selectors share one name space.
\<close>

section \<open>States\<close>

datatype workflow_state = WPending | WRunning | WSucceeded | WFailed | WCancelled

datatype task_state =
  Pending | Ready | Leased | Running | RetryWait | Succeeded | Failed | Cancelled

definition workflow_terminal :: "workflow_state \<Rightarrow> bool" where
  "workflow_terminal s \<longleftrightarrow> s \<in> {WSucceeded, WFailed, WCancelled}"

definition task_terminal :: "task_state \<Rightarrow> bool" where
  "task_terminal s \<longleftrightarrow> s \<in> {Succeeded, Failed, Cancelled}"

text \<open>\<open>_ALLOWED_TASK_TRANSITIONS\<close>.\<close>

fun allowed_task_transitions :: "task_state \<Rightarrow> task_state list" where
  "allowed_task_transitions Pending = [Ready, Cancelled]"
| "allowed_task_transitions Ready = [Leased, Cancelled]"
| "allowed_task_transitions Leased = [Running, Ready, Cancelled]"
| "allowed_task_transitions Running = [RetryWait, Succeeded, Failed, Ready, Cancelled]"
| "allowed_task_transitions RetryWait = [Ready, Cancelled]"
| "allowed_task_transitions Succeeded = []"
| "allowed_task_transitions Failed = []"
| "allowed_task_transitions Cancelled = []"

datatype action_kind =
  RegisterWorker | Heartbeat | LeaseTask | Start | Renew | Log | CompleteSuccess | CompleteFailure
  | AdvanceTime | Sweep | CancelWorkflow | DropWorker | StaleComplete | StaleRenew
  | DuplicateComplete

datatype event_type =
  Workflow_created | Workflow_started | Workflow_succeeded | Workflow_failed | Workflow_cancelled
  | Worker_registered | Worker_heartbeat | Task_ready | Task_leased | Task_started | Task_log
  | Task_succeeded | Task_retry | Task_failed | Lease_expired

text \<open>The codes passed to \<open>reject\<close>, the keys of the \<open>rejections\<close> counter.\<close>

datatype reject_code =
  Worker_dropped | Worker_expired | Stale_lease | Invalid_start_state | Invalid_stream
  | Log_chunk_too_large | Task_output_limit | Invalid_complete_state | Not_stale | Unknown_lease
  | Not_completed | Duplicate_completion | Lease_is_expired

section \<open>Retry policy\<close>

record retry_policy =
  max_attempts :: int
  base_delay_ms :: int
  max_delay_ms :: int

definition default_retry :: retry_policy where
  "default_retry = \<lparr>max_attempts = 1, base_delay_ms = 250, max_delay_ms = 30000\<rparr>"

definition normalized :: "retry_policy \<Rightarrow> retry_policy" where
  "normalized p =
     (let attempts = min 100 (max 1 (max_attempts p));
          base = max 1 (base_delay_ms p);
          maximum = max base (max_delay_ms p)
      in \<lparr>max_attempts = attempts, base_delay_ms = base, max_delay_ms = maximum\<rparr>)"

fun delay_loop :: "nat \<Rightarrow> int \<Rightarrow> int \<Rightarrow> int" where
  "delay_loop 0 maximum delay = delay"
| "delay_loop (Suc k) maximum delay =
     (let delay' = min maximum (delay * 2)
      in if delay' = maximum then delay' else delay_loop k maximum delay')"

definition delay_for_attempt :: "retry_policy \<Rightarrow> int \<Rightarrow> int" where
  "delay_for_attempt p attempt =
     (let policy = normalized p; exponent = max 0 (attempt - 1)
      in delay_loop (nat exponent) (max_delay_ms policy) (base_delay_ms policy))"

lemma normalized_idem [simp]: "normalized (normalized p) = normalized p"
  by (simp add: normalized_def Let_def)

lemma normalized_bounds:
  "1 \<le> max_attempts (normalized p)" "max_attempts (normalized p) \<le> 100"
  "1 \<le> base_delay_ms (normalized p)" "base_delay_ms (normalized p) \<le> max_delay_ms (normalized p)"
  by (simp_all add: normalized_def Let_def)

lemma delay_loop_closed:
  "1 \<le> delay \<Longrightarrow> delay \<le> maximum \<Longrightarrow> delay_loop k maximum delay = min maximum (delay * 2 ^ k)"
proof (induction k arbitrary: delay)
  case 0
  then show ?case by simp
next
  case (Suc k)
  have p: "(1::int) \<le> 2 ^ k" by simp
  show ?case
  proof (cases "maximum \<le> delay * 2")
    case True
    have "delay * 2 * 1 \<le> delay * 2 * 2 ^ k"
      using p Suc.prems(1) by (intro mult_left_mono) auto
    with True have "maximum \<le> delay * 2 ^ Suc k" by (simp add: mult.assoc)
    with True show ?thesis by (simp add: min_def)
  next
    case False
    with Suc show ?thesis by (simp add: min_def mult.assoc)
  qed
qed

section \<open>Records\<close>

record task =
  t_id :: pystr
  t_depends_on :: "pystr list"
  t_labels :: "(pystr, pystr) dict"
  t_retry :: retry_policy
  t_timeout_ms :: int
  t_state :: task_state
  t_attempt :: int
  t_lease_token :: pystr
  t_lease_owner :: pystr
  t_lease_until_ms :: "int option"
  t_next_retry_ms :: "int option"
  t_started_ms :: "int option"
  t_finished_ms :: "int option"
  t_exit_code :: "int option"
  t_error :: pystr
  t_output_bytes :: int
  t_history :: "task_state list"

record workflow =
  wf_id :: pystr
  wf_name :: pystr
  wf_tasks :: "(pystr, task) dict"
  wf_order :: "pystr list"
  wf_created_ms :: int
  wf_state :: workflow_state
  wf_finished_ms :: "int option"
  wf_metadata :: "(pystr, pystr) dict"

text \<open>The set \<open>active_tokens\<close> is a list without repetitions.\<close>

record worker =
  wk_id :: pystr
  wk_name :: pystr
  wk_capacity :: int
  wk_labels :: "(pystr, pystr) dict"
  wk_registered_ms :: int
  wk_heartbeat_ms :: int
  wk_active_tokens :: "pystr list"
  wk_dropped :: bool

record lease =
  ls_token :: pystr
  ls_workflow_id :: pystr
  ls_task_id :: pystr
  ls_worker_id :: pystr
  ls_attempt :: int
  ls_acquired_ms :: int
  ls_expires_ms :: int
  ls_started :: bool
  ls_closed :: bool

record event =
  ev_sequence :: int
  ev_type :: event_type
  ev_at_ms :: int
  ev_workflow_id :: pystr
  ev_task_id :: pystr
  ev_worker_id :: pystr
  ev_data :: "(pystr, pystr) dict"

record action =
  ac_kind :: action_kind
  ac_workflow_id :: pystr
  ac_task_id :: pystr
  ac_worker_id :: pystr
  ac_token :: pystr
  ac_amount :: int
  ac_text :: pystr

record model =
  now_ms :: int
  lease_duration_ms :: int
  worker_ttl_ms :: int
  output_limit_bytes :: int
  log_chunk_limit_bytes :: int
  workflows :: "(pystr, workflow) dict"
  workers :: "(pystr, worker) dict"
  leases :: "(pystr, lease) dict"
  closed_leases :: "(pystr, lease) dict"
  events :: "event list"
  rejections :: "(reject_code, int) dict"
  sequence_no :: int
  id_counter :: int

section \<open>Errors\<close>

text \<open>
  One constructor per \<open>raise\<close> of the model. \<open>Rejected\<close> is what \<open>reject\<close> raises; the last three are
  not \<open>ModelError\<close>s: a \<open>ValueError\<close> of a constructor, a \<open>KeyError\<close> of an unguarded lookup, and the
  \<open>UnicodeEncodeError\<close> of encoding a lone surrogate. Messages are not modelled.
\<close>

datatype chaos_error =
  Rejected reject_code
  | UnknownWorker pystr
  | UnknownWorkflow pystr
  | LeaseMissingTask
  | InvalidTransition task_state task_state pystr pystr
  | WorkflowExists
  | EmptyWorkflow
  | DuplicateTask pystr
  | SelfDependency pystr
  | RepeatedDependency pystr pystr
  | UnknownDependency pystr pystr
  | DependencyCycle
  | BadCapacity
  | WorkerExists
  | TimeBackwards
  | CannotExpireLive
  | BadValue
  | MissingKey
  | BadEncoding

definition is_model_error :: "chaos_error \<Rightarrow> bool" where
  "is_model_error e \<longleftrightarrow> e \<notin> {BadValue, MissingKey, BadEncoding}"

section \<open>Construction\<close>

text \<open>\<open>Task.__post_init__\<close>, which \<open>clone\<close> runs again through \<open>dataclasses.replace\<close>.\<close>

definition task_post_init :: "task \<Rightarrow> chaos_error + task" where
  "task_post_init t =
     (let t' = t\<lparr>t_retry := normalized (t_retry t)\<rparr>
      in if t_id t' = [] then Inl BadValue
         else if t_timeout_ms t' < 0 then Inl BadValue
         else Inr t')"

definition task_clone :: "task \<Rightarrow> chaos_error + task" where
  "task_clone t = task_post_init t"

definition new_task ::
  "pystr \<Rightarrow> pystr list \<Rightarrow> (pystr, pystr) dict \<Rightarrow> retry_policy \<Rightarrow> int \<Rightarrow> chaos_error + task" where
  "new_task i deps labels retry timeout =
     task_post_init \<lparr>t_id = i, t_depends_on = deps, t_labels = labels, t_retry = retry,
       t_timeout_ms = timeout, t_state = Pending, t_attempt = 0, t_lease_token = [],
       t_lease_owner = [], t_lease_until_ms = None, t_next_retry_ms = None, t_started_ms = None,
       t_finished_ms = None, t_exit_code = None, t_error = [], t_output_bytes = 0,
       t_history = []\<rparr>"

lemma task_clone_id: "task_post_init t = Inr t' \<Longrightarrow> task_clone t' = Inr t'"
  by (auto simp: task_post_init_def task_clone_def Let_def split: if_splits)

text \<open>\<open>Model.__init__\<close>.\<close>

definition new_model :: "int \<Rightarrow> int \<Rightarrow> int \<Rightarrow> int \<Rightarrow> chaos_error + model" where
  "new_model lease_duration worker_ttl output_limit chunk_limit =
     (if lease_duration \<le> 0 then Inl BadValue
      else if worker_ttl \<le> 0 then Inl BadValue
      else Inr \<lparr>now_ms = 0, lease_duration_ms = lease_duration, worker_ttl_ms = worker_ttl,
        output_limit_bytes = output_limit, log_chunk_limit_bytes = chunk_limit,
        workflows = [], workers = [], leases = [], closed_leases = [], events = [],
        rejections = [], sequence_no = 0, id_counter = 0\<rparr>)"

definition default_model :: "chaos_error + model" where
  "default_model = new_model 20000 45000 (32 * 1024 * 1024) (64 * 1024)"

end
