(* ===== verification/Dag.thy ===== *)
theory Dag
  imports Prelude "HOL-Library.Multiset"
begin

text \<open>
  Dependency graphs. Three places of the repository order a graph by the same loop of Kahn: the
  reference model (\<open>Model.validate_dag\<close>), the workflow DSL (\<open>topological_order\<close>) and the client's
  builder (\<open>WorkflowBuilder._topological_order\<close>). This theory holds that loop, the abstract order it
  computes (always the least task whose dependencies are done), the proof that the loop computes
  it, what the order guarantees, and the contract \<open>topo_sorter\<close> that the three components provide.
\<close>

section \<open>Topological orders\<close>

fun topo_from :: "('a \<Rightarrow> 'a list) \<Rightarrow> 'a set \<Rightarrow> 'a list \<Rightarrow> bool" where
  "topo_from deps dn [] = True"
| "topo_from deps dn (v # vs) = (set (deps v) \<subseteq> dn \<and> topo_from deps (insert v dn) vs)"

definition dep_edges :: "('a \<Rightarrow> 'a list) \<Rightarrow> 'a set \<Rightarrow> ('a \<times> 'a) set" where
  "dep_edges deps V = {(d, v). v \<in> V \<and> d \<in> set (deps v)}"

lemma topo_from_append:
  "topo_from deps dn (xs @ ys) \<longleftrightarrow> topo_from deps dn xs \<and> topo_from deps (dn \<union> set xs) ys"
  by (induction xs arbitrary: dn) auto

lemma topo_from_mono: "topo_from deps dn xs \<Longrightarrow> dn \<subseteq> dn' \<Longrightarrow> topo_from deps dn' xs"
  by (induction xs arbitrary: dn dn') (auto, metis insert_mono)

lemma topo_from_prefix:
  assumes "topo_from deps {} order" "i < length order"
  shows "set (deps (order ! i)) \<subseteq> set (take i order)"
proof -
  have "order = take i order @ order ! i # drop (Suc i) order"
    using assms(2) by (simp add: id_take_nth_drop)
  with assms(1) have "topo_from deps {} (take i order @ order ! i # drop (Suc i) order)" by simp
  then show ?thesis by (simp add: topo_from_append)
qed

lemma topo_from_closed:
  "topo_from deps {} xs \<Longrightarrow> v \<in> set xs \<Longrightarrow> set (deps v) \<subseteq> set xs"
  using topo_from_prefix [of deps xs] by (metis in_set_conv_nth set_take_subset subset_trans)

text \<open>A graph with a topological order has no cycle.\<close>

lemma topo_from_acyclic:
  assumes "topo_from deps {} order" "set order = V" "distinct order"
  shows "acyclic (dep_edges deps V)"
proof -
  define rank where "rank v = (LEAST i. i < length order \<and> order ! i = v)" for v
  have rank: "rank (order ! i) = i" if "i < length order" for i
    unfolding rank_def
    by (rule Least_equality) (use that assms(3) in \<open>auto simp: nth_eq_iff_index_eq\<close>)
  have "dep_edges deps V \<subseteq> measure rank"
  proof (clarsimp simp: dep_edges_def)
    fix d v assume "v \<in> V" and d: "d \<in> set (deps v)"
    then obtain i where i: "i < length order" "order ! i = v"
      using assms(2) by (auto simp: in_set_conv_nth)
    have "d \<in> set (take i order)" using topo_from_prefix [OF assms(1) i(1)] d i(2) by auto
    then obtain j where "j < i" "order ! j = d" by (auto simp: in_set_conv_nth)
    with i rank [of i] rank [of j] show "rank d < rank v" by auto
  qed
  then have "wf (dep_edges deps V)" by (rule wf_subset [OF wf_measure])
  then show ?thesis by (rule wf_acyclic)
qed

section \<open>The abstract order\<close>

text \<open>Always the least task, of those left, whose dependencies are all done.\<close>

function least_topo :: "('a::linorder \<Rightarrow> 'a list) \<Rightarrow> 'a list \<Rightarrow> 'a list \<Rightarrow> 'a list" where
  "least_topo deps dn rest =
     (case filter (\<lambda>v. set (deps v) \<subseteq> set dn) rest of
        [] \<Rightarrow> []
      | a # as \<Rightarrow> (let v = Min (set (a # as)) in v # least_topo deps (dn @ [v]) (remove1 v rest)))"
  by pat_completeness auto
termination
proof (relation "measure (\<lambda>(deps, dn, rest). length rest)", goal_cases)
  case (2 deps dn rest a as v)
  have "v \<in> set (a # as)" unfolding 2(2) by (rule Min_in) auto
  then have "v \<in> set rest" using 2(1) by (metis filter_is_subset subsetD)
  then show ?case using length_pos_if_in_set [of v rest] by (simp add: length_remove1)
qed auto

declare least_topo.simps [simp del]

lemma least_topo_Nil [simp]: "least_topo deps dn [] = []"
  by (subst least_topo.simps) simp

lemma least_topo_stop:
  "(\<And>v. v \<in> set rest \<Longrightarrow> \<not> set (deps v) \<subseteq> set dn) \<Longrightarrow> least_topo deps dn rest = []"
  by (subst least_topo.simps) (simp add: filter_False)

lemma least_topo_step:
  assumes "v \<in> set rest" "set (deps v) \<subseteq> set dn"
    "\<And>u. u \<in> set rest \<Longrightarrow> set (deps u) \<subseteq> set dn \<Longrightarrow> v \<le> u"
  shows "least_topo deps dn rest = v # least_topo deps (dn @ [v]) (remove1 v rest)"
proof -
  let ?av = "filter (\<lambda>v. set (deps v) \<subseteq> set dn) rest"
  have v: "v \<in> set ?av" using assms by simp
  then obtain a as where av: "?av = a # as" by (cases ?av) auto
  have "Min (set ?av) = v" by (rule Min_eqI) (use assms v in auto)
  then show ?thesis by (subst least_topo.simps) (simp add: av Let_def del: set_simps(2))
qed

lemma least_topo_cases:
  obtains "least_topo deps dn rest = []" "\<And>v. v \<in> set rest \<Longrightarrow> \<not> set (deps v) \<subseteq> set dn"
  | v where "v \<in> set rest" "set (deps v) \<subseteq> set dn"
      "\<And>u. u \<in> set rest \<Longrightarrow> set (deps u) \<subseteq> set dn \<Longrightarrow> v \<le> u"
      "least_topo deps dn rest = v # least_topo deps (dn @ [v]) (remove1 v rest)"
proof (cases "\<exists>v \<in> set rest. set (deps v) \<subseteq> set dn")
  case True
  let ?A = "{v \<in> set rest. set (deps v) \<subseteq> set dn}"
  have "finite ?A" "?A \<noteq> {}" using True by auto
  then have "Min ?A \<in> ?A" "\<And>u. u \<in> ?A \<Longrightarrow> Min ?A \<le> u" by (rule Min_in, simp)
  then show ?thesis using that(2) [of "Min ?A"] least_topo_step [of "Min ?A" rest deps dn] by blast
next
  case False
  then show ?thesis using that(1) least_topo_stop by metis
qed

lemma least_topo_facts:
  "distinct rest \<Longrightarrow> set dn \<inter> set rest = {} \<Longrightarrow>
     distinct (least_topo deps dn rest) \<and> set (least_topo deps dn rest) \<subseteq> set rest
     \<and> topo_from deps (set dn) (least_topo deps dn rest)
     \<and> (\<forall>v \<in> set rest - set (least_topo deps dn rest).
          \<not> set (deps v) \<subseteq> set dn \<union> set (least_topo deps dn rest))"
proof (induction "length rest" arbitrary: dn rest)
  case 0
  then show ?case by simp
next
  case (Suc n)
  show ?case
  proof (rule least_topo_cases [of deps dn rest])
    assume "least_topo deps dn rest = []" "\<And>v. v \<in> set rest \<Longrightarrow> \<not> set (deps v) \<subseteq> set dn"
    then show ?thesis by simp
  next
    fix v assume v: "v \<in> set rest" "set (deps v) \<subseteq> set dn"
      and eq: "least_topo deps dn rest = v # least_topo deps (dn @ [v]) (remove1 v rest)"
    have len: "n = length (remove1 v rest)" using Suc.hyps(2) v(1) by (simp add: length_remove1)
    have "set (dn @ [v]) \<inter> set (remove1 v rest) = {}"
      using Suc.prems v(1) by auto
    from Suc.hyps(1) [OF len _ this] Suc.prems v show ?thesis
      by (auto simp: eq)
  qed
qed

lemmas least_topo_distinct = least_topo_facts [THEN conjunct1]
lemmas least_topo_subset = least_topo_facts [THEN conjunct2, THEN conjunct1]
lemmas least_topo_topo = least_topo_facts [THEN conjunct2, THEN conjunct2, THEN conjunct1]
lemmas least_topo_stuck = least_topo_facts [THEN conjunct2, THEN conjunct2, THEN conjunct2]

definition topo_order :: "('a::linorder \<Rightarrow> 'a list) \<Rightarrow> 'a list \<Rightarrow> 'a list" where
  "topo_order deps V = least_topo deps [] V"

lemma least_topo_cong:
  "(\<And>v. v \<in> set vs \<Longrightarrow> d1 v = d2 v) \<Longrightarrow> least_topo d1 dn vs = least_topo d2 dn vs"
proof (induction d1 dn vs rule: least_topo.induct)
  case (1 deps dn vs)
  have same: "filter (\<lambda>v. set (deps v) \<subseteq> set dn) vs = filter (\<lambda>v. set (d2 v) \<subseteq> set dn) vs"
    using 1(2) by (intro filter_cong) auto
  show ?case
  proof (cases "filter (\<lambda>v. set (deps v) \<subseteq> set dn) vs")
    case Nil
    then show ?thesis using same by (simp add: least_topo.simps [of _ dn vs])
  next
    case (Cons a as)
    let ?v = "Min (set (a # as))"
    have "least_topo deps (dn @ [?v]) (remove1 ?v vs) = least_topo d2 (dn @ [?v]) (remove1 ?v vs)"
      by (rule 1(1) [OF Cons refl]) (use 1(2) in \<open>auto dest: notin_set_remove1\<close>)
    then show ?thesis
      using Cons same by (simp add: least_topo.simps [of _ dn vs] Let_def)
  qed
qed

lemma least_topo_perm: "mset vs = mset us \<Longrightarrow> least_topo deps dn vs = least_topo deps dn us"
proof (induction deps dn vs arbitrary: us rule: least_topo.induct)
  case (1 deps dn vs)
  let ?free = "\<lambda>xs. filter (\<lambda>v. set (deps v) \<subseteq> set dn) xs"
  have same: "set (?free us) = set (?free vs)" using 1(2) by (metis mset_filter set_mset_mset)
  show ?case
  proof (cases "?free vs")
    case Nil
    then have "?free us = []" using same by simp
    with Nil show ?thesis by (simp add: least_topo.simps [of deps dn])
  next
    case (Cons a as)
    then obtain b bs where b: "?free us = b # bs" using same by (cases "?free us") auto
    have min: "Min (set (b # bs)) = Min (set (a # as))" using same unfolding Cons b by simp
    let ?v = "Min (set (a # as))"
    have "least_topo deps (dn @ [?v]) (remove1 ?v vs) = least_topo deps (dn @ [?v]) (remove1 ?v us)"
      by (rule 1(1) [OF Cons refl]) (simp add: 1(2))
    then show ?thesis
      by (simp only: least_topo.simps [of deps dn] Cons b list.case Let_def min)
  qed
qed

text \<open>The order lists every task exactly when the graph has no cycle.\<close>

lemma topo_order_complete_iff:
  assumes V: "distinct V" and closed: "\<And>v. v \<in> set V \<Longrightarrow> set (deps v) \<subseteq> set V"
  shows "length (topo_order deps V) = length V \<longleftrightarrow> acyclic (dep_edges deps (set V))"
proof -
  let ?o = "topo_order deps V"
  have facts: "distinct ?o" "set ?o \<subseteq> set V" "topo_from deps {} ?o"
    "\<And>v. v \<in> set V - set ?o \<Longrightarrow> \<not> set (deps v) \<subseteq> set ?o"
    using least_topo_facts [OF V, of "[]" deps] by (auto simp: topo_order_def)
  have len: "length ?o = length V \<longleftrightarrow> set ?o = set V"
    using facts(1,2) V by (metis card_subset_eq distinct_card finite_set)
  show ?thesis unfolding len
  proof
    assume "set ?o = set V"
    with facts show "acyclic (dep_edges deps (set V))" by (intro topo_from_acyclic) auto
  next
    assume acy: "acyclic (dep_edges deps (set V))"
    have "dep_edges deps (set V) \<subseteq> set V \<times> set V" using closed by (auto simp: dep_edges_def)
    then have "finite (dep_edges deps (set V))" by (rule finite_subset) simp
    from finite_acyclic_wf [OF this acy] have wf: "wf (dep_edges deps (set V))" .
    show "set ?o = set V"
    proof (rule ccontr)
      assume "set ?o \<noteq> set V"
      with facts(2) obtain v where "v \<in> set V - set ?o" by auto
      from wfE_min [OF wf this] obtain z where z: "z \<in> set V - set ?o"
        and min: "\<And>y. (y, z) \<in> dep_edges deps (set V) \<Longrightarrow> y \<notin> set V - set ?o" by metis
      from facts(4) [OF z] obtain d where "d \<in> set (deps z)" "d \<notin> set ?o" by auto
      with min [of d] z closed [of z] show False by (auto simp: dep_edges_def)
    qed
  qed
qed

lemma topo_order_full:
  assumes "distinct V" "length (topo_order deps V) = length V"
  shows "distinct (topo_order deps V)" "set (topo_order deps V) = set V"
    "topo_from deps {} (topo_order deps V)"
proof -
  have facts: "distinct (topo_order deps V)" "set (topo_order deps V) \<subseteq> set V"
    "topo_from deps {} (topo_order deps V)"
    using least_topo_facts [OF assms(1), of "[]" deps] by (auto simp: topo_order_def)
  then show "distinct (topo_order deps V)" "topo_from deps {} (topo_order deps V)" by auto
  show "set (topo_order deps V) = set V"
    using facts(1,2) assms by (metis card_subset_eq distinct_card finite_set)
qed

section \<open>The loop of the code\<close>

text \<open>
  \<open>for child in children: indegree[child] -= 1; if indegree[child] == 0: ready.append(child);
  ready.sort()\<close>, then the outer \<open>while ready\<close> loop. The in-degrees are a dictionary.
\<close>

fun relax :: "'a::linorder list \<Rightarrow> ('a, int) dict \<Rightarrow> 'a list \<Rightarrow> ('a, int) dict \<times> 'a list" where
  "relax [] indeg ready = (indeg, ready)"
| "relax (c # cs) indeg ready =
     (let indeg' = dmod c (\<lambda>n. n - 1) indeg
      in if dget indeg' c = Some 0 then relax cs indeg' (sort (ready @ [c]))
         else relax cs indeg' ready)"

definition positives :: "('a, int) dict \<Rightarrow> nat" where
  "positives indeg = length (filter (\<lambda>(k, n). 0 < n) indeg)"

lemma positives_dec:
  "positives (dmod c (\<lambda>n. n - 1) d) + (if dget (dmod c (\<lambda>n. n - 1) d) c = Some 0 then 1 else 0)
     \<le> positives d"
  by (induction d) (auto simp: positives_def dmod_def)

lemma relax_measure:
  "relax cs d r = (d', r') \<Longrightarrow> length r' + positives d' \<le> length r + positives d"
proof (induction cs d r rule: relax.induct)
  case (2 c cs d r)
  then show ?case
    using positives_dec [of c d] by (auto simp: Let_def split: if_splits)
qed simp

function kahn_loop ::
  "('a::linorder \<Rightarrow> 'a list) \<Rightarrow> ('a, int) dict \<Rightarrow> 'a list \<Rightarrow> 'a list \<Rightarrow> 'a list" where
  "kahn_loop children indeg [] order = order"
| "kahn_loop children indeg (current # ready) order =
     (case relax (children current) indeg ready of
        (indeg', ready') \<Rightarrow> kahn_loop children indeg' ready' (order @ [current]))"
  by pat_completeness auto
termination
proof (relation "measure (\<lambda>(children, indeg, ready, order). length ready + positives indeg)",
    goal_cases)
  case (2 children indeg current ready order)
  note relax_measure [OF 2 [symmetric]]
  then show ?case by simp
qed auto

lemma relax_spec:
  assumes "relax cs indeg ready = (indeg', ready')"
    and "\<And>v. v \<in> V \<Longrightarrow> dget indeg v = Some (n v)" and "set cs \<subseteq> V"
    and "\<And>v. v \<in> V \<Longrightarrow> int (count_list cs v) \<le> n v"
    and "sorted ready" "distinct ready" "\<And>v. v \<in> set ready \<Longrightarrow> v \<in> V \<and> n v = 0"
  shows "(\<forall>v \<in> V. dget indeg' v = Some (n v - int (count_list cs v)))
    \<and> sorted ready' \<and> distinct ready'
    \<and> set ready' = set ready \<union> {v \<in> set cs. n v = int (count_list cs v)}"
  using assms
proof (induction cs indeg ready arbitrary: n rule: relax.induct)
  case (1 indeg ready)
  then show ?case by auto
next
  case (2 c cs indeg ready)
  let ?d = "dmod c (\<lambda>n. n - 1) indeg" and ?n = "n(c := n c - 1)"
  have c: "c \<in> V" and cs: "set cs \<subseteq> V" using "2.prems"(3) by auto
  have look: "\<And>v. v \<in> V \<Longrightarrow> dget ?d v = Some (?n v)"
    using "2.prems"(2) by (auto simp: dget_dmod)
  have low: "\<And>v. v \<in> V \<Longrightarrow> int (count_list cs v) \<le> ?n v"
    using "2.prems"(4) by (force split: if_splits)
  have pos: "1 \<le> n c" using "2.prems"(4) [OF c] by simp
  have fresh: "c \<notin> set ready" using "2.prems"(7) pos by force
  show ?case
  proof (cases "dget ?d c = Some 0")
    case True
    then have n1: "n c = 1" using look [OF c] by simp
    have none: "count_list cs c = 0" using low [OF c] n1 by simp
    have ready: "\<And>v. v \<in> set (sort (ready @ [c])) \<Longrightarrow> v \<in> V \<and> ?n v = 0"
      using "2.prems"(7) n1 c by auto
    have "relax cs ?d (sort (ready @ [c])) = (indeg', ready')"
      using "2.prems"(1) True by (simp add: Let_def)
    from "2.IH"(1) [OF refl True this look cs low _ _ ready]
    have "(\<forall>v \<in> V. dget indeg' v = Some (?n v - int (count_list cs v)))
      \<and> sorted ready' \<and> distinct ready'
      \<and> set ready' = set (sort (ready @ [c])) \<union> {v \<in> set cs. ?n v = int (count_list cs v)}"
      using "2.prems"(6) fresh by auto
    moreover have "c \<notin> set cs" using none by (simp add: count_list_0_iff)
    ultimately show ?thesis using n1 none by auto
  next
    case False
    have ready: "\<And>v. v \<in> set ready \<Longrightarrow> v \<in> V \<and> ?n v = 0"
      using "2.prems"(7) fresh by auto
    have "relax cs ?d ready = (indeg', ready')"
      using "2.prems"(1) False by (simp add: Let_def)
    from "2.IH"(2) [OF refl False this look cs low "2.prems"(5,6) ready]
    have "(\<forall>v \<in> V. dget indeg' v = Some (?n v - int (count_list cs v)))
      \<and> sorted ready' \<and> distinct ready'
      \<and> set ready' = set ready \<union> {v \<in> set cs. ?n v = int (count_list cs v)}" by blast
    moreover have "?n c \<noteq> 0" using False look [OF c] by simp
    ultimately show ?thesis by (auto split: if_splits)
  qed
qed

text \<open>What links the loop's variables to the graph.\<close>

definition kahn_inv ::
  "('a::linorder \<Rightarrow> 'a list) \<Rightarrow> 'a list \<Rightarrow> ('a \<Rightarrow> 'a list) \<Rightarrow> ('a, int) dict \<Rightarrow> 'a list \<Rightarrow> 'a list \<Rightarrow> bool"
where
  "kahn_inv deps V children indeg ready order \<longleftrightarrow>
     distinct V \<and> distinct order \<and> set order \<subseteq> set V
     \<and> (\<forall>v \<in> set order. set (deps v) \<subseteq> set order)
     \<and> (\<forall>v \<in> set V. dget indeg v = Some (int (length (filter (\<lambda>d. d \<notin> set order) (deps v)))))
     \<and> sorted ready \<and> distinct ready
     \<and> set ready = {v \<in> set V. v \<notin> set order \<and> set (deps v) \<subseteq> set order}
     \<and> (\<forall>c \<in> set V. set (children c) \<subseteq> set V)
     \<and> (\<forall>c \<in> set V. \<forall>v \<in> set V. count_list (children c) v = count_list (deps v) c)"

lemma filter_not_done_step:
  "c \<notin> set order \<Longrightarrow> length (filter (\<lambda>d. d \<notin> set (order @ [c])) ds) + count_list ds c
     = length (filter (\<lambda>d. d \<notin> set order) ds)"
  by (induction ds) auto

lemma kahn_inv_step:
  assumes inv: "kahn_inv deps V children indeg (cur # ready) order"
    and rel: "relax (children cur) indeg ready = (indeg', ready')"
  shows "kahn_inv deps V children indeg' ready' (order @ [cur])"
proof -
  let ?n = "\<lambda>v. int (length (filter (\<lambda>d. d \<notin> set order) (deps v)))"
  note I = inv [unfolded kahn_inv_def]
  have cur: "cur \<in> set V" "cur \<notin> set order" "set (deps cur) \<subseteq> set order" using I by auto
  have cnt: "\<And>v. v \<in> set V \<Longrightarrow> count_list (children cur) v = count_list (deps v) cur"
    and sub: "set (children cur) \<subseteq> set V" using I cur(1) by auto
  have step: "\<And>v. ?n v = int (length (filter (\<lambda>d. d \<notin> set (order @ [cur])) (deps v)))
      + int (count_list (deps v) cur)"
    by (simp only: filter_not_done_step [OF cur(2), symmetric] of_nat_add)
  have zero: "?n v = 0 \<longleftrightarrow> set (deps v) \<subseteq> set order" for v
    by (auto simp: filter_empty_conv)
  have spec: "(\<forall>v \<in> set V. dget indeg' v = Some (?n v - int (count_list (children cur) v)))
    \<and> sorted ready' \<and> distinct ready'
    \<and> set ready' = set ready \<union> {v \<in> set (children cur). ?n v = int (count_list (children cur) v)}"
  proof (rule relax_spec [OF rel])
    show "int (count_list (children cur) v) \<le> ?n v" if "v \<in> set V" for v
      using step [of v] cnt [OF that] by linarith
    show "v \<in> set V \<and> ?n v = 0" if "v \<in> set ready" for v using I that zero by auto
  qed (use I sub in auto)
  have left: "?n v = int (count_list (deps v) cur) \<longleftrightarrow> set (deps v) \<subseteq> set (order @ [cur])" for v
    using step [of v] by (auto simp: filter_empty_conv)
  have kids: "v \<in> set (children cur) \<longleftrightarrow> v \<in> set V \<and> cur \<in> set (deps v)" for v
    using cnt sub by (metis count_list_0_iff subsetD)
  have "set ready' = {v \<in> set V. v \<notin> set (order @ [cur]) \<and> set (deps v) \<subseteq> set (order @ [cur])}"
  proof -
    have "set ready = {v \<in> set V. v \<notin> set order \<and> set (deps v) \<subseteq> set order} - {cur}"
      using I by auto
    moreover have "{v \<in> set (children cur). ?n v = int (count_list (children cur) v)}
      = {v \<in> set V. cur \<in> set (deps v) \<and> set (deps v) \<subseteq> set (order @ [cur])}"
      using kids cnt left by auto
    moreover have "\<And>v. v \<in> set (order @ [cur]) \<Longrightarrow> cur \<notin> set (deps v)" using I cur by auto
    ultimately show ?thesis using spec by auto
  qed
  moreover have "\<forall>v \<in> set V. dget indeg' v
      = Some (int (length (filter (\<lambda>d. d \<notin> set (order @ [cur])) (deps v))))"
    using spec step cnt by auto
  ultimately show ?thesis using I cur spec unfolding kahn_inv_def by auto
qed

lemma kahn_loop_refines:
  "kahn_inv deps V children indeg ready order \<Longrightarrow>
     kahn_loop children indeg ready order
     = order @ least_topo deps order (filter (\<lambda>v. v \<notin> set order) V)"
proof (induction children indeg ready order rule: kahn_loop.induct)
  case (1 children indeg order)
  then have "least_topo deps order (filter (\<lambda>v. v \<notin> set order) V) = []"
    by (intro least_topo_stop) (auto simp: kahn_inv_def)
  then show ?case by simp
next
  case (2 children indeg cur ready order)
  obtain indeg' ready' where rel: "relax (children cur) indeg ready = (indeg', ready')"
    by fastforce
  note I = "2.prems" [unfolded kahn_inv_def]
  let ?rest = "filter (\<lambda>v. v \<notin> set order) V"
  have "set (cur # ready) = {v \<in> set V. v \<notin> set order \<and> set (deps v) \<subseteq> set order}"
    "sorted (cur # ready)" using I by blast+
  then have step: "least_topo deps order ?rest
      = cur # least_topo deps (order @ [cur]) (remove1 cur ?rest)"
    by (intro least_topo_step) (auto simp: set_eq_iff)
  have "remove1 cur ?rest = filter (\<lambda>v. v \<noteq> cur) ?rest"
    using I by (simp add: distinct_remove1_removeAll removeAll_filter_not_eq) metis
  also have "\<dots> = filter (\<lambda>v. v \<notin> set (order @ [cur])) V" by (auto intro: filter_cong)
  finally have "remove1 cur ?rest = filter (\<lambda>v. v \<notin> set (order @ [cur])) V" .
  then show ?case
    using "2.IH" [OF rel [symmetric] kahn_inv_step [OF "2.prems" rel]] rel step by simp
qed

text \<open>So the loop, started on the graph's in-degrees, computes the abstract order.\<close>

lemma kahn_start:
  assumes "distinct V" "\<And>v. v \<in> set V \<Longrightarrow> dget indeg v = Some (int (length (deps v)))"
    and "dwf indeg" "set (dkeys indeg) = set V"
    and "\<And>c. c \<in> set V \<Longrightarrow> set (children c) \<subseteq> set V"
    and "\<And>c v. c \<in> set V \<Longrightarrow> v \<in> set V \<Longrightarrow> count_list (children c) v = count_list (deps v) c"
  shows "kahn_loop children indeg (sort (map fst (filter (\<lambda>(k, n). n = 0) indeg))) []
    = topo_order deps V"
proof -
  let ?ready = "sort (map fst (filter (\<lambda>(k, n). n = 0) indeg))"
  have "distinct (map fst indeg)" using assms(3) by (simp add: dwf_def dkeys_def)
  then have dist: "distinct ?ready" by (simp add: distinct_map_filter)
  have "set ?ready = {v \<in> set V. set (deps v) \<subseteq> {}}"
  proof -
    have "k \<in> set ?ready \<longleftrightarrow> dget indeg k = Some 0" for k
      using dget_iff_mem [OF assms(3)] by force
    moreover have "dget indeg k = Some 0 \<longleftrightarrow> k \<in> set V \<and> deps k = []" for k
      using assms(2,4) dget_dkeys [of k indeg] by (cases "k \<in> set V") auto
    ultimately show ?thesis by auto
  qed
  with assms dist have "kahn_inv deps V children indeg ?ready []"
    unfolding kahn_inv_def by simp
  from kahn_loop_refines [OF this] show ?thesis by (simp add: topo_order_def)
qed

section \<open>The contract of a topological sorter\<close>

text \<open>
  A graph is a list of tasks with their dependencies; it is well formed when ids are unique and no
  dependency is unknown or repeated. A sorter returns the abstract order, or nothing on a cycle.
\<close>

type_synonym 'a graph = "('a \<times> 'a list) list"

definition gdeps :: "'a graph \<Rightarrow> 'a \<Rightarrow> 'a list" where
  "gdeps g v = (case dget g v of None \<Rightarrow> [] | Some ds \<Rightarrow> ds)"

definition graph_ok :: "'a graph \<Rightarrow> bool" where
  "graph_ok g \<longleftrightarrow> g \<noteq> [] \<and> dwf g
     \<and> (\<forall>(v, ds) \<in> set g. v \<notin> set ds \<and> distinct ds \<and> set ds \<subseteq> set (dkeys g))"

definition graph_acyclic :: "'a graph \<Rightarrow> bool" where
  "graph_acyclic g \<longleftrightarrow> acyclic (dep_edges (gdeps g) (set (dkeys g)))"

lemma gdeps_mem: "dwf g \<Longrightarrow> (v, ds) \<in> set g \<Longrightarrow> gdeps g v = ds"
  by (simp add: gdeps_def dwf_def dkeys_def)

locale topo_sorter =
  fixes sorter :: "('a::linorder) graph \<Rightarrow> 'a list option"
  assumes sorter: "graph_ok g \<Longrightarrow> sorter g =
    (if length (topo_order (gdeps g) (dkeys g)) = length g
     then Some (topo_order (gdeps g) (dkeys g)) else None)"
begin

lemma closed: "graph_ok g \<Longrightarrow> v \<in> set (dkeys g) \<Longrightarrow> set (gdeps g v) \<subseteq> set (dkeys g)"
  by (fastforce simp: graph_ok_def dkeys_def dest: gdeps_mem)

lemma accepts_iff: "graph_ok g \<Longrightarrow> sorter g \<noteq> None \<longleftrightarrow> graph_acyclic g"
  using topo_order_complete_iff [of "dkeys g" "gdeps g"] closed [of g]
  by (simp add: sorter graph_acyclic_def) (simp add: graph_ok_def dwf_def dkeys_def)

lemma order_sound:
  assumes "graph_ok g" "sorter g = Some order"
  shows "distinct order" "set order = set (dkeys g)" "topo_from (gdeps g) {} order"
proof -
  have "distinct (dkeys g)" using assms(1) by (simp add: graph_ok_def dwf_def)
  moreover have "order = topo_order (gdeps g) (dkeys g)"
    "length (topo_order (gdeps g) (dkeys g)) = length (dkeys g)"
    using assms by (auto simp: sorter dkeys_def split: if_splits)
  ultimately show "distinct order" "set order = set (dkeys g)" "topo_from (gdeps g) {} order"
    using topo_order_full by metis+
qed

lemma dependency_first:
  assumes "graph_ok g" "sorter g = Some order" "i < length order"
  shows "set (gdeps g (order ! i)) \<subseteq> set (take i order)"
  using topo_from_prefix order_sound(3) assms by metis

text \<open>Two sorters that keep the contract agree.\<close>

lemma sorters_agree: "topo_sorter other \<Longrightarrow> graph_ok g \<Longrightarrow> other g = sorter g"
  by (simp add: sorter topo_sorter.sorter)

end

section \<open>In-degrees and children\<close>

text \<open>
  The loops \<open>indegree[task.id] += 1; children[dependency].append(task.id)\<close> over the tasks and
  their dependencies, \<open>children\<close> being a \<open>defaultdict(list)\<close>.
\<close>

definition dlist :: "('k, 'v list) dict \<Rightarrow> 'k \<Rightarrow> 'v list" where
  "dlist d k = (case dget d k of None \<Rightarrow> [] | Some vs \<Rightarrow> vs)"

definition dappend :: "'k \<Rightarrow> 'v \<Rightarrow> ('k, 'v list) dict \<Rightarrow> ('k, 'v list) dict" where
  "dappend k v d = dput k (dlist d k @ [v]) d"

lemma dlist_dappend [dict_simps]:
  "dlist (dappend k v d) j = (if j = k then dlist d k @ [v] else dlist d j)"
  by (simp add: dlist_def dappend_def dict_simps)

lemma dlist_Nil [simp]: "dlist [] k = []"
  by (simp add: dlist_def)

fun add_edges ::
  "'a \<Rightarrow> 'a list \<Rightarrow> ('a, int) dict \<times> ('a, 'a list) dict \<Rightarrow> ('a, int) dict \<times> ('a, 'a list) dict" where
  "add_edges t [] s = s"
| "add_edges t (d # ds) (indeg, ch) = add_edges t ds (dmod t (\<lambda>n. n + 1) indeg, dappend d t ch)"

fun add_graph ::
  "'a graph \<Rightarrow> ('a, int) dict \<times> ('a, 'a list) dict \<Rightarrow> ('a, int) dict \<times> ('a, 'a list) dict" where
  "add_graph [] s = s"
| "add_graph ((t, ds) # g) s = add_graph g (add_edges t ds s)"

definition zero_degrees :: "'a graph \<Rightarrow> ('a, int) dict" where
  "zero_degrees g = fold (\<lambda>(t, _) d. dput t 0 d) g []"

lemma add_edges_spec:
  "add_edges t ds (indeg, ch) = (indeg', ch') \<Longrightarrow>
     dget indeg' v = (if v = t then map_option (\<lambda>n. n + int (length ds)) (dget indeg t) else dget indeg v)
     \<and> dkeys indeg' = dkeys indeg
     \<and> count_list (dlist ch' c) v = count_list (dlist ch c) v + (if v = t then count_list ds c else 0)"
proof (induction ds arbitrary: indeg ch)
  case (Cons d ds)
  have "add_edges t ds (dmod t (\<lambda>n. n + 1) indeg, dappend d t ch) = (indeg', ch')"
    using Cons.prems by simp
  from Cons.IH [OF this] show ?case
    by (cases "dget indeg t") (auto simp: dict_simps)
qed (auto simp: option.map_id0 option.map_ident)

lemma add_graph_spec:
  "add_graph g (indeg, ch) = (indeg', ch') \<Longrightarrow> dwf g \<Longrightarrow>
     dget indeg' v = map_option (\<lambda>n. n + int (length (gdeps g v))) (dget indeg v)
     \<and> dkeys indeg' = dkeys indeg
     \<and> count_list (dlist ch' c) v = count_list (dlist ch c) v + count_list (gdeps g v) c"
proof (induction g arbitrary: indeg ch)
  case Nil
  then show ?case by (simp add: gdeps_def option.map_ident)
next
  case (Cons e g)
  obtain t ds where e: "e = (t, ds)" by fastforce
  obtain indeg1 ch1 where one: "add_edges t ds (indeg, ch) = (indeg1, ch1)" by fastforce
  have two: "add_graph g (indeg1, ch1) = (indeg', ch')" using Cons.prems(1) e one by simp
  have wf: "dwf g" "dget g t = None" using Cons.prems(2) e
    by (auto simp: dwf_def dkeys_def map_of_eq_None_iff)
  show ?case
    using Cons.IH [OF two wf(1)] add_edges_spec [OF one, of v c] wf(2) e
    by (auto simp: gdeps_def option.map_comp comp_def split: if_splits)
qed

lemma zero_degrees_spec:
  "dwf (zero_degrees g) \<and> set (dkeys (zero_degrees g)) = set (dkeys g)
   \<and> dget (zero_degrees g) v = (if v \<in> set (dkeys g) then Some 0 else None)"
proof -
  have "dwf d \<Longrightarrow> dwf (fold (\<lambda>(t, _) d. dput t (0::int) d) g d)
    \<and> set (dkeys (fold (\<lambda>(t, _) d. dput t 0 d) g d)) = set (dkeys d) \<union> set (dkeys g)
    \<and> dget (fold (\<lambda>(t, _) d. dput t 0 d) g d) v
      = (if v \<in> set (dkeys g) then Some 0 else dget d v)" for d
    by (induction g arbitrary: d) (auto simp: dict_simps split: prod.splits)
  from this [of "[]"] show ?thesis by (simp add: zero_degrees_def)
qed

lemma count_list_sort [simp]: "count_list (sort xs) x = count_list xs x"
  by (metis count_mset mset_sort)

text \<open>The loop, run on what the two nested loops built from a graph, gives the abstract order.\<close>

lemma kahn_graph_from:
  assumes ok: "dwf g" "\<And>v. v \<in> set (dkeys g) \<Longrightarrow> set (gdeps g v) \<subseteq> set (dkeys g)"
    and empty: "\<And>c. dlist ch0 c = []"
    and built: "add_graph g (zero_degrees g, ch0) = (indeg, ch)"
  shows "kahn_loop (\<lambda>c. sort (dlist ch c)) indeg (sort (map fst (filter (\<lambda>(k, n). n = 0) indeg))) []
    = topo_order (gdeps g) (dkeys g)"
proof (rule kahn_start)
  note spec = add_graph_spec [OF built ok(1)]
  show "distinct (dkeys g)" using ok(1) by (simp add: dwf_def)
  show "dget indeg v = Some (int (length (gdeps g v)))" if "v \<in> set (dkeys g)" for v
    using spec [of v] zero_degrees_spec [of g v] that by simp
  show "dwf indeg" "set (dkeys indeg) = set (dkeys g)"
    using spec zero_degrees_spec [of g] by (auto simp: dwf_def)
  show cnt: "count_list (sort (dlist ch c)) v = count_list (gdeps g v) c" for c v
    using spec [of v c] empty by simp
  show "set (sort (dlist ch c)) \<subseteq> set (dkeys g)" for c
  proof
    fix v assume "v \<in> set (sort (dlist ch c))"
    then have "count_list (gdeps g v) c \<noteq> 0" using cnt [of c v] by (metis count_list_0_iff)
    then have "gdeps g v \<noteq> []" by auto
    then show "v \<in> set (dkeys g)"
      by (auto simp: gdeps_def dget_dkeys split: option.splits)
  qed
qed

lemma kahn_graph:
  assumes "dwf g" "\<And>v. v \<in> set (dkeys g) \<Longrightarrow> set (gdeps g v) \<subseteq> set (dkeys g)"
    and "add_graph g (zero_degrees g, []) = (indeg, ch)"
  shows "kahn_loop (\<lambda>c. sort (dlist ch c)) indeg (sort (map fst (filter (\<lambda>(k, n). n = 0) indeg))) []
    = topo_order (gdeps g) (dkeys g)"
  by (rule kahn_graph_from [OF assms(1,2) _ assms(3)]) simp_all

end
