(* ===== verification/Chaos_Dag.thy ===== *)
theory Chaos_Dag
  imports Chaos_Types Dag
begin

text \<open>
  \<open>Model.validate_dag\<close>: the checks in the order the code makes them, the in-degree and children
  dictionaries, the loop of Kahn and the final length test; then what it accepts and returns.
\<close>

section \<open>The code\<close>

fun index_tasks :: "task list \<Rightarrow> (pystr, task) dict \<Rightarrow> chaos_error + (pystr, task) dict" where
  "index_tasks [] by_id = Inr by_id"
| "index_tasks (t # ts) by_id =
     (if dget by_id (t_id t) \<noteq> None then Inl (DuplicateTask (t_id t))
      else index_tasks ts (dput (t_id t) t by_id))"

fun scan_deps ::
  "pystr \<Rightarrow> pystr list \<Rightarrow> pystr list \<Rightarrow> (pystr, task) dict \<Rightarrow>
   (pystr, int) dict \<times> (pystr, pystr list) dict \<Rightarrow>
   chaos_error + (pystr, int) dict \<times> (pystr, pystr list) dict" where
  "scan_deps tid [] seen by_id acc = Inr acc"
| "scan_deps tid (d # ds) seen by_id (indegree, children) =
     (if d = tid then Inl (SelfDependency tid)
      else if d \<in> set seen then Inl (RepeatedDependency tid d)
      else if dget by_id d = None then Inl (UnknownDependency tid d)
      else scan_deps tid ds (d # seen) by_id
             (dmod tid (\<lambda>n. n + 1) indegree, dappend d tid children))"

fun scan_tasks ::
  "task list \<Rightarrow> (pystr, task) dict \<Rightarrow> (pystr, int) dict \<times> (pystr, pystr list) dict \<Rightarrow>
   chaos_error + (pystr, int) dict \<times> (pystr, pystr list) dict" where
  "scan_tasks [] by_id acc = Inr acc"
| "scan_tasks (t # ts) by_id acc =
     (case scan_deps (t_id t) (t_depends_on t) [] by_id acc of
        Inl e \<Rightarrow> Inl e
      | Inr acc' \<Rightarrow> scan_tasks ts by_id acc')"

definition validate_dag :: "task list \<Rightarrow> chaos_error + pystr list" where
  "validate_dag tasks =
     (if tasks = [] then Inl EmptyWorkflow
      else case index_tasks tasks [] of
        Inl e \<Rightarrow> Inl e
      | Inr by_id \<Rightarrow>
          (case scan_tasks tasks by_id (fold (\<lambda>t d. dput (t_id t) 0 d) tasks [], []) of
             Inl e \<Rightarrow> Inl e
           | Inr (indegree, children) \<Rightarrow>
               (let ready = sort (map fst (filter (\<lambda>(k, n). n = 0) indegree));
                    order = kahn_loop (\<lambda>c. sort (dlist children c)) indegree ready []
                in if length order \<noteq> length tasks then Inl DependencyCycle else Inr order)))"

section \<open>What it accepts\<close>

definition task_graph :: "task list \<Rightarrow> pystr graph" where
  "task_graph tasks = map (\<lambda>t. (t_id t, t_depends_on t)) tasks"

lemma dkeys_task_graph [simp]: "dkeys (task_graph ts) = map t_id ts"
  by (simp add: task_graph_def dkeys_def)

lemma length_task_graph [simp]: "length (task_graph ts) = length ts"
  by (simp add: task_graph_def)

lemma task_graph_Nil [simp]: "task_graph ts = [] \<longleftrightarrow> ts = []"
  by (simp add: task_graph_def)

lemma index_tasks_Inr:
  "index_tasks ts d = Inr d' \<longleftrightarrow>
     distinct (map t_id ts) \<and> (\<forall>t \<in> set ts. dget d (t_id t) = None)
     \<and> d' = fold (\<lambda>t e. dput (t_id t) t e) ts d"
  by (induction ts arbitrary: d) (auto simp: dict_simps, metis image_eqI)

lemma dget_fold_dput:
  "dget (fold (\<lambda>t e. dput (t_id t) t e) ts d) k = None \<longleftrightarrow> dget d k = None \<and> k \<notin> t_id ` set ts"
  by (induction ts arbitrary: d) (auto simp: dict_simps)

lemma scan_deps_Inr:
  "scan_deps tid ds seen by_id acc = Inr acc' \<longleftrightarrow>
     tid \<notin> set ds \<and> distinct ds \<and> set ds \<inter> set seen = {} \<and> (\<forall>d \<in> set ds. dget by_id d \<noteq> None)
     \<and> acc' = add_edges tid ds acc"
  by (induction tid ds seen by_id acc rule: scan_deps.induct) auto

lemma scan_tasks_Inr:
  "scan_tasks ts by_id acc = Inr acc' \<longleftrightarrow>
     (\<forall>t \<in> set ts. t_id t \<notin> set (t_depends_on t) \<and> distinct (t_depends_on t)
        \<and> (\<forall>d \<in> set (t_depends_on t). dget by_id d \<noteq> None))
     \<and> acc' = add_graph (task_graph ts) acc"
proof (induction ts arbitrary: acc)
  case (Cons t ts)
  let ?scan = "scan_deps (t_id t) (t_depends_on t) [] by_id acc"
  note one = scan_deps_Inr [of "t_id t" "t_depends_on t" "[]" by_id acc]
  show ?case
  proof (cases ?scan)
    case (Inl e)
    with one [of "add_edges (t_id t) (t_depends_on t) acc"] show ?thesis by auto
  next
    case (Inr acc1)
    then have "acc1 = add_edges (t_id t) (t_depends_on t) acc"
      "t_id t \<notin> set (t_depends_on t)" "distinct (t_depends_on t)"
      "\<forall>d \<in> set (t_depends_on t). dget by_id d \<noteq> None" using one by auto
    with Inr Cons.IH [of acc1] show ?thesis by (simp add: task_graph_def)
  qed
qed (auto simp: task_graph_def)

lemma graph_ok_tasks:
  "graph_ok (task_graph ts) \<longleftrightarrow> ts \<noteq> [] \<and> distinct (map t_id ts)
     \<and> (\<forall>t \<in> set ts. t_id t \<notin> set (t_depends_on t) \<and> distinct (t_depends_on t)
          \<and> set (t_depends_on t) \<subseteq> t_id ` set ts)"
  by (auto simp: graph_ok_def dwf_def) (auto simp: task_graph_def)

lemma zero_degrees_tasks:
  "fold (\<lambda>t d. dput (t_id t) 0 d) ts [] = zero_degrees (task_graph ts)"
proof -
  have "fold (\<lambda>t d. dput (t_id t) 0 d) ts d
    = fold (\<lambda>(k, _) d. dput k (0::int) d) (task_graph ts) d" for d
    by (induction ts arbitrary: d) (auto simp: task_graph_def)
  then show ?thesis by (simp add: zero_degrees_def)
qed

lemma validate_dag_Inr:
  "validate_dag ts = Inr order \<longleftrightarrow>
     graph_ok (task_graph ts)
     \<and> order = topo_order (gdeps (task_graph ts)) (map t_id ts) \<and> length order = length ts"
proof (cases "graph_ok (task_graph ts)")
  case True
  let ?g = "task_graph ts"
  let ?by_id = "fold (\<lambda>t e. dput (t_id t) t e) ts []"
  note ok = True [unfolded graph_ok_tasks]
  have idx: "index_tasks ts [] = Inr ?by_id" using ok by (simp add: index_tasks_Inr)
  obtain indeg ch where built: "add_graph ?g (zero_degrees ?g, []) = (indeg, ch)" by fastforce
  have scan: "scan_tasks ts ?by_id (zero_degrees ?g, []) = Inr (indeg, ch)"
    using ok by (auto simp: scan_tasks_Inr built dget_fold_dput [of _ "[]", simplified])
  have "dwf ?g" using ok by (simp add: dwf_def)
  moreover have "set (gdeps ?g v) \<subseteq> set (dkeys ?g)" if "v \<in> set (dkeys ?g)" for v
  proof -
    from that obtain t where "t \<in> set ts" "v = t_id t" by auto
    then have "(v, t_depends_on t) \<in> set ?g" by (auto simp: task_graph_def)
    with ok \<open>t \<in> set ts\<close> \<open>dwf ?g\<close> show ?thesis by (auto simp: gdeps_mem)
  qed
  ultimately have "kahn_loop (\<lambda>c. sort (dlist ch c)) indeg
      (sort (map fst (filter (\<lambda>(k, n). n = 0) indeg))) [] = topo_order (gdeps ?g) (map t_id ts)"
    using kahn_graph [OF _ _ built] by simp
  then show ?thesis
    using True ok by (auto simp: validate_dag_def idx zero_degrees_tasks scan Let_def)
next
  case False
  then show ?thesis
    by (auto simp: validate_dag_def graph_ok_tasks index_tasks_Inr scan_tasks_Inr
        dget_fold_dput [of _ "[]", simplified] Let_def subset_iff split: sum.splits if_splits)
qed

text \<open>The reference model provides the contract of a topological sorter.\<close>

definition graph_task :: "pystr \<times> pystr list \<Rightarrow> task" where
  "graph_task e = \<lparr>t_id = fst e, t_depends_on = snd e, t_labels = [], t_retry = default_retry,
     t_timeout_ms = 0, t_state = Pending, t_attempt = 0, t_lease_token = [],
     t_lease_owner = [], t_lease_until_ms = None, t_next_retry_ms = None, t_started_ms = None,
     t_finished_ms = None, t_exit_code = None, t_error = [], t_output_bytes = 0, t_history = []\<rparr>"

definition chaos_sorter :: "pystr graph \<Rightarrow> pystr list option" where
  "chaos_sorter g = ok_part (validate_dag (map graph_task g))"

lemma task_graph_graph_task [simp]: "task_graph (map graph_task g) = g"
  by (induction g) (auto simp: task_graph_def graph_task_def)

lemma map_t_id_graph_task: "map t_id (map graph_task g) = dkeys g"
  by (simp add: dkeys_def graph_task_def)

interpretation chaos: topo_sorter chaos_sorter
proof
  fix g :: "pystr graph"
  assume ok: "graph_ok g"
  let ?o = "topo_order (gdeps g) (dkeys g)"
  have "validate_dag (map graph_task g) = Inr order
      \<longleftrightarrow> (if length ?o = length g then Some ?o else None) = Some order" for order
    using validate_dag_Inr [of "map graph_task g" order] ok unfolding map_t_id_graph_task by auto
  then show "chaos_sorter g = (if length ?o = length g then Some ?o else None)"
    unfolding chaos_sorter_def by (rule ok_part_eqI)
qed

lemma chaos_sorter_tasks: "chaos_sorter (task_graph ts) = ok_part (validate_dag ts)"
  unfolding chaos_sorter_def
proof (rule ok_part_eqI)
  fix order
  have ids: "map t_id (map graph_task (task_graph ts)) = map t_id ts"
    by (simp add: task_graph_def graph_task_def)
  show "validate_dag (map graph_task (task_graph ts)) = Inr order
      \<longleftrightarrow> ok_part (validate_dag ts) = Some order"
    unfolding ok_part_Some validate_dag_Inr ids task_graph_graph_task by simp
qed

lemma validate_dag_accepts:
  "(\<exists>order. validate_dag ts = Inr order) \<longleftrightarrow>
     graph_ok (task_graph ts) \<and> graph_acyclic (task_graph ts)"
proof (cases "graph_ok (task_graph ts)")
  case True
  then show ?thesis
    using chaos.accepts_iff [OF True] by (auto simp: chaos_sorter_tasks)
qed (simp add: validate_dag_Inr)

lemma validate_dag_order:
  assumes "validate_dag ts = Inr order"
  shows "distinct order" "set order = t_id ` set ts" "topo_from (gdeps (task_graph ts)) {} order"
    "graph_ok (task_graph ts)" "length order = length ts"
proof -
  have ok: "graph_ok (task_graph ts)" and sorted: "chaos_sorter (task_graph ts) = Some order"
    using assms validate_dag_Inr [THEN iffD1, OF assms] by (simp_all add: chaos_sorter_tasks)
  from chaos.order_sound [OF this] ok assms show "distinct order" "set order = t_id ` set ts"
    "topo_from (gdeps (task_graph ts)) {} order" "graph_ok (task_graph ts)"
    "length order = length ts"
    using validate_dag_Inr [THEN iffD1, OF assms] by auto
qed

lemma gdeps_task_graph:
  "distinct (map t_id ts) \<Longrightarrow> t \<in> set ts \<Longrightarrow> gdeps (task_graph ts) (t_id t) = t_depends_on t"
  by (rule gdeps_mem) (auto simp: dwf_def task_graph_def dkeys_def comp_def)

end
