(* ===== verification/Chaos_Model.thy ===== *)
theory Chaos_Model
  imports Chaos_Dag
begin

text \<open>
  The operations of the reference model (class \<open>Model\<close>), one definition per method, in the order
  of the source. A method is a computation over the model's state: it returns a value or raises,
  and what it changed before raising stays changed. The objects a method holds a reference to are
  addressed by their keys and read where the code reads them. The digest of \<open>next_id\<close>
  (\<open>hashlib.blake2s(..., digest_size=6).hexdigest()\<close>) is the parameter \<open>digest\<close>.
\<close>

type_synonym 'a op = "(model, chaos_error, 'a) proc"

section \<open>Addressing the objects\<close>

definition task_lookup :: "model \<Rightarrow> pystr \<Rightarrow> pystr \<Rightarrow> task option" where
  "task_lookup m w t =
     (case dget (workflows m) w of None \<Rightarrow> None | Some flow \<Rightarrow> dget (wf_tasks flow) t)"

definition set_workflow :: "pystr \<Rightarrow> (workflow \<Rightarrow> workflow) \<Rightarrow> model \<Rightarrow> model" where
  "set_workflow w f m = m\<lparr>workflows := dmod w f (workflows m)\<rparr>"

definition set_task :: "pystr \<Rightarrow> pystr \<Rightarrow> (task \<Rightarrow> task) \<Rightarrow> model \<Rightarrow> model" where
  "set_task w t f m = set_workflow w (\<lambda>flow. flow\<lparr>wf_tasks := dmod t f (wf_tasks flow)\<rparr>) m"

definition set_worker :: "pystr \<Rightarrow> (worker \<Rightarrow> worker) \<Rightarrow> model \<Rightarrow> model" where
  "set_worker k f m = m\<lparr>workers := dmod k f (workers m)\<rparr>"

definition set_lease :: "pystr \<Rightarrow> (lease \<Rightarrow> lease) \<Rightarrow> model \<Rightarrow> model" where
  "set_lease tok f m = m\<lparr>leases := dmod tok f (leases m)\<rparr>"

definition the_task :: "pystr \<Rightarrow> pystr \<Rightarrow> task op" where
  "the_task w t = fetch (\<lambda>m. task_lookup m w t) MissingKey"

section \<open>Identifiers, events and rejections\<close>

definition id_text :: "pystr \<Rightarrow> int \<Rightarrow> int \<Rightarrow> pystr" where
  "id_text prefix counter now = prefix @ lit '':'' @ show_int counter @ lit '':'' @ show_int now"

definition next_id :: "(pystr \<Rightarrow> pystr) \<Rightarrow> pystr \<Rightarrow> pystr op" where
  "next_id digest prefix =
     andThen (modify (\<lambda>m. m\<lparr>id_counter := id_counter m + 1\<rparr>))
       (reads (\<lambda>m. prefix @ lit ''_'' @ digest (id_text prefix (id_counter m) (now_ms m))))"

definition emit_event ::
  "event_type \<Rightarrow> pystr \<Rightarrow> pystr \<Rightarrow> pystr \<Rightarrow> (pystr, pystr) dict \<Rightarrow> model \<Rightarrow> model" where
  "emit_event ty w t k d m =
     (let n = sequence_no m + 1;
          e = \<lparr>ev_sequence = n, ev_type = ty, ev_at_ms = now_ms m, ev_workflow_id = w,
               ev_task_id = t, ev_worker_id = k, ev_data = d\<rparr>
      in m\<lparr>sequence_no := n, events := events m @ [e]\<rparr>)"

definition emit ::
  "event_type \<Rightarrow> pystr \<Rightarrow> pystr \<Rightarrow> pystr \<Rightarrow> (pystr, pystr) dict \<Rightarrow> unit op" where
  "emit ty w t k d = modify (emit_event ty w t k d)"

definition count_rejection :: "reject_code \<Rightarrow> model \<Rightarrow> model" where
  "count_rejection c m =
     m\<lparr>rejections := dput c (1 + (case dget (rejections m) c of None \<Rightarrow> 0 | Some n \<Rightarrow> n))
                       (rejections m)\<rparr>"

definition reject :: "reject_code \<Rightarrow> 'a op" where
  "reject c = andThen (modify (count_rejection c)) (raise (Rejected c))"

section \<open>Lookups\<close>

definition require_workflow :: "pystr \<Rightarrow> workflow op" where
  "require_workflow w = fetch (\<lambda>m. dget (workflows m) w) (UnknownWorkflow w)"

definition require_worker :: "pystr \<Rightarrow> worker op" where
  "require_worker k = fetch (\<lambda>m. dget (workers m) k) (UnknownWorker k)"

definition require_active_lease :: "pystr \<Rightarrow> lease op" where
  "require_active_lease tok = (\<lambda>m.
     case dget (leases m) tok of
       Some l \<Rightarrow> (Inr l, m)
     | None \<Rightarrow> if dget (closed_leases m) tok \<noteq> None then reject Stale_lease m
               else reject Unknown_lease m)"

definition resolve_lease :: "lease \<Rightarrow> (workflow \<times> task \<times> worker) op" where
  "resolve_lease l =
     chain (require_workflow (ls_workflow_id l)) (\<lambda>flow.
     chain (case dget (wf_tasks flow) (ls_task_id l) of
              None \<Rightarrow> raise LeaseMissingTask | Some t \<Rightarrow> ret t) (\<lambda>t.
     chain (require_worker (ls_worker_id l)) (\<lambda>k. ret (flow, t, k))))"

definition labels_match :: "(pystr, pystr) dict \<Rightarrow> (pystr, pystr) dict \<Rightarrow> bool" where
  "labels_match worker_labels task_labels =
     list_all (\<lambda>(k, v). dget worker_labels k = Some v) task_labels"

section \<open>Transitions, leases, recomputation\<close>

definition transition_task :: "pystr \<Rightarrow> pystr \<Rightarrow> task_state \<Rightarrow> unit op" where
  "transition_task w t next_state =
     chain (the_task w t) (\<lambda>x.
       if next_state = t_state x then ret ()
       else if next_state \<notin> set (allowed_task_transitions (t_state x))
         then raise (InvalidTransition (t_state x) next_state w t)
       else modify (set_task w t (\<lambda>x. x\<lparr>t_state := next_state,
                                       t_history := t_history x @ [next_state]\<rparr>)))"

definition clear_lease_fields :: "task \<Rightarrow> task" where
  "clear_lease_fields x = x\<lparr>t_lease_token := [], t_lease_owner := [], t_lease_until_ms := None\<rparr>"

definition close_lease :: "lease \<Rightarrow> unit op" where
  "close_lease l =
     (if ls_closed l then ret ()
      else chain (resolve_lease l) (\<lambda>(flow, t, k).
        andThen (modify (\<lambda>m. m\<lparr>leases := dpop (ls_token l) (leases m)\<rparr>)) (
        andThen (modify (set_worker (ls_worker_id l)
          (\<lambda>k. k\<lparr>wk_active_tokens := removeAll (ls_token l) (wk_active_tokens k)\<rparr>))) (
        andThen (if t_lease_token t = ls_token l
                 then modify (set_task (ls_workflow_id l) (ls_task_id l) clear_lease_fields)
                 else ret ()) (
        modify (\<lambda>m. m\<lparr>closed_leases :=
                  dput (ls_token l) (l\<lparr>ls_closed := True\<rparr>) (closed_leases m)\<rparr>))))))"

definition expire_lease :: "pystr \<Rightarrow> unit op" where
  "expire_lease tok =
     chain (reads (\<lambda>m. (dget (leases m) tok, now_ms m))) (\<lambda>(found, now).
       case found of
         None \<Rightarrow> ret ()
       | Some l \<Rightarrow>
           if now < ls_expires_ms l then raise CannotExpireLive
           else chain (resolve_lease l) (\<lambda>(flow, t, k).
             andThen (close_lease l) (
             if t_state t \<in> {Leased, Running} \<and> \<not> workflow_terminal (wf_state flow)
             then andThen (modify (set_task (ls_workflow_id l) (ls_task_id l)
                    (\<lambda>x. x\<lparr>t_started_ms := None, t_finished_ms := None, t_exit_code := None,
                           t_error := []\<rparr>))) (
                  andThen (transition_task (ls_workflow_id l) (ls_task_id l) Ready) (
                  emit Lease_expired (ls_workflow_id l) (ls_task_id l) (ls_worker_id l)
                    [(lit ''token'', tok)]))
             else ret ())))"

definition ensure_live_lease :: "lease \<Rightarrow> unit op" where
  "ensure_live_lease l =
     chain (reads now_ms) (\<lambda>now.
       if ls_expires_ms l \<le> now then andThen (expire_lease (ls_token l)) (reject Lease_is_expired)
       else ret ())"

definition dep_states :: "pystr \<Rightarrow> pystr list \<Rightarrow> task_state list op" where
  "dep_states w ds =
     fetch (\<lambda>m. those (map (\<lambda>d. map_option t_state (task_lookup m w d)) ds)) MissingKey"

definition recompute_task :: "pystr \<Rightarrow> pystr \<Rightarrow> unit op" where
  "recompute_task w t =
     chain (the_task w t) (\<lambda>x.
     chain (reads now_ms) (\<lambda>now.
       if t_state x = Pending then
         chain (dep_states w (t_depends_on x)) (\<lambda>states.
           if list_ex (\<lambda>s. s \<in> {Failed, Cancelled}) states
           then andThen (modify (set_task w t (\<lambda>x. x\<lparr>t_finished_ms := Some now\<rparr>)))
                  (transition_task w t Cancelled)
           else if list_all (\<lambda>s. s = Succeeded) states
           then andThen (transition_task w t Ready) (emit Task_ready w t [] [])
           else ret ())
       else if t_state x = RetryWait then
         (if t_next_retry_ms x = None \<or> the (t_next_retry_ms x) \<le> now
          then andThen (modify (set_task w t
                 (\<lambda>x. x\<lparr>t_next_retry_ms := None, t_finished_ms := None\<rparr>))) (
               andThen (transition_task w t Ready) (emit Task_ready w t [] []))
          else ret ())
       else ret ()))"

text \<open>The second half of \<open>recompute\<close>: the workflow's new state from its tasks' states.\<close>

definition next_workflow_state :: "workflow_state \<Rightarrow> task_state list \<Rightarrow> workflow_state" where
  "next_workflow_state prev states =
     (if list_all (\<lambda>s. s = Succeeded) states then WSucceeded
      else if list_ex (\<lambda>s. s = Failed) states
              \<and> \<not> list_ex (\<lambda>s. s \<in> {Ready, Leased, Running, RetryWait}) states then WFailed
      else if prev = WPending then WRunning
      else prev)"

definition settle_workflow :: "pystr \<Rightarrow> workflow_state \<Rightarrow> unit op" where
  "settle_workflow w prev =
     chain (require_workflow w) (\<lambda>flow.
     chain (reads now_ms) (\<lambda>now.
       let after = next_workflow_state prev (map t_state (dvals (wf_tasks flow))) in
       andThen (modify (set_workflow w (\<lambda>flow. flow\<lparr>wf_state := after,
                  wf_finished_ms := (if after \<in> {WSucceeded, WFailed} then Some now
                                     else wf_finished_ms flow)\<rparr>))) (
       if after \<noteq> prev then
         (if after = WRunning then emit Workflow_started w [] [] []
          else if after = WSucceeded then emit Workflow_succeeded w [] [] []
          else if after = WFailed then emit Workflow_failed w [] [] []
          else ret ())
       else ret ())))"

definition recompute :: "pystr \<Rightarrow> unit op" where
  "recompute w =
     chain (require_workflow w) (\<lambda>flow.
       if workflow_terminal (wf_state flow) then ret ()
       else andThen (for_each (wf_order flow) (recompute_task w))
              (settle_workflow w (wf_state flow)))"

definition sweep :: "unit op" where
  "sweep =
     chain (reads (\<lambda>m. sort_key (\<lambda>l. (ls_expires_ms l, ls_token l))
                        (filter (\<lambda>l. ls_expires_ms l \<le> now_ms m) (dvals (leases m))))) (\<lambda>expired.
     andThen (for_each expired (\<lambda>l. expire_lease (ls_token l))) (
     chain (reads (\<lambda>m. sort (dkeys (workflows m)))) (\<lambda>ids. for_each ids recompute)))"

section \<open>Workflows and workers\<close>

text \<open>\<open>workflow_id or self.next_id("flow")\<close>: an absent or empty name is generated.\<close>

definition id_or_next :: "(pystr \<Rightarrow> pystr) \<Rightarrow> pystr \<Rightarrow> pystr option \<Rightarrow> pystr op" where
  "id_or_next digest prefix given =
     (case given of
        None \<Rightarrow> next_id digest prefix
      | Some w \<Rightarrow> if w = [] then next_id digest prefix else ret w)"

fun clone_all :: "task list \<Rightarrow> chaos_error + task list" where
  "clone_all [] = Inr []"
| "clone_all (t # ts) =
     (case task_clone t of Inl e \<Rightarrow> Inl e
      | Inr t' \<Rightarrow> (case clone_all ts of Inl e \<Rightarrow> Inl e | Inr ts' \<Rightarrow> Inr (t' # ts')))"

definition reset_task :: "task \<Rightarrow> task" where
  "reset_task t = t\<lparr>t_state := Pending, t_attempt := 0, t_lease_token := [], t_lease_owner := [],
     t_lease_until_ms := None, t_next_retry_ms := None, t_started_ms := None,
     t_finished_ms := None, t_exit_code := None, t_error := [], t_output_bytes := 0,
     t_history := []\<rparr>"

definition lift_result :: "chaos_error + 'a \<Rightarrow> 'a op" where
  "lift_result r = (case r of Inl e \<Rightarrow> raise e | Inr x \<Rightarrow> ret x)"

definition add_workflow ::
  "(pystr \<Rightarrow> pystr) \<Rightarrow> pystr \<Rightarrow> task list \<Rightarrow> pystr option \<Rightarrow> (pystr, pystr) dict \<Rightarrow> workflow op" where
  "add_workflow digest name tasks given metadata =
     chain (id_or_next digest (lit ''wf'') given) (\<lambda>w.
     chain (reads (\<lambda>m. dget (workflows m) w \<noteq> None)) (\<lambda>known.
     if known then raise WorkflowExists else
     chain (lift_result (validate_dag tasks)) (\<lambda>order.
     chain (lift_result (clone_all tasks)) (\<lambda>clones.
     let task_map = fold (\<lambda>t d. dput (t_id t) (reset_task t) d) clones [] in
     andThen (modify (\<lambda>m. m\<lparr>workflows := dput w
       \<lparr>wf_id = w, wf_name = name, wf_tasks = task_map, wf_order = order,
        wf_created_ms = now_ms m, wf_state = WPending, wf_finished_ms = None,
        wf_metadata = metadata\<rparr> (workflows m)\<rparr>)) (
     andThen (emit Workflow_created w [] [] [(lit ''name'', name)]) (
     andThen (recompute w) (
     require_workflow w)))))))"

definition register_worker ::
  "(pystr \<Rightarrow> pystr) \<Rightarrow> pystr \<Rightarrow> int \<Rightarrow> (pystr, pystr) dict \<Rightarrow> pystr option \<Rightarrow> worker op" where
  "register_worker digest name capacity labels given =
     (if capacity < 1 \<or> 256 < capacity then raise BadCapacity
      else chain (id_or_next digest (lit ''worker'') given) (\<lambda>k.
        chain (reads (\<lambda>m. case dget (workers m) k of None \<Rightarrow> False
                          | Some old \<Rightarrow> \<not> wk_dropped old)) (\<lambda>live.
        if live then raise WorkerExists else
        andThen (modify (\<lambda>m. m\<lparr>workers := dput k
          \<lparr>wk_id = k, wk_name = name, wk_capacity = capacity, wk_labels = labels,
           wk_registered_ms = now_ms m, wk_heartbeat_ms = now_ms m, wk_active_tokens = [],
           wk_dropped = False\<rparr> (workers m)\<rparr>)) (
        andThen (emit Worker_registered [] [] k [(lit ''name'', name)]) (
        require_worker k)))))"

definition heartbeat :: "pystr \<Rightarrow> worker op" where
  "heartbeat k =
     chain (require_worker k) (\<lambda>wk.
       if wk_dropped wk then reject Worker_dropped
       else andThen (modify (\<lambda>m. set_worker k (\<lambda>x. x\<lparr>wk_heartbeat_ms := now_ms m\<rparr>) m)) (
            andThen (emit Worker_heartbeat [] [] k []) (
            require_worker k)))"

definition drop_worker :: "pystr \<Rightarrow> unit op" where
  "drop_worker k =
     chain (require_worker k) (\<lambda>_. modify (set_worker k (\<lambda>x. x\<lparr>wk_dropped := True\<rparr>)))"

section \<open>Leasing\<close>

type_synonym candidate = "int \<times> pystr \<times> pystr"

definition workflow_candidates :: "(pystr, pystr) dict \<Rightarrow> workflow \<Rightarrow> candidate list option" where
  "workflow_candidates labels flow =
     map_option concat (those (map (\<lambda>(index, t).
        map_option (\<lambda>x. if t_state x \<noteq> Ready then []
                        else if \<not> labels_match labels (t_labels x) then []
                        else [(wf_created_ms flow, wf_id flow, pad8 index @ 58 # t)])
          (dget (wf_tasks flow) t))
       (enumerate 0 (wf_order flow))))"

fun collect_candidates ::
  "(pystr, pystr) dict \<Rightarrow> pystr list \<Rightarrow> candidate list \<Rightarrow> candidate list op" where
  "collect_candidates labels [] acc = ret acc"
| "collect_candidates labels (w # ws) acc =
     chain (require_workflow w) (\<lambda>flow.
       if wf_state flow \<notin> {WPending, WRunning} then collect_candidates labels ws acc
       else andThen (recompute w) (
            chain (require_workflow w) (\<lambda>flow.
            chain (fetch (\<lambda>_. workflow_candidates labels flow) MissingKey) (\<lambda>found.
              collect_candidates labels ws (acc @ found)))))"

definition grant_lease :: "(pystr \<Rightarrow> pystr) \<Rightarrow> pystr \<Rightarrow> pystr \<Rightarrow> pystr \<Rightarrow> lease op" where
  "grant_lease digest k w t =
     chain (next_id digest (lit ''lease'')) (\<lambda>tok.
     andThen (modify (set_task w t (\<lambda>x. x\<lparr>t_attempt := t_attempt x + 1\<rparr>))) (
     andThen (transition_task w t Leased) (
     andThen (modify (\<lambda>m. set_task w t (\<lambda>x. x\<lparr>t_lease_token := tok, t_lease_owner := k,
        t_lease_until_ms := Some (now_ms m + lease_duration_ms m), t_next_retry_ms := None\<rparr>) m)) (
     chain (the_task w t) (\<lambda>x.
     chain (reads (\<lambda>m. \<lparr>ls_token = tok, ls_workflow_id = w, ls_task_id = t, ls_worker_id = k,
        ls_attempt = t_attempt x, ls_acquired_ms = now_ms m,
        ls_expires_ms = now_ms m + lease_duration_ms m, ls_started = False, ls_closed = False\<rparr>)) (\<lambda>l.
     andThen (modify (\<lambda>m. m\<lparr>leases := dput tok l (leases m)\<rparr>)) (
     andThen (modify (set_worker k (\<lambda>x. x\<lparr>wk_active_tokens := List.insert tok (wk_active_tokens x)\<rparr>))) (
     andThen (emit Task_leased w t k
       [(lit ''attempt'', show_int (t_attempt x)), (lit ''token'', tok)]) (
     ret l)))))))))"

definition lease_next :: "(pystr \<Rightarrow> pystr) \<Rightarrow> pystr \<Rightarrow> lease option op" where
  "lease_next digest k =
     andThen sweep (
     chain (require_worker k) (\<lambda>wk.
     chain (reads (\<lambda>m. (now_ms m - wk_heartbeat_ms wk > worker_ttl_ms m, dkeys (workflows m))))
       (\<lambda>(expired, ids).
     if wk_dropped wk then reject Worker_dropped
     else if expired then reject Worker_expired
     else if int (length (wk_active_tokens wk)) \<ge> wk_capacity wk then ret None
     else chain (collect_candidates (wk_labels wk) ids []) (\<lambda>candidates.
       case sort candidates of
         [] \<Rightarrow> ret None
       | (_, w, encoded) # _ \<Rightarrow>
           (let t = after_colon encoded in
            chain (fetch (\<lambda>m. dget (workflows m) w) MissingKey) (\<lambda>flow.
            chain (the_task w t) (\<lambda>x.
            chain (grant_lease digest k w (t_id x)) (\<lambda>l. ret (Some l)))))))))"

definition start :: "pystr \<Rightarrow> lease op" where
  "start tok =
     chain (require_active_lease tok) (\<lambda>l.
     andThen (ensure_live_lease l) (
     chain (resolve_lease l) (\<lambda>(flow, x, k).
     let w = ls_workflow_id l; t = ls_task_id l in
     if t_lease_token x \<noteq> tok then reject Stale_lease
     else if t_state x = Leased then
       andThen (transition_task w t Running) (
       andThen (modify (\<lambda>m. set_task w t (\<lambda>x. x\<lparr>t_started_ms := Some (now_ms m)\<rparr>) m)) (
       andThen (modify (set_lease tok (\<lambda>l. l\<lparr>ls_started := True\<rparr>))) (
       andThen (emit Task_started w t (ls_worker_id l) []) (
       ret (l\<lparr>ls_started := True\<rparr>)))))
     else if t_state x \<noteq> Running then reject Invalid_start_state
     else ret l)))"

definition renew :: "pystr \<Rightarrow> lease op" where
  "renew tok =
     chain (require_active_lease tok) (\<lambda>l.
     andThen (ensure_live_lease l) (
     chain (resolve_lease l) (\<lambda>(flow, x, k).
     if t_lease_token x \<noteq> tok then reject Stale_lease
     else chain (reads (\<lambda>m. now_ms m + lease_duration_ms m)) (\<lambda>until.
       andThen (modify (set_lease tok (\<lambda>l. l\<lparr>ls_expires_ms := until\<rparr>))) (
       andThen (modify (set_task (ls_workflow_id l) (ls_task_id l)
                  (\<lambda>x. x\<lparr>t_lease_until_ms := Some until\<rparr>))) (
       ret (l\<lparr>ls_expires_ms := until\<rparr>)))))))"

definition append_log :: "pystr \<Rightarrow> pystr \<Rightarrow> pystr \<Rightarrow> unit op" where
  "append_log tok txt stream =
     chain (require_active_lease tok) (\<lambda>l.
     andThen (ensure_live_lease l) (
     chain (resolve_lease l) (\<lambda>(flow, x, k).
     let w = ls_workflow_id l; t = ls_task_id l in
     if stream \<notin> {lit ''stdout'', lit ''stderr''} then reject Invalid_stream
     else case utf8_len txt of
       None \<Rightarrow> raise BadEncoding
     | Some nbytes \<Rightarrow>
         chain (reads (\<lambda>m. (log_chunk_limit_bytes m, output_limit_bytes m))) (\<lambda>(chunk, limit).
         if chunk < nbytes then reject Log_chunk_too_large
         else if limit < t_output_bytes x + nbytes then reject Task_output_limit
         else andThen (modify (set_task w t (\<lambda>x. x\<lparr>t_output_bytes := t_output_bytes x + nbytes\<rparr>)))
                (emit Task_log w t (ls_worker_id l) [(lit ''stream'', stream), (lit ''text'', txt)])))))"

section \<open>Completion, cancellation, time\<close>

text \<open>The outcome of a finished attempt: success, a retry while the budget lasts, or failure.\<close>

definition report_outcome :: "lease \<Rightarrow> task \<Rightarrow> int \<Rightarrow> pystr \<Rightarrow> unit op" where
  "report_outcome l x exit_code err =
     (let w = ls_workflow_id l; t = ls_task_id l in
      if exit_code = 0 \<and> err = [] then
        andThen (transition_task w t Succeeded) (emit Task_succeeded w t (ls_worker_id l) [])
      else
        let policy = normalized (t_retry x) in
        if t_attempt x < max_attempts policy then
          andThen (transition_task w t RetryWait) (
          chain (reads (\<lambda>m. now_ms m + delay_for_attempt policy (t_attempt x))) (\<lambda>due.
          andThen (modify (set_task w t (\<lambda>x. x\<lparr>t_next_retry_ms := Some due\<rparr>)))
            (emit Task_retry w t (ls_worker_id l) [(lit ''next_retry_ms'', show_int due)])))
        else
          andThen (transition_task w t Failed)
            (emit Task_failed w t (ls_worker_id l)
              [(lit ''exit_code'', show_int exit_code), (lit ''error'', err)]))"

definition complete :: "pystr \<Rightarrow> int \<Rightarrow> pystr \<Rightarrow> workflow op" where
  "complete tok exit_code err =
     chain (require_active_lease tok) (\<lambda>l.
     andThen (ensure_live_lease l) (
     chain (resolve_lease l) (\<lambda>(flow, x, k).
     let w = ls_workflow_id l; t = ls_task_id l in
     if t_lease_token x \<noteq> tok then reject Stale_lease
     else
     chain (if t_state x = Leased then
              andThen (transition_task w t Running) (
              andThen (modify (\<lambda>m. set_task w t (\<lambda>x. x\<lparr>t_started_ms := Some (now_ms m)\<rparr>) m)) (
              andThen (modify (set_lease tok (\<lambda>l. l\<lparr>ls_started := True\<rparr>))) (
              ret (l\<lparr>ls_started := True\<rparr>))))
            else ret l) (\<lambda>l.
     chain (the_task w t) (\<lambda>x.
     if t_state x \<noteq> Running then reject Invalid_complete_state
     else
     andThen (modify (\<lambda>m. set_task w t (\<lambda>x. x\<lparr>t_finished_ms := Some (now_ms m),
                t_exit_code := Some exit_code, t_error := err\<rparr>) m)) (
     andThen (close_lease l) (
     andThen (report_outcome l x exit_code err) (
     andThen (recompute w) (
     require_workflow w)))))))))"

definition complete_success :: "pystr \<Rightarrow> workflow op" where
  "complete_success tok = complete tok 0 []"

definition complete_failure :: "pystr \<Rightarrow> int \<Rightarrow> pystr \<Rightarrow> workflow op" where
  "complete_failure tok exit_code err =
     complete tok (if exit_code = 0 \<and> err = [] then 1 else exit_code) err"

definition stale_complete :: "pystr \<Rightarrow> unit op" where
  "stale_complete tok = (\<lambda>m.
     if dget (leases m) tok \<noteq> None then reject Not_stale m
     else if dget (closed_leases m) tok = None then reject Unknown_lease m
     else reject Stale_lease m)"

definition stale_renew :: "pystr \<Rightarrow> unit op" where
  "stale_renew tok = (\<lambda>m.
     if dget (leases m) tok \<noteq> None then reject Not_stale m
     else if dget (closed_leases m) tok = None then reject Unknown_lease m
     else reject Stale_lease m)"

definition duplicate_complete :: "pystr \<Rightarrow> unit op" where
  "duplicate_complete tok = (\<lambda>m.
     if dget (leases m) tok \<noteq> None then reject Not_completed m
     else if dget (closed_leases m) tok = None then reject Unknown_lease m
     else reject Duplicate_completion m)"

definition cancel_task :: "pystr \<Rightarrow> pystr \<Rightarrow> unit op" where
  "cancel_task w t =
     chain (the_task w t) (\<lambda>x.
       if task_terminal (t_state x) then ret ()
       else
       andThen (if t_lease_token x \<noteq> []
                then chain (reads (\<lambda>m. dget (leases m) (t_lease_token x))) (\<lambda>found.
                  case found of None \<Rightarrow> ret () | Some l \<Rightarrow> close_lease l)
                else ret ()) (
       andThen (modify (\<lambda>m. set_task w t (\<lambda>x. (clear_lease_fields x)
                  \<lparr>t_next_retry_ms := None, t_finished_ms := Some (now_ms m)\<rparr>) m))
         (transition_task w t Cancelled)))"

definition cancel_workflow :: "pystr \<Rightarrow> workflow op" where
  "cancel_workflow w =
     chain (require_workflow w) (\<lambda>flow.
       if workflow_terminal (wf_state flow) then ret flow
       else
       andThen (modify (\<lambda>m. set_workflow w (\<lambda>x. x\<lparr>wf_state := WCancelled,
                  wf_finished_ms := Some (now_ms m)\<rparr>) m)) (
       andThen (for_each (wf_order flow) (cancel_task w)) (
       andThen (emit Workflow_cancelled w [] [] []) (
       require_workflow w))))"

definition advance :: "int \<Rightarrow> bool \<Rightarrow> unit op" where
  "advance milliseconds sweeping =
     (if milliseconds < 0 then raise TimeBackwards
      else andThen (modify (\<lambda>m. m\<lparr>now_ms := now_ms m + milliseconds\<rparr>))
             (if sweeping then sweep else ret ()))"

section \<open>Actions\<close>

datatype reply =
  ReplyWorker worker | ReplyLease lease | ReplyNoLease | ReplyWorkflow workflow | ReplyNone

definition reply_with :: "('a \<Rightarrow> reply) \<Rightarrow> 'a op \<Rightarrow> reply op" where
  "reply_with f c = chain c (\<lambda>x. ret (f x))"

definition str_or :: "pystr \<Rightarrow> pystr \<Rightarrow> pystr" where
  "str_or a b = (if a = [] then b else a)"

definition int_or :: "int \<Rightarrow> int \<Rightarrow> int" where
  "int_or a b = (if a = 0 then b else a)"

definition apply_action :: "(pystr \<Rightarrow> pystr) \<Rightarrow> action \<Rightarrow> reply op" where
  "apply_action digest a =
     (case ac_kind a of
        RegisterWorker \<Rightarrow> reply_with ReplyWorker
          (register_worker digest (str_or (ac_text a) (str_or (ac_worker_id a) (lit ''worker'')))
             (max 1 (int_or (ac_amount a) 1)) [] (Some (ac_worker_id a)))
      | Heartbeat \<Rightarrow> reply_with ReplyWorker (heartbeat (ac_worker_id a))
      | LeaseTask \<Rightarrow> reply_with (\<lambda>r. case r of None \<Rightarrow> ReplyNoLease | Some l \<Rightarrow> ReplyLease l)
          (lease_next digest (ac_worker_id a))
      | Start \<Rightarrow> reply_with ReplyLease (start (ac_token a))
      | Renew \<Rightarrow> reply_with ReplyLease (renew (ac_token a))
      | Log \<Rightarrow> reply_with (\<lambda>_. ReplyNone)
          (append_log (ac_token a) (str_or (ac_text a) (lit ''log'' @ [10])) (lit ''stdout''))
      | CompleteSuccess \<Rightarrow> reply_with ReplyWorkflow (complete_success (ac_token a))
      | CompleteFailure \<Rightarrow> reply_with ReplyWorkflow
          (complete_failure (ac_token a) (max 1 (int_or (ac_amount a) 1))
             (str_or (ac_text a) (lit ''failure'')))
      | AdvanceTime \<Rightarrow> reply_with (\<lambda>_. ReplyNone) (advance (max 0 (ac_amount a)) True)
      | Sweep \<Rightarrow> reply_with (\<lambda>_. ReplyNone) sweep
      | CancelWorkflow \<Rightarrow> reply_with ReplyWorkflow (cancel_workflow (ac_workflow_id a))
      | DropWorker \<Rightarrow> reply_with (\<lambda>_. ReplyNone) (drop_worker (ac_worker_id a))
      | StaleComplete \<Rightarrow> reply_with (\<lambda>_. ReplyNone) (stale_complete (ac_token a))
      | StaleRenew \<Rightarrow> reply_with (\<lambda>_. ReplyNone) (stale_renew (ac_token a))
      | DuplicateComplete \<Rightarrow> reply_with (\<lambda>_. ReplyNone) (duplicate_complete (ac_token a)))"

end
