(* ===== verification/Chaos_Inv.thy ===== *)
theory Chaos_Inv
  imports Chaos_Model
begin

text \<open>
  The invariant of the reference model, split by object: dictionaries, workflows, tasks, leases,
  workers, events. \<open>core\<close> is what holds even in the middle of a recomputation or a cancellation;
  \<open>inv\<close> adds what ties a workflow's state to the states of its tasks. The second half shows which
  elementary updates of the state keep them.
\<close>

named_theorems view_simps \<open>what the lookups see after an elementary update\<close>

section \<open>Lookups after updates\<close>

lemma set_workflow_sels [view_simps]:
  "workers (set_workflow w f m) = workers m" "leases (set_workflow w f m) = leases m"
  "closed_leases (set_workflow w f m) = closed_leases m" "events (set_workflow w f m) = events m"
  "now_ms (set_workflow w f m) = now_ms m" "sequence_no (set_workflow w f m) = sequence_no m"
  "lease_duration_ms (set_workflow w f m) = lease_duration_ms m"
  "output_limit_bytes (set_workflow w f m) = output_limit_bytes m"
  "log_chunk_limit_bytes (set_workflow w f m) = log_chunk_limit_bytes m"
  "worker_ttl_ms (set_workflow w f m) = worker_ttl_ms m"
  "rejections (set_workflow w f m) = rejections m" "id_counter (set_workflow w f m) = id_counter m"
  "workflows (set_workflow w f m) = dmod w f (workflows m)"
  by (simp_all add: set_workflow_def)

lemma set_task_sels [view_simps]:
  "workers (set_task w t g m) = workers m" "leases (set_task w t g m) = leases m"
  "closed_leases (set_task w t g m) = closed_leases m" "events (set_task w t g m) = events m"
  "now_ms (set_task w t g m) = now_ms m" "sequence_no (set_task w t g m) = sequence_no m"
  "lease_duration_ms (set_task w t g m) = lease_duration_ms m"
  "output_limit_bytes (set_task w t g m) = output_limit_bytes m"
  "log_chunk_limit_bytes (set_task w t g m) = log_chunk_limit_bytes m"
  "worker_ttl_ms (set_task w t g m) = worker_ttl_ms m"
  "rejections (set_task w t g m) = rejections m" "id_counter (set_task w t g m) = id_counter m"
  "workflows (set_task w t g m) = dmod w (\<lambda>f. f\<lparr>wf_tasks := dmod t g (wf_tasks f)\<rparr>) (workflows m)"
  by (simp_all add: set_task_def view_simps)

lemma set_worker_sels [view_simps]:
  "workflows (set_worker k f m) = workflows m" "leases (set_worker k f m) = leases m"
  "closed_leases (set_worker k f m) = closed_leases m" "events (set_worker k f m) = events m"
  "now_ms (set_worker k f m) = now_ms m" "sequence_no (set_worker k f m) = sequence_no m"
  "lease_duration_ms (set_worker k f m) = lease_duration_ms m"
  "output_limit_bytes (set_worker k f m) = output_limit_bytes m"
  "log_chunk_limit_bytes (set_worker k f m) = log_chunk_limit_bytes m"
  "worker_ttl_ms (set_worker k f m) = worker_ttl_ms m"
  "rejections (set_worker k f m) = rejections m" "id_counter (set_worker k f m) = id_counter m"
  "workers (set_worker k f m) = dmod k f (workers m)"
  by (simp_all add: set_worker_def)

lemma set_lease_sels [view_simps]:
  "workflows (set_lease k f m) = workflows m" "workers (set_lease k f m) = workers m"
  "closed_leases (set_lease k f m) = closed_leases m" "events (set_lease k f m) = events m"
  "now_ms (set_lease k f m) = now_ms m" "sequence_no (set_lease k f m) = sequence_no m"
  "lease_duration_ms (set_lease k f m) = lease_duration_ms m"
  "output_limit_bytes (set_lease k f m) = output_limit_bytes m"
  "log_chunk_limit_bytes (set_lease k f m) = log_chunk_limit_bytes m"
  "worker_ttl_ms (set_lease k f m) = worker_ttl_ms m"
  "rejections (set_lease k f m) = rejections m" "id_counter (set_lease k f m) = id_counter m"
  "leases (set_lease k f m) = dmod k f (leases m)"
  by (simp_all add: set_lease_def)

lemma emit_event_sels [view_simps]:
  "workflows (emit_event ty w t k d m) = workflows m" "workers (emit_event ty w t k d m) = workers m"
  "leases (emit_event ty w t k d m) = leases m" "now_ms (emit_event ty w t k d m) = now_ms m"
  "closed_leases (emit_event ty w t k d m) = closed_leases m"
  "lease_duration_ms (emit_event ty w t k d m) = lease_duration_ms m"
  "output_limit_bytes (emit_event ty w t k d m) = output_limit_bytes m"
  "log_chunk_limit_bytes (emit_event ty w t k d m) = log_chunk_limit_bytes m"
  "worker_ttl_ms (emit_event ty w t k d m) = worker_ttl_ms m"
  "rejections (emit_event ty w t k d m) = rejections m"
  "id_counter (emit_event ty w t k d m) = id_counter m"
  "sequence_no (emit_event ty w t k d m) = sequence_no m + 1"
  "events (emit_event ty w t k d m) = events m @ [\<lparr>ev_sequence = sequence_no m + 1, ev_type = ty,
     ev_at_ms = now_ms m, ev_workflow_id = w, ev_task_id = t, ev_worker_id = k, ev_data = d\<rparr>]"
  by (simp_all add: emit_event_def Let_def)

lemma count_rejection_sels [view_simps]:
  "workflows (count_rejection c m) = workflows m" "workers (count_rejection c m) = workers m"
  "leases (count_rejection c m) = leases m" "closed_leases (count_rejection c m) = closed_leases m"
  "events (count_rejection c m) = events m" "now_ms (count_rejection c m) = now_ms m"
  "sequence_no (count_rejection c m) = sequence_no m"
  "lease_duration_ms (count_rejection c m) = lease_duration_ms m"
  "output_limit_bytes (count_rejection c m) = output_limit_bytes m"
  "id_counter (count_rejection c m) = id_counter m"
  by (simp_all add: count_rejection_def)

text \<open>The configuration of a model: what its constructor sets once.\<close>

definition config :: "model \<Rightarrow> int \<times> int \<times> int \<times> int" where
  "config m = (lease_duration_ms m, worker_ttl_ms m, output_limit_bytes m, log_chunk_limit_bytes m)"

lemma config_same [view_simps]:
  "config (set_workflow w f m) = config m" "config (set_task w t g m) = config m"
  "config (set_worker k h m) = config m" "config (set_lease tok l m) = config m"
  "config (emit_event ty w t k d m) = config m" "config (count_rejection c m) = config m"
  "config (m\<lparr>leases := a\<rparr>) = config m" "config (m\<lparr>workers := b\<rparr>) = config m"
  "config (m\<lparr>closed_leases := c'\<rparr>) = config m" "config (m\<lparr>now_ms := n\<rparr>) = config m"
  "config (m\<lparr>id_counter := e\<rparr>) = config m" "config (m\<lparr>workflows := ws\<rparr>) = config m"
  by (simp_all add: config_def view_simps count_rejection_def)

lemma task_lookup_cong: "workflows m' = workflows m \<Longrightarrow> task_lookup m' = task_lookup m"
  by (simp add: task_lookup_def fun_eq_iff)

lemma task_lookup_same [view_simps]:
  "task_lookup (m\<lparr>leases := a\<rparr>) = task_lookup m"
  "task_lookup (m\<lparr>workers := b\<rparr>) = task_lookup m"
  "task_lookup (m\<lparr>closed_leases := c\<rparr>) = task_lookup m"
  "task_lookup (m\<lparr>now_ms := d\<rparr>) = task_lookup m"
  "task_lookup (m\<lparr>id_counter := e\<rparr>) = task_lookup m"
  "task_lookup (set_worker k f m) = task_lookup m"
  "task_lookup (set_lease k l m) = task_lookup m"
  "task_lookup (emit_event ty w t k' dt m) = task_lookup m"
  "task_lookup (count_rejection cd m) = task_lookup m"
  by (rule task_lookup_cong; simp add: view_simps)+

lemma task_lookup_set_task [view_simps]:
  "task_lookup (set_task w t g m) v u =
     (if v = w \<and> u = t then map_option g (task_lookup m w t) else task_lookup m v u)"
  by (auto simp: task_lookup_def view_simps dict_simps split: option.splits)

lemma task_lookup_set_workflow [view_simps]:
  "(\<And>f. wf_tasks (h f) = wf_tasks f) \<Longrightarrow> task_lookup (set_workflow w h m) = task_lookup m"
  by (auto simp: task_lookup_def view_simps dict_simps fun_eq_iff split: option.splits)

lemma task_lookup_flow:
  "dget (workflows m) w = Some f \<Longrightarrow> task_lookup m w t = dget (wf_tasks f) t"
  by (simp add: task_lookup_def)

lemma task_lookup_Some:
  "task_lookup m w t = Some x \<longleftrightarrow>
     (\<exists>f. dget (workflows m) w = Some f \<and> dget (wf_tasks f) t = Some x)"
  by (auto simp: task_lookup_def split: option.splits)

section \<open>Predicates on states and tasks\<close>

definition active :: "task_state \<Rightarrow> bool" where
  "active s \<longleftrightarrow> s \<in> {Leased, Running}"

definition unlocked :: "task_state \<Rightarrow> bool" where
  "unlocked s \<longleftrightarrow> s \<in> {Ready, Leased, Running, Succeeded, RetryWait, Failed}"

definition busy :: "task_state \<Rightarrow> bool" where
  "busy s \<longleftrightarrow> s \<in> {Ready, Leased, Running, RetryWait}"

lemmas state_defs = active_def unlocked_def busy_def task_terminal_def

fun history_ok :: "task_state \<Rightarrow> task_state list \<Rightarrow> task_state \<Rightarrow> bool" where
  "history_ok s [] z \<longleftrightarrow> s = z"
| "history_ok s (h # hs) z \<longleftrightarrow> h \<in> set (allowed_task_transitions s) \<and> history_ok h hs z"

lemma history_ok_append:
  "history_ok s hs z \<Longrightarrow> z' \<in> set (allowed_task_transitions z) \<Longrightarrow> history_ok s (hs @ [z']) z'"
  by (induction s hs z rule: history_ok.induct) auto

definition times_ok :: "int \<Rightarrow> task \<Rightarrow> bool" where
  "times_ok now x \<longleftrightarrow>
     (\<forall>s. t_started_ms x = Some s \<longrightarrow> s \<le> now) \<and> (\<forall>z. t_finished_ms x = Some z \<longrightarrow> z \<le> now)
     \<and> (\<forall>s z. t_started_ms x = Some s \<longrightarrow> t_finished_ms x = Some z \<longrightarrow> s \<le> z)
     \<and> (t_state x \<in> {Pending, Ready, Leased, Running} \<longrightarrow> t_finished_ms x = None)"

definition task_ok :: "int \<Rightarrow> int \<Rightarrow> task \<Rightarrow> bool" where
  "task_ok now limit x \<longleftrightarrow>
     0 \<le> t_attempt x \<and> (t_state x = Pending \<longrightarrow> t_attempt x = 0)
     \<and> (active (t_state x) \<longrightarrow> 1 \<le> t_attempt x)
     \<and> (t_state x = RetryWait \<longleftrightarrow> t_next_retry_ms x \<noteq> None)
     \<and> (\<not> active (t_state x) \<longrightarrow>
          t_lease_token x = [] \<and> t_lease_owner x = [] \<and> t_lease_until_ms x = None)
     \<and> times_ok now x \<and> 0 \<le> t_output_bytes x \<and> t_output_bytes x \<le> max 0 limit
     \<and> history_ok Pending (t_history x) (t_state x)"

definition flow_deps :: "workflow \<Rightarrow> pystr \<Rightarrow> pystr list" where
  "flow_deps f t = (case dget (wf_tasks f) t of None \<Rightarrow> [] | Some x \<Rightarrow> t_depends_on x)"

definition flow_shape :: "workflow \<Rightarrow> bool" where
  "flow_shape f \<longleftrightarrow>
     dwf (wf_tasks f) \<and> distinct (wf_order f) \<and> set (wf_order f) = set (dkeys (wf_tasks f))
     \<and> wf_order f \<noteq> [] \<and> topo_from (flow_deps f) {} (wf_order f)
     \<and> (\<forall>t x. dget (wf_tasks f) t = Some x \<longrightarrow>
          t_id x = t \<and> t \<notin> set (t_depends_on x) \<and> set (t_depends_on x) \<subseteq> set (wf_order f)
          \<and> normalized (t_retry x) = t_retry x)"

lemma flow_shapeD:
  assumes "flow_shape f"
  shows "dwf (wf_tasks f)" "distinct (wf_order f)" "set (wf_order f) = set (dkeys (wf_tasks f))"
    "wf_order f \<noteq> []" "topo_from (flow_deps f) {} (wf_order f)"
  using assms unfolding flow_shape_def by blast+

lemma flow_shape_task:
  assumes "flow_shape f" "dget (wf_tasks f) t = Some x"
  shows "t_id x = t" "t \<notin> set (t_depends_on x)" "set (t_depends_on x) \<subseteq> set (wf_order f)"
    "normalized (t_retry x) = t_retry x"
proof -
  have "\<forall>t x. dget (wf_tasks f) t = Some x \<longrightarrow>
      t_id x = t \<and> t \<notin> set (t_depends_on x) \<and> set (t_depends_on x) \<subseteq> set (wf_order f)
      \<and> normalized (t_retry x) = t_retry x" using assms(1) unfolding flow_shape_def by (elim conjE)
  with assms(2) show "t_id x = t" "t \<notin> set (t_depends_on x)"
    "set (t_depends_on x) \<subseteq> set (wf_order f)" "normalized (t_retry x) = t_retry x" by blast+
qed

lemma flow_shapeI:
  assumes "dwf (wf_tasks f)" "distinct (wf_order f)" "set (wf_order f) = set (dkeys (wf_tasks f))"
    "wf_order f \<noteq> []" "topo_from (flow_deps f) {} (wf_order f)"
    and "\<And>t x. dget (wf_tasks f) t = Some x \<Longrightarrow>
      t_id x = t \<and> t \<notin> set (t_depends_on x) \<and> set (t_depends_on x) \<subseteq> set (wf_order f)
      \<and> normalized (t_retry x) = t_retry x"
  shows "flow_shape f"
  unfolding flow_shape_def using assms by blast

section \<open>The invariant\<close>

definition dicts_ok :: "model \<Rightarrow> bool" where
  "dicts_ok m \<longleftrightarrow> dwf (workflows m) \<and> dwf (workers m) \<and> dwf (leases m)
     \<and> 0 < lease_duration_ms m"

definition shapes_ok :: "model \<Rightarrow> bool" where
  "shapes_ok m \<longleftrightarrow> (\<forall>w f. dget (workflows m) w = Some f \<longrightarrow>
     wf_id f = w \<and> flow_shape f \<and> wf_created_ms f \<le> now_ms m)"

definition tasks_ok :: "model \<Rightarrow> bool" where
  "tasks_ok m \<longleftrightarrow> (\<forall>w t x. task_lookup m w t = Some x \<longrightarrow>
     task_ok (now_ms m) (output_limit_bytes m) x)"

definition deps_ok :: "model \<Rightarrow> bool" where
  "deps_ok m \<longleftrightarrow> (\<forall>w t x d. task_lookup m w t = Some x \<longrightarrow> unlocked (t_state x) \<longrightarrow>
     d \<in> set (t_depends_on x) \<longrightarrow> (\<exists>y. task_lookup m w d = Some y \<and> t_state y = Succeeded))"

definition cancels_ok :: "model \<Rightarrow> bool" where
  "cancels_ok m \<longleftrightarrow> (\<forall>w f t x. dget (workflows m) w = Some f \<longrightarrow> wf_state f \<noteq> WCancelled \<longrightarrow>
     task_lookup m w t = Some x \<longrightarrow> t_state x = Cancelled \<longrightarrow>
     (\<exists>d \<in> set (t_depends_on x). \<exists>y. task_lookup m w d = Some y \<and> t_state y \<in> {Failed, Cancelled}))"

definition holds_lease :: "model \<Rightarrow> bool" where
  "holds_lease m \<longleftrightarrow> (\<forall>w t x. task_lookup m w t = Some x \<longrightarrow> active (t_state x) \<longrightarrow>
     (\<exists>l. dget (leases m) (t_lease_token x) = Some l \<and> ls_workflow_id l = w \<and> ls_task_id l = t))"

definition lease_ok :: "model \<Rightarrow> pystr \<Rightarrow> lease \<Rightarrow> bool" where
  "lease_ok m tok l \<longleftrightarrow>
     ls_token l = tok \<and> tok \<noteq> [] \<and> \<not> ls_closed l
     \<and> ls_acquired_ms l \<le> now_ms m \<and> ls_acquired_ms l < ls_expires_ms l
     \<and> (\<exists>x. task_lookup m (ls_workflow_id l) (ls_task_id l) = Some x \<and> active (t_state x)
          \<and> t_lease_token x = tok \<and> t_lease_owner x = ls_worker_id l
          \<and> t_lease_until_ms x = Some (ls_expires_ms l))
     \<and> (\<exists>k. dget (workers m) (ls_worker_id l) = Some k)"

definition leases_ok :: "model \<Rightarrow> bool" where
  "leases_ok m \<longleftrightarrow> (\<forall>tok l. dget (leases m) tok = Some l \<longrightarrow> lease_ok m tok l)"

definition workers_ok :: "model \<Rightarrow> bool" where
  "workers_ok m \<longleftrightarrow> (\<forall>k wk. dget (workers m) k = Some wk \<longrightarrow>
     wk_id wk = k \<and> distinct (wk_active_tokens wk)
     \<and> int (length (wk_active_tokens wk)) \<le> wk_capacity wk
     \<and> (\<forall>tok \<in> set (wk_active_tokens wk).
          \<exists>l. dget (leases m) tok = Some l \<and> ls_worker_id l = k))"

definition closed_ok :: "model \<Rightarrow> bool" where
  "closed_ok m \<longleftrightarrow> (\<forall>tok l. dget (closed_leases m) tok = Some l \<longrightarrow>
     ls_token l = tok \<and> ls_closed l \<and> dget (leases m) tok = None)"

definition events_ok :: "model \<Rightarrow> bool" where
  "events_ok m \<longleftrightarrow>
     map ev_sequence (events m) = map (\<lambda>i. int i + 1) [0..<length (events m)]
     \<and> sequence_no m = int (length (events m))
     \<and> sorted (map ev_at_ms (events m)) \<and> (\<forall>e \<in> set (events m). ev_at_ms e \<le> now_ms m)"

definition expiries :: "model \<Rightarrow> pystr \<Rightarrow> pystr \<Rightarrow> nat" where
  "expiries m w t = length (filter (\<lambda>e. ev_type e = Lease_expired
     \<and> ev_workflow_id e = w \<and> ev_task_id e = t) (events m))"

definition budget_ok :: "model \<Rightarrow> pystr \<Rightarrow> pystr \<Rightarrow> task \<Rightarrow> bool" where
  "budget_ok m w t x \<longleftrightarrow>
     t_attempt x + (if t_state x \<in> {Pending, Ready, RetryWait} then 1 else 0)
       \<le> max_attempts (t_retry x) + int (expiries m w t)"

definition budgets_ok :: "model \<Rightarrow> bool" where
  "budgets_ok m \<longleftrightarrow> (\<forall>w t x. task_lookup m w t = Some x \<longrightarrow> budget_ok m w t x)"

definition core :: "model \<Rightarrow> bool" where
  "core m \<longleftrightarrow> dicts_ok m \<and> shapes_ok m \<and> tasks_ok m \<and> deps_ok m \<and> cancels_ok m
     \<and> holds_lease m \<and> leases_ok m \<and> workers_ok m \<and> closed_ok m \<and> events_ok m \<and> budgets_ok m"

definition flow_ok :: "model \<Rightarrow> pystr \<Rightarrow> workflow \<Rightarrow> bool" where
  "flow_ok m w f \<longleftrightarrow>
     (workflow_terminal (wf_state f) \<longleftrightarrow> wf_finished_ms f \<noteq> None)
     \<and> (\<forall>z. wf_finished_ms f = Some z \<longrightarrow> wf_created_ms f \<le> z \<and> z \<le> now_ms m)
     \<and> (wf_state f = WSucceeded \<longrightarrow> (\<forall>t x. task_lookup m w t = Some x \<longrightarrow> t_state x = Succeeded))
     \<and> (if workflow_terminal (wf_state f)
        then \<forall>t x. task_lookup m w t = Some x \<longrightarrow> task_terminal (t_state x)
        else wf_state f = WRunning \<and> (\<exists>t x. task_lookup m w t = Some x \<and> busy (t_state x)))"

definition flows_ok_but :: "pystr set \<Rightarrow> model \<Rightarrow> bool" where
  "flows_ok_but W m \<longleftrightarrow> (\<forall>w f. w \<notin> W \<longrightarrow> dget (workflows m) w = Some f \<longrightarrow> flow_ok m w f)"

definition inv :: "model \<Rightarrow> bool" where
  "inv m \<longleftrightarrow> core m \<and> flows_ok_but {} m"

lemmas core_parts = dicts_ok_def shapes_ok_def tasks_ok_def deps_ok_def cancels_ok_def
  holds_lease_def leases_ok_def workers_ok_def closed_ok_def events_ok_def budgets_ok_def

lemma coreD:
  assumes "core m"
  shows "dicts_ok m" "shapes_ok m" "tasks_ok m" "deps_ok m" "cancels_ok m" "holds_lease m"
    "leases_ok m" "workers_ok m" "closed_ok m" "events_ok m" "budgets_ok m"
  using assms by (simp_all add: core_def)

lemma inv_core: "inv m \<Longrightarrow> core m"
  by (simp add: inv_def)

text \<open>An error that would show a broken internal link rather than a refused request.\<close>

definition fault :: "chaos_error \<Rightarrow> bool" where
  "fault e \<longleftrightarrow> (case e of InvalidTransition _ _ _ _ \<Rightarrow> True | LeaseMissingTask \<Rightarrow> True
     | CannotExpireLive \<Rightarrow> True | MissingKey \<Rightarrow> True | _ \<Rightarrow> False)"

lemma fault_simps [simp]:
  "\<not> fault (Rejected c)" "\<not> fault (UnknownWorker k)" "\<not> fault (UnknownWorkflow w)"
  "\<not> fault WorkflowExists" "\<not> fault EmptyWorkflow" "\<not> fault (DuplicateTask i)"
  "\<not> fault (SelfDependency i)" "\<not> fault (RepeatedDependency i j)"
  "\<not> fault (UnknownDependency i j)" "\<not> fault DependencyCycle" "\<not> fault BadCapacity"
  "\<not> fault WorkerExists" "\<not> fault TimeBackwards" "\<not> fault BadValue" "\<not> fault BadEncoding"
  by (simp_all add: fault_def)

end
