(* ===== verification/Chaos_Updates.thy ===== *)
theory Chaos_Updates
  imports Chaos_Inv
begin

text \<open>
  The elementary updates of the reference model's state and what each keeps of the invariant. The
  operations are compositions of these; each lemma states exactly what the update must respect.
\<close>

section \<open>Updates that leave workflows, leases and workers alone\<close>

lemma core_frame:
  assumes c: "core m"
    and same: "workflows m' = workflows m" "workers m' = workers m" "leases m' = leases m"
      "closed_leases m' = closed_leases m" "lease_duration_ms m' = lease_duration_ms m"
      "output_limit_bytes m' = output_limit_bytes m" "now_ms m' = now_ms m"
    and ev: "events_ok m'" "\<And>w t. expiries m w t \<le> expiries m' w t"
  shows "core m'"
proof -
  note parts = coreD [OF c]
  have look: "task_lookup m' = task_lookup m" using same(1) by (rule task_lookup_cong)
  have "budgets_ok m'" using parts(11) ev(2) unfolding budgets_ok_def budget_ok_def look
    by (smt (verit) of_nat_mono)
  moreover have "leases_ok m'"
    using parts(7) unfolding leases_ok_def lease_ok_def look same .
  ultimately show ?thesis
    using parts ev(1) unfolding core_def dicts_ok_def shapes_ok_def tasks_ok_def deps_ok_def
      cancels_ok_def holds_lease_def workers_ok_def closed_ok_def look same by simp
qed

lemma flows_frame:
  assumes "flows_ok_but W m" "\<And>v. v \<notin> W \<Longrightarrow> dget (workflows m') v = dget (workflows m) v"
    "now_ms m \<le> now_ms m'"
  shows "flows_ok_but W m'"
proof -
  have look: "task_lookup m' v u = task_lookup m v u" if "v \<notin> W" for v u
    using assms(2) [OF that] by (simp add: task_lookup_def)
  have "flow_ok m' v f" if "v \<notin> W" "flow_ok m v f" for v f
    using that(2) assms(3) unfolding flow_ok_def look [OF that(1)] by fastforce
  then show ?thesis using assms(1,2) by (simp add: flows_ok_but_def)
qed

lemma events_ok_emit: "events_ok m \<Longrightarrow> events_ok (emit_event ty w t k d m)"
  by (auto simp: events_ok_def view_simps sorted_append)

lemma expiries_emit:
  "expiries (emit_event ty v u k d m) w t
     = expiries m w t + (if ty = Lease_expired \<and> v = w \<and> u = t then 1 else 0)"
  by (simp add: expiries_def view_simps)

lemma core_emit: "core m \<Longrightarrow> core (emit_event ty w t k d m)"
  by (rule core_frame) (auto simp: view_simps expiries_emit events_ok_emit dest: coreD)

lemma expiries_cong: "events m' = events m \<Longrightarrow> expiries m' = expiries m"
  by (simp add: expiries_def fun_eq_iff)

lemma events_ok_cong:
  "events m' = events m \<Longrightarrow> sequence_no m' = sequence_no m \<Longrightarrow> now_ms m \<le> now_ms m' \<Longrightarrow>
     events_ok m \<Longrightarrow> events_ok m'"
  by (auto simp: events_ok_def)

lemma core_count_rejection: "core m \<Longrightarrow> core (count_rejection c m)"
  by (rule core_frame)
    (auto simp: view_simps expiries_cong [of "count_rejection c m"]
      intro: events_ok_cong [of _ m] dest: coreD)

lemma core_id_counter: "core m \<Longrightarrow> core (m\<lparr>id_counter := n\<rparr>)"
  by (rule core_frame)
    (auto simp: expiries_cong [of "m\<lparr>id_counter := n\<rparr>"] intro: events_ok_cong [of _ m] dest: coreD)

lemma inv_emit: "inv m \<Longrightarrow> inv (emit_event ty w t k d m)"
  by (auto simp: inv_def core_emit view_simps intro: flows_frame)

lemma inv_count_rejection: "inv m \<Longrightarrow> inv (count_rejection c m)"
  by (auto simp: inv_def core_count_rejection view_simps intro: flows_frame)

lemma inv_id_counter: "inv m \<Longrightarrow> inv (m\<lparr>id_counter := n\<rparr>)"
  by (auto simp: inv_def core_id_counter intro: flows_frame)

section \<open>One task\<close>

definition static_same :: "(task \<Rightarrow> task) \<Rightarrow> bool" where
  "static_same g \<longleftrightarrow> (\<forall>x. t_id (g x) = t_id x \<and> t_depends_on (g x) = t_depends_on x
     \<and> t_retry (g x) = t_retry x)"

lemma static_sameD:
  "static_same g \<Longrightarrow> t_id (g x) = t_id x" "static_same g \<Longrightarrow> t_depends_on (g x) = t_depends_on x"
  "static_same g \<Longrightarrow> t_retry (g x) = t_retry x"
  by (simp_all add: static_same_def)

lemma flow_shape_dmod:
  assumes "flow_shape f" "static_same g"
  shows "flow_shape (f\<lparr>wf_tasks := dmod t g (wf_tasks f)\<rparr>)"
proof -
  let ?f = "f\<lparr>wf_tasks := dmod t g (wf_tasks f)\<rparr>"
  have deps: "flow_deps ?f = flow_deps f"
    using assms(2) by (auto simp: flow_deps_def dict_simps static_sameD fun_eq_iff split: option.splits)
  show ?thesis
  proof (rule flow_shapeI)
    fix u x assume "dget (wf_tasks ?f) u = Some x"
    then obtain y where y: "dget (wf_tasks f) u = Some y" "x = y \<or> x = g y"
      by (auto simp: dict_simps split: if_splits)
    note old = flow_shape_task [OF assms(1) y(1)]
    from y(2) show "t_id x = u \<and> u \<notin> set (t_depends_on x) \<and>
        set (t_depends_on x) \<subseteq> set (wf_order ?f) \<and> normalized (t_retry x) = t_retry x"
      using old static_sameD [OF assms(2), of y] by (elim disjE) simp_all
  qed (use flow_shapeD [OF assms(1)] in \<open>simp_all add: deps dict_simps\<close>)
qed

lemma shapes_ok_set_task:
  "shapes_ok m \<Longrightarrow> static_same g \<Longrightarrow> shapes_ok (set_task w t g m)"
  by (auto simp: shapes_ok_def view_simps dict_simps flow_shape_dmod split: if_splits)

lemma deps_ok_set_task:
  assumes "deps_ok m" "task_lookup m w t = Some x" "static_same g"
    and "task_terminal (t_state x) \<Longrightarrow> t_state (g x) = t_state x"
    and "unlocked (t_state (g x)) \<Longrightarrow> \<forall>d \<in> set (t_depends_on x).
           \<exists>y. task_lookup m w d = Some y \<and> t_state y = Succeeded"
  shows "deps_ok (set_task w t g m)"
  unfolding deps_ok_def
proof (intro allI impI)
  fix v u y d
  assume y: "task_lookup (set_task w t g m) v u = Some y" "unlocked (t_state y)"
    and d: "d \<in> set (t_depends_on y)"
  have "\<exists>z. task_lookup m v d = Some z \<and> t_state z = Succeeded"
  proof (cases "v = w \<and> u = t")
    case True
    with y d assms show ?thesis by (auto simp: view_simps static_sameD)
  next
    case False
    with y have "task_lookup m v u = Some y" by (auto simp: view_simps split: if_splits)
    with assms(1) y(2) d show ?thesis unfolding deps_ok_def by blast
  qed
  then show "\<exists>z. task_lookup (set_task w t g m) v d = Some z \<and> t_state z = Succeeded"
    using assms(2,4) by (auto simp: view_simps task_terminal_def)
qed

lemma cancels_ok_set_task:
  assumes "cancels_ok m" "task_lookup m w t = Some x" "static_same g"
    and "task_terminal (t_state x) \<Longrightarrow> t_state (g x) = t_state x"
    and "\<And>f. t_state (g x) = Cancelled \<Longrightarrow> dget (workflows m) w = Some f \<Longrightarrow>
           wf_state f \<noteq> WCancelled \<Longrightarrow>
           \<exists>d \<in> set (t_depends_on x). \<exists>y. task_lookup m w d = Some y \<and> t_state y \<in> {Failed, Cancelled}"
  shows "cancels_ok (set_task w t g m)"
  unfolding cancels_ok_def
proof (intro allI impI)
  fix v f u y
  assume f: "dget (workflows (set_task w t g m)) v = Some f" "wf_state f \<noteq> WCancelled"
    and y: "task_lookup (set_task w t g m) v u = Some y" "t_state y = Cancelled"
  obtain f0 where f0: "dget (workflows m) v = Some f0" "wf_state f0 \<noteq> WCancelled"
    using f by (auto simp: view_simps dict_simps split: if_splits)
  have "\<exists>d \<in> set (t_depends_on y). \<exists>z. task_lookup m v d = Some z \<and> t_state z \<in> {Failed, Cancelled}"
  proof (cases "v = w \<and> u = t")
    case True
    with y assms(2,3,5) f0 show ?thesis by (auto simp: view_simps static_sameD)
  next
    case False
    with y have "task_lookup m v u = Some y" by (auto simp: view_simps split: if_splits)
    with assms(1) f0 y(2) show ?thesis unfolding cancels_ok_def by blast
  qed
  then obtain d z where dz: "d \<in> set (t_depends_on y)" "task_lookup m v d = Some z"
    "t_state z \<in> {Failed, Cancelled}" by blast
  then have "\<exists>z. task_lookup (set_task w t g m) v d = Some z \<and> t_state z \<in> {Failed, Cancelled}"
    using assms(2,4) by (auto simp: view_simps task_terminal_def)
  with dz(1) show "\<exists>d \<in> set (t_depends_on y). \<exists>z. task_lookup (set_task w t g m) v d = Some z
    \<and> t_state z \<in> {Failed, Cancelled}" by blast
qed

lemma leases_ok_set_task:
  assumes "leases_ok m" "task_lookup m w t = Some x"
    and "t_lease_token (g x) = t_lease_token x" "t_lease_owner (g x) = t_lease_owner x"
      "t_lease_until_ms (g x) = t_lease_until_ms x" "active (t_state (g x)) = active (t_state x)"
  shows "leases_ok (set_task w t g m)"
  unfolding leases_ok_def
proof (intro allI impI)
  fix tok l
  assume "dget (leases (set_task w t g m)) tok = Some l"
  with assms(1) have ok: "lease_ok m tok l" by (simp add: leases_ok_def view_simps)
  then obtain y where y: "task_lookup m (ls_workflow_id l) (ls_task_id l) = Some y"
    "active (t_state y)" "t_lease_token y = tok" "t_lease_owner y = ls_worker_id l"
    "t_lease_until_ms y = Some (ls_expires_ms l)" by (auto simp: lease_ok_def)
  have "\<exists>y. task_lookup (set_task w t g m) (ls_workflow_id l) (ls_task_id l) = Some y
    \<and> active (t_state y) \<and> t_lease_token y = tok \<and> t_lease_owner y = ls_worker_id l
    \<and> t_lease_until_ms y = Some (ls_expires_ms l)"
    using y assms(2-6) by (auto simp: view_simps)
  with ok show "lease_ok (set_task w t g m) tok l" by (simp add: lease_ok_def view_simps)
qed

lemma core_set_task:
  assumes c: "core m" and x: "task_lookup m w t = Some x" and st: "static_same g"
    and ok: "task_ok (now_ms m) (output_limit_bytes m) (g x)"
    and lease: "t_lease_token (g x) = t_lease_token x" "t_lease_owner (g x) = t_lease_owner x"
      "t_lease_until_ms (g x) = t_lease_until_ms x" "active (t_state (g x)) = active (t_state x)"
    and fin: "task_terminal (t_state x) \<Longrightarrow> t_state (g x) = t_state x"
    and unl: "unlocked (t_state (g x)) \<Longrightarrow> \<forall>d \<in> set (t_depends_on x).
           \<exists>y. task_lookup m w d = Some y \<and> t_state y = Succeeded"
    and canc: "\<And>f. t_state (g x) = Cancelled \<Longrightarrow> dget (workflows m) w = Some f \<Longrightarrow>
           wf_state f \<noteq> WCancelled \<Longrightarrow>
           \<exists>d \<in> set (t_depends_on x). \<exists>y. task_lookup m w d = Some y \<and> t_state y \<in> {Failed, Cancelled}"
    and bud: "budget_ok m w t (g x)"
  shows "core (set_task w t g m)"
proof -
  note parts = coreD [OF c]
  let ?m = "set_task w t g m"
  have "dicts_ok ?m" using parts(1) by (simp add: dicts_ok_def view_simps dict_simps)
  moreover have "shapes_ok ?m" using parts(2) st by (rule shapes_ok_set_task)
  moreover have "tasks_ok ?m" using parts(3) x ok by (auto simp: tasks_ok_def view_simps)
  moreover have "deps_ok ?m" using parts(4) x st fin unl by (rule deps_ok_set_task)
  moreover have "cancels_ok ?m" using parts(5) x st fin canc by (rule cancels_ok_set_task)
  moreover have "holds_lease ?m"
    using parts(6) x lease unfolding holds_lease_def by (auto simp: view_simps)
  moreover have "leases_ok ?m" using parts(7) x lease by (rule leases_ok_set_task)
  moreover have "workers_ok ?m" using parts(8) by (simp add: workers_ok_def view_simps)
  moreover have "closed_ok ?m" using parts(9) by (simp add: closed_ok_def view_simps)
  moreover have "events_ok ?m" using parts(10) by (simp add: events_ok_def view_simps)
  moreover have "budgets_ok ?m"
    using parts(11) x bud expiries_cong [of ?m m]
    by (auto simp: budgets_ok_def view_simps budget_ok_def)
  ultimately show ?thesis by (simp add: core_def)
qed

lemma flows_but_set_task: "flows_ok_but {w} m \<Longrightarrow> flows_ok_but {w} (set_task w t g m)"
  by (erule flows_frame) (auto simp: view_simps dict_simps)

lemma flows_but_mono: "flows_ok_but W m \<Longrightarrow> W \<subseteq> W' \<Longrightarrow> flows_ok_but W' m"
  by (auto simp: flows_ok_but_def)

text \<open>In a running workflow, a task may change between busy states.\<close>

lemma active_not_terminal:
  assumes "inv m" "task_lookup m w t = Some x" "active (t_state x)" "dget (workflows m) w = Some f"
  shows "\<not> workflow_terminal (wf_state f)"
proof -
  have ok: "flow_ok m w f" using assms(1,4) by (simp add: inv_def flows_ok_but_def)
  show ?thesis
  proof
    assume "workflow_terminal (wf_state f)"
    with ok assms(2) have "task_terminal (t_state x)" by (simp add: flow_ok_def)
    with assms(3) show False by (auto simp: state_defs)
  qed
qed

lemma flow_ok_states:
  assumes "flow_ok m w f" and f': "wf_state f' = wf_state f" "wf_finished_ms f' = wf_finished_ms f"
      "wf_created_ms f' = wf_created_ms f" "now_ms m \<le> now_ms m'"
    and st: "\<And>t. map_option t_state (task_lookup m' w t) = map_option t_state (task_lookup m w t)"
  shows "flow_ok m' w f'"
proof -
  have all: "(\<forall>t x. task_lookup n w t = Some x \<longrightarrow> P (t_state x)) \<longleftrightarrow>
      (\<forall>t s. map_option t_state (task_lookup n w t) = Some s \<longrightarrow> P s)" for n P by auto
  have ex: "(\<exists>t x. task_lookup n w t = Some x \<and> P (t_state x)) \<longleftrightarrow>
      (\<exists>t s. map_option t_state (task_lookup n w t) = Some s \<and> P s)" for n P by auto
  show ?thesis
    using assms(1,5) unfolding flow_ok_def f' all [where P = "\<lambda>s. s = Succeeded"]
      all [where P = task_terminal] ex [where P = busy] st
    by (simp; fastforce)
qed

lemma flow_ok_busy:
  assumes "flow_ok m w f" "\<not> workflow_terminal (wf_state f)"
    and f': "wf_state f' = wf_state f" "wf_finished_ms f' = wf_finished_ms f"
      "wf_created_ms f' = wf_created_ms f" "now_ms m' = now_ms m"
    and "task_lookup m' w t = Some y" "busy (t_state y)"
  shows "flow_ok m' w f'"
proof -
  have "wf_state f = WRunning" using assms(1,2) by (simp add: flow_ok_def)
  moreover have "\<exists>t x. task_lookup m' w t = Some x \<and> busy (t_state x)" using assms(7,8) by blast
  ultimately show ?thesis using assms(1-6) unfolding flow_ok_def
    by (simp add: workflow_terminal_def)
qed

lemma inv_set_task_busy:
  assumes "inv m" "task_lookup m w t = Some x" "busy (t_state (g x))"
    and "\<And>f. dget (workflows m) w = Some f \<Longrightarrow> \<not> workflow_terminal (wf_state f)"
    and "core (set_task w t g m)"
  shows "inv (set_task w t g m)"
proof -
  have "flow_ok (set_task w t g m) v f" if "dget (workflows (set_task w t g m)) v = Some f" for v f
  proof (cases "v = w")
    case True
    with that obtain f0 where f0: "dget (workflows m) w = Some f0"
      "f = f0\<lparr>wf_tasks := dmod t g (wf_tasks f0)\<rparr>" by (auto simp: view_simps dict_simps)
    with assms(1) have "flow_ok m w f0" by (simp add: inv_def flows_ok_but_def)
    then show ?thesis unfolding True
      by (rule flow_ok_busy [of _ _ _ _ _ t "g x"])
        (use f0 assms in \<open>auto simp: view_simps\<close>)
  next
    case False
    then show ?thesis
      using flows_frame [of "{w}" m "set_task w t g m"] assms(1) that
        flows_but_mono [of "{}" m "{w}"]
      by (auto simp: inv_def flows_ok_but_def view_simps dict_simps)
  qed
  with assms(5) show ?thesis by (simp add: inv_def flows_ok_but_def)
qed

section \<open>A lease\<close>

lemma lease_task:
  assumes "core m" "dget (leases m) tok = Some l"
  obtains f x k where "dget (workflows m) (ls_workflow_id l) = Some f"
    "dget (wf_tasks f) (ls_task_id l) = Some x"
    "task_lookup m (ls_workflow_id l) (ls_task_id l) = Some x"
    "dget (workers m) (ls_worker_id l) = Some k" "active (t_state x)" "t_lease_token x = tok"
    "t_lease_owner x = ls_worker_id l" "t_lease_until_ms x = Some (ls_expires_ms l)"
    "ls_token l = tok" "\<not> ls_closed l" "t_id x = ls_task_id l"
proof -
  have ok: "lease_ok m tok l" using coreD(7) [OF assms(1)] assms(2) by (simp add: leases_ok_def)
  then obtain x where x: "task_lookup m (ls_workflow_id l) (ls_task_id l) = Some x"
    "active (t_state x)" "t_lease_token x = tok" "t_lease_owner x = ls_worker_id l"
    "t_lease_until_ms x = Some (ls_expires_ms l)" by (auto simp: lease_ok_def)
  then obtain f where f: "dget (workflows m) (ls_workflow_id l) = Some f"
    "dget (wf_tasks f) (ls_task_id l) = Some x" by (auto simp: task_lookup_Some)
  with coreD(2) [OF assms(1)] have "t_id x = ls_task_id l"
    by (simp add: shapes_ok_def flow_shape_def)
  with ok x f that show ?thesis by (auto simp: lease_ok_def)
qed

text \<open>Marking a lease as started.\<close>

lemma core_set_lease_started:
  assumes c: "core m"
  shows "core (set_lease tok (\<lambda>l. l\<lparr>ls_started := b\<rparr>) m)"
proof -
  note parts = coreD [OF c]
  let ?m = "set_lease tok (\<lambda>l. l\<lparr>ls_started := b\<rparr>) m"
  have "holds_lease ?m" using parts(6) unfolding holds_lease_def
    by (fastforce simp: view_simps dict_simps)
  moreover have "leases_ok ?m" using parts(7) unfolding leases_ok_def lease_ok_def
    by (auto simp: view_simps dict_simps)
  moreover have "workers_ok ?m" using parts(8) unfolding workers_ok_def
    by (fastforce simp: view_simps dict_simps)
  moreover have "closed_ok ?m" using parts(9) unfolding closed_ok_def
    by (auto simp: view_simps dict_simps)
  ultimately show ?thesis
    using parts expiries_cong [of ?m m]
    unfolding core_def dicts_ok_def shapes_ok_def tasks_ok_def deps_ok_def cancels_ok_def
      events_ok_def budgets_ok_def budget_ok_def
    by (simp add: view_simps dict_simps)
qed

lemma inv_set_lease_started:
  "inv m \<Longrightarrow> inv (set_lease tok (\<lambda>l. l\<lparr>ls_started := b\<rparr>) m)"
  by (auto simp: inv_def core_set_lease_started view_simps intro: flows_frame)

text \<open>Extending a lease, in the lease and in its task.\<close>

definition extend :: "pystr \<Rightarrow> lease \<Rightarrow> int \<Rightarrow> model \<Rightarrow> model" where
  "extend tok l until m =
     set_task (ls_workflow_id l) (ls_task_id l) (\<lambda>x. x\<lparr>t_lease_until_ms := Some until\<rparr>)
       (set_lease tok (\<lambda>l. l\<lparr>ls_expires_ms := until\<rparr>) m)"

lemma core_extend:
  assumes c: "core m" and l: "dget (leases m) tok = Some l" and until: "now_ms m < until"
  shows "core (extend tok l until m)"
proof -
  note parts = coreD [OF c]
  let ?w = "ls_workflow_id l" and ?t = "ls_task_id l"
  let ?m = "extend tok l until m"
  obtain x where x: "task_lookup m ?w ?t = Some x" "active (t_state x)" "t_lease_token x = tok"
    using lease_task [OF c l] by metis
  have look: "task_lookup ?m v u = (if v = ?w \<and> u = ?t
      then map_option (\<lambda>x. x\<lparr>t_lease_until_ms := Some until\<rparr>) (task_lookup m ?w ?t)
      else task_lookup m v u)" for v u
    by (simp add: extend_def view_simps)
  have sel: "leases ?m = dmod tok (\<lambda>l. l\<lparr>ls_expires_ms := until\<rparr>) (leases m)"
    "workers ?m = workers m" "closed_leases ?m = closed_leases m" "now_ms ?m = now_ms m"
    "output_limit_bytes ?m = output_limit_bytes m" "events ?m = events m"
    "sequence_no ?m = sequence_no m"
    by (simp_all add: extend_def view_simps)
  have ss: "static_same (\<lambda>x. x\<lparr>t_lease_until_ms := Some until\<rparr>)" by (simp add: static_same_def)
  have "dicts_ok ?m" using parts(1) by (simp add: dicts_ok_def extend_def view_simps dict_simps)
  moreover have "shapes_ok ?m" unfolding extend_def
    by (rule shapes_ok_set_task) (use parts(2) ss in \<open>simp_all add: shapes_ok_def view_simps\<close>)
  moreover have "tasks_ok ?m" using parts(3) x unfolding tasks_ok_def look sel
    by (auto simp: task_ok_def times_ok_def state_defs)
  moreover have "deps_ok ?m" unfolding extend_def
    by (rule deps_ok_set_task [of _ _ _ x])
      (use parts(4) x ss in \<open>auto simp: deps_ok_def view_simps\<close>)
  moreover have "cancels_ok ?m" unfolding extend_def
    by (rule cancels_ok_set_task [of _ _ _ x])
      (use parts(5) x ss in \<open>auto simp: cancels_ok_def view_simps active_def\<close>)
  moreover have "holds_lease ?m" using parts(6) unfolding holds_lease_def look sel
    by (fastforce simp: dict_simps split: if_splits)
  moreover have "leases_ok ?m" unfolding leases_ok_def
  proof (intro allI impI)
    fix tk lk assume lk: "dget (leases ?m) tk = Some lk"
    then obtain l0 where l0: "dget (leases m) tk = Some l0" and
      eq: "lk = (if tk = tok then l0\<lparr>ls_expires_ms := until\<rparr> else l0)"
      by (auto simp: sel dict_simps split: if_splits)
    have ok: "lease_ok m tk l0" using parts(7) l0 by (simp add: leases_ok_def)
    show "lease_ok ?m tk lk"
    proof (cases "tk = tok")
      case True
      with l0 l have "l0 = l" by simp
      with ok True eq until show ?thesis by (auto simp: lease_ok_def look sel)
    next
      case False
      with ok x have "\<not> (ls_workflow_id l0 = ?w \<and> ls_task_id l0 = ?t)" by (auto simp: lease_ok_def)
      with ok False eq show ?thesis by (auto simp: lease_ok_def look sel)
    qed
  qed
  moreover have "workers_ok ?m" using parts(8) unfolding workers_ok_def sel
    by (fastforce simp: dict_simps)
  moreover have "closed_ok ?m" using parts(9) unfolding closed_ok_def sel by (auto simp: dict_simps)
  moreover have "events_ok ?m" using parts(10) by (simp add: events_ok_def sel)
  moreover have "budgets_ok ?m" unfolding budgets_ok_def
  proof (intro allI impI)
    fix v u y assume "task_lookup ?m v u = Some y"
    then obtain z where "task_lookup m v u = Some z" "t_attempt y = t_attempt z"
      "t_state y = t_state z" "t_retry y = t_retry z" by (auto simp: look split: if_splits)
    with parts(11) expiries_cong [OF sel(6)] show "budget_ok ?m v u y"
      by (auto simp: budgets_ok_def budget_ok_def)
  qed
  ultimately show ?thesis by (simp add: core_def)
qed

lemma inv_extend:
  assumes "inv m" "dget (leases m) tok = Some l" "now_ms m < until"
  shows "inv (extend tok l until m)"
proof -
  let ?m = "set_lease tok (\<lambda>l. l\<lparr>ls_expires_ms := until\<rparr>) m"
  have c: "core (extend tok l until m)" using assms inv_core core_extend by blast
  have look: "task_lookup (extend tok l until m) v u = (if v = ls_workflow_id l \<and> u = ls_task_id l
      then map_option (\<lambda>x. x\<lparr>t_lease_until_ms := Some until\<rparr>) (task_lookup m v u)
      else task_lookup m v u)" for v u
    by (simp add: extend_def view_simps)
  have "flow_ok (extend tok l until m) v f" if f: "dget (workflows (extend tok l until m)) v = Some f"
    for v f
  proof -
    obtain f0 where f0: "dget (workflows m) v = Some f0" "wf_state f = wf_state f0"
      "wf_finished_ms f = wf_finished_ms f0" "wf_created_ms f = wf_created_ms f0"
      using f by (auto simp: extend_def view_simps dict_simps split: if_splits)
    have "flow_ok m v f0" using assms(1) f0(1) by (simp add: inv_def flows_ok_but_def)
    then show ?thesis
      by (rule flow_ok_states) (use f0 in \<open>auto simp: look extend_def view_simps option.map_comp comp_def\<close>)
  qed
  with c show ?thesis by (simp add: inv_def flows_ok_but_def)
qed

section \<open>Releasing a lease\<close>

text \<open>The joint effect of closing a lease and of giving its task a new, inactive state.\<close>

definition release :: "lease \<Rightarrow> (task \<Rightarrow> task) \<Rightarrow> model \<Rightarrow> model" where
  "release l g m =
     set_task (ls_workflow_id l) (ls_task_id l) g
       (set_worker (ls_worker_id l)
          (\<lambda>k. k\<lparr>wk_active_tokens := removeAll (ls_token l) (wk_active_tokens k)\<rparr>)
          (m\<lparr>leases := dpop (ls_token l) (leases m),
             closed_leases := dput (ls_token l) (l\<lparr>ls_closed := True\<rparr>) (closed_leases m)\<rparr>))"

lemma release_sels [view_simps]:
  "leases (release l g m) = dpop (ls_token l) (leases m)"
  "closed_leases (release l g m) = dput (ls_token l) (l\<lparr>ls_closed := True\<rparr>) (closed_leases m)"
  "workers (release l g m) = dmod (ls_worker_id l)
     (\<lambda>k. k\<lparr>wk_active_tokens := removeAll (ls_token l) (wk_active_tokens k)\<rparr>) (workers m)"
  "workflows (release l g m) = dmod (ls_workflow_id l)
     (\<lambda>f. f\<lparr>wf_tasks := dmod (ls_task_id l) g (wf_tasks f)\<rparr>) (workflows m)"
  "events (release l g m) = events m" "now_ms (release l g m) = now_ms m"
  "sequence_no (release l g m) = sequence_no m"
  "lease_duration_ms (release l g m) = lease_duration_ms m"
  "output_limit_bytes (release l g m) = output_limit_bytes m"
  "id_counter (release l g m) = id_counter m" "config (release l g m) = config m"
  by (simp_all add: release_def view_simps)

lemma task_lookup_release [view_simps]:
  "task_lookup (release l g m) v u =
     (if v = ls_workflow_id l \<and> u = ls_task_id l
      then map_option g (task_lookup m (ls_workflow_id l) (ls_task_id l)) else task_lookup m v u)"
  by (simp add: release_def view_simps task_lookup_cong [of "_\<lparr>leases := _, closed_leases := _\<rparr>" m])

lemma set_task_set_task: "set_task w t g (set_task w t h m) = set_task w t (g \<circ> h) m"
  by (simp add: set_task_def set_workflow_def dmod_comp comp_def)

lemma set_task_release:
  "set_task (ls_workflow_id l) (ls_task_id l) h (release l g m) = release l (h \<circ> g) m"
  by (simp add: release_def set_task_set_task)

lemma release_set_task:
  "release l g (set_task (ls_workflow_id l) (ls_task_id l) h m) = release l (g \<circ> h) m"
  by (simp add: release_def set_task_def set_workflow_def set_worker_def dmod_comp comp_def)

lemma emit_release:
  "emit_event ty w t k d (release l g m) = release l g (emit_event ty w t k d m)"
  by (simp add: release_def emit_event_def set_task_def set_workflow_def set_worker_def Let_def)

lemma release_leases_ok:
  assumes c: "core m" and l: "dget (leases m) tok = Some l"
  shows "leases_ok (release l g m)"
  unfolding leases_ok_def
proof (intro allI impI)
  obtain x where x: "task_lookup m (ls_workflow_id l) (ls_task_id l) = Some x"
    "t_lease_token x = tok" "ls_token l = tok" using lease_task [OF c l] by metis
  fix tk lk assume "dget (leases (release l g m)) tk = Some lk"
  with x have lk: "dget (leases m) tk = Some lk" "tk \<noteq> tok"
    by (auto simp: view_simps dict_simps split: if_splits)
  have ok: "lease_ok m tk lk" using coreD(7) [OF c] lk(1) by (simp add: leases_ok_def)
  with x lk(2) have "\<not> (ls_workflow_id lk = ls_workflow_id l \<and> ls_task_id lk = ls_task_id l)"
    by (auto simp: lease_ok_def)
  with ok lk(2) x show "lease_ok (release l g m) tk lk"
    by (auto simp: lease_ok_def view_simps dict_simps)
qed

lemma release_workers_ok:
  assumes c: "core m" and l: "dget (leases m) tok = Some l"
  shows "workers_ok (release l g m)"
  unfolding workers_ok_def
proof (intro allI impI)
  fix k wk assume "dget (workers (release l g m)) k = Some wk"
  then obtain w0 where w0: "dget (workers m) k = Some w0" and wk: "wk = (if k = ls_worker_id l
      then w0\<lparr>wk_active_tokens := removeAll (ls_token l) (wk_active_tokens w0)\<rparr> else w0)"
    by (auto simp: view_simps dict_simps split: if_splits)
  have tok: "ls_token l = tok" using lease_task [OF c l] by metis
  have old: "wk_id w0 = k" "distinct (wk_active_tokens w0)"
    "int (length (wk_active_tokens w0)) \<le> wk_capacity w0"
    "\<forall>tk \<in> set (wk_active_tokens w0). \<exists>l. dget (leases m) tk = Some l \<and> ls_worker_id l = k"
    using coreD(8) [OF c] w0 unfolding workers_ok_def by blast+
  have "int (length (removeAll tok (wk_active_tokens w0))) \<le> wk_capacity w0"
    using length_removeAll_less_eq [of tok "wk_active_tokens w0"] old(3) by linarith
  moreover have "k \<noteq> ls_worker_id l \<Longrightarrow> tok \<notin> set (wk_active_tokens w0)" using old(4) l by auto
  ultimately show "wk_id wk = k \<and> distinct (wk_active_tokens wk)
    \<and> int (length (wk_active_tokens wk)) \<le> wk_capacity wk
    \<and> (\<forall>tk \<in> set (wk_active_tokens wk).
         \<exists>l'. dget (leases (release l g m)) tk = Some l' \<and> ls_worker_id l' = k)"
    using old tok by (auto simp: wk view_simps dict_simps distinct_removeAll)
qed

lemma core_release:
  assumes c: "core m" and l: "dget (leases m) tok = Some l"
    and x: "task_lookup m (ls_workflow_id l) (ls_task_id l) = Some x" and st: "static_same g"
    and ok: "task_ok (now_ms m) (output_limit_bytes m) (g x)"
    and idle: "\<not> active (t_state (g x))"
    and canc: "\<And>f. t_state (g x) = Cancelled \<Longrightarrow> dget (workflows m) (ls_workflow_id l) = Some f \<Longrightarrow>
           wf_state f = WCancelled"
    and bud: "budget_ok m (ls_workflow_id l) (ls_task_id l) (g x)"
  shows "core (release l g m)"
proof -
  note parts = coreD [OF c]
  let ?m = "release l g m" and ?w = "ls_workflow_id l" and ?t = "ls_task_id l"
  have tok: "ls_token l = tok" and act: "active (t_state x)"
    using lease_task [OF c l] x by (metis, metis option.inject)
  have alive: "\<not> task_terminal (t_state x)" "unlocked (t_state x)"
    using act by (auto simp: state_defs)
  have "dicts_ok ?m" using parts(1) by (simp add: dicts_ok_def view_simps dict_simps)
  moreover have "shapes_ok ?m"
    using shapes_ok_set_task [OF parts(2) st, of ?w ?t] by (simp add: shapes_ok_def view_simps)
  moreover have "tasks_ok ?m" using parts(3) x ok by (auto simp: tasks_ok_def view_simps)
  moreover have "deps_ok (set_task ?w ?t g m)"
    by (rule deps_ok_set_task [OF parts(4) x st])
      (use alive parts(4) x in \<open>auto simp: deps_ok_def\<close>)
  then have "deps_ok ?m" by (simp add: deps_ok_def view_simps)
  moreover have "cancels_ok (set_task ?w ?t g m)"
    by (rule cancels_ok_set_task [OF parts(5) x st]) (use alive canc in auto)
  then have "cancels_ok ?m" by (simp add: cancels_ok_def view_simps)
  moreover have "holds_lease ?m" unfolding holds_lease_def
  proof (intro allI impI)
    fix v u y assume y: "task_lookup ?m v u = Some y" "active (t_state y)"
    then have vu: "\<not> (v = ?w \<and> u = ?t)" "task_lookup m v u = Some y"
      using x idle by (auto simp: view_simps split: if_splits)
    then obtain l' where l': "dget (leases m) (t_lease_token y) = Some l'"
      "ls_workflow_id l' = v" "ls_task_id l' = u"
      using parts(6) y(2) unfolding holds_lease_def by blast
    with vu(1) l have "t_lease_token y \<noteq> tok" by auto
    with l' tok show "\<exists>l'. dget (leases ?m) (t_lease_token y) = Some l'
        \<and> ls_workflow_id l' = v \<and> ls_task_id l' = u"
      by (simp add: view_simps dict_simps)
  qed
  moreover have "leases_ok ?m" using c l by (rule release_leases_ok)
  moreover have "workers_ok ?m" using c l by (rule release_workers_ok)
  moreover have "closed_ok ?m" using parts(9) by (auto simp: closed_ok_def view_simps dict_simps)
  moreover have "events_ok ?m" using parts(10) by (simp add: events_ok_def view_simps)
  moreover have "budgets_ok ?m"
    using parts(11) x bud expiries_cong [of ?m m]
    by (auto simp: budgets_ok_def view_simps budget_ok_def)
  ultimately show ?thesis by (simp add: core_def)
qed

lemma flows_but_release:
  "flows_ok_but {ls_workflow_id l} m \<Longrightarrow> flows_ok_but {ls_workflow_id l} (release l g m)"
  by (erule flows_frame) (auto simp: view_simps dict_simps)

lemma inv_release_busy:
  assumes i: "inv m" and x: "task_lookup m (ls_workflow_id l) (ls_task_id l) = Some x"
    and "active (t_state x)" "busy (t_state (g x))" "core (release l g m)"
  shows "inv (release l g m)"
proof -
  have "flow_ok (release l g m) v f" if f: "dget (workflows (release l g m)) v = Some f" for v f
  proof (cases "v = ls_workflow_id l")
    case True
    with f obtain f0 where f0: "dget (workflows m) (ls_workflow_id l) = Some f0"
      "f = f0\<lparr>wf_tasks := dmod (ls_task_id l) g (wf_tasks f0)\<rparr>" by (auto simp: view_simps dict_simps)
    with i have "flow_ok m (ls_workflow_id l) f0" by (simp add: inv_def flows_ok_but_def)
    moreover have "\<not> workflow_terminal (wf_state f0)"
      using active_not_terminal [OF i x assms(3) f0(1)] .
    ultimately show ?thesis unfolding True
      by (rule flow_ok_busy [of _ _ _ _ _ "ls_task_id l" "g x"])
        (use f0 x assms in \<open>auto simp: view_simps\<close>)
  next
    case False
    have "flows_ok_but {ls_workflow_id l} (release l g m)"
      using i flows_but_mono [of "{}" m] by (intro flows_but_release) (auto simp: inv_def)
    with False f show ?thesis by (simp add: flows_ok_but_def)
  qed
  with assms(5) show ?thesis by (simp add: inv_def flows_ok_but_def)
qed

section \<open>Acquiring a lease\<close>

definition acquire :: "pystr \<Rightarrow> lease \<Rightarrow> (task \<Rightarrow> task) \<Rightarrow> model \<Rightarrow> model" where
  "acquire tok l g m =
     set_task (ls_workflow_id l) (ls_task_id l) g
       (set_worker (ls_worker_id l)
          (\<lambda>k. k\<lparr>wk_active_tokens := List.insert tok (wk_active_tokens k)\<rparr>)
          (m\<lparr>leases := dput tok l (leases m)\<rparr>))"

lemma acquire_sels [view_simps]:
  "leases (acquire tok l g m) = dput tok l (leases m)"
  "closed_leases (acquire tok l g m) = closed_leases m"
  "workers (acquire tok l g m) = dmod (ls_worker_id l)
     (\<lambda>k. k\<lparr>wk_active_tokens := List.insert tok (wk_active_tokens k)\<rparr>) (workers m)"
  "workflows (acquire tok l g m) = dmod (ls_workflow_id l)
     (\<lambda>f. f\<lparr>wf_tasks := dmod (ls_task_id l) g (wf_tasks f)\<rparr>) (workflows m)"
  "events (acquire tok l g m) = events m" "now_ms (acquire tok l g m) = now_ms m"
  "sequence_no (acquire tok l g m) = sequence_no m"
  "lease_duration_ms (acquire tok l g m) = lease_duration_ms m"
  "output_limit_bytes (acquire tok l g m) = output_limit_bytes m"
  "id_counter (acquire tok l g m) = id_counter m" "config (acquire tok l g m) = config m"
  by (simp_all add: acquire_def view_simps)

lemma task_lookup_acquire [view_simps]:
  "task_lookup (acquire tok l g m) v u =
     (if v = ls_workflow_id l \<and> u = ls_task_id l
      then map_option g (task_lookup m (ls_workflow_id l) (ls_task_id l)) else task_lookup m v u)"
  by (simp add: acquire_def view_simps)

text \<open>What granting a lease must respect: a fresh token, a ready task, a free slot.\<close>

definition grantable :: "pystr \<Rightarrow> lease \<Rightarrow> task \<Rightarrow> (task \<Rightarrow> task) \<Rightarrow> model \<Rightarrow> bool" where
  "grantable tok l x g m \<longleftrightarrow>
     tok \<noteq> [] \<and> dget (leases m) tok = None \<and> dget (closed_leases m) tok = None
     \<and> ls_token l = tok \<and> \<not> ls_closed l \<and> ls_acquired_ms l = now_ms m
     \<and> ls_expires_ms l = now_ms m + lease_duration_ms m
     \<and> task_lookup m (ls_workflow_id l) (ls_task_id l) = Some x \<and> t_state x = Ready
     \<and> static_same g \<and> t_state (g x) = Leased \<and> t_attempt (g x) = t_attempt x + 1
     \<and> t_lease_token (g x) = tok \<and> t_lease_owner (g x) = ls_worker_id l
     \<and> t_lease_until_ms (g x) = Some (ls_expires_ms l)
     \<and> task_ok (now_ms m) (output_limit_bytes m) (g x)
     \<and> (\<exists>k. dget (workers m) (ls_worker_id l) = Some k
          \<and> int (length (wk_active_tokens k)) < wk_capacity k)"

lemma acquire_leases_ok:
  assumes c: "core m" and g: "grantable tok l x g m"
  shows "leases_ok (acquire tok l g m)"
  unfolding leases_ok_def
proof (intro allI impI)
  let ?m = "acquire tok l g m"
  fix tk lk assume tk: "dget (leases ?m) tk = Some lk"
  have dur: "0 < lease_duration_ms m" using coreD(1) [OF c] by (simp add: dicts_ok_def)
  show "lease_ok ?m tk lk"
  proof (cases "tk = tok")
    case True
    with tk g dur show ?thesis
      by (auto simp: lease_ok_def view_simps dict_simps grantable_def active_def)
  next
    case False
    with tk have old: "dget (leases m) tk = Some lk" by (simp add: view_simps dict_simps)
    have ok: "lease_ok m tk lk" using coreD(7) [OF c] old by (simp add: leases_ok_def)
    with g have "\<not> (ls_workflow_id lk = ls_workflow_id l \<and> ls_task_id lk = ls_task_id l)"
      by (auto simp: lease_ok_def grantable_def active_def)
    with ok show ?thesis by (auto simp: lease_ok_def view_simps dict_simps)
  qed
qed

lemma acquire_workers_ok:
  assumes c: "core m" and g: "grantable tok l x g m"
  shows "workers_ok (acquire tok l g m)"
  unfolding workers_ok_def
proof (intro allI impI)
  let ?m = "acquire tok l g m"
  fix k wk assume "dget (workers ?m) k = Some wk"
  then obtain w0 where w0: "dget (workers m) k = Some w0" and wk: "wk = (if k = ls_worker_id l
      then w0\<lparr>wk_active_tokens := List.insert tok (wk_active_tokens w0)\<rparr> else w0)"
    by (auto simp: view_simps dict_simps split: if_splits)
  have old: "wk_id w0 = k" "distinct (wk_active_tokens w0)"
    "int (length (wk_active_tokens w0)) \<le> wk_capacity w0"
    "\<forall>tk \<in> set (wk_active_tokens w0). \<exists>l. dget (leases m) tk = Some l \<and> ls_worker_id l = k"
    using coreD(8) [OF c] w0 unfolding workers_ok_def by blast+
  have room: "k = ls_worker_id l \<Longrightarrow> int (length (wk_active_tokens w0)) < wk_capacity w0"
    using g w0 by (auto simp: grantable_def)
  have fresh: "dget (leases m) tok = None" using g by (simp add: grantable_def)
  then have "tok \<notin> set (wk_active_tokens w0)" using old(4) by auto
  with old room fresh show "wk_id wk = k \<and> distinct (wk_active_tokens wk)
    \<and> int (length (wk_active_tokens wk)) \<le> wk_capacity wk
    \<and> (\<forall>tk \<in> set (wk_active_tokens wk). \<exists>l'. dget (leases ?m) tk = Some l' \<and> ls_worker_id l' = k)"
    by (auto simp: wk view_simps dict_simps List.insert_def)
qed

lemma core_acquire:
  assumes c: "core m" and g: "grantable tok l x g m"
  shows "core (acquire tok l g m)"
proof -
  note parts = coreD [OF c]
  let ?m = "acquire tok l g m" and ?w = "ls_workflow_id l" and ?t = "ls_task_id l"
  have x: "task_lookup m ?w ?t = Some x" and st: "static_same g" and rd: "t_state x = Ready"
    and gx: "t_state (g x) = Leased" "t_lease_token (g x) = tok" "t_attempt (g x) = t_attempt x + 1"
    and ok: "task_ok (now_ms m) (output_limit_bytes m) (g x)"
    and fresh: "dget (leases m) tok = None" "dget (closed_leases m) tok = None"
    using g by (simp_all add: grantable_def)
  have "dicts_ok ?m" using parts(1) by (simp add: dicts_ok_def view_simps dict_simps)
  moreover have "shapes_ok ?m"
    using shapes_ok_set_task [OF parts(2) st, of ?w ?t] by (simp add: shapes_ok_def view_simps)
  moreover have "tasks_ok ?m" using parts(3) x ok by (auto simp: tasks_ok_def view_simps)
  moreover have "deps_ok (set_task ?w ?t g m)"
    by (rule deps_ok_set_task [OF parts(4) x st])
      (use rd parts(4) x in \<open>auto simp: deps_ok_def state_defs\<close>)
  then have "deps_ok ?m" by (simp add: deps_ok_def view_simps)
  moreover have "cancels_ok (set_task ?w ?t g m)"
    by (rule cancels_ok_set_task [OF parts(5) x st]) (use rd gx in \<open>auto simp: state_defs\<close>)
  then have "cancels_ok ?m" by (simp add: cancels_ok_def view_simps)
  moreover have "holds_lease ?m" unfolding holds_lease_def
  proof (intro allI impI)
    fix v u y assume y: "task_lookup ?m v u = Some y" "active (t_state y)"
    show "\<exists>l'. dget (leases ?m) (t_lease_token y) = Some l' \<and> ls_workflow_id l' = v
      \<and> ls_task_id l' = u"
    proof (cases "v = ?w \<and> u = ?t")
      case True
      with y x gx show ?thesis by (auto simp: view_simps dict_simps)
    next
      case False
      with y have "task_lookup m v u = Some y" by (auto simp: view_simps)
      with y(2) parts(6) obtain l' where "dget (leases m) (t_lease_token y) = Some l'"
        "ls_workflow_id l' = v" "ls_task_id l' = u" unfolding holds_lease_def by blast
      with fresh show ?thesis by (auto simp: view_simps dict_simps)
    qed
  qed
  moreover have "leases_ok ?m" using c g by (rule acquire_leases_ok)
  moreover have "workers_ok ?m" using c g by (rule acquire_workers_ok)
  moreover have "closed_ok ?m" using parts(9) fresh by (auto simp: closed_ok_def view_simps dict_simps)
  moreover have "events_ok ?m" using parts(10) by (simp add: events_ok_def view_simps)
  moreover have "budget_ok m ?w ?t x" using parts(11) x by (simp add: budgets_ok_def)
  then have "budgets_ok ?m"
    using parts(11) x gx rd expiries_cong [of ?m m] static_sameD(3) [OF st, of x]
    by (auto simp: budgets_ok_def view_simps budget_ok_def)
  ultimately show ?thesis by (simp add: core_def)
qed

lemma inv_acquire:
  assumes i: "inv m" and g: "grantable tok l x g m"
    and open': "\<And>f. dget (workflows m) (ls_workflow_id l) = Some f \<Longrightarrow> \<not> workflow_terminal (wf_state f)"
  shows "inv (acquire tok l g m)"
proof -
  let ?m = "acquire tok l g m"
  have x: "task_lookup m (ls_workflow_id l) (ls_task_id l) = Some x" "t_state (g x) = Leased"
    using g by (simp_all add: grantable_def)
  have "flow_ok ?m v f" if f: "dget (workflows ?m) v = Some f" for v f
  proof -
    obtain f0 where f0: "dget (workflows m) v = Some f0" "wf_state f = wf_state f0"
      "wf_finished_ms f = wf_finished_ms f0" "wf_created_ms f = wf_created_ms f0"
      using f by (auto simp: view_simps dict_simps split: if_splits)
    have ok: "flow_ok m v f0" using i f0(1) by (simp add: inv_def flows_ok_but_def)
    show ?thesis
    proof (cases "v = ls_workflow_id l")
      case True
      with ok open' f0 show ?thesis
        by (intro flow_ok_busy [OF ok, of _ _ "ls_task_id l" "g x"])
          (use x in \<open>auto simp: view_simps busy_def\<close>)
    next
      case False
      with ok show ?thesis by (intro flow_ok_states [OF ok]) (use f0 in \<open>auto simp: view_simps\<close>)
    qed
  qed
  with core_acquire [OF inv_core [OF i] g] show ?thesis by (simp add: inv_def flows_ok_but_def)
qed

end
