(* ===== verification/Chaos_Growth.thy ===== *)
theory Chaos_Growth
  imports Chaos_Updates
begin

text \<open>
  Updates of the reference model that touch workers, the clock and whole workflows: heartbeats and
  drops, a new worker, time moving on, a workflow's state, and a new workflow.
\<close>

section \<open>Workers\<close>

lemma lease_ok_same:
  assumes "lease_ok m tok l" "now_ms m \<le> now_ms m'"
    and "task_lookup m' (ls_workflow_id l) (ls_task_id l) = task_lookup m (ls_workflow_id l) (ls_task_id l)"
    and "\<And>k. dget (workers m) (ls_worker_id l) = Some k \<Longrightarrow> \<exists>k'. dget (workers m') (ls_worker_id l) = Some k'"
  shows "lease_ok m' tok l"
  using assms unfolding lease_ok_def by auto

lemma core_set_worker:
  assumes c: "core m"
    and f: "\<And>k. wk_id (f k) = wk_id k" "\<And>k. wk_active_tokens (f k) = wk_active_tokens k"
      "\<And>k. wk_capacity (f k) = wk_capacity k"
  shows "core (set_worker k f m)"
proof -
  note parts = coreD [OF c]
  let ?m = "set_worker k f m"
  have "leases_ok ?m" unfolding leases_ok_def
  proof (intro allI impI)
    fix tok l assume "dget (leases ?m) tok = Some l"
    with parts(7) have "lease_ok m tok l" by (simp add: leases_ok_def view_simps)
    then show "lease_ok ?m tok l"
      by (rule lease_ok_same) (auto simp: view_simps dict_simps f)
  qed
  moreover have "workers_ok ?m" using parts(8) unfolding workers_ok_def
    by (fastforce simp: view_simps dict_simps f split: if_splits)
  ultimately show ?thesis
    using parts expiries_cong [of ?m m]
    unfolding core_def dicts_ok_def shapes_ok_def tasks_ok_def deps_ok_def cancels_ok_def
      events_ok_def budgets_ok_def budget_ok_def holds_lease_def closed_ok_def
    by (simp add: view_simps dict_simps)
qed

lemma inv_set_worker:
  assumes "inv m" "\<And>k. wk_id (f k) = wk_id k" "\<And>k. wk_active_tokens (f k) = wk_active_tokens k"
      "\<And>k. wk_capacity (f k) = wk_capacity k"
  shows "inv (set_worker k f m)"
  using assms core_set_worker [OF inv_core [OF assms(1)], of f]
  by (auto simp: inv_def view_simps intro: flows_frame)

lemma core_new_worker:
  assumes c: "core m" and k: "wk_id wk = k" "wk_active_tokens wk = []" "0 \<le> wk_capacity wk"
  shows "core (m\<lparr>workers := dput k wk (workers m)\<rparr>)"
proof -
  note parts = coreD [OF c]
  let ?m = "m\<lparr>workers := dput k wk (workers m)\<rparr>"
  have "leases_ok ?m" unfolding leases_ok_def
  proof (intro allI impI)
    fix tok l assume "dget (leases ?m) tok = Some l"
    with parts(7) have "lease_ok m tok l" by (simp add: leases_ok_def)
    then show "lease_ok ?m tok l"
      by (rule lease_ok_same) (auto simp: view_simps dict_simps)
  qed
  moreover have "workers_ok ?m" using parts(8) k unfolding workers_ok_def
    by (auto simp: view_simps dict_simps split: if_splits)
  ultimately show ?thesis
    using parts expiries_cong [of ?m m]
    unfolding core_def dicts_ok_def shapes_ok_def tasks_ok_def deps_ok_def cancels_ok_def
      events_ok_def budgets_ok_def budget_ok_def holds_lease_def closed_ok_def
    by (simp add: view_simps dict_simps)
qed

lemma inv_new_worker:
  assumes "inv m" "wk_id wk = k" "wk_active_tokens wk = []" "0 \<le> wk_capacity wk"
  shows "inv (m\<lparr>workers := dput k wk (workers m)\<rparr>)"
  using assms core_new_worker [OF inv_core [OF assms(1)]]
  by (auto simp: inv_def intro: flows_frame)

section \<open>Time\<close>

lemma times_ok_later: "times_ok now x \<Longrightarrow> now \<le> now' \<Longrightarrow> times_ok now' x"
  unfolding times_ok_def by (meson order_trans)

lemma core_advance:
  assumes c: "core m" and d: "0 \<le> d"
  shows "core (m\<lparr>now_ms := now_ms m + d\<rparr>)"
proof -
  note parts = coreD [OF c]
  let ?m = "m\<lparr>now_ms := now_ms m + d\<rparr>"
  have "shapes_ok ?m" using parts(2) d by (fastforce simp: shapes_ok_def)
  moreover have "tasks_ok ?m" using parts(3) d times_ok_later [of "now_ms m" _ "now_ms m + d"]
    unfolding tasks_ok_def task_ok_def by (simp add: view_simps)
  moreover have "leases_ok ?m" unfolding leases_ok_def
  proof (intro allI impI)
    fix tok l assume "dget (leases ?m) tok = Some l"
    with parts(7) have "lease_ok m tok l" by (simp add: leases_ok_def)
    then show "lease_ok ?m tok l" by (rule lease_ok_same) (use d in \<open>auto simp: view_simps\<close>)
  qed
  moreover have "events_ok ?m" using parts(10) d by (fastforce simp: events_ok_def)
  ultimately show ?thesis
    using parts expiries_cong [of ?m m]
    unfolding core_def dicts_ok_def deps_ok_def cancels_ok_def budgets_ok_def budget_ok_def
      holds_lease_def closed_ok_def workers_ok_def
    by (simp add: view_simps)
qed

lemma inv_advance: "inv m \<Longrightarrow> 0 \<le> d \<Longrightarrow> inv (m\<lparr>now_ms := now_ms m + d\<rparr>)"
  by (auto simp: inv_def core_advance intro: flows_frame)

section \<open>The state of a workflow\<close>

lemma core_set_workflow:
  assumes c: "core m"
    and h: "\<And>f. wf_id (h f) = wf_id f" "\<And>f. wf_tasks (h f) = wf_tasks f"
      "\<And>f. wf_order (h f) = wf_order f" "\<And>f. wf_created_ms (h f) = wf_created_ms f"
    and canc: "\<And>f. dget (workflows m) w = Some f \<Longrightarrow> wf_state (h f) \<noteq> WCancelled \<Longrightarrow>
      wf_state f \<noteq> WCancelled"
  shows "core (set_workflow w h m)"
proof -
  note parts = coreD [OF c]
  let ?m = "set_workflow w h m"
  have shape: "flow_shape (h f)" if "flow_shape f" for f
    using that unfolding flow_shape_def flow_deps_def h .
  have look: "task_lookup ?m = task_lookup m" by (simp add: view_simps h)
  have "shapes_ok ?m" using parts(2) by (auto simp: shapes_ok_def view_simps dict_simps h shape)
  moreover have "cancels_ok ?m" unfolding cancels_ok_def look
  proof (intro allI impI)
    fix v f u y
    assume f: "dget (workflows ?m) v = Some f" "wf_state f \<noteq> WCancelled"
      and y: "task_lookup m v u = Some y" "t_state y = Cancelled"
    obtain f0 where "dget (workflows m) v = Some f0" "wf_state f0 \<noteq> WCancelled"
      using f canc by (auto simp: view_simps dict_simps split: if_splits)
    then show "\<exists>d \<in> set (t_depends_on y). \<exists>z. task_lookup m v d = Some z
        \<and> t_state z \<in> {Failed, Cancelled}"
      using parts(5) y unfolding cancels_ok_def by blast
  qed
  ultimately show ?thesis
    using parts expiries_cong [of ?m m]
    unfolding core_def dicts_ok_def tasks_ok_def deps_ok_def budgets_ok_def budget_ok_def
      holds_lease_def closed_ok_def workers_ok_def leases_ok_def lease_ok_def events_ok_def look
    by (simp add: view_simps dict_simps)
qed

lemma flows_but_set_workflow: "flows_ok_but {w} m \<Longrightarrow> flows_ok_but {w} (set_workflow w h m)"
  by (erule flows_frame) (auto simp: view_simps dict_simps)

lemma inv_from_but:
  "core m \<Longrightarrow> flows_ok_but {w} m \<Longrightarrow>
     (\<And>f. dget (workflows m) w = Some f \<Longrightarrow> flow_ok m w f) \<Longrightarrow> inv m"
  unfolding inv_def flows_ok_but_def by (metis singletonD)

section \<open>A new workflow\<close>

lemma core_new_workflow:
  assumes c: "core m" and new: "dget (workflows m) w = None"
    and f: "wf_id f = w" "flow_shape f" "wf_created_ms f = now_ms m"
    and ts: "\<And>t x. dget (wf_tasks f) t = Some x \<Longrightarrow> t_state x = Pending
      \<and> task_ok (now_ms m) (output_limit_bytes m) x"
  shows "core (m\<lparr>workflows := dput w f (workflows m)\<rparr>)"
proof -
  note parts = coreD [OF c]
  let ?m = "m\<lparr>workflows := dput w f (workflows m)\<rparr>"
  have look: "task_lookup ?m v u = (if v = w then dget (wf_tasks f) u else task_lookup m v u)" for v u
    by (simp add: task_lookup_def dict_simps)
  have none: "task_lookup m w u = None" for u using new by (simp add: task_lookup_def)
  have keep: "task_lookup m v u = Some y \<Longrightarrow> v \<noteq> w" for v u y using none by auto
  have "dicts_ok ?m" using parts(1) by (simp add: dicts_ok_def dict_simps)
  moreover have "shapes_ok ?m" using parts(2) f by (auto simp: shapes_ok_def dict_simps)
  moreover have "tasks_ok ?m" using parts(3) ts by (auto simp: tasks_ok_def look)
  moreover have "deps_ok ?m" using parts(4) ts unfolding deps_ok_def look
    by (auto simp: state_defs)
  moreover have "cancels_ok ?m" using parts(5) ts unfolding cancels_ok_def look
    by (auto simp: dict_simps dest: keep)
  moreover have "holds_lease ?m" using parts(6) ts unfolding holds_lease_def look
    by (auto simp: state_defs)
  moreover have "leases_ok ?m" unfolding leases_ok_def
  proof (intro allI impI)
    fix tok l assume "dget (leases ?m) tok = Some l"
    with parts(7) have ok: "lease_ok m tok l" by (simp add: leases_ok_def)
    then have "ls_workflow_id l \<noteq> w" using keep unfolding lease_ok_def by blast
    then show "lease_ok ?m tok l" by (intro lease_ok_same [OF ok]) (auto simp: look)
  qed
  moreover have "workers_ok ?m" using parts(8) by (simp add: workers_ok_def)
  moreover have "closed_ok ?m" using parts(9) by (simp add: closed_ok_def)
  moreover have "events_ok ?m" using parts(10) by (simp add: events_ok_def)
  moreover have "budgets_ok ?m" unfolding budgets_ok_def
  proof (intro allI impI)
    fix v u y assume y: "task_lookup ?m v u = Some y"
    show "budget_ok ?m v u y"
    proof (cases "v = w")
      case True
      with y have t: "dget (wf_tasks f) u = Some y" by (simp add: look)
      have "1 \<le> max_attempts (t_retry y)"
        using normalized_bounds(1) [of "t_retry y"] flow_shape_task(4) [OF f(2) t] by simp
      with ts [OF t] show ?thesis by (simp add: budget_ok_def task_ok_def)
    next
      case False
      with y parts(11) expiries_cong [of ?m m] show ?thesis
        by (simp add: budgets_ok_def budget_ok_def look)
    qed
  qed
  ultimately show ?thesis by (simp add: core_def)
qed

lemma flows_but_new_workflow:
  "flows_ok_but {} m \<Longrightarrow> flows_ok_but {w} (m\<lparr>workflows := dput w f (workflows m)\<rparr>)"
  by (rule flows_frame [of _ m]) (auto simp: dict_simps intro: flows_but_mono)

end
