(* ===== verification/Chaos_History.thy ===== *)
theory Chaos_History
  imports Chaos_Growth "HOL-Library.Sublist"
begin

text \<open>
  What no operation of the reference model takes back: the clock, the event log, the set of closed
  tokens, the workflows and their tasks, terminal states, attempts and histories. \<open>grows\<close> is the
  preorder between an earlier and a later state; each elementary update moves forwards in it.
\<close>

definition flow_grows :: "workflow \<Rightarrow> workflow \<Rightarrow> bool" where
  "flow_grows f f' \<longleftrightarrow> wf_order f' = wf_order f \<and> wf_created_ms f' = wf_created_ms f
     \<and> (workflow_terminal (wf_state f) \<longrightarrow>
          wf_state f' = wf_state f \<and> wf_finished_ms f' = wf_finished_ms f)"

definition task_grows :: "task \<Rightarrow> task \<Rightarrow> bool" where
  "task_grows x x' \<longleftrightarrow> t_id x' = t_id x \<and> t_depends_on x' = t_depends_on x \<and> t_retry x' = t_retry x
     \<and> t_attempt x \<le> t_attempt x' \<and> t_output_bytes x \<le> t_output_bytes x'
     \<and> prefix (t_history x) (t_history x')
     \<and> (task_terminal (t_state x) \<longrightarrow> t_state x' = t_state x)"

definition grows :: "model \<Rightarrow> model \<Rightarrow> bool" where
  "grows m m' \<longleftrightarrow>
     config m' = config m \<and> now_ms m \<le> now_ms m' \<and> prefix (events m) (events m') \<and> id_counter m \<le> id_counter m'
     \<and> (\<forall>tok. dget (closed_leases m) tok \<noteq> None \<longrightarrow> dget (closed_leases m') tok \<noteq> None)
     \<and> (\<forall>w f. dget (workflows m) w = Some f \<longrightarrow>
          (\<exists>f'. dget (workflows m') w = Some f' \<and> flow_grows f f'))
     \<and> (\<forall>w t x. task_lookup m w t = Some x \<longrightarrow>
          (\<exists>x'. task_lookup m' w t = Some x' \<and> task_grows x x'))"

lemma flow_grows_refl [simp]: "flow_grows f f"
  by (simp add: flow_grows_def)

lemma flow_grows_trans: "flow_grows a b \<Longrightarrow> flow_grows b c \<Longrightarrow> flow_grows a c"
  by (auto simp: flow_grows_def)

lemma task_grows_refl [simp]: "task_grows x x"
  by (simp add: task_grows_def)

lemma task_grows_trans: "task_grows a b \<Longrightarrow> task_grows b c \<Longrightarrow> task_grows a c"
  unfolding task_grows_def by (auto intro: prefix_order.trans)

lemma grows_refl [simp, intro]: "grows m m"
  by (simp add: grows_def)

lemma growsD:
  assumes "grows m m'"
  shows "now_ms m \<le> now_ms m'" "prefix (events m) (events m')"
    "dget (closed_leases m) tok \<noteq> None \<Longrightarrow> dget (closed_leases m') tok \<noteq> None"
    "dget (workflows m) w = Some f \<Longrightarrow> \<exists>f'. dget (workflows m') w = Some f' \<and> flow_grows f f'"
    "task_lookup m w t = Some x \<Longrightarrow> \<exists>x'. task_lookup m' w t = Some x' \<and> task_grows x x'"
    "id_counter m \<le> id_counter m'" "config m' = config m"
  using assms unfolding grows_def by blast+

lemma growsI:
  assumes "config m' = config m"
    "now_ms m \<le> now_ms m'" "prefix (events m) (events m')" "id_counter m \<le> id_counter m'"
    "\<And>tok. dget (closed_leases m) tok \<noteq> None \<Longrightarrow> dget (closed_leases m') tok \<noteq> None"
    "\<And>w f. dget (workflows m) w = Some f \<Longrightarrow> \<exists>f'. dget (workflows m') w = Some f' \<and> flow_grows f f'"
    "\<And>w t x. task_lookup m w t = Some x \<Longrightarrow> \<exists>x'. task_lookup m' w t = Some x' \<and> task_grows x x'"
  shows "grows m m'"
  unfolding grows_def using assms by blast

lemma grows_trans:
  assumes ab: "grows a b" and bc: "grows b c"
  shows "grows a c"
proof (rule growsI)
  show "config c = config a" using growsD(7) [OF ab] growsD(7) [OF bc] by simp
  show "now_ms a \<le> now_ms c" "prefix (events a) (events c)" "id_counter a \<le> id_counter c"
    using growsD(1,2,6) [OF ab] growsD(1,2,6) [OF bc] by (auto intro: prefix_order.trans)
  show "dget (closed_leases c) tok \<noteq> None" if "dget (closed_leases a) tok \<noteq> None" for tok
    using growsD(3) [OF bc growsD(3) [OF ab that]] .
  show "\<exists>f'. dget (workflows c) w = Some f' \<and> flow_grows f f'" if "dget (workflows a) w = Some f" for w f
    using growsD(4) [OF ab that] growsD(4) [OF bc] flow_grows_trans by blast
  show "\<exists>x'. task_lookup c w t = Some x' \<and> task_grows x x'" if "task_lookup a w t = Some x" for w t x
    using growsD(5) [OF ab that] growsD(5) [OF bc] task_grows_trans by blast
qed

lemma grows_frame:
  assumes "workflows m' = workflows m" "now_ms m \<le> now_ms m'" "prefix (events m) (events m')"
    "id_counter m \<le> id_counter m'" "closed_leases m' = closed_leases m" "config m' = config m"
  shows "grows m m'"
  unfolding grows_def using assms task_lookup_cong [OF assms(1)] by auto

text \<open>The elementary updates.\<close>

lemma grows_updates [simp]:
  "grows m (emit_event ty w t k d m)" "grows m (count_rejection c m)"
  "0 \<le> i \<Longrightarrow> grows m (m\<lparr>id_counter := id_counter m + i\<rparr>)"
  "grows m (set_worker k f m)" "grows m (set_lease tok l m)"
  "grows m (m\<lparr>workers := ws\<rparr>)" "0 \<le> d' \<Longrightarrow> grows m (m\<lparr>now_ms := now_ms m + d'\<rparr>)"
  by (rule grows_frame; simp add: view_simps)+

lemma grows_set_task:
  assumes "\<And>x. task_lookup m w t = Some x \<Longrightarrow> task_grows x (g x)"
  shows "grows m (set_task w t g m)"
  unfolding grows_def using assms by (auto simp: view_simps dict_simps flow_grows_def)

lemma grows_release:
  assumes "\<And>x. task_lookup m (ls_workflow_id l) (ls_task_id l) = Some x \<Longrightarrow> task_grows x (g x)"
  shows "grows m (release l g m)"
  unfolding grows_def using assms by (auto simp: view_simps dict_simps flow_grows_def)

lemma grows_acquire:
  assumes "\<And>x. task_lookup m (ls_workflow_id l) (ls_task_id l) = Some x \<Longrightarrow> task_grows x (g x)"
  shows "grows m (acquire tok l g m)"
  unfolding grows_def using assms by (auto simp: view_simps dict_simps flow_grows_def)

lemma grows_extend: "grows m (extend tok l until m)"
  unfolding extend_def
  by (rule grows_trans [OF _ grows_set_task]) (auto simp: task_grows_def)

lemma grows_set_workflow:
  assumes "\<And>f. wf_tasks (h f) = wf_tasks f"
    "\<And>f. dget (workflows m) w = Some f \<Longrightarrow> flow_grows f (h f)"
  shows "grows m (set_workflow w h m)"
  unfolding grows_def using assms by (auto simp: view_simps dict_simps)

lemma grows_new_workflow:
  assumes "dget (workflows m) w = None"
  shows "grows m (m\<lparr>workflows := dput w f (workflows m)\<rparr>)"
proof -
  have "task_lookup (m\<lparr>workflows := dput w f (workflows m)\<rparr>) v u = task_lookup m v u" if "v \<noteq> w" for v u
    using that by (simp add: task_lookup_def dict_simps)
  moreover have "task_lookup m v u = Some x \<Longrightarrow> v \<noteq> w" for v u x
    using assms by (auto simp: task_lookup_def)
  ultimately show ?thesis using assms unfolding grows_def by (auto simp: dict_simps view_simps)
qed

end
