(* ===== verification/Chaos_Recompute.thy ===== *)
theory Chaos_Recompute
  imports Chaos_History
begin

text \<open>
  The recomputation of a workflow: one pass over the tasks in topological order that readies or
  cancels the pending ones and wakes the due retries, then the workflow's new state. The pass may
  start from a state whose workflow is out of date; it ends in a state that satisfies the full
  invariant, where a workflow that is not terminal has a task that can still make progress.
\<close>

section \<open>Transitions\<close>

definition move :: "task_state \<Rightarrow> task \<Rightarrow> task" where
  "move s x = x\<lparr>t_state := s, t_history := t_history x @ [s]\<rparr>"

lemma move_sels [simp]:
  "t_state (move s x) = s" "t_history (move s x) = t_history x @ [s]"
  "t_id (move s x) = t_id x" "t_depends_on (move s x) = t_depends_on x"
  "t_labels (move s x) = t_labels x" "t_retry (move s x) = t_retry x"
  "t_timeout_ms (move s x) = t_timeout_ms x" "t_attempt (move s x) = t_attempt x"
  "t_lease_token (move s x) = t_lease_token x" "t_lease_owner (move s x) = t_lease_owner x"
  "t_lease_until_ms (move s x) = t_lease_until_ms x" "t_next_retry_ms (move s x) = t_next_retry_ms x"
  "t_started_ms (move s x) = t_started_ms x" "t_finished_ms (move s x) = t_finished_ms x"
  "t_exit_code (move s x) = t_exit_code x" "t_error (move s x) = t_error x"
  "t_output_bytes (move s x) = t_output_bytes x"
  by (simp_all add: move_def)

lemma not_allowed_self: "s \<in> set (allowed_task_transitions s') \<Longrightarrow> s \<noteq> s'"
  by (cases s') auto

lemma transition_run:
  assumes "task_lookup m w t = Some x" "s \<in> set (allowed_task_transitions (t_state x))"
  shows "transition_task w t s m = (Inr (), set_task w t (move s) m)"
  using assms not_allowed_self [OF assms(2)]
  by (simp add: transition_task_def the_task_def proc_simps move_def [abs_def])

section \<open>What a recomputation leaves alone\<close>

definition calm :: "pystr \<Rightarrow> model \<Rightarrow> model \<Rightarrow> bool" where
  "calm w m s \<longleftrightarrow>
     workers s = workers m \<and> leases s = leases m \<and> closed_leases s = closed_leases m
     \<and> now_ms s = now_ms m \<and> id_counter s = id_counter m \<and> dkeys (workflows s) = dkeys (workflows m)
     \<and> lease_duration_ms s = lease_duration_ms m
     \<and> (\<forall>v. v \<noteq> w \<longrightarrow> dget (workflows s) v = dget (workflows m) v)"

definition quiet :: "pystr \<Rightarrow> model \<Rightarrow> model \<Rightarrow> bool" where
  "quiet w m s \<longleftrightarrow> calm w m s
     \<and> (\<forall>f. dget (workflows m) w = Some f \<longrightarrow>
          (\<exists>ts. dget (workflows s) w = Some (f\<lparr>wf_tasks := ts\<rparr>)))"

lemma calm_refl [simp]: "calm w m m"
  by (simp add: calm_def)

lemma calm_trans: "calm w a b \<Longrightarrow> calm w b c \<Longrightarrow> calm w a c"
  by (simp add: calm_def)

lemma quiet_refl [simp]: "quiet w m m"
proof -
  have "\<exists>ts. f = f\<lparr>wf_tasks := ts\<rparr>" for f :: workflow
    by (rule exI [of _ "wf_tasks f"]) simp
  then show ?thesis by (simp add: quiet_def)
qed

lemma quiet_trans: "quiet w a b \<Longrightarrow> quiet w b c \<Longrightarrow> quiet w a c"
  unfolding quiet_def by (fastforce intro: calm_trans)

lemma quiet_set_task: "quiet w m (set_task w t g m)"
  by (auto simp: quiet_def calm_def view_simps dict_simps)

lemma quiet_emit: "quiet w m s \<Longrightarrow> quiet w m (emit_event ty a b c d s)"
  by (simp add: quiet_def calm_def view_simps)

text \<open>The state of a workflow under recomputation: all but its own state is in order.\<close>

definition draft :: "pystr \<Rightarrow> model \<Rightarrow> model \<Rightarrow> bool" where
  "draft w m s \<longleftrightarrow> core s \<and> flows_ok_but {w} s \<and> grows m s \<and> quiet w m s"

lemma draft_refl: "core m \<Longrightarrow> flows_ok_but {w} m \<Longrightarrow> draft w m m"
  by (simp add: draft_def)

lemma draft_trans: "draft w a b \<Longrightarrow> draft w b c \<Longrightarrow> draft w a c"
  by (auto simp: draft_def intro: grows_trans quiet_trans)

lemma draft_emit: "draft w m s \<Longrightarrow> draft w m (emit_event ty a b c d s)"
  by (auto simp: draft_def core_emit view_simps intro: flows_frame quiet_emit grows_trans)

lemma draft_set_task:
  assumes "core m" "flows_ok_but {w} m" "task_lookup m w t = Some x" "core (set_task w t g m)"
    "task_grows x (g x)"
  shows "draft w m (set_task w t g m)"
  using assms by (auto simp: draft_def quiet_set_task intro: flows_but_set_task grows_set_task)

section \<open>One task\<close>

definition settled :: "model \<Rightarrow> pystr \<Rightarrow> pystr \<Rightarrow> bool" where
  "settled m w t \<longleftrightarrow> (\<forall>x. task_lookup m w t = Some x \<longrightarrow> t_state x = Pending \<longrightarrow>
     (\<exists>d \<in> set (t_depends_on x). \<exists>y. task_lookup m w d = Some y \<and> \<not> task_terminal (t_state y)))"

definition give_up :: "int \<Rightarrow> task \<Rightarrow> task" where
  "give_up now x = move Cancelled (x\<lparr>t_finished_ms := Some now\<rparr>)"

definition wake :: "task \<Rightarrow> task" where
  "wake x = move Ready (x\<lparr>t_next_retry_ms := None, t_finished_ms := None\<rparr>)"

lemma dep_states_run:
  assumes "\<forall>d \<in> set ds. \<exists>y. task_lookup m w d = Some y"
  shows "dep_states w ds m = (Inr (map (\<lambda>d. t_state (the (task_lookup m w d))) ds), m)"
proof -
  have "those (map (\<lambda>d. map_option t_state (task_lookup m w d)) ds)
    = Some (map (\<lambda>d. t_state (the (task_lookup m w d))) ds)"
    using assms by (induction ds) auto
  then show ?thesis by (simp add: dep_states_def proc_simps)
qed

lemma deps_exist:
  assumes "core m" "task_lookup m w t = Some x"
  shows "\<forall>d \<in> set (t_depends_on x). \<exists>y. task_lookup m w d = Some y"
proof -
  obtain f where f: "dget (workflows m) w = Some f" "dget (wf_tasks f) t = Some x"
    using assms(2) by (auto simp: task_lookup_Some)
  then have shape: "flow_shape f" using coreD(2) [OF assms(1)] by (simp add: shapes_ok_def)
  show ?thesis
    using flow_shape_task(3) [OF shape f(2)] flow_shapeD(3) [OF shape]
    by (auto simp: task_lookup_flow [OF f(1)] dget_dkeys subset_iff)
qed

text \<open>The four ways a pass may treat a task.\<close>

lemma recompute_task_run:
  assumes c: "core m" and x: "task_lookup m w t = Some x"
  defines "deps \<equiv> map (\<lambda>d. t_state (the (task_lookup m w d))) (t_depends_on x)"
  shows "recompute_task w t m = (Inr (),
    if t_state x = Pending \<and> (\<exists>s \<in> set deps. s \<in> {Failed, Cancelled})
      then set_task w t (give_up (now_ms m)) m
    else if t_state x = Pending \<and> (\<forall>s \<in> set deps. s = Succeeded)
      then emit_event Task_ready w t [] [] (set_task w t (move Ready) m)
    else if t_state x = RetryWait \<and> (t_next_retry_ms x = None \<or> the (t_next_retry_ms x) \<le> now_ms m)
      then emit_event Task_ready w t [] [] (set_task w t wake m)
    else m)"
proof -
  let ?fin = "\<lambda>x. x\<lparr>t_finished_ms := Some (now_ms m)\<rparr>"
  let ?clr = "\<lambda>x. x\<lparr>t_next_retry_ms := None, t_finished_ms := None\<rparr>"
  have cancel: "transition_task w t Cancelled (set_task w t ?fin m)
      = (Inr (), set_task w t (give_up (now_ms m)) m)" if "t_state x = Pending"
    using transition_run [of "set_task w t ?fin m" w t "?fin x" Cancelled] x that
    by (simp add: view_simps set_task_set_task give_up_def [abs_def] comp_def)
  have ready: "transition_task w t Ready m = (Inr (), set_task w t (move Ready) m)"
    if "t_state x = Pending" using transition_run [OF x, of Ready] that by simp
  have retry: "transition_task w t Ready (set_task w t ?clr m) = (Inr (), set_task w t wake m)"
    if "t_state x = RetryWait"
    using transition_run [of "set_task w t ?clr m" w t "?clr x" Ready] x that
    by (simp add: view_simps set_task_set_task wake_def [abs_def] comp_def)
  note deps = dep_states_run [OF deps_exist [OF c x], folded deps_def]
  show ?thesis
    unfolding recompute_task_def the_task_def using x deps cancel ready retry
    by (auto simp: proc_simps emit_def list_ex_iff list_all_iff)
qed

lemma draft_recompute_task:
  assumes c: "core m" "flows_ok_but {w} m" and f: "dget (workflows m) w = Some f"
    and nc: "wf_state f \<noteq> WCancelled" and x: "task_lookup m w t = Some x"
  shows "\<exists>s. recompute_task w t m = (Inr (), s) \<and> draft w m s \<and> settled s w t
    \<and> (\<forall>u. u \<noteq> t \<longrightarrow> task_lookup s w u = task_lookup m w u)"
proof -
  let ?deps = "map (\<lambda>d. t_state (the (task_lookup m w d))) (t_depends_on x)"
  note run = recompute_task_run [OF c(1) x]
  note parts = coreD [OF c(1)]
  have ok: "task_ok (now_ms m) (output_limit_bytes m) x" using parts(3) x by (simp add: tasks_ok_def)
  have bud: "budget_ok m w t x" using parts(11) x by (simp add: budgets_ok_def)
  have exist: "\<forall>d \<in> set (t_depends_on x). \<exists>y. task_lookup m w d = Some y"
    using deps_exist [OF c(1) x] .
  have post: ?thesis if "recompute_task w t m = (Inr (), s)" "core (set_task w t g m)"
    "task_grows x (g x)" "t_state (g x) \<noteq> Pending"
    "s = set_task w t g m \<or> s = emit_event Task_ready w t [] [] (set_task w t g m)" for g s
    using that draft_set_task [OF c x that(2,3)] x
    by (auto simp: view_simps settled_def intro: draft_emit)
  consider (cancel) "t_state x = Pending" "\<exists>s \<in> set ?deps. s \<in> {Failed, Cancelled}"
    | (ready) "t_state x = Pending" "\<not> (\<exists>s \<in> set ?deps. s \<in> {Failed, Cancelled})"
        "\<forall>s \<in> set ?deps. s = Succeeded"
    | (retry) "t_state x = RetryWait" "t_next_retry_ms x = None \<or> the (t_next_retry_ms x) \<le> now_ms m"
    | (wait) "t_state x = Pending" "\<not> (\<exists>s \<in> set ?deps. s \<in> {Failed, Cancelled})"
        "\<not> (\<forall>s \<in> set ?deps. s = Succeeded)"
    | (other) "t_state x \<noteq> Pending"
        "\<not> (t_state x = RetryWait \<and> (t_next_retry_ms x = None \<or> the (t_next_retry_ms x) \<le> now_ms m))"
    by blast
  then show ?thesis
  proof cases
    case cancel
    have "core (set_task w t (give_up (now_ms m)) m)"
    proof (rule core_set_task [OF c(1) x])
      show "task_ok (now_ms m) (output_limit_bytes m) (give_up (now_ms m) x)"
        using ok cancel(1) by (auto simp: task_ok_def times_ok_def give_up_def state_defs
            intro: history_ok_append)
      show "\<exists>d \<in> set (t_depends_on x). \<exists>y. task_lookup m w d = Some y
          \<and> t_state y \<in> {Failed, Cancelled}" using cancel(2) exist by fastforce
      show "budget_ok m w t (give_up (now_ms m) x)"
        using bud cancel(1) by (simp add: budget_ok_def give_up_def)
    qed (use cancel(1) in \<open>simp_all add: static_same_def give_up_def state_defs\<close>)
    then show ?thesis
      by (rule post [rotated]) (use run cancel in \<open>auto simp: task_grows_def give_up_def state_defs\<close>)
  next
    case ready
    have "core (set_task w t (move Ready) m)"
    proof (rule core_set_task [OF c(1) x])
      show "task_ok (now_ms m) (output_limit_bytes m) (move Ready x)"
        using ok ready(1) by (auto simp: task_ok_def times_ok_def state_defs
            intro: history_ok_append)
      show "\<forall>d \<in> set (t_depends_on x). \<exists>y. task_lookup m w d = Some y \<and> t_state y = Succeeded"
        using ready(3) exist by fastforce
      show "budget_ok m w t (move Ready x)" using bud ready(1) by (simp add: budget_ok_def)
    qed (use ready(1) in \<open>simp_all add: static_same_def state_defs\<close>)
    then show ?thesis
      by (rule post [rotated]) (use run ready in \<open>auto simp: task_grows_def state_defs\<close>)
  next
    case retry
    have "core (set_task w t wake m)"
    proof (rule core_set_task [OF c(1) x])
      show "task_ok (now_ms m) (output_limit_bytes m) (wake x)"
        using ok retry(1) by (auto simp: task_ok_def times_ok_def state_defs wake_def
            intro: history_ok_append)
      show "\<forall>d \<in> set (t_depends_on x). \<exists>y. task_lookup m w d = Some y \<and> t_state y = Succeeded"
        using parts(4) x retry(1) by (auto simp: deps_ok_def state_defs)
      show "budget_ok m w t (wake x)" using bud retry(1) by (simp add: budget_ok_def wake_def)
    qed (use retry(1) in \<open>simp_all add: static_same_def state_defs wake_def\<close>)
    then show ?thesis
      by (rule post [rotated]) (use run retry in \<open>auto simp: task_grows_def state_defs wake_def\<close>)
  next
    case wait
    then obtain d y where "d \<in> set (t_depends_on x)" "task_lookup m w d = Some y"
      "\<not> task_terminal (t_state y)" using exist by (force simp: task_terminal_def)
    then have "settled m w t" using x by (auto simp: settled_def)
    with wait run draft_refl [OF c] show ?thesis by auto
  next
    case other
    then have "settled m w t" using x by (simp add: settled_def)
    with other run draft_refl [OF c] show ?thesis by auto
  qed
qed

section \<open>The pass\<close>

lemma draftD:
  assumes "draft w m s" "dget (workflows m) w = Some f"
  obtains f' where "dget (workflows s) w = Some f'" "wf_order f' = wf_order f"
    "wf_state f' = wf_state f" "wf_finished_ms f' = wf_finished_ms f"
    "wf_created_ms f' = wf_created_ms f" "flow_shape f'"
proof -
  from assms obtain ts where ts: "dget (workflows s) w = Some (f\<lparr>wf_tasks := ts\<rparr>)"
    by (auto simp: draft_def quiet_def)
  moreover have "flow_shape (f\<lparr>wf_tasks := ts\<rparr>)"
    using coreD(2) [of s] assms(1) ts by (simp add: draft_def shapes_ok_def)
  ultimately show ?thesis using that by simp
qed

lemma settled_other:
  assumes "settled m w u" "u \<noteq> t" "\<And>v. v \<noteq> t \<Longrightarrow> task_lookup s w v = task_lookup m w v"
    "\<And>x. task_lookup m w u = Some x \<Longrightarrow> t \<notin> set (t_depends_on x)"
  shows "settled s w u"
  using assms unfolding settled_def by (metis)

lemma draft_pass:
  assumes "core m" "flows_ok_but {w} m" "dget (workflows m) w = Some f" "wf_state f \<noteq> WCancelled"
    and "wf_order f = done @ todo" "\<forall>t \<in> set done. settled m w t"
  shows "\<exists>s. for_each todo (recompute_task w) m = (Inr (), s) \<and> draft w m s
    \<and> (\<forall>t \<in> set (wf_order f). settled s w t)"
  using assms
proof (induction todo arbitrary: m f "done")
  case Nil
  then show ?case using draft_refl by (auto simp: proc_simps)
next
  case (Cons t todo)
  have shape: "flow_shape f" using coreD(2) Cons.prems(1,3) by (simp add: shapes_ok_def)
  have "t \<in> set (dkeys (wf_tasks f))" using Cons.prems(5) flow_shapeD(3) [OF shape] by force
  then obtain x where "dget (wf_tasks f) t = Some x" by (auto simp: dget_dkeys)
  then have x: "task_lookup m w t = Some x" using Cons.prems(3) by (simp add: task_lookup_flow)
  obtain s where s: "recompute_task w t m = (Inr (), s)" "draft w m s" "settled s w t"
    "\<forall>u. u \<noteq> t \<longrightarrow> task_lookup s w u = task_lookup m w u"
    using draft_recompute_task [OF Cons.prems(1-4) x] by blast
  obtain f' where f': "dget (workflows s) w = Some f'" "wf_order f' = wf_order f"
    "wf_state f' = wf_state f" using draftD [OF s(2) Cons.prems(3)] by metis
  have "settled s w u" if u: "u \<in> set (done @ [t])" for u
  proof (cases "u = t")
    case False
    with u have u: "u \<in> set done" by simp
    have "t \<notin> set done" using flow_shapeD(2) [OF shape] Cons.prems(5) by simp
    moreover have "topo_from (flow_deps f) {} done"
      using flow_shapeD(5) [OF shape] Cons.prems(5) by (simp add: topo_from_append)
    then have "set (flow_deps f u) \<subseteq> set done" using u by (metis topo_from_closed)
    ultimately have "t \<notin> set (t_depends_on y)" if "task_lookup m w u = Some y" for y
      using that Cons.prems(3) by (auto simp: flow_deps_def task_lookup_Some)
    then show ?thesis using settled_other [of m w u t s] Cons.prems(6) u s(4) False by blast
  qed (use s in simp)
  then obtain s' where s': "for_each todo (recompute_task w) s = (Inr (), s')" "draft w s s'"
    "\<forall>t \<in> set (wf_order f'). settled s' w t"
    using Cons.IH [of s f' "done @ [t]"] s(2) f' Cons.prems by (auto simp: draft_def)
  with s f'(2) show ?case by (auto simp: proc_simps intro: draft_trans)
qed

section \<open>Progress\<close>

lemma topo_induct:
  assumes "topo_from deps {} xs" "\<And>v. v \<in> set xs \<Longrightarrow> (\<And>d. d \<in> set (deps v) \<Longrightarrow> Q d) \<Longrightarrow> Q v"
  shows "\<forall>v \<in> set xs. Q v"
proof -
  have "i < length xs \<Longrightarrow> Q (xs ! i)" for i
  proof (induction i rule: less_induct)
    case (less i)
    have "Q d" if "d \<in> set (deps (xs ! i))" for d
    proof -
      have "d \<in> set (take i xs)" using topo_from_prefix [OF assms(1) less.prems] that by blast
      then obtain j where "j < i" "d = xs ! j" using less.prems by (auto simp: in_set_conv_nth)
      with less show ?thesis by simp
    qed
    then show ?case using less.prems by (blast intro: assms(2) [OF nth_mem])
  qed
  then show ?thesis by (auto simp: in_set_conv_nth)
qed

lemma all_terminal_or_busy:
  assumes c: "core m" and f: "dget (workflows m) w = Some f"
    and settled: "\<forall>t \<in> set (wf_order f). settled m w t"
    and idle: "\<not> (\<exists>t x. task_lookup m w t = Some x \<and> busy (t_state x))"
  shows "task_lookup m w t = Some x \<Longrightarrow> task_terminal (t_state x)"
proof -
  have shape: "flow_shape f" using coreD(2) c f by (simp add: shapes_ok_def)
  have "\<forall>t \<in> set (wf_order f). \<forall>x. task_lookup m w t = Some x \<longrightarrow> task_terminal (t_state x)"
  proof (rule topo_induct [OF flow_shapeD(5) [OF shape]], intro allI impI)
    fix t x assume t: "t \<in> set (wf_order f)" and x: "task_lookup m w t = Some x"
      and deps: "\<And>d. d \<in> set (flow_deps f t) \<Longrightarrow>
        \<forall>x. task_lookup m w d = Some x \<longrightarrow> task_terminal (t_state x)"
    have "flow_deps f t = t_depends_on x"
      using x f by (simp add: flow_deps_def task_lookup_flow [OF f])
    with deps have "t_state x \<noteq> Pending" using settled t x unfolding settled_def by metis
    moreover have "\<not> busy (t_state x)" using idle x by blast
    ultimately show "task_terminal (t_state x)"
      unfolding busy_def task_terminal_def by (cases "t_state x") simp_all
  qed
  moreover have "task_lookup m w t = Some x \<Longrightarrow> t \<in> set (wf_order f)"
    using flow_shapeD(3) [OF shape] by (simp add: task_lookup_flow [OF f] dget_dkeys)
  ultimately show "task_lookup m w t = Some x \<Longrightarrow> task_terminal (t_state x)" by blast
qed

text \<open>Without a failed task, tasks that are all terminal have all succeeded.\<close>

lemma no_failure_success:
  assumes c: "core m" and f: "dget (workflows m) w = Some f" "wf_state f \<noteq> WCancelled"
    and fin: "\<And>t x. task_lookup m w t = Some x \<Longrightarrow> task_terminal (t_state x)"
    and nofail: "\<And>t x. task_lookup m w t = Some x \<Longrightarrow> t_state x \<noteq> Failed"
  shows "task_lookup m w t = Some x \<Longrightarrow> t_state x = Succeeded"
proof -
  have shape: "flow_shape f" using coreD(2) c f by (simp add: shapes_ok_def)
  have "\<forall>t \<in> set (wf_order f). \<forall>x. task_lookup m w t = Some x \<longrightarrow> t_state x = Succeeded"
  proof (rule topo_induct [OF flow_shapeD(5) [OF shape]], intro allI impI)
    fix t x assume x: "task_lookup m w t = Some x"
      and deps: "\<And>d. d \<in> set (flow_deps f t) \<Longrightarrow>
        \<forall>x. task_lookup m w d = Some x \<longrightarrow> t_state x = Succeeded"
    have fd: "flow_deps f t = t_depends_on x"
      using x f by (simp add: flow_deps_def task_lookup_flow [OF f(1)])
    have "t_state x \<noteq> Cancelled"
    proof
      assume "t_state x = Cancelled"
      then obtain d y where "d \<in> set (t_depends_on x)" "task_lookup m w d = Some y"
        "t_state y \<in> {Failed, Cancelled}"
        using coreD(5) [OF c] f x unfolding cancels_ok_def by blast
      with deps fd show False by auto
    qed
    with fin [OF x] nofail [OF x] show "t_state x = Succeeded" by (auto simp: task_terminal_def)
  qed
  moreover have "task_lookup m w t = Some x \<Longrightarrow> t \<in> set (wf_order f)"
    using flow_shapeD(3) [OF shape] by (simp add: task_lookup_flow [OF f(1)] dget_dkeys)
  ultimately show "task_lookup m w t = Some x \<Longrightarrow> t_state x = Succeeded" by blast
qed

section \<open>The workflow\<close>

lemma tasks_forall:
  assumes "core m" "dget (workflows m) w = Some f"
  shows "list_all P (map t_state (dvals (wf_tasks f))) \<longleftrightarrow>
    (\<forall>t x. task_lookup m w t = Some x \<longrightarrow> P (t_state x))"
proof -
  have "dwf (wf_tasks f)"
    using coreD(2) [OF assms(1)] assms(2) flow_shapeD(1) by (auto simp: shapes_ok_def)
  then show ?thesis
    by (auto simp: list_all_iff dvals_iff task_lookup_flow [OF assms(2)])
qed

lemma tasks_exists:
  assumes "core m" "dget (workflows m) w = Some f"
  shows "list_ex P (map t_state (dvals (wf_tasks f))) \<longleftrightarrow>
    (\<exists>t x. task_lookup m w t = Some x \<and> P (t_state x))"
  using tasks_forall [OF assms, of "\<lambda>s. \<not> P s"] by (auto simp: list_all_iff list_ex_iff)

definition settle_flow :: "int \<Rightarrow> workflow_state \<Rightarrow> workflow \<Rightarrow> workflow" where
  "settle_flow now after f = f\<lparr>wf_state := after,
     wf_finished_ms := (if after \<in> {WSucceeded, WFailed} then Some now else wf_finished_ms f)\<rparr>"

lemma flow_ok_settle:
  assumes c: "core m" and f: "dget (workflows m) w = Some f"
    and open': "wf_state f \<in> {WPending, WRunning}" "wf_finished_ms f = None"
    and settled: "\<forall>t \<in> set (wf_order f). settled m w t"
  defines "after \<equiv> next_workflow_state (wf_state f) (map t_state (dvals (wf_tasks f)))"
  shows "flow_ok m w (settle_flow (now_ms m) after f)"
proof -
  have created: "wf_created_ms f \<le> now_ms m" using coreD(2) [OF c] f by (simp add: shapes_ok_def)
  have nc: "wf_state f \<noteq> WCancelled" using open' by auto
  have all: "list_all (\<lambda>s. s = Succeeded) (map t_state (dvals (wf_tasks f))) \<longleftrightarrow>
    (\<forall>t x. task_lookup m w t = Some x \<longrightarrow> t_state x = Succeeded)" by (rule tasks_forall [OF c f])
  have failed: "list_ex (\<lambda>s. s = Failed) (map t_state (dvals (wf_tasks f))) \<longleftrightarrow>
    (\<exists>t x. task_lookup m w t = Some x \<and> t_state x = Failed)" by (rule tasks_exists [OF c f])
  have works: "list_ex (\<lambda>s. s \<in> {Ready, Leased, Running, RetryWait}) (map t_state (dvals (wf_tasks f)))
    \<longleftrightarrow> (\<exists>t x. task_lookup m w t = Some x \<and> busy (t_state x))"
    unfolding busy_def by (rule tasks_exists [OF c f])
  have term': "\<not> (\<exists>t x. task_lookup m w t = Some x \<and> busy (t_state x)) \<Longrightarrow>
      task_lookup m w t = Some x \<Longrightarrow> task_terminal (t_state x)" for t x
    using all_terminal_or_busy [OF c f settled] .
  let ?A = "\<forall>t x. task_lookup m w t = Some x \<longrightarrow> t_state x = Succeeded"
  let ?F = "\<exists>t x. task_lookup m w t = Some x \<and> t_state x = Failed"
  let ?B = "\<exists>t x. task_lookup m w t = Some x \<and> busy (t_state x)"
  have eq: "after = (if ?A then WSucceeded else if ?F \<and> \<not> ?B then WFailed else WRunning)"
    using open'(1) unfolding after_def next_workflow_state_def all failed works by auto
  consider (won) ?A | (lost) "\<not> ?A" ?F "\<not> ?B" | (run) "\<not> ?A" "\<not> (?F \<and> \<not> ?B)" by blast
  then show ?thesis
  proof cases
    case won
    then have "after = WSucceeded" unfolding eq by (rule if_P)
    with won show ?thesis using created
      by (auto simp: flow_ok_def settle_flow_def workflow_terminal_def task_terminal_def)
  next
    case lost
    then have "after = WFailed" unfolding eq by (simp only: if_False if_True simp_thms)
    then show ?thesis using created term' [OF lost(3)]
      by (auto simp: flow_ok_def settle_flow_def workflow_terminal_def)
  next
    case run
    then have after: "after = WRunning" unfolding eq by (simp only: if_False)
    have ?B
    proof (rule ccontr)
      assume idle: "\<not> ?B"
      with run(2) have "\<not> ?F" by blast
      then have nofail: "t_state x \<noteq> Failed" if "task_lookup m w t = Some x" for t x
        using that by blast
      have "t_state x = Succeeded" if "task_lookup m w t = Some x" for t x
        by (rule no_failure_success [OF c f nc _ _ that]) (fact term' [OF idle], fact nofail)
      with run(1) show False by blast
    qed
    with after open'(2) show ?thesis
      by (simp add: flow_ok_def settle_flow_def workflow_terminal_def)
  qed
qed

definition settle_event :: "pystr \<Rightarrow> workflow_state \<Rightarrow> model \<Rightarrow> model" where
  "settle_event w after m =
     (if after = WRunning then emit_event Workflow_started w [] [] [] m
      else if after = WSucceeded then emit_event Workflow_succeeded w [] [] [] m
      else if after = WFailed then emit_event Workflow_failed w [] [] [] m else m)"

lemma settle_workflow_run:
  assumes "dget (workflows m) w = Some f"
  shows "settle_workflow w prev m = (Inr (),
    let after = next_workflow_state prev (map t_state (dvals (wf_tasks f)));
        m' = set_workflow w (settle_flow (now_ms m) after) m
    in if after \<noteq> prev then settle_event w after m' else m')"
  using assms
  by (simp add: settle_workflow_def require_workflow_def proc_simps emit_def Let_def
      settle_flow_def [abs_def] settle_event_def)

lemma settle_event_facts:
  "inv m \<Longrightarrow> inv (settle_event w after m)" "calm w m (settle_event w after m)"
  "grows m (settle_event w after m)"
  by (auto simp: settle_event_def inv_emit calm_def view_simps)

lemma recompute_inv:
  assumes c: "core m" "flows_ok_but {w} m" and f: "dget (workflows m) w = Some f"
    and fin: "if workflow_terminal (wf_state f) then flow_ok m w f else wf_finished_ms f = None"
  shows "\<exists>s. recompute w m = (Inr (), s) \<and> inv s \<and> grows m s \<and> calm w m s"
proof (cases "workflow_terminal (wf_state f)")
  case True
  with f fin have "recompute w m = (Inr (), m)"
    by (simp add: recompute_def require_workflow_def proc_simps)
  moreover have "inv m" using c f fin True by (auto intro: inv_from_but)
  ultimately show ?thesis by auto
next
  case False
  then have st: "wf_state f \<in> {WPending, WRunning}"
    by (cases "wf_state f") (auto simp: workflow_terminal_def)
  then obtain s where s: "for_each (wf_order f) (recompute_task w) m = (Inr (), s)" "draft w m s"
    "\<forall>t \<in> set (wf_order f). settled s w t"
    using draft_pass [OF c f, of "[]" "wf_order f"] by auto
  obtain f' where f': "dget (workflows s) w = Some f'" "wf_order f' = wf_order f"
    "wf_state f' = wf_state f" "wf_finished_ms f' = wf_finished_ms f"
    using draftD [OF s(2) f] by metis
  let ?after = "next_workflow_state (wf_state f) (map t_state (dvals (wf_tasks f')))"
  let ?h = "settle_flow (now_ms s) ?after"
  let ?m = "set_workflow w ?h s"
  have cs: "core s" "flows_ok_but {w} s" "grows m s" "calm w m s"
    using s(2) by (simp_all add: draft_def quiet_def)
  have ok: "flow_ok s w (?h f')"
    using flow_ok_settle [OF cs(1) f'(1)] f' s(3) st fin False by simp
  have h: "wf_id (?h g) = wf_id g" "wf_tasks (?h g) = wf_tasks g" "wf_order (?h g) = wf_order g"
    "wf_created_ms (?h g) = wf_created_ms g" for g by (simp_all add: settle_flow_def)
  have "core ?m"
    by (rule core_set_workflow [OF cs(1)]) (use h f' st in auto)
  moreover have "flows_ok_but {w} ?m" using cs(2) by (rule flows_but_set_workflow)
  moreover have "flow_ok ?m w g" if "dget (workflows ?m) w = Some g" for g
  proof -
    have "g = ?h f'" using that f'(1) by (simp add: view_simps dict_simps)
    with ok show ?thesis by (auto intro: flow_ok_states simp: view_simps h)
  qed
  ultimately have "inv ?m" by (auto intro: inv_from_but)
  moreover have "flow_grows f' (?h f')"
    using f' False by (simp add: flow_grows_def settle_flow_def)
  then have "grows s ?m" by (intro grows_set_workflow) (use h f' in auto)
  then have "grows m ?m" using cs(3) grows_trans by blast
  moreover have "calm w m ?m" using cs(4) by (simp add: calm_def view_simps dict_simps)
  moreover have "recompute w m = (Inr (), if ?after \<noteq> wf_state f then settle_event w ?after ?m else ?m)"
    using s(1) f False settle_workflow_run [OF f'(1), of "wf_state f"]
    by (simp add: recompute_def require_workflow_def proc_simps Let_def)
  ultimately show ?thesis
    using settle_event_facts [where m = ?m and w = w and after = ?after] by (auto intro: grows_trans calm_trans)
qed

lemma recompute_keeps_inv:
  assumes "inv m" "dget (workflows m) w = Some f"
  shows "\<exists>s. recompute w m = (Inr (), s) \<and> inv s \<and> grows m s \<and> calm w m s"
proof (rule recompute_inv [OF _ _ assms(2)])
  have "flow_ok m w f" using assms by (simp add: inv_def flows_ok_but_def)
  then show "if workflow_terminal (wf_state f) then flow_ok m w f else wf_finished_ms f = None"
    by (auto simp: flow_ok_def)
qed (use assms flows_but_mono [of "{}" m "{w}"] in \<open>auto simp: inv_def\<close>)

end
