(* ===== verification/Chaos_Leases.thy ===== *)
theory Chaos_Leases
  imports Chaos_Recompute
begin

text \<open>
  The operations that act on a lease: closing, expiry, the sweep, the common entry of the requests
  that carry a token, and start, renew, log, complete and cancel. For each, the run from a state
  that satisfies the invariant is given in closed form, and the invariant and the growth order are
  kept whether the request succeeds or is refused.
\<close>

section \<open>Runs\<close>

definition good :: "model \<Rightarrow> model \<Rightarrow> bool" where
  "good m s \<longleftrightarrow> inv s \<and> grows m s"

lemma good_refl [simp, intro]: "inv m \<Longrightarrow> good m m"
  by (simp add: good_def)

lemma good_trans: "good a b \<Longrightarrow> good b c \<Longrightarrow> good a c"
  by (auto simp: good_def intro: grows_trans)

lemma good_emit: "good m s \<Longrightarrow> good m (emit_event ty w t k d s)"
  by (auto simp: good_def inv_emit intro: grows_trans)

lemma good_reject: "good m s \<Longrightarrow> good m (count_rejection c s)"
  by (auto simp: good_def inv_count_rejection intro: grows_trans)

lemma reject_run [simp]: "reject c m = (Inl (Rejected c), count_rejection c m)"
  by (simp add: reject_def proc_simps)

text \<open>A run that ends in a good state and raises nothing but refusals.\<close>

definition safe :: "model \<Rightarrow> (chaos_error + 'a) \<times> model \<Rightarrow> bool" where
  "safe m r \<longleftrightarrow> keeps (good m) (\<lambda>e. \<not> fault e) r"

lemma safe_pair [simp]:
  "safe m (Inr x, s) \<longleftrightarrow> good m s" "safe m (Inl e, s) \<longleftrightarrow> good m s \<and> \<not> fault e"
  by (simp_all add: safe_def keeps_pair)

lemma safe_chain:
  "safe m (c s) \<Longrightarrow> (\<And>x s'. c s = (Inr x, s') \<Longrightarrow> good m s' \<Longrightarrow> safe m (f x s')) \<Longrightarrow>
     safe m (chain c f s)"
  unfolding safe_def by (rule keeps_chain)

lemma safe_trans: "safe s r \<Longrightarrow> grows m s \<Longrightarrow> safe m r"
  unfolding safe_def by (erule keeps_weaken) (auto simp: good_def intro: grows_trans)

section \<open>Closing and expiring\<close>

lemma resolve_run:
  assumes "dget (workflows m) (ls_workflow_id l) = Some f" "dget (wf_tasks f) (ls_task_id l) = Some x"
    "dget (workers m) (ls_worker_id l) = Some k"
  shows "resolve_lease l m = (Inr (f, x, k), m)"
  using assms by (simp add: resolve_lease_def require_workflow_def require_worker_def proc_simps)

lemma close_lease_run:
  assumes "\<not> ls_closed l" "dget (workflows m) (ls_workflow_id l) = Some f"
    "dget (wf_tasks f) (ls_task_id l) = Some x" "dget (workers m) (ls_worker_id l) = Some k"
    "t_lease_token x = ls_token l"
  shows "close_lease l m = (Inr (), release l clear_lease_fields m)"
  using assms resolve_run [OF assms(2-4)]
  by (simp add: close_lease_def proc_simps release_def set_task_def set_workflow_def set_worker_def)

definition requeue :: "task \<Rightarrow> task" where
  "requeue x = move Ready ((clear_lease_fields x)\<lparr>t_started_ms := None, t_finished_ms := None,
     t_exit_code := None, t_error := []\<rparr>)"

definition expired :: "pystr \<Rightarrow> lease \<Rightarrow> model \<Rightarrow> model" where
  "expired tok l m = emit_event Lease_expired (ls_workflow_id l) (ls_task_id l) (ls_worker_id l)
     [(lit ''token'', tok)] (release l requeue m)"

lemma clear_sels [simp]:
  "t_state (clear_lease_fields x) = t_state x" "t_history (clear_lease_fields x) = t_history x"
  "t_id (clear_lease_fields x) = t_id x" "t_depends_on (clear_lease_fields x) = t_depends_on x"
  "t_retry (clear_lease_fields x) = t_retry x" "t_attempt (clear_lease_fields x) = t_attempt x"
  "t_lease_token (clear_lease_fields x) = []" "t_lease_owner (clear_lease_fields x) = []"
  "t_lease_until_ms (clear_lease_fields x) = None"
  "t_next_retry_ms (clear_lease_fields x) = t_next_retry_ms x"
  "t_started_ms (clear_lease_fields x) = t_started_ms x"
  "t_finished_ms (clear_lease_fields x) = t_finished_ms x"
  "t_exit_code (clear_lease_fields x) = t_exit_code x" "t_error (clear_lease_fields x) = t_error x"
  "t_output_bytes (clear_lease_fields x) = t_output_bytes x"
  "t_labels (clear_lease_fields x) = t_labels x" "t_timeout_ms (clear_lease_fields x) = t_timeout_ms x"
  by (simp_all add: clear_lease_fields_def)

lemma active_cases: "active s \<longleftrightarrow> s = Leased \<or> s = Running"
  by (auto simp: active_def)

lemma expire_run:
  assumes i: "inv m" and l: "dget (leases m) tok = Some l" and due: "ls_expires_ms l \<le> now_ms m"
  shows "expire_lease tok m = (Inr (), expired tok l m)"
proof -
  obtain f x k where lk: "dget (workflows m) (ls_workflow_id l) = Some f"
    "dget (wf_tasks f) (ls_task_id l) = Some x" "dget (workers m) (ls_worker_id l) = Some k"
    "task_lookup m (ls_workflow_id l) (ls_task_id l) = Some x"
    "active (t_state x)" "t_lease_token x = tok" "ls_token l = tok" "\<not> ls_closed l"
    using lease_task [OF inv_core [OF i] l] by metis
  have nt: "\<not> workflow_terminal (wf_state f)" using active_not_terminal [OF i lk(4,5,1)] .
  let ?r = "\<lambda>x. x\<lparr>t_started_ms := None, t_finished_ms := None, t_exit_code := None, t_error := []\<rparr>"
  let ?m = "release l (?r \<circ> clear_lease_fields) m"
  have "transition_task (ls_workflow_id l) (ls_task_id l) Ready ?m
      = (Inr (), set_task (ls_workflow_id l) (ls_task_id l) (move Ready) ?m)"
    by (rule transition_run) (use lk in \<open>auto simp: view_simps active_cases\<close>)
  also have "set_task (ls_workflow_id l) (ls_task_id l) (move Ready) ?m = release l requeue m"
    by (simp add: set_task_release requeue_def [abs_def] comp_def)
  finally have step: "transition_task (ls_workflow_id l) (ls_task_id l) Ready ?m
      = (Inr (), release l requeue m)" .
  show ?thesis
    using due nt step resolve_run [OF lk(1-3)] close_lease_run [OF lk(8,1,2,3)] lk
    by (simp add: expire_lease_def proc_simps l emit_def expired_def set_task_release active_cases
        insert_commute)
qed

lemma good_expired:
  assumes i: "inv m" and l: "dget (leases m) tok = Some l"
  shows "good m (expired tok l m)"
proof -
  let ?e = "emit_event Lease_expired (ls_workflow_id l) (ls_task_id l) (ls_worker_id l)
     [(lit ''token'', tok)] m"
  obtain x where x: "task_lookup m (ls_workflow_id l) (ls_task_id l) = Some x" "active (t_state x)"
    using lease_task [OF inv_core [OF i] l] by metis
  note parts = coreD [OF inv_core [OF i]]
  have ok: "task_ok (now_ms m) (output_limit_bytes m) x" using parts(3) x by (simp add: tasks_ok_def)
  have bud: "budget_ok m (ls_workflow_id l) (ls_task_id l) x" using parts(11) x by (simp add: budgets_ok_def)
  have ie: "inv ?e" using i by (rule inv_emit)
  have eq: "expired tok l m = release l requeue ?e" by (simp add: expired_def emit_release)
  have "core (release l requeue ?e)"
  proof (rule core_release [OF inv_core [OF ie]])
    show "dget (leases ?e) tok = Some l" "task_lookup ?e (ls_workflow_id l) (ls_task_id l) = Some x"
      using l x by (simp_all add: view_simps)
    show "task_ok (now_ms ?e) (output_limit_bytes ?e) (requeue x)"
      using ok x(2) by (auto simp: task_ok_def times_ok_def requeue_def view_simps active_cases
          intro: history_ok_append)
    show "budget_ok ?e (ls_workflow_id l) (ls_task_id l) (requeue x)"
      using bud x(2) by (auto simp: budget_ok_def expiries_emit requeue_def active_cases)
  qed (simp_all add: static_same_def requeue_def active_cases)
  then have "inv (release l requeue ?e)"
    by (rule inv_release_busy [OF ie, rotated -1])
      (use x in \<open>auto simp: view_simps requeue_def busy_def\<close>)
  moreover have "grows m (release l requeue ?e)"
    by (rule grows_trans [OF _ grows_release])
      (use x in \<open>auto simp: view_simps task_grows_def requeue_def state_defs\<close>)
  ultimately show ?thesis by (simp add: good_def eq)
qed

section \<open>The sweep\<close>

text \<open>Leases only disappear during the sweep, so each expiry finds its lease due or gone.\<close>

lemma expire_all:
  assumes "inv m" "\<forall>l \<in> set ls. ls_expires_ms l \<le> now_ms m
      \<and> (\<forall>l'. dget (leases m) (ls_token l) = Some l' \<longrightarrow> l' = l)"
  shows "\<exists>s. for_each ls (\<lambda>l. expire_lease (ls_token l)) m = (Inr (), s) \<and> good m s
    \<and> now_ms s = now_ms m \<and> dkeys (workflows s) = dkeys (workflows m)
    \<and> id_counter s = id_counter m
    \<and> (\<forall>tok. dget (leases s) tok = (if tok \<in> ls_token ` set ls then None else dget (leases m) tok))
    \<and> (\<forall>tok. dget (leases m) tok = None \<longrightarrow> dget (closed_leases s) tok = dget (closed_leases m) tok)"
  using assms
proof (induction ls arbitrary: m)
  case Nil
  then show ?case by (auto simp: proc_simps)
next
  case (Cons l ls)
  define m1 where "m1 = (case dget (leases m) (ls_token l) of None \<Rightarrow> m | Some l' \<Rightarrow> expired (ls_token l) l' m)"
  have due: "ls_expires_ms l \<le> now_ms m" using Cons.prems(2) by simp
  have run: "expire_lease (ls_token l) m = (Inr (), m1)"
  proof (cases "dget (leases m) (ls_token l)")
    case None
    then show ?thesis by (simp add: m1_def expire_lease_def proc_simps)
  next
    case (Some l')
    with Cons.prems(2) have "l' = l" by simp
    with Some expire_run [OF Cons.prems(1) Some] due show ?thesis by (simp add: m1_def)
  qed
  have good: "good m m1" using Cons.prems(1) good_expired
    by (auto simp: m1_def split: option.splits)
  have same: "now_ms m1 = now_ms m" "dkeys (workflows m1) = dkeys (workflows m)"
    "id_counter m1 = id_counter m"
    by (auto simp: m1_def expired_def view_simps dict_simps split: option.splits)
  have gone: "dget (leases m1) tok = (if tok = ls_token l then None else dget (leases m) tok)" for tok
  proof (cases "dget (leases m) (ls_token l)")
    case (Some l')
    with Cons.prems(2) have "l' = l" by simp
    with Some show ?thesis by (simp add: m1_def expired_def view_simps dict_simps)
  qed (auto simp: m1_def)
  have shut: "dget (closed_leases m1) tok = dget (closed_leases m) tok" if "dget (leases m) tok = None" for tok
  proof (cases "dget (leases m) (ls_token l)")
    case (Some l')
    with Cons.prems(2) have "l' = l" by simp
    with Some that show ?thesis by (auto simp: m1_def expired_def view_simps dict_simps)
  qed (auto simp: m1_def)
  have "\<forall>l \<in> set ls. ls_expires_ms l \<le> now_ms m1
      \<and> (\<forall>l'. dget (leases m1) (ls_token l) = Some l' \<longrightarrow> l' = l)"
    using Cons.prems(2) same gone by simp
  with good obtain s where s: "for_each ls (\<lambda>l. expire_lease (ls_token l)) m1 = (Inr (), s)"
    "good m1 s" "now_ms s = now_ms m1" "dkeys (workflows s) = dkeys (workflows m1)"
    "id_counter s = id_counter m1"
    "\<forall>tok. dget (leases s) tok = (if tok \<in> ls_token ` set ls then None else dget (leases m1) tok)"
    "\<forall>tok. dget (leases m1) tok = None \<longrightarrow> dget (closed_leases s) tok = dget (closed_leases m1) tok"
    using Cons.IH [of m1] unfolding good_def by blast
  show ?case using s run good same gone shut by (auto simp: proc_simps intro: good_trans)
qed

lemma recompute_all:
  assumes "inv m" "set ws \<subseteq> set (dkeys (workflows m))"
  shows "\<exists>s. for_each ws recompute m = (Inr (), s) \<and> good m s \<and> leases s = leases m
    \<and> workers s = workers m \<and> now_ms s = now_ms m \<and> dkeys (workflows s) = dkeys (workflows m)
    \<and> closed_leases s = closed_leases m \<and> id_counter s = id_counter m"
  using assms
proof (induction ws arbitrary: m)
  case Nil
  then show ?case by (auto simp: proc_simps)
next
  case (Cons w ws)
  obtain f where f: "dget (workflows m) w = Some f" using Cons.prems(2) by (auto simp: dget_dkeys)
  obtain m1 where m1: "recompute w m = (Inr (), m1)" "inv m1" "grows m m1" "calm w m m1"
    using recompute_keeps_inv [OF Cons.prems(1) f] by blast
  obtain s where s: "for_each ws recompute m1 = (Inr (), s)" "good m1 s" "leases s = leases m1"
    "workers s = workers m1" "now_ms s = now_ms m1" "dkeys (workflows s) = dkeys (workflows m1)"
    "closed_leases s = closed_leases m1" "id_counter s = id_counter m1"
    using Cons.IH [of m1] Cons.prems(2) m1 by (auto simp: calm_def)
  with m1 show ?case by (auto simp: proc_simps calm_def good_def intro: grows_trans)
qed

text \<open>The sweep never raises, and no due lease survives it.\<close>

lemma sweep_run:
  assumes i: "inv m"
  shows "\<exists>s. sweep m = (Inr (), s) \<and> good m s \<and> now_ms s = now_ms m
    \<and> dkeys (workflows s) = dkeys (workflows m)
    \<and> (\<forall>tok. dget (leases s) tok =
         (case dget (leases m) tok of None \<Rightarrow> None
          | Some l \<Rightarrow> if ls_expires_ms l \<le> now_ms m then None else Some l))
    \<and> id_counter s = id_counter m
    \<and> (\<forall>tok. dget (leases m) tok = None \<longrightarrow> dget (closed_leases s) tok = dget (closed_leases m) tok)"
proof -
  have wfl: "dwf (leases m)" using coreD(1) [OF inv_core [OF i]] by (simp add: dicts_ok_def)
  have key: "ls_token l = tok" if "dget (leases m) tok = Some l" for tok l
    using lease_task [OF inv_core [OF i] that] by metis
  let ?ls = "sort_key (\<lambda>l. (ls_expires_ms l, ls_token l))
    (filter (\<lambda>l. ls_expires_ms l \<le> now_ms m) (dvals (leases m)))"
  have due: "\<forall>l \<in> set ?ls. ls_expires_ms l \<le> now_ms m
      \<and> (\<forall>l'. dget (leases m) (ls_token l) = Some l' \<longrightarrow> l' = l)"
    using key by (fastforce simp: dvals_iff [OF wfl])
  obtain s1 where s1: "for_each ?ls (\<lambda>l. expire_lease (ls_token l)) m = (Inr (), s1)" "good m s1"
    "now_ms s1 = now_ms m" "dkeys (workflows s1) = dkeys (workflows m)" "id_counter s1 = id_counter m"
    "\<forall>tok. dget (leases m) tok = None \<longrightarrow> dget (closed_leases s1) tok = dget (closed_leases m) tok"
    "\<forall>tok. dget (leases s1) tok = (if tok \<in> ls_token ` set ?ls then None else dget (leases m) tok)"
    using expire_all [OF i due] by blast
  obtain s where s: "for_each (sort (dkeys (workflows s1))) recompute s1 = (Inr (), s)" "good s1 s"
    "leases s = leases s1" "now_ms s = now_ms s1" "dkeys (workflows s) = dkeys (workflows s1)"
    "closed_leases s = closed_leases s1" "id_counter s = id_counter s1"
    using recompute_all [of s1 "sort (dkeys (workflows s1))"] s1(2) by (auto simp: good_def)
  have "dget (leases s) tok = (case dget (leases m) tok of None \<Rightarrow> None
      | Some l \<Rightarrow> if ls_expires_ms l \<le> now_ms m then None else Some l)" for tok
  proof (cases "dget (leases m) tok")
    case (Some l)
    have "tok \<in> ls_token ` set ?ls \<longleftrightarrow> ls_expires_ms l \<le> now_ms m"
    proof
      assume "tok \<in> ls_token ` set ?ls"
      then obtain l' where "l' \<in> set ?ls" "ls_token l' = tok" by auto
      with due Some show "ls_expires_ms l \<le> now_ms m" by auto
    next
      assume "ls_expires_ms l \<le> now_ms m"
      with Some have "l \<in> set ?ls" by (auto simp: dvals_iff [OF wfl])
      with key [OF Some] show "tok \<in> ls_token ` set ?ls" by auto
    qed
    with Some s s1 show ?thesis by simp
  qed (use s s1 in simp)
  moreover have "sweep m = (Inr (), s)" using s1(1) s(1) by (simp add: sweep_def proc_simps)
  ultimately show ?thesis using s s1 by (auto intro: good_trans)
qed

section \<open>Requests that carry a token\<close>

text \<open>
  \<open>start\<close>, \<open>renew\<close>, \<open>append_log\<close> and \<open>complete\<close> begin alike: the lease must be active and not due
  (a due one is expired on the spot and the request refused), then its objects are resolved.
\<close>

definition enter :: "pystr \<Rightarrow> (lease \<Rightarrow> workflow \<times> task \<times> worker \<Rightarrow> 'a op) \<Rightarrow> 'a op" where
  "enter tok body = chain (require_active_lease tok) (\<lambda>l.
     andThen (ensure_live_lease l) (chain (resolve_lease l) (body l)))"

definition live :: "model \<Rightarrow> pystr \<Rightarrow> lease \<Rightarrow> workflow \<Rightarrow> task \<Rightarrow> worker \<Rightarrow> bool" where
  "live m tok l f x k \<longleftrightarrow>
     dget (leases m) tok = Some l \<and> now_ms m < ls_expires_ms l \<and> ls_token l = tok \<and> \<not> ls_closed l
     \<and> dget (workflows m) (ls_workflow_id l) = Some f \<and> dget (wf_tasks f) (ls_task_id l) = Some x
     \<and> task_lookup m (ls_workflow_id l) (ls_task_id l) = Some x
     \<and> dget (workers m) (ls_worker_id l) = Some k
     \<and> active (t_state x) \<and> t_lease_token x = tok \<and> \<not> workflow_terminal (wf_state f)
     \<and> task_ok (now_ms m) (output_limit_bytes m) x"

lemma live_lease:
  assumes i: "inv m" and l: "dget (leases m) tok = Some l" "now_ms m < ls_expires_ms l"
  obtains f x k where "live m tok l f x k"
proof -
  obtain f x k where lk: "dget (workflows m) (ls_workflow_id l) = Some f"
    "dget (wf_tasks f) (ls_task_id l) = Some x" "dget (workers m) (ls_worker_id l) = Some k"
    "task_lookup m (ls_workflow_id l) (ls_task_id l) = Some x"
    "active (t_state x)" "t_lease_token x = tok" "ls_token l = tok" "\<not> ls_closed l"
    using lease_task [OF inv_core [OF i] l(1)] by metis
  moreover have "\<not> workflow_terminal (wf_state f)" using active_not_terminal [OF i lk(4,5,1)] .
  moreover have "task_ok (now_ms m) (output_limit_bytes m) x"
    using coreD(3) [OF inv_core [OF i]] lk(4) by (simp add: tasks_ok_def)
  ultimately show ?thesis using that l by (simp add: live_def)
qed

lemma enter_live:
  assumes "live m tok l f x k"
  shows "enter tok body m = body l (f, x, k) m"
  using assms resolve_run [of m l f x k]
  by (simp add: live_def enter_def require_active_lease_def ensure_live_lease_def proc_simps)

lemma enter_due:
  assumes "inv m" "dget (leases m) tok = Some l" "ls_expires_ms l \<le> now_ms m"
  shows "enter tok body m
    = (Inl (Rejected Lease_is_expired), count_rejection Lease_is_expired (expired tok l m))"
proof -
  have "ls_token l = tok" using lease_task [OF inv_core [OF assms(1)] assms(2)] by metis
  with expire_run [OF assms] assms show ?thesis
    by (simp add: enter_def require_active_lease_def ensure_live_lease_def proc_simps)
qed

lemma enter_gone:
  assumes "dget (leases m) tok = None"
  shows "enter tok body m = (let c = if dget (closed_leases m) tok \<noteq> None then Stale_lease
      else Unknown_lease in (Inl (Rejected c), count_rejection c m))"
  using assms by (auto simp: enter_def require_active_lease_def proc_simps)

lemma safe_enter:
  assumes i: "inv m"
    and body: "\<And>l f x k. live m tok l f x k \<Longrightarrow> safe m (body l (f, x, k) m)"
  shows "safe m (enter tok body m)"
proof (cases "dget (leases m) tok")
  case None
  with i enter_gone [OF None, of body] show ?thesis by (auto simp: Let_def good_reject)
next
  case (Some l)
  show ?thesis
  proof (cases "ls_expires_ms l \<le> now_ms m")
    case True
    with enter_due [OF i Some True, of body] good_expired [OF i Some] show ?thesis by (simp add: good_reject)
  next
    case False
    then obtain f x k where "live m tok l f x k" using live_lease [OF i Some] by auto
    with body show ?thesis by (simp add: enter_live)
  qed
qed

lemma safe_by_entry:
  assumes "\<exists>body. c = enter tok body" "inv m" "\<And>l f x k. live m tok l f x k \<Longrightarrow> safe m (c m)"
  shows "safe m (c m)"
  using assms safe_enter enter_live by metis

section \<open>Starting\<close>

definition begin_run :: "int \<Rightarrow> task \<Rightarrow> task" where
  "begin_run now x = (move Running x)\<lparr>t_started_ms := Some now\<rparr>"

definition started :: "pystr \<Rightarrow> lease \<Rightarrow> model \<Rightarrow> model" where
  "started tok l m = set_lease tok (\<lambda>l. l\<lparr>ls_started := True\<rparr>)
     (set_task (ls_workflow_id l) (ls_task_id l) (begin_run (now_ms m)) m)"

lemma begin_run_sels [simp]:
  "t_state (begin_run now x) = Running" "t_history (begin_run now x) = t_history x @ [Running]"
  "t_lease_token (begin_run now x) = t_lease_token x" "t_attempt (begin_run now x) = t_attempt x"
  "t_retry (begin_run now x) = t_retry x" "t_depends_on (begin_run now x) = t_depends_on x"
  "t_id (begin_run now x) = t_id x" "t_lease_owner (begin_run now x) = t_lease_owner x"
  "t_lease_until_ms (begin_run now x) = t_lease_until_ms x"
  "t_next_retry_ms (begin_run now x) = t_next_retry_ms x"
  "t_started_ms (begin_run now x) = Some now" "t_finished_ms (begin_run now x) = t_finished_ms x"
  "t_output_bytes (begin_run now x) = t_output_bytes x"
  by (simp_all add: begin_run_def)

lemma begin_transition:
  assumes "live m tok l f x k" "t_state x = Leased"
  shows "set_task (ls_workflow_id l) (ls_task_id l) (\<lambda>x. x\<lparr>t_started_ms := Some (now_ms m)\<rparr>)
      (set_task (ls_workflow_id l) (ls_task_id l) (move Running) m)
    = set_task (ls_workflow_id l) (ls_task_id l) (begin_run (now_ms m)) m"
    "transition_task (ls_workflow_id l) (ls_task_id l) Running m
    = (Inr (), set_task (ls_workflow_id l) (ls_task_id l) (move Running) m)"
proof -
  show "set_task (ls_workflow_id l) (ls_task_id l) (\<lambda>x. x\<lparr>t_started_ms := Some (now_ms m)\<rparr>)
      (set_task (ls_workflow_id l) (ls_task_id l) (move Running) m)
    = set_task (ls_workflow_id l) (ls_task_id l) (begin_run (now_ms m)) m"
    by (simp add: set_task_set_task begin_run_def [abs_def] comp_def)
  show "transition_task (ls_workflow_id l) (ls_task_id l) Running m
    = (Inr (), set_task (ls_workflow_id l) (ls_task_id l) (move Running) m)"
    by (rule transition_run) (use assms in \<open>auto simp: live_def\<close>)
qed

lemma good_started:
  assumes i: "inv m" and l: "live m tok l f x k" and x: "t_state x = Leased"
  shows "good m (started tok l m)"
proof -
  let ?w = "ls_workflow_id l" and ?t = "ls_task_id l"
  let ?m = "set_task ?w ?t (begin_run (now_ms m)) m"
  have look: "task_lookup m ?w ?t = Some x" and ok: "task_ok (now_ms m) (output_limit_bytes m) x"
    and f: "dget (workflows m) ?w = Some f" "\<not> workflow_terminal (wf_state f)"
    using l by (simp_all add: live_def)
  note parts = coreD [OF inv_core [OF i]]
  have "core ?m"
  proof (rule core_set_task [OF inv_core [OF i] look])
    show "task_ok (now_ms m) (output_limit_bytes m) (begin_run (now_ms m) x)"
      using ok x by (auto simp: task_ok_def times_ok_def active_cases intro: history_ok_append)
    show "\<forall>d \<in> set (t_depends_on x). \<exists>y. task_lookup m ?w d = Some y \<and> t_state y = Succeeded"
      using parts(4) look x unfolding deps_ok_def unlocked_def by blast
    show "budget_ok m ?w ?t (begin_run (now_ms m) x)"
      using parts(11) look x by (fastforce simp: budgets_ok_def budget_ok_def)
  qed (use x in \<open>simp_all add: static_same_def active_cases task_terminal_def\<close>)
  then have "inv ?m"
    by (rule inv_set_task_busy [OF i look, rotated -1]) (use f in \<open>auto simp: busy_def\<close>)
  moreover have "grows m ?m"
    by (rule grows_set_task) (use look x in \<open>auto simp: task_grows_def task_terminal_def\<close>)
  ultimately show ?thesis
    by (auto simp: good_def started_def inv_set_lease_started intro: grows_trans)
qed

lemma start_run:
  assumes i: "inv m" and l: "live m tok l f x k"
  shows "start tok m =
    (if t_state x = Leased
     then (Inr (l\<lparr>ls_started := True\<rparr>), emit_event Task_started (ls_workflow_id l) (ls_task_id l)
       (ls_worker_id l) [] (started tok l m))
     else (Inr l, m))"
proof -
  have st: "t_state x = Leased \<or> t_state x = Running" and tok: "t_lease_token x = tok"
    using l by (auto simp: live_def active_cases)
  have "start tok m = (let w = ls_workflow_id l; t = ls_task_id l in
     if t_state x = Leased then
       andThen (transition_task w t Running) (
       andThen (modify (\<lambda>m. set_task w t (\<lambda>x. x\<lparr>t_started_ms := Some (now_ms m)\<rparr>) m)) (
       andThen (modify (set_lease tok (\<lambda>l. l\<lparr>ls_started := True\<rparr>))) (
       andThen (emit Task_started w t (ls_worker_id l) []) (
       ret (l\<lparr>ls_started := True\<rparr>))))) m
     else ret l m)"
    unfolding start_def enter_def [symmetric] enter_live [OF l]
    using st tok by (auto simp: Let_def)
  then show ?thesis
    using begin_transition [OF l] by (simp add: proc_simps emit_def started_def view_simps Let_def)
qed

lemma start_enter: "\<exists>body. start tok = enter tok body"
  unfolding start_def enter_def by (rule exI, rule refl)

end
