(* ===== verification/Chaos_Requests.thy ===== *)
theory Chaos_Requests
  imports Chaos_Leases
begin

text \<open>
  Renewal, logs, completion and cancellation: closed forms of their runs from a state that
  satisfies the invariant, and the invariant and the growth order afterwards.
\<close>

section \<open>Renewal\<close>

lemma renew_run:
  assumes l: "live m tok l f x k"
  shows "renew tok m = (let until = now_ms m + lease_duration_ms m in
    (Inr (l\<lparr>ls_expires_ms := until\<rparr>), extend tok l until m))"
  unfolding renew_def enter_def [symmetric] enter_live [OF l]
  using l by (simp add: live_def proc_simps extend_def Let_def)

lemma renew_enter: "\<exists>body. renew tok = enter tok body"
  unfolding renew_def enter_def by (rule exI, rule refl)

lemma safe_renew:
  assumes i: "inv m"
  shows "safe m (renew tok m)"
proof (rule safe_by_entry [OF renew_enter i])
  fix l f x k assume l: "live m tok l f x k"
  have "0 < lease_duration_ms m" using coreD(1) [OF inv_core [OF i]] by (simp add: dicts_ok_def)
  with l show "safe m (renew tok m)"
    by (auto simp: renew_run [OF l] Let_def good_def live_def intro: inv_extend [OF i] grows_extend)
qed

lemma safe_start:
  assumes i: "inv m"
  shows "safe m (start tok m)"
proof (rule safe_by_entry [OF start_enter i])
  fix l f x k assume l: "live m tok l f x k"
  show "safe m (start tok m)"
    using good_started [OF i l] i by (simp add: start_run [OF i l] good_emit)
qed

section \<open>Logs\<close>

definition log_result :: "pystr \<Rightarrow> pystr \<Rightarrow> lease \<Rightarrow> task \<Rightarrow> model \<Rightarrow> (chaos_error + unit) \<times> model" where
  "log_result txt stream l x m =
     (if stream \<notin> {lit ''stdout'', lit ''stderr''} then reject Invalid_stream m
      else case utf8_len txt of
        None \<Rightarrow> (Inl BadEncoding, m)
      | Some n \<Rightarrow>
          if log_chunk_limit_bytes m < n then reject Log_chunk_too_large m
          else if output_limit_bytes m < t_output_bytes x + n then reject Task_output_limit m
          else (Inr (), emit_event Task_log (ls_workflow_id l) (ls_task_id l) (ls_worker_id l)
             [(lit ''stream'', stream), (lit ''text'', txt)]
             (set_task (ls_workflow_id l) (ls_task_id l)
                (\<lambda>x. x\<lparr>t_output_bytes := t_output_bytes x + n\<rparr>) m)))"

lemma append_log_run:
  assumes l: "live m tok l f x k"
  shows "append_log tok txt stream m = log_result txt stream l x m"
  unfolding append_log_def enter_def [symmetric] enter_live [OF l] log_result_def
  by (auto simp: proc_simps Let_def emit_def split: option.splits)

lemma append_log_enter: "\<exists>body. append_log tok txt stream = enter tok body"
  unfolding append_log_def enter_def by (rule exI, rule refl)

lemma good_logged:
  assumes i: "inv m" and l: "live m tok l f x k"
    and n: "0 \<le> n" "t_output_bytes x + n \<le> output_limit_bytes m"
  shows "good m (set_task (ls_workflow_id l) (ls_task_id l)
    (\<lambda>x. x\<lparr>t_output_bytes := t_output_bytes x + n\<rparr>) m)"
proof -
  let ?w = "ls_workflow_id l" and ?t = "ls_task_id l"
  let ?g = "\<lambda>x. x\<lparr>t_output_bytes := t_output_bytes x + n\<rparr>"
  have look: "task_lookup m ?w ?t = Some x" and ok: "task_ok (now_ms m) (output_limit_bytes m) x"
    and f: "dget (workflows m) ?w = Some f" "\<not> workflow_terminal (wf_state f)"
    and act: "active (t_state x)"
    using l by (simp_all add: live_def)
  note parts = coreD [OF inv_core [OF i]]
  have "core (set_task ?w ?t ?g m)"
  proof (rule core_set_task [OF inv_core [OF i] look])
    show "task_ok (now_ms m) (output_limit_bytes m) (?g x)"
      using ok n by (auto simp: task_ok_def times_ok_def)
    show "\<forall>d \<in> set (t_depends_on x). \<exists>y. task_lookup m ?w d = Some y \<and> t_state y = Succeeded"
      using parts(4) look act unfolding deps_ok_def state_defs by blast
    show "budget_ok m ?w ?t (?g x)" using parts(11) look by (simp add: budgets_ok_def budget_ok_def)
  qed (use act in \<open>auto simp: static_same_def active_cases\<close>)
  then have "inv (set_task ?w ?t ?g m)"
    by (rule inv_set_task_busy [OF i look, rotated -1])
      (use f act in \<open>auto simp: busy_def active_cases\<close>)
  moreover have "grows m (set_task ?w ?t ?g m)"
    by (rule grows_set_task) (use n in \<open>auto simp: task_grows_def\<close>)
  ultimately show ?thesis by (simp add: good_def)
qed

lemma safe_append_log:
  assumes i: "inv m"
  shows "safe m (append_log tok txt stream m)"
proof (rule safe_by_entry [OF append_log_enter i])
  fix l f x k assume l: "live m tok l f x k"
  show "safe m (append_log tok txt stream m)"
    using i good_logged [OF i l] utf8_len_nonneg
    by (auto simp: append_log_run [OF l] log_result_def good_reject good_emit split: option.splits)
qed

section \<open>Completion\<close>

definition finish :: "int \<Rightarrow> int \<Rightarrow> pystr \<Rightarrow> task \<Rightarrow> task" where
  "finish now code err x =
     x\<lparr>t_finished_ms := Some now, t_exit_code := Some code, t_error := err\<rparr>"

definition verdict :: "int \<Rightarrow> int \<Rightarrow> pystr \<Rightarrow> task \<Rightarrow> task \<Rightarrow> task" where
  "verdict now code err x =
     (if code = 0 \<and> err = [] then move Succeeded
      else if t_attempt x < max_attempts (normalized (t_retry x))
        then (\<lambda>y. (move RetryWait y)\<lparr>t_next_retry_ms :=
                Some (now + delay_for_attempt (normalized (t_retry x)) (t_attempt x))\<rparr>)
      else move Failed)"

definition verdict_event :: "int \<Rightarrow> pystr \<Rightarrow> lease \<Rightarrow> task \<Rightarrow> model \<Rightarrow> model" where
  "verdict_event code err l x m =
     (let w = ls_workflow_id l; t = ls_task_id l; k = ls_worker_id l in
      if code = 0 \<and> err = [] then emit_event Task_succeeded w t k [] m
      else if t_attempt x < max_attempts (normalized (t_retry x))
        then emit_event Task_retry w t k [(lit ''next_retry_ms'', show_int
          (now_ms m + delay_for_attempt (normalized (t_retry x)) (t_attempt x)))] m
      else emit_event Task_failed w t k
        [(lit ''exit_code'', show_int code), (lit ''error'', err)] m)"

definition finished :: "int \<Rightarrow> pystr \<Rightarrow> lease \<Rightarrow> task \<Rightarrow> model \<Rightarrow> model" where
  "finished code err l x m = verdict_event code err l x
     (release l (verdict (now_ms m) code err x \<circ> clear_lease_fields \<circ> finish (now_ms m) code err) m)"

lemma report_outcome_run:
  assumes "task_lookup m (ls_workflow_id l) (ls_task_id l) = Some y" "t_state y = Running"
  shows "report_outcome l x code err m = (Inr (), verdict_event code err l x
    (set_task (ls_workflow_id l) (ls_task_id l) (verdict (now_ms m) code err x) m))"
proof -
  have "transition_task (ls_workflow_id l) (ls_task_id l) s m
      = (Inr (), set_task (ls_workflow_id l) (ls_task_id l) (move s) m)"
    if "s \<in> {Succeeded, RetryWait, Failed}" for s
    using transition_run [OF assms(1), of s] assms(2) that by auto
  then show ?thesis
    by (simp add: report_outcome_def verdict_event_def verdict_def proc_simps emit_def Let_def
        view_simps set_task_set_task comp_def)
qed

lemma finish_run:
  assumes l: "\<not> ls_closed l" "dget (workflows m) (ls_workflow_id l) = Some f"
    "dget (wf_tasks f) (ls_task_id l) = Some x" "dget (workers m) (ls_worker_id l) = Some k"
    "t_lease_token x = ls_token l" "t_state x = Running"
  defines "w \<equiv> ls_workflow_id l" and "t \<equiv> ls_task_id l"
  shows "andThen (close_lease l) (andThen (report_outcome l x code err) c)
      (set_task w t (\<lambda>x. x\<lparr>t_finished_ms := Some (now_ms m), t_exit_code := Some code,
         t_error := err\<rparr>) m)
    = c (finished code err l x m)"
proof -
  let ?m = "set_task w t (finish (now_ms m) code err) m"
  let ?f = "f\<lparr>wf_tasks := dmod t (finish (now_ms m) code err) (wf_tasks f)\<rparr>"
  have "close_lease l ?m = (Inr (), release l clear_lease_fields ?m)"
    by (rule close_lease_run [of _ _ ?f "finish (now_ms m) code err x" k])
      (use l in \<open>simp_all add: view_simps dict_simps w_def t_def finish_def\<close>)
  moreover have "release l clear_lease_fields ?m
      = release l (clear_lease_fields \<circ> finish (now_ms m) code err) m"
    by (simp add: release_set_task w_def t_def)
  moreover have "report_outcome l x code err
      (release l (clear_lease_fields \<circ> finish (now_ms m) code err) m)
      = (Inr (), finished code err l x m)"
  proof -
    let ?r = "release l (clear_lease_fields \<circ> finish (now_ms m) code err) m"
    have "task_lookup ?r (ls_workflow_id l) (ls_task_id l)
        = Some (clear_lease_fields (finish (now_ms m) code err x))"
      using l by (simp add: view_simps task_lookup_flow)
    from report_outcome_run [OF this, of x code err] l(6) show ?thesis
      by (simp add: finished_def view_simps set_task_release finish_def comp_assoc)
  qed
  ultimately show ?thesis by (simp add: proc_simps finish_def [abs_def])
qed

lemma verdict_cases:
  obtains (won) "verdict now code err x = move Succeeded" "code = 0 \<and> err = []"
  | (again) "verdict now code err x = (\<lambda>y. (move RetryWait y)\<lparr>t_next_retry_ms :=
        Some (now + delay_for_attempt (normalized (t_retry x)) (t_attempt x))\<rparr>)"
      "\<not> (code = 0 \<and> err = [])" "t_attempt x < max_attempts (normalized (t_retry x))"
  | (lost) "verdict now code err x = move Failed" "\<not> (code = 0 \<and> err = [])"
      "\<not> t_attempt x < max_attempts (normalized (t_retry x))"
  unfolding verdict_def by (cases "code = 0 \<and> err = []";
      cases "t_attempt x < max_attempts (normalized (t_retry x))") auto

lemma verdict_event_facts:
  "core m \<Longrightarrow> core (verdict_event code err l x m)"
  "flows_ok_but {w} m \<Longrightarrow> flows_ok_but {w} (verdict_event code err l x m)"
  "grows m (verdict_event code err l x m)"
  "workflows (verdict_event code err l x m) = workflows m"
  by (auto simp: verdict_event_def Let_def core_emit view_simps intro: flows_frame)

text \<open>The state after a completion, before its workflow is recomputed.\<close>

lemma finished_draft:
  fixes code :: int and err :: pystr
  assumes i: "inv m" and l: "live m tok l f x k" and run: "t_state x = Running"
  defines "s \<equiv> finished code err l x m"
  shows "core s" "flows_ok_but {ls_workflow_id l} s" "grows m s"
    "dget (workflows s) (ls_workflow_id l) = Some (f\<lparr>wf_tasks := dmod (ls_task_id l)
       (verdict (now_ms m) code err x \<circ> clear_lease_fields \<circ> finish (now_ms m) code err) (wf_tasks f)\<rparr>)"
proof -
  let ?g = "verdict (now_ms m) code err x \<circ> clear_lease_fields \<circ> finish (now_ms m) code err"
  let ?w = "ls_workflow_id l" and ?t = "ls_task_id l"
  let ?m = "release l ?g m"
  have lk: "dget (leases m) tok = Some l" "task_lookup m ?w ?t = Some x"
    "dget (workflows m) ?w = Some f" "task_ok (now_ms m) (output_limit_bytes m) x"
    using l by (simp_all add: live_def)
  note parts = coreD [OF inv_core [OF i]]
  have bud: "budget_ok m ?w ?t x" using parts(11) lk(2) by (simp add: budgets_ok_def)
  have retry: "normalized (t_retry x) = t_retry x"
    using parts(2) lk(3) l flow_shape_task(4) by (fastforce simp: shapes_ok_def live_def)
  have gs: "static_same ?g"
    by (rule verdict_cases [of "now_ms m" code err x])
      (simp_all add: static_same_def finish_def)
  have ok: "task_ok (now_ms m) (output_limit_bytes m) (?g x)"
    using lk(4) run by (cases rule: verdict_cases [of "now_ms m" code err x])
      (auto simp: task_ok_def times_ok_def finish_def active_cases intro: history_ok_append)
  have idle: "\<not> active (t_state (?g x)) \<and> t_state (?g x) \<noteq> Cancelled"
    by (rule verdict_cases [of "now_ms m" code err x]) (auto simp: active_cases)
  have b: "budget_ok m ?w ?t (?g x)"
    using bud run retry by (cases rule: verdict_cases [of "now_ms m" code err x])
      (auto simp: budget_ok_def finish_def)
  have tg: "task_grows x (?g x)"
    using run by (cases rule: verdict_cases [of "now_ms m" code err x])
      (auto simp: task_grows_def finish_def task_terminal_def)
  have c: "core ?m"
    by (rule core_release [OF inv_core [OF i] lk(1,2) gs ok _ _ b]) (use idle in auto)
  have "flows_ok_but {?w} m" using i flows_but_mono by (auto simp: inv_def)
  then have fl: "flows_ok_but {?w} ?m" by (rule flows_but_release)
  have gr: "grows m ?m" by (rule grows_release) (use tg lk(2) in auto)
  show "core s" "flows_ok_but {?w} s"
    using c fl by (simp_all add: s_def finished_def verdict_event_facts)
  show "grows m s" unfolding s_def finished_def using gr verdict_event_facts(3) by (rule grows_trans)
  show "dget (workflows s) ?w = Some (f\<lparr>wf_tasks := dmod ?t ?g (wf_tasks f)\<rparr>)"
    using lk(3) by (simp add: s_def finished_def verdict_event_facts view_simps dict_simps)
qed

text \<open>A completion of a task that is only leased starts it first.\<close>

definition begun :: "pystr \<Rightarrow> lease \<Rightarrow> task \<Rightarrow> model \<Rightarrow> lease \<times> task \<times> model" where
  "begun tok l x m =
     (if t_state x = Leased
      then (l\<lparr>ls_started := True\<rparr>, begin_run (now_ms m) x, started tok l m) else (l, x, m))"

lemma begun_live:
  assumes i: "inv m" and l: "live m tok l f x k" and b: "begun tok l x m = (l1, x1, m1)"
  obtains f1 where "live m1 tok l1 f1 x1 k" "good m m1" "t_state x1 = Running"
    "ls_workflow_id l1 = ls_workflow_id l" "ls_task_id l1 = ls_task_id l"
    "ls_worker_id l1 = ls_worker_id l" "now_ms m1 = now_ms m"
    "wf_state f1 = wf_state f" "t_retry x1 = t_retry x" "t_attempt x1 = t_attempt x"
proof (cases "t_state x = Leased")
  case True
  have good: "good m m1" and m1: "m1 = started tok l m" "x1 = begin_run (now_ms m) x"
    "l1 = l\<lparr>ls_started := True\<rparr>"
    using b True good_started [OF i l True] by (auto simp: begun_def)
  let ?f = "f\<lparr>wf_tasks := dmod (ls_task_id l) (begin_run (now_ms m)) (wf_tasks f)\<rparr>"
  have look: "task_lookup m1 (ls_workflow_id l) (ls_task_id l) = Some x1"
    using l by (simp add: m1 started_def view_simps live_def)
  have lim: "now_ms m1 = now_ms m" "output_limit_bytes m1 = output_limit_bytes m"
    by (simp_all add: m1 started_def view_simps)
  have "task_ok (now_ms m1) (output_limit_bytes m1) x1"
    using good look coreD(3) [OF inv_core] by (auto simp: good_def tasks_ok_def)
  then have "live m1 tok l1 ?f x1 k"
    using l look by (simp add: live_def m1 started_def view_simps dict_simps active_cases)
  then show ?thesis using that good lim m1 by simp
next
  case False
  with b have "l1 = l" "x1 = x" "m1 = m" by (simp_all add: begun_def)
  moreover have "t_state x = Running" using l False by (auto simp: live_def active_cases)
  ultimately show ?thesis using that [of f] l i by simp
qed

lemma complete_run:
  assumes i: "inv m" and l: "live m tok l f x k" and b: "begun tok l x m = (l1, x1, m1)"
  shows "complete tok code err m = andThen (recompute (ls_workflow_id l))
    (require_workflow (ls_workflow_id l)) (finished code err l1 x1 m1)"
proof -
  let ?w = "ls_workflow_id l" and ?t = "ls_task_id l"
  obtain f1 where l1: "live m1 tok l1 f1 x1 k" "t_state x1 = Running"
    "ls_workflow_id l1 = ls_workflow_id l" "ls_task_id l1 = ls_task_id l" "now_ms m1 = now_ms m"
    using begun_live [OF i l b] by metis
  have fin: "andThen (close_lease l1) (andThen (report_outcome l1 x1 code err) c)
      (set_task ?w ?t (\<lambda>x. x\<lparr>t_finished_ms := Some (now_ms m1), t_exit_code := Some code,
         t_error := err\<rparr>) m1) = c (finished code err l1 x1 m1)" for c :: "workflow op"
    using finish_run [of l1 m1 f1 x1 k code err c] l1 by (simp add: live_def)
  let ?beg = "if t_state x = Leased then
        andThen (transition_task ?w ?t Running) (
        andThen (modify (\<lambda>m. set_task ?w ?t (\<lambda>x. x\<lparr>t_started_ms := Some (now_ms m)\<rparr>) m)) (
        andThen (modify (set_lease tok (\<lambda>l. l\<lparr>ls_started := True\<rparr>))) (
        ret (l\<lparr>ls_started := True\<rparr>)))) else ret l"
  have beg: "?beg m = (Inr l1, m1)"
    using b begin_transition [OF l] by (auto simp: begun_def proc_simps started_def view_simps)
  have look: "the_task ?w ?t m1 = (Inr x1, m1)" and tok: "t_lease_token x = tok"
    using l l1 by (simp_all add: live_def the_task_def proc_simps)
  show ?thesis
    unfolding complete_def enter_def [symmetric] enter_live [OF l]
    by (simp only: Let_def prod.case tok simp_thms if_False chain_Inr [of ?beg m l1 m1, OF beg] chain_Inr [of "the_task ?w ?t" m1 x1 m1, OF look]
        l1(2) andThen_modify fin)
qed

lemma complete_enter: "\<exists>body. complete tok code err = enter tok body"
  unfolding complete_def enter_def by (rule exI, rule refl)

lemma complete_good:
  assumes i: "inv m" and l: "live m tok l f x k"
  shows "\<exists>f' s. complete tok code err m = (Inr f', s) \<and> good m s
    \<and> dget (workflows s) (ls_workflow_id l) = Some f'"
proof -
  obtain l1 x1 m1 where b: "begun tok l x m = (l1, x1, m1)" using prod_cases3 .
  obtain f1 where l1: "live m1 tok l1 f1 x1 k" "good m m1" "t_state x1 = Running"
    "ls_workflow_id l1 = ls_workflow_id l" "wf_state f1 = wf_state f"
    using begun_live [OF i l b] by metis
  have i1: "inv m1" using l1(2) by (simp add: good_def)
  let ?s = "finished code err l1 x1 m1"
  note d = finished_draft [OF i1 l1(1,3), of code err, unfolded l1(4)]
  have "flow_ok m1 (ls_workflow_id l) f1" "\<not> workflow_terminal (wf_state f1)"
    using i1 l1(1,4) by (simp_all add: inv_def flows_ok_but_def live_def)
  then have open': "wf_finished_ms f1 = None" by (simp add: flow_ok_def)
  obtain s where s: "recompute (ls_workflow_id l) ?s = (Inr (), s)" "inv s" "grows ?s s"
    using recompute_inv [OF d(1,2,4)] open' \<open>\<not> workflow_terminal (wf_state f1)\<close> by auto
  obtain f' where "dget (workflows s) (ls_workflow_id l) = Some f'"
    using growsD(4) [OF s(3) d(4)] by blast
  moreover have "good m s" using s d(3) l1(2) by (auto simp: good_def intro: grows_trans)
  ultimately show ?thesis
    using complete_run [OF i l b] s(1)
    by (auto simp: proc_simps require_workflow_def)
qed

lemma safe_complete:
  assumes i: "inv m"
  shows "safe m (complete tok code err m)"
proof (rule safe_by_entry [OF complete_enter i])
  fix l f x k assume "live m tok l f x k"
  from complete_good [OF i this, of code err] show "safe m (complete tok code err m)" by auto
qed

section \<open>Cancellation\<close>

definition call_off :: "int \<Rightarrow> task \<Rightarrow> task" where
  "call_off now x = move Cancelled ((clear_lease_fields x)
     \<lparr>t_next_retry_ms := None, t_finished_ms := Some now\<rparr>)"

text \<open>The states inside the loop: the workflow is already marked, its tasks are on their way.\<close>

definition cancelling :: "pystr \<Rightarrow> workflow \<Rightarrow> model \<Rightarrow> model \<Rightarrow> bool" where
  "cancelling w f m s \<longleftrightarrow> core s \<and> flows_ok_but {w} s \<and> grows m s \<and> now_ms s = now_ms m
     \<and> (\<exists>ts. dget (workflows s) w = Some (f\<lparr>wf_tasks := ts\<rparr>))"

lemma clear_idem: "clear_lease_fields (clear_lease_fields x) = clear_lease_fields x"
  by (simp add: clear_lease_fields_def)

lemma cancel_task_step:
  assumes c: "core m" "flows_ok_but {w} m" and f: "dget (workflows m) w = Some f"
    and st: "wf_state f = WCancelled" and x: "task_lookup m w t = Some x"
  shows "\<exists>s. cancel_task w t m = (Inr (), s) \<and> cancelling w f m s
    \<and> (\<exists>y. task_lookup s w t = Some y \<and> task_terminal (t_state y))"
proof (cases "task_terminal (t_state x)")
  case True
  have "\<exists>ts. f = f\<lparr>wf_tasks := ts\<rparr>" by (rule exI [of _ "wf_tasks f"]) simp
  with True c f x show ?thesis
    by (auto simp: cancel_task_def the_task_def proc_simps cancelling_def)
next
  case False
  note parts = coreD [OF c(1)]
  have ok: "task_ok (now_ms m) (output_limit_bytes m) x" using parts(3) x by (simp add: tasks_ok_def)
  have bud: "budget_ok m w t x" using parts(11) x by (simp add: budgets_ok_def)
  let ?g = "call_off (now_ms m)"
  let ?u = "\<lambda>x. (clear_lease_fields x)\<lparr>t_next_retry_ms := None, t_finished_ms := Some (now_ms m)\<rparr>"
  have okg: "task_ok (now_ms m) (output_limit_bytes m) (?g x)"
    using ok False by (cases "t_state x") (auto simp: task_ok_def times_ok_def call_off_def active_cases
        task_terminal_def intro: history_ok_append)
  have budg: "budget_ok m w t (?g x)"
    using bud by (auto simp: budget_ok_def call_off_def split: if_splits)
  have gs: "static_same ?g" by (simp add: static_same_def call_off_def)
  have tg: "task_grows x (?g x)" using False by (simp add: task_grows_def call_off_def)
  have idle: "t_state (?g x) = Cancelled" by (simp add: call_off_def)
  have canc: "Cancelled \<in> set (allowed_task_transitions (t_state x))"
    using False by (cases "t_state x") (auto simp: task_terminal_def)
  have fl: "\<exists>ts. f\<lparr>wf_tasks := ts'\<rparr> = f\<lparr>wf_tasks := ts\<rparr>" for ts' by blast
  show ?thesis
  proof (cases "active (t_state x)")
    case True
    obtain l where l: "dget (leases m) (t_lease_token x) = Some l" "ls_workflow_id l = w" "ls_task_id l = t"
      using parts(6) x True unfolding holds_lease_def by blast
    obtain f0 k where lk: "dget (wf_tasks f0) t = Some x" "dget (workflows m) w = Some f0"
      "dget (workers m) (ls_worker_id l) = Some k" "ls_token l = t_lease_token x" "\<not> ls_closed l"
      using lease_task [OF c(1) l(1)] l(2,3) x by (metis option.inject)
    have ne: "t_lease_token x \<noteq> []"
      using parts(7) l(1) by (auto simp: leases_ok_def lease_ok_def)
    have close: "close_lease l m = (Inr (), release l clear_lease_fields m)"
      by (rule close_lease_run [of l m f0 x k]) (use lk l in auto)
    have "transition_task w t Cancelled (release l (?u \<circ> clear_lease_fields) m)
        = (Inr (), set_task w t (move Cancelled) (release l (?u \<circ> clear_lease_fields) m))"
      by (rule transition_run [of _ _ _ "?u (clear_lease_fields x)"])
        (use l x canc in \<open>auto simp: view_simps\<close>)
    also have "set_task w t (move Cancelled) (release l (?u \<circ> clear_lease_fields) m) = release l ?g m"
      using set_task_release [of l "move Cancelled"] l
      by (simp add: comp_def clear_idem call_off_def [abs_def])
    finally have run: "cancel_task w t m = (Inr (), release l ?g m)"
      using x False ne l close set_task_release [of l ?u clear_lease_fields m]
      by (simp add: cancel_task_def the_task_def proc_simps view_simps comp_def)
    have "core (release l ?g m)"
      by (rule core_release [OF c(1) l(1) _ gs okg]) (use l x idle f st budg in \<open>auto simp: active_cases\<close>)
    moreover have "flows_ok_but {w} (release l ?g m)" using flows_but_release [of l m ?g] c(2) l by simp
    moreover have "grows m (release l ?g m)" by (rule grows_release) (use l x tg in auto)
    ultimately show ?thesis
      using run l x f idle fl by (auto simp: cancelling_def view_simps dict_simps task_terminal_def)
  next
    case idle_task: False
    have tok: "t_lease_token x = []" using ok idle_task by (simp add: task_ok_def)
    have "transition_task w t Cancelled (set_task w t ?u m) = (Inr (), set_task w t ?g m)"
      using transition_run [of "set_task w t ?u m" w t "?u x" Cancelled] x canc
      by (simp add: view_simps set_task_set_task comp_def call_off_def [abs_def])
    then have run: "cancel_task w t m = (Inr (), set_task w t ?g m)"
      using x False tok by (simp add: cancel_task_def the_task_def proc_simps)
    have "core (set_task w t ?g m)"
      by (rule core_set_task [OF c(1) x gs okg])
        (use ok idle_task idle False f st budg in
          \<open>auto simp: call_off_def task_ok_def active_cases unlocked_def\<close>)
    moreover have "grows m (set_task w t ?g m)" by (rule grows_set_task) (use x tg in auto)
    ultimately show ?thesis
      using run x f idle fl flows_but_set_task [OF c(2)]
      by (auto simp: cancelling_def view_simps dict_simps task_terminal_def)
  qed
qed

lemma cancel_pass:
  assumes "core m" "flows_ok_but {w} m" "dget (workflows m) w = Some f" "wf_state f = WCancelled"
    "set ts \<subseteq> set (dkeys (wf_tasks f))"
  shows "\<exists>s. for_each ts (cancel_task w) m = (Inr (), s) \<and> cancelling w f m s
    \<and> (\<forall>t \<in> set ts. \<exists>y. task_lookup s w t = Some y \<and> task_terminal (t_state y))"
  using assms
proof (induction ts arbitrary: m f)
  case Nil
  have "\<exists>ts. f = f\<lparr>wf_tasks := ts\<rparr>" by (rule exI [of _ "wf_tasks f"]) simp
  with Nil show ?case by (auto simp: proc_simps cancelling_def)
next
  case (Cons t ts)
  obtain x where "dget (wf_tasks f) t = Some x" using Cons.prems(5) by (auto simp: dget_dkeys)
  then have x: "task_lookup m w t = Some x" using Cons.prems(3) by (simp add: task_lookup_flow)
  obtain m1 y where m1: "cancel_task w t m = (Inr (), m1)" "cancelling w f m m1"
    "task_lookup m1 w t = Some y" "task_terminal (t_state y)"
    using cancel_task_step [OF Cons.prems(1-4) x] by blast
  then obtain ts' where f1: "dget (workflows m1) w = Some (f\<lparr>wf_tasks := ts'\<rparr>)"
    by (auto simp: cancelling_def)
  have "set (dkeys (wf_tasks f)) \<subseteq> set (dkeys ts')"
  proof
    fix u assume "u \<in> set (dkeys (wf_tasks f))"
    then obtain z where "task_lookup m w u = Some z"
      using Cons.prems(3) by (auto simp: dget_dkeys task_lookup_flow)
    then obtain z' where "task_lookup m1 w u = Some z'"
      using growsD(5) m1(2) unfolding cancelling_def by blast
    then show "u \<in> set (dkeys ts')" by (simp add: task_lookup_flow [OF f1] dget_dkeys)
  qed
  then obtain s where s: "for_each ts (cancel_task w) m1 = (Inr (), s)"
    "cancelling w (f\<lparr>wf_tasks := ts'\<rparr>) m1 s"
    "\<forall>t \<in> set ts. \<exists>y. task_lookup s w t = Some y \<and> task_terminal (t_state y)"
    using Cons.IH [OF _ _ f1] Cons.prems(4,5) m1(2) by (fastforce simp: cancelling_def)
  have "\<exists>y. task_lookup s w t = Some y \<and> task_terminal (t_state y)"
    using growsD(5) [of m1 s w t y] s(2) m1(3,4) by (auto simp: cancelling_def task_grows_def)
  moreover have "cancelling w f m s" using s(2) m1(2) by (auto simp: cancelling_def intro: grows_trans)
  ultimately show ?case using m1(1) s(1,3) by (auto simp: proc_simps)
qed

text \<open>Cancelling an open workflow never fails, and leaves it cancelled with all its tasks ended.\<close>

lemma cancel_run:
  assumes i: "inv m" and f: "dget (workflows m) w = Some f" and nt: "\<not> workflow_terminal (wf_state f)"
  shows "\<exists>f' s. cancel_workflow w m = (Inr f', s) \<and> good m s \<and> dget (workflows s) w = Some f'
    \<and> wf_state f' = WCancelled"
proof -
  let ?h = "\<lambda>x. x\<lparr>wf_state := WCancelled, wf_finished_ms := Some (now_ms m)\<rparr>"
  let ?m = "set_workflow w ?h m"
  have cm: "core ?m" by (rule core_set_workflow [OF inv_core [OF i]]) auto
  have "flows_ok_but {w} m" using i flows_but_mono by (auto simp: inv_def)
  then have fm: "flows_ok_but {w} ?m" by (rule flows_but_set_workflow)
  have gm: "grows m ?m"
    by (rule grows_set_workflow) (use f nt in \<open>auto simp: flow_grows_def\<close>)
  have look: "dget (workflows ?m) w = Some (?h f)" using f by (simp add: view_simps dict_simps)
  have shape: "flow_shape f" and created: "wf_created_ms f \<le> now_ms m"
    using coreD(2) [OF inv_core [OF i]] f by (simp_all add: shapes_ok_def)
  obtain s where s: "for_each (wf_order f) (cancel_task w) ?m = (Inr (), s)" "cancelling w (?h f) ?m s"
    "\<forall>t \<in> set (wf_order f). \<exists>y. task_lookup s w t = Some y \<and> task_terminal (t_state y)"
    using cancel_pass [OF cm fm look, of "wf_order f"] flow_shapeD(3) [OF shape] by auto
  from s(2) obtain ts where fs: "dget (workflows s) w = Some (?h f\<lparr>wf_tasks := ts\<rparr>)"
    by (auto simp: cancelling_def)
  let ?e = "emit_event Workflow_cancelled w [] [] [] s"
  have same: "flow_shape (?h f\<lparr>wf_tasks := ts\<rparr>)"
    using coreD(2) [of s] s(2) fs by (simp add: cancelling_def shapes_ok_def)
  have "task_terminal (t_state y)" if y: "task_lookup s w t = Some y" for t y
  proof -
    have "t \<in> set (wf_order f)" using y flow_shapeD(3) [OF same]
      by (simp add: task_lookup_flow [OF fs] dget_dkeys)
    with s(3) y show ?thesis by fastforce
  qed
  then have "flow_ok s w (?h f\<lparr>wf_tasks := ts\<rparr>)"
    using created s(2) by (simp add: flow_ok_def workflow_terminal_def cancelling_def view_simps)
  then have "inv s" using s(2) fs by (auto simp: cancelling_def intro: inv_from_but)
  then have "good m ?e"
    using s(2) gm by (auto simp: good_def inv_emit cancelling_def intro: grows_trans)
  moreover have "cancel_workflow w m = (Inr (?h f\<lparr>wf_tasks := ts\<rparr>), ?e)"
    using f nt s(1) fs
    by (simp add: cancel_workflow_def require_workflow_def proc_simps emit_def view_simps)
  ultimately show ?thesis using fs by (auto simp: view_simps)
qed

lemma safe_cancel_workflow:
  assumes i: "inv m"
  shows "safe m (cancel_workflow w m)"
proof (cases "dget (workflows m) w")
  case None
  with i show ?thesis by (simp add: cancel_workflow_def require_workflow_def proc_simps)
next
  case (Some f)
  show ?thesis
  proof (cases "workflow_terminal (wf_state f)")
    case True
    with Some i show ?thesis by (simp add: cancel_workflow_def require_workflow_def proc_simps)
  next
    case False
    with cancel_run [OF i Some] show ?thesis by fastforce
  qed
qed

end
