(* ===== verification/Chaos_Sched.thy ===== *)
theory Chaos_Sched
  imports Chaos_Requests
begin

text \<open>
  Leasing: what the scan over the workflows collects, which candidate wins, and the grant.
\<close>

section \<open>Candidates\<close>

definition ready_candidates :: "(pystr, pystr) dict \<Rightarrow> workflow \<Rightarrow> candidate list" where
  "ready_candidates labels f = concat (map (\<lambda>(i, t).
     case dget (wf_tasks f) t of
       None \<Rightarrow> []
     | Some x \<Rightarrow> if t_state x = Ready \<and> labels_match labels (t_labels x)
                 then [(wf_created_ms f, wf_id f, pad8 i @ 58 # t)] else [])
     (enumerate 0 (wf_order f)))"

definition flow_candidates :: "(pystr, pystr) dict \<Rightarrow> model \<Rightarrow> pystr \<Rightarrow> candidate list" where
  "flow_candidates labels m w =
     (case dget (workflows m) w of None \<Rightarrow> [] | Some f \<Rightarrow> ready_candidates labels f)"

definition all_candidates :: "(pystr, pystr) dict \<Rightarrow> model \<Rightarrow> candidate list" where
  "all_candidates labels m = concat (map (flow_candidates labels m) (dkeys (workflows m)))"

lemma those_map_Some: "(\<forall>x \<in> set xs. f x = Some (g x)) \<Longrightarrow> those (map f xs) = Some (map g xs)"
  by (induction xs) auto

lemma workflow_candidates_run:
  assumes "flow_shape f"
  shows "workflow_candidates labels f = Some (ready_candidates labels f)"
proof -
  let ?g = "\<lambda>(i, t). case dget (wf_tasks f) t of
       None \<Rightarrow> []
     | Some x \<Rightarrow> if t_state x = Ready \<and> labels_match labels (t_labels x)
                 then [(wf_created_ms f, wf_id f, pad8 i @ 58 # t)] else []"
  have "\<forall>p \<in> set (enumerate 0 (wf_order f)). (\<lambda>(index, t).
      map_option (\<lambda>x. if t_state x \<noteq> Ready then []
                      else if \<not> labels_match labels (t_labels x) then []
                      else [(wf_created_ms f, wf_id f, pad8 index @ 58 # t)])
        (dget (wf_tasks f) t)) p = Some (?g p)"
  proof
    fix p assume p: "p \<in> set (enumerate 0 (wf_order f))"
    obtain i t where "p = (i, t)" by (rule prod.exhaust)
    moreover from this p have "t \<in> set (wf_order f)"
      by (auto simp: in_set_enumerate_eq)
    then obtain x where "dget (wf_tasks f) t = Some x"
      using flow_shapeD(3) [OF assms] by (auto simp: dget_dkeys)
    ultimately show "(\<lambda>(index, t).
      map_option (\<lambda>x. if t_state x \<noteq> Ready then []
                      else if \<not> labels_match labels (t_labels x) then []
                      else [(wf_created_ms f, wf_id f, pad8 index @ 58 # t)])
        (dget (wf_tasks f) t)) p = Some (?g p)" by simp
  qed
  then show ?thesis
    unfolding workflow_candidates_def ready_candidates_def by (simp only: those_map_Some option.map)
qed

lemma enumerate_ex: "(\<exists>p \<in> set (enumerate 0 xs). P p) \<longleftrightarrow> (\<exists>i < length xs. P (i, xs ! i))"
proof
  assume "\<exists>i < length xs. P (i, xs ! i)"
  then obtain i where "i < length xs" "P (i, xs ! i)" by blast
  moreover from this have "(i, xs ! i) \<in> set (enumerate 0 xs)" by (simp add: in_set_enumerate_eq)
  ultimately show "\<exists>p \<in> set (enumerate 0 xs). P p" by blast
qed (auto simp: in_set_enumerate_eq)

lemma ready_candidates_iff:
  "c \<in> set (ready_candidates labels f) \<longleftrightarrow>
     (\<exists>i x. i < length (wf_order f) \<and> dget (wf_tasks f) (wf_order f ! i) = Some x
        \<and> t_state x = Ready \<and> labels_match labels (t_labels x)
        \<and> c = (wf_created_ms f, wf_id f, pad8 i @ 58 # (wf_order f ! i)))"
  by (auto simp: ready_candidates_def enumerate_ex split: option.splits if_splits) metis

text \<open>A terminal workflow offers nothing.\<close>

lemma terminal_no_candidates:
  assumes "flow_ok m w f" "workflow_terminal (wf_state f)" "dget (workflows m) w = Some f"
  shows "ready_candidates labels f = []"
proof (rule ccontr)
  assume "ready_candidates labels f \<noteq> []"
  then obtain t x where "dget (wf_tasks f) t = Some x" "t_state x = Ready"
    using ready_candidates_iff [of _ labels f] by (metis list.set_sel(1))
  moreover have "task_terminal (t_state x)"
    using assms(1,2) calculation(1) by (simp add: flow_ok_def task_lookup_flow [OF assms(3)])
  ultimately show False by (simp add: task_terminal_def)
qed

lemma collect_run:
  assumes "inv m" "distinct ws" "set ws \<subseteq> set (dkeys (workflows m))"
  shows "\<exists>s. collect_candidates labels ws acc m
      = (Inr (acc @ concat (map (flow_candidates labels s) ws)), s)
    \<and> good m s \<and> workers s = workers m \<and> leases s = leases m \<and> closed_leases s = closed_leases m
    \<and> now_ms s = now_ms m \<and> id_counter s = id_counter m
    \<and> dkeys (workflows s) = dkeys (workflows m)
    \<and> (\<forall>v. v \<notin> set ws \<longrightarrow> dget (workflows s) v = dget (workflows m) v)"
  using assms
proof (induction ws arbitrary: m acc)
  case Nil
  then show ?case by (auto simp: proc_simps)
next
  case (Cons w ws)
  obtain f where f: "dget (workflows m) w = Some f" using Cons.prems(3) by (auto simp: dget_dkeys)
  have ok: "flow_ok m w f" using Cons.prems(1) f by (simp add: inv_def flows_ok_but_def)
  have skip: "wf_state f \<notin> {WPending, WRunning} \<longleftrightarrow> workflow_terminal (wf_state f)"
    by (cases "wf_state f") (auto simp: workflow_terminal_def)
  show ?case
  proof (cases "workflow_terminal (wf_state f)")
    case True
    obtain s where s: "collect_candidates labels ws acc m
        = (Inr (acc @ concat (map (flow_candidates labels s) ws)), s)"
      "good m s" "workers s = workers m" "leases s = leases m" "closed_leases s = closed_leases m"
      "now_ms s = now_ms m" "id_counter s = id_counter m" "dkeys (workflows s) = dkeys (workflows m)"
      "\<forall>v. v \<notin> set ws \<longrightarrow> dget (workflows s) v = dget (workflows m) v"
      using Cons.IH [of m acc] Cons.prems by auto
    have "flow_candidates labels s w = []"
      using s(9) Cons.prems(2) f terminal_no_candidates [OF ok True f] by (simp add: flow_candidates_def)
    then show ?thesis
      using s f True skip by (auto simp: proc_simps require_workflow_def)
  next
    case False
    obtain m1 where m1: "recompute w m = (Inr (), m1)" "inv m1" "grows m m1" "calm w m m1"
      using recompute_keeps_inv [OF Cons.prems(1) f] by blast
    obtain f1 where f1: "dget (workflows m1) w = Some f1"
      using growsD(4) [OF m1(3) f] by blast
    have shape: "flow_shape f1" using coreD(2) [OF inv_core [OF m1(2)]] f1 by (simp add: shapes_ok_def)
    obtain s where s: "collect_candidates labels ws (acc @ ready_candidates labels f1) m1
        = (Inr ((acc @ ready_candidates labels f1) @ concat (map (flow_candidates labels s) ws)), s)"
      "good m1 s" "workers s = workers m1" "leases s = leases m1" "closed_leases s = closed_leases m1"
      "now_ms s = now_ms m1" "id_counter s = id_counter m1" "dkeys (workflows s) = dkeys (workflows m1)"
      "\<forall>v. v \<notin> set ws \<longrightarrow> dget (workflows s) v = dget (workflows m1) v"
      using Cons.IH [of m1 "acc @ ready_candidates labels f1"] Cons.prems m1 by (auto simp: calm_def)
    have "flow_candidates labels s w = ready_candidates labels f1"
      using s(9) Cons.prems(2) f1 by (simp add: flow_candidates_def)
    moreover have "collect_candidates labels (w # ws) acc m
        = collect_candidates labels ws (acc @ ready_candidates labels f1) m1"
      using f False skip m1(1) f1 workflow_candidates_run [OF shape, of labels]
      by (cases "wf_state f") (simp_all add: require_workflow_def chain_def andThen_def fetch_def)
    moreover have "good m s" using s(2) m1(2,3) by (auto simp: good_def intro: grows_trans)
    ultimately show ?thesis using s m1(4) by (auto simp: calm_def)
  qed
qed

section \<open>The grant\<close>

definition lease_token :: "(pystr \<Rightarrow> pystr) \<Rightarrow> model \<Rightarrow> pystr" where
  "lease_token digest m = lit ''lease'' @ lit ''_'' @
     digest (id_text (lit ''lease'') (id_counter m + 1) (now_ms m))"

definition grant :: "pystr \<Rightarrow> pystr \<Rightarrow> int \<Rightarrow> task \<Rightarrow> task" where
  "grant tok k until x = (move Leased (x\<lparr>t_attempt := t_attempt x + 1\<rparr>))
     \<lparr>t_lease_token := tok, t_lease_owner := k, t_lease_until_ms := Some until,
      t_next_retry_ms := None\<rparr>"

definition new_lease :: "pystr \<Rightarrow> pystr \<Rightarrow> pystr \<Rightarrow> pystr \<Rightarrow> task \<Rightarrow> model \<Rightarrow> lease" where
  "new_lease tok k w t x m = \<lparr>ls_token = tok, ls_workflow_id = w, ls_task_id = t, ls_worker_id = k,
     ls_attempt = t_attempt x + 1, ls_acquired_ms = now_ms m,
     ls_expires_ms = now_ms m + lease_duration_ms m, ls_started = False, ls_closed = False\<rparr>"

definition granted :: "(pystr \<Rightarrow> pystr) \<Rightarrow> pystr \<Rightarrow> pystr \<Rightarrow> pystr \<Rightarrow> task \<Rightarrow> model \<Rightarrow> lease \<times> model" where
  "granted digest k w t x m =
     (let tok = lease_token digest m; l = new_lease tok k w t x m in
      (l, emit_event Task_leased w t k
         [(lit ''attempt'', show_int (t_attempt x + 1)), (lit ''token'', tok)]
         (acquire tok l (grant tok k (now_ms m + lease_duration_ms m))
            (m\<lparr>id_counter := id_counter m + 1\<rparr>))))"

lemma grant_lease_run:
  assumes x: "task_lookup m w t = Some x" "t_state x = Ready"
  shows "grant_lease digest k w t m = (let (l, s) = granted digest k w t x m in (Inr l, s))"
proof -
  let ?m = "m\<lparr>id_counter := id_counter m + 1\<rparr>"
  let ?tok = "lease_token digest m" and ?until = "now_ms m + lease_duration_ms m"
  let ?m1 = "set_task w t (\<lambda>x. x\<lparr>t_attempt := t_attempt x + 1\<rparr>) ?m"
  let ?m2 = "set_task w t (grant ?tok k ?until) ?m"
  have id: "next_id digest (lit ''lease'') m = (Inr ?tok, ?m)"
    by (simp add: next_id_def proc_simps lease_token_def)
  have tr: "transition_task w t Leased ?m1 = (Inr (), set_task w t (move Leased) ?m1)"
    by (rule transition_run [of _ _ _ "x\<lparr>t_attempt := t_attempt x + 1\<rparr>"])
      (use x in \<open>auto simp: view_simps\<close>)
  have m2: "set_task w t (\<lambda>x. x\<lparr>t_lease_token := ?tok, t_lease_owner := k,
      t_lease_until_ms := Some ?until, t_next_retry_ms := None\<rparr>)
      (set_task w t (move Leased) ?m1) = ?m2"
    by (simp add: set_task_set_task grant_def [abs_def] comp_def)
  have look: "task_lookup ?m2 w t = Some (grant ?tok k ?until x)" using x by (simp add: view_simps)
  let ?l = "new_lease ?tok k w t x m"
  have acq: "set_worker k (\<lambda>x. x\<lparr>wk_active_tokens := List.insert ?tok (wk_active_tokens x)\<rparr>)
      (?m2\<lparr>leases := dput ?tok ?l (leases ?m2)\<rparr>) = acquire ?tok ?l (grant ?tok k ?until) ?m"
    by (simp add: acquire_def set_task_def set_workflow_def set_worker_def new_lease_def)
  have sel: "t_attempt (grant ?tok k ?until x) = t_attempt x + 1"
    "now_ms ?m2 = now_ms m" "lease_duration_ms ?m2 = lease_duration_ms m"
    "now_ms (set_task w t (move Leased) ?m1) = now_ms m"
    "lease_duration_ms (set_task w t (move Leased) ?m1) = lease_duration_ms m"
    by (simp_all add: grant_def view_simps)
  have nl: "new_lease ?tok k w t x ?m2 = ?l" by (simp add: new_lease_def view_simps)
  have the: "the_task w t ?m2 = (Inr (grant ?tok k ?until x), ?m2)"
    using look by (simp add: the_task_def fetch_def)
  show ?thesis
    unfolding grant_lease_def granted_def Let_def prod.case
    by (simp only: chain_Inr [of "next_id digest (lit ''lease'')" m ?tok ?m, OF id] andThen_modify
        andThen_Inr [of "transition_task w t Leased", OF tr] sel m2
        chain_Inr [of "the_task w t" ?m2 "grant ?tok k ?until x" ?m2, OF the] chain_reads
        new_lease_def [symmetric] nl acq emit_def ret_def)
qed

lemma granted_good:
  assumes i: "inv m" and x: "task_lookup m w t = Some x" "t_state x = Ready"
    and wk: "dget (workers m) k = Some wk" "int (length (wk_active_tokens wk)) < wk_capacity wk"
    and fresh: "dget (leases m) (lease_token digest m) = None"
      "dget (closed_leases m) (lease_token digest m) = None"
  shows "good m (snd (granted digest k w t x m))"
proof -
  let ?tok = "lease_token digest m" and ?until = "now_ms m + lease_duration_ms m"
  let ?m = "m\<lparr>id_counter := id_counter m + 1\<rparr>"
  let ?l = "new_lease ?tok k w t x m" and ?g = "grant ?tok k ?until"
  have ok: "task_ok (now_ms m) (output_limit_bytes m) x"
    using coreD(3) [OF inv_core [OF i]] x by (simp add: tasks_ok_def)
  have gx: "task_ok (now_ms m) (output_limit_bytes m) (?g x)"
    using ok x(2) by (auto simp: task_ok_def times_ok_def grant_def active_cases intro: history_ok_append)
  have im: "inv ?m" using i by (rule inv_id_counter)
  have g: "grantable ?tok ?l x ?g ?m"
    using x wk fresh gx
    by (simp add: grantable_def new_lease_def view_simps static_same_def grant_def lease_token_def)
  have "\<not> workflow_terminal (wf_state f)" if f: "dget (workflows m) w = Some f" for f
  proof
    assume "workflow_terminal (wf_state f)"
    moreover have "flow_ok m w f" using i f by (simp add: inv_def flows_ok_but_def)
    ultimately have "task_terminal (t_state x)" using x(1) by (simp add: flow_ok_def)
    with x(2) show False by (simp add: task_terminal_def)
  qed
  then have "inv (acquire ?tok ?l ?g ?m)"
    by (intro inv_acquire [OF im g]) (simp add: new_lease_def)
  moreover have "task_grows x (?g x)" using x(2) by (simp add: task_grows_def grant_def task_terminal_def)
  then have "grows ?m (acquire ?tok ?l ?g ?m)"
    by (intro grows_acquire) (use x in \<open>simp add: new_lease_def view_simps\<close>)
  moreover have "grows m ?m" by simp
  ultimately have "good m (acquire ?tok ?l ?g ?m)"
    unfolding good_def by (blast intro: grows_trans)
  then show ?thesis unfolding granted_def Let_def snd_conv by (rule good_emit)
qed

section \<open>Leasing\<close>

lemma sort_Cons_Min:
  assumes "sort xs = c # cs"
  shows "c \<in> set xs" "Min (set xs) = c"
proof -
  have "set xs = insert c (set cs)" using assms by (metis list.simps(15) set_sort)
  moreover have "\<forall>y \<in> set cs. c \<le> y" using assms by (metis sorted_simps(2) sorted_sort)
  ultimately show "c \<in> set xs" "Min (set xs) = c" by (auto intro: Min_eqI)
qed

lemma all_candidates_iff:
  assumes "inv m"
  shows "c \<in> set (all_candidates labels m) \<longleftrightarrow>
    (\<exists>w f i x. dget (workflows m) w = Some f \<and> i < length (wf_order f)
       \<and> task_lookup m w (wf_order f ! i) = Some x \<and> t_state x = Ready
       \<and> labels_match labels (t_labels x)
       \<and> c = (wf_created_ms f, w, pad8 i @ 58 # (wf_order f ! i)))"
proof -
  have id: "wf_id f = w" if "dget (workflows m) w = Some f" for w f
    using coreD(2) [OF inv_core [OF assms]] that by (simp add: shapes_ok_def)
  have "c \<in> set (all_candidates labels m) \<longleftrightarrow> (\<exists>w f. dget (workflows m) w = Some f
      \<and> c \<in> set (ready_candidates labels f))"
  proof
    assume "\<exists>w f. dget (workflows m) w = Some f \<and> c \<in> set (ready_candidates labels f)"
    then obtain w f where "dget (workflows m) w = Some f" "c \<in> set (ready_candidates labels f)" by blast
    moreover from this have "w \<in> set (dkeys (workflows m))" by (simp add: dget_dkeys)
    ultimately show "c \<in> set (all_candidates labels m)"
      by (force simp: all_candidates_def flow_candidates_def)
  next
    assume "c \<in> set (all_candidates labels m)"
    then show "\<exists>w f. dget (workflows m) w = Some f \<and> c \<in> set (ready_candidates labels f)"
      by (auto simp: all_candidates_def flow_candidates_def split: option.splits) metis
  qed
  also have "\<dots> \<longleftrightarrow> (\<exists>w f i x. dget (workflows m) w = Some f \<and> i < length (wf_order f)
       \<and> task_lookup m w (wf_order f ! i) = Some x \<and> t_state x = Ready
       \<and> labels_match labels (t_labels x)
       \<and> c = (wf_created_ms f, w, pad8 i @ 58 # (wf_order f ! i)))"
    unfolding ready_candidates_iff
    by (rule iff_exI, rule iff_exI) (auto simp: id task_lookup_flow)
  finally show ?thesis .
qed

definition same_pool :: "model \<Rightarrow> model \<Rightarrow> bool" where
  "same_pool m s \<longleftrightarrow> workers s = workers m \<and> leases s = leases m
     \<and> closed_leases s = closed_leases m \<and> now_ms s = now_ms m \<and> id_counter s = id_counter m"

text \<open>The choice, from a state that has been swept, for a worker with a free slot.\<close>

definition picks ::
  "(pystr, pystr) dict \<Rightarrow> model \<Rightarrow> pystr \<Rightarrow> pystr \<Rightarrow> task \<Rightarrow> bool" where
  "picks labels s w t x \<longleftrightarrow>
     task_lookup s w t = Some x \<and> t_state x = Ready \<and> labels_match labels (t_labels x)
     \<and> (\<exists>f i. dget (workflows s) w = Some f \<and> i < length (wf_order f) \<and> wf_order f ! i = t
          \<and> Min (set (all_candidates labels s)) = (wf_created_ms f, w, pad8 i @ 58 # t))"

lemma lease_next_swept:
  assumes i: "inv m" and wk: "dget (workers s0) k = Some wk" and sw: "sweep m = (Inr (), s0)" "good m s0"
    and able: "\<not> wk_dropped wk" "\<not> worker_ttl_ms s0 < now_ms s0 - wk_heartbeat_ms wk"
      "\<not> wk_capacity wk \<le> int (length (wk_active_tokens wk))"
  shows "\<exists>s. good s0 s \<and> same_pool s0 s \<and>
    (if all_candidates (wk_labels wk) s = [] then lease_next digest k m = (Inr None, s)
     else \<exists>w t x. picks (wk_labels wk) s w t x \<and>
       lease_next digest k m = (Inr (Some (fst (granted digest k w t x s))), snd (granted digest k w t x s)))"
proof -
  have i0: "inv s0" using sw(2) by (simp add: good_def)
  have dist: "distinct (dkeys (workflows s0))"
    using coreD(1) [OF inv_core [OF i0]] by (simp add: dicts_ok_def dwf_def)
  obtain s where s: "collect_candidates (wk_labels wk) (dkeys (workflows s0)) [] s0
      = (Inr (concat (map (flow_candidates (wk_labels wk) s) (dkeys (workflows s0)))), s)"
    "good s0 s" "workers s = workers s0" "leases s = leases s0" "closed_leases s = closed_leases s0"
    "now_ms s = now_ms s0" "id_counter s = id_counter s0" "dkeys (workflows s) = dkeys (workflows s0)"
    using collect_run [OF i0 dist, of "wk_labels wk" "[]"] by auto
  have all: "concat (map (flow_candidates (wk_labels wk) s) (dkeys (workflows s0)))
      = all_candidates (wk_labels wk) s" by (simp add: all_candidates_def s(8))
  have si: "inv s" using s(2) by (simp add: good_def)
  have pool: "same_pool s0 s" using s by (simp add: same_pool_def)
  have run: "lease_next digest k m = (case sort (all_candidates (wk_labels wk) s) of
         [] \<Rightarrow> ret None
       | (_, w, encoded) # _ \<Rightarrow>
           (let t = after_colon encoded in
            chain (fetch (\<lambda>m. dget (workflows m) w) MissingKey) (\<lambda>flow.
            chain (the_task w t) (\<lambda>x.
            chain (grant_lease digest k w (t_id x)) (\<lambda>l. ret (Some l)))))) s"
    using sw(1) wk able s(1) all
    by (simp add: lease_next_def andThen_def chain_def require_worker_def fetch_def reads_def)
  show ?thesis
  proof (cases "sort (all_candidates (wk_labels wk) s)")
    case Nil
    then have "all_candidates (wk_labels wk) s = []" by (metis set_empty set_sort)
    with Nil run s(2) pool show ?thesis by (auto simp: ret_def)
  next
    case (Cons c cs)
    note least = sort_Cons_Min [OF Cons]
    then obtain w f j x where c: "dget (workflows s) w = Some f" "j < length (wf_order f)"
      "task_lookup s w (wf_order f ! j) = Some x" "t_state x = Ready"
      "labels_match (wk_labels wk) (t_labels x)"
      "c = (wf_created_ms f, w, pad8 j @ 58 # (wf_order f ! j))"
      using all_candidates_iff [OF si] by blast
    let ?t = "wf_order f ! j"
    have shape: "flow_shape f" using coreD(2) [OF inv_core [OF si]] c(1) by (simp add: shapes_ok_def)
    have tid: "t_id x = ?t"
      using flow_shape_task(1) [OF shape] c(3) by (simp add: task_lookup_flow [OF c(1)])
    have "lease_next digest k m = (Inr (Some (fst (granted digest k w ?t x s))), snd (granted digest k w ?t x s))"
      using Cons run c(1,3) tid grant_lease_run [OF c(3,4), of digest k]
      by (simp add: c(6) chain_def fetch_def the_task_def ret_def split: prod.splits)
    moreover have "picks (wk_labels wk) s w ?t x"
      using c least(2) unfolding picks_def by blast
    moreover have "all_candidates (wk_labels wk) s \<noteq> []" using least(1) by auto
    ultimately show ?thesis using s(2) pool by auto
  qed
qed

text \<open>No collision of the next lease token with a token already handed out.\<close>

definition fresh_token :: "(pystr \<Rightarrow> pystr) \<Rightarrow> model \<Rightarrow> bool" where
  "fresh_token digest m \<longleftrightarrow> dget (leases m) (lease_token digest m) = None
     \<and> dget (closed_leases m) (lease_token digest m) = None"

lemma safe_lease_next:
  assumes i: "inv m" and fresh: "fresh_token digest m"
  shows "safe m (lease_next digest k m)"
proof -
  obtain s0 where sw: "sweep m = (Inr (), s0)" "good m s0" "now_ms s0 = now_ms m"
    "id_counter s0 = id_counter m"
    "\<forall>tok. dget (leases s0) tok = (case dget (leases m) tok of None \<Rightarrow> None
          | Some l \<Rightarrow> if ls_expires_ms l \<le> now_ms m then None else Some l)"
    "\<forall>tok. dget (leases m) tok = None \<longrightarrow> dget (closed_leases s0) tok = dget (closed_leases m) tok"
    using sweep_run [OF i] by blast
  have i0: "inv s0" using sw(2) by (simp add: good_def)
  have tok0: "lease_token digest s0 = lease_token digest m" using sw(3,4) by (simp add: lease_token_def)
  have f0: "fresh_token digest s0"
    using fresh sw(5,6) unfolding fresh_token_def tok0 by simp
  show ?thesis
  proof (cases "dget (workers s0) k")
    case None
    with sw(1,2) show ?thesis
      by (simp add: lease_next_def andThen_def chain_def require_worker_def fetch_def)
  next
    case (Some wk)
    consider (able) "\<not> wk_dropped wk" "\<not> worker_ttl_ms s0 < now_ms s0 - wk_heartbeat_ms wk"
        "\<not> wk_capacity wk \<le> int (length (wk_active_tokens wk))"
      | (no) "wk_dropped wk \<or> worker_ttl_ms s0 < now_ms s0 - wk_heartbeat_ms wk
          \<or> wk_capacity wk \<le> int (length (wk_active_tokens wk))" by blast
    then show ?thesis
    proof cases
      case no
      with sw(1,2) Some show ?thesis
        by (auto simp: lease_next_def andThen_def chain_def require_worker_def fetch_def reads_def
            ret_def good_reject)
    next
      case able
      obtain s where s: "good s0 s" "same_pool s0 s"
        "if all_candidates (wk_labels wk) s = [] then lease_next digest k m = (Inr None, s)
         else \<exists>w t x. picks (wk_labels wk) s w t x \<and>
           lease_next digest k m = (Inr (Some (fst (granted digest k w t x s))), snd (granted digest k w t x s))"
        using lease_next_swept [OF i Some sw(1,2) able] by blast
      have gs: "good m s" using sw(2) s(1) good_trans by blast
      show ?thesis
      proof (cases "all_candidates (wk_labels wk) s = []")
        case True
        with s(3) gs show ?thesis by simp
      next
        case False
        then obtain w t x where c: "picks (wk_labels wk) s w t x"
          "lease_next digest k m = (Inr (Some (fst (granted digest k w t x s))), snd (granted digest k w t x s))"
          using s(3) by auto
        have "lease_token digest s = lease_token digest s0"
          using s(2) by (simp add: lease_token_def same_pool_def)
        then have "good s (snd (granted digest k w t x s))"
          by (intro granted_good [of _ _ _ _ _ wk])
            (use s(1,2) c(1) Some able(3) f0 in \<open>auto simp: good_def same_pool_def picks_def fresh_token_def\<close>)
        with c(2) gs show ?thesis by (auto intro: good_trans)
      qed
    qed
  qed
qed

end
