(* ===== verification/Chaos_Reach.thy ===== *)
theory Chaos_Reach
  imports Chaos_Sched
begin

text \<open>
  The operations that add objects or move time, the requests a caller can make, and the states
  that requests reach. \<open>perform\<close> runs one request whatever its outcome; \<open>admissible\<close> leaves out one
  situation only: a new lease token that the digest gives a second time.
\<close>

section \<open>Adding a workflow\<close>

lemma clone_all_Inr:
  "clone_all ts = Inr cs \<Longrightarrow> map t_id cs = map t_id ts \<and> map t_depends_on cs = map t_depends_on ts
     \<and> (\<forall>c \<in> set cs. normalized (t_retry c) = t_retry c \<and> t_id c \<noteq> [])"
  by (induction ts arbitrary: cs)
    (auto simp: task_clone_def task_post_init_def Let_def split: sum.splits if_splits)

lemma task_map_spec:
  assumes "distinct (map t_id cs)"
  shows "dget (fold (\<lambda>t d. dput (t_id t) (reset_task t) d) cs []) k = Some x \<longleftrightarrow>
    (\<exists>c \<in> set cs. t_id c = k \<and> x = reset_task c)"
    "set (dkeys (fold (\<lambda>t d. dput (t_id t) (reset_task t) d) cs [])) = t_id ` set cs"
    "dwf (fold (\<lambda>t d. dput (t_id t) (reset_task t) d) cs [])"
proof -
  have "dwf d \<Longrightarrow> dwf (fold (\<lambda>t d. dput (t_id t) (reset_task t) d) cs d)
      \<and> set (dkeys (fold (\<lambda>t d. dput (t_id t) (reset_task t) d) cs d)) = t_id ` set cs \<union> set (dkeys d)
      \<and> (\<forall>k x. dget (fold (\<lambda>t d. dput (t_id t) (reset_task t) d) cs d) k = Some x \<longleftrightarrow>
          (\<exists>c \<in> set cs. t_id c = k \<and> x = reset_task c) \<or> k \<notin> t_id ` set cs \<and> dget d k = Some x)" for d
    using assms
  proof (induction cs arbitrary: d)
    case (Cons c cs)
    have "dwf (dput (t_id c) (reset_task c) d)" using Cons.prems(1) by (simp add: dict_simps)
    from Cons.IH [OF this] Cons.prems show ?case
      by (auto simp: dict_simps split: if_splits)
  qed simp
  from this [of "[]"] show
    "dget (fold (\<lambda>t d. dput (t_id t) (reset_task t) d) cs []) k = Some x \<longleftrightarrow>
    (\<exists>c \<in> set cs. t_id c = k \<and> x = reset_task c)"
    "set (dkeys (fold (\<lambda>t d. dput (t_id t) (reset_task t) d) cs [])) = t_id ` set cs"
    "dwf (fold (\<lambda>t d. dput (t_id t) (reset_task t) d) cs [])" by simp_all
qed

lemma topo_from_cong:
  "topo_from deps dn xs \<Longrightarrow> (\<And>v. v \<in> set xs \<Longrightarrow> deps' v = deps v) \<Longrightarrow> topo_from deps' dn xs"
  by (induction xs arbitrary: dn) auto

definition new_flow ::
  "pystr \<Rightarrow> pystr \<Rightarrow> task list \<Rightarrow> pystr list \<Rightarrow> (pystr, pystr) dict \<Rightarrow> int \<Rightarrow> workflow" where
  "new_flow w name cs order meta now =
     \<lparr>wf_id = w, wf_name = name, wf_tasks = fold (\<lambda>t d. dput (t_id t) (reset_task t) d) cs [],
      wf_order = order, wf_created_ms = now, wf_state = WPending, wf_finished_ms = None,
      wf_metadata = meta\<rparr>"

lemma new_flow_shape:
  assumes v: "validate_dag ts = Inr order" and c: "clone_all ts = Inr cs"
  shows "flow_shape (new_flow w name cs order meta now)"
proof -
  note ord = validate_dag_order [OF v] and cl = clone_all_Inr [OF c]
  let ?f = "new_flow w name cs order meta now"
  have g: "ts \<noteq> []" "distinct (map t_id ts)"
    "\<forall>t \<in> set ts. t_id t \<notin> set (t_depends_on t) \<and> distinct (t_depends_on t)
       \<and> set (t_depends_on t) \<subseteq> t_id ` set ts"
    using ord(4) unfolding graph_ok_tasks by blast+
  have dist: "distinct (map t_id cs)" and ids: "t_id ` set cs = t_id ` set ts"
    using cl g(2) by (simp, metis list.set_map)
  note tm = task_map_spec [OF dist]
  have twin: "\<exists>t \<in> set ts. t_id t = t_id c \<and> t_depends_on t = t_depends_on c" if cin: "c \<in> set cs" for c
  proof -
    have len: "length cs = length ts" using cl by (metis length_map)
    obtain i where i: "i < length cs" "cs ! i = c" using cin by (auto simp: in_set_conv_nth)
    have "t_id (ts ! i) = t_id (cs ! i)" "t_depends_on (ts ! i) = t_depends_on (cs ! i)"
      using cl i(1) len by (metis nth_map)+
    with i len show ?thesis by (metis nth_mem)
  qed
  have sel: "wf_tasks ?f = fold (\<lambda>t d. dput (t_id t) (reset_task t) d) cs []" "wf_order ?f = order"
    by (simp_all add: new_flow_def)
  have deps: "flow_deps ?f v = gdeps (task_graph ts) v" if vin: "v \<in> set order" for v
  proof -
    have "v \<in> t_id ` set cs" using vin ord(2) ids by simp
    then obtain c where c': "c \<in> set cs" "t_id c = v" by blast
    then have "dget (wf_tasks ?f) v = Some (reset_task c)" using tm(1) sel by auto
    moreover obtain t where "t \<in> set ts" "t_id t = v" "t_depends_on t = t_depends_on c"
      using twin [OF c'(1)] c'(2) by auto
    ultimately show ?thesis
      using gdeps_task_graph [OF g(2)] by (auto simp: flow_deps_def reset_task_def)
  qed
  show ?thesis
  proof (rule flow_shapeI, unfold sel)
    show "topo_from (flow_deps ?f) {} order" using ord(3) deps by (rule topo_from_cong)
    show "order \<noteq> []" using ord(5) g(1) by auto
    show "distinct order" "dwf (fold (\<lambda>t d. dput (t_id t) (reset_task t) d) cs [])" using ord(1) tm(3) by simp_all
    show "set order = set (dkeys (fold (\<lambda>t d. dput (t_id t) (reset_task t) d) cs []))"
      using tm(2) ord(2) ids by simp
    fix t x assume "dget (fold (\<lambda>t d. dput (t_id t) (reset_task t) d) cs []) t = Some x"
    then obtain c' where c': "c' \<in> set cs" "t_id c' = t" "x = reset_task c'" using tm(1) by auto
    obtain t' where t': "t' \<in> set ts" "t_id t' = t" "t_depends_on t' = t_depends_on c'"
      using twin [OF c'(1)] c'(2) by auto
    then have "t \<notin> set (t_depends_on c')" "set (t_depends_on c') \<subseteq> set order"
      using bspec [OF g(3) t'(1)] ord(2) by simp_all
    then show "t_id x = t \<and> t \<notin> set (t_depends_on x)
        \<and> set (t_depends_on x) \<subseteq> set order \<and> normalized (t_retry x) = t_retry x"
      using cl c' by (simp add: reset_task_def)
  qed
qed

lemma new_flow_tasks:
  assumes "dget (wf_tasks (new_flow w name cs order meta now)) t = Some x"
    "distinct (map t_id cs)"
  shows "t_state x = Pending \<and> task_ok now limit x"
proof -
  obtain c where "x = reset_task c"
    using assms(1) task_map_spec(1) [OF assms(2)] by (auto simp: new_flow_def)
  then show ?thesis
    by (simp add: reset_task_def task_ok_def times_ok_def active_cases)
qed

lemma id_or_next_run:
  "\<exists>k n. 0 \<le> n \<and> id_or_next digest pre given m = (Inr k, m\<lparr>id_counter := id_counter m + n\<rparr>)
     \<and> k = (case given of Some w \<Rightarrow> if w = [] then
          pre @ lit ''_'' @ digest (id_text pre (id_counter m + 1) (now_ms m)) else w
        | None \<Rightarrow> pre @ lit ''_'' @ digest (id_text pre (id_counter m + 1) (now_ms m)))"
proof -
  have "m = m\<lparr>id_counter := id_counter m + 0\<rparr>" by simp
  then show ?thesis
    by (auto simp: id_or_next_def next_id_def proc_simps split: option.splits
        intro: exI [of _ "1::int"] exI [of _ "0::int"])
qed

lemma add_workflow_new:
  assumes i: "inv m" and new: "dget (workflows m) w = None"
    and v: "validate_dag ts = Inr order" and c: "clone_all ts = Inr cs"
  shows "\<exists>s f. recompute w (emit_event Workflow_created w [] [] d
      (m\<lparr>workflows := dput w (new_flow w name cs order meta (now_ms m)) (workflows m)\<rparr>)) = (Inr (), s)
    \<and> good m s \<and> dget (workflows s) w = Some f"
proof -
  let ?f = "new_flow w name cs order meta (now_ms m)"
  let ?m = "m\<lparr>workflows := dput w ?f (workflows m)\<rparr>"
  let ?e = "emit_event Workflow_created w [] [] d ?m"
  have dist: "distinct (map t_id cs)"
    using clone_all_Inr [OF c] validate_dag_order(4) [OF v] unfolding graph_ok_tasks by simp
  have "core ?m"
    by (rule core_new_workflow [OF inv_core [OF i] new _ new_flow_shape [OF v c]])
      (use new_flow_tasks [OF _ dist] in \<open>auto simp: new_flow_def\<close>)
  then have ce: "core ?e" by (rule core_emit)
  have "flows_ok_but {w} ?m" using i by (auto simp: inv_def intro: flows_but_new_workflow)
  then have fe: "flows_ok_but {w} ?e" by (rule flows_frame) (auto simp: view_simps)
  have look: "dget (workflows ?e) w = Some ?f" by (simp add: view_simps dict_simps)
  obtain s where s: "recompute w ?e = (Inr (), s)" "inv s" "grows ?e s"
    using recompute_inv [OF ce fe look] by (auto simp: new_flow_def workflow_terminal_def)
  obtain f where "dget (workflows s) w = Some f" using growsD(4) [OF s(3) look] by blast
  moreover have "grows m ?e"
    by (rule grows_trans [OF grows_new_workflow [OF new, of ?f]]) simp
  ultimately show ?thesis using s by (auto simp: good_def intro: grows_trans)
qed

lemma safe_add_workflow:
  assumes i: "inv m"
  shows "safe m (add_workflow digest name ts given meta m)"
proof -
  obtain w n where id: "id_or_next digest (lit ''wf'') given m
      = (Inr w, m\<lparr>id_counter := id_counter m + n\<rparr>)" "0 \<le> n"
    using id_or_next_run [of digest "lit ''wf''" given m] by blast
  let ?m = "m\<lparr>id_counter := id_counter m + n\<rparr>"
  have im: "inv ?m" using i by (rule inv_id_counter)
  have gm: "good m ?m" using im id(2) by (simp add: good_def)
  have errs: "\<not> fault e" if "validate_dag ts = Inl e" for e
  proof -
    have "index_tasks us d = Inl e \<Longrightarrow> \<not> fault e" for us d
      by (induction us d rule: index_tasks.induct) (auto split: if_splits)
    moreover have "scan_deps tid ds seen by_id acc = Inl e \<Longrightarrow> \<not> fault e" for tid ds seen by_id acc
      by (induction tid ds seen by_id acc rule: scan_deps.induct) (auto split: if_splits)
    moreover from this have "scan_tasks us by_id acc = Inl e \<Longrightarrow> \<not> fault e" for us by_id acc
      by (induction us by_id acc rule: scan_tasks.induct) (auto split: sum.splits)
    ultimately show ?thesis
      using that by (auto simp: validate_dag_def Let_def split: if_splits sum.splits)
  qed
  have clerr: "\<not> fault e" if "clone_all us = Inl e" for us e
    using that by (induction us arbitrary: e)
      (auto simp: task_clone_def task_post_init_def Let_def split: sum.splits if_splits)
  show ?thesis
  proof (cases "dget (workflows m) w")
    case (Some f)
    then show ?thesis using id(1) gm by (simp add: add_workflow_def chain_def reads_def raise_def)
  next
    case None
    show ?thesis
    proof (cases "validate_dag ts")
      case (Inl e)
      with None id(1) gm errs show ?thesis
        by (simp add: add_workflow_def chain_def reads_def raise_def lift_result_def)
    next
      case v: (Inr order)
      show ?thesis
      proof (cases "clone_all ts")
        case (Inl e)
        with None v id(1) gm clerr show ?thesis
          by (simp add: add_workflow_def chain_def reads_def raise_def lift_result_def ret_def)
      next
        case c: (Inr cs)
        obtain s f where s: "recompute w (emit_event Workflow_created w [] [] [(lit ''name'', name)]
            (?m\<lparr>workflows := dput w (new_flow w name cs order meta (now_ms ?m)) (workflows ?m)\<rparr>)) = (Inr (), s)"
          "good ?m s" "dget (workflows s) w = Some f"
          using add_workflow_new [OF im _ v c, of w] None by fastforce
        have "add_workflow digest name ts given meta m = (Inr f, s)"
          using None v c id(1) s(1,3)
          by (simp add: add_workflow_def chain_def andThen_def reads_def modify_def emit_def
              lift_result_def ret_def require_workflow_def fetch_def new_flow_def)
        then show ?thesis using s(2) gm good_trans by auto
      qed
    qed
  qed
qed

section \<open>Workers, time, probes\<close>

definition worker_key :: "(pystr \<Rightarrow> pystr) \<Rightarrow> pystr option \<Rightarrow> model \<Rightarrow> pystr" where
  "worker_key digest given m =
     (case given of Some k \<Rightarrow> if k = [] then
          lit ''worker'' @ lit ''_'' @ digest (id_text (lit ''worker'') (id_counter m + 1) (now_ms m))
        else k
      | None \<Rightarrow> lit ''worker'' @ lit ''_'' @
          digest (id_text (lit ''worker'') (id_counter m + 1) (now_ms m)))"

lemma safe_register_worker:
  assumes i: "inv m"
  shows "safe m (register_worker digest name cap labels given m)"
proof (cases "cap < 1 \<or> 256 < cap")
  case True
  with i show ?thesis by (simp add: register_worker_def raise_def)
next
  case False
  let ?k = "worker_key digest given m"
  obtain n where id: "id_or_next digest (lit ''worker'') given m
      = (Inr ?k, m\<lparr>id_counter := id_counter m + n\<rparr>)" "0 \<le> n"
    using id_or_next_run [of digest "lit ''worker''" given m] by (auto simp: worker_key_def)
  let ?m = "m\<lparr>id_counter := id_counter m + n\<rparr>"
  let ?w = "\<lparr>wk_id = ?k, wk_name = name, wk_capacity = cap, wk_labels = labels,
    wk_registered_ms = now_ms m, wk_heartbeat_ms = now_ms m, wk_active_tokens = [], wk_dropped = False\<rparr>"
  let ?m' = "?m\<lparr>workers := dput ?k ?w (workers ?m)\<rparr>"
  have im: "inv ?m" using i by (rule inv_id_counter)
  have gm: "good m ?m" using im id(2) by (simp add: good_def)
  show ?thesis
  proof (cases "\<exists>wk. dget (workers m) ?k = Some wk \<and> \<not> wk_dropped wk")
    case True
    with id(1) gm False show ?thesis by (auto simp: register_worker_def chain_def reads_def raise_def)
  next
    case free: False
    have "inv ?m'" using False by (intro inv_new_worker [OF im]) auto
    moreover have "grows ?m ?m'" by (rule grows_updates)
    ultimately have "good m ?m'" using gm by (auto simp: good_def intro: grows_trans)
    then have "good m (emit_event Worker_registered [] [] ?k [(lit ''name'', name)] ?m')"
      by (rule good_emit)
    moreover have "register_worker digest name cap labels given m
        = (Inr ?w, emit_event Worker_registered [] [] ?k [(lit ''name'', name)] ?m')"
      using False free id(1)
      by (auto simp: register_worker_def chain_def andThen_def reads_def modify_def emit_def
          require_worker_def fetch_def view_simps dict_simps split: option.splits)
    ultimately show ?thesis by simp
  qed
qed

lemma safe_heartbeat:
  assumes i: "inv m"
  shows "safe m (heartbeat k m)"
proof -
  have "good m (set_worker k (\<lambda>x. x\<lparr>wk_heartbeat_ms := now_ms m\<rparr>) m)"
    using inv_set_worker [OF i, of "\<lambda>x. x\<lparr>wk_heartbeat_ms := now_ms m\<rparr>" k] by (simp add: good_def)
  with i show ?thesis
    by (auto simp: heartbeat_def require_worker_def chain_def andThen_def fetch_def modify_def
        emit_def good_reject good_emit view_simps dict_simps split: option.splits)
qed

lemma safe_drop_worker:
  assumes i: "inv m"
  shows "safe m (drop_worker k m)"
proof -
  have "good m (set_worker k (\<lambda>x. x\<lparr>wk_dropped := True\<rparr>) m)"
    using inv_set_worker [OF i, of "\<lambda>x. x\<lparr>wk_dropped := True\<rparr>" k] by (simp add: good_def)
  with i show ?thesis
    by (auto simp: drop_worker_def require_worker_def chain_def fetch_def modify_def split: option.splits)
qed

lemma safe_sweep: "inv m \<Longrightarrow> safe m (sweep m)"
  using sweep_run [of m] by auto

lemma safe_advance:
  assumes i: "inv m"
  shows "safe m (advance d sweeping m)"
proof (cases "d < 0")
  case True
  with i show ?thesis by (simp add: advance_def raise_def)
next
  case False
  let ?m = "m\<lparr>now_ms := now_ms m + d\<rparr>"
  have "good m ?m" using inv_advance [OF i] False by (simp add: good_def)
  with safe_sweep [of ?m] False show ?thesis
    by (auto simp: advance_def andThen_def chain_def modify_def ret_def good_def
        intro: safe_trans split: prod.splits sum.splits)
qed

lemma safe_probes:
  assumes "inv m"
  shows "safe m (stale_complete tok m)" "safe m (stale_renew tok m)" "safe m (duplicate_complete tok m)"
  using assms by (simp_all add: stale_complete_def stale_renew_def duplicate_complete_def good_reject)

section \<open>Requests\<close>

datatype request =
  Add pystr "task list" "pystr option" "(pystr, pystr) dict"
  | Register pystr int "(pystr, pystr) dict" "pystr option"
  | Beat pystr | Drop pystr | Next_lease pystr | Begin pystr | Extend pystr
  | Write_log pystr pystr pystr | Finish pystr int pystr | Cancel pystr
  | Advance int bool | Sweep_now | Probe_complete pystr | Probe_renew pystr | Probe_duplicate pystr
  | Apply action

definition outcome :: "(chaos_error + 'a) \<times> model \<Rightarrow> chaos_error option \<times> model" where
  "outcome r = (case r of (Inl e, s) \<Rightarrow> (Some e, s) | (Inr _, s) \<Rightarrow> (None, s))"

fun perform :: "(pystr \<Rightarrow> pystr) \<Rightarrow> request \<Rightarrow> model \<Rightarrow> chaos_error option \<times> model" where
  "perform digest (Add name ts given meta) m = outcome (add_workflow digest name ts given meta m)"
| "perform digest (Register name cap labels given) m =
     outcome (register_worker digest name cap labels given m)"
| "perform digest (Beat k) m = outcome (heartbeat k m)"
| "perform digest (Drop k) m = outcome (drop_worker k m)"
| "perform digest (Next_lease k) m = outcome (lease_next digest k m)"
| "perform digest (Begin tok) m = outcome (start tok m)"
| "perform digest (Extend tok) m = outcome (renew tok m)"
| "perform digest (Write_log tok txt stream) m = outcome (append_log tok txt stream m)"
| "perform digest (Finish tok code err) m = outcome (complete tok code err m)"
| "perform digest (Cancel w) m = outcome (cancel_workflow w m)"
| "perform digest (Advance d sweeping) m = outcome (advance d sweeping m)"
| "perform digest Sweep_now m = outcome (sweep m)"
| "perform digest (Probe_complete tok) m = outcome (stale_complete tok m)"
| "perform digest (Probe_renew tok) m = outcome (stale_renew tok m)"
| "perform digest (Probe_duplicate tok) m = outcome (duplicate_complete tok m)"
| "perform digest (Apply a) m = outcome (apply_action digest a m)"

text \<open>The request that an action stands for (\<open>Model.apply\<close>).\<close>

fun action_request :: "action \<Rightarrow> request" where
  "action_request a =
     (case ac_kind a of
        RegisterWorker \<Rightarrow> Register (str_or (ac_text a) (str_or (ac_worker_id a) (lit ''worker'')))
          (max 1 (int_or (ac_amount a) 1)) [] (Some (ac_worker_id a))
      | Heartbeat \<Rightarrow> Beat (ac_worker_id a)
      | LeaseTask \<Rightarrow> Next_lease (ac_worker_id a)
      | Start \<Rightarrow> Begin (ac_token a)
      | Renew \<Rightarrow> Extend (ac_token a)
      | Log \<Rightarrow> Write_log (ac_token a) (str_or (ac_text a) (lit ''log'' @ [10])) (lit ''stdout'')
      | CompleteSuccess \<Rightarrow> Finish (ac_token a) 0 []
      | CompleteFailure \<Rightarrow> Finish (ac_token a) (max 1 (int_or (ac_amount a) 1))
          (str_or (ac_text a) (lit ''failure''))
      | AdvanceTime \<Rightarrow> Advance (max 0 (ac_amount a)) True
      | Sweep \<Rightarrow> Sweep_now
      | CancelWorkflow \<Rightarrow> Cancel (ac_workflow_id a)
      | DropWorker \<Rightarrow> Drop (ac_worker_id a)
      | StaleComplete \<Rightarrow> Probe_complete (ac_token a)
      | StaleRenew \<Rightarrow> Probe_renew (ac_token a)
      | DuplicateComplete \<Rightarrow> Probe_duplicate (ac_token a))"

declare action_request.simps [simp del]

lemma outcome_reply_with: "outcome (reply_with f c m) = outcome (c m)"
  by (auto simp: reply_with_def outcome_def chain_def ret_def split: prod.splits sum.splits)

lemma apply_action_request: "outcome (apply_action digest a m) = perform digest (action_request a) m"
  by (cases "ac_kind a")
    (simp_all add: apply_action_def action_request.simps outcome_reply_with complete_success_def
      complete_failure_def max_def)

fun admissible :: "(pystr \<Rightarrow> pystr) \<Rightarrow> request \<Rightarrow> model \<Rightarrow> bool" where
  "admissible digest (Next_lease k) m = fresh_token digest m"
| "admissible digest (Apply a) m =
     (case action_request a of
        Next_lease k \<Rightarrow> fresh_token digest m
      | _ \<Rightarrow> True)"
| "admissible digest _ m = True"

lemma outcome_safe: "safe m r \<Longrightarrow> outcome r = (e, s) \<Longrightarrow> good m s \<and> (\<forall>x. e = Some x \<longrightarrow> \<not> fault x)"
  by (auto simp: outcome_def safe_def keeps_def split: prod.splits sum.splits)

lemma perform_plain:
  assumes i: "inv m" and adm: "admissible digest req m" and na: "\<And>a. req \<noteq> Apply a"
    and p: "perform digest req m = (e, s)"
  shows "good m s \<and> (\<forall>x. e = Some x \<longrightarrow> \<not> fault x)"
  using adm na p
  by (cases req)
    (auto dest!: outcome_safe [rotated] intro: i safe_add_workflow safe_register_worker safe_heartbeat
      safe_drop_worker safe_lease_next safe_start safe_renew safe_append_log safe_complete
      safe_cancel_workflow safe_advance safe_sweep safe_probes)

lemma perform_good:
  assumes i: "inv m" and adm: "admissible digest req m" and p: "perform digest req m = (e, s)"
  shows "good m s \<and> (\<forall>x. e = Some x \<longrightarrow> \<not> fault x)"
proof (cases "\<exists>a. req = Apply a")
  case True
  then obtain a where a: "req = Apply a" by blast
  have p': "perform digest (action_request a) m = (e, s)"
    using p by (simp add: a apply_action_request)
  have na: "action_request a \<noteq> Apply b" for b
    by (cases "ac_kind a") (simp_all add: action_request.simps)
  have "admissible digest (action_request a) m"
    using adm na by (cases "action_request a") (auto simp: a)
  then show ?thesis using perform_plain [OF i _ na p'] by blast
next
  case False
  with perform_plain [OF i adm _ p] show ?thesis by blast
qed

section \<open>Reachable states\<close>

inductive chaos_step :: "(pystr \<Rightarrow> pystr) \<Rightarrow> model \<Rightarrow> model \<Rightarrow> bool" for digest where
  request: "admissible digest req m \<Longrightarrow> perform digest req m = (e, s) \<Longrightarrow> chaos_step digest m s"

inductive_cases chaos_stepE: "chaos_step digest m s"

definition initial :: "model \<Rightarrow> bool" where
  "initial m \<longleftrightarrow> (\<exists>lease_duration worker_ttl output_limit chunk_limit.
     new_model lease_duration worker_ttl output_limit chunk_limit = Inr m)"

lemma initial_inv: "initial m \<Longrightarrow> inv m"
  by (auto simp: initial_def new_model_def inv_def core_def core_parts flows_ok_but_def
      task_lookup_def split: if_splits)

interpretation chaos_run: state_machine initial "chaos_step digest" inv for digest
  by unfold_locales (auto simp: initial_inv good_def elim!: chaos_stepE dest!: perform_good)

definition reachable :: "(pystr \<Rightarrow> pystr) \<Rightarrow> model \<Rightarrow> bool" where
  "reachable digest m \<longleftrightarrow> (\<exists>m0. initial m0 \<and> (chaos_step digest)\<^sup>*\<^sup>* m0 m)"

lemma reachable_inv: "reachable digest m \<Longrightarrow> inv m"
  unfolding reachable_def using chaos_run.runs_keep by blast

lemma steps_grow:
  assumes "(chaos_step digest)\<^sup>*\<^sup>* m s" "inv m"
  shows "grows m s"
  using assms
proof (induction rule: rtranclp_induct)
  case (step y z)
  then have "inv y" using chaos_run.run_inv by blast
  with step show ?case
    by (auto simp: good_def elim!: chaos_stepE dest!: perform_good intro: grows_trans)
qed simp

end
