(* ===== verification/Chaos_Index.thy ===== *)
theory Chaos_Index
  imports Chaos_Reach
begin

text \<open>
  The index of the active leases that every worker keeps (\<open>Worker.active_tokens\<close>). Every operation
  of the model keeps it complete but one: \<open>register_worker\<close> puts a new \<open>Worker\<close> with an empty index
  in the place of a dropped one, whether or not that one still holds leases. The first part is a
  small calculus: an operation is \<open>tidy\<close> when it keeps the index complete, and \<open>tidy\<close> follows the
  structure of the code.
\<close>

named_theorems tidy_rules \<open>operations that keep the index of active leases complete\<close>

section \<open>A complete index\<close>

definition indexed :: "model \<Rightarrow> bool" where
  "indexed m \<longleftrightarrow> list_all (\<lambda>(tok, l). case dget (workers m) (ls_worker_id l) of
     None \<Rightarrow> False | Some wk \<Rightarrow> tok \<in> set (wk_active_tokens wk)) (leases m)"

text \<open>The same over lookups, together with workers \<open>K\<close> that are known to exist.\<close>

definition index_kept :: "pystr set \<Rightarrow> model \<Rightarrow> bool" where
  "index_kept K m \<longleftrightarrow>
     (\<forall>tok l. dget (leases m) tok = Some l \<longrightarrow>
        (\<exists>wk. dget (workers m) (ls_worker_id l) = Some wk \<and> tok \<in> set (wk_active_tokens wk)))
     \<and> (\<forall>k \<in> K. dget (workers m) k \<noteq> None)"

lemma index_lease:
  assumes "index_kept K m" "dget (leases m) tok = Some l"
  obtains wk where "dget (workers m) (ls_worker_id l) = Some wk" "tok \<in> set (wk_active_tokens wk)"
  using assms unfolding index_kept_def by blast

lemma indexed_iff: "dwf (leases m) \<Longrightarrow> indexed m \<longleftrightarrow> index_kept {} m"
  unfolding indexed_def index_kept_def list_all_iff
  by (fastforce simp: dget_iff_mem split: option.splits)

definition tidy :: "pystr set \<Rightarrow> 'a op \<Rightarrow> bool" where
  "tidy K c \<longleftrightarrow> (\<forall>m. index_kept K m \<longrightarrow> index_kept K (snd (c m)))"

section \<open>The calculus\<close>

lemma tidy_ret [tidy_rules]: "tidy K (ret x)" and tidy_raise [tidy_rules]: "tidy K (raise e)"
  and tidy_reads [tidy_rules]: "tidy K (reads f)"
  by (simp_all add: tidy_def proc_simps)

lemma tidy_fetch [tidy_rules]: "tidy K (fetch f e)"
  by (auto simp: tidy_def fetch_def split: option.splits)

lemma tidy_lift [tidy_rules]: "tidy K (lift_result r)"
  by (auto simp: tidy_def lift_result_def proc_simps split: sum.splits)

lemma tidy_modify:
  assumes "\<And>m. index_kept K m \<Longrightarrow> index_kept K (f m)"
  shows "tidy K (modify f)"
  using assms by (simp add: tidy_def proc_simps)

lemma tidy_frame [tidy_rules]:
  assumes "\<And>m. workers (f m) = workers m \<and> leases (f m) = leases m"
  shows "tidy K (modify f)"
  using assms by (simp add: tidy_def proc_simps index_kept_def)

lemma tidy_chain:
  assumes "tidy K c" "\<And>x. tidy K (f x)"
  shows "tidy K (chain c f)"
  using assms by (auto simp: tidy_def chain_def split: prod.splits sum.splits)

lemma tidy_andThen:
  assumes "tidy K c" "tidy K d"
  shows "tidy K (andThen c d)"
  using assms unfolding andThen_def by (intro tidy_chain)

lemma tidy_if: "tidy K c \<Longrightarrow> tidy K d \<Longrightarrow> tidy K (if b then c else d)"
  by simp

lemma tidy_option: "tidy K c \<Longrightarrow> (\<And>y. tidy K (f y)) \<Longrightarrow> tidy K (case x of None \<Rightarrow> c | Some y \<Rightarrow> f y)"
  by (cases x) simp_all

lemma tidy_list: "tidy K c \<Longrightarrow> (\<And>y ys. tidy K (f y ys)) \<Longrightarrow> tidy K (case xs of [] \<Rightarrow> c | y # ys \<Rightarrow> f y ys)"
  by (cases xs) simp_all

lemma tidy_pair: "(\<And>a b. tidy K (f a b)) \<Longrightarrow> tidy K (case p of (a, b) \<Rightarrow> f a b)"
  by (cases p) simp

lemma tidy_let: "(\<And>a. tidy K (f a)) \<Longrightarrow> tidy K (Let x f)"
  by (simp add: Let_def)

lemma tidy_for_each: "(\<And>x. tidy K (f x)) \<Longrightarrow> tidy K (for_each xs f)"
  by (induction xs) (auto intro: tidy_rules tidy_andThen)

lemmas tidy_structure = tidy_chain tidy_andThen tidy_if tidy_option tidy_list tidy_pair tidy_let
  tidy_for_each

text \<open>A looked-up worker exists in what follows.\<close>

lemma tidy_worker:
  assumes "\<And>x. tidy (insert k K) (f x)"
  shows "tidy K (chain (require_worker k) f)"
  unfolding tidy_def
proof (intro allI impI)
  fix m assume k: "index_kept K m"
  show "index_kept K (snd (chain (require_worker k) f m))"
  proof (cases "dget (workers m) k")
    case (Some x)
    then have "index_kept (insert k K) (snd (f x m))"
      using assms k by (simp add: tidy_def index_kept_def)
    with Some show ?thesis by (simp add: require_worker_def proc_simps index_kept_def)
  qed (use k in \<open>simp add: require_worker_def proc_simps\<close>)
qed

section \<open>The elementary updates\<close>

lemma index_set_worker:
  assumes "index_kept K m" "\<And>x. set (wk_active_tokens x) \<subseteq> set (wk_active_tokens (f x))"
  shows "index_kept K (set_worker k f m)"
  unfolding index_kept_def
proof (intro conjI allI impI ballI)
  fix tok l assume "dget (leases (set_worker k f m)) tok = Some l"
  then obtain wk where "dget (workers m) (ls_worker_id l) = Some wk" "tok \<in> set (wk_active_tokens wk)"
    using index_lease [OF assms(1)] by (auto simp: view_simps)
  with assms(2) show "\<exists>wk. dget (workers (set_worker k f m)) (ls_worker_id l) = Some wk
      \<and> tok \<in> set (wk_active_tokens wk)" by (auto simp: view_simps dict_simps)
next
  fix j assume "j \<in> K"
  with assms(1) show "dget (workers (set_worker k f m)) j \<noteq> None"
    by (auto simp: index_kept_def view_simps dict_simps)
qed

lemma index_set_lease:
  assumes "index_kept K m" "\<And>l. ls_worker_id (f l) = ls_worker_id l"
  shows "index_kept K (set_lease tok f m)"
  using assms unfolding index_kept_def
  by (fastforce simp: view_simps dict_simps split: if_splits)

lemma tidy_set_lease [tidy_rules]:
  "tidy K (modify (set_lease tok (\<lambda>l. l\<lparr>ls_started := True\<rparr>)))"
  "tidy K (modify (set_lease tok (\<lambda>l. l\<lparr>ls_expires_ms := u\<rparr>)))"
  by (auto intro!: tidy_modify index_set_lease)

lemma tidy_set_task [tidy_rules]:
  "tidy K (modify (set_task w t g))" "tidy K (modify (\<lambda>m. set_task w t (h m) m))"
  "tidy K (modify (\<lambda>m. set_workflow w (i m) m))" "tidy K (modify (set_workflow w j))"
  "tidy K (emit ty w t k d)" "tidy K (modify (count_rejection c))"
  by (auto intro!: tidy_frame simp: emit_def view_simps)

lemma tidy_reject [tidy_rules]: "tidy K (reject c)"
  unfolding reject_def by (intro tidy_rules tidy_structure)

lemma tidy_lookups [tidy_rules]:
  "tidy K (require_workflow w)" "tidy K (the_task w t)"
  "tidy K (require_worker k)" "tidy K (dep_states w ds)" "tidy K (next_id digest p)"
  unfolding require_workflow_def the_task_def require_worker_def dep_states_def next_id_def
  by (intro tidy_rules tidy_structure; simp)+

lemma tidy_require_lease [tidy_rules]: "tidy K (require_active_lease tok)"
  by (auto simp: tidy_def require_active_lease_def reject_run view_simps index_kept_def split: option.splits)

lemma tidy_resolve [tidy_rules]: "tidy K (resolve_lease l)"
  unfolding resolve_lease_def by (intro tidy_rules tidy_structure)

text \<open>A closed lease leaves the dictionary and the index in two steps.\<close>

lemma tidy_unindex:
  "tidy K (modify (\<lambda>m. m\<lparr>leases := dpop tok (leases m)\<rparr>))"
  by (auto intro!: tidy_modify simp: index_kept_def dict_simps)

lemma tidy_close_lease [tidy_rules]: "tidy K (close_lease l)"
proof -
  have two: "tidy K (andThen (modify (\<lambda>m. m\<lparr>leases := dpop tok (leases m)\<rparr>))
      (andThen (modify (set_worker k (\<lambda>x. x\<lparr>wk_active_tokens := removeAll tok (wk_active_tokens x)\<rparr>))) d))"
    if "tidy K d" for tok k and d :: "unit op"
  proof -
    have "index_kept K (set_worker k (\<lambda>x. x\<lparr>wk_active_tokens := removeAll tok (wk_active_tokens x)\<rparr>)
        (m\<lparr>leases := dpop tok (leases m)\<rparr>))" if "index_kept K m" for m
      using that unfolding index_kept_def
      by (fastforce simp: view_simps dict_simps split: if_splits)
    then show ?thesis using that by (simp add: tidy_def andThen_modify)
  qed
  show ?thesis unfolding close_lease_def
    by (intro two tidy_if tidy_chain tidy_pair tidy_andThen tidy_rules) simp
qed

section \<open>The operations\<close>

lemma tidy_transition [tidy_rules]: "tidy K (transition_task w t z)"
  unfolding transition_task_def by (intro tidy_structure tidy_rules)

lemma tidy_expire [tidy_rules]: "tidy K (expire_lease tok)"
  unfolding expire_lease_def by (intro tidy_structure tidy_rules)

lemma tidy_ensure [tidy_rules]: "tidy K (ensure_live_lease l)"
  unfolding ensure_live_lease_def by (intro tidy_structure tidy_rules)

lemma tidy_recompute_task [tidy_rules]: "tidy K (recompute_task w t)"
  unfolding recompute_task_def by (intro tidy_structure tidy_rules)

lemma tidy_recompute [tidy_rules]: "tidy K (recompute w)"
  unfolding recompute_def settle_workflow_def by (intro tidy_structure tidy_rules)

lemma tidy_sweep [tidy_rules]: "tidy K sweep"
  unfolding sweep_def by (intro tidy_structure tidy_rules)

lemma tidy_add_workflow: "tidy K (add_workflow digest name ts given meta)"
  unfolding add_workflow_def id_or_next_def by (intro tidy_structure tidy_rules) simp

lemma tidy_heartbeat: "tidy K (heartbeat k)"
proof -
  have "tidy K (modify (\<lambda>m. set_worker k (\<lambda>x. x\<lparr>wk_heartbeat_ms := now_ms m\<rparr>) m))"
    by (auto intro!: tidy_modify index_set_worker)
  note beat = this
  show ?thesis unfolding heartbeat_def by (intro beat tidy_structure tidy_rules(1-3,5-) tidy_fetch)
qed

lemma tidy_drop: "tidy K (drop_worker k)"
  unfolding drop_worker_def
  by (intro tidy_structure tidy_rules tidy_modify index_set_worker) auto

lemma tidy_start: "tidy K (start tok)" and tidy_renew: "tidy K (renew tok)"
  and tidy_append_log: "tidy K (append_log tok txt stream)"
  unfolding start_def renew_def append_log_def by (intro tidy_structure tidy_rules)+

lemma tidy_complete: "tidy K (complete tok code err)"
  unfolding complete_def report_outcome_def by (intro tidy_structure tidy_rules)

lemma tidy_cancel: "tidy K (cancel_workflow w)"
  unfolding cancel_workflow_def cancel_task_def by (intro tidy_structure tidy_rules)

lemma tidy_advance: "tidy K (advance d sweeping)"
  unfolding advance_def by (intro tidy_structure tidy_rules) simp

lemma tidy_probes:
  "tidy K (stale_complete tok)" "tidy K (stale_renew tok)" "tidy K (duplicate_complete tok)"
  by (auto simp: tidy_def stale_complete_def stale_renew_def duplicate_complete_def reject_run
      view_simps index_kept_def)

text \<open>A new lease enters the dictionary and then the index of its worker, which exists.\<close>

lemma tidy_grant:
  assumes "k \<in> K"
  shows "tidy K (grant_lease digest k w t)"
proof -
  have two: "tidy K (andThen (modify (\<lambda>m. m\<lparr>leases := dput tok l (leases m)\<rparr>))
      (andThen (modify (set_worker k (\<lambda>x. x\<lparr>wk_active_tokens := List.insert tok (wk_active_tokens x)\<rparr>))) d))"
    if "tidy K d" "ls_worker_id l = k" for tok l and d :: "lease op"
  proof -
    have "index_kept K (set_worker k (\<lambda>x. x\<lparr>wk_active_tokens := List.insert tok (wk_active_tokens x)\<rparr>)
        (m\<lparr>leases := dput tok l (leases m)\<rparr>))" if "index_kept K m" for m
      using that \<open>ls_worker_id l = k\<close> assms unfolding index_kept_def
      by (fastforce simp: view_simps dict_simps split: if_splits)
    then show ?thesis using that by (simp add: tidy_def andThen_modify)
  qed
  have fetched: "tidy K (chain (reads h) f)" if "\<And>m. tidy K (f (h m))" for h and f :: "lease \<Rightarrow> lease op"
    using that by (auto simp: tidy_def chain_reads)
  show ?thesis unfolding grant_lease_def
    by (intro tidy_chain [OF tidy_lookups(5)] tidy_chain [OF tidy_lookups(2)] fetched two
        tidy_andThen tidy_rules) simp
qed

lemma tidy_collect [tidy_rules]: "tidy K (collect_candidates labels ws acc)"
  by (induction ws arbitrary: acc) (simp_all, (intro tidy_structure tidy_rules; simp)+)

lemma tidy_lease_next: "tidy K (lease_next digest k)"
  unfolding lease_next_def Let_def
  by (intro tidy_worker tidy_andThen tidy_chain tidy_if tidy_pair tidy_list tidy_grant tidy_rules) simp_all

section \<open>Requests\<close>

text \<open>The one request that can lose an index entry: a registration under the name of a dropped
  worker that still holds leases (\<open>Model.register_worker\<close> tests \<open>dropped\<close> only).\<close>

fun replaces_busy :: "(pystr \<Rightarrow> pystr) \<Rightarrow> request \<Rightarrow> model \<Rightarrow> bool" where
  "replaces_busy digest (Register name cap labels given) m =
     (case dget (workers m) (worker_key digest given m) of None \<Rightarrow> False
      | Some wk \<Rightarrow> wk_active_tokens wk \<noteq> [])"
| "replaces_busy digest (Apply a) m =
     (case action_request a of
        Register name cap labels given \<Rightarrow>
          (case dget (workers m) (worker_key digest given m) of None \<Rightarrow> False
           | Some wk \<Rightarrow> wk_active_tokens wk \<noteq> [])
      | _ \<Rightarrow> False)"
| "replaces_busy digest _ m = False"

lemma register_index:
  assumes k: "index_kept {} m" and idle: "\<not> replaces_busy digest (Register name cap labels given) m"
  shows "index_kept {} (snd (register_worker digest name cap labels given m))"
proof -
  let ?k = "worker_key digest given m"
  obtain n where id: "id_or_next digest (lit ''worker'') given m
      = (Inr ?k, m\<lparr>id_counter := id_counter m + n\<rparr>)"
    using id_or_next_run [of digest "lit ''worker''" given m] by (auto simp: worker_key_def)
  let ?x = "\<lparr>wk_id = ?k, wk_name = name, wk_capacity = cap, wk_labels = labels,
    wk_registered_ms = now_ms m, wk_heartbeat_ms = now_ms m, wk_active_tokens = [], wk_dropped = False\<rparr>"
  let ?r = "register_worker digest name cap labels given m"
  have run: "leases (snd ?r) = leases m
      \<and> (workers (snd ?r) = workers m \<or> workers (snd ?r) = dput ?k ?x (workers m))"
    using id by (auto simp: register_worker_def chain_def andThen_def reads_def modify_def emit_def
        raise_def require_worker_def fetch_def view_simps dict_simps)
  have free: "ls_worker_id l \<noteq> ?k" if held: "dget (leases m) tok = Some l" for tok l
  proof
    assume "ls_worker_id l = ?k"
    then obtain wk where "dget (workers m) ?k = Some wk" "tok \<in> set (wk_active_tokens wk)"
      using index_lease [OF k held] by auto
    with idle show False by simp
  qed
  show ?thesis
    unfolding index_kept_def
  proof (intro conjI allI impI ballI)
    fix tok l assume "dget (leases (snd ?r)) tok = Some l"
    then have l: "dget (leases m) tok = Some l" using run by simp
    then obtain wk where "dget (workers m) (ls_worker_id l) = Some wk" "tok \<in> set (wk_active_tokens wk)"
      using k unfolding index_kept_def by blast
    then show "\<exists>wk. dget (workers (snd ?r)) (ls_worker_id l) = Some wk \<and> tok \<in> set (wk_active_tokens wk)"
      using run free [OF l] by (auto simp: dict_simps)
  qed simp
qed

lemma index_outcome: "tidy K c \<Longrightarrow> index_kept K m \<Longrightarrow> outcome (c m) = (e, s) \<Longrightarrow> index_kept K s"
  by (auto simp: tidy_def outcome_def split: prod.splits sum.splits)

lemma perform_index_plain:
  assumes k: "index_kept {} m" and idle: "\<not> replaces_busy digest req m" and na: "\<And>a. req \<noteq> Apply a"
    and p: "perform digest req m = (e, s)"
  shows "index_kept {} s"
  using k idle na p
proof (cases req)
  case (Register name cap labels given)
  have "snd (outcome (register_worker digest name cap labels given m)) = s" using p Register by simp
  then have "snd (register_worker digest name cap labels given m) = s"
    by (auto simp: outcome_def split: prod.splits sum.splits)
  with register_index [OF k, of digest name cap labels given] idle Register show ?thesis by simp
qed (auto elim!: index_outcome [rotated 2] intro: tidy_add_workflow tidy_heartbeat tidy_drop
  tidy_lease_next tidy_start tidy_renew tidy_append_log tidy_complete tidy_cancel tidy_advance
  tidy_sweep tidy_probes)

lemma perform_index:
  assumes k: "index_kept {} m" and idle: "\<not> replaces_busy digest req m"
    and p: "perform digest req m = (e, s)"
  shows "index_kept {} s"
proof (cases "\<exists>a. req = Apply a")
  case True
  then obtain a where a: "req = Apply a" by blast
  have na: "action_request a \<noteq> Apply b" for b
    by (cases "ac_kind a") (simp_all add: action_request.simps)
  have "\<not> replaces_busy digest (action_request a) m"
    using idle na by (cases "action_request a") (auto simp: a)
  then show ?thesis
    using perform_index_plain [OF k _ na] p by (simp add: a apply_action_request)
next
  case False
  with perform_index_plain [OF k idle _ p] show ?thesis by blast
qed

lemma perform_indexed:
  assumes "inv m" "indexed m" "\<not> replaces_busy digest req m" "admissible digest req m"
    "perform digest req m = (e, s)"
  shows "indexed s"
proof -
  have "inv s" using perform_good [OF assms(1,4,5)] by (simp add: good_def)
  then have "dwf (leases m)" "dwf (leases s)"
    using assms(1) coreD(1) inv_core by (auto simp: dicts_ok_def)
  then show ?thesis using perform_index [OF _ assms(3,5)] assms(2) by (simp add: indexed_iff)
qed

end
