(* ===== verification/Chaos_Check.thy ===== *)
theory Chaos_Check
  imports Chaos_Index
begin

text \<open>
  The self-check of the reference model (\<open>Model.check_invariants\<close> and its ten parts) as a function
  that returns the code of the first violation it would raise. The checks are decided for every
  state that satisfies the invariant: all pass but three, each of which has its own exact condition.
\<close>

section \<open>The checks\<close>

datatype violation =
  EVENT_SEQUENCE | EVENT_TIME | WORKER_CAPACITY | WORKER_GHOST_LEASE | WORKER_LEASE_OWNER
  | LEASE_KEY | OVERLAPPING_LEASE | ACTIVE_CLOSED_LEASE | LEASE_DURATION | LEASE_WORKER_INDEX
  | ACTIVE_TASK_NO_LEASE | ACTIVE_TASK_UNKNOWN_LEASE | TASK_LEASE_TARGET | TASK_LEASE_OWNER
  | TASK_LEASE_EXPIRY | INACTIVE_TASK_HAS_LEASE | DEPENDENCY_SAFETY | DEPENDENCY_KEY_ERROR
  | WORKFLOW_FALSE_SUCCESS | WORKFLOW_CANCEL_ACTIVE | WORKFLOW_CANCEL_LEASE
  | WORKFLOW_TERMINAL_TIME | WORKFLOW_ACTIVE_FINISHED | NEGATIVE_ATTEMPT | ATTEMPT_BUDGET
  | PENDING_ATTEMPT | ACTIVE_ATTEMPT | RETRY_TIME | STALE_RETRY_TIME | WORKFLOW_FUTURE_CREATED
  | WORKFLOW_TIME_ORDER | TASK_FUTURE_START | TASK_FUTURE_FINISH | TASK_TIME_ORDER
  | NEGATIVE_OUTPUT | OUTPUT_LIMIT

text \<open>The checks raise at the first violation; \<open>otherwise\<close> goes on to the next test.\<close>

definition otherwise :: "violation option \<Rightarrow> violation option \<Rightarrow> violation option" where
  "otherwise a b = (case a of Some v \<Rightarrow> Some v | None \<Rightarrow> b)"

definition violate :: "bool \<Rightarrow> violation \<Rightarrow> violation option" where
  "violate c v = (if c then Some v else None)"

fun first_violation :: "('a \<Rightarrow> violation option) \<Rightarrow> 'a list \<Rightarrow> violation option" where
  "first_violation f [] = None"
| "first_violation f (x # xs) = otherwise (f x) (first_violation f xs)"

lemma otherwise_simps [simp]:
  "otherwise None b = b" "otherwise (Some v) b = Some v"
  "otherwise a b = None \<longleftrightarrow> a = None \<and> b = None"
  by (auto simp: otherwise_def split: option.splits)

lemma violate_None [simp]: "violate c v = None \<longleftrightarrow> \<not> c"
  by (simp add: violate_def)

lemma first_violation_None: "first_violation f xs = None \<longleftrightarrow> (\<forall>x \<in> set xs. f x = None)"
  by (induction xs) auto

fun check_event_sequence_from :: "int \<Rightarrow> int option \<Rightarrow> event list \<Rightarrow> violation option" where
  "check_event_sequence_from index prev [] = None"
| "check_event_sequence_from index prev (e # es) =
     otherwise (violate (ev_sequence e \<noteq> index) EVENT_SEQUENCE)
     (otherwise (violate (case prev of None \<Rightarrow> False | Some p \<Rightarrow> ev_at_ms e < p) EVENT_TIME)
     (check_event_sequence_from (index + 1) (Some (ev_at_ms e)) es))"

definition check_event_sequence :: "model \<Rightarrow> violation option" where
  "check_event_sequence m = check_event_sequence_from 1 None (events m)"

definition check_worker_capacity :: "model \<Rightarrow> violation option" where
  "check_worker_capacity m = first_violation (\<lambda>wk.
     otherwise (violate (wk_capacity wk < int (length (wk_active_tokens wk))) WORKER_CAPACITY)
     (first_violation (\<lambda>tok. case dget (leases m) tok of
          None \<Rightarrow> Some WORKER_GHOST_LEASE
        | Some l \<Rightarrow> violate (ls_worker_id l \<noteq> wk_id wk) WORKER_LEASE_OWNER)
       (wk_active_tokens wk))) (dvals (workers m))"

fun check_leases_from ::
  "model \<Rightarrow> (pystr \<times> pystr) list \<Rightarrow> (pystr \<times> lease) list \<Rightarrow> violation option" where
  "check_leases_from m task_keys [] = None"
| "check_leases_from m task_keys ((tok, l) # rest) =
     otherwise (violate (tok \<noteq> ls_token l) LEASE_KEY)
     (otherwise (violate ((ls_workflow_id l, ls_task_id l) \<in> set task_keys) OVERLAPPING_LEASE)
     (otherwise (violate (ls_closed l) ACTIVE_CLOSED_LEASE)
     (otherwise (violate (ls_expires_ms l \<le> ls_acquired_ms l) LEASE_DURATION)
     (otherwise (case dget (workers m) (ls_worker_id l) of
          None \<Rightarrow> Some LEASE_WORKER_INDEX
        | Some wk \<Rightarrow> violate (tok \<notin> set (wk_active_tokens wk)) LEASE_WORKER_INDEX)
     (check_leases_from m ((ls_workflow_id l, ls_task_id l) # task_keys) rest)))))"

definition check_lease_bijection :: "model \<Rightarrow> violation option" where
  "check_lease_bijection m = check_leases_from m [] (leases m)"

text \<open>The remaining checks run over every task of every workflow.\<close>

definition check_tasks :: "(workflow \<Rightarrow> task \<Rightarrow> violation option) \<Rightarrow> model \<Rightarrow> violation option" where
  "check_tasks f m = first_violation (\<lambda>flow. first_violation (f flow) (dvals (wf_tasks flow)))
     (dvals (workflows m))"

definition check_task_lease_fields :: "model \<Rightarrow> violation option" where
  "check_task_lease_fields m = check_tasks (\<lambda>flow x.
     if t_state x \<in> {Leased, Running} then
       otherwise (violate (t_lease_token x = []) ACTIVE_TASK_NO_LEASE)
       (case dget (leases m) (t_lease_token x) of
          None \<Rightarrow> Some ACTIVE_TASK_UNKNOWN_LEASE
        | Some l \<Rightarrow>
            otherwise (violate (ls_workflow_id l \<noteq> wf_id flow \<or> ls_task_id l \<noteq> t_id x) TASK_LEASE_TARGET)
            (otherwise (violate (t_lease_owner x \<noteq> ls_worker_id l) TASK_LEASE_OWNER)
            (violate (t_lease_until_ms x \<noteq> Some (ls_expires_ms l)) TASK_LEASE_EXPIRY)))
     else violate (t_lease_token x \<noteq> [] \<or> t_lease_owner x \<noteq> [] \<or> t_lease_until_ms x \<noteq> None)
            INACTIVE_TASK_HAS_LEASE) m"

definition check_dependency_safety :: "model \<Rightarrow> violation option" where
  "check_dependency_safety m = check_tasks (\<lambda>flow x.
     if t_state x \<notin> {Ready, Leased, Running, Succeeded, RetryWait} then None
     else first_violation (\<lambda>d. case dget (wf_tasks flow) d of
          None \<Rightarrow> Some DEPENDENCY_KEY_ERROR
        | Some y \<Rightarrow> violate (t_state y \<noteq> Succeeded) DEPENDENCY_SAFETY) (t_depends_on x)) m"

definition check_terminal_workflows :: "model \<Rightarrow> violation option" where
  "check_terminal_workflows m = first_violation (\<lambda>flow.
     let states = map t_state (dvals (wf_tasks flow)) in
     otherwise (violate (wf_state flow = WSucceeded \<and> \<not> list_all (\<lambda>s. s = Succeeded) states)
       WORKFLOW_FALSE_SUCCESS)
     (otherwise (if wf_state flow = WCancelled then
         otherwise (violate (list_ex (\<lambda>s. \<not> task_terminal s) states) WORKFLOW_CANCEL_ACTIVE)
         (violate (list_ex (\<lambda>l. ls_workflow_id l = wf_id flow) (dvals (leases m))) WORKFLOW_CANCEL_LEASE)
       else None)
     (otherwise (violate (workflow_terminal (wf_state flow) \<and> wf_finished_ms flow = None)
         WORKFLOW_TERMINAL_TIME)
     (violate (\<not> workflow_terminal (wf_state flow) \<and> wf_finished_ms flow \<noteq> None)
         WORKFLOW_ACTIVE_FINISHED)))) (dvals (workflows m))"

definition check_attempts :: "model \<Rightarrow> violation option" where
  "check_attempts m = check_tasks (\<lambda>flow x.
     otherwise (violate (t_attempt x < 0) NEGATIVE_ATTEMPT)
     (otherwise (violate (max_attempts (t_retry x) < t_attempt x) ATTEMPT_BUDGET)
     (otherwise (violate (t_state x = Pending \<and> t_attempt x \<noteq> 0) PENDING_ATTEMPT)
     (violate (t_state x \<in> {Leased, Running} \<and> t_attempt x < 1) ACTIVE_ATTEMPT)))) m"

definition check_retry_times :: "model \<Rightarrow> violation option" where
  "check_retry_times m = check_tasks (\<lambda>flow x.
     otherwise (violate (t_state x = RetryWait \<and> t_next_retry_ms x = None) RETRY_TIME)
     (violate (t_state x \<noteq> RetryWait \<and> t_next_retry_ms x \<noteq> None) STALE_RETRY_TIME)) m"

definition later :: "int option \<Rightarrow> int \<Rightarrow> bool" where
  "later a b \<longleftrightarrow> (case a of None \<Rightarrow> False | Some t \<Rightarrow> b < t)"

definition check_timestamps :: "model \<Rightarrow> violation option" where
  "check_timestamps m = first_violation (\<lambda>flow.
     otherwise (violate (now_ms m < wf_created_ms flow) WORKFLOW_FUTURE_CREATED)
     (otherwise (violate (case wf_finished_ms flow of None \<Rightarrow> False
         | Some z \<Rightarrow> z < wf_created_ms flow) WORKFLOW_TIME_ORDER)
     (first_violation (\<lambda>x.
        otherwise (violate (later (t_started_ms x) (now_ms m)) TASK_FUTURE_START)
        (otherwise (violate (later (t_finished_ms x) (now_ms m)) TASK_FUTURE_FINISH)
        (violate (case t_finished_ms x of None \<Rightarrow> False | Some z \<Rightarrow> later (t_started_ms x) z)
           TASK_TIME_ORDER))) (dvals (wf_tasks flow))))) (dvals (workflows m))"

definition check_output_limits :: "model \<Rightarrow> violation option" where
  "check_output_limits m = check_tasks (\<lambda>flow x.
     otherwise (violate (t_output_bytes x < 0) NEGATIVE_OUTPUT)
     (violate (output_limit_bytes m < t_output_bytes x) OUTPUT_LIMIT)) m"

definition check_invariants :: "model \<Rightarrow> violation option" where
  "check_invariants m =
     otherwise (check_event_sequence m)
     (otherwise (check_worker_capacity m)
     (otherwise (check_lease_bijection m)
     (otherwise (check_task_lease_fields m)
     (otherwise (check_dependency_safety m)
     (otherwise (check_terminal_workflows m)
     (otherwise (check_attempts m)
     (otherwise (check_retry_times m)
     (otherwise (check_timestamps m)
     (check_output_limits m)))))))))"

section \<open>Their verdict\<close>

lemma check_events_from_ok:
  assumes "map ev_sequence es = map (\<lambda>i. int i + k) [0..<length es]" "sorted (map ev_at_ms es)"
    "\<And>p e. prev = Some p \<Longrightarrow> e \<in> set es \<Longrightarrow> p \<le> ev_at_ms e"
  shows "check_event_sequence_from k prev es = None"
  using assms
proof (induction k prev es rule: check_event_sequence_from.induct)
  case (2 k prev e es)
  have "map ev_sequence (e # es) = k # map (\<lambda>i. int i + (k + 1)) [0..<length es]"
    using 2(2) by (simp add: map_Suc_upt [symmetric] del: upt_Suc) (simp add: upt_conv_Cons map_Suc_upt [symmetric] del: upt_Suc)
  then have "ev_sequence e = k" "map ev_sequence es = map (\<lambda>i. int i + (k + 1)) [0..<length es]" by simp_all
  moreover have "\<not> ev_at_ms e < p" if "prev = Some p" for p using 2(4) [OF that] by fastforce
  ultimately show ?case using 2(1,3) by (auto split: option.splits)
qed simp

lemma event_sequence_ok: "core m \<Longrightarrow> check_event_sequence m = None"
  using coreD(10) [of m] unfolding check_event_sequence_def events_ok_def
  by (intro check_events_from_ok) auto

lemma worker_capacity_ok:
  assumes "core m"
  shows "check_worker_capacity m = None"
proof -
  have "dwf (workers m)" using coreD(1) [OF assms] by (simp add: dicts_ok_def)
  then show ?thesis using coreD(8) [OF assms]
    unfolding check_worker_capacity_def first_violation_None workers_ok_def
    by (fastforce simp: dvals_iff first_violation_None)
qed

lemma check_leases_from_verdict:
  assumes c: "core m" and "distinct (map fst ls)" "set ls \<subseteq> set (leases m)"
    and "\<And>tok l. (tok, l) \<in> set ls \<Longrightarrow> (ls_workflow_id l, ls_task_id l) \<notin> set keys"
  shows "check_leases_from m keys ls =
    (if list_all (\<lambda>(tok, l). case dget (workers m) (ls_worker_id l) of
        None \<Rightarrow> False | Some wk \<Rightarrow> tok \<in> set (wk_active_tokens wk)) ls
     then None else Some LEASE_WORKER_INDEX)"
  using assms(2-)
proof (induction ls arbitrary: keys)
  case (Cons p ls)
  obtain tok l where p: "p = (tok, l)" by (rule prod.exhaust)
  have dw: "dwf (leases m)" using coreD(1) [OF c] by (simp add: dicts_ok_def)
  have mem: "dget (leases m) tk = Some lk" if "(tk, lk) \<in> set (p # ls)" for tk lk
    using that Cons.prems(2) dget_iff_mem [OF dw] by blast
  have ok: "lease_ok m tk lk" if "(tk, lk) \<in> set (p # ls)" for tk lk
    using coreD(7) [OF c] mem [OF that] by (simp add: leases_ok_def)
  have "(ls_workflow_id lk, ls_task_id lk) \<noteq> (ls_workflow_id l, ls_task_id l)"
    if q: "(tk, lk) \<in> set ls" for tk lk
  proof
    assume same: "(ls_workflow_id lk, ls_task_id lk) = (ls_workflow_id l, ls_task_id l)"
    have "tk = tok" using ok [of tk lk] ok [of tok l] q p same by (auto simp: lease_ok_def)
    with q Cons.prems(1) p show False by (auto simp: rev_image_eqI)
  qed
  then have "check_leases_from m ((ls_workflow_id l, ls_task_id l) # keys) ls =
    (if list_all (\<lambda>(tok, l). case dget (workers m) (ls_worker_id l) of
        None \<Rightarrow> False | Some wk \<Rightarrow> tok \<in> set (wk_active_tokens wk)) ls
     then None else Some LEASE_WORKER_INDEX)"
    using Cons.IH [of "(ls_workflow_id l, ls_task_id l) # keys"] Cons.prems p by fastforce
  then show ?case using ok [of tok l] Cons.prems(3) [of tok l] p
    by (auto simp: lease_ok_def violate_def otherwise_def)
qed simp

lemma lease_bijection_verdict:
  assumes "core m"
  shows "check_lease_bijection m = (if indexed m then None else Some LEASE_WORKER_INDEX)"
proof -
  have "dwf (leases m)" using coreD(1) [OF assms] by (simp add: dicts_ok_def)
  then show ?thesis unfolding check_lease_bijection_def indexed_def
    by (intro check_leases_from_verdict [OF assms]) (auto simp: dwf_def dkeys_def)
qed

lemma flows_mem:
  assumes "core m"
  shows "flow \<in> set (dvals (workflows m)) \<longleftrightarrow> dget (workflows m) (wf_id flow) = Some flow"
  using coreD(1,2) [OF assms] by (auto simp: dicts_ok_def dvals_iff shapes_ok_def)

lemma tasks_mem:
  assumes "core m" "dget (workflows m) (wf_id flow) = Some flow"
  shows "x \<in> set (dvals (wf_tasks flow)) \<longleftrightarrow> task_lookup m (wf_id flow) (t_id x) = Some x"
proof -
  have "flow_shape flow" using coreD(2) [OF assms(1)] assms(2) by (simp add: shapes_ok_def)
  then show ?thesis
    using flow_shapeD(1) [of flow] flow_shape_task(1) [of flow]
    by (auto simp: dvals_iff task_lookup_flow [OF assms(2)])
qed

lemma check_tasks_None:
  assumes "core m"
  shows "check_tasks f m = None \<longleftrightarrow> (\<forall>flow x. dget (workflows m) (wf_id flow) = Some flow \<longrightarrow>
     task_lookup m (wf_id flow) (t_id x) = Some x \<longrightarrow> f flow x = None)"
  unfolding check_tasks_def first_violation_None
  by (auto simp: flows_mem [OF assms] tasks_mem [OF assms])

lemma core_task_ok: "core m \<Longrightarrow> task_lookup m w t = Some x \<Longrightarrow> task_ok (now_ms m) (output_limit_bytes m) x"
  using coreD(3) [of m] by (simp add: tasks_ok_def)

lemma task_lease_fields_ok:
  assumes c: "core m"
  shows "check_task_lease_fields m = None"
  unfolding check_task_lease_fields_def check_tasks_None [OF c]
proof (intro allI impI)
  fix flow x
  assume x: "task_lookup m (wf_id flow) (t_id x) = Some x"
  note ok = core_task_ok [OF c x]
  show "(if t_state x \<in> {Leased, Running} then
       otherwise (violate (t_lease_token x = []) ACTIVE_TASK_NO_LEASE)
       (case dget (leases m) (t_lease_token x) of
          None \<Rightarrow> Some ACTIVE_TASK_UNKNOWN_LEASE
        | Some l \<Rightarrow>
            otherwise (violate (ls_workflow_id l \<noteq> wf_id flow \<or> ls_task_id l \<noteq> t_id x) TASK_LEASE_TARGET)
            (otherwise (violate (t_lease_owner x \<noteq> ls_worker_id l) TASK_LEASE_OWNER)
            (violate (t_lease_until_ms x \<noteq> Some (ls_expires_ms l)) TASK_LEASE_EXPIRY)))
     else violate (t_lease_token x \<noteq> [] \<or> t_lease_owner x \<noteq> [] \<or> t_lease_until_ms x \<noteq> None)
            INACTIVE_TASK_HAS_LEASE) = None"
  proof (cases "active (t_state x)")
    case True
    then obtain l where l: "dget (leases m) (t_lease_token x) = Some l"
      "ls_workflow_id l = wf_id flow" "ls_task_id l = t_id x"
      using coreD(6) [OF c] x unfolding holds_lease_def by blast
    have "lease_ok m (t_lease_token x) l" using coreD(7) [OF c] l(1) by (simp add: leases_ok_def)
    with l x True show ?thesis by (auto simp: lease_ok_def active_def)
  next
    case False
    with ok show ?thesis by (auto simp: task_ok_def active_def)
  qed
qed

lemma dependency_safety_ok:
  assumes c: "core m"
  shows "check_dependency_safety m = None"
  unfolding check_dependency_safety_def check_tasks_None [OF c]
proof (intro allI impI)
  fix flow x
  assume f: "dget (workflows m) (wf_id flow) = Some flow"
    and x: "task_lookup m (wf_id flow) (t_id x) = Some x"
  have "\<exists>y. dget (wf_tasks flow) d = Some y \<and> t_state y = Succeeded"
    if "unlocked (t_state x)" "d \<in> set (t_depends_on x)" for d
    using coreD(4) [OF c] x that unfolding deps_ok_def task_lookup_flow [OF f, symmetric] by blast
  then show "(if t_state x \<notin> {Ready, Leased, Running, Succeeded, RetryWait} then None
     else first_violation (\<lambda>d. case dget (wf_tasks flow) d of
          None \<Rightarrow> Some DEPENDENCY_KEY_ERROR
        | Some y \<Rightarrow> violate (t_state y \<noteq> Succeeded) DEPENDENCY_SAFETY) (t_depends_on x)) = None"
    by (fastforce simp: first_violation_None unlocked_def)
qed

lemma terminal_workflows_ok:
  assumes i: "inv m"
  shows "check_terminal_workflows m = None"
  unfolding check_terminal_workflows_def first_violation_None
proof
  note c = inv_core [OF i]
  fix flow assume "flow \<in> set (dvals (workflows m))"
  then have f: "dget (workflows m) (wf_id flow) = Some flow" by (simp add: flows_mem [OF c])
  then have ok: "flow_ok m (wf_id flow) flow" using i by (simp add: inv_def flows_ok_but_def)
  have dw: "dwf (leases m)" using coreD(1) [OF c] by (simp add: dicts_ok_def)
  have "\<not> list_ex (\<lambda>l. ls_workflow_id l = wf_id flow) (dvals (leases m))" if "wf_state flow = WCancelled"
  proof
    assume "list_ex (\<lambda>l. ls_workflow_id l = wf_id flow) (dvals (leases m))"
    then obtain tok l where l: "dget (leases m) tok = Some l" "ls_workflow_id l = wf_id flow"
      by (auto simp: list_ex_iff dvals_iff [OF dw])
    then obtain x where "task_lookup m (wf_id flow) (ls_task_id l) = Some x" "active (t_state x)"
      using lease_task [OF c l(1)] by metis
    moreover from this(1) have "task_terminal (t_state x)"
      using ok that by (simp add: flow_ok_def workflow_terminal_def)
    ultimately show False by (auto simp: state_defs)
  qed
  then show "(let states = map t_state (dvals (wf_tasks flow)) in
     otherwise (violate (wf_state flow = WSucceeded \<and> \<not> list_all (\<lambda>s. s = Succeeded) states)
       WORKFLOW_FALSE_SUCCESS)
     (otherwise (if wf_state flow = WCancelled then
         otherwise (violate (list_ex (\<lambda>s. \<not> task_terminal s) states) WORKFLOW_CANCEL_ACTIVE)
         (violate (list_ex (\<lambda>l. ls_workflow_id l = wf_id flow) (dvals (leases m))) WORKFLOW_CANCEL_LEASE)
       else None)
     (otherwise (violate (workflow_terminal (wf_state flow) \<and> wf_finished_ms flow = None)
         WORKFLOW_TERMINAL_TIME)
     (violate (\<not> workflow_terminal (wf_state flow) \<and> wf_finished_ms flow \<noteq> None)
         WORKFLOW_ACTIVE_FINISHED)))) = None"
    using ok unfolding Let_def tasks_forall [OF c f] tasks_exists [OF c f]
    by (auto simp: flow_ok_def workflow_terminal_def)
qed

lemma check_tasks_pass:
  assumes "core m" "\<And>flow x. task_ok (now_ms m) (output_limit_bytes m) x \<Longrightarrow> f flow x = None"
  shows "check_tasks f m = None"
  unfolding check_tasks_None [OF assms(1)] using assms(2) core_task_ok [OF assms(1)] by blast

lemma retry_times_ok: "core m \<Longrightarrow> check_retry_times m = None"
  unfolding check_retry_times_def by (erule check_tasks_pass) (auto simp: task_ok_def)

lemma timestamps_ok:
  assumes i: "inv m"
  shows "check_timestamps m = None"
  unfolding check_timestamps_def first_violation_None
proof
  note c = inv_core [OF i]
  fix flow assume "flow \<in> set (dvals (workflows m))"
  then have f: "dget (workflows m) (wf_id flow) = Some flow" by (simp add: flows_mem [OF c])
  then have ok: "flow_ok m (wf_id flow) flow" using i by (simp add: inv_def flows_ok_but_def)
  have created: "wf_created_ms flow \<le> now_ms m" using coreD(2) [OF c] f by (simp add: shapes_ok_def)
  have "times_ok (now_ms m) x" if "x \<in> set (dvals (wf_tasks flow))" for x
    using core_task_ok [OF c] that unfolding tasks_mem [OF c f] task_ok_def by blast
  then have "first_violation (\<lambda>x.
        otherwise (violate (later (t_started_ms x) (now_ms m)) TASK_FUTURE_START)
        (otherwise (violate (later (t_finished_ms x) (now_ms m)) TASK_FUTURE_FINISH)
        (violate (case t_finished_ms x of None \<Rightarrow> False | Some z \<Rightarrow> later (t_started_ms x) z)
           TASK_TIME_ORDER))) (dvals (wf_tasks flow)) = None"
    by (fastforce simp: first_violation_None later_def times_ok_def split: option.splits)
  with created ok show "otherwise (violate (now_ms m < wf_created_ms flow) WORKFLOW_FUTURE_CREATED)
     (otherwise (violate (case wf_finished_ms flow of None \<Rightarrow> False
         | Some z \<Rightarrow> z < wf_created_ms flow) WORKFLOW_TIME_ORDER)
     (first_violation (\<lambda>x.
        otherwise (violate (later (t_started_ms x) (now_ms m)) TASK_FUTURE_START)
        (otherwise (violate (later (t_finished_ms x) (now_ms m)) TASK_FUTURE_FINISH)
        (violate (case t_finished_ms x of None \<Rightarrow> False | Some z \<Rightarrow> later (t_started_ms x) z)
           TASK_TIME_ORDER))) (dvals (wf_tasks flow)))) = None"
    by (auto simp: flow_ok_def split: option.splits)
qed

text \<open>A task is over budget when it was leased more often than its policy allows.\<close>

definition over_budget :: "model \<Rightarrow> bool" where
  "over_budget m \<longleftrightarrow> list_ex (\<lambda>flow. list_ex (\<lambda>x. max_attempts (t_retry x) < t_attempt x)
     (dvals (wf_tasks flow))) (dvals (workflows m))"

lemma first_violation_exact:
  "(\<And>x. x \<in> set xs \<Longrightarrow> f x = (if P x then Some v else None)) \<Longrightarrow>
     first_violation f xs = (if list_ex P xs then Some v else None)"
  by (induction xs) (simp_all add: otherwise_def)

lemma check_attempts_verdict:
  assumes c: "core m"
  shows "check_attempts m = (if over_budget m then Some ATTEMPT_BUDGET else None)"
proof -
  let ?f = "\<lambda>x. otherwise (violate (t_attempt x < 0) NEGATIVE_ATTEMPT)
     (otherwise (violate (max_attempts (t_retry x) < t_attempt x) ATTEMPT_BUDGET)
     (otherwise (violate (t_state x = Pending \<and> t_attempt x \<noteq> 0) PENDING_ATTEMPT)
     (violate (t_state x \<in> {Leased, Running} \<and> t_attempt x < 1) ACTIVE_ATTEMPT)))"
  have one: "?f x = (if max_attempts (t_retry x) < t_attempt x then Some ATTEMPT_BUDGET else None)"
    if "flow \<in> set (dvals (workflows m))" "x \<in> set (dvals (wf_tasks flow))" for flow x
  proof -
    have f: "dget (workflows m) (wf_id flow) = Some flow" using that(1) by (simp add: flows_mem [OF c])
    have "task_ok (now_ms m) (output_limit_bytes m) x"
      using core_task_ok [OF c] that(2) unfolding tasks_mem [OF c f] by blast
    then show ?thesis by (auto simp: task_ok_def active_def violate_def)
  qed
  have inner: "first_violation ?f (dvals (wf_tasks flow))
      = (if list_ex (\<lambda>x. max_attempts (t_retry x) < t_attempt x) (dvals (wf_tasks flow))
         then Some ATTEMPT_BUDGET else None)" if "flow \<in> set (dvals (workflows m))" for flow
    by (rule first_violation_exact) (rule one [OF that])
  show ?thesis
    unfolding check_attempts_def check_tasks_def over_budget_def
    by (rule first_violation_exact) (rule inner)
qed

text \<open>The constructor takes a negative output limit; then the first task of a workflow is already
  above it.\<close>

definition negative_limit :: "model \<Rightarrow> bool" where
  "negative_limit m \<longleftrightarrow> output_limit_bytes m < 0 \<and> workflows m \<noteq> []"

lemma output_limits_verdict:
  assumes c: "core m"
  shows "check_output_limits m = (if negative_limit m then Some OUTPUT_LIMIT else None)"
proof -
  let ?f = "\<lambda>x. otherwise (violate (t_output_bytes x < 0) NEGATIVE_OUTPUT)
     (violate (output_limit_bytes m < t_output_bytes x) OUTPUT_LIMIT)"
  have one: "?f x = (if output_limit_bytes m < 0 then Some OUTPUT_LIMIT else None)"
    if "flow \<in> set (dvals (workflows m))" "x \<in> set (dvals (wf_tasks flow))" for flow x
  proof -
    have f: "dget (workflows m) (wf_id flow) = Some flow" using that(1) by (simp add: flows_mem [OF c])
    have "task_ok (now_ms m) (output_limit_bytes m) x"
      using core_task_ok [OF c] that(2) unfolding tasks_mem [OF c f] by blast
    then show ?thesis by (auto simp: task_ok_def violate_def)
  qed
  have some: "dvals (wf_tasks flow) \<noteq> []" if "flow \<in> set (dvals (workflows m))" for flow
  proof -
    have "flow_shape flow"
      using that coreD(2) [OF c] by (simp add: flows_mem [OF c] shapes_ok_def)
    then have "dkeys (wf_tasks flow) \<noteq> []" using flow_shapeD(3,4) [of flow] by auto
    then show ?thesis by (auto simp: dvals_def dkeys_def)
  qed
  have inner: "first_violation ?f (dvals (wf_tasks flow))
      = (if output_limit_bytes m < 0 then Some OUTPUT_LIMIT else None)"
    if "flow \<in> set (dvals (workflows m))" for flow
    using first_violation_exact [of "dvals (wf_tasks flow)" ?f "\<lambda>_. output_limit_bytes m < 0" OUTPUT_LIMIT]
      one [OF that] some [OF that] by (cases "dvals (wf_tasks flow)") (auto simp: list_ex_iff)
  have "check_tasks (\<lambda>flow. ?f) m
      = (if list_ex (\<lambda>_. output_limit_bytes m < 0) (dvals (workflows m)) then Some OUTPUT_LIMIT else None)"
    unfolding check_tasks_def by (rule first_violation_exact) (rule inner)
  then show ?thesis
    unfolding check_output_limits_def by (auto simp: negative_limit_def list_ex_iff dvals_def)
qed

lemma check_invariants_verdict:
  assumes i: "inv m"
  shows "check_invariants m =
    (if \<not> indexed m then Some LEASE_WORKER_INDEX
     else if over_budget m then Some ATTEMPT_BUDGET
     else if negative_limit m then Some OUTPUT_LIMIT
     else None)"
  using inv_core [OF i] terminal_workflows_ok [OF i] timestamps_ok [OF i]
  by (simp add: check_invariants_def event_sequence_ok worker_capacity_ok lease_bijection_verdict
      task_lease_fields_ok dependency_safety_ok check_attempts_verdict retry_times_ok
      output_limits_verdict otherwise_def)

end
