(* ===== verification/Chaos_Runs.thy ===== *)
theory Chaos_Runs
  imports Chaos_Check
begin

text \<open>
  Concrete runs of the reference model: lists of requests carried out one after another, what they
  reach, and the small runs on which the properties are instantiated. The digest of these runs is
  the identity, which never collides.
\<close>

fun run_requests :: "(pystr \<Rightarrow> pystr) \<Rightarrow> request list \<Rightarrow> model \<Rightarrow> model option" where
  "run_requests digest [] m = Some m"
| "run_requests digest (r # rs) m =
     (if admissible digest r m then run_requests digest rs (snd (perform digest r m)) else None)"

lemma run_requests_steps: "run_requests digest rs m = Some s \<Longrightarrow> (chaos_step digest)\<^sup>*\<^sup>* m s"
proof (induction rs arbitrary: m)
  case (Cons r rs)
  then have "chaos_step digest m (snd (perform digest r m))"
    by (auto intro: chaos_step.request simp: prod_eq_iff split: if_splits)
  moreover have "(chaos_step digest)\<^sup>*\<^sup>* (snd (perform digest r m)) s"
    using Cons by (simp split: if_splits)
  ultimately show ?case by (rule converse_rtranclp_into_rtranclp)
qed simp

definition same_text :: "pystr \<Rightarrow> pystr" where
  "same_text s = s"

definition empty_model :: model where
  "empty_model = \<lparr>now_ms = 0, lease_duration_ms = 20, worker_ttl_ms = 50, output_limit_bytes = 100,
     log_chunk_limit_bytes = 10, workflows = [], workers = [], leases = [], closed_leases = [],
     events = [], rejections = [], sequence_no = 0, id_counter = 0\<rparr>"

lemma empty_model_initial: "initial empty_model"
  unfolding initial_def
  by (rule exI [of _ 20], rule exI [of _ 50], rule exI [of _ 100], rule exI [of _ 10])
    (simp add: new_model_def empty_model_def)

definition state_after :: "request list \<Rightarrow> model" where
  "state_after rs = (case run_requests same_text rs empty_model of Some s \<Rightarrow> s | None \<Rightarrow> empty_model)"

lemma state_after_reachable: "reachable same_text (state_after rs)"
  unfolding reachable_def state_after_def
  using empty_model_initial run_requests_steps [of same_text rs empty_model]
  by (cases "run_requests same_text rs empty_model") auto

text \<open>Two tasks, the second waiting for the first, which may be tried twice; one worker.\<close>

definition demo_task :: "string \<Rightarrow> string list \<Rightarrow> int \<Rightarrow> task" where
  "demo_task i ds n = \<lparr>t_id = lit i, t_depends_on = map lit ds, t_labels = [],
     t_retry = \<lparr>max_attempts = n, base_delay_ms = 100, max_delay_ms = 1000\<rparr>, t_timeout_ms = 0,
     t_state = Pending, t_attempt = 0, t_lease_token = [], t_lease_owner = [],
     t_lease_until_ms = None, t_next_retry_ms = None, t_started_ms = None, t_finished_ms = None,
     t_exit_code = None, t_error = [], t_output_bytes = 0, t_history = []\<rparr>"

definition demo_setup :: "request list" where
  "demo_setup =
     [Add (lit ''demo'') [demo_task ''b'' [''a''] 1, demo_task ''a'' [] 2] (Some (lit ''f'')) [],
      Register (lit ''one'') 2 [] (Some (lit ''w''))]"

abbreviation demo_token :: pystr where
  "demo_token \<equiv> lit ''lease_lease:1:0''"

definition demo_ready :: model where
  "demo_ready = state_after demo_setup"

definition demo_leased :: model where
  "demo_leased = state_after (demo_setup @ [Next_lease (lit ''w'')])"

definition demo_done :: model where
  "demo_done = state_after (demo_setup @ [Next_lease (lit ''w''), Finish demo_token 0 []])"

lemmas demo_reachable =
  state_after_reachable [of demo_setup, folded demo_ready_def]
  state_after_reachable [of "demo_setup @ [Next_lease (lit ''w'')]", folded demo_leased_def]
  state_after_reachable [of "demo_setup @ [Next_lease (lit ''w''), Finish demo_token 0 []]",
    folded demo_done_def]

end
