(* ===== verification/Chaos_Query.thy ===== *)
theory Chaos_Query
  imports Chaos_Check
begin

text \<open>
  The queries of the reference model: \<open>snapshot\<close>, \<open>terminal\<close>, \<open>runnable_tasks\<close>, the sorted token and
  id lists, and \<open>state_counts\<close>. The texts of the states are the values of the source's enums.
\<close>

section \<open>The code\<close>

fun workflow_state_text :: "workflow_state \<Rightarrow> pystr" where
  "workflow_state_text WPending = lit ''PENDING''"
| "workflow_state_text WRunning = lit ''RUNNING''"
| "workflow_state_text WSucceeded = lit ''SUCCEEDED''"
| "workflow_state_text WFailed = lit ''FAILED''"
| "workflow_state_text WCancelled = lit ''CANCELLED''"

fun task_state_text :: "task_state \<Rightarrow> pystr" where
  "task_state_text Pending = lit ''PENDING''"
| "task_state_text Ready = lit ''READY''"
| "task_state_text Leased = lit ''LEASED''"
| "task_state_text Running = lit ''RUNNING''"
| "task_state_text RetryWait = lit ''RETRY_WAIT''"
| "task_state_text Succeeded = lit ''SUCCEEDED''"
| "task_state_text Failed = lit ''FAILED''"
| "task_state_text Cancelled = lit ''CANCELLED''"

record task_view =
  tv_state :: pystr
  tv_attempt :: int
  tv_lease_token :: pystr
  tv_lease_owner :: pystr
  tv_lease_until_ms :: "int option"
  tv_next_retry_ms :: "int option"
  tv_output_bytes :: int

record workflow_view =
  wv_state :: pystr
  wv_tasks :: "(pystr, task_view) dict"

record worker_view =
  kv_capacity :: int
  kv_heartbeat_ms :: int
  kv_active_tokens :: "pystr list"
  kv_dropped :: bool

record lease_view =
  lv_workflow_id :: pystr
  lv_task_id :: pystr
  lv_worker_id :: pystr
  lv_attempt :: int
  lv_expires_ms :: int
  lv_started :: bool

record model_view =
  mv_now_ms :: int
  mv_workflow_count :: int
  mv_worker_count :: int
  mv_lease_count :: int
  mv_closed_lease_count :: int
  mv_event_count :: int
  mv_rejections :: "(reject_code, int) dict"
  mv_workflows :: "(pystr, workflow_view) dict"
  mv_workers :: "(pystr, worker_view) dict"
  mv_leases :: "(pystr, lease_view) dict"

definition map_vals :: "('a \<Rightarrow> 'b) \<Rightarrow> ('k, 'a) dict \<Rightarrow> ('k, 'b) dict" where
  "map_vals f d = map (\<lambda>(k, v). (k, f v)) d"

definition snapshot :: "model \<Rightarrow> model_view" where
  "snapshot m = \<lparr>mv_now_ms = now_ms m, mv_workflow_count = int (length (workflows m)),
     mv_worker_count = int (length (workers m)), mv_lease_count = int (length (leases m)),
     mv_closed_lease_count = int (length (closed_leases m)),
     mv_event_count = int (length (events m)), mv_rejections = rejections m,
     mv_workflows = map_vals (\<lambda>f. \<lparr>wv_state = workflow_state_text (wf_state f),
       wv_tasks = map_vals (\<lambda>x. \<lparr>tv_state = task_state_text (t_state x),
         tv_attempt = t_attempt x, tv_lease_token = t_lease_token x,
         tv_lease_owner = t_lease_owner x, tv_lease_until_ms = t_lease_until_ms x,
         tv_next_retry_ms = t_next_retry_ms x, tv_output_bytes = t_output_bytes x\<rparr>) (wf_tasks f)\<rparr>)
       (workflows m),
     mv_workers = map_vals (\<lambda>k. \<lparr>kv_capacity = wk_capacity k, kv_heartbeat_ms = wk_heartbeat_ms k,
       kv_active_tokens = sort (wk_active_tokens k), kv_dropped = wk_dropped k\<rparr>) (workers m),
     mv_leases = map_vals (\<lambda>l. \<lparr>lv_workflow_id = ls_workflow_id l, lv_task_id = ls_task_id l,
       lv_worker_id = ls_worker_id l, lv_attempt = ls_attempt l, lv_expires_ms = ls_expires_ms l,
       lv_started = ls_started l\<rparr>) (leases m)\<rparr>"

definition model_terminal :: "model \<Rightarrow> bool" where
  "model_terminal m \<longleftrightarrow>
     workflows m \<noteq> [] \<and> list_all (\<lambda>f. workflow_terminal (wf_state f)) (dvals (workflows m))"

text \<open>\<open>workflow.tasks[task_id]\<close> raises on a key that is missing: \<open>None\<close>.\<close>

definition runnable_tasks :: "model \<Rightarrow> (pystr \<times> pystr) list option" where
  "runnable_tasks m = map_option (\<lambda>found. sort (concat (concat found)))
     (those (map (\<lambda>f. those (map (\<lambda>t. map_option (\<lambda>x. if t_state x = Ready then [(wf_id f, t)] else [])
        (dget (wf_tasks f) t)) (wf_order f))) (dvals (workflows m))))"

definition active_lease_tokens :: "model \<Rightarrow> pystr list" where
  "active_lease_tokens m = sort (dkeys (leases m))"

definition closed_lease_tokens :: "model \<Rightarrow> pystr list" where
  "closed_lease_tokens m = sort (dkeys (closed_leases m))"

definition worker_ids :: "bool \<Rightarrow> model \<Rightarrow> pystr list" where
  "worker_ids include_dropped m =
     sort (map wk_id (filter (\<lambda>k. include_dropped \<or> \<not> wk_dropped k) (dvals (workers m))))"

definition workflow_ids :: "model \<Rightarrow> pystr list" where
  "workflow_ids m = sort (dkeys (workflows m))"

definition count_key :: "pystr \<Rightarrow> (pystr, int) dict \<Rightarrow> (pystr, int) dict" where
  "count_key k d = dput k (1 + (case dget d k of None \<Rightarrow> 0 | Some n \<Rightarrow> n)) d"

definition state_keys :: "model \<Rightarrow> pystr list" where
  "state_keys m = concat (map (\<lambda>f. (lit ''workflow.'' @ workflow_state_text (wf_state f))
     # map (\<lambda>x. lit ''task.'' @ task_state_text (t_state x)) (dvals (wf_tasks f))) (dvals (workflows m)))"

definition state_counts :: "model \<Rightarrow> (pystr, int) dict" where
  "state_counts m = sort_key fst (fold count_key (state_keys m) [])"

section \<open>What they return\<close>

lemma runnable_tasks_run:
  assumes i: "inv m"
  obtains ts where "runnable_tasks m = Some ts" "sorted ts"
    "\<And>w t. (w, t) \<in> set ts \<longleftrightarrow> (\<exists>x. task_lookup m w t = Some x \<and> t_state x = Ready)"
proof -
  note c = inv_core [OF i]
  let ?g = "\<lambda>f. map (\<lambda>t. case dget (wf_tasks f) t of None \<Rightarrow> []
    | Some x \<Rightarrow> if t_state x = Ready then [(wf_id f, t)] else []) (wf_order f)"
  have look: "dget (workflows m) (wf_id f) = Some f" if "f \<in> set (dvals (workflows m))" for f
    using that by (simp only: flows_mem [OF c])
  have shape: "flow_shape f" if "f \<in> set (dvals (workflows m))" for f
    using coreD(2) [OF c] look [OF that] unfolding shapes_ok_def by blast
  have "those (map (\<lambda>t. map_option (\<lambda>x. if t_state x = Ready then [(wf_id f, t)] else [])
      (dget (wf_tasks f) t)) (wf_order f)) = Some (?g f)" if fin: "f \<in> set (dvals (workflows m))" for f
  proof (rule those_map_Some, rule ballI)
    fix t assume "t \<in> set (wf_order f)"
    then obtain x where "dget (wf_tasks f) t = Some x"
      using flow_shapeD(3) [OF shape [OF fin]] by (auto simp: dget_dkeys)
    then show "map_option (\<lambda>x. if t_state x = Ready then [(wf_id f, t)] else []) (dget (wf_tasks f) t)
      = Some (case dget (wf_tasks f) t of None \<Rightarrow> []
        | Some x \<Rightarrow> if t_state x = Ready then [(wf_id f, t)] else [])" by simp
  qed
  then have run: "runnable_tasks m = Some (sort (concat (concat (map ?g (dvals (workflows m))))))"
    unfolding runnable_tasks_def by (subst those_map_Some [where g = ?g]) simp_all
  have mem: "(w, t) \<in> set (concat (concat (map ?g (dvals (workflows m))))) \<longleftrightarrow>
      (\<exists>x. task_lookup m w t = Some x \<and> t_state x = Ready)" (is "?l \<longleftrightarrow> ?r") for w t
  proof
    assume ?l
    then obtain f where f: "f \<in> set (dvals (workflows m))" "w = wf_id f"
      "\<exists>x. dget (wf_tasks f) t = Some x \<and> t_state x = Ready"
      by (auto split: option.splits if_splits) metis
    then show ?r using look [OF f(1)] by (auto simp: task_lookup_Some)
  next
    assume ?r
    then obtain x f where f: "dget (workflows m) w = Some f" "dget (wf_tasks f) t = Some x" "t_state x = Ready"
      by (auto simp: task_lookup_Some)
    then have sh: "flow_shape f" and id: "wf_id f = w"
      using coreD(2) [OF c] by (simp_all add: shapes_ok_def)
    then have "f \<in> set (dvals (workflows m))" using f(1) by (simp add: flows_mem [OF c])
    moreover have "t \<in> set (wf_order f)" using f(2) flow_shapeD(3) [OF sh] by (simp add: dget_dkeys)
    ultimately show ?l using f id by force
  qed
  show ?thesis
    by (rule that [OF run]) (simp_all only: sorted_sort set_sort mem)
qed

text \<open>A counter counts.\<close>

lemma fold_count_key:
  "dget (fold count_key ks d) k
     = (let n = count_list ks k in if n = 0 then dget d k
        else Some (int n + (case dget d k of None \<Rightarrow> 0 | Some i \<Rightarrow> i)))"
  by (induction ks arbitrary: d) (auto simp: count_key_def dict_simps Let_def split: option.splits)

lemma dwf_fold_count_key: "dwf d \<Longrightarrow> dwf (fold count_key ks d)"
  by (induction ks arbitrary: d) (auto simp: count_key_def dict_simps)

lemma dget_sort_key_fst:
  assumes "dwf d"
  shows "dget (sort_key fst d) k = dget d k"
proof -
  have "dwf (sort_key fst d)"
  proof -
    have "mset (map fst (sort_key fst d)) = mset (map fst d)" by simp
    then show ?thesis
      using assms mset_eq_imp_distinct_iff unfolding dwf_def dkeys_def by blast
  qed
  then have "dget (sort_key fst d) k = Some v \<longleftrightarrow> dget d k = Some v" for v
    using assms by (simp add: dget_iff_mem)
  then show ?thesis by (metis not_None_eq)
qed

lemma state_counts_lookup:
  "dget (state_counts m) k = (if k \<in> set (state_keys m) then Some (int (count_list (state_keys m) k)) else None)"
  using dget_sort_key_fst [OF dwf_fold_count_key [of "[]" "state_keys m"], of k]
  by (simp add: state_counts_def fold_count_key Let_def count_list_0_iff)

end
