(* ===== verification/Chaos_Outcome.thy ===== *)
theory Chaos_Outcome
  imports Chaos_Runs Chaos_Query
begin

text \<open>
  What the callers of the reference model observe after a request: the fate of a completed task,
  of a cancelled workflow, of a refused token. The recomputation that ends a completion leaves
  alone every task that is neither pending nor a due retry.
\<close>

section \<open>Recomputation and settled tasks\<close>

definition sticky :: "int \<Rightarrow> task \<Rightarrow> bool" where
  "sticky now x \<longleftrightarrow> t_state x \<noteq> Pending
     \<and> (t_state x = RetryWait \<longrightarrow> (\<exists>d. t_next_retry_ms x = Some d \<and> now < d))"

lemma pass_sticky:
  assumes "core m" "flows_ok_but {w} m" "dget (workflows m) w = Some f" "wf_state f \<noteq> WCancelled"
    "set todo \<subseteq> set (wf_order f)" "task_lookup m w t = Some x" "sticky (now_ms m) x"
  shows "task_lookup (snd (for_each todo (recompute_task w) m)) w t = Some x"
  using assms
proof (induction todo arbitrary: m f)
  case Nil
  then show ?case by (simp add: ret_def)
next
  case (Cons u todo)
  have shape: "flow_shape f" using coreD(2) Cons.prems(1,3) by (simp add: shapes_ok_def)
  have "u \<in> set (dkeys (wf_tasks f))" using Cons.prems(5) flow_shapeD(3) [OF shape] by simp
  then obtain y where "dget (wf_tasks f) u = Some y" by (auto simp: dget_dkeys)
  then have y: "task_lookup m w u = Some y" using Cons.prems(3) by (simp add: task_lookup_flow)
  obtain s where s: "recompute_task w u m = (Inr (), s)" "draft w m s"
    "\<forall>v. v \<noteq> u \<longrightarrow> task_lookup s w v = task_lookup m w v"
    using draft_recompute_task [OF Cons.prems(1-4) y] by blast
  have "task_lookup s w t = Some x"
  proof (cases "t = u")
    case True
    with y Cons.prems(6) have "y = x" by simp
    then have "recompute_task w u m = (Inr (), m)"
      using recompute_task_run [OF Cons.prems(1) y] Cons.prems(7) by (auto simp: sticky_def)
    with s(1) Cons.prems(6) show ?thesis by simp
  next
    case False
    with s(3) Cons.prems(6) show ?thesis by simp
  qed
  moreover obtain f' where "dget (workflows s) w = Some f'" "wf_order f' = wf_order f"
    "wf_state f' = wf_state f" using draftD [OF s(2) Cons.prems(3)] by metis
  moreover have "now_ms s = now_ms m" using s(2) by (simp add: draft_def quiet_def calm_def)
  ultimately have "task_lookup (snd (for_each todo (recompute_task w) s)) w t = Some x"
    using Cons.IH [of s f'] Cons.prems s(2) by (simp add: draft_def)
  with s(1) show ?case by (simp add: andThen_def chain_def)
qed

lemma recompute_sticky:
  assumes c: "core m" "flows_ok_but {w} m" and f: "dget (workflows m) w = Some f"
    and nc: "wf_state f \<noteq> WCancelled" and x: "task_lookup m w t = Some x" "sticky (now_ms m) x"
  shows "task_lookup (snd (recompute w m)) w t = Some x"
proof (cases "workflow_terminal (wf_state f)")
  case True
  with f x show ?thesis by (simp add: recompute_def require_workflow_def chain_def fetch_def ret_def)
next
  case False
  obtain s where s: "for_each (wf_order f) (recompute_task w) m = (Inr (), s)" "draft w m s"
    using draft_pass [OF c f nc, of "[]" "wf_order f"] by auto
  have look: "task_lookup s w t = Some x"
    using pass_sticky [OF c f nc _ x, of "wf_order f"] s(1) by simp
  obtain f' where f': "dget (workflows s) w = Some f'" using draftD [OF s(2) f] by metis
  have "task_lookup (settle_event w a (set_workflow w (settle_flow n a) s)) w t = Some x"
    "task_lookup (set_workflow w (settle_flow n a) s) w t = Some x" for a n
    using look by (simp_all add: settle_event_def view_simps settle_flow_def)
  then show ?thesis
    using f False s(1) settle_workflow_run [OF f', of "wf_state f"]
    by (simp add: recompute_def require_workflow_def chain_def fetch_def andThen_def Let_def)
qed

section \<open>Completion\<close>

definition final_task :: "int \<Rightarrow> int \<Rightarrow> pystr \<Rightarrow> task \<Rightarrow> task" where
  "final_task now code err x =
     (let y = if t_state x = Leased then begin_run now x else x
      in verdict now code err y (clear_lease_fields (finish now code err y)))"

lemma delay_positive: "1 \<le> delay_for_attempt p a"
proof -
  let ?q = "normalized p"
  have "1 * 1 \<le> base_delay_ms ?q * 2 ^ k" for k :: nat
    using normalized_bounds(3) [of p] by (intro mult_mono) auto
  then show ?thesis
    using normalized_bounds [of p]
    by (simp add: delay_for_attempt_def Let_def delay_loop_closed)
qed

lemma complete_outcome:
  assumes i: "inv m" and l: "live m tok l f x k"
  obtains f' s where "complete tok code err m = (Inr f', s)" "good m s"
    "task_lookup s (ls_workflow_id l) (ls_task_id l) = Some (final_task (now_ms m) code err x)"
    "dget (leases s) tok = None" "dget (closed_leases s) tok \<noteq> None"
proof -
  let ?w = "ls_workflow_id l" and ?t = "ls_task_id l"
  obtain l1 x1 m1 where b: "begun tok l x m = (l1, x1, m1)" using prod_cases3 .
  obtain f1 where l1: "live m1 tok l1 f1 x1 k" "good m m1" "t_state x1 = Running"
    "ls_workflow_id l1 = ?w" "ls_task_id l1 = ?t" "now_ms m1 = now_ms m"
    using begun_live [OF i l b] by metis
  have i1: "inv m1" using l1(2) by (simp add: good_def)
  let ?s = "finished code err l1 x1 m1"
  note d = finished_draft [OF i1 l1(1,3), of code err, unfolded l1(4)]
  have fin: "final_task (now_ms m) code err x
      = verdict (now_ms m) code err x1 (clear_lease_fields (finish (now_ms m) code err x1))"
    using b by (auto simp: final_task_def begun_def Let_def split: if_splits)
  have "dget (wf_tasks f1) ?t = Some x1" using l1(1,5) by (simp add: live_def)
  then have look: "task_lookup ?s ?w ?t = Some (final_task (now_ms m) code err x)"
    using d(4) l1(5,6) by (simp add: task_lookup_flow [OF d(4)] dict_simps fin)
  have now: "now_ms ?s = now_ms m"
    using l1(6) by (simp add: finished_def verdict_event_def view_simps Let_def)
  have open': "\<not> workflow_terminal (wf_state f1)" using l1(1) by (simp add: live_def)
  have stick: "sticky (now_ms ?s) (final_task (now_ms m) code err x)"
    unfolding now fin using delay_positive [of "normalized (t_retry x1)" "t_attempt x1"]
    by (cases rule: verdict_cases [of "now_ms m" code err x1]) (simp_all add: sticky_def)
  have "task_lookup (snd (recompute ?w ?s)) ?w ?t = Some (final_task (now_ms m) code err x)"
    by (rule recompute_sticky [OF d(1,2,4) _ look stick]) (use open' in \<open>auto simp: workflow_terminal_def\<close>)
  moreover have "flow_ok m1 ?w f1" using i1 l1(1,4) by (simp add: inv_def flows_ok_but_def live_def)
  then have "wf_finished_ms f1 = None" using open' by (simp add: flow_ok_def)
  then obtain s where s: "recompute ?w ?s = (Inr (), s)" "inv s" "grows ?s s" "calm ?w ?s s"
    using recompute_inv [OF d(1,2,4)] open' by auto
  moreover obtain f' where f': "dget (workflows s) ?w = Some f'"
    using growsD(4) [OF s(3) d(4)] by blast
  moreover have "complete tok code err m = (Inr f', s)"
    using complete_run [OF i l b] s(1) f' by (simp add: andThen_def chain_def require_workflow_def fetch_def)
  moreover have "good m s" using s d(3) l1(2) by (auto simp: good_def intro: grows_trans)
  moreover have "leases s = leases ?s" "closed_leases s = closed_leases ?s"
    using s(4) by (simp_all add: calm_def)
  then have "dget (leases s) tok = None" "dget (closed_leases s) tok \<noteq> None"
    using l1(1) by (simp_all add: live_def finished_def verdict_event_def view_simps dict_simps Let_def)
  ultimately show ?thesis using that by simp
qed

section \<open>Cancellation\<close>

lemma cancelled_flow_idle:
  assumes i: "inv m" and f: "dget (workflows m) w = Some f" "workflow_terminal (wf_state f)"
  shows "task_lookup m w t = Some x \<Longrightarrow> task_terminal (t_state x)"
    "dget (leases m) tok = Some l \<Longrightarrow> ls_workflow_id l \<noteq> w"
proof -
  have ok: "flow_ok m w f" using i f(1) by (simp add: inv_def flows_ok_but_def)
  with f(2) show t: "task_terminal (t_state x)" if "task_lookup m w t = Some x" for t x
    using that by (simp add: flow_ok_def)
  show "ls_workflow_id l \<noteq> w" if l: "dget (leases m) tok = Some l"
  proof
    assume "ls_workflow_id l = w"
    then obtain x where x: "task_lookup m w (ls_task_id l) = Some x" "active (t_state x)"
      using lease_task [OF inv_core [OF i] l] by metis
    from t [OF x(1)] x(2) show False by (auto simp: state_defs)
  qed
qed

section \<open>Leases and workers\<close>

lemma lease_by_task:
  assumes "inv m" "dget (leases m) a = Some la" "dget (leases m) b = Some lb"
    "ls_workflow_id la = ls_workflow_id lb" "ls_task_id la = ls_task_id lb"
  shows "a = b"
  using lease_task [OF inv_core [OF assms(1)] assms(2)] lease_task [OF inv_core [OF assms(1)] assms(3)]
    assms(4,5) by (metis option.inject)

lemma worker_load:
  assumes i: "inv m" and idx: "indexed m" and k: "dget (workers m) k = Some wk"
  shows "int (length (filter (\<lambda>l. ls_worker_id l = k) (dvals (leases m)))) \<le> wk_capacity wk"
proof -
  have dw: "dwf (leases m)" using coreD(1) [OF inv_core [OF i]] by (simp add: dicts_ok_def)
  let ?ls = "filter (\<lambda>p. ls_worker_id (snd p) = k) (leases m)"
  have "set (map fst ?ls) \<subseteq> set (wk_active_tokens wk)"
  proof
    fix tok assume "tok \<in> set (map fst ?ls)"
    then obtain l where l: "(tok, l) \<in> set (leases m)" "ls_worker_id l = k" by auto
    then have "dget (leases m) tok = Some l" using dget_iff_mem [OF dw] by blast
    then show "tok \<in> set (wk_active_tokens wk)"
      using idx [unfolded indexed_iff [OF dw]] l(2) k index_lease by (metis option.inject)
  qed
  moreover have "distinct (map fst ?ls)" using dw by (simp add: dwf_def dkeys_def distinct_map_filter)
  ultimately have "length ?ls \<le> length (wk_active_tokens wk)"
    by (metis card_length card_mono distinct_card finite_set length_map order_trans)
  moreover have "length (filter (\<lambda>l. ls_worker_id l = k) (dvals (leases m))) = length ?ls"
    by (simp add: dvals_def filter_map comp_def)
  moreover have "int (length (wk_active_tokens wk)) \<le> wk_capacity wk"
    using coreD(8) [OF inv_core [OF i]] k unfolding workers_ok_def by blast
  ultimately show ?thesis by linarith
qed

section \<open>Who gets the next task\<close>

text \<open>The candidates' encoded index compares as the number, so the order is age, id, position.\<close>

lemma candidate_order:
  fixes c :: int and w w' :: pystr
  assumes "(c, w, pad8 i @ 58 # t) \<le> (c', w', pad8 j @ 58 # t')" "i < 10 ^ 8" "j < 10 ^ 8"
  shows "c < c' \<or> c = c' \<and> (w < w' \<or> w = w' \<and> i \<le> j)"
proof -
  have "i \<le> j" if "pad8 i @ 58 # t \<le> pad8 j @ 58 # t'"
  proof (rule ccontr)
    assume "\<not> i \<le> j"
    then have "pad8 j < pad8 i" using pad8_less [of j i] assms(2) by simp
    then have "pad8 j @ 58 # t' < pad8 i @ 58 # t"
      using less_append_same_length [of "pad8 j" "pad8 i"] length_pad8 assms(2,3) by simp
    with that show False by simp
  qed
  with assms(1) show ?thesis
    by (auto simp: less_eq_prod_def less_prod_def order.order_iff_strict [of c] order.order_iff_strict [of w])
qed

lemma picks_least:
  assumes i: "inv s" and p: "picks labels s w t x"
    and small: "\<And>v f. dget (workflows s) v = Some f \<Longrightarrow> length (wf_order f) < 10 ^ 8"
    and other: "dget (workflows s) v = Some g" "j < length (wf_order g)"
      "task_lookup s v (wf_order g ! j) = Some y" "t_state y = Ready" "labels_match labels (t_labels y)"
  shows "\<exists>f i. dget (workflows s) w = Some f \<and> i < length (wf_order f) \<and> wf_order f ! i = t
    \<and> (wf_created_ms f < wf_created_ms g \<or> wf_created_ms f = wf_created_ms g \<and>
         (w < v \<or> w = v \<and> i \<le> j))"
proof -
  obtain f n where f: "dget (workflows s) w = Some f" "n < length (wf_order f)" "wf_order f ! n = t"
    "Min (set (all_candidates labels s)) = (wf_created_ms f, w, pad8 n @ 58 # t)"
    using p by (auto simp: picks_def)
  have "(wf_created_ms g, v, pad8 j @ 58 # (wf_order g ! j)) \<in> set (all_candidates labels s)"
    unfolding all_candidates_iff [OF i] using other by blast
  then have "(wf_created_ms f, w, pad8 n @ 58 # t) \<le> (wf_created_ms g, v, pad8 j @ 58 # (wf_order g ! j))"
    using f(4) by (metis List.finite_set Min_le)
  moreover have "n < 10 ^ 8" "j < 10 ^ 8"
    using small [OF f(1)] small [OF other(1)] f(2) other(2) by simp_all
  ultimately have "wf_created_ms f < wf_created_ms g \<or> wf_created_ms f = wf_created_ms g \<and>
      (w < v \<or> w = v \<and> n \<le> j)" by (rule candidate_order)
  with f show ?thesis by blast
qed

lemma lease_next_inv:
  assumes i: "inv m" and run: "lease_next digest k m = (Inr (Some l), s)"
  obtains s1 wk w t x where "good m s1" "dget (workers s1) k = Some wk" "\<not> wk_dropped wk"
    "now_ms s1 - wk_heartbeat_ms wk \<le> worker_ttl_ms m"
    "int (length (wk_active_tokens wk)) < wk_capacity wk" "picks (wk_labels wk) s1 w t x"
    "(l, s) = granted digest k w t x s1" "now_ms s1 = now_ms m"
proof -
  obtain s0 where sw: "sweep m = (Inr (), s0)" "good m s0" "now_ms s0 = now_ms m"
    using sweep_run [OF i] by blast
  obtain wk where wk: "dget (workers s0) k = Some wk"
  proof (cases "dget (workers s0) k")
    case None
    with run sw(1) show ?thesis
      by (simp add: lease_next_def andThen_def chain_def require_worker_def fetch_def)
  qed (use that in blast)
  have able: "\<not> wk_dropped wk" "\<not> worker_ttl_ms s0 < now_ms s0 - wk_heartbeat_ms wk"
    "\<not> wk_capacity wk \<le> int (length (wk_active_tokens wk))"
    using run sw(1) wk
    by (auto simp: lease_next_def andThen_def chain_def require_worker_def fetch_def reads_def ret_def
        split: if_splits)
  obtain s1 where s1: "good s0 s1" "same_pool s0 s1"
    "if all_candidates (wk_labels wk) s1 = [] then lease_next digest k m = (Inr None, s1)
     else \<exists>w t x. picks (wk_labels wk) s1 w t x \<and>
       lease_next digest k m = (Inr (Some (fst (granted digest k w t x s1))), snd (granted digest k w t x s1))"
    using lease_next_swept [OF i wk sw(1,2) able] by blast
  then obtain w t x where "picks (wk_labels wk) s1 w t x" "(l, s) = granted digest k w t x s1"
    using run by (auto split: if_splits)
  moreover have "good m s1" using sw(2) s1(1) good_trans by blast
  moreover have "worker_ttl_ms s0 = worker_ttl_ms m"
    using growsD(7) sw(2) by (auto simp: good_def config_def)
  ultimately show ?thesis
    using that wk able s1(2) sw(3) by (simp add: same_pool_def not_less)
qed

section \<open>Refused tokens\<close>

lemma entry_gone:
  assumes "\<exists>body. c = enter tok body" "dget (leases m) tok = None" "dget (closed_leases m) tok \<noteq> None"
  shows "c m = (Inl (Rejected Stale_lease), count_rejection Stale_lease m)"
  using assms enter_gone [OF assms(2)] by auto

lemma entry_due:
  assumes "\<exists>body. c = enter tok body" "inv m" "dget (leases m) tok = Some l" "ls_expires_ms l \<le> now_ms m"
  shows "c m = (Inl (Rejected Lease_is_expired), count_rejection Lease_is_expired (expired tok l m))"
  using assms(1) enter_due [OF assms(2-4)] by auto

lemma over_budget_iff:
  assumes c: "core m"
  shows "over_budget m \<longleftrightarrow>
    (\<exists>w t x. task_lookup m w t = Some x \<and> max_attempts (t_retry x) < t_attempt x)"
proof
  assume "over_budget m"
  then obtain f x where f: "f \<in> set (dvals (workflows m))" "x \<in> set (dvals (wf_tasks f))"
    "max_attempts (t_retry x) < t_attempt x" by (auto simp: over_budget_def list_ex_iff)
  have look: "dget (workflows m) (wf_id f) = Some f" using f(1) by (simp only: flows_mem [OF c])
  have "task_lookup m (wf_id f) (t_id x) = Some x" using f(2) by (simp only: tasks_mem [OF c look])
  with f(3) show "\<exists>w t x. task_lookup m w t = Some x \<and> max_attempts (t_retry x) < t_attempt x" by blast
next
  assume "\<exists>w t x. task_lookup m w t = Some x \<and> max_attempts (t_retry x) < t_attempt x"
  then obtain w t x f where x: "task_lookup m w t = Some x" "max_attempts (t_retry x) < t_attempt x"
    "dget (workflows m) w = Some f" "dget (wf_tasks f) t = Some x" by (auto simp: task_lookup_Some)
  have id: "wf_id f = w" "flow_shape f" using coreD(2) [OF c] x(3) by (simp_all add: shapes_ok_def)
  then have tid: "t_id x = t" using flow_shape_task(1) x(4) by blast
  have f: "f \<in> set (dvals (workflows m))" using x(3) id by (simp add: flows_mem [OF c])
  have "x \<in> set (dvals (wf_tasks f))" using x(1,3) id tid by (simp add: tasks_mem [OF c])
  with f x(2) show "over_budget m" by (auto simp: over_budget_def list_ex_iff)
qed

end
