(* ===== verification/Chaos_Props.thy ===== *)
theory Chaos_Props
  imports Chaos_Outcome
begin

text \<open>
  The properties of the reference model, each with a run that shows its hypotheses can hold. A
  reachable state is one that requests lead to from a new model, whatever they answered, as long as
  the digest never gives a new lease the token of an earlier one (\<open>admissible\<close>); \<open>perform\<close> runs
  one request whatever its outcome.
\<close>

section \<open>Evaluated runs\<close>

lemma demo_leased_facts:
  "map_of (leases demo_leased) demo_token = Some \<lparr>ls_token = demo_token, ls_workflow_id = lit ''f'',
     ls_task_id = lit ''a'', ls_worker_id = lit ''w'', ls_attempt = 1, ls_acquired_ms = 0,
     ls_expires_ms = 20, ls_started = False, ls_closed = False\<rparr>"
  "now_ms demo_leased = 0" "over_budget demo_leased = False"
  "indexed demo_leased = True" "negative_limit demo_leased = False"
  "map_option t_attempt (task_lookup demo_leased (lit ''f'') (lit ''a'')) = Some 1"
  "map_option t_state (task_lookup demo_leased (lit ''f'') (lit ''a'')) = Some Leased"
  "map_option wf_state (map_of (workflows demo_leased) (lit ''f'')) = Some WRunning"
  "map_option wk_capacity (map_of (workers demo_leased) (lit ''w'')) = Some 2"
  "list_all (\<lambda>e. ev_type e \<noteq> Lease_expired) (events demo_leased)"
  by code_simp+

lemma demo_done_facts:
  "map_option ls_closed (map_of (closed_leases demo_done) demo_token) = Some True"
  "map_option t_state (task_lookup demo_done (lit ''f'') (lit ''a'')) = Some Succeeded"
  "map_option t_state (task_lookup demo_done (lit ''f'') (lit ''b'')) = Some Ready"
  by code_simp+

lemma demo_steps: "(chaos_step same_text)\<^sup>*\<^sup>* demo_leased demo_done"
proof -
  have "run_requests same_text [Finish demo_token 0 []] demo_leased \<noteq> None
    \<and> snd (perform same_text (Finish demo_token 0 []) demo_leased) = demo_done" by code_simp
  then have "run_requests same_text [Finish demo_token 0 []] demo_leased = Some demo_done"
    by (simp split: if_splits)
  then show ?thesis by (rule run_requests_steps)
qed

section \<open>The state as a whole\<close>



text \<open>C2: No request to a reachable state, as long as its new lease token is fresh, fails with a broken
  internal link: an invalid task transition, a lease whose task is missing, a missing dictionary
  key, or the expiry of a live lease. Whatever it answers, an error included, it never takes back
  what was recorded: the events so far stay a prefix of the events, the clock does not go back, a
  closed token stays closed, and no workflow or task disappears.\<close>

theorem requests_never_fault:
  assumes "reachable digest m" "admissible digest req m" "perform digest req m = (e, s)"
  shows "(\<forall>x. e = Some x \<longrightarrow> x \<noteq> MissingKey \<and> x \<noteq> LeaseMissingTask \<and> x \<noteq> CannotExpireLive
      \<and> (\<forall>a b w t. x \<noteq> InvalidTransition a b w t))
    \<and> (\<exists>es. events s = events m @ es) \<and> now_ms m \<le> now_ms s
    \<and> (\<forall>tok. dget (closed_leases m) tok \<noteq> None \<longrightarrow> dget (closed_leases s) tok \<noteq> None)
    \<and> (\<forall>w t x. task_lookup m w t = Some x \<longrightarrow> (\<exists>y. task_lookup s w t = Some y))"
proof -
  have good: "good m s" and plain: "\<And>x. e = Some x \<Longrightarrow> \<not> fault x"
    using perform_good [OF reachable_inv [OF assms(1)] assms(2,3)] by blast+
  have g: "grows m s" using good by (simp add: good_def)
  have "\<forall>x. e = Some x \<longrightarrow> x \<noteq> MissingKey \<and> x \<noteq> LeaseMissingTask \<and> x \<noteq> CannotExpireLive
      \<and> (\<forall>a b w t. x \<noteq> InvalidTransition a b w t)"
    using plain by (auto simp: fault_def)
  moreover have "\<exists>es. events s = events m @ es" using growsD(2) [OF g] by (auto simp: prefix_def)
  moreover have "\<forall>w t x. task_lookup m w t = Some x \<longrightarrow> (\<exists>y. task_lookup s w t = Some y)"
    using growsD(5) [OF g] by blast
  ultimately show ?thesis using growsD(1) [OF g] growsD(3) [OF g] by blast
qed

theorem requests_never_fault_witness:
  "\<exists>e s es. perform same_text (Begin demo_token) demo_leased = (e, s) \<and> events s = events demo_leased @ es"
proof -
  obtain e s where p: "perform same_text (Begin demo_token) demo_leased = (e, s)" by (rule prod.exhaust)
  have "admissible same_text (Begin demo_token) demo_leased" by simp
  from requests_never_fault [OF demo_reachable(2) this p] p show ?thesis by blast
qed

text \<open>C10: A task is never leased more often than its policy allows, plus once for every expiry of
  one of its leases: the expiry of a lease does not give the attempt back, and nothing else does.\<close>

theorem attempts_bounded:
  assumes "reachable digest m" "task_lookup m w t = Some x"
  shows "0 \<le> t_attempt x \<and> t_attempt x \<le> max_attempts (t_retry x) + int (expiries m w t)"
proof -
  note parts = coreD [OF inv_core [OF reachable_inv [OF assms(1)]]]
  have "budget_ok m w t x" using parts(11) assms(2) by (simp add: budgets_ok_def)
  moreover have "0 \<le> t_attempt x" using parts(3) assms(2) by (simp add: tasks_ok_def task_ok_def)
  ultimately show ?thesis by (auto simp: budget_ok_def split: if_splits)
qed

theorem attempts_bounded_witness:
  "\<exists>x. task_lookup demo_leased (lit ''f'') (lit ''a'') = Some x
    \<and> t_attempt x \<le> max_attempts (t_retry x) + int (expiries demo_leased (lit ''f'') (lit ''a''))"
proof -
  obtain x where "task_lookup demo_leased (lit ''f'') (lit ''a'') = Some x"
    using demo_leased_facts(6) by auto
  with attempts_bounded [OF demo_reachable(2) this] show ?thesis by blast
qed

text \<open>As long as no lease has expired, no busy worker was replaced and the output limit is not
  negative, every check passes.\<close>

theorem no_expiry_no_violation:
  assumes "reachable digest m" "\<forall>e \<in> set (events m). ev_type e \<noteq> Lease_expired"
    "indexed m" "\<not> negative_limit m"
  shows "check_invariants m = None"
proof -
  note i = reachable_inv [OF assms(1)]
  have "t_attempt x \<le> max_attempts (t_retry x)" if "task_lookup m w t = Some x" for w t x
  proof -
    have "expiries m w t = 0" using assms(2) by (simp add: expiries_def filter_empty_conv)
    moreover have "budget_ok m w t x"
      using coreD(11) [OF inv_core [OF i]] that by (simp add: budgets_ok_def)
    ultimately show ?thesis by (simp add: budget_ok_def split: if_splits)
  qed
  then have "\<not> over_budget m"
    unfolding over_budget_iff [OF inv_core [OF i]] by (meson not_less)
  then show ?thesis using check_invariants_verdict [OF i] assms(3,4) by simp
qed

theorem no_expiry_no_violation_witness:
  "check_invariants demo_leased = None \<and> events demo_leased \<noteq> []"
proof -
  have "\<forall>e \<in> set (events demo_leased). ev_type e \<noteq> Lease_expired"
    using demo_leased_facts(10) by (simp add: list_all_iff)
  moreover have "events demo_leased \<noteq> []" by code_simp
  ultimately show ?thesis using no_expiry_no_violation [OF demo_reachable(2)] demo_leased_facts(4,5) by blast
qed

section \<open>Leases\<close>




text \<open>A closed token is refused as stale by every request that carries a token, and the refusal
  changes nothing but the rejection counter.\<close>

theorem closed_token_refused:
  assumes "reachable digest m" "dget (closed_leases m) tok \<noteq> None"
  shows "start tok m = (Inl (Rejected Stale_lease), count_rejection Stale_lease m)
    \<and> renew tok m = (Inl (Rejected Stale_lease), count_rejection Stale_lease m)
    \<and> append_log tok text stream m = (Inl (Rejected Stale_lease), count_rejection Stale_lease m)
    \<and> complete tok code err m = (Inl (Rejected Stale_lease), count_rejection Stale_lease m)
    \<and> stale_complete tok m = (Inl (Rejected Stale_lease), count_rejection Stale_lease m)
    \<and> duplicate_complete tok m = (Inl (Rejected Duplicate_completion), count_rejection Duplicate_completion m)"
proof -
  have none: "dget (leases m) tok = None"
    using coreD(9) [OF inv_core [OF reachable_inv [OF assms(1)]]] assms(2) by (auto simp: closed_ok_def)
  note gone = entry_gone [OF _ none assms(2)]
  show ?thesis
    using gone [OF start_enter] gone [OF renew_enter] gone [OF append_log_enter]
      gone [OF complete_enter] none assms(2)
    by (simp add: stale_complete_def duplicate_complete_def)
qed

theorem closed_token_refused_witness:
  "start demo_token demo_done = (Inl (Rejected Stale_lease), count_rejection Stale_lease demo_done)"
proof -
  have "dget (closed_leases demo_done) demo_token \<noteq> None" using demo_done_facts(1) by auto
  from closed_token_refused [OF demo_reachable(3) this] show ?thesis by blast
qed

text \<open>A token that was closed once stays closed and never becomes active again, whatever
  requests follow.\<close>

theorem closed_stays_closed:
  assumes "reachable digest m" "(chaos_step digest)\<^sup>*\<^sup>* m s" "dget (closed_leases m) tok \<noteq> None"
  shows "dget (closed_leases s) tok \<noteq> None \<and> dget (leases s) tok = None"
proof -
  note i = reachable_inv [OF assms(1)]
  have "dget (closed_leases s) tok \<noteq> None"
    using growsD(3) [OF steps_grow [OF assms(2) i] assms(3)] .
  moreover have "inv s" using chaos_run.run_inv [OF i assms(2)] .
  ultimately show ?thesis using coreD(9) [OF inv_core] by (auto simp: closed_ok_def)
qed

theorem closed_stays_closed_witness:
  "dget (closed_leases demo_done) demo_token \<noteq> None \<and> dget (leases demo_done) demo_token = None"
proof -
  have "dget (closed_leases demo_done) demo_token \<noteq> None" using demo_done_facts(1) by auto
  from closed_stays_closed [OF demo_reachable(3) rtranclp.rtrancl_refl this] show ?thesis .
qed

text \<open>C12: A start, renewal, log or completion that carries the token of a lease whose deadline has
  passed is refused as expired; the lease is closed on the spot and its task goes back to \<open>READY\<close>,
  unowned, with its attempt counted.\<close>

theorem late_request_expires:
  assumes "reachable digest m" "dget (leases m) tok = Some l" "ls_expires_ms l \<le> now_ms m"
  shows "\<exists>s x. complete tok code err m = (Inl (Rejected Lease_is_expired), s)
    \<and> renew tok m = (Inl (Rejected Lease_is_expired), s) \<and> start tok m = (Inl (Rejected Lease_is_expired), s)
    \<and> append_log tok txt stream m = (Inl (Rejected Lease_is_expired), s)
    \<and> dget (leases s) tok = None \<and> dget (closed_leases s) tok \<noteq> None
    \<and> task_lookup s (ls_workflow_id l) (ls_task_id l) = Some x \<and> t_state x = Ready
    \<and> t_lease_token x = [] \<and> t_started_ms x = None
    \<and> Some (t_attempt x) = map_option t_attempt (task_lookup m (ls_workflow_id l) (ls_task_id l))"
proof -
  note i = reachable_inv [OF assms(1)]
  obtain x where x: "task_lookup m (ls_workflow_id l) (ls_task_id l) = Some x" "ls_token l = tok"
    using lease_task [OF inv_core [OF i] assms(2)] by metis
  let ?s = "count_rejection Lease_is_expired (expired tok l m)"
  note due = entry_due [OF _ i assms(2,3)]
  have "task_lookup ?s (ls_workflow_id l) (ls_task_id l) = Some (requeue x)"
    using x by (simp add: expired_def view_simps)
  moreover have "dget (leases ?s) tok = None" "dget (closed_leases ?s) tok \<noteq> None"
    using x(2) by (simp_all add: expired_def view_simps dict_simps)
  moreover have "t_state (requeue x) = Ready" "t_lease_token (requeue x) = []"
    "t_started_ms (requeue x) = None" "t_attempt (requeue x) = t_attempt x"
    by (simp_all add: requeue_def)
  ultimately show ?thesis
    using due [OF start_enter] due [OF renew_enter] due [OF complete_enter] due [OF append_log_enter] x(1)
    by (intro exI [of _ ?s] exI [of _ "requeue x"]) simp
qed

definition demo_late :: model where
  "demo_late = state_after (demo_setup @ [Next_lease (lit ''w''), Advance 20 False])"

theorem late_request_expires_witness:
  "\<exists>s. complete demo_token 0 [] demo_late = (Inl (Rejected Lease_is_expired), s)"
proof -
  have "reachable same_text demo_late" unfolding demo_late_def by (rule state_after_reachable)
  moreover have "map_option ls_expires_ms (dget (leases demo_late) demo_token) = Some 20" "now_ms demo_late = 20"
    by code_simp+
  then obtain l where "dget (leases demo_late) demo_token = Some l" "ls_expires_ms l \<le> now_ms demo_late" by auto
  ultimately show ?thesis using late_request_expires [of same_text demo_late demo_token l 0 "[]"] by blast
qed

end
