(* ===== verification/Chaos_Results.thy ===== *)
theory Chaos_Results
  imports Chaos_Outcome
begin

text \<open>
  The functional properties of the reference model: what each request achieves, the order of the
  schedule, the life of tasks and workflows, and two runs on which the model's own self-check fails.
\<close>

section \<open>Evaluated runs\<close>

lemma demo_view:
  "map_of (leases demo_leased) demo_token = Some \<lparr>ls_token = demo_token, ls_workflow_id = lit ''f'',
     ls_task_id = lit ''a'', ls_worker_id = lit ''w'', ls_attempt = 1, ls_acquired_ms = 0,
     ls_expires_ms = 20, ls_started = False, ls_closed = False\<rparr>"
  "now_ms demo_leased = 0" "lease_duration_ms demo_leased = 20"
  "map_option wf_state (map_of (workflows demo_leased) (lit ''f'')) = Some WRunning"
  "map_option t_state (task_lookup demo_leased (lit ''f'') (lit ''a'')) = Some Leased"
  "map_option t_depends_on (task_lookup demo_done (lit ''f'') (lit ''b'')) = Some [lit ''a'']"
  "map_option t_state (task_lookup demo_done (lit ''f'') (lit ''b'')) = Some Ready"
  by code_simp+

lemma demo_run: "(chaos_step same_text)\<^sup>*\<^sup>* demo_leased demo_done"
proof -
  have "run_requests same_text [Finish demo_token 0 []] demo_leased \<noteq> None
    \<and> snd (perform same_text (Finish demo_token 0 []) demo_leased) = demo_done" by code_simp
  then have "run_requests same_text [Finish demo_token 0 []] demo_leased = Some demo_done"
    by (simp split: if_splits)
  then show ?thesis by (rule run_requests_steps)
qed

section \<open>What is never taken back\<close>

text \<open>The event log only grows: earlier events stay as they are, events are numbered from 1
  without gaps, and their times never decrease.\<close>

theorem event_log_append_only:
  assumes "reachable digest m" "(chaos_step digest)\<^sup>*\<^sup>* m s"
  shows "(\<exists>new. events s = events m @ new)
    \<and> map ev_sequence (events s) = map (\<lambda>i. int i + 1) [0..<length (events s)]
    \<and> sorted (map ev_at_ms (events s)) \<and> (\<forall>e \<in> set (events s). ev_at_ms e \<le> now_ms s)"
proof -
  note i = reachable_inv [OF assms(1)]
  have "prefix (events m) (events s)" using growsD(2) [OF steps_grow [OF assms(2) i]] .
  moreover have "events_ok s"
    using coreD(10) [OF inv_core [OF chaos_run.run_inv [OF i assms(2)]]] .
  ultimately show ?thesis unfolding prefix_def events_ok_def by simp
qed

theorem event_log_append_only_witness:
  "events demo_leased \<noteq> [] \<and> (\<exists>new. events demo_done = events demo_leased @ new)"
proof -
  have "events demo_leased \<noteq> []" by code_simp
  with event_log_append_only [OF demo_reachable(2) demo_run] show ?thesis by blast
qed

text \<open>C11: Terminal means final: once a workflow has succeeded, failed or been cancelled, no further
  request changes its state or its finishing time, and the same holds of the states of tasks.\<close>

theorem terminal_is_final:
  assumes "reachable digest m" "(chaos_step digest)\<^sup>*\<^sup>* m s"
  shows "(dget (workflows m) w = Some f \<and> workflow_terminal (wf_state f) \<longrightarrow>
      (\<exists>f'. dget (workflows s) w = Some f' \<and> wf_state f' = wf_state f \<and> wf_finished_ms f' = wf_finished_ms f))
    \<and> (task_lookup m w t = Some x \<and> task_terminal (t_state x) \<longrightarrow>
      (\<exists>x'. task_lookup s w t = Some x' \<and> t_state x' = t_state x))"
proof -
  note g = steps_grow [OF assms(2) reachable_inv [OF assms(1)]]
  show ?thesis
    using growsD(4) [OF g, of w f] growsD(5) [OF g, of w t x]
    by (auto simp: flow_grows_def task_grows_def)
qed

theorem terminal_is_final_witness:
  "\<exists>x. task_lookup demo_done (lit ''f'') (lit ''a'') = Some x \<and> task_terminal (t_state x)"
proof -
  have "map_option t_state (task_lookup demo_done (lit ''f'') (lit ''a'')) = Some Succeeded" by code_simp
  then obtain x where "task_lookup demo_done (lit ''f'') (lit ''a'') = Some x" "task_terminal (t_state x)"
    by (auto simp: task_terminal_def)
  with terminal_is_final [OF demo_reachable(3) rtranclp.rtrancl_refl, of "lit ''f''" _ "lit ''a''" x]
  show ?thesis by auto
qed

text \<open>A task's history is a path of allowed transitions from \<open>PENDING\<close> to its present state.\<close>

theorem history_is_legal:
  assumes "reachable digest m" "task_lookup m w t = Some x"
  shows "history_ok Pending (t_history x) (t_state x)"
  using core_task_ok [OF inv_core [OF reachable_inv [OF assms(1)]] assms(2)] by (simp add: task_ok_def)

theorem history_is_legal_witness:
  "\<exists>x. task_lookup demo_leased (lit ''f'') (lit ''a'') = Some x \<and> history_ok Pending (t_history x) (t_state x)"
proof -
  obtain x where "task_lookup demo_leased (lit ''f'') (lit ''a'') = Some x" using demo_view(5) by auto
  with history_is_legal [OF demo_reachable(2) this] show ?thesis by blast
qed

text \<open>C6: No task is offered, leased, run, retried or finished before all its dependencies have
  succeeded.\<close>

theorem dependencies_first:
  assumes "reachable digest m" "task_lookup m w t = Some x" "d \<in> set (t_depends_on x)"
    "t_state x \<in> {Ready, Leased, Running, RetryWait, Succeeded, Failed}"
  shows "\<exists>y. task_lookup m w d = Some y \<and> t_state y = Succeeded"
  using coreD(4) [OF inv_core [OF reachable_inv [OF assms(1)]]] assms(2-4)
  unfolding deps_ok_def unlocked_def by blast

theorem dependencies_first_witness:
  "\<exists>y. task_lookup demo_done (lit ''f'') (lit ''a'') = Some y \<and> t_state y = Succeeded"
proof -
  obtain x where "task_lookup demo_done (lit ''f'') (lit ''b'') = Some x" "t_state x = Ready"
    "t_depends_on x = [lit ''a'']" using demo_view(6,7) by auto
  then show ?thesis using dependencies_first [OF demo_reachable(3), of "lit ''f''" "lit ''b''" x "lit ''a''"] by simp
qed

text \<open>C3: A workflow that is not terminal is running and can still make progress: it has a task that
  is ready, or one that holds an active lease with a deadline, or one that waits for a retry with a
  due time. No workflow gets stuck.\<close>

theorem workflow_never_stuck:
  assumes "reachable digest m" "dget (workflows m) w = Some f" "\<not> workflow_terminal (wf_state f)"
  shows "wf_state f = WRunning \<and> (\<exists>t x. task_lookup m w t = Some x \<and>
    (t_state x = Ready
     \<or> t_state x \<in> {Leased, Running} \<and> (\<exists>l. dget (leases m) (t_lease_token x) = Some l
          \<and> ls_task_id l = t \<and> t_lease_until_ms x = Some (ls_expires_ms l))
     \<or> t_state x = RetryWait \<and> t_next_retry_ms x \<noteq> None))"
proof -
  note i = reachable_inv [OF assms(1)]
  have "flow_ok m w f" using i assms(2) by (simp add: inv_def flows_ok_but_def)
  with assms(3) obtain t x where x: "wf_state f = WRunning" "task_lookup m w t = Some x" "busy (t_state x)"
    by (auto simp: flow_ok_def)
  have "\<exists>l. dget (leases m) (t_lease_token x) = Some l \<and> ls_task_id l = t
      \<and> t_lease_until_ms x = Some (ls_expires_ms l)" if act: "active (t_state x)"
  proof -
    obtain l where l: "dget (leases m) (t_lease_token x) = Some l" "ls_workflow_id l = w" "ls_task_id l = t"
      using coreD(6) [OF inv_core [OF i]] x(2) act unfolding holds_lease_def by blast
    then show ?thesis using lease_task [OF inv_core [OF i] l(1)] x(2) by (metis option.inject)
  qed
  moreover have "t_state x = RetryWait \<longrightarrow> t_next_retry_ms x \<noteq> None"
    using core_task_ok [OF inv_core [OF i] x(2)] by (simp add: task_ok_def)
  ultimately show ?thesis using x unfolding busy_def active_def by blast
qed

theorem workflow_never_stuck_witness:
  "\<exists>f. dget (workflows demo_leased) (lit ''f'') = Some f \<and> wf_state f = WRunning
     \<and> (\<exists>t x. task_lookup demo_leased (lit ''f'') t = Some x)"
proof -
  obtain f where f: "dget (workflows demo_leased) (lit ''f'') = Some f" "\<not> workflow_terminal (wf_state f)"
    using demo_view(4) by (auto simp: workflow_terminal_def)
  from workflow_never_stuck [OF demo_reachable(2) f] f(1) show ?thesis by blast
qed

section \<open>What the requests achieve\<close>

text \<open>The sweep never raises. It removes exactly the leases whose deadline has passed and keeps
  every other lease as it is; the clock does not move.\<close>

theorem sweep_removes_due:
  assumes "reachable digest m"
  shows "\<exists>s. sweep m = (Inr (), s) \<and> now_ms s = now_ms m
    \<and> (\<forall>tok. dget (leases s) tok = (case dget (leases m) tok of None \<Rightarrow> None
         | Some l \<Rightarrow> if ls_expires_ms l \<le> now_ms m then None else Some l))"
  using sweep_run [OF reachable_inv [OF assms]] by blast

theorem sweep_removes_due_witness:
  "\<exists>s. sweep demo_leased = (Inr (), s) \<and> dget (leases s) demo_token \<noteq> None"
  using sweep_removes_due [OF demo_reachable(2)] demo_view(1,2) by fastforce

text \<open>C4: The scheduler is fair by age: a granted lease goes to a ready task whose labels the worker
  has, and no other such task comes before it in the order of workflow age, workflow id and
  topological position (for workflows of fewer than 100 million tasks, where the zero-padded index
  of the code sorts as a number). The worker is known, not dropped, within its time to live, and has
  a free slot.\<close>

theorem lease_next_picks_first:
  assumes "reachable digest m" "lease_next digest k m = (Inr (Some l), s)"
    and "\<forall>v f. dget (workflows s) v = Some f \<longrightarrow> length (wf_order f) < 10 ^ 8"
  shows "\<exists>s1 wk x f i. (l, s) = granted digest k (ls_workflow_id l) (ls_task_id l) x s1
    \<and> dget (workers s1) k = Some wk \<and> \<not> wk_dropped wk
    \<and> now_ms m - wk_heartbeat_ms wk \<le> worker_ttl_ms m
    \<and> int (length (wk_active_tokens wk)) < wk_capacity wk
    \<and> task_lookup s1 (ls_workflow_id l) (ls_task_id l) = Some x \<and> t_state x = Ready
    \<and> labels_match (wk_labels wk) (t_labels x)
    \<and> dget (workflows s1) (ls_workflow_id l) = Some f \<and> i < length (wf_order f)
    \<and> wf_order f ! i = ls_task_id l
    \<and> (\<forall>v g j y. dget (workflows s1) v = Some g \<longrightarrow> j < length (wf_order g) \<longrightarrow>
         task_lookup s1 v (wf_order g ! j) = Some y \<longrightarrow> t_state y = Ready \<longrightarrow>
         labels_match (wk_labels wk) (t_labels y) \<longrightarrow>
         wf_created_ms f < wf_created_ms g \<or> wf_created_ms f = wf_created_ms g \<and>
           (ls_workflow_id l < v \<or> ls_workflow_id l = v \<and> i \<le> j))"
proof -
  note inv = reachable_inv [OF assms(1)]
  obtain s1 wk w t x where r: "good m s1" "dget (workers s1) k = Some wk" "\<not> wk_dropped wk"
    "now_ms s1 - wk_heartbeat_ms wk \<le> worker_ttl_ms m"
    "int (length (wk_active_tokens wk)) < wk_capacity wk" "picks (wk_labels wk) s1 w t x"
    "(l, s) = granted digest k w t x s1" "now_ms s1 = now_ms m"
    using lease_next_inv [OF inv assms(2)] by metis
  have ids: "ls_workflow_id l = w" "ls_task_id l = t"
    using r(7) by (simp_all add: granted_def new_lease_def Let_def)
  have small: "length (wf_order f) < 10 ^ 8" if "dget (workflows s1) v = Some f" for v f
  proof -
    have "\<exists>f'. dget (workflows s) v = Some f' \<and> wf_order f' = wf_order f"
      using that r(7) by (auto simp: granted_def Let_def view_simps dict_simps)
    with assms(3) show ?thesis by metis
  qed
  have is1: "inv s1" using r(1) by (simp add: good_def)
  obtain f n where f: "dget (workflows s1) w = Some f" "n < length (wf_order f)" "wf_order f ! n = t"
    using r(6) by (auto simp: picks_def)
  have dist: "distinct (wf_order f)"
    using coreD(2) [OF inv_core [OF is1]] f(1) flow_shapeD(2) by (auto simp: shapes_ok_def)
  have first: "wf_created_ms f < wf_created_ms g \<or> wf_created_ms f = wf_created_ms g \<and>
      (w < v \<or> w = v \<and> n \<le> j)"
    if cand: "dget (workflows s1) v = Some g" "j < length (wf_order g)"
      "task_lookup s1 v (wf_order g ! j) = Some y" "t_state y = Ready"
      "labels_match (wk_labels wk) (t_labels y)" for v g j y
  proof -
    obtain f2 i where p: "dget (workflows s1) w = Some f2" "i < length (wf_order f2)" "wf_order f2 ! i = t"
      "wf_created_ms f2 < wf_created_ms g \<or> wf_created_ms f2 = wf_created_ms g \<and>
        (w < v \<or> w = v \<and> i \<le> j)"
      using picks_least [OF is1 r(6) _ cand] small by metis
    have "f2 = f" using p(1) f(1) by simp
    moreover from this have "i = n" using p(2,3) f(2,3) dist by (metis nth_eq_iff_index_eq)
    ultimately show ?thesis using p(4) by simp
  qed
  show ?thesis unfolding ids
    using r f first by (intro exI [of _ s1] exI [of _ wk] exI [of _ x] exI [of _ f] exI [of _ n])
      (auto simp: picks_def)
qed

theorem lease_next_picks_first_witness:
  "\<exists>l s. lease_next same_text (lit ''w'') demo_ready = (Inr (Some l), s) \<and> ls_task_id l = lit ''a''
     \<and> (\<exists>s1 x. (l, s) = granted same_text (lit ''w'') (lit ''f'') (lit ''a'') x s1 \<and> t_state x = Ready)"
proof -
  let ?r = "lease_next same_text (lit ''w'') demo_ready"
  have "ok_part (fst ?r) = Some (Some \<lparr>ls_token = demo_token, ls_workflow_id = lit ''f'',
     ls_task_id = lit ''a'', ls_worker_id = lit ''w'', ls_attempt = 1, ls_acquired_ms = 0,
     ls_expires_ms = 20, ls_started = False, ls_closed = False\<rparr>)" by code_simp
  then obtain l where l: "?r = (Inr (Some l), snd ?r)" "ls_workflow_id l = lit ''f''" "ls_task_id l = lit ''a''"
    by (auto simp: prod_eq_iff)
  have "list_all (\<lambda>p. length (wf_order (snd p)) < 3) (workflows (snd ?r))" by code_simp
  then have "\<forall>v f. dget (workflows (snd ?r)) v = Some f \<longrightarrow> length (wf_order f) < 10 ^ 8"
    by (fastforce simp: list_all_iff dest: map_of_SomeD)
  from lease_next_picks_first [OF demo_reachable(1) l(1) this] l show ?thesis by auto
qed

text \<open>Renewing a live lease moves its deadline, in the lease and in its task, to a full lease
  duration from now, and changes nothing else about either.\<close>

theorem renew_extends:
  assumes "reachable digest m" "dget (leases m) tok = Some l" "now_ms m < ls_expires_ms l"
    "task_lookup m (ls_workflow_id l) (ls_task_id l) = Some x"
  defines "until \<equiv> now_ms m + lease_duration_ms m"
  shows "\<exists>s. renew tok m = (Inr (l\<lparr>ls_expires_ms := until\<rparr>), s)
    \<and> dget (leases s) tok = Some (l\<lparr>ls_expires_ms := until\<rparr>)
    \<and> task_lookup s (ls_workflow_id l) (ls_task_id l) = Some (x\<lparr>t_lease_until_ms := Some until\<rparr>)
    \<and> events s = events m"
proof -
  obtain f x' k where l: "live m tok l f x' k"
    using live_lease [OF reachable_inv [OF assms(1)] assms(2,3)] .
  then show ?thesis
    using renew_run [OF l] assms(2,4)
    by (simp add: until_def Let_def Chaos_Updates.extend_def view_simps dict_simps live_def)
qed

theorem renew_extends_witness:
  "\<exists>l s. renew demo_token demo_leased = (Inr l, s) \<and> ls_expires_ms l = 20"
proof -
  obtain x where "task_lookup demo_leased (lit ''f'') (lit ''a'') = Some x" using demo_view(5) by auto
  then show ?thesis using renew_extends [OF demo_reachable(2) demo_view(1)] demo_view(2,3) by fastforce
qed

text \<open>C5: Completing a live lease always succeeds. Exit code 0 without an error text makes the task
  succeed; otherwise it waits for a retry while its attempts are below the budget, with the due
  time given by the back-off of its attempt, and fails for good after that. In each case the
  result is recorded, the lease is closed and the task is unowned, and the recomputation of the
  workflow does not undo any of it.\<close>

theorem complete_decides:
  assumes "reachable digest m" "dget (leases m) tok = Some l" "now_ms m < ls_expires_ms l"
    "task_lookup m (ls_workflow_id l) (ls_task_id l) = Some x"
  shows "\<exists>f s y. complete tok code err m = (Inr f, s)
    \<and> task_lookup s (ls_workflow_id l) (ls_task_id l) = Some y
    \<and> dget (leases s) tok = None \<and> dget (closed_leases s) tok \<noteq> None
    \<and> t_lease_token y = [] \<and> t_finished_ms y = Some (now_ms m) \<and> t_exit_code y = Some code
    \<and> t_error y = err \<and> t_attempt y = t_attempt x
    \<and> (if code = 0 \<and> err = [] then t_state y = Succeeded
       else if t_attempt x < max_attempts (normalized (t_retry x))
       then t_state y = RetryWait \<and> t_next_retry_ms y
              = Some (now_ms m + delay_for_attempt (normalized (t_retry x)) (t_attempt x))
       else t_state y = Failed)"
proof -
  note i = reachable_inv [OF assms(1)]
  obtain f x' k where l: "live m tok l f x' k" using live_lease [OF i assms(2,3)] .
  then have x: "x' = x" using assms(4) by (simp add: live_def)
  obtain f' s where s: "complete tok code err m = (Inr f', s)"
    "task_lookup s (ls_workflow_id l) (ls_task_id l) = Some (final_task (now_ms m) code err x)"
    "dget (leases s) tok = None" "dget (closed_leases s) tok \<noteq> None"
    using complete_outcome [OF i l, of code err] x by metis
  have "t_lease_token (final_task (now_ms m) code err x) = []
    \<and> t_finished_ms (final_task (now_ms m) code err x) = Some (now_ms m)
    \<and> t_exit_code (final_task (now_ms m) code err x) = Some code
    \<and> t_error (final_task (now_ms m) code err x) = err
    \<and> t_attempt (final_task (now_ms m) code err x) = t_attempt x"
    by (simp add: final_task_def verdict_def finish_def Let_def)
  with s show ?thesis
    by (auto simp: final_task_def verdict_def finish_def Let_def)
qed

theorem complete_decides_witness:
  "\<exists>f s y. complete demo_token 1 [] demo_leased = (Inr f, s)
     \<and> task_lookup s (lit ''f'') (lit ''a'') = Some y \<and> t_state y = RetryWait \<and> t_next_retry_ms y = Some 100"
proof -
  have "map_option (\<lambda>x. (t_attempt x, t_retry x)) (task_lookup demo_leased (lit ''f'') (lit ''a''))
    = Some (1, \<lparr>max_attempts = 2, base_delay_ms = 100, max_delay_ms = 1000\<rparr>)" by code_simp
  then obtain x where x: "task_lookup demo_leased (lit ''f'') (lit ''a'') = Some x" "t_attempt x = 1"
    "t_retry x = \<lparr>max_attempts = 2, base_delay_ms = 100, max_delay_ms = 1000\<rparr>" by auto
  moreover have "delay_for_attempt (normalized \<lparr>max_attempts = 2, base_delay_ms = 100, max_delay_ms = 1000\<rparr>) 1 = 100"
    "max_attempts (normalized \<lparr>max_attempts = 2, base_delay_ms = 100, max_delay_ms = 1000\<rparr>) = 2"
    by code_simp+
  ultimately show ?thesis
    using complete_decides [OF demo_reachable(2) demo_view(1), of x 1 "[]"] demo_view(2)
    by auto
qed

text \<open>Cancelling a workflow that is not yet terminal always succeeds: the workflow is cancelled
  with every task terminal, and none of its tasks holds a lease any more.\<close>

theorem cancel_ends_everything:
  assumes "reachable digest m" "dget (workflows m) w = Some f" "\<not> workflow_terminal (wf_state f)"
  shows "\<exists>f' s. cancel_workflow w m = (Inr f', s) \<and> wf_state f' = WCancelled
    \<and> dget (workflows s) w = Some f'
    \<and> (\<forall>t x. task_lookup s w t = Some x \<longrightarrow> task_terminal (t_state x) \<and> t_lease_token x = [])
    \<and> (\<forall>tok l. dget (leases s) tok = Some l \<longrightarrow> ls_workflow_id l \<noteq> w)"
proof -
  obtain f' s where s: "cancel_workflow w m = (Inr f', s)" "good m s" "dget (workflows s) w = Some f'"
    "wf_state f' = WCancelled"
    using cancel_run [OF reachable_inv [OF assms(1)] assms(2,3)] by blast
  have i: "inv s" using s(2) by (simp add: good_def)
  have fin: "workflow_terminal (wf_state f')" using s(4) by (simp add: workflow_terminal_def)
  have "t_lease_token x = []" if "task_lookup s w t = Some x" for t x
    using core_task_ok [OF inv_core [OF i] that] cancelled_flow_idle(1) [OF i s(3) fin that]
    by (auto simp: task_ok_def state_defs)
  then show ?thesis
    using s cancelled_flow_idle [OF i s(3) fin] by blast
qed

theorem cancel_ends_everything_witness:
  "\<exists>f s. cancel_workflow (lit ''f'') demo_leased = (Inr f, s) \<and> wf_state f = WCancelled"
proof -
  obtain f where "dget (workflows demo_leased) (lit ''f'') = Some f" "\<not> workflow_terminal (wf_state f)"
    using demo_view(4) by (auto simp: workflow_terminal_def)
  from cancel_ends_everything [OF demo_reachable(2) this] show ?thesis by blast
qed

section \<open>Graphs and delays\<close>

text \<open>C7: \<open>validate_dag\<close> accepts a list of tasks exactly when it is not empty, its ids are distinct,
  every dependency is another task of the list named once, and the dependencies have no cycle.\<close>

theorem validate_dag_decides:
  "(\<exists>order. validate_dag ts = Inr order) \<longleftrightarrow>
     ts \<noteq> [] \<and> distinct (map t_id ts)
     \<and> (\<forall>t \<in> set ts. t_id t \<notin> set (t_depends_on t) \<and> distinct (t_depends_on t)
          \<and> set (t_depends_on t) \<subseteq> t_id ` set ts)
     \<and> graph_acyclic (task_graph ts)"
  using validate_dag_accepts [of ts] unfolding graph_ok_tasks by simp

theorem validate_dag_decides_witness:
  "\<exists>order. validate_dag [demo_task ''b'' [''a''] 1, demo_task ''a'' [] 2] = Inr order"
proof -
  have run: "validate_dag [demo_task ''b'' [''a''] 1, demo_task ''a'' [] 2] = Inr [lit ''a'', lit ''b'']"
    by code_simp
  then have "graph_acyclic (task_graph [demo_task ''b'' [''a''] 1, demo_task ''a'' [] 2])"
    using validate_dag_decides [of "[demo_task ''b'' [''a''] 1, demo_task ''a'' [] 2]"] by blast
  with run show ?thesis by blast
qed

text \<open>C8: The order it returns is the least topological order: at each position stands the least
  task, of those left, whose dependencies all come before it. It lists every task once, after its
  dependencies.\<close>

theorem validate_dag_least_order:
  assumes "validate_dag ts = Inr order"
  shows "order = least_topo (gdeps (task_graph ts)) [] (map t_id ts)
    \<and> distinct order \<and> set order = t_id ` set ts
    \<and> (\<forall>i < length order. \<forall>t \<in> set ts. t_id t = order ! i \<longrightarrow>
         set (t_depends_on t) \<subseteq> set (take i order))"
proof -
  note facts = validate_dag_order [OF assms]
  have "order = topo_order (gdeps (task_graph ts)) (map t_id ts)"
    using assms unfolding validate_dag_Inr by blast
  then have "order = least_topo (gdeps (task_graph ts)) [] (map t_id ts)" by (simp add: topo_order_def)
  moreover have "set (t_depends_on t) \<subseteq> set (take i order)"
    if "i < length order" "t \<in> set ts" "t_id t = order ! i" for i t
    using topo_from_prefix [OF facts(3) that(1)] gdeps_task_graph [of ts t] that facts(4)
    unfolding graph_ok_tasks by simp
  ultimately show ?thesis using facts(1,2) by blast
qed

theorem validate_dag_least_order_witness:
  "[lit ''a'', lit ''b''] = least_topo (gdeps (task_graph [demo_task ''b'' [''a''] 1, demo_task ''a'' [] 2])) []
     [lit ''b'', lit ''a'']"
proof -
  have "validate_dag [demo_task ''b'' [''a''] 1, demo_task ''a'' [] 2] = Inr [lit ''a'', lit ''b'']"
    by code_simp
  from validate_dag_least_order [OF this] show ?thesis by (simp add: demo_task_def)
qed

text \<open>The back-off loop with its early exit computes the capped exponential: the base delay
  doubled once per earlier attempt, but at most the maximum, and always between the two.\<close>

theorem delay_closed_form:
  "delay_for_attempt p a = min (max_delay_ms (normalized p))
     (base_delay_ms (normalized p) * 2 ^ nat (max 0 (a - 1)))
   \<and> 1 \<le> delay_for_attempt p a \<and> delay_for_attempt p a \<le> max_delay_ms (normalized p)
   \<and> delay_for_attempt p a \<le> delay_for_attempt p (a + 1)"
proof -
  let ?q = "normalized p"
  have closed: "delay_for_attempt p b = min (max_delay_ms ?q) (base_delay_ms ?q * 2 ^ nat (max 0 (b - 1)))" for b
    using normalized_bounds [of p]
    by (simp add: delay_for_attempt_def Let_def delay_loop_closed)
  have "(2::int) ^ nat (max 0 (a - 1)) \<le> 2 ^ nat (max 0 (a + 1 - 1))" by (rule power_increasing) auto
  then have "base_delay_ms ?q * 2 ^ nat (max 0 (a - 1)) \<le> base_delay_ms ?q * 2 ^ nat (max 0 (a + 1 - 1))"
    using normalized_bounds(3) [of p] by (intro mult_left_mono) auto
  then show ?thesis using delay_positive [of p a] unfolding closed by auto
qed

section \<open>Where the model contradicts itself\<close>

text \<open>The self-check fails on an ordinary run: a task with a budget of one attempt is leased,
  its lease expires, and the task is leased again. The second grant is the second attempt, and
  \<open>check_invariants\<close> reports \<open>ATTEMPT_BUDGET\<close> on a state reached by four plain requests.\<close>

theorem expired_lease_breaks_budget:
  "\<exists>m. reachable same_text m \<and> check_invariants m = Some ATTEMPT_BUDGET
     \<and> m = state_after [Add (lit ''demo'') [demo_task ''a'' [] 1] (Some (lit ''f'')) [],
         Register (lit ''one'') 1 [] (Some (lit ''w'')), Next_lease (lit ''w''), Advance 20 True,
         Next_lease (lit ''w'')]"
proof -
  have "check_invariants (state_after [Add (lit ''demo'') [demo_task ''a'' [] 1] (Some (lit ''f'')) [],
      Register (lit ''one'') 1 [] (Some (lit ''w'')), Next_lease (lit ''w''), Advance 20 True,
      Next_lease (lit ''w'')]) = Some ATTEMPT_BUDGET" by code_simp
  then show ?thesis using state_after_reachable by blast
qed

text \<open>Registering a dropped worker again forgets its leases: the new worker object has no active
  tokens while the leases are still live, and \<open>check_invariants\<close> reports \<open>LEASE_WORKER_INDEX\<close>.\<close>

theorem reregistration_forgets_leases:
  "\<exists>m e s. reachable same_text m
     \<and> perform same_text (Register (lit ''two'') 1 [] (Some (lit ''w''))) m = (e, s)
     \<and> e = None \<and> check_invariants m = None \<and> check_invariants s = Some LEASE_WORKER_INDEX
     \<and> m = state_after (demo_setup @ [Next_lease (lit ''w''), Drop (lit ''w'')])"
proof -
  let ?m = "state_after (demo_setup @ [Next_lease (lit ''w''), Drop (lit ''w'')])"
  let ?r = "perform same_text (Register (lit ''two'') 1 [] (Some (lit ''w''))) ?m"
  have "fst ?r = None" "check_invariants ?m = None" "check_invariants (snd ?r) = Some LEASE_WORKER_INDEX"
    by code_simp+
  then show ?thesis
    using state_after_reachable by (metis prod.collapse)
qed

end
