(* ===== verification/Py_Text.thy ===== *)
theory Py_Text
  imports Prelude
begin

text \<open>
  Python's text functions as the workflow DSL and the client library use them: character classes,
  \<open>str.strip\<close>, and the JSON string literals of \<open>json.dumps\<close>.
\<close>

definition upper :: "int \<Rightarrow> bool" where "upper c \<longleftrightarrow> 65 \<le> c \<and> c \<le> 90"
definition lower :: "int \<Rightarrow> bool" where "lower c \<longleftrightarrow> 97 \<le> c \<and> c \<le> 122"
definition alpha :: "int \<Rightarrow> bool" where "alpha c \<longleftrightarrow> upper c \<or> lower c"

text \<open>The characters that \<open>str.strip()\<close> removes.\<close>

definition py_space :: "int \<Rightarrow> bool" where
  "py_space c \<longleftrightarrow> 9 \<le> c \<and> c \<le> 13 \<or> 28 \<le> c \<and> c \<le> 32 \<or> c = 133 \<or> c = 160 \<or> c = 5760
     \<or> 8192 \<le> c \<and> c \<le> 8202 \<or> c = 8232 \<or> c = 8233 \<or> c = 8239 \<or> c = 8287 \<or> c = 12288"

definition strip :: "pystr \<Rightarrow> pystr" where
  "strip s = rev (dropWhile py_space (rev (dropWhile py_space s)))"

lemma strip_Nil [simp]: "strip [] = []"
  by (simp add: strip_def)

lemma strip_empty_iff: "strip s = [] \<longleftrightarrow> (\<forall>c \<in> set s. py_space c)"
  by (auto simp: strip_def dropWhile_eq_Nil_conv dest: set_dropWhileD)
    (metis dropWhile_eq_Nil_conv rev_is_Nil_conv set_dropWhileD set_rev dropWhile_eq_self_iff hd_in_set hd_dropWhile)

section \<open>JSON values\<close>

text \<open>
  JSON values as Python's \<open>json\<close> module gives them: objects are dictionaries in the order of the text.
  A number that is not an integer is kept as its text.
\<close>

datatype json =
  JNull | JBool bool | JInt int | JFloat pystr | JStr pystr | JList "json list" | JDict "(pystr \<times> json) list"

end
