(* ===== verification/Sdk_Builder.thy ===== *)
theory Sdk_Builder
  imports Py_Text Dag
begin

text \<open>
  The Python client library (\<open>sdk/python/src/helixgrid/client.py\<close>): retry policies, tasks, workflow
  definitions with their JSON payloads, and the fluent \<open>WorkflowBuilder\<close>, whose methods are
  state-and-exception computations on the builder.
\<close>

section \<open>Data\<close>

record sdk_retry =
  rp_max_attempts :: int
  rp_base_delay_ms :: int
  rp_max_delay_ms :: int

definition sdk_default_retry :: sdk_retry where
  "sdk_default_retry = \<lparr>rp_max_attempts = 1, rp_base_delay_ms = 250, rp_max_delay_ms = 30000\<rparr>"

datatype client_error =
  Attempts_out_of_range | Base_delay_out_of_range | Max_delay_out_of_range | Max_below_base
  | Empty_workflow_name | Task_id_taken pystr | Empty_task_id | Invalid_task_id pystr
  | Empty_command | Too_many_arguments | Timeout_out_of_range
  | No_such_task pystr | No_such_dependency pystr | Depends_on_itself
  | No_tasks | Cyclic_graph | Missing_dict_key pystr

record sdk_task =
  st_id :: pystr
  st_command :: "pystr list"
  st_depends_on :: "pystr list"
  st_env :: "(pystr, pystr) dict"
  st_timeout_seconds :: int
  st_retry :: sdk_retry
  st_labels :: "(pystr, pystr) dict"

record workflow_definition =
  wd_name :: pystr
  wd_tasks :: "sdk_task list"
  wd_metadata :: "(pystr, pystr) dict"

text \<open>\<open>RetryPolicy.validate\<close>: the checks in the order of the code.\<close>

definition retry_validate :: "sdk_retry \<Rightarrow> client_error + unit" where
  "retry_validate p =
     (if \<not> (1 \<le> rp_max_attempts p \<and> rp_max_attempts p \<le> 100) then Inl Attempts_out_of_range
      else if \<not> (1 \<le> rp_base_delay_ms p \<and> rp_base_delay_ms p \<le> 3600000)
        then Inl Base_delay_out_of_range
      else if \<not> (1 \<le> rp_max_delay_ms p \<and> rp_max_delay_ms p \<le> 86400000)
        then Inl Max_delay_out_of_range
      else if rp_max_delay_ms p < rp_base_delay_ms p then Inl Max_below_base
      else Inr ())"

section \<open>Payloads\<close>

text \<open>The \<open>Dict[str, Any]\<close> values the \<open>as_dict\<close> methods build.\<close>

datatype payload =
  PText pystr | PInt int | PList "payload list" | PDict "(pystr \<times> payload) list"

definition text_dict :: "(pystr, pystr) dict \<Rightarrow> payload" where
  "text_dict d = PDict (map (\<lambda>(k, v). (k, PText v)) d)"

definition retry_as_dict :: "sdk_retry \<Rightarrow> client_error + payload" where
  "retry_as_dict p =
     (case retry_validate p of
        Inl e \<Rightarrow> Inl e
      | Inr _ \<Rightarrow> Inr (PDict [(lit ''max_attempts'', PInt (rp_max_attempts p)),
          (lit ''base_delay_ms'', PInt (rp_base_delay_ms p)),
          (lit ''max_delay_ms'', PInt (rp_max_delay_ms p))]))"

definition task_as_dict :: "sdk_task \<Rightarrow> client_error + payload" where
  "task_as_dict t =
     (case retry_as_dict (st_retry t) of
        Inl e \<Rightarrow> Inl e
      | Inr retry \<Rightarrow> Inr (PDict (
          [(lit ''id'', PText (st_id t)), (lit ''command'', PList (map PText (st_command t))),
           (lit ''retry'', retry)]
          @ (if st_depends_on t \<noteq> []
             then [(lit ''depends_on'', PList (map PText (st_depends_on t)))] else [])
          @ (if st_env t \<noteq> [] then [(lit ''env'', text_dict (st_env t))] else [])
          @ (if st_timeout_seconds t \<noteq> 0
             then [(lit ''timeout_seconds'', PInt (st_timeout_seconds t))] else [])
          @ (if st_labels t \<noteq> [] then [(lit ''labels'', text_dict (st_labels t))] else []))))"

fun all_results :: "('e + 'a) list \<Rightarrow> 'e + 'a list" where
  "all_results [] = Inr []"
| "all_results (Inl e # rs) = Inl e"
| "all_results (Inr x # rs) =
     (case all_results rs of Inl e \<Rightarrow> Inl e | Inr xs \<Rightarrow> Inr (x # xs))"

definition workflow_as_dict :: "workflow_definition \<Rightarrow> client_error + payload" where
  "workflow_as_dict w =
     (case all_results (map task_as_dict (wd_tasks w)) of
        Inl e \<Rightarrow> Inl e
      | Inr tasks \<Rightarrow> Inr (PDict ([(lit ''name'', PText (wd_name w)), (lit ''tasks'', PList tasks)]
          @ (if wd_metadata w \<noteq> [] then [(lit ''metadata'', text_dict (wd_metadata w))] else []))))"

section \<open>The builder\<close>

record builder =
  wb_name :: pystr
  wb_metadata :: "(pystr, pystr) dict"
  wb_tasks :: "(pystr, sdk_task) dict"

type_synonym 'a build = "(builder, client_error, 'a) proc"

definition new_builder :: "pystr \<Rightarrow> client_error + builder" where
  "new_builder name =
     (if strip name = [] then Inl Empty_workflow_name
      else Inr \<lparr>wb_name = name, wb_metadata = [], wb_tasks = []\<rparr>)"

definition add_metadata :: "(pystr, pystr) dict \<Rightarrow> unit build" where
  "add_metadata vals = modify (\<lambda>b. b\<lparr>wb_metadata := fold (\<lambda>(k, v). dput k v) vals (wb_metadata b)\<rparr>)"

text \<open>\<open>_TASK_ID_RE\<close>, matched against the whole id.\<close>

definition id_char :: "int \<Rightarrow> bool" where
  "id_char c \<longleftrightarrow> alpha c \<or> digit c \<or> c \<in> set (lit ''._:-'')"

definition task_id_matches :: "pystr \<Rightarrow> bool" where
  "task_id_matches s = (case s of [] \<Rightarrow> False | c # cs \<Rightarrow> (alpha c \<or> digit c) \<and> list_all id_char cs)"

definition add_task ::
  "pystr \<Rightarrow> pystr list \<Rightarrow> (pystr, pystr) dict \<Rightarrow> int \<Rightarrow> sdk_retry option \<Rightarrow> (pystr, pystr) dict
   \<Rightarrow> unit build" where
  "add_task tid command env timeout retry labels =
     chain (reads wb_tasks) (\<lambda>tasks.
       if dget tasks tid \<noteq> None then raise (Task_id_taken tid)
       else if strip tid = [] then raise Empty_task_id
       else if 200 < length tid \<or> \<not> task_id_matches tid then raise (Invalid_task_id tid)
       else if command = [] \<or> strip (hd command) = [] then raise Empty_command
       else if 4096 < length command then raise Too_many_arguments
       else if timeout < 0 \<or> 86400 < timeout then raise Timeout_out_of_range
       else
         let selected = (case retry of None \<Rightarrow> sdk_default_retry | Some r \<Rightarrow> r) in
         case retry_validate selected of
           Inl e \<Rightarrow> raise e
         | Inr _ \<Rightarrow> modify (\<lambda>b. b\<lparr>wb_tasks := dput tid
             \<lparr>st_id = tid, st_command = command, st_depends_on = [], st_env = env,
              st_timeout_seconds = timeout, st_retry = selected, st_labels = labels\<rparr> (wb_tasks b)\<rparr>))"

text \<open>One turn of the loop in \<open>depends_on\<close>; what earlier turns appended stays when one raises.\<close>

definition add_dependency :: "pystr \<Rightarrow> pystr \<Rightarrow> unit build" where
  "add_dependency tid dep =
     chain (reads wb_tasks) (\<lambda>tasks.
       if dget tasks dep = None then raise (No_such_dependency dep)
       else if dep = tid then raise Depends_on_itself
       else modify (\<lambda>b. b\<lparr>wb_tasks := dmod tid (\<lambda>t.
              if dep \<in> set (st_depends_on t) then t
              else t\<lparr>st_depends_on := st_depends_on t @ [dep]\<rparr>) (wb_tasks b)\<rparr>))"

definition builder_depends_on :: "pystr \<Rightarrow> pystr list \<Rightarrow> unit build" where
  "builder_depends_on tid deps =
     chain (reads wb_tasks) (\<lambda>tasks.
       if dget tasks tid = None then raise (No_such_task tid)
       else for_each deps (add_dependency tid))"

text \<open>\<open>_topological_order\<close>: \<open>children\<close> is a plain dictionary with a key per task.\<close>

fun link_deps ::
  "pystr \<Rightarrow> pystr list \<Rightarrow> (pystr, int) dict \<times> (pystr, pystr list) dict
   \<Rightarrow> client_error + (pystr, int) dict \<times> (pystr, pystr list) dict" where
  "link_deps t [] s = Inr s"
| "link_deps t (d # ds) (indeg, ch) =
     (if dget indeg t = None then Inl (Missing_dict_key t)
      else if dget ch d = None then Inl (Missing_dict_key d)
      else link_deps t ds (dmod t (\<lambda>n. n + 1) indeg, dmod d (\<lambda>vs. vs @ [t]) ch))"

fun link_tasks ::
  "sdk_task list \<Rightarrow> (pystr, int) dict \<times> (pystr, pystr list) dict
   \<Rightarrow> client_error + (pystr, int) dict \<times> (pystr, pystr list) dict" where
  "link_tasks [] s = Inr s"
| "link_tasks (t # ts) s =
     (case link_deps (st_id t) (st_depends_on t) s of
        Inl e \<Rightarrow> Inl e
      | Inr s' \<Rightarrow> link_tasks ts s')"

definition builder_order :: "(pystr, sdk_task) dict \<Rightarrow> client_error + pystr list" where
  "builder_order tasks =
     (case link_tasks (dvals tasks)
             (map (\<lambda>k. (k, 0)) (dkeys tasks), map (\<lambda>k. (k, [])) (dkeys tasks)) of
        Inl e \<Rightarrow> Inl e
      | Inr (indeg, ch) \<Rightarrow>
          Inr (kahn_loop (\<lambda>c. sort (dlist ch c)) indeg
            (sort (map fst (filter (\<lambda>(k, n). n = 0) indeg))) []))"

definition validate_acyclic :: "(pystr, sdk_task) dict \<Rightarrow> client_error + unit" where
  "validate_acyclic tasks =
     (case builder_order tasks of
        Inl e \<Rightarrow> Inl e
      | Inr order \<Rightarrow> if length order \<noteq> length tasks then Inl Cyclic_graph else Inr ())"

definition build :: "builder \<Rightarrow> client_error + workflow_definition" where
  "build b =
     (if wb_tasks b = [] then Inl No_tasks
      else case validate_acyclic (wb_tasks b) of
        Inl e \<Rightarrow> Inl e
      | Inr _ \<Rightarrow>
         (case builder_order (wb_tasks b) of
            Inl e \<Rightarrow> Inl e
          | Inr order \<Rightarrow>
             (case those (map (dget (wb_tasks b)) order) of
                None \<Rightarrow> Inl (Missing_dict_key [])
              | Some ts \<Rightarrow> Inr \<lparr>wd_name = wb_name b, wd_tasks = ts, wd_metadata = wb_metadata b\<rparr>)))"

end
