(* ===== verification/Sdk_Facts.thy ===== *)
theory Sdk_Facts
  imports Sdk_Builder
begin

text \<open>
  What every sequence of builder calls keeps, the graph behind a builder, and what \<open>build\<close> returns.
\<close>

section \<open>Retry policies and payloads\<close>

lemma retry_validate_Inr:
  "retry_validate p = Inr u \<longleftrightarrow> 1 \<le> rp_max_attempts p \<and> rp_max_attempts p \<le> 100
     \<and> 1 \<le> rp_base_delay_ms p \<and> rp_base_delay_ms p \<le> 3600000
     \<and> rp_base_delay_ms p \<le> rp_max_delay_ms p \<and> rp_max_delay_ms p \<le> 86400000"
  by (auto simp: retry_validate_def)

lemma all_results_Inr:
  "(\<exists>xs. all_results rs = Inr xs) \<longleftrightarrow> (\<forall>r \<in> set rs. \<exists>x. r = Inr x)"
  by (induction rs rule: all_results.induct) (auto split: sum.splits)

lemma task_as_dict_Inr:
  "(\<exists>d. task_as_dict t = Inr d) \<longleftrightarrow> retry_validate (st_retry t) = Inr ()"
  by (auto simp: task_as_dict_def retry_as_dict_def split: sum.splits)

lemma workflow_as_dict_Inr:
  "(\<exists>d. workflow_as_dict w = Inr d)
     \<longleftrightarrow> (\<forall>t \<in> set (wd_tasks w). retry_validate (st_retry t) = Inr ())"
  using all_results_Inr [of "map task_as_dict (wd_tasks w)"]
  by (auto simp: workflow_as_dict_def task_as_dict_Inr split: sum.splits)

section \<open>The invariant of a builder\<close>

definition sdk_task_ok :: "pystr list \<Rightarrow> pystr \<Rightarrow> sdk_task \<Rightarrow> bool" where
  "sdk_task_ok ids k t \<longleftrightarrow> st_id t = k \<and> task_id_matches k \<and> length k \<le> 200
     \<and> st_command t \<noteq> [] \<and> strip (hd (st_command t)) \<noteq> [] \<and> length (st_command t) \<le> 4096
     \<and> 0 \<le> st_timeout_seconds t \<and> st_timeout_seconds t \<le> 86400
     \<and> retry_validate (st_retry t) = Inr ()
     \<and> k \<notin> set (st_depends_on t) \<and> distinct (st_depends_on t) \<and> set (st_depends_on t) \<subseteq> set ids"

definition builder_ok :: "builder \<Rightarrow> bool" where
  "builder_ok b \<longleftrightarrow> strip (wb_name b) \<noteq> [] \<and> dwf (wb_tasks b)
     \<and> (\<forall>k t. dget (wb_tasks b) k = Some t \<longrightarrow> sdk_task_ok (dkeys (wb_tasks b)) k t)"

datatype builder_call =
  Set_metadata "(pystr, pystr) dict"
  | Add_task pystr "pystr list" "(pystr, pystr) dict" int "sdk_retry option" "(pystr, pystr) dict"
  | Depends_on pystr "pystr list"

fun run_call :: "builder_call \<Rightarrow> unit build" where
  "run_call (Set_metadata vals) = add_metadata vals"
| "run_call (Add_task tid cmd env timeout retry labels) = add_task tid cmd env timeout retry labels"
| "run_call (Depends_on tid deps) = builder_depends_on tid deps"

text \<open>A step is one call, whether it returns or raises.\<close>

inductive builder_step :: "builder \<Rightarrow> builder \<Rightarrow> bool" where
  call: "run_call c b = (r, b') \<Longrightarrow> builder_step b b'"

inductive_cases builder_stepE: "builder_step b b'"

definition fresh_builder :: "builder \<Rightarrow> bool" where
  "fresh_builder b \<longleftrightarrow> (\<exists>name. new_builder name = Inr b)"

lemma sdk_task_ok_grow: "sdk_task_ok ids k t \<Longrightarrow> set ids \<subseteq> set ids' \<Longrightarrow> sdk_task_ok ids' k t"
  by (auto simp: sdk_task_ok_def)

lemma add_metadata_keeps: "builder_ok b \<Longrightarrow> builder_ok (snd (add_metadata vals b))"
  by (simp add: builder_ok_def add_metadata_def proc_simps)

lemma add_task_keeps:
  assumes "builder_ok b"
  shows "builder_ok (snd (add_task tid cmd env timeout retry labels b))"
proof -
  let ?r = "case retry of None \<Rightarrow> sdk_default_retry | Some r \<Rightarrow> r"
  let ?t = "\<lparr>st_id = tid, st_command = cmd, st_depends_on = [], st_env = env,
    st_timeout_seconds = timeout, st_retry = ?r, st_labels = labels\<rparr>"
  let ?b = "b\<lparr>wb_tasks := dput tid ?t (wb_tasks b)\<rparr>"
  have "builder_ok ?b"
    if "task_id_matches tid" "length tid \<le> 200" "cmd \<noteq> []" "strip (hd cmd) \<noteq> []" "length cmd \<le> 4096"
      "0 \<le> timeout" "timeout \<le> 86400" "retry_validate ?r = Inr ()"
    using that assms
    by (auto simp: builder_ok_def dict_simps sdk_task_ok_def subset_iff split: if_splits)
  with assms show ?thesis
    by (auto simp: add_task_def proc_simps Let_def split: sum.splits)
qed

lemma add_dependency_keeps:
  assumes "builder_ok b" "dget (wb_tasks b) tid \<noteq> None"
  shows "builder_ok (snd (add_dependency tid dep b))
    \<and> dget (wb_tasks (snd (add_dependency tid dep b))) tid \<noteq> None"
proof -
  let ?add = "\<lambda>t. if dep \<in> set (st_depends_on t) then t
    else t\<lparr>st_depends_on := st_depends_on t @ [dep]\<rparr>"
  let ?b = "b\<lparr>wb_tasks := dmod tid ?add (wb_tasks b)\<rparr>"
  have "builder_ok ?b" if "dep \<noteq> tid" "dget (wb_tasks b) dep \<noteq> None"
  proof -
    have "sdk_task_ok (dkeys (wb_tasks b)) tid (?add t)" if t: "dget (wb_tasks b) tid = Some t" for t
    proof -
      have "sdk_task_ok (dkeys (wb_tasks b)) tid t" using assms(1) t by (simp add: builder_ok_def)
      moreover have "dep \<in> set (dkeys (wb_tasks b))"
        using \<open>dget (wb_tasks b) dep \<noteq> None\<close> by (simp add: dget_dkeys)
      ultimately show ?thesis using \<open>dep \<noteq> tid\<close> by (simp add: sdk_task_ok_def)
    qed
    then show ?thesis
      using assms(1) by (auto simp: builder_ok_def dict_simps simp del: if_split_asm split: if_split)
  qed
  with assms show ?thesis
    by (auto simp: add_dependency_def proc_simps dict_simps)
qed

lemma depends_on_keeps:
  assumes "builder_ok b" "dget (wb_tasks b) tid \<noteq> None"
  shows "builder_ok (snd (for_each deps (add_dependency tid) b))"
  using assms
proof (induction deps arbitrary: b)
  case (Cons d ds)
  obtain r s where run: "add_dependency tid d b = (r, s)" by fastforce
  note next_ok = add_dependency_keeps [OF Cons.prems, of d, unfolded run, simplified]
  with Cons.IH [of s] run show ?case by (cases r) (auto simp: proc_simps)
qed (simp add: proc_simps)

interpretation builder_run: state_machine fresh_builder builder_step builder_ok
proof
  show "builder_ok b" if "fresh_builder b" for b
    using that by (auto simp: fresh_builder_def new_builder_def builder_ok_def split: if_splits)
  show "builder_ok b'" if "builder_ok b" "builder_step b b'" for b b'
    using that(2)
  proof (rule builder_stepE)
    fix c r assume run: "run_call c b = (r, b')"
    have "builder_ok (snd (run_call c b))"
    proof (cases c)
      case (Depends_on tid deps)
      then show ?thesis
        using depends_on_keeps [OF that(1), of tid deps] that(1)
        by (simp add: builder_depends_on_def proc_simps)
    qed (use that(1) add_metadata_keeps add_task_keeps in auto)
    with run show ?thesis by simp
  qed
qed

section \<open>The order of a builder's tasks\<close>

definition builder_graph :: "(pystr, sdk_task) dict \<Rightarrow> pystr graph" where
  "builder_graph tasks = map (\<lambda>(k, t). (k, st_depends_on t)) tasks"

lemma dkeys_builder_graph [simp]: "dkeys (builder_graph tasks) = dkeys tasks"
  by (induction tasks) (auto simp: builder_graph_def)

lemma length_builder_graph [simp]: "length (builder_graph tasks) = length tasks"
  by (simp add: builder_graph_def)

lemma dput_present: "dget d k = Some v \<Longrightarrow> dput k (f v) d = dmod k f d"
  by (induction d) (auto simp: dput_def dmod_def split: if_splits)

lemma dput_absent: "k \<notin> set (dkeys d) \<Longrightarrow> dput k v d = d @ [(k, v)]"
  by (induction d) (auto simp: dput_def)

lemma link_deps_run:
  "dget indeg t \<noteq> None \<Longrightarrow> (\<forall>d \<in> set ds. dget ch d \<noteq> None) \<Longrightarrow>
     link_deps t ds (indeg, ch) = Inr (add_edges t ds (indeg, ch))"
proof (induction ds arbitrary: indeg ch)
  case (Cons d ds)
  then obtain vs where d: "dget ch d = Some vs" by auto
  then have "dappend d t ch = dmod d (\<lambda>vs. vs @ [t]) ch"
    by (simp add: dappend_def dlist_def dput_present [of ch d vs "\<lambda>vs. vs @ [t]"])
  with Cons d show ?case by (auto simp: dict_simps)
qed simp

lemma add_edges_keys:
  "dget ch k \<noteq> None \<Longrightarrow> dget (snd (add_edges t ds (indeg, ch))) k \<noteq> None"
proof (induction ds arbitrary: indeg ch)
  case (Cons d ds)
  have "dget (dappend d t ch) k \<noteq> None" using Cons.prems by (simp add: dappend_def dict_simps)
  from Cons.IH [OF this] show ?case by simp
qed simp

lemma link_tasks_run:
  assumes "\<forall>(k, t) \<in> set tasks. st_id t = k \<and> dget indeg k \<noteq> None
      \<and> (\<forall>d \<in> set (st_depends_on t). dget ch d \<noteq> None)"
  shows "link_tasks (map snd tasks) (indeg, ch) = Inr (add_graph (builder_graph tasks) (indeg, ch))"
  using assms
proof (induction tasks arbitrary: indeg ch)
  case (Cons e tasks)
  obtain k t where e: "e = (k, t)" by fastforce
  obtain indeg1 ch1 where one: "add_edges k (st_depends_on t) (indeg, ch) = (indeg1, ch1)" by fastforce
  have first: "link_deps (st_id t) (st_depends_on t) (indeg, ch) = Inr (indeg1, ch1)"
    using Cons.prems e one by (simp add: link_deps_run)
  have "dget indeg1 j \<noteq> None" if "dget indeg j \<noteq> None" for j
    using that add_edges_spec [OF one, of j] by (auto split: if_splits)
  moreover have "dget ch1 d \<noteq> None" if "dget ch d \<noteq> None" for d
    using add_edges_keys [OF that, of k "st_depends_on t" indeg] one by simp
  ultimately have "\<forall>(k, t) \<in> set tasks. st_id t = k \<and> dget indeg1 k \<noteq> None
      \<and> (\<forall>d \<in> set (st_depends_on t). dget ch1 d \<noteq> None)"
    using Cons.prems by fastforce
  from Cons.IH [OF this] show ?case using e one first by (simp add: builder_graph_def)
qed (simp add: builder_graph_def)

lemma fold_zero_keys:
  "distinct (dkeys d @ dkeys g) \<Longrightarrow>
     fold (\<lambda>(t, _) d. dput t (0::int) d) g d = d @ map (\<lambda>k. (k, 0)) (dkeys g)"
proof (induction g arbitrary: d)
  case (Cons e g)
  then show ?case by (cases e) (auto simp: dput_absent dkeys_def)
qed simp

lemma zero_degrees_keys: "dwf g \<Longrightarrow> zero_degrees g = map (\<lambda>k. (k, 0)) (dkeys g)"
  using fold_zero_keys [of "[]" g] by (simp add: zero_degrees_def dwf_def)

lemma dget_const: "dget (map (\<lambda>k. (k, c)) ks) k = (if k \<in> set ks then Some c else None)"
  by (induction ks) auto

definition tasks_linked :: "(pystr, sdk_task) dict \<Rightarrow> bool" where
  "tasks_linked tasks \<longleftrightarrow> dwf tasks
     \<and> (\<forall>(k, t) \<in> set tasks. st_id t = k \<and> set (st_depends_on t) \<subseteq> set (dkeys tasks))"

lemma builder_order_run:
  assumes "tasks_linked tasks"
  shows "builder_order tasks = Inr (topo_order (gdeps (builder_graph tasks)) (dkeys tasks))"
proof -
  let ?g = "builder_graph tasks"
  let ?zero = "map (\<lambda>k. (k, 0::int)) (dkeys tasks)"
  let ?none = "map (\<lambda>k. (k, [])) (dkeys tasks)"
  note lk = assms [unfolded tasks_linked_def]
  have wf: "dwf ?g" using lk by (simp add: dwf_def)
  obtain indeg ch where built: "add_graph ?g (?zero, ?none) = (indeg, ch)" by fastforce
  have "\<forall>(k, t) \<in> set tasks. st_id t = k \<and> dget ?zero k \<noteq> None
      \<and> (\<forall>d \<in> set (st_depends_on t). dget ?none d \<noteq> None)"
  proof (clarify, intro conjI ballI)
    fix k t assume mem: "(k, t) \<in> set tasks"
    then have "k \<in> set (dkeys tasks)" by (force simp: dkeys_def)
    then show "st_id t = k" "dget ?zero k \<noteq> None" using lk mem by (auto simp: dget_const)
    show "dget ?none d \<noteq> None" if "d \<in> set (st_depends_on t)" for d
      using lk mem that by (auto simp: dget_const)
  qed
  from link_tasks_run [OF this]
  have run: "link_tasks (dvals tasks) (?zero, ?none) = Inr (indeg, ch)"
    by (simp add: dvals_def built)
  have deps: "set (gdeps ?g v) \<subseteq> set (dkeys ?g)" if "v \<in> set (dkeys ?g)" for v
  proof -
    from that obtain t where t: "(v, t) \<in> set tasks"
      unfolding dkeys_builder_graph by (auto simp: dkeys_def)
    then have "(v, st_depends_on t) \<in> set ?g" by (force simp: builder_graph_def)
    with wf t lk show ?thesis by (auto simp: gdeps_mem)
  qed
  have "kahn_loop (\<lambda>c. sort (dlist ch c)) indeg (sort (map fst (filter (\<lambda>(k, n). n = 0) indeg))) []
    = topo_order (gdeps ?g) (dkeys ?g)"
  proof (rule kahn_graph_from [OF wf deps])
    show "dlist ?none c = []" for c by (simp add: dlist_def dget_const)
    show "add_graph ?g (zero_degrees ?g, ?none) = (indeg, ch)"
      by (simp add: built zero_degrees_keys wf)
  qed simp_all
  then show ?thesis by (simp add: builder_order_def run)
qed

text \<open>The builder provides the contract of a topological sorter.\<close>

definition plain_task :: "pystr \<times> pystr list \<Rightarrow> pystr \<times> sdk_task" where
  "plain_task e = (fst e, \<lparr>st_id = fst e, st_command = [fst e], st_depends_on = snd e, st_env = [],
     st_timeout_seconds = 0, st_retry = sdk_default_retry, st_labels = []\<rparr>)"

definition builder_sorter :: "pystr graph \<Rightarrow> pystr list option" where
  "builder_sorter g =
     (let tasks = map plain_task g in
      case validate_acyclic tasks of Inl _ \<Rightarrow> None | Inr _ \<Rightarrow> ok_part (builder_order tasks))"

lemma plain_tasks [simp]: "builder_graph (map plain_task g) = g" "dkeys (map plain_task g) = dkeys g"
  by (induction g) (auto simp: builder_graph_def plain_task_def dkeys_def)

interpretation sdk: topo_sorter builder_sorter
proof
  fix g :: "pystr graph"
  assume "graph_ok g"
  then have "tasks_linked (map plain_task g)"
    by (fastforce simp: tasks_linked_def graph_ok_def dwf_def plain_task_def)
  from builder_order_run [OF this]
  show "builder_sorter g = (if length (topo_order (gdeps g) (dkeys g)) = length g
      then Some (topo_order (gdeps g) (dkeys g)) else None)"
    by (simp add: builder_sorter_def validate_acyclic_def Let_def)
qed

section \<open>What \<open>build\<close> returns\<close>

lemma builder_ok_graph:
  assumes "builder_ok b" "wb_tasks b \<noteq> []"
  shows "graph_ok (builder_graph (wb_tasks b))" "tasks_linked (wb_tasks b)"
proof -
  have wf: "dwf (wb_tasks b)" using assms(1) by (simp add: builder_ok_def)
  have each: "sdk_task_ok (dkeys (wb_tasks b)) k t" if "(k, t) \<in> set (wb_tasks b)" for k t
    using that assms(1) by (simp add: builder_ok_def dget_iff_mem [OF wf])
  then show "tasks_linked (wb_tasks b)" using wf by (auto simp: tasks_linked_def sdk_task_ok_def)
  show "graph_ok (builder_graph (wb_tasks b))"
    unfolding graph_ok_def
  proof (intro conjI ballI)
    show "builder_graph (wb_tasks b) \<noteq> []" using assms(2) by (simp add: builder_graph_def)
    show "dwf (builder_graph (wb_tasks b))" using wf by (simp add: dwf_def)
    fix e assume "e \<in> set (builder_graph (wb_tasks b))"
    then obtain k t where "e = (k, st_depends_on t)" "(k, t) \<in> set (wb_tasks b)"
      by (auto simp: builder_graph_def)
    with each show "case e of (v, ds) \<Rightarrow> v \<notin> set ds \<and> distinct ds
        \<and> set ds \<subseteq> set (dkeys (builder_graph (wb_tasks b)))"
      by (simp add: sdk_task_ok_def)
  qed
qed

lemma those_lookup:
  "set ks \<subseteq> set (dkeys d) \<Longrightarrow> those (map (dget d) ks) = Some (map (\<lambda>k. the (dget d k)) ks)"
  by (induction ks) (auto simp: dget_dkeys)

lemma build_run:
  assumes "builder_ok b"
  defines "g \<equiv> builder_graph (wb_tasks b)"
  shows "build b = (if wb_tasks b = [] then Inl No_tasks
    else case builder_sorter g of None \<Rightarrow> Inl Cyclic_graph
      | Some order \<Rightarrow> Inr \<lparr>wd_name = wb_name b, wd_tasks = map (\<lambda>k. the (dget (wb_tasks b) k)) order,
          wd_metadata = wb_metadata b\<rparr>)"
proof (cases "wb_tasks b = []")
  case False
  note ok = builder_ok_graph [OF assms(1) False]
  have wf: "distinct (dkeys g)" using ok(1) by (simp add: graph_ok_def dwf_def g_def)
  let ?o = "topo_order (gdeps g) (dkeys (wb_tasks b))"
  have run: "builder_order (wb_tasks b) = Inr ?o"
    using builder_order_run [OF ok(2)] by (simp add: g_def)
  have srt: "builder_sorter g = (if length ?o = length (wb_tasks b) then Some ?o else None)"
    using sdk.sorter [OF ok(1)] by (simp add: g_def)
  have "set ?o \<subseteq> set (dkeys (wb_tasks b))" if "length ?o = length (wb_tasks b)"
    using sdk.order_sound(2) [OF ok(1), of ?o] srt that by (simp add: g_def)
  then show ?thesis
    using False run srt by (simp add: build_def validate_acyclic_def those_lookup)
qed (simp add: build_def)

end
