(* ===== verification/Sdk_Props.thy ===== *)
theory Sdk_Props
  imports Sdk_Facts
begin

text \<open>
  The properties of the client's workflow builder: what any sequence of calls keeps, and what
  \<open>build\<close> and the JSON payload of its result promise.
\<close>

section \<open>A sample builder\<close>

primrec run_calls :: "builder_call list \<Rightarrow> builder \<Rightarrow> builder" where
  "run_calls [] b = b"
| "run_calls (c # cs) b = run_calls cs (snd (run_call c b))"

lemma run_calls_steps: "builder_step\<^sup>*\<^sup>* b (run_calls cs b)"
proof (induction cs arbitrary: b)
  case (Cons c cs)
  have "builder_step b (snd (run_call c b))" by (rule builder_step.call [OF prod.collapse [symmetric]])
  with Cons show ?case by (auto intro: converse_rtranclp_into_rtranclp)
qed simp

definition empty_builder :: builder where
  "empty_builder = \<lparr>wb_name = lit ''demo'', wb_metadata = [], wb_tasks = []\<rparr>"

definition sample_calls :: "builder_call list" where
  "sample_calls = [Add_task (lit ''b'') [lit ''run''] [] 0 None [], Add_task (lit ''a'') [lit ''run''] [] 5 None [],
     Depends_on (lit ''b'') [lit ''a'', lit ''a''], Depends_on (lit ''a'') [lit ''b'', lit ''missing'']]"

lemma empty_builder_fresh: "fresh_builder empty_builder"
  unfolding fresh_builder_def by (rule exI [of _ "lit ''demo''"]) code_simp

text \<open>The first three calls build a graph; the fourth closes a cycle before it raises.\<close>

lemma sample_builds:
  "map_option (\<lambda>w. map st_id (wd_tasks w)) (ok_part (build (run_calls (take 3 sample_calls) empty_builder)))
     = Some [lit ''a'', lit ''b'']"
  "build (run_calls sample_calls empty_builder) = Inl Cyclic_graph"
  "builder_graph (wb_tasks (run_calls sample_calls empty_builder))
     = [(lit ''b'', [lit ''a'']), (lit ''a'', [lit ''b''])]"
  by code_simp+

section \<open>Properties\<close>

text \<open>C21: After any calls, returned or raised, the builder's tasks are consistent: they are stored
  under their own valid id, have a command, a timeout within a day and a valid retry policy, and
  their dependencies are other tasks of the builder, each named once.\<close>

theorem builder_consistent:
  assumes "fresh_builder b" "builder_step\<^sup>*\<^sup>* b b'" "dget (wb_tasks b') k = Some t"
  shows "st_id t = k \<and> task_id_matches k \<and> length k \<le> 200
    \<and> st_command t \<noteq> [] \<and> 0 \<le> st_timeout_seconds t \<and> st_timeout_seconds t \<le> 86400
    \<and> retry_validate (st_retry t) = Inr ()
    \<and> k \<notin> set (st_depends_on t) \<and> distinct (st_depends_on t)
    \<and> set (st_depends_on t) \<subseteq> set (dkeys (wb_tasks b'))"
  using builder_run.runs_keep [OF assms(1,2)] assms(3)
  by (auto simp: builder_ok_def sdk_task_ok_def)

theorem builder_consistent_witness:
  "\<exists>t. dget (wb_tasks (run_calls sample_calls empty_builder)) (lit ''b'') = Some t
     \<and> st_id t = lit ''b'' \<and> retry_validate (st_retry t) = Inr ()"
proof -
  have "map_option (\<lambda>_. ()) (dget (wb_tasks (run_calls sample_calls empty_builder)) (lit ''b'')) = Some ()"
    by code_simp
  then obtain t where "dget (wb_tasks (run_calls sample_calls empty_builder)) (lit ''b'') = Some t" by auto
  with builder_consistent [OF empty_builder_fresh run_calls_steps this] show ?thesis by auto
qed

text \<open>C20: On a builder that calls led to, \<open>build\<close> raises exactly when there is no task or the
  dependencies have a cycle. Otherwise the definition lists the builder's tasks in the least
  topological order.\<close>

theorem build_decides:
  assumes "fresh_builder b" "builder_step\<^sup>*\<^sup>* b b'"
  defines "g \<equiv> builder_graph (wb_tasks b')"
  shows "build b' = (if wb_tasks b' = [] then Inl No_tasks
    else if \<not> graph_acyclic g then Inl Cyclic_graph
    else Inr \<lparr>wd_name = wb_name b',
      wd_tasks = map (\<lambda>k. the (dget (wb_tasks b') k)) (least_topo (gdeps g) [] (dkeys g)),
      wd_metadata = wb_metadata b'\<rparr>)"
proof (cases "wb_tasks b' = []")
  case False
  have ok: "builder_ok b'" by (rule builder_run.runs_keep [OF assms(1,2)])
  have graph: "graph_ok g" using builder_ok_graph(1) [OF ok False] by (simp add: g_def)
  show ?thesis
    using build_run [OF ok] sdk.sorter [OF graph] sdk.accepts_iff [OF graph] False
    by (simp add: g_def [symmetric] topo_order_def split: if_splits)
qed (use build_run [OF builder_run.runs_keep [OF assms(1,2)]] in simp)

theorem build_decides_witness:
  "\<not> graph_acyclic [(lit ''b'', [lit ''a'']), (lit ''a'', [lit ''b''])]"
  using build_decides [OF empty_builder_fresh run_calls_steps [of _ sample_calls]] sample_builds(2)
  unfolding sample_builds(3) by (auto split: if_splits)

text \<open>The JSON payload of a definition that \<open>build\<close> returned is always produced: \<open>as_dict\<close>
  raises no error on it.\<close>

theorem built_payload:
  assumes "fresh_builder b" "builder_step\<^sup>*\<^sup>* b b'" "build b' = Inr w"
  shows "\<exists>d. workflow_as_dict w = Inr d"
proof -
  have ok: "builder_ok b'" by (rule builder_run.runs_keep [OF assms(1,2)])
  then have ne: "wb_tasks b' \<noteq> []" using assms(3) by (auto simp: build_def)
  note graph = builder_ok_graph(1) [OF ok ne]
  from build_run [OF ok] ne assms(3) obtain order
    where order: "builder_sorter (builder_graph (wb_tasks b')) = Some order"
      and w: "wd_tasks w = map (\<lambda>k. the (dget (wb_tasks b') k)) order"
    by (auto split: option.splits)
  have "retry_validate (st_retry t) = Inr ()" if "t \<in> set (wd_tasks w)" for t
  proof -
    from that w obtain k where k: "k \<in> set order" "t = the (dget (wb_tasks b') k)" by auto
    then have "k \<in> set (dkeys (wb_tasks b'))" using sdk.order_sound(2) [OF graph order] by simp
    then obtain u where "dget (wb_tasks b') k = Some u" by (auto simp: dget_dkeys)
    with k(2) ok show ?thesis by (auto simp: builder_ok_def sdk_task_ok_def)
  qed
  then show ?thesis by (simp add: workflow_as_dict_Inr)
qed

theorem built_payload_witness:
  "\<exists>w d. build (run_calls (take 3 sample_calls) empty_builder) = Inr w \<and> workflow_as_dict w = Inr d"
proof -
  obtain w where "build (run_calls (take 3 sample_calls) empty_builder) = Inr w"
    using sample_builds(1) by auto
  with built_payload [OF empty_builder_fresh run_calls_steps this] show ?thesis by blast
qed

end
