(* ===== verification/Dsl_Types.thy ===== *)
theory Dsl_Types
  imports Sdk_Builder
begin

text \<open>
  The data of the workflow DSL (\<open>sdk/python/src/helixgrid/dsl.py\<close>): tokens, the syntax tree, the
  errors and diagnostics, and the conversion of durations. A \<open>DSLError\<close> keeps its position; its
  message text is a constructor with the values the text quotes. The file name, which every error
  and diagnostic only carries along, is left out.
\<close>

section \<open>Tokens and the syntax tree\<close>

text \<open>The kind of a token is a string: \<open>NEWLINE\<close>, \<open>STRING\<close>, \<open>EOF\<close>, a keyword, a punctuation mark.\<close>

record token =
  tk_kind :: pystr
  tk_value :: pystr
  tk_line :: int
  tk_column :: int

record task_node =
  tn_id :: pystr
  tn_line :: int
  tn_command :: "pystr list"
  tn_depends_on :: "pystr list"
  tn_env :: "(pystr, pystr) dict"
  tn_labels :: "(pystr, pystr) dict"
  tn_timeout_seconds :: int
  tn_retry :: sdk_retry

definition new_task_node :: "pystr \<Rightarrow> int \<Rightarrow> task_node" where
  "new_task_node i line = \<lparr>tn_id = i, tn_line = line, tn_command = [], tn_depends_on = [],
     tn_env = [], tn_labels = [], tn_timeout_seconds = 0, tn_retry = sdk_default_retry\<rparr>"

record workflow_node =
  wn_name :: pystr
  wn_line :: int
  wn_metadata :: "(pystr, pystr) dict"
  wn_tasks :: "task_node list"

definition dsl_keywords :: "pystr list" where
  "dsl_keywords = map lit [''workflow'', ''meta'', ''task'', ''run'', ''needs'', ''env'', ''labels'',
     ''timeout'', ''retry'', ''attempts'', ''base'', ''max'']"

section \<open>Diagnostics\<close>

datatype finding =
  Empty_name                        \<comment> \<open>E001\<close>
  | Without_tasks                   \<comment> \<open>E002\<close>
  | Duplicate_id pystr              \<comment> \<open>E100\<close>
  | No_command pystr                \<comment> \<open>E101\<close>
  | Self_reference pystr            \<comment> \<open>E102\<close>
  | Repeated_needs pystr            \<comment> \<open>E103\<close>
  | Unknown_needs pystr pystr       \<comment> \<open>E104\<close>
  | Timeout_too_long pystr          \<comment> \<open>E105\<close>
  | Long_argv pystr                 \<comment> \<open>W100\<close>
  | Many_retries pystr int          \<comment> \<open>W101\<close>
  | Cycle_found "pystr list"        \<comment> \<open>E200\<close>
  | Many_roots nat                  \<comment> \<open>W200\<close>
  | Many_sinks nat                  \<comment> \<open>W201\<close>

record diagnostic =
  dg_finding :: finding
  dg_line :: int

fun diagnostic_code :: "finding \<Rightarrow> pystr" where
  "diagnostic_code Empty_name = lit ''E001''"
| "diagnostic_code Without_tasks = lit ''E002''"
| "diagnostic_code (Duplicate_id _) = lit ''E100''"
| "diagnostic_code (No_command _) = lit ''E101''"
| "diagnostic_code (Self_reference _) = lit ''E102''"
| "diagnostic_code (Repeated_needs _) = lit ''E103''"
| "diagnostic_code (Unknown_needs _ _) = lit ''E104''"
| "diagnostic_code (Timeout_too_long _) = lit ''E105''"
| "diagnostic_code (Long_argv _) = lit ''W100''"
| "diagnostic_code (Many_retries _ _) = lit ''W101''"
| "diagnostic_code (Cycle_found _) = lit ''E200''"
| "diagnostic_code (Many_roots _) = lit ''W200''"
| "diagnostic_code (Many_sinks _) = lit ''W201''"

text \<open>The field \<open>severity\<close>, \<open>"error"\<close> or \<open>"warning"\<close>.\<close>

fun diagnostic_severity :: "finding \<Rightarrow> pystr" where
  "diagnostic_severity (Long_argv _) = lit ''warning''"
| "diagnostic_severity (Many_retries _ _) = lit ''warning''"
| "diagnostic_severity (Many_roots _) = lit ''warning''"
| "diagnostic_severity (Many_sinks _) = lit ''warning''"
| "diagnostic_severity _ = lit ''error''"

section \<open>Errors\<close>

datatype dsl_problem =
  Unexpected_character int | Unterminated_string | Invalid_unicode_escape | Unknown_escape int
  | Invalid_duration | Duration_over_24h | Timeout_not_whole_seconds
  | Unterminated_workflow | Expected_section | Duplicate_task_id pystr | Duplicate_metadata pystr
  | Unterminated_task pystr | Field_repeated pystr | Duplicate_env pystr | Duplicate_label pystr
  | Unknown_field | Missing_run pystr
  | Expected_retry_option | Retry_option_repeated pystr | Attempts_range | Base_not_positive
  | Max_smaller_than_base | Bad_shell_quote bool | Empty_run_command
  | Expected_scalar pystr | Expected_line_end | Expected_token pystr pystr
  | Dependency_cycle "pystr list" | Invalid_workflow "diagnostic list"
  | Not_renderable | Lookup_failed pystr

datatype dsl_error = Dsl_error (de_problem: dsl_problem) (de_line: int) (de_column: int)

definition no_position :: "dsl_problem \<Rightarrow> dsl_error" where
  "no_position p = Dsl_error p 0 0"

section \<open>Durations\<close>

definition unit_factor :: "pystr \<Rightarrow> int option" where
  "unit_factor u =
     (if u = lit ''ms'' then Some 1 else if u = lit ''s'' then Some 1000
      else if u = lit ''m'' then Some 60000 else if u = lit ''h'' then Some 3600000 else None)"

text \<open>\<open>int(digits)\<close>, and \<open>duration_to_milliseconds\<close> on the digits and the unit of the pattern.\<close>

definition duration_to_milliseconds :: "pystr \<Rightarrow> int \<Rightarrow> int \<Rightarrow> dsl_error + int" where
  "duration_to_milliseconds s line column =
     (let number = takeWhile digit s; u = dropWhile digit s in
      case unit_factor u of
        None \<Rightarrow> Inl (Dsl_error Invalid_duration line column)
      | Some multiplier \<Rightarrow>
          if number = [] then Inl (Dsl_error Invalid_duration line column)
          else let result = dec_value number * multiplier in
            if 86400000 < result then Inl (Dsl_error Duration_over_24h line column) else Inr result)"

definition duration_to_seconds :: "pystr \<Rightarrow> int \<Rightarrow> int \<Rightarrow> dsl_error + int" where
  "duration_to_seconds s line column =
     (case duration_to_milliseconds s line column of
        Inl e \<Rightarrow> Inl e
      | Inr milliseconds \<Rightarrow>
          if milliseconds mod 1000 \<noteq> 0 then Inl (Dsl_error Timeout_not_whole_seconds line column)
          else Inr (milliseconds div 1000))"

definition format_duration :: "int \<Rightarrow> pystr" where
  "format_duration ms =
     (if ms mod 3600000 = 0 then show_int (ms div 3600000) @ lit ''h''
      else if ms mod 60000 = 0 then show_int (ms div 60000) @ lit ''m''
      else if ms mod 1000 = 0 then show_int (ms div 1000) @ lit ''s''
      else show_int ms @ lit ''ms'')"

lemma takeWhile_show_nat: "\<not> digit c \<Longrightarrow> takeWhile digit (show_nat n @ c # s) = show_nat n"
  "\<not> digit c \<Longrightarrow> dropWhile digit (show_nat n @ c # s) = c # s"
  using show_nat_digits [of _ n] by (simp_all add: takeWhile_append2 dropWhile_append2)

lemma unit_factor_lit [simp]:
  "unit_factor [109, 115] = Some 1" "unit_factor [115] = Some 1000"
  "unit_factor [109] = Some 60000" "unit_factor [104] = Some 3600000"
  by (simp_all add: unit_factor_def)

text \<open>What \<open>format_duration\<close> prints, \<open>duration_to_milliseconds\<close> reads back.\<close>

lemma duration_roundtrip:
  assumes "0 \<le> ms" "ms \<le> 86400000"
  shows "duration_to_milliseconds (format_duration ms) line column = Inr ms"
proof -
  have read: "duration_to_milliseconds (show_nat n @ c # u) line column
      = (case unit_factor (c # u) of None \<Rightarrow> Inl (Dsl_error Invalid_duration line column)
         | Some k \<Rightarrow> if 86400000 < int n * k then Inl (Dsl_error Duration_over_24h line column)
             else Inr (int n * k))"
    if "\<not> digit c" for n c u
    using that by (simp add: duration_to_milliseconds_def takeWhile_show_nat dec_value_show_nat Let_def
        split: option.split)
  have reads_back: "duration_to_milliseconds (show_int (ms div k) @ c # u) line column = Inr ms"
    if "ms mod k = 0" "unit_factor (c # u) = Some k" "\<not> digit c" "0 < k" for k c u
  proof -
    have "0 \<le> ms div k" using that(4) assms(1) by (simp add: pos_imp_zdiv_nonneg_iff)
    moreover have "ms div k * k = ms" using that(1) by (metis add.right_neutral div_mult_mod_eq)
    ultimately show ?thesis using assms(2) that(2) by (simp add: show_int_def read [OF that(3)])
  qed
  have last: "duration_to_milliseconds (show_int ms @ 109 # [115]) line column = Inr ms"
    using reads_back [of 1 109 "[115]"] by (simp add: digit_def)
  show ?thesis
    using reads_back [of 3600000 104 "[]"] reads_back [of 60000 109 "[]"] reads_back [of 1000 115 "[]"] last
    by (simp add: format_duration_def digit_def)
qed

end
