(* ===== verification/Dsl_Graph.thy ===== *)
theory Dsl_Graph
  imports Dsl_Types
begin

text \<open>
  The graph half of \<open>dsl.py\<close>: \<open>reverse_edges\<close>, \<open>topological_order\<close>, \<open>find_cycle\<close>,
  \<open>critical_path\<close>, \<open>estimate_parallelism\<close>, \<open>statistics\<close>, \<open>validate\<close> and \<open>compile_node\<close>, all on
  an arbitrary syntax tree: duplicate ids and unknown dependencies included.
\<close>

section \<open>Edges and order\<close>

definition nodes_by_id :: "workflow_node \<Rightarrow> (pystr, task_node) dict" where
  "nodes_by_id node = fold (\<lambda>t d. dput (tn_id t) t d) (wn_tasks node) []"

definition set_default :: "'k \<Rightarrow> 'v \<Rightarrow> ('k, 'v) dict \<Rightarrow> ('k, 'v) dict" where
  "set_default k v d = (if dget d k = None then dput k v d else d)"

fun add_children :: "task_node list \<Rightarrow> (pystr, pystr list) dict \<Rightarrow> (pystr, pystr list) dict" where
  "add_children [] children = children"
| "add_children (t # ts) children =
     add_children ts (fold (\<lambda>d. dappend d (tn_id t)) (tn_depends_on t)
       (set_default (tn_id t) [] children))"

definition reverse_edges :: "workflow_node \<Rightarrow> (pystr, pystr list) dict" where
  "reverse_edges node = map (\<lambda>(k, vs). (k, sort vs)) (add_children (wn_tasks node) [])"

definition count_indegrees :: "workflow_node \<Rightarrow> (pystr, int) dict" where
  "count_indegrees node =
     (let by_id = nodes_by_id node in
      fold (\<lambda>t. fold (\<lambda>d indeg. if dget by_id d \<noteq> None then dmod (tn_id t) (\<lambda>n. n + 1) indeg else indeg)
                 (tn_depends_on t))
        (wn_tasks node) (fold (\<lambda>t d. dput (tn_id t) 0 d) (wn_tasks node) []))"

definition kahn_order :: "workflow_node \<Rightarrow> pystr list" where
  "kahn_order node =
     (let indegree = count_indegrees node; children = reverse_edges node in
      kahn_loop (dlist children) indegree (sort (map fst (filter (\<lambda>(k, n). n = 0) indegree))) [])"

section \<open>Cycles\<close>

text \<open>
  The state of the nested function \<open>visit\<close>: marks (0, absent: new; 1: on the stack; 2: done), the
  stack, and the position of each stacked id. The first argument bounds the depth of the
  recursion; \<open>None\<close> is the answer of a bound that is too small. The depth is at most the number of ids
  plus one; Python itself stops a recursion after about a thousand calls, which is left out.
\<close>

record dfs =
  df_state :: "(pystr, int) dict"
  df_stack :: "pystr list"
  df_positions :: "(pystr, nat) dict"

fun visit ::
    "nat \<Rightarrow> (pystr, task_node) dict \<Rightarrow> pystr \<Rightarrow> dfs \<Rightarrow> (pystr list option \<times> dfs) option"
  and visit_needs ::
    "nat \<Rightarrow> (pystr, task_node) dict \<Rightarrow> pystr list \<Rightarrow> dfs \<Rightarrow> (pystr list option \<times> dfs) option" where
  "visit 0 by_id v s = None"
| "visit (Suc n) by_id v s =
     (let mark = (case dget (df_state s) v of None \<Rightarrow> 0 | Some c \<Rightarrow> c) in
      if mark = 2 then Some (None, s)
      else if mark = 1 then
        Some (Some (drop (the (dget (df_positions s) v)) (df_stack s) @ [v]), s)
      else
        let s1 = \<lparr>df_state = dput v 1 (df_state s), df_stack = df_stack s @ [v],
                  df_positions = dput v (length (df_stack s)) (df_positions s)\<rparr> in
        case (case dget by_id v of
                None \<Rightarrow> Some (None, s1)
              | Some t \<Rightarrow> visit_needs n by_id (tn_depends_on t) s1) of
          None \<Rightarrow> None
        | Some (Some cycle, s2) \<Rightarrow> Some (Some cycle, s2)
        | Some (None, s2) \<Rightarrow>
            Some (None, \<lparr>df_state = dput v 2 (df_state s2), df_stack = butlast (df_stack s2),
                         df_positions = dpop v (df_positions s2)\<rparr>))"
| "visit_needs n by_id [] s = Some (None, s)"
| "visit_needs n by_id (d # ds) s =
     (if dget by_id d = None then visit_needs n by_id ds s
      else case visit n by_id d s of
        None \<Rightarrow> None
      | Some (Some cycle, s') \<Rightarrow> Some (Some cycle, s')
      | Some (None, s') \<Rightarrow> visit_needs n by_id ds s')"

fun visit_all ::
  "nat \<Rightarrow> (pystr, task_node) dict \<Rightarrow> pystr list \<Rightarrow> dfs \<Rightarrow> pystr list option" where
  "visit_all n by_id [] s = Some []"
| "visit_all n by_id (v # vs) s =
     (case visit n by_id v s of
        None \<Rightarrow> None
      | Some (Some cycle, _) \<Rightarrow> Some cycle
      | Some (None, s') \<Rightarrow> visit_all n by_id vs s')"

definition no_dfs :: dfs where
  "no_dfs = \<lparr>df_state = [], df_stack = [], df_positions = []\<rparr>"

text \<open>A depth of one more than the number of ids is always enough (\<open>visit_all_enough\<close> below).\<close>

definition find_cycle :: "workflow_node \<Rightarrow> pystr list" where
  "find_cycle node =
     (let by_id = nodes_by_id node in
      case visit_all (Suc (length by_id)) by_id (sort (dkeys by_id)) no_dfs of
        None \<Rightarrow> [] | Some cycle \<Rightarrow> cycle)"

definition topological_order :: "workflow_node \<Rightarrow> dsl_error + pystr list" where
  "topological_order node =
     (let order = kahn_order node in
      if length order \<noteq> length (wn_tasks node) then
        let cycle = find_cycle node in
        Inl (no_position (Dependency_cycle (if cycle = [] then [lit ''unknown''] else cycle)))
      else Inr order)"

section \<open>The longest path\<close>

definition weight_of :: "(pystr, int) dict \<Rightarrow> pystr \<Rightarrow> int" where
  "weight_of weights v = max (case dget weights v of None \<Rightarrow> 1 | Some w \<Rightarrow> w) 0"

fun best_dependency ::
  "(pystr, int) dict \<Rightarrow> pystr list \<Rightarrow> pystr option \<times> int \<Rightarrow> pystr option \<times> int" where
  "best_dependency score [] best = best"
| "best_dependency score (d # ds) (best_parent, best_score) =
     (let candidate = (case dget score d of None \<Rightarrow> 0 | Some c \<Rightarrow> c) in
      best_dependency score ds
        (if best_score < candidate
            \<or> candidate = best_score \<and> (case best_parent of None \<Rightarrow> True | Some b \<Rightarrow> d < b)
         then (Some d, candidate) else (best_parent, best_score)))"

fun score_paths ::
  "(pystr, int) dict \<Rightarrow> (pystr, task_node) dict \<Rightarrow> pystr list
   \<Rightarrow> (pystr, int) dict \<times> (pystr, pystr option) dict
   \<Rightarrow> ((pystr, int) dict \<times> (pystr, pystr option) dict) option" where
  "score_paths weights by_id [] s = Some s"
| "score_paths weights by_id (v # vs) (score, parent) =
     (case dget by_id v of
        None \<Rightarrow> None
      | Some t \<Rightarrow>
         (case best_dependency score (sort (tn_depends_on t)) (None, 0) of
            (best_parent, best_score) \<Rightarrow>
              score_paths weights by_id vs
                (dput v (best_score + weight_of weights v) score, dput v best_parent parent)))"

text \<open>\<open>min(score, key=lambda task_id: (-score[task_id], task_id))\<close> on a dictionary that is not empty.\<close>

fun best_end :: "pystr \<times> int \<Rightarrow> (pystr, int) dict \<Rightarrow> pystr" where
  "best_end (v, c) [] = v"
| "best_end (v, c) ((w, d) # score) =
     best_end (if (- d, w) < (- c, v) then (w, d) else (v, c)) score"

text \<open>The loop that follows the parents from the end, at most as often as there are parents.\<close>

fun follow_parents :: "nat \<Rightarrow> (pystr, pystr option) dict \<Rightarrow> pystr option \<Rightarrow> pystr list \<Rightarrow> pystr list option" where
  "follow_parents n parent None path = Some path"
| "follow_parents 0 parent (Some v) path = None"
| "follow_parents (Suc n) parent (Some v) path =
     (case dget parent v of None \<Rightarrow> None | Some p \<Rightarrow> follow_parents n parent p (path @ [v]))"

definition critical_path :: "workflow_node \<Rightarrow> (pystr, int) dict \<Rightarrow> dsl_error + pystr list \<times> int" where
  "critical_path node weights =
     (case topological_order node of
        Inl e \<Rightarrow> Inl e
      | Inr order \<Rightarrow>
         (case score_paths weights (nodes_by_id node) order ([], []) of
            None \<Rightarrow> Inl (no_position (Lookup_failed []))
          | Some ([], _) \<Rightarrow> Inr ([], 0)
          | Some ((v, c) # score, parent) \<Rightarrow>
             (let end_id = best_end (v, c) score in
              case (follow_parents (length order) parent (Some end_id) [],
                    dget ((v, c) # score) end_id) of
                (Some path, Some weight) \<Rightarrow> Inr (rev path, weight)
              | _ \<Rightarrow> Inl (no_position (Lookup_failed end_id)))))"

section \<open>Levels\<close>

text \<open>One wave: the inner two loops of \<open>estimate_parallelism\<close>.\<close>

fun lower_degrees :: "pystr list \<Rightarrow> (pystr, int) dict \<times> pystr list \<Rightarrow> (pystr, int) dict \<times> pystr list" where
  "lower_degrees [] s = s"
| "lower_degrees (child # cs) (indegree, ready) =
     (let indegree' = dmod child (\<lambda>n. n - 1) indegree in
      lower_degrees cs (indegree',
        if dget indegree' child = Some 0 then ready @ [child] else ready))"

definition run_wave ::
  "(pystr, pystr list) dict \<Rightarrow> pystr list \<Rightarrow> (pystr, int) dict \<Rightarrow> (pystr, int) dict \<times> pystr list" where
  "run_wave children wave indegree =
     fold (\<lambda>current. lower_degrees (dlist children current)) wave (indegree, [])"

lemma lower_degrees_measure:
  "lower_degrees cs (indeg, ready) = (indeg', ready') \<Longrightarrow>
     length ready' + positives indeg' \<le> length ready + positives indeg"
proof (induction cs arbitrary: indeg ready)
  case (Cons c cs)
  from Cons.prems Cons.IH positives_dec [of c indeg] show ?case
    by (fastforce simp: Let_def split: if_splits)
qed simp

lemma run_wave_measure:
  "fold (\<lambda>current. lower_degrees (dlist children current)) wave (indeg, ready) = (indeg', ready') \<Longrightarrow>
     length ready' + positives indeg' \<le> length ready + positives indeg"
proof (induction wave arbitrary: indeg ready)
  case (Cons v wave)
  obtain indeg1 ready1 where one: "lower_degrees (dlist children v) (indeg, ready) = (indeg1, ready1)"
    by fastforce
  from Cons.prems Cons.IH [of indeg1 ready1] lower_degrees_measure [OF one] one show ?case by simp
qed simp

function wave_widths ::
  "(pystr, pystr list) dict \<Rightarrow> (pystr, int) dict \<Rightarrow> pystr list \<Rightarrow> nat \<Rightarrow> nat" where
  "wave_widths children indegree ready maximum =
     (if ready = [] then maximum
      else case run_wave children ready indegree of
        (indegree', ready') \<Rightarrow>
          wave_widths children indegree' (sort ready') (max maximum (length ready')))"
  by pat_completeness auto
termination
proof (relation "measure (\<lambda>(children, indegree, ready, maximum). length ready + positives indegree)",
    goal_cases)
  case (2 children indegree ready maximum indegree' ready')
  then show ?case
    using run_wave_measure [of children ready indegree "[]" indegree' ready']
    by (cases ready) (auto simp: run_wave_def)
qed auto

declare wave_widths.simps [simp del]

definition estimate_parallelism :: "workflow_node \<Rightarrow> nat" where
  "estimate_parallelism node =
     (let by_id = nodes_by_id node;
          indegree = fold (\<lambda>t. dput (tn_id t)
            (int (length (filter (\<lambda>d. dget by_id d \<noteq> None) (tn_depends_on t))))) (wn_tasks node) [];
          ready = sort (map fst (filter (\<lambda>(k, n). n = 0) indegree))
      in wave_widths (reverse_edges node) indegree ready (length ready))"

section \<open>Statistics\<close>

record stats =
  sx_name :: pystr
  sx_tasks :: nat
  sx_edges :: nat
  sx_roots :: "pystr list"
  sx_sinks :: "pystr list"
  sx_max_indegree :: nat
  sx_max_outdegree :: nat
  sx_topological_order :: "pystr list"
  sx_critical_path :: "pystr list"
  sx_critical_path_tasks :: int
  sx_parallelism_upper_bound :: nat

definition roots_of :: "workflow_node \<Rightarrow> pystr list" where
  "roots_of node = map tn_id (filter (\<lambda>t. tn_depends_on t = []) (wn_tasks node))"

definition sinks_of :: "workflow_node \<Rightarrow> pystr list" where
  "sinks_of node =
     map tn_id (filter (\<lambda>t. dlist (reverse_edges node) (tn_id t) = []) (wn_tasks node))"

definition max_default :: "nat list \<Rightarrow> nat" where
  "max_default ns = foldr max ns 0"

definition statistics :: "workflow_node \<Rightarrow> dsl_error + stats" where
  "statistics node =
     (case topological_order node of
        Inl e \<Rightarrow> Inl e
      | Inr order \<Rightarrow>
         (case critical_path node [] of
            Inl e \<Rightarrow> Inl e
          | Inr (path, path_weight) \<Rightarrow> Inr
             \<lparr>sx_name = wn_name node, sx_tasks = length (wn_tasks node),
              sx_edges = sum_list (map (\<lambda>t. length (tn_depends_on t)) (wn_tasks node)),
              sx_roots = sort (roots_of node), sx_sinks = sort (sinks_of node),
              sx_max_indegree = max_default (map (\<lambda>t. length (tn_depends_on t)) (wn_tasks node)),
              sx_max_outdegree =
                max_default (map (\<lambda>t. length (dlist (reverse_edges node) (tn_id t))) (wn_tasks node)),
              sx_topological_order = order, sx_critical_path = path,
              sx_critical_path_tasks = path_weight,
              sx_parallelism_upper_bound = estimate_parallelism node\<rparr>))"

section \<open>Validation and compilation\<close>

definition task_findings :: "pystr list \<Rightarrow> (pystr, task_node) dict \<Rightarrow> task_node \<Rightarrow> finding list" where
  "task_findings ids by_id t =
     (if tn_command t = [] then [No_command (tn_id t)] else [])
     @ (if tn_id t \<in> set (tn_depends_on t) then [Self_reference (tn_id t)] else [])
     @ (if length (tn_depends_on t) \<noteq> length (remdups (tn_depends_on t))
        then [Repeated_needs (tn_id t)] else [])
     @ map (Unknown_needs (tn_id t))
         (filter (\<lambda>d. dget by_id d = None \<and> d \<notin> set ids) (tn_depends_on t))
     @ (if 86400 < tn_timeout_seconds t then [Timeout_too_long (tn_id t)] else [])
     @ (if 256 < length (tn_command t) then [Long_argv (tn_id t)] else [])
     @ (if 10 < rp_max_attempts (tn_retry t)
        then [Many_retries (tn_id t) (rp_max_attempts (tn_retry t))] else [])"

text \<open>The first task of an id stays in \<open>by_id\<close> here.\<close>

fun validate_tasks ::
  "pystr list \<Rightarrow> task_node list \<Rightarrow> (pystr, task_node) dict
   \<Rightarrow> diagnostic list \<times> (pystr, task_node) dict" where
  "validate_tasks ids [] by_id = ([], by_id)"
| "validate_tasks ids (t # ts) by_id =
     (let taken = dget by_id (tn_id t) \<noteq> None;
          by_id' = (if taken then by_id else dput (tn_id t) t by_id);
          found = (if taken then [Duplicate_id (tn_id t)] else []) @ task_findings ids by_id' t
      in case validate_tasks ids ts by_id' of
           (rest, final) \<Rightarrow>
             (map (\<lambda>f. \<lparr>dg_finding = f, dg_line = tn_line t\<rparr>) found @ rest, final))"

definition validate :: "workflow_node \<Rightarrow> diagnostic list" where
  "validate node =
     (case validate_tasks (map tn_id (wn_tasks node)) (wn_tasks node) [] of
        (per_task, by_id) \<Rightarrow>
          (let at_node = (\<lambda>f. \<lparr>dg_finding = f, dg_line = wn_line node\<rparr>);
               cycle = find_cycle node;
               roots = roots_of node; sinks = sinks_of node in
           (if strip (wn_name node) = [] then [at_node Empty_name] else [])
           @ (if wn_tasks node = [] then [at_node Without_tasks] else [])
           @ per_task
           @ (if cycle \<noteq> []
              then [\<lparr>dg_finding = Cycle_found cycle,
                     dg_line = (case dget by_id (hd cycle) of None \<Rightarrow> wn_line node
                                | Some t \<Rightarrow> tn_line t)\<rparr>]
              else [])
           @ (if 32 < length roots then [at_node (Many_roots (length roots))] else [])
           @ (if 16 < length sinks then [at_node (Many_sinks (length sinks))] else [])))"

definition is_error :: "diagnostic \<Rightarrow> bool" where
  "is_error d \<longleftrightarrow> diagnostic_severity (dg_finding d) = lit ''error''"

definition compile_task :: "task_node \<Rightarrow> sdk_task" where
  "compile_task t =
     \<lparr>st_id = tn_id t, st_command = tn_command t, st_depends_on = tn_depends_on t,
      st_env = tn_env t, st_timeout_seconds = tn_timeout_seconds t, st_retry = tn_retry t,
      st_labels = tn_labels t\<rparr>"

definition compile_node :: "workflow_node \<Rightarrow> dsl_error + workflow_definition" where
  "compile_node node =
     (let errors = filter is_error (validate node) in
      if errors \<noteq> [] then Inl (no_position (Invalid_workflow errors))
      else case topological_order node of
        Inl e \<Rightarrow> Inl e
      | Inr order \<Rightarrow>
         (case those (map (dget (nodes_by_id node)) order) of
            None \<Rightarrow> Inl (no_position (Lookup_failed []))
          | Some ts \<Rightarrow> Inr \<lparr>wd_name = wn_name node, wd_tasks = map compile_task ts,
                             wd_metadata = wn_metadata node\<rparr>))"

end
