(* ===== verification/Dsl_Order.thy ===== *)
theory Dsl_Order
  imports Dsl_Graph
begin

text \<open>
  \<open>topological_order\<close> of the DSL computes the abstract order of \<open>Dag\<close>, dependencies that name no
  task being ignored, and so the DSL is a third topological sorter.
\<close>

section \<open>The graph of a syntax tree\<close>

definition node_graph :: "workflow_node \<Rightarrow> pystr graph" where
  "node_graph node = map (\<lambda>t. (tn_id t, tn_depends_on t)) (wn_tasks node)"

definition known_deps :: "(pystr, task_node) dict \<Rightarrow> pystr \<Rightarrow> pystr list" where
  "known_deps by_id v = (case dget by_id v of None \<Rightarrow> []
     | Some t \<Rightarrow> filter (\<lambda>d. d \<in> set (dkeys by_id)) (tn_depends_on t))"

lemma dkeys_node_graph [simp]: "dkeys (node_graph node) = map tn_id (wn_tasks node)"
  by (simp add: node_graph_def dkeys_def comp_def)

lemma length_node_graph [simp]: "length (node_graph node) = length (wn_tasks node)"
  by (simp add: node_graph_def)

lemma fold_dput_keys: "set (dkeys (fold (\<lambda>t d. dput (f t) (g t) d) ts d)) = set (dkeys d) \<union> f ` set ts"
  by (induction ts arbitrary: d) (auto simp: dict_simps)

lemma fold_dput_wf: "dwf d \<Longrightarrow> dwf (fold (\<lambda>t d. dput (f t) (g t) d) ts d)"
  by (induction ts arbitrary: d) (auto simp: dict_simps)

lemma fold_dput_other: "k \<notin> f ` set ts \<Longrightarrow> dget (fold (\<lambda>t d. dput (f t) (g t) d) ts d) k = dget d k"
  by (induction ts arbitrary: d) (auto simp: dict_simps)

lemma fold_dput_get:
  "distinct (map f ts) \<Longrightarrow> t \<in> set ts \<Longrightarrow>
     dget (fold (\<lambda>t d. dput (f t) (g t) d) ts d) (f t) = Some (g t)"
  by (induction ts arbitrary: d) (auto simp: fold_dput_other dict_simps)

lemma nodes_by_id_keys: "set (dkeys (nodes_by_id node)) = set (map tn_id (wn_tasks node))"
  by (simp add: nodes_by_id_def fold_dput_keys)

lemma nodes_by_id_wf: "dwf (nodes_by_id node)"
  by (simp add: nodes_by_id_def fold_dput_wf)

lemma nodes_by_id_get:
  assumes "distinct (map tn_id (wn_tasks node))" "t \<in> set (wn_tasks node)"
  shows "dget (nodes_by_id node) (tn_id t) = Some t"
  using fold_dput_get [OF assms, of "\<lambda>t. t"] by (simp add: nodes_by_id_def)

lemma nodes_by_id_Some: "dget (nodes_by_id node) v = Some t \<Longrightarrow> t \<in> set (wn_tasks node) \<and> tn_id t = v"
proof -
  have "dget (fold (\<lambda>t d. dput (tn_id t) t d) ts d) v = Some t \<Longrightarrow>
      t \<in> set ts \<and> tn_id t = v \<or> dget d v = Some t" for ts d
    by (induction ts arbitrary: d) (fastforce simp: dict_simps split: if_splits)+
  from this [of "wn_tasks node" "[]"] show "dget (nodes_by_id node) v = Some t \<Longrightarrow> ?thesis"
    by (simp add: nodes_by_id_def)
qed

lemma known_deps_node:
  assumes "distinct (map tn_id (wn_tasks node))" "v \<in> set (map tn_id (wn_tasks node))"
  shows "known_deps (nodes_by_id node) v
    = filter (\<lambda>d. d \<in> set (map tn_id (wn_tasks node))) (gdeps (node_graph node) v)"
proof -
  from assms(2) obtain t where t: "t \<in> set (wn_tasks node)" "v = tn_id t" by auto
  have "dwf (node_graph node)" using assms(1) by (simp add: dwf_def)
  moreover have "(v, tn_depends_on t) \<in> set (node_graph node)" using t by (auto simp: node_graph_def)
  ultimately have "gdeps (node_graph node) v = tn_depends_on t" by (rule gdeps_mem)
  with t show ?thesis
    using nodes_by_id_get [OF assms(1) t(1)]
    by (simp add: known_deps_def nodes_by_id_keys del: set_map)
qed

section \<open>Children and in-degrees\<close>

lemma dget_set_default [dict_simps]:
  "dget (set_default k v d) j = (if j = k \<and> dget d k = None then Some v else dget d j)"
  by (auto simp: set_default_def dict_simps)

lemma dlist_set_default [simp]: "dlist (set_default k [] d) c = dlist d c"
  by (simp add: dlist_def dict_simps)

lemma count_fold_dappend:
  "count_list (dlist (fold (\<lambda>d. dappend d t) ds ch) c) v
     = count_list (dlist ch c) v + (if v = t then count_list ds c else 0)"
  by (induction ds arbitrary: ch) (auto simp: dict_simps)

lemma count_add_children:
  "count_list (dlist (add_children ts ch) c) v
     = count_list (dlist ch c) v + sum_list (map (\<lambda>t. if tn_id t = v then count_list (tn_depends_on t) c else 0) ts)"
  by (induction ts arbitrary: ch) (auto simp: count_fold_dappend)

lemma dget_map_sort: "dget (map (\<lambda>(k, vs). (k, sort vs)) d) c = map_option sort (dget d c)"
  by (induction d) auto

lemma dlist_reverse_edges: "dlist (reverse_edges node) c = sort (dlist (add_children (wn_tasks node) []) c)"
  by (simp add: dlist_def reverse_edges_def dget_map_sort split: option.split)

lemma sum_list_unique:
  "distinct (map f ts) \<Longrightarrow> t \<in> set ts \<Longrightarrow>
     sum_list (map (\<lambda>x. if f x = f t then g x else (0::nat)) ts) = g t"
proof (induction ts)
  case (Cons x ts)
  show ?case
  proof (cases "x = t")
    case True
    then have "\<forall>y \<in> set ts. f y \<noteq> f t" using Cons.prems(1) by (metis distinct.simps(2) image_eqI list.set_map list.simps(9))
    then have "sum_list (map (\<lambda>y. if f y = f t then g y else 0) ts) = 0"
      by (induction ts) auto
    with True show ?thesis by simp
  next
    case False
    then have "t \<in> set ts" "f x \<noteq> f t" using Cons.prems by force+
    with Cons show ?thesis by simp
  qed
qed simp

lemma count_reverse_edges:
  assumes "distinct (map tn_id (wn_tasks node))" "t \<in> set (wn_tasks node)"
  shows "count_list (dlist (reverse_edges node) c) (tn_id t) = count_list (tn_depends_on t) c"
  using sum_list_unique [OF assms, of "\<lambda>t. count_list (tn_depends_on t) c"]
  by (simp add: dlist_reverse_edges count_add_children)

lemma reverse_edges_mem:
  "v \<in> set (dlist (reverse_edges node) c) \<longleftrightarrow>
     (\<exists>t \<in> set (wn_tasks node). tn_id t = v \<and> c \<in> set (tn_depends_on t))"
proof -
  have "v \<in> set (dlist (reverse_edges node) c)
      \<longleftrightarrow> count_list (dlist (reverse_edges node) c) v \<noteq> 0"
    by (simp add: count_list_0_iff)
  also have "\<dots> \<longleftrightarrow> (\<exists>t \<in> set (wn_tasks node). tn_id t = v \<and> count_list (tn_depends_on t) c \<noteq> 0)"
    by (auto simp: dlist_reverse_edges count_add_children sum_list_eq_0_iff)
  finally show ?thesis by (simp add: count_list_0_iff)
qed

lemma fold_count:
  "fold (\<lambda>d indeg. if P d then dmod v (\<lambda>n. n + 1) indeg else indeg) ds indeg
     = (dmod v (\<lambda>n. n + int (length (filter P ds))) indeg :: (_, int) dict)"
proof (induction ds arbitrary: indeg)
  case Nil
  then show ?case by (induction indeg) (auto simp: dmod_def)
next
  case (Cons d ds)
  have "(\<lambda>n. n + int (length (filter P ds))) \<circ> (\<lambda>n. n + 1) = (\<lambda>n. n + int (length (filter P (d # ds))))"
    if "P d" using that by (simp add: fun_eq_iff)
  with Cons.IH show ?case by (simp add: dmod_comp)
qed

lemma indegrees_other:
  "v \<notin> f ` set ts \<Longrightarrow> dget (fold (\<lambda>t. dmod (f t) (\<lambda>n. n + g t)) ts indeg) v = dget indeg v"
  by (induction ts arbitrary: indeg) (auto simp: dict_simps)

lemma indegrees_get:
  "distinct (map f ts) \<Longrightarrow> t \<in> set ts \<Longrightarrow>
     dget (fold (\<lambda>t. dmod (f t) (\<lambda>n. n + g t)) ts indeg) (f t) = map_option (\<lambda>n. n + (g t :: int)) (dget indeg (f t))"
proof (induction ts arbitrary: indeg)
  case (Cons x ts)
  then consider "x = t" "f t \<notin> f ` set ts" | "t \<in> set ts" "f x \<noteq> f t" by force
  then show ?case
    by cases (use Cons in \<open>simp_all add: indegrees_other dict_simps\<close>)
qed simp

lemma indegrees_keys: "dkeys (fold (\<lambda>t. dmod (f t) (\<lambda>n. n + g t)) ts indeg) = dkeys indeg"
  by (induction ts arbitrary: indeg) (auto simp: dict_simps)

section \<open>The order\<close>

definition distinct_ids :: "workflow_node \<Rightarrow> bool" where
  "distinct_ids node \<longleftrightarrow> distinct (map tn_id (wn_tasks node))"

lemma count_indegrees_facts:
  assumes "distinct_ids node"
  shows "dwf (count_indegrees node)"
    "set (dkeys (count_indegrees node)) = set (map tn_id (wn_tasks node))"
    "v \<in> set (map tn_id (wn_tasks node)) \<Longrightarrow>
       dget (count_indegrees node) v = Some (int (length (known_deps (nodes_by_id node) v)))"
proof -
  note dist = assms [unfolded distinct_ids_def]
  let ?known = "\<lambda>d. dget (nodes_by_id node) d \<noteq> None"
  let ?zero = "fold (\<lambda>t d. dput (tn_id t) (0::int) d) (wn_tasks node) []"
  have run: "count_indegrees node
      = fold (\<lambda>t. dmod (tn_id t) (\<lambda>n. n + int (length (filter ?known (tn_depends_on t))))) (wn_tasks node) ?zero"
    by (simp only: count_indegrees_def fold_count [THEN ext] Let_def)
  show keys: "set (dkeys (count_indegrees node)) = set (map tn_id (wn_tasks node))"
    by (simp add: run indegrees_keys fold_dput_keys)
  have "dwf ?zero" by (simp add: fold_dput_wf)
  then show "dwf (count_indegrees node)" by (simp add: run dwf_def indegrees_keys)
  assume "v \<in> set (map tn_id (wn_tasks node))"
  then obtain t where t: "t \<in> set (wn_tasks node)" "v = tn_id t" by auto
  have "known_deps (nodes_by_id node) v = filter ?known (tn_depends_on t)"
    using nodes_by_id_get [OF dist t(1)] t(2) by (simp add: known_deps_def dget_dkeys)
  then show "dget (count_indegrees node) v = Some (int (length (known_deps (nodes_by_id node) v)))"
    using t fold_dput_get [OF dist t(1), of "\<lambda>_. 0"] by (simp add: run indegrees_get [OF dist t(1)])
qed

lemma children_count:
  assumes "distinct_ids node" "c \<in> set (map tn_id (wn_tasks node))" "v \<in> set (map tn_id (wn_tasks node))"
  shows "count_list (dlist (reverse_edges node) c) v = count_list (known_deps (nodes_by_id node) v) c"
proof -
  from assms(3) obtain t where t: "t \<in> set (wn_tasks node)" "v = tn_id t" by auto
  note dist = assms(1) [unfolded distinct_ids_def]
  have "count_list (filter P xs) x = (if P x then count_list xs x else 0)"
    for P and xs :: "pystr list" and x by (induction xs) auto
  then show ?thesis
    using t assms(2) nodes_by_id_get [OF dist t(1)]
    by (simp add: count_reverse_edges [OF dist t(1)] known_deps_def nodes_by_id_keys)
qed

lemma kahn_order_run:
  assumes "distinct_ids node"
  shows "kahn_order node = topo_order (known_deps (nodes_by_id node)) (map tn_id (wn_tasks node))"
proof -
  note facts = count_indegrees_facts [OF assms]
  have "kahn_loop (dlist (reverse_edges node)) (count_indegrees node)
      (sort (map fst (filter (\<lambda>(k, n). n = 0) (count_indegrees node)))) []
    = topo_order (known_deps (nodes_by_id node)) (map tn_id (wn_tasks node))"
  proof (rule kahn_start [OF assms [unfolded distinct_ids_def] facts(3) facts(1,2)])
    fix c assume c: "c \<in> set (map tn_id (wn_tasks node))"
    show "set (dlist (reverse_edges node) c) \<subseteq> set (map tn_id (wn_tasks node))"
      by (auto simp: reverse_edges_mem)
    show "count_list (dlist (reverse_edges node) c) v = count_list (known_deps (nodes_by_id node) v) c"
      if "v \<in> set (map tn_id (wn_tasks node))" for v
      by (rule children_count [OF assms c that])
  qed
  then show ?thesis by (simp add: kahn_order_def)
qed

lemma known_deps_closed: "set (known_deps by_id v) \<subseteq> set (dkeys by_id)"
  by (auto simp: known_deps_def split: option.split)

definition known_acyclic :: "workflow_node \<Rightarrow> bool" where
  "known_acyclic node \<longleftrightarrow>
     acyclic (dep_edges (known_deps (nodes_by_id node)) (set (map tn_id (wn_tasks node))))"

lemma kahn_order_complete:
  "distinct_ids node \<Longrightarrow> length (kahn_order node) = length (wn_tasks node) \<longleftrightarrow> known_acyclic node"
  using topo_order_complete_iff [of "map tn_id (wn_tasks node)" "known_deps (nodes_by_id node)"]
    known_deps_closed [of "nodes_by_id node"] nodes_by_id_keys [of node]
  by (simp add: kahn_order_run known_acyclic_def distinct_ids_def)

lemma kahn_order_facts:
  assumes "distinct_ids node" "known_acyclic node"
  shows "distinct (kahn_order node)" "set (kahn_order node) = set (map tn_id (wn_tasks node))"
    "topo_from (known_deps (nodes_by_id node)) {} (kahn_order node)"
proof -
  have "length (topo_order (known_deps (nodes_by_id node)) (map tn_id (wn_tasks node)))
      = length (map tn_id (wn_tasks node))"
    using kahn_order_complete [OF assms(1)] assms by (simp add: kahn_order_run)
  from topo_order_full [OF assms(1) [unfolded distinct_ids_def] this]
  show "distinct (kahn_order node)" "set (kahn_order node) = set (map tn_id (wn_tasks node))"
    "topo_from (known_deps (nodes_by_id node)) {} (kahn_order node)"
    by (simp_all add: kahn_order_run [OF assms(1)])
qed

text \<open>On a well-formed graph every dependency is known.\<close>

lemma known_deps_graph:
  assumes "graph_ok (node_graph node)" "v \<in> set (map tn_id (wn_tasks node))"
  shows "known_deps (nodes_by_id node) v = gdeps (node_graph node) v"
proof -
  have dist: "distinct (map tn_id (wn_tasks node))" using assms(1) by (simp add: graph_ok_def dwf_def)
  obtain t where t: "t \<in> set (wn_tasks node)" "v = tn_id t" using assms(2) by auto
  then have mem: "(v, tn_depends_on t) \<in> set (node_graph node)" by (auto simp: node_graph_def)
  then have "gdeps (node_graph node) v = tn_depends_on t"
    using assms(1) by (auto simp: graph_ok_def intro: gdeps_mem)
  moreover have "set (tn_depends_on t) \<subseteq> set (map tn_id (wn_tasks node))"
    using assms(1) mem by (auto simp: graph_ok_def)
  ultimately show ?thesis
    using known_deps_node [OF dist assms(2)] by (simp add: filter_id_conv subset_iff)
qed

end
