(* ===== verification/Dsl_Cycle.thy ===== *)
theory Dsl_Cycle
  imports Dsl_Order
begin

text \<open>
  The depth-first search of \<open>find_cycle\<close>: its invariant, that the depth bound is enough, that what
  it returns is a cycle of the graph, and that it returns nothing only on an acyclic graph.
\<close>

definition is_cycle :: "('a \<Rightarrow> 'a list) \<Rightarrow> 'a list \<Rightarrow> bool" where
  "is_cycle deps c \<longleftrightarrow> 2 \<le> length c \<and> hd c = last c \<and> successively (\<lambda>a b. b \<in> set (deps a)) c"

lemma successively_path:
  "successively R (a # xs) \<Longrightarrow> xs \<noteq> [] \<Longrightarrow> (a, last xs) \<in> {(x, y). R x y}\<^sup>+"
proof (induction xs arbitrary: a)
  case (Cons b xs)
  then have "(a, b) \<in> {(x, y). R x y}" by simp
  with Cons show ?case by (cases xs) (auto intro: trancl_into_trancl2)
qed simp

lemma is_cycle_cyclic:
  assumes "is_cycle deps c" "set c \<subseteq> V"
  shows "\<not> acyclic (dep_edges deps V)"
proof -
  obtain a xs where c: "c = a # xs" "xs \<noteq> []" "last xs = a"
    using assms(1) by (cases c rule: list.exhaust; auto simp: is_cycle_def split: if_splits)
  let ?R = "\<lambda>x y. (y, x) \<in> dep_edges deps V"
  have "successively ?R c"
    using assms by (auto simp: is_cycle_def successively_conv_nth dep_edges_def subset_iff)
  from successively_path [OF this [unfolded c(1)] c(2)]
  have "(a, a) \<in> ((dep_edges deps V)\<inverse>)\<^sup>+" using c(3) by (simp add: converse_unfold)
  then show ?thesis unfolding acyclic_def trancl_converse by auto
qed

section \<open>The invariant\<close>

definition dfs_inv :: "(pystr, task_node) dict \<Rightarrow> dfs \<Rightarrow> pystr list \<Rightarrow> bool" where
  "dfs_inv by_id s fin \<longleftrightarrow>
     distinct (df_stack s) \<and> set (df_stack s) \<subseteq> set (dkeys by_id)
     \<and> distinct fin \<and> set fin \<subseteq> set (dkeys by_id) \<and> set fin \<inter> set (df_stack s) = {}
     \<and> topo_from (known_deps by_id) {} fin
     \<and> successively (\<lambda>a b. b \<in> set (known_deps by_id a)) (df_stack s)
     \<and> (\<forall>v. dget (df_state s) v = (if v \<in> set (df_stack s) then Some 1
            else if v \<in> set fin then Some 2 else None))
     \<and> (\<forall>i < length (df_stack s). dget (df_positions s) (df_stack s ! i) = Some i)"

definition enters :: "(pystr, task_node) dict \<Rightarrow> dfs \<Rightarrow> pystr \<Rightarrow> bool" where
  "enters by_id s v \<longleftrightarrow> (df_stack s \<noteq> [] \<longrightarrow> v \<in> set (known_deps by_id (last (df_stack s))))"

text \<open>What a search answers: a cycle, or a larger finished part with the stack as before.\<close>

definition found ::
  "(pystr, task_node) dict \<Rightarrow> dfs \<Rightarrow> pystr list \<Rightarrow> pystr set \<Rightarrow> (pystr list option \<times> dfs) option \<Rightarrow> bool" where
  "found by_id s fin vs r \<longleftrightarrow> (\<exists>c s'. r = Some (c, s') \<and>
     (case c of
        Some cycle \<Rightarrow> is_cycle (known_deps by_id) cycle \<and> set cycle \<subseteq> set (dkeys by_id)
      | None \<Rightarrow> df_stack s' = df_stack s
          \<and> (\<exists>fin'. dfs_inv by_id s' fin' \<and> set fin \<union> vs \<subseteq> set fin')))"

lemma dfs_inv_push:
  assumes inv: "dfs_inv by_id s fin" and v: "v \<in> set (dkeys by_id)" "enters by_id s v"
    and new: "v \<notin> set (df_stack s)" "v \<notin> set fin"
  shows "dfs_inv by_id \<lparr>df_state = dput v 1 (df_state s), df_stack = df_stack s @ [v],
    df_positions = dput v (length (df_stack s)) (df_positions s)\<rparr> fin"
proof -
  note I = inv [unfolded dfs_inv_def]
  have "successively (\<lambda>a b. b \<in> set (known_deps by_id a)) (df_stack s @ [v])"
    using I v(2) by (cases "df_stack s = []") (simp_all add: successively_append_iff enters_def)
  moreover have "dget (dput v (length (df_stack s)) (df_positions s)) ((df_stack s @ [v]) ! i) = Some i"
    if "i < length (df_stack s @ [v])" for i
  proof (cases "i < length (df_stack s)")
    case True
    then have "df_stack s ! i \<noteq> v" using new(1) by auto
    with True I show ?thesis by (simp add: nth_append dict_simps)
  next
    case False
    with that have "i = length (df_stack s)" by simp
    then show ?thesis by (simp add: dict_simps)
  qed
  ultimately show ?thesis
    using I v(1) new unfolding dfs_inv_def by (simp add: dict_simps)
qed

lemma dfs_inv_pop:
  assumes inv: "dfs_inv by_id s fin" and stack: "df_stack s = xs @ [v]"
    and deps_done: "set (known_deps by_id v) \<subseteq> set fin"
  shows "dfs_inv by_id \<lparr>df_state = dput v 2 (df_state s), df_stack = butlast (df_stack s),
    df_positions = dpop v (df_positions s)\<rparr> (fin @ [v])"
proof -
  note I = inv [unfolded dfs_inv_def stack]
  have "dget (dpop v (df_positions s)) (xs ! i) = Some i" if "i < length xs" for i
  proof -
    have "dget (df_positions s) ((xs @ [v]) ! i) = Some i" using I that by simp
    moreover have "xs ! i \<noteq> v" using I that by auto
    ultimately show ?thesis using that by (simp add: nth_append dict_simps)
  qed
  moreover have "successively (\<lambda>a b. b \<in> set (known_deps by_id a)) xs"
    using I by (simp add: successively_append_iff)
  ultimately show ?thesis
    using I deps_done unfolding dfs_inv_def stack
    by (auto simp: topo_from_append dict_simps)
qed

lemma stack_cycle:
  assumes inv: "dfs_inv by_id s fin" and v: "v \<in> set (df_stack s)" "enters by_id s v"
  defines "c \<equiv> drop (the (dget (df_positions s) v)) (df_stack s) @ [v]"
  shows "is_cycle (known_deps by_id) c \<and> set c \<subseteq> set (dkeys by_id)"
proof -
  note I = inv [unfolded dfs_inv_def]
  obtain i where i: "i < length (df_stack s)" "df_stack s ! i = v"
    using v(1) by (auto simp: in_set_conv_nth)
  have split: "df_stack s = take i (df_stack s) @ drop i (df_stack s)" by simp
  have c: "c = drop i (df_stack s) @ [v]" using I i by (auto simp: c_def)
  have ne: "drop i (df_stack s) \<noteq> []" using i by simp
  have "successively (\<lambda>a b. b \<in> set (known_deps by_id a)) (drop i (df_stack s))"
    using I split by (metis successively_append_iff)
  moreover have "v \<in> set (known_deps by_id (last (drop i (df_stack s))))"
    using v(2) i by (auto simp: enters_def)
  ultimately have "successively (\<lambda>a b. b \<in> set (known_deps by_id a)) c"
    using ne by (simp add: c successively_append_iff)
  moreover have "hd c = v" using ne i by (simp add: c hd_drop_conv_nth)
  moreover have "set c \<subseteq> set (dkeys by_id)"
    using I v(1) by (auto simp: c dest: in_set_dropD)
  moreover have "2 \<le> length c" using i by (simp add: c)
  ultimately show ?thesis by (simp add: is_cycle_def c)
qed

text \<open>The stack never holds more than the known ids.\<close>

lemma stack_bound:
  assumes "dfs_inv by_id s fin"
  shows "length (df_stack s) \<le> length by_id"
proof -
  have "card (set (df_stack s)) \<le> card (set (dkeys by_id))"
    using assms by (intro card_mono) (auto simp: dfs_inv_def)
  also have "\<dots> \<le> length by_id" using card_length [of "dkeys by_id"] by (simp add: dkeys_def)
  finally show ?thesis using assms by (simp add: dfs_inv_def distinct_card)
qed

lemma visit_found:
  "dfs_inv by_id s fin \<Longrightarrow> v \<in> set (dkeys by_id) \<Longrightarrow> enters by_id s v
     \<Longrightarrow> length by_id < n + length (df_stack s) \<Longrightarrow> found by_id s fin {v} (visit n by_id v s)"
  "dfs_inv by_id s fin \<Longrightarrow> df_stack s \<noteq> []
     \<Longrightarrow> set (filter (\<lambda>d. d \<in> set (dkeys by_id)) ds) \<subseteq> set (known_deps by_id (last (df_stack s)))
     \<Longrightarrow> length by_id < n + length (df_stack s)
     \<Longrightarrow> found by_id s fin (set ds \<inter> set (dkeys by_id)) (visit_needs n by_id ds s)"
proof (induction n by_id v s and n by_id ds s arbitrary: fin and fin rule: visit_visit_needs.induct)
  case (1 by_id v s)
  then show ?case using stack_bound [OF 1(1)] by simp
next
  case (2 n by_id v s)
  note I = "2.prems"(1) [unfolded dfs_inv_def]
  let ?mark = "case dget (df_state s) v of None \<Rightarrow> 0 | Some c \<Rightarrow> c"
  let ?s1 = "\<lparr>df_state = dput v 1 (df_state s), df_stack = df_stack s @ [v],
    df_positions = dput v (length (df_stack s)) (df_positions s)\<rparr>"
  consider (fin) "v \<in> set fin" "?mark = 2" | (stack) "v \<in> set (df_stack s)" "?mark = 1"
    | (new) "v \<notin> set fin" "v \<notin> set (df_stack s)" "?mark = 0"
    using I by (cases "v \<in> set fin"; cases "v \<in> set (df_stack s)") auto
  then show ?case
  proof cases
    case fin
    then show ?thesis using "2.prems"(1) by (auto simp: found_def Let_def)
  next
    case stack
    then show ?thesis
      using stack_cycle [OF "2.prems"(1) stack(1) "2.prems"(3)] by (auto simp: found_def Let_def)
  next
    case new
    have inv1: "dfs_inv by_id ?s1 fin" using "2.prems" new by (intro dfs_inv_push)
    obtain t where t: "dget by_id v = Some t" using "2.prems"(2) by (auto simp: dget_dkeys)
    then have known: "set (known_deps by_id v) = set (tn_depends_on t) \<inter> set (dkeys by_id)"
      by (auto simp: known_deps_def)
    have "found by_id ?s1 fin (set (tn_depends_on t) \<inter> set (dkeys by_id))
        (visit_needs n by_id (tn_depends_on t) ?s1)"
      by (rule "2.IH" [OF refl _ _ refl t inv1]) (use new "2.prems"(4) known in auto)
    then obtain c s2 where run: "visit_needs n by_id (tn_depends_on t) ?s1 = Some (c, s2)"
      and res: "case c of
          Some cycle \<Rightarrow> is_cycle (known_deps by_id) cycle \<and> set cycle \<subseteq> set (dkeys by_id)
        | None \<Rightarrow> df_stack s2 = df_stack s @ [v]
            \<and> (\<exists>fin'. dfs_inv by_id s2 fin' \<and> set fin \<union> set (known_deps by_id v) \<subseteq> set fin')"
      unfolding found_def known dfs.select_convs by blast
    show ?thesis
    proof (cases c)
      case None
      with res obtain fin' where st: "df_stack s2 = df_stack s @ [v]"
        and inv2: "dfs_inv by_id s2 fin'" and sub: "set fin \<union> set (known_deps by_id v) \<subseteq> set fin'"
        by auto
      have "dfs_inv by_id \<lparr>df_state = dput v 2 (df_state s2), df_stack = butlast (df_stack s2),
          df_positions = dpop v (df_positions s2)\<rparr> (fin' @ [v])"
        using inv2 st sub by (intro dfs_inv_pop) auto
      moreover have "set fin \<union> {v} \<subseteq> set (fin' @ [v])" using sub by auto
      ultimately show ?thesis
        unfolding found_def using new run t None st by (fastforce simp: Let_def)
    next
      case (Some cycle)
      with new run t res show ?thesis by (auto simp: found_def Let_def)
    qed
  qed
next
  case (3 n by_id s)
  then show ?case by (auto simp: found_def)
next
  case (4 n by_id d ds s)
  show ?case
  proof (cases "dget by_id d")
    case None
    with "4.IH"(1) [OF None "4.prems"(1,2)] "4.prems" show ?thesis
      by (auto simp: dget_dkeys)
  next
    case (Some t)
    then have d: "d \<in> set (dkeys by_id)" by (simp add: dget_dkeys)
    have "found by_id s fin {d} (visit n by_id d s)"
      using "4.IH"(2) [of fin] Some "4.prems" d by (auto simp: enters_def)
    then obtain c s1 where run: "visit n by_id d s = Some (c, s1)"
      and res: "case c of
          Some cycle \<Rightarrow> is_cycle (known_deps by_id) cycle \<and> set cycle \<subseteq> set (dkeys by_id)
        | None \<Rightarrow> df_stack s1 = df_stack s
            \<and> (\<exists>fin'. dfs_inv by_id s1 fin' \<and> set fin \<union> {d} \<subseteq> set fin')"
      unfolding found_def by auto
    show ?thesis
    proof (cases c)
      case None
      with res obtain fin1 where st: "df_stack s1 = df_stack s" and inv1: "dfs_inv by_id s1 fin1"
        and sub: "set fin \<union> {d} \<subseteq> set fin1" by auto
      have sub': "set (filter (\<lambda>d. d \<in> set (dkeys by_id)) ds)
          \<subseteq> set (known_deps by_id (last (df_stack s1)))"
        using "4.prems"(3) st by auto
      have "found by_id s1 fin1 (set ds \<inter> set (dkeys by_id)) (visit_needs n by_id ds s1)"
        using "4.IH"(3) [OF _ run refl _ inv1 _ sub'] Some None st "4.prems"(2,4) by simp
      then obtain c2 s2 where rest: "visit_needs n by_id ds s1 = Some (c2, s2)"
        and res2: "case c2 of
            Some cycle \<Rightarrow> is_cycle (known_deps by_id) cycle \<and> set cycle \<subseteq> set (dkeys by_id)
          | None \<Rightarrow> df_stack s2 = df_stack s1
              \<and> (\<exists>fin'. dfs_inv by_id s2 fin' \<and> set fin1 \<union> set ds \<inter> set (dkeys by_id) \<subseteq> set fin')"
        unfolding found_def by blast
      have whole: "visit_needs n by_id (d # ds) s = Some (c2, s2)"
        using run rest None Some by simp
      have "set fin \<union> set (d # ds) \<inter> set (dkeys by_id) \<subseteq> set fin'"
        if "set fin1 \<union> set ds \<inter> set (dkeys by_id) \<subseteq> set fin'" for fin'
        using that sub by auto
      with whole res2 st show ?thesis
        unfolding found_def by (cases c2) (simp, blast, simp)
    next
      case (Some cycle)
      with \<open>dget by_id d = Some t\<close> run res show ?thesis by (auto simp: found_def)
    qed
  qed
qed

section \<open>The search over all ids\<close>

lemma dfs_inv_start: "dfs_inv by_id no_dfs []"
  by (simp add: dfs_inv_def no_dfs_def)

lemma visit_all_found:
  "dfs_inv by_id s fin \<Longrightarrow> df_stack s = [] \<Longrightarrow> set vs \<subseteq> set (dkeys by_id) \<Longrightarrow> length by_id < n \<Longrightarrow>
     \<exists>c. visit_all n by_id vs s = Some c \<and>
       (if c = [] then \<exists>fin'. set fin \<union> set vs \<subseteq> set fin' \<and> distinct fin'
            \<and> set fin' \<subseteq> set (dkeys by_id) \<and> topo_from (known_deps by_id) {} fin'
        else is_cycle (known_deps by_id) c \<and> set c \<subseteq> set (dkeys by_id))"
proof (induction vs arbitrary: s fin)
  case Nil
  then show ?case by (auto simp: dfs_inv_def intro!: exI [of _ fin])
next
  case (Cons v vs)
  have "found by_id s fin {v} (visit n by_id v s)"
    by (rule visit_found(1) [OF Cons.prems(1)]) (use Cons.prems in \<open>auto simp: enters_def\<close>)
  then obtain c s1 where run: "visit n by_id v s = Some (c, s1)"
    and res: "case c of
        Some cycle \<Rightarrow> is_cycle (known_deps by_id) cycle \<and> set cycle \<subseteq> set (dkeys by_id)
      | None \<Rightarrow> df_stack s1 = df_stack s
          \<and> (\<exists>fin'. dfs_inv by_id s1 fin' \<and> set fin \<union> {v} \<subseteq> set fin')"
    unfolding found_def by blast
  show ?case
  proof (cases c)
    case None
    with res obtain fin1 where "df_stack s1 = []" "dfs_inv by_id s1 fin1"
      and sub: "set fin \<union> {v} \<subseteq> set fin1" using Cons.prems(2) by auto
    from Cons.IH [OF this(2,1)] Cons.prems
    obtain c' where rest: "visit_all n by_id vs s1 = Some c'"
      and good: "if c' = [] then \<exists>fin'. set fin1 \<union> set vs \<subseteq> set fin' \<and> distinct fin'
            \<and> set fin' \<subseteq> set (dkeys by_id) \<and> topo_from (known_deps by_id) {} fin'
        else is_cycle (known_deps by_id) c' \<and> set c' \<subseteq> set (dkeys by_id)" by auto
    have "visit_all n by_id (v # vs) s = Some c'" using run None rest by simp
    with good sub show ?thesis by (cases "c' = []") (simp, blast, simp)
  next
    case (Some cycle)
    then have "cycle \<noteq> []" using res by (auto simp: is_cycle_def)
    with Some run res show ?thesis by simp
  qed
qed

text \<open>The depth \<open>find_cycle\<close> starts with is enough, on any syntax tree.\<close>

lemma visit_all_enough:
  assumes "length (nodes_by_id node) < n"
  shows "visit_all n (nodes_by_id node) (sort (dkeys (nodes_by_id node))) no_dfs \<noteq> None"
  using visit_all_found [OF dfs_inv_start _ _ assms, of "sort (dkeys (nodes_by_id node))"]
  by (auto simp: no_dfs_def)

lemma find_cycle_spec:
  "if find_cycle node = [] then known_acyclic node
   else is_cycle (known_deps (nodes_by_id node)) (find_cycle node)
     \<and> set (find_cycle node) \<subseteq> set (map tn_id (wn_tasks node)) \<and> \<not> known_acyclic node"
proof -
  let ?b = "nodes_by_id node"
  have keys: "set (dkeys ?b) = set (map tn_id (wn_tasks node))" by (rule nodes_by_id_keys)
  let ?good = "\<lambda>c. if c = [] then \<exists>fin'. set [] \<union> set (sort (dkeys ?b)) \<subseteq> set fin' \<and> distinct fin'
          \<and> set fin' \<subseteq> set (dkeys ?b) \<and> topo_from (known_deps ?b) {} fin'
        else is_cycle (known_deps ?b) c \<and> set c \<subseteq> set (dkeys ?b)"
  have "\<exists>c. visit_all (Suc (length ?b)) ?b (sort (dkeys ?b)) no_dfs = Some c \<and> ?good c"
    by (rule visit_all_found [OF dfs_inv_start]) (simp_all add: no_dfs_def)
  then obtain c where run: "visit_all (Suc (length ?b)) ?b (sort (dkeys ?b)) no_dfs = Some c"
    and spec: "?good c" by blast
  have c: "find_cycle node = c" by (simp add: find_cycle_def run)
  show ?thesis
  proof (cases "c = []")
    case True
    with spec obtain fin where "set fin = set (dkeys ?b)" "distinct fin"
      "topo_from (known_deps ?b) {} fin" by auto
    then show ?thesis using True topo_from_acyclic by (fastforce simp: c known_acyclic_def keys)
  next
    case False
    with spec is_cycle_cyclic [of "known_deps ?b" c "set (dkeys ?b)"]
    show ?thesis by (simp add: c known_acyclic_def keys)
  qed
qed

lemma find_cycle_Nil: "find_cycle node = [] \<longleftrightarrow> known_acyclic node"
  using find_cycle_spec [of node] by (auto split: if_splits)

text \<open>A larger bound on the depth changes no answer.\<close>

lemma visit_mono:
  "visit n by_id v s = Some r \<Longrightarrow> n \<le> m \<Longrightarrow> visit m by_id v s = Some r"
  "visit_needs n by_id ds s = Some r \<Longrightarrow> n \<le> m \<Longrightarrow> visit_needs m by_id ds s = Some r"
proof (induction n by_id v s and n by_id ds s arbitrary: r m and r m rule: visit_visit_needs.induct)
  case (2 n by_id v s)
  then obtain k where k: "m = Suc k" "n \<le> k" by (cases m) auto
  let ?mark = "case dget (df_state s) v of None \<Rightarrow> 0 | Some c \<Rightarrow> c"
  let ?s1 = "\<lparr>df_state = dput v 1 (df_state s), df_stack = df_stack s @ [v],
    df_positions = dput v (length (df_stack s)) (df_positions s)\<rparr>"
  show ?case
  proof (cases "?mark = 2 \<or> ?mark = 1 \<or> dget by_id v = None")
    case True
    have "visit (Suc j) by_id v s = (if ?mark = 2 then Some (None, s)
        else if ?mark = 1 then
          Some (Some (drop (the (dget (df_positions s) v)) (df_stack s) @ [v]), s)
        else Some (None, \<lparr>df_state = dput v 2 (df_state ?s1), df_stack = butlast (df_stack ?s1),
          df_positions = dpop v (df_positions ?s1)\<rparr>))" for j
      using True by (elim disjE) (simp_all add: Let_def)
    with "2.prems"(1) show ?thesis unfolding k(1) by simp
  next
    case False
    then obtain t where t: "dget by_id v = Some t" by auto
    with False "2.prems"(1) obtain q where q: "visit_needs n by_id (tn_depends_on t) ?s1 = Some q"
      by (cases "visit_needs n by_id (tn_depends_on t) ?s1") (auto simp: Let_def)
    have "visit_needs k by_id (tn_depends_on t) ?s1 = Some q"
      by (rule "2.IH" [OF refl _ _ refl t q k(2)]) (use False in auto)
    with q t False "2.prems"(1) show ?thesis unfolding k(1) visit.simps Let_def by simp
  qed
next
  case (4 n by_id d ds s)
  show ?case
  proof (cases "dget by_id d")
    case None
    with "4.prems"(1) have "visit_needs n by_id ds s = Some r" by simp
    from "4.IH"(1) [OF None this "4.prems"(2)] None show ?thesis by simp
  next
    case (Some t)
    with "4.prems"(1) obtain c s' where v: "visit n by_id d s = Some (c, s')"
      by (auto split: option.splits)
    have v': "visit m by_id d s = Some (c, s')"
      by (rule "4.IH"(2) [OF _ v "4.prems"(2)]) (simp add: Some)
    show ?thesis
    proof (cases c)
      case None
      with "4.prems"(1) v Some have "visit_needs n by_id ds s' = Some r" by simp
      then have "visit_needs m by_id ds s' = Some r"
        by (intro "4.IH"(3) [OF _ v refl None _ "4.prems"(2)]) (simp_all add: Some)
      with Some None v' show ?thesis by simp
    next
      case (Some cycle)
      with \<open>dget by_id d = Some t\<close> "4.prems"(1) v v' show ?thesis by auto
    qed
  qed
qed auto

lemma visit_all_mono: "visit_all n by_id vs s = Some c \<Longrightarrow> n \<le> m \<Longrightarrow> visit_all m by_id vs s = Some c"
proof (induction vs arbitrary: s)
  case (Cons v vs)
  from Cons.prems obtain r s' where r: "visit n by_id v s = Some (r, s')"
    by (auto split: option.splits)
  with Cons visit_mono(1) [OF r Cons.prems(2)] show ?case by (auto split: option.splits)
qed simp

section \<open>What \<open>topological_order\<close> answers\<close>

lemma topological_order_run:
  assumes "distinct_ids node"
  shows "topological_order node = (if known_acyclic node then Inr (kahn_order node)
    else Inl (no_position (Dependency_cycle (find_cycle node))))"
  using kahn_order_complete [OF assms] find_cycle_Nil [of node]
  by (auto simp: topological_order_def Let_def)

text \<open>The DSL provides the contract of a topological sorter.\<close>

definition graph_node :: "pystr graph \<Rightarrow> workflow_node" where
  "graph_node g = \<lparr>wn_name = lit ''graph'', wn_line = 1, wn_metadata = [],
     wn_tasks = map (\<lambda>(v, ds). (new_task_node v 1)\<lparr>tn_depends_on := ds, tn_command := [v]\<rparr>) g\<rparr>"

definition dsl_sorter :: "pystr graph \<Rightarrow> pystr list option" where
  "dsl_sorter g = ok_part (topological_order (graph_node g))"

lemma node_graph_graph_node [simp]: "node_graph (graph_node g) = g"
  by (induction g) (auto simp: node_graph_def graph_node_def new_task_node_def)

lemma tn_ids_graph_node: "map tn_id (wn_tasks (graph_node g)) = dkeys g"
  by (induction g) (auto simp: graph_node_def new_task_node_def)

lemma kahn_order_graph:
  assumes "graph_ok (node_graph node)"
  shows "kahn_order node = topo_order (gdeps (node_graph node)) (map tn_id (wn_tasks node))"
    "known_acyclic node \<longleftrightarrow> graph_acyclic (node_graph node)"
proof -
  have dist: "distinct_ids node"
    using assms by (simp add: graph_ok_def dwf_def distinct_ids_def)
  let ?ids = "map tn_id (wn_tasks node)"
  have same: "known_deps (nodes_by_id node) v = gdeps (node_graph node) v" if "v \<in> set ?ids" for v
    using known_deps_graph [OF assms that] .
  have "least_topo (known_deps (nodes_by_id node)) [] ?ids = least_topo (gdeps (node_graph node)) [] ?ids"
    using same by (intro least_topo_cong) auto
  then show "kahn_order node = topo_order (gdeps (node_graph node)) ?ids"
    by (simp add: kahn_order_run [OF dist] topo_order_def)
  have "dep_edges (known_deps (nodes_by_id node)) (set ?ids) = dep_edges (gdeps (node_graph node)) (set ?ids)"
    using same by (auto simp: dep_edges_def)
  then show "known_acyclic node \<longleftrightarrow> graph_acyclic (node_graph node)"
    by (simp add: known_acyclic_def graph_acyclic_def)
qed

interpretation dsl: topo_sorter dsl_sorter
proof
  fix g :: "pystr graph"
  assume ok: "graph_ok g"
  let ?n = "graph_node g"
  have ok': "graph_ok (node_graph ?n)" using ok by simp
  have "distinct_ids ?n" using ok by (simp add: distinct_ids_def tn_ids_graph_node graph_ok_def dwf_def)
  from topological_order_run [OF this] kahn_order_complete [OF this]
  have run: "dsl_sorter g = (if length (kahn_order ?n) = length (wn_tasks ?n) then Some (kahn_order ?n) else None)"
    by (simp add: dsl_sorter_def)
  have "length (wn_tasks ?n) = length g" by (simp add: graph_node_def)
  with run kahn_order_graph(1) [OF ok']
  show "dsl_sorter g = (if length (topo_order (gdeps g) (dkeys g)) = length g
      then Some (topo_order (gdeps g) (dkeys g)) else None)"
    by (simp only: tn_ids_graph_node node_graph_graph_node)
qed

lemma dsl_sorter_node:
  assumes "graph_ok (node_graph node)"
  shows "dsl_sorter (node_graph node) = ok_part (topological_order node)"
proof -
  have dist: "distinct_ids node"
    using assms by (simp add: graph_ok_def dwf_def distinct_ids_def)
  show ?thesis
    using dsl.sorter [OF assms] kahn_order_graph [OF assms] topological_order_run [OF dist]
      kahn_order_complete [OF dist] by auto
qed

end
