(* ===== verification/Dsl_Path.thy ===== *)
theory Dsl_Path
  imports Dsl_Cycle
begin

text \<open>
  \<open>critical_path\<close>: the scores are the weights of the heaviest dependency paths, following the
  parents gives such a path, and no dependency path is heavier.
\<close>

section \<open>Paths\<close>

definition dep_path :: "workflow_node \<Rightarrow> pystr list \<Rightarrow> bool" where
  "dep_path node p \<longleftrightarrow> p \<noteq> [] \<and> set p \<subseteq> set (map tn_id (wn_tasks node))
     \<and> successively (\<lambda>a b. a \<in> set (gdeps (node_graph node) b)) p"

definition path_weight :: "(pystr, int) dict \<Rightarrow> pystr list \<Rightarrow> int" where
  "path_weight weights p = sum_list (map (weight_of weights) p)"

lemma weight_of_nonneg: "0 \<le> weight_of weights v"
  by (simp add: weight_of_def)

section \<open>The best dependency\<close>

definition score_of :: "(pystr, int) dict \<Rightarrow> pystr \<Rightarrow> int" where
  "score_of score d = (case dget score d of None \<Rightarrow> 0 | Some c \<Rightarrow> c)"

lemma best_dependency_spec:
  "best_dependency score ds (bp, bs) = (bp', bs') \<Longrightarrow> (bp = None \<longrightarrow> bs = 0)
     \<Longrightarrow> (\<forall>d \<in> set ds. 0 \<le> score_of score d) \<Longrightarrow>
     bs \<le> bs' \<and> (\<forall>d \<in> set ds. score_of score d \<le> bs')
     \<and> (bp' = bp \<and> bs' = bs \<or> (\<exists>d \<in> set ds. bp' = Some d \<and> bs' = score_of score d))
     \<and> (ds \<noteq> [] \<longrightarrow> bp' \<noteq> None)"
proof (induction ds arbitrary: bp bs)
  case (Cons d ds)
  let ?c = "score_of score d"
  let ?take = "bs < ?c \<or> ?c = bs \<and> (case bp of None \<Rightarrow> True | Some b \<Rightarrow> d < b)"
  show ?case
  proof (cases ?take)
    case True
    then have "best_dependency score ds (Some d, ?c) = (bp', bs')"
      using Cons.prems(1) by (simp add: Let_def score_of_def)
    from Cons.IH [OF this] Cons.prems(3) have IH: "?c \<le> bs' \<and> (\<forall>d \<in> set ds. score_of score d \<le> bs')
        \<and> (bp' = Some d \<and> bs' = ?c \<or> (\<exists>d \<in> set ds. bp' = Some d \<and> bs' = score_of score d))" by auto
    moreover have "bs \<le> ?c" using True by auto
    ultimately show ?thesis by auto
  next
    case False
    then have "best_dependency score ds (bp, bs) = (bp', bs')"
      using Cons.prems(1) unfolding score_of_def by (simp only: best_dependency.simps Let_def if_False)
    from Cons.IH [OF this Cons.prems(2)] Cons.prems(3) have IH: "bs \<le> bs'
        \<and> (\<forall>d \<in> set ds. score_of score d \<le> bs')
        \<and> (bp' = bp \<and> bs' = bs \<or> (\<exists>d \<in> set ds. bp' = Some d \<and> bs' = score_of score d))" by auto
    moreover have "?c \<le> bs" "bp \<noteq> None"
      using False Cons.prems(2,3) by (auto split: option.splits)
    ultimately show ?thesis by auto
  qed
qed simp

lemma best_dependency_start:
  assumes "best_dependency score (sort ds) (None, 0) = (bp, bs)" "\<forall>d \<in> set ds. 0 \<le> score_of score d"
  shows "if ds = [] then bp = None \<and> bs = 0
    else \<exists>d \<in> set ds. bp = Some d \<and> bs = score_of score d \<and> (\<forall>e \<in> set ds. score_of score e \<le> bs)"
proof (cases "ds = []")
  case True
  then show ?thesis using assms(1) by simp
next
  case False
  then have "sort ds \<noteq> []" by (metis length_0_conv length_sort)
  with best_dependency_spec [OF assms(1)] assms(2) False show ?thesis by auto
qed

section \<open>The scores\<close>

text \<open>What the loop over the order has built when it has handled the prefix \<open>pre\<close>.\<close>

definition scored ::
  "(pystr \<Rightarrow> pystr list) \<Rightarrow> (pystr, int) dict \<Rightarrow> pystr list
   \<Rightarrow> (pystr, int) dict \<times> (pystr, pystr option) dict \<Rightarrow> bool" where
  "scored deps weights pre sp \<longleftrightarrow> dkeys (fst sp) = pre \<and> dwf (fst sp) \<and>
     (\<forall>v \<in> set pre. 0 \<le> score_of (fst sp) v \<and>
        (if deps v = [] then dget (snd sp) v = Some None \<and> score_of (fst sp) v = weight_of weights v
         else \<exists>d \<in> set (deps v). dget (snd sp) v = Some (Some d)
           \<and> score_of (fst sp) v = score_of (fst sp) d + weight_of weights v
           \<and> (\<forall>e \<in> set (deps v). score_of (fst sp) e \<le> score_of (fst sp) d)))"

lemma dkeys_dput_new: "k \<notin> set (dkeys d) \<Longrightarrow> dkeys (dput k v d) = dkeys d @ [k]"
  by (induction d) (auto simp: dput_def)

lemma score_of_dput: "score_of (dput k c score) v = (if v = k then c else score_of score v)"
  by (simp add: score_of_def dict_simps)

lemma scored_step:
  assumes sc: "scored deps weights pre (score, parent)" and v: "v \<notin> set pre" "set (deps v) \<subseteq> set pre"
    and closed: "\<And>u. u \<in> set pre \<Longrightarrow> set (deps u) \<subseteq> set pre"
    and best: "best_dependency score (sort (deps v)) (None, 0) = (bp, bs)"
  shows "scored deps weights (pre @ [v])
    (dput v (bs + weight_of weights v) score, dput v bp parent)"
proof -
  note S = sc [unfolded scored_def, simplified]
  have new: "v \<notin> set (dkeys score)" using S v(1) by simp
  have nonneg: "\<forall>d \<in> set (deps v). 0 \<le> score_of score d" using S v(2) by auto
  note b = best_dependency_start [OF best nonneg]
  have bs: "0 \<le> bs" using b nonneg by (auto split: if_splits)
  let ?s = "dput v (bs + weight_of weights v) score"
  have old: "score_of ?s u = score_of score u" if "u \<in> set pre" for u
    using that v(1) by (auto simp: score_of_dput)
  have at_v: "0 \<le> score_of ?s v \<and>
      (if deps v = [] then dget (dput v bp parent) v = Some None \<and> score_of ?s v = weight_of weights v
       else \<exists>d \<in> set (deps v). dget (dput v bp parent) v = Some (Some d)
         \<and> score_of ?s v = score_of ?s d + weight_of weights v
         \<and> (\<forall>e \<in> set (deps v). score_of ?s e \<le> score_of ?s d))"
  proof (cases "deps v = []")
    case True
    then show ?thesis using b bs weight_of_nonneg by (simp add: score_of_dput dict_simps)
  next
    case False
    with b obtain d where d: "d \<in> set (deps v)" "bp = Some d" "bs = score_of score d"
      "\<forall>e \<in> set (deps v). score_of score e \<le> bs" by auto
    moreover have "score_of ?s e = score_of score e" if "e \<in> set (deps v)" for e
      using that v(2) old by auto
    moreover have "score_of ?s v = bs + weight_of weights v" by (simp add: score_of_dput)
    ultimately show ?thesis using False bs weight_of_nonneg [of weights v] by (auto simp: dict_simps)
  qed
  have rest: "0 \<le> score_of ?s u \<and>
      (if deps u = [] then dget (dput v bp parent) u = Some None \<and> score_of ?s u = weight_of weights u
       else \<exists>d \<in> set (deps u). dget (dput v bp parent) u = Some (Some d)
         \<and> score_of ?s u = score_of ?s d + weight_of weights u
         \<and> (\<forall>e \<in> set (deps u). score_of ?s e \<le> score_of ?s d))" if u: "u \<in> set pre" for u
  proof -
    have "score_of ?s e = score_of score e" if "e \<in> set (deps u)" for e
      using that closed [OF u] old by auto
    moreover have "dget (dput v bp parent) u = dget parent u" using u v(1) by (auto simp: dict_simps)
    moreover note old [OF u]
    ultimately show ?thesis using S u by (auto split: if_splits)
  qed
  have "dkeys ?s = pre @ [v]" using new S by (simp add: dkeys_dput_new)
  moreover have "dwf ?s" using S by (simp add: dict_simps)
  ultimately show ?thesis using at_v rest by (simp add: scored_def)
qed

lemma score_paths_run:
  assumes "scored deps weights pre sp" "topo_from deps (set pre) vs" "distinct (pre @ vs)"
    "\<And>u. u \<in> set pre \<Longrightarrow> set (deps u) \<subseteq> set pre"
    "\<And>v. v \<in> set vs \<Longrightarrow> \<exists>t. dget by_id v = Some t \<and> tn_depends_on t = deps v"
  shows "\<exists>sp'. score_paths weights by_id vs sp = Some sp' \<and> scored deps weights (pre @ vs) sp'"
  using assms
proof (induction vs arbitrary: pre sp)
  case Nil
  then show ?case by (cases sp) auto
next
  case (Cons v vs)
  obtain score parent where sp: "sp = (score, parent)" by fastforce
  obtain t where t: "dget by_id v = Some t" "tn_depends_on t = deps v" using Cons.prems(5) by force
  obtain bp bs where best: "best_dependency score (sort (deps v)) (None, 0) = (bp, bs)" by fastforce
  let ?sp = "(dput v (bs + weight_of weights v) score, dput v bp parent)"
  have "scored deps weights (pre @ [v]) ?sp"
    by (rule scored_step [OF Cons.prems(1) [unfolded sp] _ _ Cons.prems(4) best])
      (use Cons.prems(2,3) in auto)
  moreover have "topo_from deps (set (pre @ [v])) vs" using Cons.prems(2) by simp
  moreover have "distinct ((pre @ [v]) @ vs)" using Cons.prems(3) by simp
  moreover have "set (deps u) \<subseteq> set (pre @ [v])" if "u \<in> set (pre @ [v])" for u
    using that Cons.prems(2,4) by auto
  ultimately have "\<exists>sp'. score_paths weights by_id vs ?sp = Some sp'
      \<and> scored deps weights ((pre @ [v]) @ vs) sp'"
    using Cons.prems(5) by (intro Cons.IH) auto
  then show ?case using t best sp by simp
qed

lemma scored_root:
  "scored deps weights order sp \<Longrightarrow> v \<in> set order \<Longrightarrow> deps v = [] \<Longrightarrow>
     dget (snd sp) v = Some None \<and> score_of (fst sp) v = weight_of weights v"
  by (simp add: scored_def)

lemma scored_inner:
  "scored deps weights order sp \<Longrightarrow> v \<in> set order \<Longrightarrow> deps v \<noteq> [] \<Longrightarrow>
     \<exists>d \<in> set (deps v). dget (snd sp) v = Some (Some d)
       \<and> score_of (fst sp) v = score_of (fst sp) d + weight_of weights v
       \<and> (\<forall>e \<in> set (deps v). score_of (fst sp) e \<le> score_of (fst sp) d)"
  by (simp add: scored_def)

lemma scored_nonneg: "scored deps weights order sp \<Longrightarrow> 0 \<le> score_of (fst sp) v"
  by (cases "v \<in> set order")
    (simp_all add: scored_def, metis dget_dkeys option.case_eq_if order_refl score_of_def)

lemma scored_le:
  assumes "scored deps weights order sp" "v \<in> set order"
  shows "weight_of weights v \<le> score_of (fst sp) v"
    "e \<in> set (deps v) \<Longrightarrow> score_of (fst sp) e + weight_of weights v \<le> score_of (fst sp) v"
proof -
  show "weight_of weights v \<le> score_of (fst sp) v"
    using scored_root [OF assms] scored_inner [OF assms] scored_nonneg [OF assms(1)]
    by (cases "deps v = []") fastforce+
  show "score_of (fst sp) e + weight_of weights v \<le> score_of (fst sp) v" if "e \<in> set (deps v)"
    using that scored_inner [OF assms] by force
qed

section \<open>The answer\<close>

lemma best_end_spec:
  "best_end (v, c) score = e \<Longrightarrow> \<exists>d. (e, d) \<in> set ((v, c) # score) \<and> (\<forall>(w, x) \<in> set ((v, c) # score). x \<le> d)"
proof (induction "(v, c)" score arbitrary: v c rule: best_end.induct)
  case (2 v c w d score)
  let ?next = "if (- d, w) < (- c, v) then (w, d) else (v, c)"
  obtain u b where next_is: "?next = (u, b)" by fastforce
  have "c \<le> b" "d \<le> b" using next_is by (auto split: if_splits)
  moreover have "(u, b) \<in> {(v, c), (w, d)}" using next_is by (auto split: if_splits)
  ultimately show ?case using 2 next_is by fastforce
qed auto

lemma path_weight_le:
  assumes "scored deps weights order sp" "set p \<subseteq> set order" "p \<noteq> []"
    "successively (\<lambda>a b. a \<in> set (deps b)) p"
  shows "path_weight weights p \<le> score_of (fst sp) (last p)"
  using assms(2-4)
proof (induction p rule: rev_induct)
  case (snoc v p)
  show ?case
  proof (cases "p = []")
    case True
    have "v \<in> set order" using snoc.prems by simp
    then have "weight_of weights v \<le> score_of (fst sp) v" by (rule scored_le [OF assms(1)])
    with True show ?thesis by (simp add: path_weight_def)
  next
    case False
    then have edge: "last p \<in> set (deps v)" and "successively (\<lambda>a b. a \<in> set (deps b)) p"
      using snoc.prems(3) by (auto simp: successively_append_iff)
    with snoc False have "path_weight weights p \<le> score_of (fst sp) (last p)" by simp
    moreover have "score_of (fst sp) (last p) + weight_of weights v \<le> score_of (fst sp) v"
      using scored_le(2) [OF assms(1) _ edge] snoc.prems(1) by simp
    ultimately show ?thesis by (simp add: path_weight_def)
  qed
qed simp

lemma follow_parents_run:
  assumes sc: "scored deps weights order sp" and topo: "topo_from deps {} order"
  shows "i < length order \<Longrightarrow> i < n \<Longrightarrow>
    \<exists>q. follow_parents n (snd sp) (Some (order ! i)) path = Some (path @ q) \<and> q \<noteq> []
      \<and> hd q = order ! i \<and> set q \<subseteq> set order \<and> deps (last q) = []
      \<and> successively (\<lambda>a b. a \<in> set (deps b)) (rev q)
      \<and> path_weight weights q = score_of (fst sp) (order ! i)"
proof (induction i arbitrary: n path rule: less_induct)
  case (less i)
  let ?v = "order ! i"
  have v: "?v \<in> set order" using less.prems by simp
  obtain m where n: "n = Suc m" using less.prems(2) by (cases n) auto
  show ?case
  proof (cases "deps ?v = []")
    case True
    note scored_root [OF sc v True]
    with True v show ?thesis by (intro exI [of _ "[?v]"]) (simp add: n path_weight_def)
  next
    case False
    with scored_inner [OF sc v] obtain d where d: "d \<in> set (deps ?v)"
      "dget (snd sp) ?v = Some (Some d)"
      "score_of (fst sp) ?v = score_of (fst sp) d + weight_of weights ?v" by blast
    have "d \<in> set (take i order)" using topo_from_prefix [OF topo less.prems(1)] d(1) by auto
    then obtain j where j: "j < i" "j < length order" "order ! j = d"
      using less.prems(1) by (auto simp: in_set_conv_nth)
    have "j < m" using j(1) less.prems(2) n by simp
    from less.IH [OF j(1,2) this, of "path @ [?v]"]
    obtain q where q: "follow_parents m (snd sp) (Some d) (path @ [?v]) = Some ((path @ [?v]) @ q)"
      "q \<noteq> []" "hd q = d" "set q \<subseteq> set order" "deps (last q) = []"
      "successively (\<lambda>a b. a \<in> set (deps b)) (rev q)" "path_weight weights q = score_of (fst sp) d"
      unfolding j(3) by blast
    have "successively (\<lambda>a b. a \<in> set (deps b)) (rev (?v # q))"
      using q(2,3,6) d(1) by (simp add: successively_append_iff last_rev)
    with q d v show ?thesis
      by (intro exI [of _ "?v # q"]) (simp add: n path_weight_def)
  qed
qed

lemma critical_path_run:
  assumes ok: "graph_ok (node_graph node)" and acyc: "graph_acyclic (node_graph node)"
  shows "\<exists>path c. critical_path node weights = Inr (path, c) \<and> dep_path node path
    \<and> gdeps (node_graph node) (hd path) = [] \<and> c = path_weight weights path
    \<and> (\<forall>p. dep_path node p \<longrightarrow> path_weight weights p \<le> c)"
proof -
  let ?deps = "gdeps (node_graph node)"
  let ?o = "kahn_order node"
  have dist: "distinct_ids node" using ok by (simp add: graph_ok_def dwf_def distinct_ids_def)
  have kacyc: "known_acyclic node" using kahn_order_graph(2) [OF ok] acyc by simp
  have run: "topological_order node = Inr ?o" using topological_order_run [OF dist] kacyc by simp
  from dsl.order_sound [OF ok] have ord: "distinct ?o" "set ?o = set (map tn_id (wn_tasks node))"
    "topo_from ?deps {} ?o"
    by (simp_all add: dsl_sorter_node [OF ok] run)
  have by_id: "\<exists>t. dget (nodes_by_id node) v = Some t \<and> tn_depends_on t = ?deps v"
    if v: "v \<in> set ?o" for v
  proof -
    obtain t where t: "t \<in> set (wn_tasks node)" "v = tn_id t" using v ord(2) by auto
    then have "(v, tn_depends_on t) \<in> set (node_graph node)" by (auto simp: node_graph_def)
    then have "?deps v = tn_depends_on t" using ok by (auto simp: graph_ok_def intro: gdeps_mem)
    with nodes_by_id_get [OF dist [unfolded distinct_ids_def] t(1)] t(2) show ?thesis by simp
  qed
  have "scored ?deps weights [] ([], [])" by (simp add: scored_def)
  then have "\<exists>sp. score_paths weights (nodes_by_id node) ?o ([], []) = Some sp
      \<and> scored ?deps weights ([] @ ?o) sp"
    by (rule score_paths_run) (use ord by_id in simp_all)
  then obtain sp where sp: "score_paths weights (nodes_by_id node) ?o ([], []) = Some sp"
    and sc: "scored ?deps weights ?o sp" unfolding append_Nil by blast
  obtain score parent where pair: "sp = (score, parent)" by fastforce
  have "?o \<noteq> []" using ord(2) ok by (auto simp: graph_ok_def node_graph_def)
  then obtain v c rest where score: "score = (v, c) # rest"
    using sc pair by (cases score) (auto simp: scored_def)
  define e where "e = best_end (v, c) rest"
  have wf: "dwf score" "dkeys score = ?o" using sc by (auto simp: scored_def pair)
  obtain top where top: "(e, top) \<in> set score" "\<forall>(w, x) \<in> set score. x \<le> top"
    using best_end_spec [OF e_def [symmetric]] score by auto
  then have e: "dget score e = Some top" "e \<in> set ?o"
    using dget_iff_mem [OF wf(1)] by (simp, force simp: wf(2) [symmetric] dkeys_def)
  then obtain i where i: "i < length ?o" "?o ! i = e" by (auto simp: in_set_conv_nth)
  from follow_parents_run [OF sc ord(3) i(1) i(1), of "[]"] obtain q
    where q: "follow_parents (length ?o) parent (Some e) [] = Some q" "q \<noteq> []" "hd q = e"
      "set q \<subseteq> set ?o" "?deps (last q) = []" "successively (\<lambda>a b. a \<in> set (?deps b)) (rev q)"
      "path_weight weights q = score_of score e"
    unfolding i(2) pair by auto
  have best: "path_weight weights p \<le> top" if p: "dep_path node p" for p
  proof -
    have "path_weight weights p \<le> score_of score (last p)"
      using path_weight_le [OF sc, of p] p ord(2) by (simp add: dep_path_def pair)
    moreover have "last p \<in> set (dkeys score)" using p ord(2) wf(2) by (auto simp: dep_path_def)
    then obtain x where "dget score (last p) = Some x" by (auto simp: dget_dkeys)
    moreover have "x \<le> top" using top(2) \<open>dget score (last p) = Some x\<close> by (auto dest: map_of_SomeD)
    ultimately show ?thesis by (simp add: score_of_def)
  qed
  have "path_weight weights (rev q) = top"
    using q(7) e(1) by (simp add: score_of_def path_weight_def rev_map [symmetric] sum_list_rev)
  moreover have "critical_path node weights = Inr (rev q, top)"
    using run sp pair score q(1) e(1) by (simp add: critical_path_def e_def Let_def)
  moreover have "dep_path node (rev q)" using q ord(2) by (simp add: dep_path_def)
  moreover have "?deps (hd (rev q)) = []" using q(2,5) by (simp add: hd_rev)
  ultimately show ?thesis using best by auto
qed

end
