(* ===== verification/Dsl_Levels.thy ===== *)
theory Dsl_Levels
  imports Dsl_Path
begin

text \<open>
  \<open>estimate_parallelism\<close>: its loop goes through the levels of the graph, the tasks whose longest
  chain of dependencies has a given number of tasks, and returns the size of the widest level.
\<close>

section \<open>Levels\<close>

fun within :: "('a \<Rightarrow> 'a list) \<Rightarrow> 'a set \<Rightarrow> nat \<Rightarrow> 'a set" where
  "within deps V 0 = {}"
| "within deps V (Suc k) = {v \<in> V. set (deps v) \<subseteq> within deps V k}"

definition level_set :: "('a \<Rightarrow> 'a list) \<Rightarrow> 'a set \<Rightarrow> nat \<Rightarrow> 'a set" where
  "level_set deps V k = within deps V (Suc k) - within deps V k"

lemma within_Suc: "within deps V k \<subseteq> within deps V (Suc k)"
  by (induction k) auto

lemma within_mono: "i \<le> j \<Longrightarrow> within deps V i \<subseteq> within deps V j"
  using lift_Suc_mono_le [of "within deps V", OF within_Suc] .

lemma within_V: "within deps V k \<subseteq> V"
  by (cases k) auto

lemma within_stop:
  assumes "level_set deps V k = {}" "k \<le> j"
  shows "level_set deps V j = {}"
proof -
  have step: "within deps V (Suc k) = within deps V k"
    using assms(1) within_Suc [of deps V k] by (auto simp: level_set_def)
  have "within deps V (k + n) = within deps V k" for n
    by (induction n) (use step in auto)
  from this [of "j - k"] this [of "Suc j - k"] assms(2) show ?thesis
    by (simp add: level_set_def Suc_diff_le)
qed

text \<open>A task is within \<open>k\<close> levels when no chain of dependencies that ends in it has more tasks.\<close>

definition chain_to :: "('a \<Rightarrow> 'a list) \<Rightarrow> 'a \<Rightarrow> 'a list \<Rightarrow> bool" where
  "chain_to deps v p \<longleftrightarrow> p \<noteq> [] \<and> last p = v \<and> successively (\<lambda>a b. a \<in> set (deps b)) p"

lemma chain_to_snoc:
  "chain_to deps v p \<longleftrightarrow> p = [v] \<or> (\<exists>q d. p = q @ [v] \<and> d \<in> set (deps v) \<and> chain_to deps d q)"
  by (cases p rule: rev_cases) (auto simp: chain_to_def successively_append_iff)

lemma within_iff:
  "v \<in> V \<Longrightarrow> (\<And>u. u \<in> V \<Longrightarrow> set (deps u) \<subseteq> V) \<Longrightarrow>
     v \<in> within deps V k \<longleftrightarrow> (\<forall>p. chain_to deps v p \<longrightarrow> length p \<le> k)"
proof (induction k arbitrary: v)
  case 0
  have "chain_to deps v [v]" by (simp add: chain_to_def)
  then show ?case by auto
next
  case (Suc k)
  have "v \<in> within deps V (Suc k) \<longleftrightarrow> (\<forall>d \<in> set (deps v). \<forall>q. chain_to deps d q \<longrightarrow> length q \<le> k)"
    using Suc by (auto simp: subset_iff)
  also have "\<dots> \<longleftrightarrow> (\<forall>p. p = [v] \<or> (\<exists>q d. p = q @ [v] \<and> d \<in> set (deps v) \<and> chain_to deps d q)
      \<longrightarrow> length p \<le> Suc k)" by (auto, metis Suc_le_mono length_append_singleton)
  also have "\<dots> \<longleftrightarrow> (\<forall>p. chain_to deps v p \<longrightarrow> length p \<le> Suc k)"
    by (simp only: chain_to_snoc [of deps v])
  finally show ?case .
qed

section \<open>One wave\<close>

lemma sort_snoc_sort: "sort (sort xs @ ys) = sort (xs @ ys)"
  by (rule properties_for_sort) simp_all

lemma relax_lower:
  "lower_degrees cs (indeg, ready) = (indeg', ready') \<Longrightarrow> relax cs indeg (sort ready) = (indeg', sort ready')"
proof (induction cs arbitrary: indeg ready)
  case (Cons c cs)
  from Cons.prems Cons.IH show ?case
    by (auto simp: Let_def sort_snoc_sort split: if_splits)
qed simp

lemma lower_degrees_append: "lower_degrees (xs @ ys) s = lower_degrees ys (lower_degrees xs s)"
  by (induction xs s rule: lower_degrees.induct) (auto simp: Let_def)

lemma run_wave_concat:
  "run_wave children wave indeg = lower_degrees (concat (map (dlist children) wave)) (indeg, [])"
proof -
  have "fold (\<lambda>v. lower_degrees (dlist children v)) wave s
    = lower_degrees (concat (map (dlist children) wave)) s" for s
    by (induction wave arbitrary: s) (auto simp: lower_degrees_append)
  then show ?thesis by (simp add: run_wave_def)
qed

lemma count_concat_children:
  assumes "distinct wave" "\<And>c. c \<in> set wave \<Longrightarrow> count_list (children c) v = count_list ds c"
  shows "count_list (concat (map children wave)) v = length (filter (\<lambda>d. d \<in> set wave) ds)"
  using assms
proof (induction wave)
  case (Cons c wave)
  have "length (filter (\<lambda>d. d \<in> set (c # wave)) ds)
    = count_list ds c + length (filter (\<lambda>d. d \<in> set wave) ds)"
    using Cons.prems(1) by (induction ds) auto
  with Cons show ?case by simp
qed simp

lemma length_filter_split:
  "W \<inter> D = {} \<Longrightarrow> length (filter (\<lambda>d. d \<notin> D) ds)
     = length (filter (\<lambda>d. d \<in> W) ds) + length (filter (\<lambda>d. d \<notin> D \<union> W) ds)"
  by (induction ds) auto

definition wave_inv ::
  "(pystr \<Rightarrow> pystr list) \<Rightarrow> pystr set \<Rightarrow> (pystr, int) dict \<Rightarrow> pystr list \<Rightarrow> nat \<Rightarrow> bool" where
  "wave_inv deps V indeg ready k \<longleftrightarrow> distinct ready \<and> set ready = level_set deps V k
     \<and> (\<forall>v \<in> V. dget indeg v = Some (int (length (filter (\<lambda>d. d \<notin> within deps V k) (deps v)))))"

lemma wave_step:
  assumes inv: "wave_inv deps V indeg ready k"
    and run: "run_wave children ready indeg = (indeg', ready')"
    and counts: "\<And>c v. c \<in> V \<Longrightarrow> v \<in> V \<Longrightarrow> count_list (dlist children c) v = count_list (deps v) c"
    and inside: "\<And>c. c \<in> V \<Longrightarrow> set (dlist children c) \<subseteq> V"
  shows "wave_inv deps V indeg' (sort ready') (Suc k)"
proof -
  note I = inv [unfolded wave_inv_def]
  let ?D = "within deps V k" and ?D' = "within deps V (Suc k)"
  let ?cs = "concat (map (dlist children) ready)"
  let ?n = "\<lambda>v. int (length (filter (\<lambda>d. d \<notin> ?D) (deps v)))"
  have D': "?D' = ?D \<union> set ready" and disj: "set ready \<inter> ?D = {}"
    using I within_Suc [of deps V k] by (auto simp: level_set_def)
  have "set ready \<subseteq> within deps V (Suc k)" using I unfolding level_set_def by blast
  then have readyV: "set ready \<subseteq> V" using within_V [of deps V "Suc k"] by blast
  have cnt: "count_list ?cs v = length (filter (\<lambda>d. d \<in> set ready) (deps v))" if "v \<in> V" for v
    by (rule count_concat_children) (use I counts readyV that in auto)
  have n: "?n v = int (count_list ?cs v) + int (length (filter (\<lambda>d. d \<notin> ?D') (deps v)))"
    if "v \<in> V" for v
    using length_filter_split [OF disj, of "deps v"] cnt [OF that] D' by simp
  have "relax ?cs indeg [] = (indeg', sort ready')"
    using relax_lower [of ?cs indeg "[]"] run by (simp add: run_wave_concat)
  from relax_spec [OF this, of V ?n]
  have spec: "(\<forall>v \<in> V. dget indeg' v = Some (?n v - int (count_list ?cs v)))
    \<and> distinct (sort ready') \<and> set (sort ready') = {v \<in> set ?cs. ?n v = int (count_list ?cs v)}"
    using I n inside readyV by auto
  have "set (sort ready') = level_set deps V (Suc k)"
  proof -
    have csV: "set ?cs \<subseteq> V" using inside readyV by auto
    have "v \<in> set ?cs \<longleftrightarrow> set (deps v) \<inter> set ready \<noteq> {}" if "v \<in> V" for v
      using cnt [OF that] by (metis count_list_0_iff disjoint_iff filter_empty_conv length_0_conv)
    moreover have "?n v = int (count_list ?cs v) \<longleftrightarrow> set (deps v) \<subseteq> ?D'" if "v \<in> V" for v
      using n [OF that] by (auto simp: filter_empty_conv simp del: within.simps)
    ultimately have "set (sort ready') = {v \<in> V. set (deps v) \<subseteq> ?D' \<and> set (deps v) \<inter> set ready \<noteq> {}}"
      using spec csV by blast
    also have "\<dots> = {v \<in> V. set (deps v) \<subseteq> ?D' \<and> \<not> set (deps v) \<subseteq> ?D}"
      using D' disj by blast
    also have "\<dots> = level_set deps V (Suc k)"
      by (auto simp: level_set_def)
    finally show ?thesis .
  qed
  moreover have "dget indeg' v = Some (int (length (filter (\<lambda>d. d \<notin> ?D') (deps v))))" if "v \<in> V" for v
    using spec n [OF that] that by simp
  ultimately show ?thesis using spec by (simp add: wave_inv_def del: within.simps)
qed

lemma wave_widths_run:
  assumes "wave_inv deps V indeg ready k"
    and "\<And>c v. c \<in> V \<Longrightarrow> v \<in> V \<Longrightarrow> count_list (dlist children c) v = count_list (deps v) c"
    and "\<And>c. c \<in> V \<Longrightarrow> set (dlist children c) \<subseteq> V"
  shows "maximum \<le> wave_widths children indeg ready maximum
    \<and> (\<forall>j > k. card (level_set deps V j) \<le> wave_widths children indeg ready maximum)
    \<and> (wave_widths children indeg ready maximum = maximum
       \<or> (\<exists>j > k. wave_widths children indeg ready maximum = card (level_set deps V j)))"
  using assms
proof (induction children indeg ready maximum arbitrary: k rule: wave_widths.induct)
  case (1 children indeg ready maximum)
  show ?case
  proof (cases "ready = []")
    case True
    then have "level_set deps V k = {}" using "1.prems"(1) by (simp add: wave_inv_def)
    then have "level_set deps V j = {}" if "k < j" for j using within_stop that by (metis less_imp_le)
    with True show ?thesis by (simp add: wave_widths.simps)
  next
    case False
    obtain indeg' ready' where run: "run_wave children ready indeg = (indeg', ready')" by fastforce
    have inv: "wave_inv deps V indeg' (sort ready') (Suc k)"
      by (rule wave_step [OF "1.prems"(1) run "1.prems"(2,3)])
    then have "distinct (sort ready')" "set (sort ready') = level_set deps V (Suc k)"
      by (simp_all add: wave_inv_def)
    then have len: "length ready' = card (level_set deps V (Suc k))"
      by (metis distinct_card length_sort)
    let ?r = "wave_widths children indeg' (sort ready') (max maximum (length ready'))"
    have r: "wave_widths children indeg ready maximum = ?r"
      using False run by (simp add: wave_widths.simps [of children indeg ready])
    have IH: "max maximum (length ready') \<le> ?r \<and> (\<forall>j > Suc k. card (level_set deps V j) \<le> ?r)
      \<and> (?r = max maximum (length ready') \<or> (\<exists>j > Suc k. ?r = card (level_set deps V j)))"
      by (rule "1.IH" [OF False run [symmetric] inv "1.prems"(2,3)])
    have "card (level_set deps V j) \<le> ?r" if "k < j" for j
      using that IH len by (cases "j = Suc k") auto
    moreover have "?r = maximum \<or> (\<exists>j > k. ?r = card (level_set deps V j))"
    proof -
      consider "?r = maximum" | "?r = length ready'" | j where "Suc k < j" "?r = card (level_set deps V j)"
        using IH by (auto simp: max_def split: if_splits)
      then show ?thesis by cases (use len in \<open>auto intro: Suc_lessD\<close>)
    qed
    ultimately show ?thesis using IH r by auto
  qed
qed

section \<open>The estimate\<close>

lemma estimate_widest:
  assumes "distinct_ids node"
  defines "L \<equiv> level_set (known_deps (nodes_by_id node)) (set (map tn_id (wn_tasks node)))"
  shows "(\<exists>k. estimate_parallelism node = card (L k)) \<and> (\<forall>k. card (L k) \<le> estimate_parallelism node)"
proof -
  note dist = assms(1) [unfolded distinct_ids_def]
  let ?V = "set (map tn_id (wn_tasks node))" and ?deps = "known_deps (nodes_by_id node)"
  let ?known = "\<lambda>d. dget (nodes_by_id node) d \<noteq> None"
  let ?indeg = "fold (\<lambda>t. dput (tn_id t) (int (length (filter ?known (tn_depends_on t))))) (wn_tasks node) []"
  let ?ready = "sort (map fst (filter (\<lambda>(k, n). n = 0) ?indeg))"
  have keys: "set (dkeys ?indeg) = ?V" by (simp add: fold_dput_keys)
  have wf: "dwf ?indeg" by (simp add: fold_dput_wf)
  have at: "dget ?indeg v = Some (int (length (?deps v)))" if "v \<in> ?V" for v
  proof -
    from that obtain t where t: "t \<in> set (wn_tasks node)" "v = tn_id t" by auto
    have "?deps v = filter ?known (tn_depends_on t)"
      using nodes_by_id_get [OF dist t(1)] t(2) by (simp add: known_deps_def dget_dkeys)
    then show ?thesis
      using fold_dput_get [OF dist t(1), of "\<lambda>t. int (length (filter ?known (tn_depends_on t)))"] t(2)
      by simp
  qed
  have "set ?ready = level_set ?deps ?V 0"
  proof -
    have "v \<in> set ?ready \<longleftrightarrow> dget ?indeg v = Some 0" for v
      using dget_iff_mem [OF wf, of v 0] by force
    moreover have "dget ?indeg v = Some 0 \<longleftrightarrow> v \<in> ?V \<and> ?deps v = []" for v
      using at keys dget_dkeys [of v ?indeg] by (cases "v \<in> ?V") auto
    ultimately show ?thesis by (auto simp: level_set_def)
  qed
  moreover have "distinct ?ready" using wf by (simp add: dwf_def dkeys_def distinct_map_filter)
  ultimately have inv: "wave_inv ?deps ?V ?indeg ?ready 0" using at by (simp add: wave_inv_def)
  have counts: "count_list (dlist (reverse_edges node) c) v = count_list (?deps v) c"
    if "c \<in> ?V" "v \<in> ?V" for c v
    by (rule children_count [OF assms(1) that])
  have inside: "set (dlist (reverse_edges node) c) \<subseteq> ?V" for c by (auto simp: reverse_edges_mem)
  have est: "estimate_parallelism node = wave_widths (reverse_edges node) ?indeg ?ready (length ?ready)"
    by (simp only: estimate_parallelism_def Let_def)
  have "length ?ready = card (set ?ready)" by (rule distinct_card [OF \<open>distinct ?ready\<close>, symmetric])
  then have len: "length ?ready = card (L 0)"
    unfolding \<open>set ?ready = level_set ?deps ?V 0\<close> L_def .
  note result = wave_widths_run [OF inv counts inside, of "length ?ready", folded est L_def]
  have "card (L k) \<le> estimate_parallelism node" for k
    using result len by (cases "k = 0") auto
  moreover have "\<exists>k. estimate_parallelism node = card (L k)"
    using result len by auto
  ultimately show ?thesis by blast
qed

text \<open>The tasks are spread over as many levels as the longest path has tasks.\<close>

lemma width_bound:
  assumes ok: "graph_ok (node_graph node)"
    and long: "\<forall>p. dep_path node p \<longrightarrow> length p \<le> l"
  shows "length (wn_tasks node) \<le> estimate_parallelism node * l"
proof -
  have dist: "distinct_ids node" using ok by (simp add: graph_ok_def dwf_def distinct_ids_def)
  let ?V = "set (map tn_id (wn_tasks node))" and ?deps = "known_deps (nodes_by_id node)"
  have same: "?deps v = gdeps (node_graph node) v" if "v \<in> ?V" for v
    by (rule known_deps_graph [OF ok that])
  have closed: "set (?deps u) \<subseteq> ?V" for u
    using known_deps_closed [of "nodes_by_id node" u] by (simp add: nodes_by_id_keys)
  have inside: "v \<in> within ?deps ?V l" if v: "v \<in> ?V" for v
  proof -
    have "dep_path node p" if p: "chain_to ?deps v p" for p
    proof -
      have "set p \<subseteq> ?V" using p v
      proof (induction p arbitrary: v rule: rev_induct)
        case (snoc u p)
        then have "u = v" by (simp add: chain_to_def)
        show ?case
        proof (cases "p = []")
          case True
          then show ?thesis using snoc \<open>u = v\<close> by simp
        next
          case False
          then have "chain_to ?deps (last p) p" "last p \<in> set (?deps v)"
            using snoc.prems(1) \<open>u = v\<close> by (auto simp: chain_to_def successively_append_iff)
          moreover have "last p \<in> ?V" using calculation(2) closed by blast
          ultimately show ?thesis using snoc.IH snoc.prems(2) \<open>u = v\<close> by simp
        qed
      qed (simp add: chain_to_def)
      moreover have "successively (\<lambda>a b. a \<in> set (gdeps (node_graph node) b)) p"
      proof -
        have "a \<in> set (gdeps (node_graph node) b)" if "a \<in> set p" "b \<in> set p" "a \<in> set (?deps b)" for a b
          using same [of b] that \<open>set p \<subseteq> ?V\<close> by auto
        then show ?thesis using p by (auto simp: chain_to_def elim: successively_mono [rotated])
      qed
      ultimately show ?thesis using p by (simp add: dep_path_def chain_to_def)
    qed
    moreover have "v \<in> within ?deps ?V l \<longleftrightarrow> (\<forall>p. chain_to ?deps v p \<longrightarrow> length p \<le> l)"
      by (rule within_iff [OF v]) (rule closed)
    ultimately show ?thesis using long by blast
  qed
  have "card (within ?deps ?V k) \<le> estimate_parallelism node * k" for k
  proof (induction k)
    case (Suc k)
    have "within ?deps ?V (Suc k) = within ?deps ?V k \<union> level_set ?deps ?V k"
      using within_Suc [of ?deps ?V k] by (auto simp: level_set_def)
    then have "card (within ?deps ?V (Suc k)) \<le> card (within ?deps ?V k) + card (level_set ?deps ?V k)"
      by (simp only: card_Un_le)
    moreover have "card (level_set ?deps ?V k) \<le> estimate_parallelism node"
      using estimate_widest [OF dist] by blast
    ultimately show ?case using Suc by simp
  qed simp
  from this [of l] have "card (within ?deps ?V l) \<le> estimate_parallelism node * l" .
  moreover have "within ?deps ?V l = ?V" using inside within_V [of ?deps ?V l] by blast
  moreover have "card ?V = length (wn_tasks node)"
    using distinct_card [OF dist [unfolded distinct_ids_def]] by simp
  ultimately show ?thesis by simp
qed

section \<open>A workflow wider than its levels\<close>

definition fork_node :: workflow_node where
  "fork_node = graph_node [(lit ''a'', []), (lit ''b'', []), (lit ''w'', [lit ''a'']), (lit ''x'', [lit ''a'']),
     (lit ''m'', [lit ''b'']), (lit ''y'', [lit ''m'']), (lit ''z'', [lit ''m''])]"

definition fork_ids :: "pystr list" where
  "fork_ids = [lit ''w'', lit ''x'', lit ''y'', lit ''z'']"

lemma fork_needs:
  assumes "a \<in> set (gdeps (node_graph fork_node) b)"
  shows "a \<notin> set fork_ids"
proof -
  have "list_all (\<lambda>(v, ds). list_all (\<lambda>d. d \<notin> set fork_ids) ds) (node_graph fork_node)" by code_simp
  moreover obtain ds where "dget (node_graph fork_node) b = Some ds" "a \<in> set ds"
    using assms by (cases "dget (node_graph fork_node) b") (simp_all add: gdeps_def)
  ultimately show ?thesis by (auto simp: list_all_iff dest!: map_of_SomeD)
qed

lemma path_one_of:
  assumes "successively R p" "\<And>a b. R a b \<Longrightarrow> a \<notin> S"
  shows "length (filter (\<lambda>v. v \<in> S) p) \<le> 1"
  using assms(1)
proof (induction p rule: induct_list012)
  case (3 a b p)
  then have "a \<notin> S" using assms(2) by auto
  with 3 show ?case by simp
qed auto

lemma fork_paths: "dep_path fork_node p \<Longrightarrow> length (filter (\<lambda>v. v \<in> set fork_ids) p) \<le> 1"
  unfolding dep_path_def by (intro path_one_of [of "\<lambda>a b. a \<in> set (gdeps (node_graph fork_node) b)"])
    (auto dest: fork_needs)

end
