(* ===== verification/Dsl_Compile.thy ===== *)
theory Dsl_Compile
  imports Dsl_Levels
begin

text \<open>
  \<open>validate\<close> reports no error exactly on the valid syntax trees, and \<open>compile_node\<close> turns exactly
  those into a workflow definition, its tasks in topological order.
\<close>

definition valid_task_node :: "pystr list \<Rightarrow> task_node \<Rightarrow> bool" where
  "valid_task_node ids t \<longleftrightarrow> tn_command t \<noteq> [] \<and> tn_id t \<notin> set (tn_depends_on t)
     \<and> distinct (tn_depends_on t) \<and> set (tn_depends_on t) \<subseteq> set ids \<and> tn_timeout_seconds t \<le> 86400"

definition valid_node :: "workflow_node \<Rightarrow> bool" where
  "valid_node node \<longleftrightarrow> strip (wn_name node) \<noteq> [] \<and> wn_tasks node \<noteq> [] \<and> distinct_ids node
     \<and> (\<forall>t \<in> set (wn_tasks node). valid_task_node (map tn_id (wn_tasks node)) t)
     \<and> graph_acyclic (node_graph node)"

lemma is_error_simps [simp]:
  "is_error \<lparr>dg_finding = Empty_name, dg_line = l\<rparr>"
  "is_error \<lparr>dg_finding = Without_tasks, dg_line = l\<rparr>"
  "is_error \<lparr>dg_finding = Duplicate_id i, dg_line = l\<rparr>"
  "is_error \<lparr>dg_finding = No_command i, dg_line = l\<rparr>"
  "is_error \<lparr>dg_finding = Self_reference i, dg_line = l\<rparr>"
  "is_error \<lparr>dg_finding = Repeated_needs i, dg_line = l\<rparr>"
  "is_error \<lparr>dg_finding = Unknown_needs i d, dg_line = l\<rparr>"
  "is_error \<lparr>dg_finding = Timeout_too_long i, dg_line = l\<rparr>"
  "is_error \<lparr>dg_finding = Cycle_found c, dg_line = l\<rparr>"
  "\<not> is_error \<lparr>dg_finding = Long_argv i, dg_line = l\<rparr>"
  "\<not> is_error \<lparr>dg_finding = Many_retries i n, dg_line = l\<rparr>"
  "\<not> is_error \<lparr>dg_finding = Many_roots k, dg_line = l\<rparr>"
  "\<not> is_error \<lparr>dg_finding = Many_sinks k, dg_line = l\<rparr>"
  by (simp_all add: is_error_def)

lemma distinct_length_remdups: "length xs \<noteq> length (remdups xs) \<longleftrightarrow> \<not> distinct xs"
  by (metis length_remdups_card_conv distinct_card card_distinct)

lemma task_findings_errors:
  assumes "set (dkeys by_id) \<subseteq> set ids"
  shows "filter is_error (map (\<lambda>f. \<lparr>dg_finding = f, dg_line = l\<rparr>) (task_findings ids by_id t)) = []
    \<longleftrightarrow> valid_task_node ids t"
proof -
  have "dget by_id d = None \<and> d \<notin> set ids \<longleftrightarrow> d \<notin> set ids" for d
    using assms dget_dkeys [of d by_id] by auto
  then have unknown: "filter (\<lambda>d. dget by_id d = None \<and> d \<notin> set ids) ds = [] \<longleftrightarrow> set ds \<subseteq> set ids" for ds
    by (auto simp: filter_empty_conv)
  have "filter is_error (map (\<lambda>f. \<lparr>dg_finding = f, dg_line = l\<rparr>) (map (Unknown_needs i) ds)) = []
      \<longleftrightarrow> ds = []" for i ds by (cases ds) simp_all
  then show ?thesis
    unfolding task_findings_def valid_task_node_def map_append filter_append append_is_Nil_conv
      distinct_length_remdups unknown [symmetric]
    by auto
qed

lemma validate_tasks_errors:
  "set (map tn_id ts) \<union> set (dkeys by_id) \<subseteq> set ids \<Longrightarrow>
     filter is_error (fst (validate_tasks ids ts by_id)) = []
     \<longleftrightarrow> distinct (map tn_id ts) \<and> set (map tn_id ts) \<inter> set (dkeys by_id) = {}
       \<and> (\<forall>t \<in> set ts. valid_task_node ids t)"
proof (induction ts arbitrary: by_id)
  case (Cons t ts)
  show ?case
  proof (cases "dget by_id (tn_id t) = None")
    case True
    let ?b = "dput (tn_id t) t by_id"
    have sub: "set (dkeys ?b) \<subseteq> set ids" using Cons.prems by (auto simp: dict_simps)
    have IH: "filter is_error (fst (validate_tasks ids ts ?b)) = []
      \<longleftrightarrow> distinct (map tn_id ts) \<and> set (map tn_id ts) \<inter> set (dkeys ?b) = {}
        \<and> (\<forall>t \<in> set ts. valid_task_node ids t)"
      using Cons.prems sub by (intro Cons.IH) auto
    have fresh: "tn_id t \<notin> set (dkeys by_id)" using True by (simp add: dget_dkeys)
    have "filter is_error (fst (validate_tasks ids (t # ts) by_id)) = [] \<longleftrightarrow>
        valid_task_node ids t \<and> filter is_error (fst (validate_tasks ids ts ?b)) = []"
      using True task_findings_errors [OF sub, of "tn_line t" t]
      by (simp add: Let_def split: prod.split)
    then show ?thesis using IH fresh by (auto simp: dict_simps)
  next
    case False
    then have "filter is_error (fst (validate_tasks ids (t # ts) by_id)) \<noteq> []"
      by (simp add: Let_def split: prod.split)
    with False show ?thesis by (auto simp: dget_dkeys)
  qed
qed simp

lemma valid_graph_ok:
  assumes "wn_tasks node \<noteq> []" "distinct_ids node"
    "\<forall>t \<in> set (wn_tasks node). valid_task_node (map tn_id (wn_tasks node)) t"
  shows "graph_ok (node_graph node)"
  using assms
  by (auto simp: graph_ok_def dwf_def distinct_ids_def valid_task_node_def)
    (auto simp: node_graph_def valid_task_node_def)

lemma validate_no_errors: "filter is_error (validate node) = [] \<longleftrightarrow> valid_node node"
proof -
  let ?ids = "map tn_id (wn_tasks node)"
  obtain per_task by_id where v: "validate_tasks ?ids (wn_tasks node) [] = (per_task, by_id)" by fastforce
  have per: "filter is_error per_task = [] \<longleftrightarrow>
      distinct_ids node \<and> (\<forall>t \<in> set (wn_tasks node). valid_task_node ?ids t)"
    using validate_tasks_errors [of "wn_tasks node" "[]" ?ids] v by (simp add: distinct_ids_def)
  have "filter is_error (validate node) = [] \<longleftrightarrow>
      strip (wn_name node) \<noteq> [] \<and> wn_tasks node \<noteq> [] \<and> filter is_error per_task = []
      \<and> find_cycle node = []"
    by (simp add: validate_def v Let_def)
  also have "\<dots> \<longleftrightarrow> valid_node node"
  proof (cases "wn_tasks node \<noteq> [] \<and> filter is_error per_task = []")
    case True
    then have "graph_ok (node_graph node)" using per by (intro valid_graph_ok) auto
    from kahn_order_graph(2) [OF this] True per show ?thesis
      by (simp add: valid_node_def find_cycle_Nil)
  next
    case False
    with per show ?thesis by (auto simp: valid_node_def)
  qed
  finally show ?thesis .
qed

lemma valid_node_facts:
  assumes "valid_node node"
  shows "graph_ok (node_graph node)" "distinct_ids node" "known_acyclic node"
    "topological_order node = Inr (kahn_order node)"
    "set (kahn_order node) = set (map tn_id (wn_tasks node))" "distinct (kahn_order node)"
    "topo_from (gdeps (node_graph node)) {} (kahn_order node)"
proof -
  show ok: "graph_ok (node_graph node)" and dist: "distinct_ids node"
    using assms by (auto simp: valid_node_def intro: valid_graph_ok)
  show acyc: "known_acyclic node"
    using assms kahn_order_graph(2) [OF ok] by (simp add: valid_node_def)
  then show run: "topological_order node = Inr (kahn_order node)"
    using topological_order_run [OF dist] by simp
  from dsl.order_sound [OF ok]
  show "set (kahn_order node) = set (map tn_id (wn_tasks node))" "distinct (kahn_order node)"
    "topo_from (gdeps (node_graph node)) {} (kahn_order node)"
    by (simp_all add: dsl_sorter_node [OF ok] run)
qed

lemma those_lookup_nodes:
  "set ks \<subseteq> set (dkeys d) \<Longrightarrow> those (map (dget d) ks) = Some (map (\<lambda>k. the (dget d k)) ks)"
  by (induction ks) (auto simp: dget_dkeys)

lemma compile_node_run:
  "compile_node node =
     (if valid_node node
      then Inr \<lparr>wd_name = wn_name node,
        wd_tasks = map (\<lambda>v. compile_task (the (dget (nodes_by_id node) v))) (kahn_order node),
        wd_metadata = wn_metadata node\<rparr>
      else Inl (no_position (Invalid_workflow (filter is_error (validate node)))))"
proof (cases "valid_node node")
  case True
  note facts = valid_node_facts [OF True]
  have "those (map (dget (nodes_by_id node)) (kahn_order node))
      = Some (map (\<lambda>v. the (dget (nodes_by_id node) v)) (kahn_order node))"
    by (rule those_lookup_nodes) (simp add: facts(5) nodes_by_id_keys)
  with True facts(4) show ?thesis
    by (simp add: compile_node_def validate_no_errors comp_def)
next
  case False
  then show ?thesis by (simp add: compile_node_def validate_no_errors)
qed

lemma compiled_task:
  assumes "valid_node node" "compile_node node = Inr w"
  shows "map st_id (wd_tasks w) = kahn_order node"
    "t \<in> set (wn_tasks node) \<Longrightarrow> compile_task t \<in> set (wd_tasks w)"
proof -
  note facts = valid_node_facts [OF assms(1)]
  have w: "wd_tasks w = map (\<lambda>v. compile_task (the (dget (nodes_by_id node) v))) (kahn_order node)"
    using assms by (auto simp: compile_node_run)
  have at: "the (dget (nodes_by_id node) (tn_id t)) = t" if "t \<in> set (wn_tasks node)" for t
    using nodes_by_id_get [OF facts(2) [unfolded distinct_ids_def] that] by simp
  have "st_id (compile_task (the (dget (nodes_by_id node) v))) = v" if "v \<in> set (kahn_order node)" for v
    using that facts(5) at by (auto simp: compile_task_def)
  then show "map st_id (wd_tasks w) = kahn_order node"
    unfolding w by (simp add: map_idI)
  show "compile_task t \<in> set (wd_tasks w)" if "t \<in> set (wn_tasks node)"
    using that facts(5) at [OF that] by (force simp: w)
qed

lemma compiled_mset:
  assumes "valid_node node" "compile_node node = Inr w"
  shows "mset (wd_tasks w) = mset (map compile_task (wn_tasks node))"
proof -
  note facts = valid_node_facts [OF assms(1)]
  note dist = facts(2) [unfolded distinct_ids_def]
  let ?f = "\<lambda>v. compile_task (the (dget (nodes_by_id node) v))"
  have "mset (kahn_order node) = mset (map tn_id (wn_tasks node))"
    using set_eq_iff_mset_eq_distinct [OF facts(6) dist] facts(5) by blast
  then have "mset (map ?f (kahn_order node)) = mset (map ?f (map tn_id (wn_tasks node)))"
    unfolding mset_map by simp
  also have "map ?f (map tn_id (wn_tasks node)) = map compile_task (wn_tasks node)"
    by (simp add: nodes_by_id_get [OF dist])
  finally show ?thesis using assms by (auto simp: compile_node_run)
qed

lemma compiled_order:
  assumes "valid_node node" "compile_node node = Inr w" "i < length (wd_tasks w)"
  shows "set (st_depends_on (wd_tasks w ! i)) \<subseteq> st_id ` set (take i (wd_tasks w))"
proof -
  note facts = valid_node_facts [OF assms(1)]
  note dist = facts(2) [unfolded distinct_ids_def]
  let ?o = "kahn_order node"
  have w: "wd_tasks w = map (\<lambda>v. compile_task (the (dget (nodes_by_id node) v))) ?o"
    using assms by (auto simp: compile_node_run)
  have i: "i < length ?o" using assms(3) w by simp
  then have "?o ! i \<in> set (map tn_id (wn_tasks node))" using facts(5) nth_mem by blast
  then obtain t where t: "t \<in> set (wn_tasks node)" "?o ! i = tn_id t" by auto
  then have "(tn_id t, tn_depends_on t) \<in> set (node_graph node)" by (auto simp: node_graph_def)
  then have deps: "gdeps (node_graph node) (?o ! i) = tn_depends_on t"
    using facts(1) t(2) by (auto simp: graph_ok_def intro: gdeps_mem)
  have "st_depends_on (wd_tasks w ! i) = tn_depends_on t"
    using i t nodes_by_id_get [OF dist t(1)] by (simp add: w compile_task_def)
  moreover have "st_id ` set (take i (wd_tasks w)) = set (take i ?o)"
  proof -
    have "st_id ` set (take i (wd_tasks w)) = set (take i (map st_id (wd_tasks w)))"
      by (simp add: take_map)
    then show ?thesis by (simp only: compiled_task(1) [OF assms(1,2)])
  qed
  ultimately show ?thesis using topo_from_prefix [OF facts(7) i] deps by simp
qed

end
