(* ===== verification/Dsl_Props.thy ===== *)
theory Dsl_Props
  imports Dsl_Compile
begin

text \<open>
  The properties of the DSL's graph half, each with an evaluated instance where it has hypotheses.
\<close>

section \<open>Sample trees\<close>

definition diamond :: "pystr graph" where
  "diamond = [(lit ''d'', [lit ''b'', lit ''c'']), (lit ''b'', [lit ''a'']), (lit ''c'', [lit ''a'']), (lit ''a'', [])]"

lemma diamond_facts:
  "kahn_order (graph_node diamond) = [lit ''a'', lit ''b'', lit ''c'', lit ''d'']"
  "find_cycle (graph_node diamond) = []"
  "critical_path (graph_node diamond) [(lit ''c'', 5)] = Inr ([lit ''a'', lit ''c'', lit ''d''], 7)"
  "estimate_parallelism (graph_node diamond) = 2"
  "filter is_error (validate (graph_node diamond)) = []"
  by code_simp+

lemma diamond_ok: "graph_ok diamond" "valid_node (graph_node diamond)" "graph_acyclic diamond"
  "distinct_ids (graph_node diamond)"
proof -
  show v: "valid_node (graph_node diamond)"
    using validate_no_errors [of "graph_node diamond"] diamond_facts(5) by simp
  from valid_node_facts(1,2) [OF v] show "graph_ok diamond" "distinct_ids (graph_node diamond)"
    by simp_all
  show "graph_acyclic diamond" using v by (simp add: valid_node_def)
qed

section \<open>Cycles and order\<close>

text \<open>C18: \<open>find_cycle\<close> is exact on every syntax tree, repeated ids and unknown dependencies
  included: it returns an empty list just when the dependencies among the known ids have no cycle,
  and otherwise a closed walk along dependencies, each id needing the next one. (Python's own limit on
  the depth of a recursion is left out.)\<close>

theorem find_cycle_exact:
  "if find_cycle node = [] then known_acyclic node
   else is_cycle (known_deps (nodes_by_id node)) (find_cycle node)
     \<and> set (find_cycle node) \<subseteq> set (map tn_id (wn_tasks node)) \<and> \<not> known_acyclic node"
  by (rule find_cycle_spec)

text \<open>The recursion of \<open>visit\<close> ends: it never goes deeper than one call more than there are ids,
  so any larger bound on its depth gives the same answer.\<close>

theorem find_cycle_depth:
  assumes "length (nodes_by_id node) < n"
  shows "visit_all n (nodes_by_id node) (sort (dkeys (nodes_by_id node))) no_dfs
    = Some (find_cycle node)"
proof -
  let ?b = "nodes_by_id node"
  obtain c where c: "visit_all (Suc (length ?b)) ?b (sort (dkeys ?b)) no_dfs = Some c"
    using visit_all_enough [of node "Suc (length ?b)"] by auto
  then have "find_cycle node = c" by (simp add: find_cycle_def)
  with visit_all_mono [OF c, of n] assms show ?thesis by simp
qed

theorem find_cycle_depth_witness:
  "visit_all 9 (nodes_by_id (graph_node diamond)) (sort (dkeys (nodes_by_id (graph_node diamond)))) no_dfs
     = Some []"
  using find_cycle_depth [of "graph_node diamond" 9] diamond_facts(2)
  by (simp add: nodes_by_id_def graph_node_def diamond_def new_task_node_def dput_def)

text \<open>Without repeated ids, \<open>topological_order\<close> raises exactly on a cycle, and then the error
  carries one. Otherwise it lists every task once, after the tasks it needs.\<close>

theorem topological_order_decides:
  assumes "distinct_ids node"
  shows "case topological_order node of
      Inl e \<Rightarrow> \<exists>c. e = no_position (Dependency_cycle c) \<and> is_cycle (known_deps (nodes_by_id node)) c
    | Inr order \<Rightarrow> known_acyclic node \<and> distinct order \<and> set order = tn_id ` set (wn_tasks node)
        \<and> topo_from (known_deps (nodes_by_id node)) {} order"
proof (cases "known_acyclic node")
  case True
  then show ?thesis using topological_order_run [OF assms] kahn_order_facts [OF assms True] by simp
next
  case False
  then have "find_cycle node \<noteq> []" by (simp add: find_cycle_Nil)
  then show ?thesis using False topological_order_run [OF assms] find_cycle_spec [of node] by auto
qed

theorem topological_order_decides_witness:
  "topological_order (graph_node diamond) = Inr [lit ''a'', lit ''b'', lit ''c'', lit ''d'']
   \<and> known_acyclic (graph_node diamond)"
  using topological_order_decides [OF diamond_ok(4)] valid_node_facts(3,4) [OF diamond_ok(2)]
    diamond_facts(1) by simp

section \<open>The longest path and the levels\<close>

text \<open>C19: On a valid graph \<open>critical_path\<close> returns a dependency path that starts at a task without
  dependencies, its weight, and no dependency path weighs more (missing weights count 1, negative
  ones 0).\<close>

theorem critical_path_longest:
  assumes "graph_ok (node_graph node)" "graph_acyclic (node_graph node)"
  shows "\<exists>path c. critical_path node weights = Inr (path, c) \<and> dep_path node path
    \<and> gdeps (node_graph node) (hd path) = [] \<and> c = path_weight weights path
    \<and> (\<forall>p. dep_path node p \<longrightarrow> path_weight weights p \<le> c)"
  using critical_path_run [OF assms] .

theorem critical_path_longest_witness:
  "dep_path (graph_node diamond) [lit ''a'', lit ''c'', lit ''d'']
   \<and> path_weight [(lit ''c'', 5)] [lit ''a'', lit ''c'', lit ''d''] = 7"
  using critical_path_longest [of "graph_node diamond" "[(lit ''c'', 5)]"] diamond_ok(1,3)
    diamond_facts(3) by auto

text \<open>\<open>estimate_parallelism\<close> returns the size of the widest level of the graph: the largest
  number of tasks whose longest chain of known dependencies has the same number of tasks.\<close>

theorem estimate_is_widest_level:
  assumes "distinct_ids node"
  shows "(\<exists>k. estimate_parallelism node
        = card (level_set (known_deps (nodes_by_id node)) (set (map tn_id (wn_tasks node))) k))
    \<and> (\<forall>k. card (level_set (known_deps (nodes_by_id node)) (set (map tn_id (wn_tasks node))) k)
        \<le> estimate_parallelism node)"
  by (rule estimate_widest [OF assms])

theorem estimate_is_widest_level_witness:
  "card (level_set (known_deps (nodes_by_id (graph_node diamond)))
      (set (map tn_id (wn_tasks (graph_node diamond)))) 1) \<le> 2"
  using estimate_is_widest_level [OF diamond_ok(4)] diamond_facts(4) by simp

text \<open>On a valid graph the estimate and the critical path bound the number of tasks: there are
  at most as many tasks as the widest level times the number of tasks on the longest path.\<close>

theorem width_times_length:
  assumes "graph_ok (node_graph node)" "critical_path node [] = Inr (path, c)"
  shows "int (length (wn_tasks node)) \<le> int (estimate_parallelism node) * c \<and> c = int (length path)"
proof -
  have dist: "distinct_ids node" using assms(1) by (simp add: graph_ok_def dwf_def distinct_ids_def)
  have acyc: "graph_acyclic (node_graph node)"
  proof (rule ccontr)
    assume "\<not> ?thesis"
    then have "\<not> known_acyclic node" using kahn_order_graph(2) [OF assms(1)] by simp
    then show False using assms(2) topological_order_run [OF dist] by (simp add: critical_path_def)
  qed
  have weight: "path_weight [] p = int (length p)" for p
    by (induction p) (simp_all add: path_weight_def weight_of_def)
  from critical_path_run [OF assms(1) acyc, of "[]"] assms(2)
  have c: "c = int (length path)" and long: "\<forall>p. dep_path node p \<longrightarrow> length p \<le> length path"
    by (auto simp: weight)
  then show ?thesis using width_bound [OF assms(1) long] by (simp flip: of_nat_mult)
qed

theorem width_times_length_witness:
  "int (length (wn_tasks (graph_node diamond))) \<le> int (estimate_parallelism (graph_node diamond)) * 3"
proof -
  have "critical_path (graph_node diamond) [] = Inr ([lit ''a'', lit ''b'', lit ''d''], 3)" by code_simp
  from width_times_length [OF _ this] diamond_ok(1) show ?thesis by simp
qed

text \<open>The value \<open>statistics\<close> reports as \<open>parallelism_upper_bound\<close> bounds nothing of the kind: in
  a workflow of seven tasks it is 3, and four tasks, none of which needs another, can run at once.\<close>

theorem parallelism_bound_exceeded:
  "\<exists>node ids s. statistics node = Inr s \<and> sx_parallelism_upper_bound s = 3
     \<and> length ids = 4 \<and> distinct ids \<and> set ids \<subseteq> set (map tn_id (wn_tasks node))
     \<and> \<not> (\<exists>p. dep_path node p \<and> 2 \<le> length (filter (\<lambda>v. v \<in> set ids) p))"
proof -
  have s: "map_option sx_parallelism_upper_bound (ok_part (statistics fork_node)) = Some 3"
    by code_simp
  have ids: "set fork_ids \<subseteq> set (map tn_id (wn_tasks fork_node))" "distinct fork_ids"
    "length fork_ids = 4" by code_simp+
  from s obtain st where "statistics fork_node = Inr st" "sx_parallelism_upper_bound st = 3" by auto
  moreover have "\<not> (\<exists>p. dep_path fork_node p \<and> 2 \<le> length (filter (\<lambda>v. v \<in> set fork_ids) p))"
    using fork_paths by fastforce
  ultimately show ?thesis using ids by blast
qed

section \<open>Compilation\<close>

text \<open>C17: \<open>compile_node\<close> accepts exactly the valid trees: a name that is not blank, at least one
  task, distinct ids, a command for each task, dependencies that are other tasks named once, no
  timeout over 24 hours and no cycle. The definition it returns holds every task once, each after
  the tasks it needs. Every other tree is refused with the errors \<open>validate\<close> found.\<close>

theorem compile_decides:
  "case compile_node node of
     Inl e \<Rightarrow> \<not> valid_node node \<and> (\<exists>ds. ds \<noteq> [] \<and> e = no_position (Invalid_workflow ds))
   | Inr w \<Rightarrow> valid_node node \<and> wd_name w = wn_name node \<and> wd_metadata w = wn_metadata node
       \<and> mset (wd_tasks w) = mset (map compile_task (wn_tasks node))
       \<and> (\<forall>i < length (wd_tasks w). set (st_depends_on (wd_tasks w ! i))
            \<subseteq> st_id ` set (take i (wd_tasks w)))"
proof (cases "valid_node node")
  case True
  then obtain w where w: "compile_node node = Inr w" "wd_name w = wn_name node"
    "wd_metadata w = wn_metadata node" by (simp add: compile_node_run)
  with compiled_mset [OF True w(1)] compiled_order [OF True w(1)] True show ?thesis by simp
next
  case False
  then show ?thesis using validate_no_errors [of node] by (auto simp: compile_node_run)
qed

theorem compile_decides_witness:
  "\<exists>w. compile_node (graph_node diamond) = Inr w
     \<and> mset (wd_tasks w) = mset (map compile_task (wn_tasks (graph_node diamond)))"
  using compile_decides [of "graph_node diamond"] diamond_ok(2)
  by (cases "compile_node (graph_node diamond)") auto

end
