(* ===== verification/Dsl_Lexer.thy ===== *)
theory Dsl_Lexer
  imports Dsl_Types
begin

text \<open>
  The lexer of the DSL (class \<open>Lexer\<close>). The index into the source is the rest of the source; line
  and column are carried along. The three regular expressions are the longest matches of their
  character classes.
\<close>

section \<open>Character classes\<close>

definition ident_start :: "int \<Rightarrow> bool" where
  "ident_start c \<longleftrightarrow> alpha c \<or> c = 95"

definition ident_char :: "int \<Rightarrow> bool" where
  "ident_char c \<longleftrightarrow> alpha c \<or> digit c \<or> c \<in> set (lit ''_.:-'')"

definition punctuation :: "pystr" where
  "punctuation = lit ''{}[]=,''"

text \<open>The unit that \<open>_DURATION_RE\<close> finds after the digits.\<close>

definition unit_prefix :: "pystr \<Rightarrow> pystr" where
  "unit_prefix s =
     (if take 2 s = lit ''ms'' then lit ''ms''
      else if take 1 s \<in> {lit ''s'', lit ''m'', lit ''h''} then take 1 s else [])"

section \<open>Positions\<close>

fun advance_pos :: "int \<Rightarrow> int \<times> int \<Rightarrow> int \<times> int" where
  "advance_pos c (line, column) = (if c = 10 then (line + 1, 1) else (line, column + 1))"

definition advance_all :: "pystr \<Rightarrow> int \<times> int \<Rightarrow> int \<times> int" where
  "advance_all s p = fold advance_pos s p"

section \<open>String literals\<close>

definition hex_digit :: "int \<Rightarrow> bool" where
  "hex_digit c \<longleftrightarrow> digit c \<or> 97 \<le> c \<and> c \<le> 102 \<or> 65 \<le> c \<and> c \<le> 70"

definition hex_value :: "int \<Rightarrow> int" where
  "hex_value c = (if digit c then c - 48 else if 97 \<le> c then c - 87 else c - 55)"

definition hex_number :: "pystr \<Rightarrow> int" where
  "hex_number s = foldl (\<lambda>n c. 16 * n + hex_value c) 0 s"

definition simple_escape :: "int \<Rightarrow> int option" where
  "simple_escape c =
     (if c = 110 then Some 10 else if c = 114 then Some 13 else if c = 116 then Some 9
      else if c = 92 then Some 92 else if c = 34 then Some 34 else if c = 39 then Some 39 else None)"

text \<open>
  The loop of \<open>_string\<close> after the opening quote: what was read so far, the rest of the source and the
  position. It returns the value, the rest and the position after the closing quote. The error for
  a string that does not end has the position of its opening quote.
\<close>

function lex_string ::
  "int \<Rightarrow> int \<times> int \<Rightarrow> pystr \<Rightarrow> pystr \<Rightarrow> int \<times> int \<Rightarrow> dsl_error + pystr \<times> pystr \<times> int \<times> int" where
  "lex_string quote start out [] pos = Inl (Dsl_error Unterminated_string (fst start) (snd start))"
| "lex_string quote start out (c # s) pos =
     (if c = quote then Inr (out, s, advance_pos c pos)
      else if c = 10 then Inl (Dsl_error Unterminated_string (fst start) (snd start))
      else if c \<noteq> 92 then lex_string quote start (out @ [c]) s (advance_pos c pos)
      else case s of
        [] \<Rightarrow> Inl (Dsl_error Unterminated_string (fst start) (snd start))
      | e # s' \<Rightarrow>
          let pos' = advance_pos c pos in
          if e = 117 then
            let pos'' = advance_pos e pos'; digits = take 4 s' in
            if length digits \<noteq> 4 \<or> \<not> list_all hex_digit digits
            then Inl (Dsl_error Invalid_unicode_escape (fst pos'') (snd pos''))
            else lex_string quote start (out @ [hex_number digits]) (drop 4 s') (advance_all digits pos'')
          else case simple_escape e of
            None \<Rightarrow> Inl (Dsl_error (Unknown_escape e) (fst pos') (snd pos'))
          | Some x \<Rightarrow> lex_string quote start (out @ [x]) s' (advance_pos e pos'))"
  by pat_completeness auto
termination
  by (relation "measure (\<lambda>(quote, start, out, s, pos). length s)") auto

declare lex_string.simps(2) [simp del]

lemma lex_string_shorter:
  "lex_string quote start out s pos = Inr (v, s', pos') \<Longrightarrow> length s' \<le> length s"
proof (induction "length s" arbitrary: out s pos rule: less_induct)
  case less
  have IH: "length s' \<le> length s"
    if "lex_string quote start o1 r p = Inr (v, s', pos')" "length r < length s" for o1 r p
    using less.hyps [OF that(2,1)] that(2) by simp
  show ?case
  proof (cases s)
    case Nil
    then show ?thesis using less.prems by simp
  next
    case (Cons c t)
    have "length s' \<le> length s" if "t = e # t'" "simple_escape e = Some x"
      "lex_string quote start (out @ [x]) t' p = Inr (v, s', pos')" for e t' x p
      by (rule IH [OF that(3)]) (simp add: Cons that(1))
    moreover have "length s' \<le> length s" if "t = e # t'"
      "lex_string quote start (out @ [x]) (drop 4 t') p = Inr (v, s', pos')" for e t' x p
      by (rule IH [OF that(2)]) (simp add: Cons that(1))
    moreover have "length s' \<le> length s"
      if "lex_string quote start (out @ [c]) t p = Inr (v, s', pos')" for p
      by (rule IH [OF that]) (simp add: Cons)
    ultimately show ?thesis
      using less.prems unfolding Cons lex_string.simps(2)
      by (auto simp: Let_def split: if_splits list.splits option.splits)
  qed
qed

section \<open>Tokens\<close>

definition make_token :: "pystr \<Rightarrow> pystr \<Rightarrow> int \<times> int \<Rightarrow> token" where
  "make_token kind v pos = \<lparr>tk_kind = kind, tk_value = v, tk_line = fst pos, tk_column = snd pos\<rparr>"

text \<open>One turn of the loop in \<open>tokens\<close>: the token found, if any, the rest and the position.\<close>

definition next_token ::
  "int \<Rightarrow> pystr \<Rightarrow> int \<times> int \<Rightarrow> dsl_error + token option \<times> pystr \<times> int \<times> int" where
  "next_token c s pos =
     (let whole = c # s; digits = takeWhile digit whole; rest = dropWhile digit whole in
      if c \<in> {32, 9, 13} then Inr (None, s, advance_pos c pos)
      else if c = 10 then Inr (Some (make_token (lit ''NEWLINE'') [10] pos), s, advance_pos c pos)
      else if c = 35 then
        Inr (None, dropWhile (\<lambda>x. x \<noteq> 10) whole, advance_all (takeWhile (\<lambda>x. x \<noteq> 10) whole) pos)
      else if c \<in> set punctuation then Inr (Some (make_token [c] [c] pos), s, advance_pos c pos)
      else if c = 34 \<or> c = 39 then
        (case lex_string c pos [] s (advance_pos c pos) of
           Inl e \<Rightarrow> Inl e
         | Inr (v, s', pos') \<Rightarrow> Inr (Some (make_token (lit ''STRING'') v pos), s', pos'))
      else if digits \<noteq> [] \<and> unit_prefix rest \<noteq> [] then
        let v = digits @ unit_prefix rest in
        Inr (Some (make_token (lit ''DURATION'') v pos), drop (length v) whole, advance_all v pos)
      else if digits \<noteq> [] then
        Inr (Some (make_token (lit ''INTEGER'') digits pos), rest, advance_all digits pos)
      else if ident_start c then
        let v = takeWhile ident_char whole in
        Inr (Some (make_token (if v \<in> set dsl_keywords then v else lit ''IDENT'') v pos),
             dropWhile ident_char whole, advance_all v pos)
      else Inl (Dsl_error (Unexpected_character c) (fst pos) (snd pos)))"

lemma length_dropWhile_Cons: "P c \<Longrightarrow> length (dropWhile P (c # s)) \<le> length s"
  by (simp add: length_dropWhile_le)

lemma ident_start_char: "ident_start c \<Longrightarrow> ident_char c"
  by (auto simp: ident_start_def ident_char_def)

lemma next_token_shorter:
  assumes "next_token c s pos = Inr (t, s', pos')"
  shows "length s' \<le> length s"
proof -
  have "length (dropWhile digit (c # s)) \<le> length s" if "takeWhile digit (c # s) \<noteq> []"
    using that by (auto simp: length_dropWhile_le split: if_splits)
  moreover have "length (drop (length (takeWhile digit (c # s) @ u)) (c # s)) \<le> length s"
    if "takeWhile digit (c # s) \<noteq> []" for u
    using that by (auto split: if_splits)
  ultimately show ?thesis
    using assms
    by (auto simp: next_token_def Let_def length_dropWhile_le dest: lex_string_shorter ident_start_char
        split: if_splits sum.splits prod.splits)
qed

function lex :: "pystr \<Rightarrow> int \<times> int \<Rightarrow> dsl_error + token list" where
  "lex [] pos = Inr [make_token (lit ''EOF'') [] pos]"
| "lex (c # s) pos =
     (case next_token c s pos of
        Inl e \<Rightarrow> Inl e
      | Inr (found, s', pos') \<Rightarrow>
         (case lex s' pos' of
            Inl e \<Rightarrow> Inl e
          | Inr ts \<Rightarrow> Inr (case found of None \<Rightarrow> ts | Some t \<Rightarrow> t # ts)))"
  by pat_completeness auto
termination
  by (relation "measure (\<lambda>(s, pos). length s)")
    (auto dest!: next_token_shorter simp: less_Suc_eq_le intro: sym)

declare lex.simps(2) [simp del]

definition tokens :: "pystr \<Rightarrow> dsl_error + token list" where
  "tokens source = lex source (1, 1)"

end
