(* ===== verification/Dsl_Parser.thy ===== *)
theory Dsl_Parser
  imports Dsl_Lexer Dsl_Graph
begin

text \<open>
  The recursive-descent parser of the DSL (class \<open>Parser\<close>), as state-and-exception computations
  whose state is the list of tokens from the current one on. The parser runs on the lexer's output,
  which is never empty and ends with \<open>EOF\<close>; it never moves past the last token.
\<close>

section \<open>Tokens and positions\<close>

type_synonym 'a parser = "(token list, dsl_error, 'a) proc"

definition current :: "token list \<Rightarrow> token" where
  "current ts = (case ts of [] \<Rightarrow> make_token (lit ''EOF'') [] (0, 0) | t # _ \<Rightarrow> t)"

definition kind :: "token list \<Rightarrow> pystr" where
  "kind ts = tk_kind (current ts)"

fun advance_token :: "token list \<Rightarrow> token list" where
  "advance_token (t # u # ts) = u # ts"
| "advance_token ts = ts"

definition parse_error :: "dsl_problem \<Rightarrow> 'a parser" where
  "parse_error p = (\<lambda>ts. (Inl (Dsl_error p (tk_line (current ts)) (tk_column (current ts))), ts))"

definition expect :: "pystr \<Rightarrow> token parser" where
  "expect k = (\<lambda>ts. if kind ts \<noteq> k then parse_error (Expected_token k (kind ts)) ts
     else (Inr (current ts), advance_token ts))"

definition scalar_kinds :: "pystr list" where
  "scalar_kinds = map lit [''STRING'', ''IDENT'', ''INTEGER'', ''DURATION'']"

definition scalar :: "pystr \<Rightarrow> pystr parser" where
  "scalar description = (\<lambda>ts.
     if kind ts \<in> set scalar_kinds \<or> kind ts \<in> set dsl_keywords
     then (Inr (tk_value (current ts)), advance_token ts)
     else parse_error (Expected_scalar description) ts)"

fun skip_newlines :: "token list \<Rightarrow> token list" where
  "skip_newlines (t # u # ts) = (if tk_kind t = lit ''NEWLINE'' then skip_newlines (u # ts) else t # u # ts)"
| "skip_newlines ts = ts"

definition line_end :: "unit parser" where
  "line_end = (\<lambda>ts.
     if kind ts = lit ''NEWLINE'' then (Inr (), skip_newlines ts)
     else if kind ts \<in> {lit ''}'', lit ''EOF''} then (Inr (), ts)
     else if kind ts \<in> {lit ''run'', lit ''needs'', lit ''env'', lit ''labels'', lit ''timeout'', lit ''retry''}
     then (Inr (), ts)
     else parse_error Expected_line_end ts)"

section \<open>What a parser leaves\<close>

definition shrinks :: "'a parser \<Rightarrow> bool" where
  "shrinks p \<longleftrightarrow> (\<forall>ts x ts'. p ts = (Inr x, ts') \<longrightarrow> length ts' \<le> length ts)"

lemma shrinksD: "shrinks p \<Longrightarrow> p ts = (Inr x, ts') \<Longrightarrow> length ts' \<le> length ts"
  by (simp add: shrinks_def)

lemma length_advance: "length (advance_token ts) \<le> length ts"
  by (cases ts rule: advance_token.cases) auto

lemma length_skip: "length (skip_newlines ts) \<le> length ts"
  by (induction ts rule: skip_newlines.induct) auto

lemma advance_cases: "length (advance_token ts) < length ts \<or> advance_token ts = ts \<and> length ts \<le> 1"
  by (cases ts rule: advance_token.cases) auto

lemma skip_newlines_short: "length ts \<le> 1 \<Longrightarrow> skip_newlines ts = ts"
  by (cases ts rule: skip_newlines.cases) auto

lemma shrinks_expect [intro]: "shrinks (expect k)"
  by (auto simp: shrinks_def expect_def parse_error_def length_advance split: if_splits)

lemma shrinks_scalar [intro]: "shrinks (scalar d)"
  by (auto simp: shrinks_def scalar_def parse_error_def length_advance split: if_splits)

lemma shrinks_line_end [intro]: "shrinks line_end"
  by (auto simp: shrinks_def line_end_def parse_error_def length_skip split: if_splits)

lemma chain_result:
  "chain p f ts = (Inr y, ts') \<longleftrightarrow> (\<exists>x ts1. p ts = (Inr x, ts1) \<and> f x ts1 = (Inr y, ts'))"
  by (auto simp: chain_def split: prod.splits sum.splits)

lemma chain_cong [fundef_cong]:
  "ts = us \<Longrightarrow> p us = q us \<Longrightarrow> (\<And>x vs. q us = (Inr x, vs) \<Longrightarrow> f x vs = g x vs) \<Longrightarrow>
     chain p f ts = chain q g us"
  by (auto simp: chain_def split: prod.splits sum.splits)

lemma shrinks_chain [intro]: "shrinks p \<Longrightarrow> (\<And>x. shrinks (f x)) \<Longrightarrow> shrinks (chain p f)"
  unfolding shrinks_def chain_result by (meson order_trans)

lemma shrinks_ret [intro]: "shrinks (ret x)"
  by (simp add: shrinks_def ret_def)

lemma shrinks_if [intro]: "shrinks p \<Longrightarrow> shrinks q \<Longrightarrow> shrinks (if b then p else q)"
  by simp

lemma shrinks_raise [intro]: "shrinks (raise e)" "shrinks (parse_error p)"
  by (simp_all add: shrinks_def raise_def parse_error_def)

lemma shrinks_modify: "(\<And>ts. length (f ts) \<le> length ts) \<Longrightarrow> shrinks (modify f)"
  by (simp add: shrinks_def modify_def)

section \<open>Lists\<close>

text \<open>A scalar followed by a token of another kind uses up a token: the current one did move.\<close>

lemma scalar_expect_less:
  assumes "scalar d ts = (Inr v, ts1)" "expect k ts1 = (Inr t, ts2)"
    and "k \<notin> set scalar_kinds" "k \<notin> set dsl_keywords"
  shows "length ts2 < length ts"
proof -
  from assms(1) have ts1: "ts1 = advance_token ts" and "kind ts \<in> set scalar_kinds \<union> set dsl_keywords"
    by (auto simp: scalar_def parse_error_def split: if_splits)
  moreover from assms(2) have "ts2 = advance_token ts1" "kind ts1 = k"
    by (auto simp: expect_def parse_error_def split: if_splits)
  ultimately show ?thesis
    using advance_cases [of ts] length_advance [of ts1] assms(3,4) by auto
qed

function scalar_list :: "pystr \<Rightarrow> pystr list \<Rightarrow> pystr list parser" where
  "scalar_list description vals ts =
     chain (scalar description) (\<lambda>v ts1.
       if kind ts1 = lit '']'' then (Inr (vals @ [v]), advance_token ts1)
       else chain (expect (lit '','')) (\<lambda>_ ts2. scalar_list description (vals @ [v]) ts2) ts1) ts"
  by pat_completeness auto
termination
  by (relation "measure (\<lambda>(description, vals, ts). length ts)")
    (auto dest!: scalar_expect_less simp: scalar_kinds_def dsl_keywords_def)

declare scalar_list.simps [simp del]

definition list_of_scalars :: "pystr \<Rightarrow> pystr list parser" where
  "list_of_scalars description =
     chain (expect (lit ''['')) (\<lambda>_ ts.
       if kind ts = lit '']'' then (Inr [], advance_token ts) else scalar_list description [] ts)"

lemma shrinks_scalar_list: "scalar_list d vals ts = (Inr x, ts') \<Longrightarrow> length ts' \<le> length ts"
proof (induction d vals ts rule: scalar_list.induct)
  case (1 d vals ts)
  from "1.prems" obtain v ts1 where v: "scalar d ts = (Inr v, ts1)"
    and rest: "(if kind ts1 = lit '']'' then (Inr (vals @ [v]), advance_token ts1)
       else chain (expect (lit '','')) (\<lambda>_ ts2. scalar_list d (vals @ [v]) ts2) ts1) = (Inr x, ts')"
    by (subst (asm) scalar_list.simps) (auto simp: chain_result)
  have "length ts1 \<le> length ts" by (rule shrinksD [OF shrinks_scalar v])
  show ?case
  proof (cases "kind ts1 = lit '']''")
    case True
    then show ?thesis using rest \<open>length ts1 \<le> length ts\<close> length_advance [of ts1] by auto
  next
    case False
    with rest obtain t ts2 where t: "expect (lit '','') ts1 = (Inr t, ts2)"
      and r: "scalar_list d (vals @ [v]) ts2 = (Inr x, ts')" by (auto simp: chain_result)
    from "1.IH" [OF v False t r] shrinksD [OF shrinks_expect t] \<open>length ts1 \<le> length ts\<close>
    show ?thesis by simp
  qed
qed

lemma shrinks_list [intro]: "shrinks (list_of_scalars d)"
  unfolding list_of_scalars_def
  by (rule shrinks_chain [OF shrinks_expect])
    (auto simp: shrinks_def length_advance dest: shrinks_scalar_list split: if_splits)

section \<open>Shell-style commands\<close>

text \<open>
  \<open>shlex.split(value, posix=True)\<close>, the state machine of \<open>shlex.read_token\<close> without comments:
  between words, in a word, in quotes, after a backslash (with the state to return to). The
  arguments are the word so far, whether it had quotes, and the words done. The error tells a
  missing closing quote (\<open>True\<close>) from a missing escaped character (\<open>False\<close>).
\<close>

datatype shell_state = Between | In_word | In_quotes int | After_backslash shell_state

definition end_word :: "pystr \<Rightarrow> bool \<Rightarrow> pystr list \<Rightarrow> pystr list" where
  "end_word word quoted out = (if word \<noteq> [] \<or> quoted then out @ [word] else out)"

fun shell_words ::
  "shell_state \<Rightarrow> pystr \<Rightarrow> bool \<Rightarrow> pystr list \<Rightarrow> pystr \<Rightarrow> bool + pystr list" where
  "shell_words Between word quoted out [] = Inr out"
| "shell_words In_word word quoted out [] = Inr (end_word word quoted out)"
| "shell_words (In_quotes q) word quoted out [] = Inl True"
| "shell_words (After_backslash st) word quoted out [] = Inl False"
| "shell_words Between word quoted out (c # s) =
     (if c \<in> {32, 9, 13, 10} then shell_words Between [] False (end_word word quoted out) s
      else if c = 92 then shell_words (After_backslash In_word) word quoted out s
      else if c \<in> {39, 34} then shell_words (In_quotes c) word quoted out s
      else shell_words In_word [c] quoted out s)"
| "shell_words In_word word quoted out (c # s) =
     (if c \<in> {32, 9, 13, 10} then shell_words Between [] False (end_word word quoted out) s
      else if c \<in> {39, 34} then shell_words (In_quotes c) word quoted out s
      else if c = 92 then shell_words (After_backslash In_word) word quoted out s
      else shell_words In_word (word @ [c]) quoted out s)"
| "shell_words (In_quotes q) word quoted out (c # s) =
     (if c = q then shell_words In_word word True out s
      else if c = 92 \<and> q = 34 then shell_words (After_backslash (In_quotes q)) word True out s
      else shell_words (In_quotes q) (word @ [c]) True out s)"
| "shell_words (After_backslash st) word quoted out (c # s) =
     (let kept = (case st of In_quotes q \<Rightarrow> c \<noteq> 92 \<and> c \<noteq> q | _ \<Rightarrow> False) in
      shell_words st (word @ (if kept then [92] else []) @ [c]) quoted out s)"

definition shlex_split :: "pystr \<Rightarrow> bool + pystr list" where
  "shlex_split s = shell_words Between [] False [] s"

definition command :: "pystr list parser" where
  "command = (\<lambda>ts.
     if kind ts = lit ''['' then list_of_scalars (lit ''command argument'') ts
     else chain (scalar (lit ''command'')) (\<lambda>v.
       case shlex_split v of
         Inl no_closing \<Rightarrow> parse_error (Bad_shell_quote no_closing)
       | Inr [] \<Rightarrow> parse_error Empty_run_command
       | Inr words \<Rightarrow> ret words) ts)"

section \<open>Retry policies\<close>

text \<open>A value computed from a token, or the error of the computation.\<close>

definition lift_result :: "dsl_error + 'a \<Rightarrow> 'a parser" where
  "lift_result r = (case r of Inl e \<Rightarrow> raise e | Inr x \<Rightarrow> ret x)"

definition duration_ms :: "int parser" where
  "duration_ms = chain (expect (lit ''DURATION'')) (\<lambda>t.
     lift_result (duration_to_milliseconds (tk_value t) (tk_line t) (tk_column t)))"

text \<open>One option: the value goes to the policy's field of that name.\<close>

definition retry_option :: "pystr \<Rightarrow> sdk_retry \<Rightarrow> sdk_retry parser" where
  "retry_option key r =
     chain (modify advance_token) (\<lambda>_.
     chain (expect (lit ''='')) (\<lambda>_.
     chain (if key = lit ''attempts'' then
              chain (expect (lit ''INTEGER'')) (\<lambda>t. ret (r\<lparr>rp_max_attempts := dec_value (tk_value t)\<rparr>))
            else chain duration_ms (\<lambda>ms.
              ret (if key = lit ''base'' then r\<lparr>rp_base_delay_ms := ms\<rparr> else r\<lparr>rp_max_delay_ms := ms\<rparr>)))
       (\<lambda>r' ts. (Inr r', if kind ts = lit '','' then advance_token ts else ts))))"

lemma shrinks_lift [intro]: "shrinks (lift_result r)"
  by (auto simp: lift_result_def split: sum.split)

lemma shrinks_duration [intro]: "shrinks duration_ms"
  unfolding duration_ms_def by blast

lemma shrinks_retry_rest:
  fixes r :: sdk_retry
  shows "shrinks (chain (if key = lit ''attempts'' then
       chain (expect (lit ''INTEGER'')) (\<lambda>t. ret (r\<lparr>rp_max_attempts := dec_value (tk_value t)\<rparr>))
     else chain duration_ms (\<lambda>ms.
       ret (if key = lit ''base'' then r\<lparr>rp_base_delay_ms := ms\<rparr> else r\<lparr>rp_max_delay_ms := ms\<rparr>)))
   (\<lambda>r' ts. (Inr r', if kind ts = lit '','' then advance_token ts else ts)))"
proof (rule shrinks_chain)
  show "shrinks (\<lambda>ts. (Inr r', if kind ts = lit '','' then advance_token ts else ts))" for r' :: sdk_retry
    by (auto simp: shrinks_def length_advance)
  show "shrinks (if key = lit ''attempts'' then
       chain (expect (lit ''INTEGER'')) (\<lambda>t. ret (r\<lparr>rp_max_attempts := dec_value (tk_value t)\<rparr>))
     else chain duration_ms (\<lambda>ms.
       ret (if key = lit ''base'' then r\<lparr>rp_base_delay_ms := ms\<rparr> else r\<lparr>rp_max_delay_ms := ms\<rparr>)))"
    by (rule shrinks_if; rule shrinks_chain) (rule shrinks_expect shrinks_duration shrinks_ret)+
qed

lemma modify_expect_less:
  assumes "chain (modify advance_token) (\<lambda>_. chain (expect k) f) ts = (Inr x, ts')"
    "kind ts \<noteq> k" "\<And>t. shrinks (f t)"
  shows "length ts' < length ts"
proof -
  from assms(1) obtain t ts2 where t: "expect k (advance_token ts) = (Inr t, ts2)"
    and r: "f t ts2 = (Inr x, ts')" by (auto simp: chain_result modify_def)
  have "length ts' \<le> length ts2" using assms(3) r by (rule shrinksD)
  moreover have "length ts2 \<le> length (advance_token ts)" by (rule shrinksD [OF shrinks_expect t])
  moreover have "advance_token ts \<noteq> ts"
    using t assms(2) by (auto simp: expect_def parse_error_def split: if_splits)
  ultimately show ?thesis using advance_cases [of ts] by auto
qed

lemma retry_option_less:
  "retry_option key r ts = (Inr r', ts') \<Longrightarrow> kind ts \<noteq> lit ''='' \<Longrightarrow> length ts' < length ts"
  unfolding retry_option_def by (rule modify_expect_less [OF _ _ shrinks_retry_rest])

function retry_options :: "sdk_retry \<Rightarrow> pystr list \<Rightarrow> sdk_retry parser" where
  "retry_options r consumed ts =
     (if kind ts \<in> {lit ''NEWLINE'', lit ''}'', lit ''EOF''} then (Inr r, ts)
      else if kind ts \<notin> {lit ''attempts'', lit ''base'', lit ''max''}
        then parse_error Expected_retry_option ts
      else if kind ts \<in> set consumed then parse_error (Retry_option_repeated (kind ts)) ts
      else chain (retry_option (kind ts) r)
        (\<lambda>r' ts'. retry_options r' (kind ts # consumed) ts') ts)"
  by pat_completeness auto
termination
  by (relation "measure (\<lambda>(r, consumed, ts). length ts)") (auto dest!: retry_option_less)

declare retry_options.simps [simp del]

definition check_retry :: "sdk_retry \<Rightarrow> sdk_retry parser" where
  "check_retry r =
     (if rp_max_attempts r < 1 \<or> 100 < rp_max_attempts r then parse_error Attempts_range
      else if rp_base_delay_ms r < 1 then parse_error Base_not_positive
      else if rp_max_delay_ms r < rp_base_delay_ms r then parse_error Max_smaller_than_base
      else ret r)"

definition parse_retry :: "sdk_retry parser" where
  "parse_retry = chain (retry_options sdk_default_retry []) check_retry"

lemma shrinks_retry_options: "shrinks (retry_options r consumed)"
proof -
  have "retry_options r consumed ts = (Inr x, ts') \<Longrightarrow> length ts' \<le> length ts" for x ts' ts
  proof (induction r consumed ts rule: retry_options.induct)
    case (1 r consumed ts)
    show ?case
    proof (cases "kind ts \<in> {lit ''NEWLINE'', lit ''}'', lit ''EOF''} \<or> kind ts \<notin> {lit ''attempts'', lit ''base'', lit ''max''}
        \<or> kind ts \<in> set consumed")
      case True
      with "1.prems" show ?thesis
        by (subst (asm) retry_options.simps) (auto simp: parse_error_def split: if_splits)
    next
      case False
      then have sub: "kind ts \<notin> {lit ''NEWLINE'', lit ''}'', lit ''EOF''}"
        "\<not> kind ts \<notin> {lit ''attempts'', lit ''base'', lit ''max''}" "kind ts \<notin> set consumed" by blast+
      have "retry_options r consumed ts = chain (retry_option (kind ts) r)
          (\<lambda>r' ts'. retry_options r' (kind ts # consumed) ts') ts"
        by (subst retry_options.simps) (simp only: sub if_False if_True not_False_eq_True)
      with "1.prems" obtain r1 ts1 where one: "retry_option (kind ts) r ts = (Inr r1, ts1)"
        and rest: "retry_options r1 (kind ts # consumed) ts1 = (Inr x, ts')" by (auto simp: chain_result)
      from "1.IH" [OF sub one rest] retry_option_less [OF one] sub(2) show ?thesis by auto
    qed
  qed
  then show ?thesis by (simp add: shrinks_def)
qed

lemma shrinks_parse_retry [intro]: "shrinks parse_retry"
  unfolding parse_retry_def
  by (rule shrinks_chain [OF shrinks_retry_options]) (auto simp: check_retry_def)

lemma shrinks_command [intro]: "shrinks command"
proof -
  have "shrinks (chain (scalar (lit ''command'')) (\<lambda>v. case shlex_split v of
         Inl no_closing \<Rightarrow> parse_error (Bad_shell_quote no_closing)
       | Inr [] \<Rightarrow> parse_error Empty_run_command
       | Inr words \<Rightarrow> ret words))"
    by (rule shrinks_chain) (auto split: sum.split list.split)
  then show ?thesis
    using shrinks_list [of "lit ''command argument''"] by (simp add: shrinks_def command_def)
qed

end
