(* ===== verification/Dsl_Blocks.thy ===== *)
theory Dsl_Blocks
  imports Dsl_Parser
begin

text \<open>
  The blocks of the DSL: the fields of a task, \<open>_parse_task\<close>, \<open>_parse_meta\<close>, and \<open>parse\<close> for a whole
  workflow; then \<open>parse\<close> and \<open>compile_source\<close> from the source text.
\<close>

section \<open>Task fields\<close>

definition skip :: "unit parser" where
  "skip = modify skip_newlines"

definition named_value :: "pystr \<Rightarrow> pystr \<Rightarrow> (pystr \<times> pystr) parser" where
  "named_value name_text value_text =
     chain (scalar name_text) (\<lambda>name.
     chain (expect (lit ''='')) (\<lambda>_.
     chain (scalar value_text) (\<lambda>v. ret (name, v))))"

text \<open>One turn of the field loop of \<open>_parse_task\<close>, for the keyword \<open>key\<close> of the current token.\<close>

definition field_body :: "pystr \<Rightarrow> task_node \<Rightarrow> task_node parser" where
  "field_body key t =
     (if key = lit ''run'' then chain command (\<lambda>cmd. ret (t\<lparr>tn_command := cmd\<rparr>))
      else if key = lit ''needs'' then
        chain (list_of_scalars (lit ''dependency'')) (\<lambda>ds. ret (t\<lparr>tn_depends_on := ds\<rparr>))
      else if key = lit ''env'' then
        chain (named_value (lit ''environment variable name'') (lit ''environment variable value''))
          (\<lambda>(name, v). if dget (tn_env t) name \<noteq> None then parse_error (Duplicate_env name)
             else ret (t\<lparr>tn_env := dput name v (tn_env t)\<rparr>))
      else if key = lit ''labels'' then
        chain (named_value (lit ''label name'') (lit ''label value''))
          (\<lambda>(name, v). if dget (tn_labels t) name \<noteq> None then parse_error (Duplicate_label name)
             else ret (t\<lparr>tn_labels := dput name v (tn_labels t)\<rparr>))
      else if key = lit ''timeout'' then
        chain (expect (lit ''DURATION'')) (\<lambda>d.
        chain (lift_result (duration_to_seconds (tk_value d) (tk_line d) (tk_column d)))
          (\<lambda>seconds. ret (t\<lparr>tn_timeout_seconds := seconds\<rparr>)))
      else chain parse_retry (\<lambda>r. ret (t\<lparr>tn_retry := r\<rparr>)))"

definition field_keywords :: "pystr list" where
  "field_keywords = map lit [''run'', ''needs'', ''env'', ''labels'', ''timeout'', ''retry'']"

definition task_field :: "task_node \<Rightarrow> task_node parser" where
  "task_field t = (\<lambda>ts.
     if kind ts \<in> set field_keywords then
       chain (modify advance_token) (\<lambda>_.
       chain (field_body (kind ts) t) (\<lambda>t'.
       chain line_end (\<lambda>_. ret t'))) ts
     else parse_error Unknown_field ts)"

definition repeatable :: "pystr \<Rightarrow> bool" where
  "repeatable key \<longleftrightarrow> key \<in> {lit ''env'', lit ''labels''}"

lemma shrinks_skip [intro]: "shrinks skip"
  unfolding skip_def by (rule shrinks_modify) (rule length_skip)

lemma shrinks_named_value [intro]: "shrinks (named_value a b)"
  unfolding named_value_def by blast

lemma shrinks_field_body [intro]: "shrinks (field_body key t)"
  unfolding field_body_def
  by (intro shrinks_if; rule shrinks_chain)
    (auto split: prod.split intro!: shrinks_chain [OF shrinks_expect])

lemma chain_advance_less:
  assumes "chain (modify advance_token) (\<lambda>_. p) ts = (Inr x, ts')" "shrinks p"
    and "length ts \<le> 1 \<Longrightarrow> \<exists>e us. p ts = (Inl e, us)"
  shows "length ts' < length ts"
proof -
  have run: "p (advance_token ts) = (Inr x, ts')" using assms(1) by (simp add: chain_def modify_def)
  have "length ts' \<le> length (advance_token ts)" by (rule shrinksD [OF assms(2) run])
  moreover have "length (advance_token ts) < length ts"
    using advance_cases [of ts] run assms(3) by auto
  ultimately show ?thesis by simp
qed

lemma advance_short: "length ts \<le> 1 \<Longrightarrow> advance_token ts = ts"
  using advance_cases [of ts] by (cases ts rule: advance_token.cases) auto

lemma chain_fails: "\<exists>e us. p ts = (Inl e, us) \<Longrightarrow> \<exists>e us. chain p f ts = (Inl e, us)"
  by (auto simp: chain_def)

lemma expect_fails: "kind ts \<noteq> k \<Longrightarrow> \<exists>e us. expect k ts = (Inl e, us)"
  by (simp add: expect_def parse_error_def)

lemma named_value_fails:
  assumes "length ts \<le> 1" "kind ts \<noteq> lit ''=''"
  shows "\<exists>e us. named_value a b ts = (Inl e, us)"
  using assms advance_short [OF assms(1)]
  by (auto simp: named_value_def chain_def scalar_def parse_error_def expect_def split: prod.split)

lemma field_body_fails:
  assumes "length ts \<le> 1" "kind ts \<in> set field_keywords" "kind ts \<noteq> lit ''run''"
  shows "\<exists>e us. chain (field_body (kind ts) t) f ts = (Inl e, us)"
proof -
  have other: "kind ts \<noteq> lit ''=''" "kind ts \<noteq> lit ''[''" "kind ts \<noteq> lit ''DURATION''"
    using assms(2) by (auto simp: field_keywords_def)
  have lists: "\<exists>e us. list_of_scalars d ts = (Inl e, us)" for d
    unfolding list_of_scalars_def by (rule chain_fails) (rule expect_fails [OF other(2)])
  note vals = named_value_fails [OF assms(1) other(1)]
  have retry: "\<exists>e us. parse_retry ts = (Inl e, us)" if "kind ts = lit ''retry''"
  proof -
    have "\<exists>e us. retry_options sdk_default_retry [] ts = (Inl e, us)"
      using that by (simp add: retry_options.simps [of _ _ ts] parse_error_def)
    then show ?thesis unfolding parse_retry_def by (rule chain_fails)
  qed
  consider "kind ts = lit ''needs''" | "kind ts = lit ''env''" | "kind ts = lit ''labels''"
    | "kind ts = lit ''timeout''" | "kind ts = lit ''retry''"
    using assms(2,3) by (auto simp: field_keywords_def)
  then have "\<exists>e us. field_body (kind ts) t ts = (Inl e, us)"
  proof cases
    case 1
    show ?thesis by (simp add: 1 field_body_def) (rule chain_fails, rule lists)
  next
    case 2
    show ?thesis by (simp add: 2 field_body_def) (rule chain_fails, rule vals)
  next
    case 3
    show ?thesis by (simp add: 3 field_body_def) (rule chain_fails, rule vals)
  next
    case 4
    show ?thesis by (simp add: 4 field_body_def) (rule chain_fails, rule expect_fails, simp add: 4)
  next
    case 5
    show ?thesis by (simp add: 5 field_body_def) (rule chain_fails, rule retry [OF 5])
  qed
  then show ?thesis by (rule chain_fails)
qed

lemma task_field_less:
  assumes "task_field t ts = (Inr t', ts')"
  shows "length ts' \<le> length ts" "kind ts \<noteq> lit ''run'' \<Longrightarrow> length ts' < length ts"
proof -
  let ?body = "chain (field_body (kind ts) t) (\<lambda>t'. chain line_end (\<lambda>_. ret t'))"
  have key: "kind ts \<in> set field_keywords"
    and run: "chain (modify advance_token) (\<lambda>_. ?body) ts = (Inr t', ts')"
    using assms by (auto simp: task_field_def parse_error_def split: if_splits)
  have sh: "shrinks ?body" by blast
  have "?body (advance_token ts) = (Inr t', ts')" using run by (simp add: chain_def modify_def)
  from shrinksD [OF sh this] length_advance [of ts] show "length ts' \<le> length ts" by simp
  show "length ts' < length ts" if "kind ts \<noteq> lit ''run''"
    by (rule chain_advance_less [OF run sh]) (rule field_body_fails [OF _ key that])
qed

text \<open>
  The loop ends: a field uses up tokens, except that \<open>run\<close> as the last token does not, and it cannot
  appear twice.
\<close>

function task_fields :: "pystr \<Rightarrow> pystr list \<Rightarrow> task_node \<Rightarrow> task_node parser" where
  "task_fields task_id seen t ts =
     (if kind ts = lit ''}'' then (Inr t, ts)
      else if kind ts = lit ''EOF'' then parse_error (Unterminated_task task_id) ts
      else if kind ts \<in> set seen \<and> \<not> repeatable (kind ts)
        then parse_error (Field_repeated (kind ts)) ts
      else chain (task_field t) (\<lambda>t' ts'.
        task_fields task_id (if repeatable (kind ts) then seen else kind ts # seen) t'
          (skip_newlines ts')) ts)"
  by pat_completeness auto
termination
proof (relation "measure (\<lambda>(task_id, seen, t, ts). 2 * length ts + (if lit ''run'' \<in> set seen then 0 else 1))",
    goal_cases)
  case (2 task_id seen t ts t' ts')
  note less = task_field_less [OF 2(4)]
  have "length (skip_newlines ts') \<le> length ts'" by (rule length_skip)
  then show ?case
    using 2(3) less by (cases "kind ts = lit ''run''") (auto simp: repeatable_def)
qed auto

declare task_fields.simps [simp del]

section \<open>Tasks and metadata\<close>

definition parse_task :: "task_node parser" where
  "parse_task =
     chain (expect (lit ''task'')) (\<lambda>token.
     chain (scalar (lit ''task id'')) (\<lambda>task_id.
     andThen skip (
     chain (expect (lit ''{'')) (\<lambda>_.
     andThen skip (
     chain (task_fields task_id [] (new_task_node task_id (tk_line token))) (\<lambda>t.
     chain (expect (lit ''}'')) (\<lambda>_.
       if tn_command t = [] then raise (Dsl_error (Missing_run (tn_id t)) (tn_line t) 0)
       else ret t)))))))"

definition parse_meta :: "workflow_node \<Rightarrow> workflow_node parser" where
  "parse_meta w =
     chain (expect (lit ''meta'')) (\<lambda>token.
     chain (named_value (lit ''metadata key'') (lit ''metadata value'')) (\<lambda>(key, v).
       if dget (wn_metadata w) key \<noteq> None
       then raise (Dsl_error (Duplicate_metadata key) (tk_line token) (tk_column token))
       else chain line_end (\<lambda>_. ret (w\<lparr>wn_metadata := dput key v (wn_metadata w)\<rparr>))))"

text \<open>One turn of the loop in \<open>parse\<close>; the ids seen so far are those of the tasks.\<close>

definition parse_section :: "pystr list \<Rightarrow> workflow_node \<Rightarrow> (pystr list \<times> workflow_node) parser" where
  "parse_section task_ids w = (\<lambda>ts.
     if kind ts = lit ''EOF'' then parse_error Unterminated_workflow ts
     else if kind ts = lit ''meta'' then chain (parse_meta w) (\<lambda>w'. ret (task_ids, w')) ts
     else if kind ts = lit ''task'' then
       chain parse_task (\<lambda>t.
         if tn_id t \<in> set task_ids then raise (Dsl_error (Duplicate_task_id (tn_id t)) (tn_line t) 0)
         else ret (tn_id t # task_ids, w\<lparr>wn_tasks := wn_tasks w @ [t]\<rparr>)) ts
     else parse_error Expected_section ts)"

lemma shrinks_task_fields: "shrinks (task_fields task_id seen t)"
proof -
  have "task_fields task_id seen t ts = (Inr x, ts') \<Longrightarrow> length ts' \<le> length ts" for x ts' ts
  proof (induction task_id seen t ts rule: task_fields.induct)
    case (1 task_id seen t ts)
    show ?case
    proof (cases "kind ts = lit ''}'' \<or> kind ts = lit ''EOF'' \<or> kind ts \<in> set seen \<and> \<not> repeatable (kind ts)")
      case True
      with "1.prems" show ?thesis
        by (subst (asm) task_fields.simps) (auto simp: parse_error_def split: if_splits)
    next
      case False
      then have sub: "kind ts \<noteq> lit ''}''" "kind ts \<noteq> lit ''EOF''"
        "\<not> (kind ts \<in> set seen \<and> \<not> repeatable (kind ts))" by blast+
      have "task_fields task_id seen t ts = chain (task_field t) (\<lambda>t' ts'.
          task_fields task_id (if repeatable (kind ts) then seen else kind ts # seen) t' (skip_newlines ts')) ts"
        by (subst task_fields.simps) (simp only: sub if_False)
      with "1.prems" obtain t1 ts1 where one: "task_field t ts = (Inr t1, ts1)"
        and rest: "task_fields task_id (if repeatable (kind ts) then seen else kind ts # seen) t1
          (skip_newlines ts1) = (Inr x, ts')" by (auto simp: chain_result)
      from "1.IH" [OF sub one rest] task_field_less(1) [OF one] length_skip [of ts1] show ?thesis by simp
    qed
  qed
  then show ?thesis by (simp add: shrinks_def)
qed

lemma shrinks_andThen [intro]: "shrinks p \<Longrightarrow> shrinks q \<Longrightarrow> shrinks (andThen p q)"
  unfolding andThen_def by (rule shrinks_chain)

text \<open>A block begins with a keyword and has a token of another kind later: it uses up a token.\<close>

lemma expect_scalar_expect_less:
  assumes "chain (expect k) (\<lambda>t. chain (scalar d) (\<lambda>v. f t v)) ts = (Inr x, ts')"
    and "\<And>t v. shrinks (f t v)"
    and "\<And>t v. length ts \<le> 1 \<Longrightarrow> \<exists>e us. f t v ts = (Inl e, us)"
  shows "length ts' < length ts"
proof -
  from assms(1) obtain t ts1 v ts2 where k: "expect k ts = (Inr t, ts1)"
    and v: "scalar d ts1 = (Inr v, ts2)" and rest: "f t v ts2 = (Inr x, ts')"
    by (auto simp: chain_result)
  have ts1: "ts1 = advance_token ts" "ts2 = advance_token ts1"
    using k v by (auto simp: expect_def scalar_def parse_error_def split: if_splits)
  have le: "length ts' \<le> length ts2" using assms(2) rest by (rule shrinksD)
  show ?thesis
  proof (cases "length ts \<le> 1")
    case True
    then have "ts2 = ts" using ts1 advance_short by simp
    then show ?thesis using rest assms(3) [OF True, of t v] by auto
  next
    case False
    then have "length ts1 < length ts" using advance_cases [of ts] ts1(1) by auto
    with le length_advance [of ts1] ts1(2) show ?thesis by simp
  qed
qed

lemma parse_task_less:
  assumes "parse_task ts = (Inr t, ts')"
  shows "length ts' < length ts"
proof (rule expect_scalar_expect_less [OF assms [unfolded parse_task_def]])
  have kind: "kind ts = lit ''task''"
    using assms by (auto simp: parse_task_def chain_result expect_def parse_error_def split: if_splits)
  fix token :: token and task_id :: pystr
  let ?rest = "chain (expect (lit ''{'')) (\<lambda>_. andThen skip (
     chain (task_fields task_id [] (new_task_node task_id (tk_line token))) (\<lambda>t.
     chain (expect (lit ''}'')) (\<lambda>_.
       if tn_command t = [] then raise (Dsl_error (Missing_run (tn_id t)) (tn_line t) 0)
       else ret t))))"
  show "shrinks (andThen skip ?rest)"
    by (intro shrinks_andThen shrinks_skip shrinks_chain shrinks_expect shrinks_task_fields shrinks_if
        shrinks_raise shrinks_ret)
  show "\<exists>e us. andThen skip ?rest ts = (Inl e, us)" if "length ts \<le> 1"
    using kind skip_newlines_short [OF that]
    by (simp add: andThen_def chain_def skip_def modify_def expect_def parse_error_def)
qed

lemma parse_meta_less:
  assumes "parse_meta w ts = (Inr w', ts')"
  shows "length ts' < length ts"
proof -
  have assoc: "chain (named_value a b) f = chain (scalar a) (\<lambda>name. chain (expect (lit ''=''))
      (\<lambda>_. chain (scalar b) (\<lambda>v. f (name, v))))" for a b and f :: "pystr \<times> pystr \<Rightarrow> workflow_node parser"
    by (auto simp: named_value_def chain_def ret_def fun_eq_iff split: prod.split sum.split)
  have kind: "kind ts = lit ''meta''"
    using assms by (auto simp: parse_meta_def chain_result expect_def parse_error_def split: if_splits)
  show ?thesis
  proof (rule expect_scalar_expect_less [OF assms [unfolded parse_meta_def assoc]])
    fix token :: token and key :: pystr
    let ?stop = "\<lambda>v. case (key, v) of (key, v) \<Rightarrow>
       if dget (wn_metadata w) key \<noteq> None
       then raise (Dsl_error (Duplicate_metadata key) (tk_line token) (tk_column token))
       else chain line_end (\<lambda>_. ret (w\<lparr>wn_metadata := dput key v (wn_metadata w)\<rparr>))"
    let ?rest = "chain (expect (lit ''='')) (\<lambda>_. chain (scalar (lit ''metadata value'')) ?stop)"
    have "shrinks (?stop v)" for v by auto
    then show "shrinks ?rest" by (intro shrinks_chain shrinks_expect shrinks_scalar)
    show "\<exists>e us. ?rest ts = (Inl e, us)"
      by (rule chain_fails, rule expect_fails) (simp add: kind)
  qed
qed

lemma parse_section_less:
  assumes "parse_section ids w ts = (Inr x, ts')"
  shows "length ts' < length ts"
proof -
  consider (meta) w' where "parse_meta w ts = (Inr w', ts')"
    | (task) t where "parse_task ts = (Inr t, ts')"
    using assms
    by (auto simp: parse_section_def chain_result parse_error_def ret_def raise_def split: if_splits)
  then show ?thesis by cases (auto dest: parse_meta_less parse_task_less)
qed

section \<open>Workflows\<close>

function parse_sections :: "pystr list \<Rightarrow> workflow_node \<Rightarrow> workflow_node parser" where
  "parse_sections task_ids w ts =
     (if kind ts = lit ''}'' then (Inr w, ts)
      else chain (parse_section task_ids w) (\<lambda>r ts'.
        parse_sections (fst r) (snd r) (skip_newlines ts')) ts)"
  by pat_completeness auto
termination
proof (relation "measure (\<lambda>(task_ids, w, ts). length ts)", goal_cases)
  case (2 task_ids w ts r ts')
  then show ?case using parse_section_less [OF 2(2)] length_skip [of ts'] by simp
qed auto

declare parse_sections.simps [simp del]

definition parse_workflow :: "workflow_node parser" where
  "parse_workflow =
     andThen skip (
     chain (expect (lit ''workflow'')) (\<lambda>start.
     chain (scalar (lit ''workflow name'')) (\<lambda>name.
     andThen skip (
     chain (expect (lit ''{'')) (\<lambda>_.
     andThen skip (
     chain (parse_sections [] \<lparr>wn_name = name, wn_line = tk_line start, wn_metadata = [], wn_tasks = []\<rparr>)
       (\<lambda>w.
     chain (expect (lit ''}'')) (\<lambda>_.
     andThen skip (
     chain (expect (lit ''EOF'')) (\<lambda>_. ret w))))))))))"

definition parse :: "pystr \<Rightarrow> dsl_error + workflow_node" where
  "parse source = (case tokens source of Inl e \<Rightarrow> Inl e | Inr ts \<Rightarrow> fst (parse_workflow ts))"

definition compile_source :: "pystr \<Rightarrow> dsl_error + workflow_definition" where
  "compile_source source = (case parse source of Inl e \<Rightarrow> Inl e | Inr node \<Rightarrow> compile_node node)"

end
