(* ===== verification/Dsl_Format.thy ===== *)
theory Dsl_Format
  imports Dsl_Blocks
begin

text \<open>
  The printers of the DSL: \<open>format_source\<close> with \<open>quote_if_needed\<close> and the JSON string literals it
  uses, and the \<open>graphviz\<close> rendering of a valid workflow.
\<close>

section \<open>JSON strings\<close>

definition hex_char :: "int \<Rightarrow> int" where
  "hex_char n = (if n < 10 then 48 + n else 87 + n)"

definition hex4 :: "int \<Rightarrow> pystr" where
  "hex4 n = map hex_char [n div 4096 mod 16, n div 256 mod 16, n div 16 mod 16, n mod 16]"

definition json_escape :: "int \<Rightarrow> pystr option" where
  "json_escape c =
     (if c = 34 then Some [92, 34] else if c = 92 then Some [92, 92]
      else if c = 10 then Some [92, 110] else if c = 13 then Some [92, 114]
      else if c = 9 then Some [92, 116] else if c = 12 then Some [92, 102]
      else if c = 8 then Some [92, 98] else None)"

text \<open>\<open>json.dumps(s, ensure_ascii=False)\<close>.\<close>

definition json_char :: "int \<Rightarrow> pystr" where
  "json_char c =
     (case json_escape c of
        Some e \<Rightarrow> e
      | None \<Rightarrow> if c < 32 then [92, 117] @ hex4 c else [c])"

definition json_string :: "pystr \<Rightarrow> pystr" where
  "json_string s = [34] @ concat (map json_char s) @ [34]"

text \<open>\<open>json.dumps(s)\<close>: everything but printable ASCII is escaped, in pairs above 65535.\<close>

definition ascii_char :: "int \<Rightarrow> pystr" where
  "ascii_char c =
     (case json_escape c of
        Some e \<Rightarrow> e
      | None \<Rightarrow>
          if 32 \<le> c \<and> c \<le> 126 then [c]
          else if c < 65536 then [92, 117] @ hex4 c
          else [92, 117] @ hex4 (55296 + (c - 65536) div 1024)
               @ [92, 117] @ hex4 (56320 + (c - 65536) mod 1024))"

definition ascii_string :: "pystr \<Rightarrow> pystr" where
  "ascii_string s = [34] @ concat (map ascii_char s) @ [34]"

section \<open>\<open>format_source\<close>\<close>

definition ident_matches :: "pystr \<Rightarrow> bool" where
  "ident_matches s = (case s of [] \<Rightarrow> False | c # cs \<Rightarrow> ident_start c \<and> list_all ident_char cs)"

definition quote_if_needed :: "pystr \<Rightarrow> pystr" where
  "quote_if_needed s = (if ident_matches s \<and> s \<notin> set dsl_keywords then s else json_string s)"

fun join :: "pystr \<Rightarrow> pystr list \<Rightarrow> pystr" where
  "join sep [] = []"
| "join sep [s] = s"
| "join sep (s # t # ss) = s @ sep @ join sep (t # ss)"

definition sorted_items :: "(pystr, pystr) dict \<Rightarrow> (pystr \<times> pystr) list" where
  "sorted_items d = map (\<lambda>k. (k, the (dget d k))) (sort (dkeys d))"

definition pair_line :: "pystr \<Rightarrow> pystr \<times> pystr \<Rightarrow> pystr" where
  "pair_line word e = word @ quote_if_needed (fst e) @ lit '' = '' @ json_string (snd e)"

definition retry_line :: "sdk_retry \<Rightarrow> pystr" where
  "retry_line r =
     lit ''    retry '' @ lit ''attempts='' @ show_int (rp_max_attempts r) @ lit '', ''
     @ lit ''base='' @ format_duration (rp_base_delay_ms r) @ lit '', ''
     @ lit ''max='' @ format_duration (rp_max_delay_ms r)"

definition task_lines :: "task_node \<Rightarrow> pystr list" where
  "task_lines t =
     [lit ''  task '' @ quote_if_needed (tn_id t) @ lit '' {'',
      lit ''    run ['' @ join (lit '', '') (map json_string (tn_command t)) @ lit '']'']
     @ (if tn_depends_on t \<noteq> []
        then [lit ''    needs ['' @ join (lit '', '') (map quote_if_needed (tn_depends_on t)) @ lit '']'']
        else [])
     @ map (pair_line (lit ''    env '')) (sorted_items (tn_env t))
     @ map (pair_line (lit ''    labels '')) (sorted_items (tn_labels t))
     @ (if tn_timeout_seconds t \<noteq> 0
        then [lit ''    timeout '' @ format_duration (tn_timeout_seconds t * 1000)] else [])
     @ (if tn_retry t \<noteq> sdk_default_retry then [retry_line (tn_retry t)] else [])
     @ [lit ''  }'']"

fun tasks_lines :: "task_node list \<Rightarrow> pystr list" where
  "tasks_lines [] = []"
| "tasks_lines [t] = task_lines t"
| "tasks_lines (t # u # ts) = task_lines t @ [[]] @ tasks_lines (u # ts)"

definition source_lines :: "workflow_node \<Rightarrow> pystr list" where
  "source_lines node =
     [lit ''workflow '' @ quote_if_needed (wn_name node) @ lit '' {'']
     @ map (pair_line (lit ''  meta '')) (sorted_items (wn_metadata node))
     @ (if wn_metadata node \<noteq> [] \<and> wn_tasks node \<noteq> [] then [[]] else [])
     @ tasks_lines (wn_tasks node)
     @ [lit ''}'']"

definition format_source :: "workflow_node \<Rightarrow> pystr" where
  "format_source node = join [10] (source_lines node) @ [10]"

section \<open>\<open>graphviz\<close>\<close>

definition graph_task_line :: "workflow_node \<Rightarrow> task_node \<Rightarrow> pystr" where
  "graph_task_line node t =
     (let attributes = [lit ''label='' @ ascii_string (tn_id t)]
          @ (if tn_id t \<in> set (roots_of node) then [lit ''penwidth='' @ [34] @ lit ''2'' @ [34]] else [])
      in lit ''  '' @ ascii_string (tn_id t) @ lit '' ['' @ join (lit '', '') attributes @ lit ''];'')"

definition graph_edge_lines :: "task_node \<Rightarrow> pystr list" where
  "graph_edge_lines t =
     map (\<lambda>d. lit ''  '' @ ascii_string d @ lit '' -> '' @ ascii_string (tn_id t) @ lit '';'')
       (sort (tn_depends_on t))"

definition graphviz :: "workflow_node \<Rightarrow> dsl_error + pystr" where
  "graphviz node =
     (if filter is_error (validate node) \<noteq> [] then Inl (no_position Not_renderable)
      else
        let ordered = sort_key tn_id (wn_tasks node); inter = [34] @ lit ''Inter'' @ [34] in
        Inr (join [10]
          ([lit ''digraph helixgrid {'', lit ''  rankdir=LR;'', lit ''  graph [fontname='' @ inter @ lit ''];'',
            lit ''  node [shape=box, style=rounded, fontname='' @ inter @ lit ''];'']
           @ map (graph_task_line node) ordered @ concat (map graph_edge_lines ordered) @ [lit ''}''])
          @ [10]))"

end
