(* ===== verification/Dsl_Relex.thy ===== *)
theory Dsl_Relex
  imports Dsl_Format
begin

text \<open>
  Lexing what was printed. A printed source is a list of pieces: words, quoted strings, punctuation,
  spaces and line breaks. When no two words touch, the lexer returns the tokens of the pieces.
\<close>

section \<open>Pieces\<close>

datatype piece = Word pystr pystr | Quoted pystr | Mark int | Space | Break

fun piece_text :: "piece \<Rightarrow> pystr" where
  "piece_text (Word k v) = v"
| "piece_text (Quoted s) = json_string s"
| "piece_text (Mark c) = [c]"
| "piece_text Space = [32]"
| "piece_text Break = [10]"

fun piece_tokens :: "piece \<Rightarrow> (pystr \<times> pystr) list" where
  "piece_tokens (Word k v) = [(k, v)]"
| "piece_tokens (Quoted s) = [(lit ''STRING'', s)]"
| "piece_tokens (Mark c) = [([c], [c])]"
| "piece_tokens Space = []"
| "piece_tokens Break = [(lit ''NEWLINE'', [10])]"

definition kv :: "token \<Rightarrow> pystr \<times> pystr" where
  "kv t = (tk_kind t, tk_value t)"

text \<open>The strings that survive: no backspace and no form feed, whose escapes the lexer rejects.\<close>

definition readable :: "pystr \<Rightarrow> bool" where
  "readable s \<longleftrightarrow> (\<forall>c \<in> set s. 0 \<le> c \<and> c \<noteq> 8 \<and> c \<noteq> 12)"

definition word_ok :: "pystr \<Rightarrow> pystr \<Rightarrow> bool" where
  "word_ok k v \<longleftrightarrow>
     ident_matches v \<and> k = (if v \<in> set dsl_keywords then v else lit ''IDENT'')
     \<or> k = lit ''INTEGER'' \<and> v \<noteq> [] \<and> list_all digit v
     \<or> k = lit ''DURATION'' \<and> (\<exists>d u. v = d @ u \<and> d \<noteq> [] \<and> list_all digit d
         \<and> u \<in> {lit ''ms'', lit ''s'', lit ''m'', lit ''h''})"

fun piece_ok :: "piece \<Rightarrow> bool" where
  "piece_ok (Word k v) = word_ok k v"
| "piece_ok (Quoted s) = readable s"
| "piece_ok (Mark c) = (c \<in> set punctuation)"
| "piece_ok Space = True"
| "piece_ok Break = True"

fun is_word :: "piece \<Rightarrow> bool" where
  "is_word (Word k v) = True"
| "is_word _ = False"

fun spaced :: "piece list \<Rightarrow> bool" where
  "spaced (p # q # ps) = (\<not> (is_word p \<and> is_word q) \<and> spaced (q # ps))"
| "spaced ps = True"

section \<open>One word\<close>

definition delim :: "pystr \<Rightarrow> bool" where
  "delim s \<longleftrightarrow> (case s of [] \<Rightarrow> True | c # _ \<Rightarrow> \<not> ident_char c)"

lemma digit_ident: "digit c \<Longrightarrow> ident_char c"
  by (simp add: ident_char_def)

lemma takeWhile_delim:
  assumes "list_all P v" "delim rest" "\<And>c. P c \<Longrightarrow> ident_char c"
  shows "takeWhile P (v @ rest) = v" "dropWhile P (v @ rest) = rest"
  using assms by (auto simp: delim_def list_all_iff takeWhile_append2 dropWhile_append2 split: list.splits)

lemma char_classes:
  "ident_start c \<Longrightarrow> c \<notin> {32, 9, 13, 10, 35, 34, 39} \<and> c \<notin> set punctuation \<and> \<not> digit c"
  "digit c \<Longrightarrow> c \<notin> {32, 9, 13, 10, 35, 34, 39} \<and> c \<notin> set punctuation"
  by (auto simp: ident_start_def alpha_def upper_def lower_def digit_def punctuation_def)

lemma next_ident:
  assumes v: "ident_matches v" "v = c # cs" and rest: "delim rest"
  shows "next_token c (cs @ rest) pos
    = Inr (Some (make_token (if v \<in> set dsl_keywords then v else lit ''IDENT'') v pos), rest, advance_all v pos)"
proof -
  have c: "ident_start c" and all: "list_all ident_char v"
    using v ident_start_char by (auto simp: ident_matches_def)
  have take: "takeWhile ident_char (c # cs @ rest) = v" "dropWhile ident_char (c # cs @ rest) = rest"
    using takeWhile_delim [OF all rest] v(2) by simp_all
  have "takeWhile digit (c # cs @ rest) = []" using char_classes(1) [OF c] by simp
  then show ?thesis
    unfolding next_token_def Let_def take using char_classes(1) [OF c] c by simp
qed

lemma delim_unit: "delim s \<Longrightarrow> unit_prefix s = []"
  by (cases s) (auto simp: delim_def unit_prefix_def ident_char_def alpha_def lower_def)

lemma next_integer:
  assumes v: "list_all digit v" "v = c # cs" and rest: "delim rest"
  shows "next_token c (cs @ rest) pos = Inr (Some (make_token (lit ''INTEGER'') v pos), rest, advance_all v pos)"
proof -
  have c: "digit c" using v by simp
  have take: "takeWhile digit (c # cs @ rest) = v" "dropWhile digit (c # cs @ rest) = rest"
    using takeWhile_delim [OF v(1) rest digit_ident] v(2) by simp_all
  show ?thesis
    unfolding next_token_def Let_def take delim_unit [OF rest]
    using char_classes(2) [OF c] v(2) by simp
qed

lemma unit_prefix_unit:
  assumes "u \<in> {lit ''ms'', lit ''s'', lit ''m'', lit ''h''}" "delim rest"
  shows "unit_prefix (u @ rest) = u"
  using assms by (cases rest) (auto simp: delim_def unit_prefix_def ident_char_def alpha_def lower_def)

lemma next_duration:
  assumes v: "d \<noteq> []" "list_all digit d" "u \<in> {lit ''ms'', lit ''s'', lit ''m'', lit ''h''}"
    and split: "d @ u = c # cs" and rest: "delim rest"
  shows "next_token c (cs @ rest) pos
    = Inr (Some (make_token (lit ''DURATION'') (d @ u) pos), rest, advance_all (d @ u) pos)"
proof -
  have c: "digit c" using v split by (cases d) auto
  have whole: "c # cs @ rest = d @ u @ rest" using split by (metis append_Cons append_assoc)
  have "\<not> digit (hd (u @ rest))" "u @ rest \<noteq> []" using v(3) by (auto simp: digit_def)
  then have take: "takeWhile digit (c # cs @ rest) = d" "dropWhile digit (c # cs @ rest) = u @ rest"
    using v(2) unfolding whole
    by (cases "u @ rest"; auto simp: list_all_iff takeWhile_append2 dropWhile_append2)+
  have u: "unit_prefix (u @ rest) = u" "u \<noteq> []"
    using unit_prefix_unit [OF v(3) rest] v(3) by auto
  have drop: "drop (length (d @ u)) (c # cs @ rest) = rest" unfolding whole by simp
  show ?thesis
    unfolding next_token_def Let_def take u(1) drop using char_classes(2) [OF c] v(1) u(2) by simp
qed

lemma next_word:
  assumes "word_ok k (c # cs)" "delim rest"
  shows "next_token c (cs @ rest) pos
    = Inr (Some (make_token k (c # cs) pos), rest, advance_all (c # cs) pos)"
proof -
  consider (ident) "ident_matches (c # cs)" "k = (if c # cs \<in> set dsl_keywords then c # cs else lit ''IDENT'')"
    | (int) "k = lit ''INTEGER''" "list_all digit (c # cs)"
    | (dur) d u where "k = lit ''DURATION''" "c # cs = d @ u" "d \<noteq> []" "list_all digit d"
        "u \<in> {lit ''ms'', lit ''s'', lit ''m'', lit ''h''}"
    using assms(1) unfolding word_ok_def by blast
  then show ?thesis
  proof cases
    case ident
    then show ?thesis using next_ident [OF ident(1) refl assms(2)] by simp
  next
    case int
    then show ?thesis using next_integer [OF int(2) refl assms(2)] by simp
  next
    case dur
    show ?thesis using next_duration [OF dur(3-5) dur(2) [symmetric] assms(2)] dur(1,2) by simp
  qed
qed

lemma word_ok_Cons: "word_ok k v \<Longrightarrow> \<exists>c cs. v = c # cs"
  by (cases v) (auto simp: word_ok_def ident_matches_def)

section \<open>Quoted strings\<close>

lemma hex_digits: "0 \<le> n \<Longrightarrow> n < 16 \<Longrightarrow> hex_digit (hex_char n) \<and> hex_value (hex_char n) = n"
  by (auto simp: hex_digit_def hex_char_def hex_value_def digit_def)

lemma hex4_digits: "list_all hex_digit (hex4 n)"
  by (simp add: hex4_def hex_digits)

lemma horner: "a * 4096 + b * 256 + c * 16 + d = n \<Longrightarrow> 16 * (16 * (16 * (16 * 0 + a) + b) + c) + d = (n :: int)"
  by simp

lemma hex4_number:
  assumes "0 \<le> n" "n < 65536"
  shows "hex_number (hex4 n) = n"
proof -
  have "n div 256 = n div 16 div 16" "n div 4096 = n div 256 div 16"
    using zdiv_zmult2_eq [of 16 n 16] zdiv_zmult2_eq [of 16 n 256] by simp_all
  moreover have "n div 4096 mod 16 = n div 4096" using assms by (intro mod_pos_pos_trivial) auto
  ultimately have "n div 4096 mod 16 * 4096 + n div 256 mod 16 * 256 + n div 16 mod 16 * 16 + n mod 16 = n"
    using div_mult_mod_eq [of n 16] div_mult_mod_eq [of "n div 16" 16] div_mult_mod_eq [of "n div 256" 16]
    by linarith
  moreover have "hex_value (hex_char (m mod 16)) = m mod 16" for m
    using hex_digits [of "m mod 16"] by simp
  ultimately show ?thesis
    by (simp only: hex_number_def hex4_def list.map foldl_Cons foldl_Nil) (rule horner)
qed

lemma lex_json_char:
  assumes "0 \<le> c" "c \<noteq> 8" "c \<noteq> 12"
  shows "\<exists>pos'. lex_string 34 start out (json_char c @ s) pos = lex_string 34 start (out @ [c]) s pos'"
proof -
  consider (esc) e where "json_escape c = Some [92, e]" "simple_escape e = Some c" "e \<noteq> 117"
    | (hex) "json_escape c = None" "c < 32" "c \<noteq> 10" | (plain) "json_escape c = None" "32 \<le> c" "c \<notin> {34, 10, 92}"
    using assms by (fastforce simp: json_escape_def simple_escape_def split: if_splits)
  then show ?thesis
  proof cases
    case (esc e)
    then show ?thesis
      by (intro exI [of _ "advance_pos e (advance_pos 92 pos)"])
        (simp add: json_char_def lex_string.simps(2) Let_def)
  next
    case hex
    have four: "take 4 (hex4 c @ s) = hex4 c" "drop 4 (hex4 c @ s) = s" "length (hex4 c) = 4"
      by (simp_all add: hex4_def)
    have "json_char c @ s = 92 # 117 # hex4 c @ s" using hex by (simp add: json_char_def)
    then show ?thesis
      using hex4_number [of c] assms(1) hex(2) four hex4_digits [of c]
      by (intro exI [of _ "advance_all (hex4 c) (advance_pos 117 (advance_pos 92 pos))"])
        (simp add: lex_string.simps(2) Let_def)
  next
    case plain
    then show ?thesis
      by (intro exI [of _ "advance_pos c pos"]) (auto simp: json_char_def lex_string.simps(2))
  qed
qed

lemma lex_json_body:
  "readable s \<Longrightarrow> \<exists>pos'. lex_string 34 start out (concat (map json_char s) @ 34 # rest) pos
     = Inr (out @ s, rest, pos')"
proof (induction s arbitrary: out pos)
  case Nil
  then show ?case by (auto simp: lex_string.simps(2))
next
  case (Cons c s)
  then have c: "0 \<le> c" "c \<noteq> 8" "c \<noteq> 12" and s: "readable s" by (auto simp: readable_def)
  from lex_json_char [OF c, of start out "concat (map json_char s) @ 34 # rest" pos] Cons.IH [OF s, of "out @ [c]"]
  show ?case by auto
qed

section \<open>The whole text\<close>

definition lexes_to :: "pystr \<Rightarrow> (pystr \<times> pystr) list \<Rightarrow> bool" where
  "lexes_to s kvs \<longleftrightarrow> (\<forall>pos. \<exists>ts. lex s pos = Inr ts \<and> map kv ts = kvs)"

lemma lex_piece:
  assumes "piece_ok p" "is_word p \<Longrightarrow> delim rest" "lexes_to rest kvs"
  shows "lexes_to (piece_text p @ rest) (piece_tokens p @ kvs)"
  unfolding lexes_to_def
proof
  fix pos
  have go: "\<exists>ts. lex rest pos' = Inr ts \<and> map kv ts = kvs" for pos'
    using assms(3) unfolding lexes_to_def by blast
  show "\<exists>ts. lex (piece_text p @ rest) pos = Inr ts \<and> map kv ts = piece_tokens p @ kvs"
  proof (cases p)
    case (Word k v)
    then obtain c cs where v: "v = c # cs" using assms(1) word_ok_Cons [of k v] by auto
    have "next_token c (cs @ rest) pos = Inr (Some (make_token k (c # cs) pos), rest, advance_all (c # cs) pos)"
      by (rule next_word) (use assms Word v in auto)
    with go [of "advance_all (c # cs) pos"] Word v show ?thesis
      by (auto simp: lex.simps(2) kv_def make_token_def)
  next
    case (Quoted s)
    then have "readable s" using assms(1) by simp
    from lex_json_body [OF this, of pos "[]" rest "advance_pos 34 pos"]
    obtain pos' where "lex_string 34 pos [] (concat (map json_char s) @ 34 # rest) (advance_pos 34 pos)
      = Inr (s, rest, pos')" by auto
    then have "next_token 34 (concat (map json_char s) @ 34 # rest) pos
        = Inr (Some (make_token (lit ''STRING'') s pos), rest, pos')"
      by (simp add: next_token_def Let_def punctuation_def)
    with go [of pos'] Quoted show ?thesis
      by (auto simp: json_string_def lex.simps(2) kv_def make_token_def)
  next
    case (Mark c)
    then have c: "c \<in> set punctuation" using assms(1) by simp
    then have "next_token c rest pos = Inr (Some (make_token [c] [c] pos), rest, advance_pos c pos)"
      by (auto simp: next_token_def Let_def punctuation_def)
    with go [of "advance_pos c pos"] Mark show ?thesis
      by (auto simp: lex.simps(2) kv_def make_token_def)
  next
    case Space
    have "next_token 32 rest pos = Inr (None, rest, advance_pos 32 pos)"
      by (simp add: next_token_def Let_def)
    with go [of "advance_pos 32 pos"] Space show ?thesis by (auto simp: lex.simps(2))
  next
    case Break
    have "next_token 10 rest pos = Inr (Some (make_token (lit ''NEWLINE'') [10] pos), rest, advance_pos 10 pos)"
      by (simp add: next_token_def Let_def)
    with go [of "advance_pos 10 pos"] Break show ?thesis
      by (auto simp: lex.simps(2) kv_def make_token_def)
  qed
qed

lemma text_delim:
  assumes "list_all piece_ok ps" "ps \<noteq> []" "\<not> is_word (hd ps)"
  shows "delim (concat (map piece_text ps))"
proof (cases ps)
  case (Cons p qs)
  have "\<not> ident_char c" if "c \<in> set punctuation" for c
    using that by (auto simp: punctuation_def ident_char_def alpha_def upper_def lower_def digit_def)
  moreover have "\<not> ident_char 34" "\<not> ident_char 32" "\<not> ident_char 10"
    by (simp_all add: ident_char_def alpha_def upper_def lower_def digit_def)
  ultimately show ?thesis
    using Cons assms by (cases p) (auto simp: delim_def json_string_def)
qed (use assms in simp)

lemma lex_pieces:
  "list_all piece_ok ps \<Longrightarrow> spaced ps \<Longrightarrow>
     lexes_to (concat (map piece_text ps)) (concat (map piece_tokens ps) @ [(lit ''EOF'', [])])"
proof (induction ps rule: spaced.induct, goal_cases)
  case (1 p q ps)
  have "delim (concat (map piece_text (q # ps)))" if "is_word p"
    by (rule text_delim) (use 1 that in auto)
  with 1 lex_piece [of p "concat (map piece_text (q # ps))"] show ?case by simp
next
  case 2
  then show ?case by (simp add: lexes_to_def kv_def make_token_def)
next
  case (3 p)
  have "lexes_to [] [(lit ''EOF'', [])]" by (simp add: lexes_to_def kv_def make_token_def)
  with 3 lex_piece [of p "[]"] show ?case by (simp add: delim_def)
qed

end
