(* ===== verification/Dsl_Reparse.thy ===== *)
theory Dsl_Reparse
  imports Dsl_Relex
begin

text \<open>
  Parsing what was printed. \<open>consumes p kvs L x\<close>: on tokens with the kinds and values \<open>kvs\<close>, followed by
  tokens that satisfy \<open>L\<close>, the parser \<open>p\<close> returns \<open>x\<close> and leaves what follows.
\<close>

definition consumes :: "'a parser \<Rightarrow> (pystr \<times> pystr) list \<Rightarrow> ((pystr \<times> pystr) list \<Rightarrow> bool) \<Rightarrow> 'a \<Rightarrow> bool" where
  "consumes p kvs L x \<longleftrightarrow> (\<forall>ts rest. map kv ts = kvs @ rest \<longrightarrow> rest \<noteq> [] \<longrightarrow> L rest \<longrightarrow>
     p ts = (Inr x, drop (length kvs) ts))"

abbreviation anything :: "(pystr \<times> pystr) list \<Rightarrow> bool" where
  "anything \<equiv> (\<lambda>_. True)"

definition starts :: "pystr list \<Rightarrow> (pystr \<times> pystr) list \<Rightarrow> bool" where
  "starts ks rest \<longleftrightarrow> fst (hd rest) \<in> set ks"

abbreviation newline :: "pystr \<times> pystr" where
  "newline \<equiv> (lit ''NEWLINE'', [10])"

definition mark :: "string \<Rightarrow> pystr \<times> pystr" where
  "mark s = (lit s, lit s)"

lemma kind_kv: "map kv ts = e # rest \<Longrightarrow> kind ts = fst e \<and> tk_value (current ts) = snd e"
  by (cases ts) (auto simp: kind_def current_def kv_def)

lemma advance_kv: "map kv ts = e # rest \<Longrightarrow> rest \<noteq> [] \<Longrightarrow> advance_token ts = drop 1 ts"
  by (cases ts rule: advance_token.cases) auto

lemma map_kv_drop: "map kv ts = kvs @ rest \<Longrightarrow> map kv (drop (length kvs) ts) = rest"
  by (metis append_eq_conv_conj drop_map)

lemma consumesD: "consumes p kvs L x \<Longrightarrow> map kv ts = kvs @ rest \<Longrightarrow> rest \<noteq> [] \<Longrightarrow> L rest \<Longrightarrow>
    p ts = (Inr x, drop (length kvs) ts)"
  by (simp add: consumes_def)

lemma consumes_weaken: "consumes p kvs L x \<Longrightarrow> (\<And>rest. L' rest \<Longrightarrow> L rest) \<Longrightarrow> consumes p kvs L' x"
  by (simp add: consumes_def)

lemma consumes_ret: "consumes (ret x) [] L x"
  by (simp add: consumes_def ret_def)

lemma consumes_chain:
  assumes p: "consumes p a La x" and f: "consumes (f x) b L y"
    and look: "\<And>rest. rest \<noteq> [] \<Longrightarrow> L rest \<Longrightarrow> La (b @ rest)"
  shows "consumes (chain p f) (a @ b) L y"
  unfolding consumes_def
proof (intro allI impI)
  fix ts rest assume m: "map kv ts = (a @ b) @ rest" "rest \<noteq> []" "L rest"
  have "p ts = (Inr x, drop (length a) ts)"
    by (rule consumesD [OF p, of ts "b @ rest"]) (use m look in auto)
  moreover have "f x (drop (length a) ts) = (Inr y, drop (length b) (drop (length a) ts))"
    by (rule consumesD [OF f, of _ rest]) (use m map_kv_drop [of ts a "b @ rest"] in auto)
  ultimately show "chain p f ts = (Inr y, drop (length (a @ b)) ts)"
    by (simp add: chain_def add.commute)
qed

lemma consumes_expect:
  assumes "\<And>t. kv t = (k, v) \<Longrightarrow> consumes (g t) b L y"
  shows "consumes (chain (expect k) g) ((k, v) # b) L y"
  unfolding consumes_def
proof (intro allI impI)
  fix ts rest assume m: "map kv ts = ((k, v) # b) @ rest" "rest \<noteq> []" "L rest"
  then obtain t us where ts: "ts = t # us" "kv t = (k, v)" "map kv us = b @ rest" by (cases ts) auto
  have "expect k ts = (Inr t, us)"
    using kind_kv [of ts "(k, v)" "b @ rest"] advance_kv [of ts "(k, v)" "b @ rest"] m ts
    by (simp add: expect_def current_def)
  with consumesD [OF assms [OF ts(2)] ts(3) m(2,3)]
  show "chain (expect k) g ts = (Inr y, drop (length ((k, v) # b)) ts)" by (simp add: chain_def ts(1))
qed

lemma consumes_scalar: "k \<in> set scalar_kinds \<or> k \<in> set dsl_keywords \<Longrightarrow> consumes (scalar d) [(k, v)] anything v"
  using kind_kv [of _ "(k, v)"] advance_kv [of _ "(k, v)"]
  by (auto simp: consumes_def scalar_def)

section \<open>Newlines\<close>

lemma skip_none: "map kv ts = rest \<Longrightarrow> \<not> starts [lit ''NEWLINE''] rest \<Longrightarrow> rest \<noteq> [] \<Longrightarrow> skip_newlines ts = ts"
  by (cases ts rule: skip_newlines.cases) (auto simp: starts_def kv_def)

lemma skip_newlines_kv:
  "map kv ts = replicate n newline @ rest \<Longrightarrow> rest \<noteq> [] \<Longrightarrow> \<not> starts [lit ''NEWLINE''] rest \<Longrightarrow>
     skip_newlines ts = drop n ts"
proof (induction n arbitrary: ts)
  case 0
  then show ?case using skip_none [of ts rest] by simp
next
  case (Suc n)
  then obtain t u us where ts: "ts = t # u # us" "kv t = newline"
    "map kv (u # us) = replicate n newline @ rest"
    by (cases ts rule: skip_newlines.cases) (auto simp: Cons_eq_append_conv)
  then show ?case using Suc.IH [OF ts(3) Suc.prems(2,3)] by (simp add: kv_def)
qed

lemma consumes_skip: "consumes skip (replicate n newline) (\<lambda>rest. \<not> starts [lit ''NEWLINE''] rest) ()"
  by (simp add: consumes_def skip_def modify_def skip_newlines_kv)

lemma consumes_line_end: "consumes line_end [newline] (\<lambda>rest. \<not> starts [lit ''NEWLINE''] rest) ()"
  unfolding consumes_def
proof (intro allI impI)
  fix ts rest assume m: "map kv ts = [newline] @ rest" "rest \<noteq> []" "\<not> starts [lit ''NEWLINE''] rest"
  then show "line_end ts = (Inr (), drop (length [newline]) ts)"
    using kind_kv [of ts newline rest] skip_newlines_kv [of ts 1 rest] by (simp add: line_end_def)
qed

section \<open>Lists, pairs, durations\<close>

fun commas :: "(pystr \<times> pystr) list \<Rightarrow> (pystr \<times> pystr) list" where
  "commas [] = []"
| "commas [e] = [e]"
| "commas (e # f # es) = e # mark '','' # commas (f # es)"

definition scalars :: "(pystr \<times> pystr) list \<Rightarrow> bool" where
  "scalars es \<longleftrightarrow> (\<forall>e \<in> set es. fst e \<in> set scalar_kinds \<or> fst e \<in> set dsl_keywords)"

lemma consumes_scalar_list:
  "es \<noteq> [] \<Longrightarrow> scalars es \<Longrightarrow> consumes (scalar_list d vals) (commas es @ [mark '']'']) anything (vals @ map snd es)"
proof (induction es arbitrary: vals rule: commas.induct)
  case (2 e)
  let ?next = "\<lambda>v ts1. if kind ts1 = lit '']'' then (Inr (vals @ [v]), advance_token ts1)
       else chain (expect (lit '','')) (\<lambda>_ ts2. scalar_list d (vals @ [v]) ts2) ts1"
  have "consumes (?next (snd e)) [mark '']''] anything (vals @ [snd e])"
    unfolding consumes_def
  proof (intro allI impI)
    fix ts rest assume m: "map kv ts = [mark '']''] @ rest" "rest \<noteq> []"
    then show "?next (snd e) ts = (Inr (vals @ [snd e]), drop (length [mark '']'']) ts)"
      using kind_kv [of ts "mark '']''" rest] advance_kv [of ts "mark '']''" rest] by (simp add: mark_def)
  qed
  moreover have "consumes (scalar d) [e] anything (snd e)"
    using consumes_scalar [of "fst e" d "snd e"] 2(2) by (simp add: scalars_def)
  ultimately have "consumes (chain (scalar d) ?next) ([e] @ [mark '']'']) anything (vals @ [snd e])"
    by (intro consumes_chain [of "scalar d" "[e]" anything "snd e" ?next]) auto
  then show ?case by (simp add: consumes_def scalar_list.simps)
next
  case (3 e f es)
  let ?next = "\<lambda>v ts1. if kind ts1 = lit '']'' then (Inr (vals @ [v]), advance_token ts1)
       else chain (expect (lit '','')) (\<lambda>_ ts2. scalar_list d (vals @ [v]) ts2) ts1"
  let ?tail = "commas (f # es) @ [mark '']'']"
  have IH: "consumes (scalar_list d (vals @ [snd e])) ?tail anything ((vals @ [snd e]) @ map snd (f # es))"
    using 3 by (intro "3.IH") (auto simp: scalars_def)
  have comma: "consumes (chain (expect (lit '','')) (\<lambda>_ ts2. scalar_list d (vals @ [snd e]) ts2))
      ((lit '','', lit '','') # ?tail) anything ((vals @ [snd e]) @ map snd (f # es))"
    by (rule consumes_expect) (use IH in simp)
  have "consumes (?next (snd e)) (mark '','' # ?tail) anything ((vals @ [snd e]) @ map snd (f # es))"
    unfolding consumes_def
  proof (intro allI impI)
    fix ts rest assume m: "map kv ts = (mark '','' # ?tail) @ rest" "rest \<noteq> []"
    then have "kind ts \<noteq> lit '']''" using kind_kv [of ts "mark '',''"] by (simp add: mark_def)
    then show "?next (snd e) ts = (Inr ((vals @ [snd e]) @ map snd (f # es)), drop (length (mark '','' # ?tail)) ts)"
      using consumesD [OF comma, of ts rest] m by (simp add: mark_def)
  qed
  moreover have "consumes (scalar d) [e] anything (snd e)"
    using consumes_scalar [of "fst e" d "snd e"] 3(3) by (simp add: scalars_def)
  ultimately have "consumes (chain (scalar d) ?next) ([e] @ mark '','' # ?tail) anything ((vals @ [snd e]) @ map snd (f # es))"
    by (intro consumes_chain [of "scalar d" "[e]" anything "snd e" ?next]) auto
  then show ?case by (simp add: consumes_def scalar_list.simps)
qed simp

definition bracketed :: "(pystr \<times> pystr) list \<Rightarrow> (pystr \<times> pystr) list" where
  "bracketed es = mark ''['' # commas es @ [mark '']'']"

lemma commas_head: "es \<noteq> [] \<Longrightarrow> commas es = hd es # tl (commas es)"
  by (cases es rule: commas.cases) auto

lemma consumes_list:
  assumes "scalars es"
  shows "consumes (list_of_scalars d) (bracketed es) anything (map snd es)"
proof -
  let ?tail = "\<lambda>ts. if kind ts = lit '']'' then (Inr [], advance_token ts) else scalar_list d [] ts"
  have "consumes ?tail (commas es @ [mark '']'']) anything (map snd es)"
    unfolding consumes_def
  proof (intro allI impI)
    fix ts rest assume m: "map kv ts = (commas es @ [mark '']'']) @ rest" "rest \<noteq> []"
    show "?tail ts = (Inr (map snd es), drop (length (commas es @ [mark '']''])) ts)"
    proof (cases "es = []")
      case True
      then show ?thesis using m kind_kv [of ts "mark '']''"] advance_kv [of ts "mark '']''" rest]
        by (simp add: mark_def)
    next
      case False
      then have head: "map kv ts = hd es # (tl (commas es) @ [mark '']'']) @ rest"
        using m(1) commas_head [OF False] by (metis append_Cons append_assoc)
      have "fst (hd es) \<noteq> lit '']''"
        using assms False by (auto simp: scalars_def scalar_kinds_def dsl_keywords_def dest!: hd_in_set)
      then have "kind ts \<noteq> lit '']''" using kind_kv [OF head] by simp
      then show ?thesis
        using consumesD [OF consumes_scalar_list [OF False assms, of d "[]"] m(1) m(2)] by simp
    qed
  qed
  then show ?thesis
    unfolding list_of_scalars_def bracketed_def mark_def by (intro consumes_expect) simp
qed

lemma consumes_command: "scalars es \<Longrightarrow> consumes command (bracketed es) anything (map snd es)"
  unfolding consumes_def
proof (intro allI impI)
  fix ts rest assume es: "scalars es" and m: "map kv ts = bracketed es @ rest" "rest \<noteq> []"
  have "kind ts = lit ''[''" using m(1) kind_kv [of ts "mark ''[''"] by (simp add: bracketed_def mark_def)
  then show "command ts = (Inr (map snd es), drop (length (bracketed es)) ts)"
    using consumesD [OF consumes_list [OF es] m(1,2)] by (simp add: command_def)
qed

definition scalar_token :: "pystr \<times> pystr \<Rightarrow> bool" where
  "scalar_token e \<longleftrightarrow> fst e \<in> set scalar_kinds \<or> fst e \<in> set dsl_keywords"

lemma consumes_named_value:
  assumes "scalar_token a" "scalar_token b"
  shows "consumes (named_value x y) [a, mark ''='', b] anything (snd a, snd b)"
proof -
  have b: "consumes (chain (scalar y) (\<lambda>v. ret (snd a, v))) ([b] @ []) anything (snd a, snd b)"
    by (rule consumes_chain [OF _ consumes_ret])
      (use assms(2) consumes_scalar [of "fst b" y "snd b"] in \<open>auto simp: scalar_token_def\<close>)
  then have "consumes (chain (expect (lit ''='')) (\<lambda>_. chain (scalar y) (\<lambda>v. ret (snd a, v))))
      (mark ''='' # [b]) anything (snd a, snd b)"
    unfolding mark_def by (intro consumes_expect) simp
  then have "consumes (named_value x y) ([a] @ mark ''='' # [b]) anything (snd a, snd b)"
    unfolding named_value_def
    by (intro consumes_chain [of "scalar x" "[a]" anything "snd a"])
      (use assms(1) consumes_scalar [of "fst a" x "snd a"] in \<open>auto simp: scalar_token_def\<close>)
  then show ?thesis by simp
qed

lemma consumes_lift: "consumes (lift_result (Inr x)) [] L x"
  by (simp add: lift_result_def consumes_ret)

lemma consumes_duration:
  assumes "\<And>l c. duration_to_milliseconds s l c = Inr ms"
  shows "consumes duration_ms [(lit ''DURATION'', s)] anything ms"
  unfolding duration_ms_def
  by (rule consumes_expect) (use assms in \<open>simp add: kv_def consumes_lift\<close>)

section \<open>Retry policies\<close>

definition option_tokens :: "string \<Rightarrow> string \<Rightarrow> pystr \<Rightarrow> (pystr \<times> pystr) list" where
  "option_tokens word k v = [mark word, mark ''='', (lit k, v)]"

text \<open>One option, with its trailing comma if there is one.\<close>

lemma consumes_retry_option:
  assumes "consumes (if key = lit ''attempts'' then
       chain (expect (lit ''INTEGER'')) (\<lambda>t. ret (r\<lparr>rp_max_attempts := dec_value (tk_value t)\<rparr>))
     else chain duration_ms (\<lambda>ms.
       ret (if key = lit ''base'' then r\<lparr>rp_base_delay_ms := ms\<rparr> else r\<lparr>rp_max_delay_ms := ms\<rparr>)))
     [(k, v)] anything r'"
  shows "consumes (retry_option key r) [(key, key), mark ''='', (k, v), mark '',''] anything r'"
    "consumes (retry_option key r) [(key, key), mark ''='', (k, v)] (\<lambda>rest. \<not> starts [lit '',''] rest) r'"
proof -
  let ?tail = "\<lambda>r' ts. (Inr r', if kind ts = lit '','' then advance_token ts else ts)"
  have adv: "consumes (chain (modify advance_token) (\<lambda>_. p)) (e # kvs) L x" if "consumes p kvs L x"
    for p :: "'b parser" and e kvs L x
    unfolding consumes_def
  proof (intro allI impI)
    fix ts rest assume m: "map kv ts = (e # kvs) @ rest" "rest \<noteq> []" "L rest"
    then have "advance_token ts = drop 1 ts" using advance_kv [of ts e "kvs @ rest"] by simp
    moreover have "p (drop 1 ts) = (Inr x, drop (length kvs) (drop 1 ts))"
      by (rule consumesD [OF that, of _ rest]) (use m in \<open>auto simp: drop_map [symmetric]\<close>)
    ultimately show "chain (modify advance_token) (\<lambda>_. p) ts = (Inr x, drop (length (e # kvs)) ts)"
      by (simp add: chain_def modify_def)
  qed
  have comma: "consumes (?tail r') [mark '',''] anything r'"
    using kind_kv [of _ "mark '',''"] advance_kv [of _ "mark '',''"]
    by (auto simp: consumes_def mark_def)
  have none: "consumes (?tail r') [] (\<lambda>rest. \<not> starts [lit '',''] rest) r'"
    unfolding consumes_def
  proof (intro allI impI)
    fix ts rest assume m: "map kv ts = [] @ rest" "rest \<noteq> []" "\<not> starts [lit '',''] rest"
    then have "kind ts \<noteq> lit '',''" using kind_kv [of ts "hd rest" "tl rest"] by (auto simp: starts_def)
    then show "?tail r' ts = (Inr r', drop (length []) ts)" by simp
  qed
  show "consumes (retry_option key r) [(key, key), mark ''='', (k, v), mark '',''] anything r'"
    unfolding retry_option_def mark_def [of "''=''"]
    by (rule adv, rule consumes_expect)
      (rule consumes_chain [where La = anything and f = ?tail and a = "[(k, v)]" and b = "[mark '','']",
          OF assms comma, simplified append_Cons append_Nil], simp)
  show "consumes (retry_option key r) [(key, key), mark ''='', (k, v)] (\<lambda>rest. \<not> starts [lit '',''] rest) r'"
    unfolding retry_option_def mark_def [of "''=''"]
    by (rule adv, rule consumes_expect)
      (rule consumes_chain [where La = anything and f = ?tail and a = "[(k, v)]" and b = "[]",
          OF assms none, simplified append_Cons append_Nil], simp)
qed

lemma consumes_attempts:
  assumes "dec_value v = n"
  shows "consumes (if lit ''attempts'' = lit ''attempts'' then
       chain (expect (lit ''INTEGER'')) (\<lambda>t. ret (r\<lparr>rp_max_attempts := dec_value (tk_value t)\<rparr>))
     else chain duration_ms (\<lambda>ms.
       ret (if lit ''attempts'' = lit ''base'' then r\<lparr>rp_base_delay_ms := ms\<rparr> else r\<lparr>rp_max_delay_ms := ms\<rparr>)))
     [(lit ''INTEGER'', v)] anything (r\<lparr>rp_max_attempts := n\<rparr>)"
  unfolding if_P [OF refl] by (rule consumes_expect) (use assms in \<open>simp add: kv_def consumes_ret\<close>)

lemma consumes_delay:
  fixes r :: sdk_retry
  assumes "\<And>l c. duration_to_milliseconds v l c = Inr ms" "key \<noteq> lit ''attempts''"
  shows "consumes (if key = lit ''attempts'' then
       chain (expect (lit ''INTEGER'')) (\<lambda>t. ret (r\<lparr>rp_max_attempts := dec_value (tk_value t)\<rparr>))
     else chain duration_ms (\<lambda>ms.
       ret (if key = lit ''base'' then r\<lparr>rp_base_delay_ms := ms\<rparr> else r\<lparr>rp_max_delay_ms := ms\<rparr>)))
     [(lit ''DURATION'', v)] anything
     (if key = lit ''base'' then r\<lparr>rp_base_delay_ms := ms\<rparr> else r\<lparr>rp_max_delay_ms := ms\<rparr>)"
  using consumes_chain [OF consumes_duration [OF assms(1)] consumes_ret] assms(2) by (simp only: if_False append_Nil2)

end
