(* ===== verification/Dsl_Reblock.thy ===== *)
theory Dsl_Reblock
  imports Dsl_Reparse
begin

text \<open>
  Parsing the printed blocks: the fields of a task one after the other, tasks, metadata and the whole
  workflow, on the tokens that the printer's lines have.
\<close>

section \<open>Printed tokens\<close>

definition quoted_token :: "pystr \<Rightarrow> pystr \<times> pystr" where
  "quoted_token s = (if ident_matches s \<and> s \<notin> set dsl_keywords then lit ''IDENT'' else lit ''STRING'', s)"

definition string_token :: "pystr \<Rightarrow> pystr \<times> pystr" where
  "string_token s = (lit ''STRING'', s)"

definition pair_tokens :: "string \<Rightarrow> pystr \<times> pystr \<Rightarrow> (pystr \<times> pystr) list" where
  "pair_tokens word e = [mark word, quoted_token (fst e), mark ''='', string_token (snd e), newline]"

definition retry_tokens :: "sdk_retry \<Rightarrow> (pystr \<times> pystr) list" where
  "retry_tokens r =
     option_tokens ''attempts'' ''INTEGER'' (show_int (rp_max_attempts r)) @ [mark '','']
     @ option_tokens ''base'' ''DURATION'' (format_duration (rp_base_delay_ms r)) @ [mark '','']
     @ option_tokens ''max'' ''DURATION'' (format_duration (rp_max_delay_ms r))"

definition field_tokens :: "task_node \<Rightarrow> (pystr \<times> pystr) list" where
  "field_tokens t =
     mark ''run'' # bracketed (map string_token (tn_command t)) @ newline
     # (if tn_depends_on t \<noteq> []
        then mark ''needs'' # bracketed (map quoted_token (tn_depends_on t)) @ [newline] else [])
     @ concat (map (pair_tokens ''env'') (sorted_items (tn_env t)))
     @ concat (map (pair_tokens ''labels'') (sorted_items (tn_labels t)))
     @ (if tn_timeout_seconds t \<noteq> 0
        then [mark ''timeout'', (lit ''DURATION'', format_duration (tn_timeout_seconds t * 1000)), newline]
        else [])
     @ (if tn_retry t \<noteq> sdk_default_retry then mark ''retry'' # retry_tokens (tn_retry t) @ [newline] else [])"

definition task_tokens :: "task_node \<Rightarrow> (pystr \<times> pystr) list" where
  "task_tokens t =
     [mark ''task'', quoted_token (tn_id t), mark ''{'', newline] @ field_tokens t @ [mark ''}'']"

lemma scalar_tokens [simp]: "scalar_token (quoted_token s)" "scalar_token (string_token s)"
  "snd (quoted_token s) = s" "snd (string_token s) = s"
  by (simp_all add: scalar_token_def quoted_token_def string_token_def scalar_kinds_def)

lemma scalars_map: "(\<And>s. scalar_token (f s)) \<Longrightarrow> scalars (map f ss)"
  by (simp add: scalars_def scalar_token_def)

lemma map_snd_tokens [simp]: "map snd (map quoted_token ss) = ss" "map snd (map string_token ss) = ss"
  by (simp_all add: comp_def)

section \<open>The retry options\<close>

definition retry_ok :: "sdk_retry \<Rightarrow> bool" where
  "retry_ok r \<longleftrightarrow> 1 \<le> rp_max_attempts r \<and> rp_max_attempts r \<le> 100 \<and> 1 \<le> rp_base_delay_ms r
     \<and> rp_base_delay_ms r \<le> rp_max_delay_ms r \<and> rp_max_delay_ms r \<le> 86400000"

lemma dec_value_show_int: "0 \<le> n \<Longrightarrow> dec_value (show_int n) = n"
  by (simp add: show_int_def dec_value_show_nat)

lemma retry_options_done: "consumes (retry_options r seen) [] (starts [lit ''NEWLINE'']) r"
  unfolding consumes_def
proof (intro allI impI)
  fix ts rest assume m: "map kv ts = [] @ rest" "rest \<noteq> []" "starts [lit ''NEWLINE''] rest"
  then have "kind ts = lit ''NEWLINE''" using kind_kv [of ts "hd rest" "tl rest"] by (auto simp: starts_def)
  then show "retry_options r seen ts = (Inr r, drop (length []) ts)" by (simp add: retry_options.simps [of r])
qed

lemma retry_options_step:
  assumes "consumes (retry_option key r) a La r1" "consumes (retry_options r1 (key # seen)) b L r2"
    and "\<And>rest. rest \<noteq> [] \<Longrightarrow> L rest \<Longrightarrow> La (b @ rest)"
    and "a = (key, key) # a'" "key \<in> {lit ''attempts'', lit ''base'', lit ''max''}" "key \<notin> set seen"
  shows "consumes (retry_options r seen) (a @ b) L r2"
proof -
  let ?next = "chain (retry_option key r) (\<lambda>r' ts'. retry_options r' (key # seen) ts')"
  have run: "consumes ?next (a @ b) L r2"
    by (rule consumes_chain [where La = La]) (use assms(1-3) in auto)
  show ?thesis
    unfolding consumes_def
  proof (intro allI impI)
    fix ts rest assume m: "map kv ts = (a @ b) @ rest" "rest \<noteq> []" "L rest"
    have "kind ts = key" using kind_kv [of ts "(key, key)" "a' @ b @ rest"] m(1) assms(4) by simp
    then have "retry_options r seen ts = ?next ts"
      using assms(5,6) by (subst retry_options.simps) auto
    then show "retry_options r seen ts = (Inr r2, drop (length (a @ b)) ts)"
      using consumesD [OF run m] by simp
  qed
qed

lemma consumes_retry:
  assumes ok: "retry_ok r"
  shows "consumes parse_retry (retry_tokens r) (starts [lit ''NEWLINE'']) r"
proof -
  let ?d = sdk_default_retry
  let ?d1 = "?d\<lparr>rp_max_attempts := rp_max_attempts r\<rparr>"
  let ?d2 = "?d1\<lparr>rp_base_delay_ms := rp_base_delay_ms r\<rparr>"
  let ?d3 = "?d2\<lparr>rp_max_delay_ms := rp_max_delay_ms r\<rparr>"
  have r: "?d3 = r" by simp
  have delay: "duration_to_milliseconds (format_duration (rp_base_delay_ms r)) l c = Inr (rp_base_delay_ms r)"
    "duration_to_milliseconds (format_duration (rp_max_delay_ms r)) l c = Inr (rp_max_delay_ms r)" for l c
    using ok by (auto simp: retry_ok_def intro!: duration_roundtrip)
  have a: "consumes (retry_option (lit ''attempts'') ?d)
      [(lit ''attempts'', lit ''attempts''), mark ''='', (lit ''INTEGER'', show_int (rp_max_attempts r)), mark '','']
      anything ?d1"
    by (rule consumes_retry_option(1), rule consumes_attempts)
      (use ok in \<open>simp add: retry_ok_def dec_value_show_int\<close>)
  have b: "consumes (retry_option (lit ''base'') ?d1)
      [(lit ''base'', lit ''base''), mark ''='', (lit ''DURATION'', format_duration (rp_base_delay_ms r)), mark '','']
      anything ?d2"
    using consumes_retry_option(1) [OF consumes_delay [OF delay(1), of "lit ''base''" ?d1]] by simp
  have c: "consumes (retry_option (lit ''max'') ?d2)
      [(lit ''max'', lit ''max''), mark ''='', (lit ''DURATION'', format_duration (rp_max_delay_ms r))]
      (\<lambda>rest. \<not> starts [lit '',''] rest) ?d3"
    using consumes_retry_option(2) [OF consumes_delay [OF delay(2), of "lit ''max''" ?d2]] by simp
  have key: "lit ''attempts'' \<in> {lit ''attempts'', lit ''base'', lit ''max''}"
    "lit ''base'' \<in> {lit ''attempts'', lit ''base'', lit ''max''}"
    "lit ''max'' \<in> {lit ''attempts'', lit ''base'', lit ''max''}" by simp_all
  note three = retry_options_step [where seen = "[lit ''base'', lit ''attempts'']",
      OF c retry_options_done _ refl key(3)]
  note two = retry_options_step [where seen = "[lit ''attempts'']", OF b three _ refl key(2)]
  note one = retry_options_step [where seen = "[]", OF a two _ refl key(1)]
  have "consumes (retry_options ?d []) (retry_tokens r) (starts [lit ''NEWLINE'']) ?d3"
    using one by (simp add: retry_tokens_def option_tokens_def mark_def starts_def)
  moreover have "consumes (check_retry r) [] (starts [lit ''NEWLINE'']) r"
    using ok by (simp add: check_retry_def retry_ok_def consumes_ret)
  ultimately show ?thesis
    using consumes_chain [of "retry_options ?d []" "retry_tokens r" "starts [lit ''NEWLINE'']" r check_retry "[]"]
    by (simp add: parse_retry_def r)
qed

section \<open>Fields\<close>

definition fresh_line :: "(pystr \<times> pystr) list \<Rightarrow> bool" where
  "fresh_line kvs \<longleftrightarrow> kvs = [] \<or> fst (hd kvs) \<noteq> lit ''NEWLINE''"

abbreviation closing :: "(pystr \<times> pystr) list \<Rightarrow> bool" where
  "closing \<equiv> starts [lit ''}'']"

lemma dput_fresh: "dget d k = None \<Longrightarrow> dput k v d = d @ [(k, v)]"
  by (induction d) (auto simp: dput_def)

lemma consumes_advance:
  assumes "consumes p kvs L x"
  shows "consumes (chain (modify advance_token) (\<lambda>_. p)) (e # kvs) L x"
  unfolding consumes_def
proof (intro allI impI)
  fix ts rest assume m: "map kv ts = (e # kvs) @ rest" "rest \<noteq> []" "L rest"
  then have "advance_token ts = drop 1 ts" using advance_kv [of ts e "kvs @ rest"] by simp
  moreover have "p (drop 1 ts) = (Inr x, drop (length kvs) (drop 1 ts))"
    by (rule consumesD [OF assms, of _ rest]) (use m in \<open>auto simp: drop_map [symmetric]\<close>)
  ultimately show "chain (modify advance_token) (\<lambda>_. p) ts = (Inr x, drop (length (e # kvs)) ts)"
    by (simp add: chain_def modify_def)
qed

lemma consumes_task_field:
  assumes body: "consumes (field_body key t) body (starts [lit ''NEWLINE'']) t'"
    and key: "key \<in> set field_keywords"
  shows "consumes (task_field t) ((key, key) # body @ [newline]) (\<lambda>rest. \<not> starts [lit ''NEWLINE''] rest) t'"
proof -
  let ?stop = "\<lambda>rest. \<not> starts [lit ''NEWLINE''] rest"
  let ?p = "chain (field_body key t) (\<lambda>t'. chain line_end (\<lambda>_. ret t'))"
  have "consumes (chain line_end (\<lambda>_. ret t')) ([newline] @ []) ?stop t'"
    by (rule consumes_chain [OF consumes_line_end consumes_ret]) simp
  then have "consumes ?p (body @ [newline]) ?stop t'"
    by (intro consumes_chain [OF body]) (auto simp: starts_def)
  then have run: "consumes (chain (modify advance_token) (\<lambda>_. ?p)) ((key, key) # body @ [newline]) ?stop t'"
    by (rule consumes_advance)
  show ?thesis
    unfolding consumes_def
  proof (intro allI impI)
    fix ts rest assume m: "map kv ts = ((key, key) # body @ [newline]) @ rest" "rest \<noteq> []" "?stop rest"
    have "kind ts = key" using kind_kv [of ts "(key, key)"] m(1) by simp
    then show "task_field t ts = (Inr t', drop (length ((key, key) # body @ [newline])) ts)"
      using consumesD [OF run m] key by (simp add: task_field_def)
  qed
qed

lemma fields_done: "consumes (task_fields i seen t) [] closing t"
  unfolding consumes_def
proof (intro allI impI)
  fix ts rest assume m: "map kv ts = [] @ rest" "rest \<noteq> []" "closing rest"
  then have "kind ts = lit ''}''" using kind_kv [of ts "hd rest" "tl rest"] by (auto simp: starts_def)
  then show "task_fields i seen t ts = (Inr t, drop (length []) ts)" by (simp add: task_fields.simps [of i])
qed

lemma fields_step:
  assumes field: "consumes (field_body key t) body (starts [lit ''NEWLINE'']) t1"
    and key: "key \<in> set field_keywords" "key \<notin> set seen \<or> repeatable key"
    and more: "consumes (task_fields i (if repeatable key then seen else key # seen) t1) kvs closing t2"
    and line: "fresh_line kvs"
  shows "consumes (task_fields i seen t) ((key, key) # body @ newline # kvs) closing t2"
  unfolding consumes_def
proof (intro allI impI)
  fix ts rest assume m: "map kv ts = ((key, key) # body @ newline # kvs) @ rest" "rest \<noteq> []" "closing rest"
  let ?n = "length ((key, key) # body @ [newline])"
  have next_line: "\<not> starts [lit ''NEWLINE''] (kvs @ rest)"
    using line m(2,3) by (cases kvs) (auto simp: starts_def fresh_line_def)
  have one: "task_field t ts = (Inr t1, drop ?n ts)"
    by (rule consumesD [OF consumes_task_field [OF field key(1)], of ts "kvs @ rest"])
      (use m next_line in auto)
  have left: "map kv (drop ?n ts) = kvs @ rest" by (rule map_kv_drop) (use m in simp)
  then have skip: "skip_newlines (drop ?n ts) = drop ?n ts" by (rule skip_none) (use next_line m in auto)
  have kind: "kind ts = key" using kind_kv [of ts "(key, key)"] m(1) by simp
  then have stay: "kind ts \<noteq> lit ''}''" "kind ts \<noteq> lit ''EOF''"
    using key(1) by (auto simp: field_keywords_def)
  have "task_fields i seen t ts
      = task_fields i (if repeatable key then seen else key # seen) t1 (drop ?n ts)"
    using stay key(2) one skip by (subst task_fields.simps) (auto simp: chain_def kind)
  also have "\<dots> = (Inr t2, drop (length kvs) (drop ?n ts))" by (rule consumesD [OF more left m(2,3)])
  finally show "task_fields i seen t ts = (Inr t2, drop (length ((key, key) # body @ newline # kvs)) ts)"
    by (simp add: add.commute)
qed


lemma fresh_pairs: "fresh_line kvs \<Longrightarrow> fresh_line (concat (map (pair_tokens word) es) @ kvs) \<or> lit word = lit ''NEWLINE''"
  by (cases es) (auto simp: fresh_line_def pair_tokens_def mark_def)

lemma consumes_pair_body:
  assumes "\<And>L. consumes (f (name, v)) [] L t1"
  shows "consumes (chain (named_value x y) f) [quoted_token name, mark ''='', string_token v] L t1"
proof -
  have "consumes (named_value x y) [quoted_token name, mark ''='', string_token v] anything (name, v)"
    using consumes_named_value [of "quoted_token name" "string_token v" x y] by simp
  from consumes_chain [where f = f and b = "[]" and x = "(name, v)", OF this assms [of L]] show ?thesis by simp
qed

lemma field_body_env:
  assumes "dget (tn_env t) name = None"
  shows "consumes (field_body (lit ''env'') t) [quoted_token name, mark ''='', string_token v] L
    (t\<lparr>tn_env := tn_env t @ [(name, v)]\<rparr>)"
  unfolding field_body_def
  by (simp, rule consumes_pair_body) (use assms in \<open>simp add: dput_fresh consumes_ret\<close>)

lemma field_body_labels:
  assumes "dget (tn_labels t) name = None"
  shows "consumes (field_body (lit ''labels'') t) [quoted_token name, mark ''='', string_token v] L
    (t\<lparr>tn_labels := tn_labels t @ [(name, v)]\<rparr>)"
  unfolding field_body_def
  by (simp, rule consumes_pair_body) (use assms in \<open>simp add: dput_fresh consumes_ret\<close>)

lemma dget_append_fresh: "dget (d @ [e]) k = None \<longleftrightarrow> dget d k = None \<and> k \<noteq> fst e"
  by (cases e) (auto simp: map_add_def split: option.split)

lemma fields_env:
  assumes "consumes (task_fields i seen (t\<lparr>tn_env := tn_env t @ items\<rparr>)) kvs closing t2" "fresh_line kvs"
    "distinct (map fst items)" "\<And>e. e \<in> set items \<Longrightarrow> dget (tn_env t) (fst e) = None"
  shows "consumes (task_fields i seen t) (concat (map (pair_tokens ''env'') items) @ kvs) closing t2"
  using assms
proof (induction items arbitrary: t)
  case (Cons e items)
  let ?t = "t\<lparr>tn_env := tn_env t @ [e]\<rparr>"
  have more: "consumes (task_fields i seen ?t) (concat (map (pair_tokens ''env'') items) @ kvs) closing t2"
    by (rule Cons.IH) (use Cons.prems in \<open>auto simp: dget_append_fresh image_iff\<close>)
  have "consumes (task_fields i seen t) ((lit ''env'', lit ''env'')
      # [quoted_token (fst e), mark ''='', string_token (snd e)]
      @ newline # concat (map (pair_tokens ''env'') items) @ kvs) closing t2"
  proof (rule fields_step)
    show "consumes (field_body (lit ''env'') t) [quoted_token (fst e), mark ''='', string_token (snd e)]
        (starts [lit ''NEWLINE'']) ?t"
      using field_body_env [of t "fst e" "snd e"] Cons.prems(4) [of e] by simp
    show "fresh_line (concat (map (pair_tokens ''env'') items) @ kvs)"
      using fresh_pairs [OF Cons.prems(2), of "''env''" items] by simp
  qed (use more in \<open>simp_all add: field_keywords_def repeatable_def\<close>)
  then show ?case by (simp add: pair_tokens_def [of _ e] mark_def)
qed simp

lemma fields_labels:
  assumes "consumes (task_fields i seen (t\<lparr>tn_labels := tn_labels t @ items\<rparr>)) kvs closing t2" "fresh_line kvs"
    "distinct (map fst items)" "\<And>e. e \<in> set items \<Longrightarrow> dget (tn_labels t) (fst e) = None"
  shows "consumes (task_fields i seen t) (concat (map (pair_tokens ''labels'') items) @ kvs) closing t2"
  using assms
proof (induction items arbitrary: t)
  case (Cons e items)
  let ?t = "t\<lparr>tn_labels := tn_labels t @ [e]\<rparr>"
  have more: "consumes (task_fields i seen ?t) (concat (map (pair_tokens ''labels'') items) @ kvs) closing t2"
    by (rule Cons.IH) (use Cons.prems in \<open>auto simp: dget_append_fresh image_iff\<close>)
  have "consumes (task_fields i seen t) ((lit ''labels'', lit ''labels'')
      # [quoted_token (fst e), mark ''='', string_token (snd e)]
      @ newline # concat (map (pair_tokens ''labels'') items) @ kvs) closing t2"
  proof (rule fields_step)
    show "consumes (field_body (lit ''labels'') t) [quoted_token (fst e), mark ''='', string_token (snd e)]
        (starts [lit ''NEWLINE'']) ?t"
      using field_body_labels [of t "fst e" "snd e"] Cons.prems(4) [of e] by simp
    show "fresh_line (concat (map (pair_tokens ''labels'') items) @ kvs)"
      using fresh_pairs [OF Cons.prems(2), of "''labels''" items] by simp
  qed (use more in \<open>simp_all add: field_keywords_def repeatable_def\<close>)
  then show ?case by (simp add: pair_tokens_def [of _ e] mark_def)
qed simp

section \<open>Fields that appear once\<close>

lemma fields_once:
  assumes "consumes (field_body (lit word) t) body (starts [lit ''NEWLINE'']) t1"
    "consumes (task_fields i (lit word # seen) t1) kvs closing t2"
    "lit word \<in> set field_keywords" "\<not> repeatable (lit word)" "lit word \<notin> set seen" "fresh_line kvs"
  shows "consumes (task_fields i seen t) (mark word # body @ newline # kvs) closing t2"
  unfolding mark_def by (rule fields_step [OF assms(1)]) (use assms in auto)

lemma consumes_chain_ret: "consumes p a L x \<Longrightarrow> f x = ret y \<Longrightarrow> consumes (chain p f) a L y"
  using consumes_chain [of p a L x f "[]" L y] consumes_ret [of y L] by simp

lemma field_body_run: "consumes (field_body (lit ''run'') t) (bracketed (map string_token cmd)) L
    (t\<lparr>tn_command := cmd\<rparr>)"
proof -
  have "consumes command (bracketed (map string_token cmd)) L cmd"
    using consumes_weaken [OF consumes_command [OF scalars_map [of string_token cmd]], of L] by (simp only: map_snd_tokens scalar_tokens simp_thms)
  then show ?thesis by (simp add: field_body_def) (rule consumes_chain_ret, simp_all)
qed

lemma field_body_needs: "consumes (field_body (lit ''needs'') t) (bracketed (map quoted_token ds)) L
    (t\<lparr>tn_depends_on := ds\<rparr>)"
proof -
  have "consumes (list_of_scalars d) (bracketed (map quoted_token ds)) L ds" for d
    using consumes_weaken [OF consumes_list [OF scalars_map [of quoted_token ds], of d], of L] by (simp only: map_snd_tokens scalar_tokens simp_thms)
  then show ?thesis by (simp add: field_body_def) (rule consumes_chain_ret, simp_all)
qed

lemma field_body_timeout:
  assumes "0 \<le> s" "s \<le> 86400"
  shows "consumes (field_body (lit ''timeout'') t) [(lit ''DURATION'', format_duration (s * 1000))] L
    (t\<lparr>tn_timeout_seconds := s\<rparr>)"
proof -
  have "duration_to_seconds (format_duration (s * 1000)) l c = Inr s" for l c
    using duration_roundtrip [of "s * 1000" l c] assms by (simp add: duration_to_seconds_def)
  then have "consumes (chain (expect (lit ''DURATION'')) (\<lambda>d.
        chain (lift_result (duration_to_seconds (tk_value d) (tk_line d) (tk_column d)))
          (\<lambda>seconds. ret (t\<lparr>tn_timeout_seconds := seconds\<rparr>))))
      [(lit ''DURATION'', format_duration (s * 1000))] L (t\<lparr>tn_timeout_seconds := s\<rparr>)"
    by (intro consumes_expect consumes_chain_ret [of _ _ _ s]) (simp_all add: kv_def consumes_lift)
  then show ?thesis by (simp add: field_body_def)
qed

lemma field_body_retry:
  assumes "retry_ok r"
  shows "consumes (field_body (lit ''retry'') t) (retry_tokens r) (starts [lit ''NEWLINE'']) (t\<lparr>tn_retry := r\<rparr>)"
  using consumes_retry [OF assms] by (simp add: field_body_def) (rule consumes_chain_ret, simp_all)

end
