(* ===== verification/Dsl_Reread.thy ===== *)
theory Dsl_Reread
  imports Dsl_Reblock
begin

text \<open>
  Parsing printed tasks and workflows. Positions are not printed, so the parser's result is stated up
  to the line numbers; dictionaries come back in the printed order, sorted by key.
\<close>

section \<open>Results up to lines\<close>

definition unlined_task :: "task_node \<Rightarrow> task_node" where
  "unlined_task t = t\<lparr>tn_line := 0\<rparr>"

definition unlined :: "workflow_node \<Rightarrow> workflow_node" where
  "unlined w = w\<lparr>wn_line := 0, wn_tasks := map unlined_task (wn_tasks w)\<rparr>"

definition canonical_task :: "task_node \<Rightarrow> task_node" where
  "canonical_task t =
     t\<lparr>tn_line := 0, tn_env := sorted_items (tn_env t), tn_labels := sorted_items (tn_labels t)\<rparr>"

definition canonical :: "workflow_node \<Rightarrow> workflow_node" where
  "canonical w = w\<lparr>wn_line := 0, wn_metadata := sorted_items (wn_metadata w),
     wn_tasks := map canonical_task (wn_tasks w)\<rparr>"

text \<open>What can be printed and read back; strings are restricted in the printer's lemmas.\<close>

definition task_shape :: "task_node \<Rightarrow> bool" where
  "task_shape t \<longleftrightarrow> tn_command t \<noteq> [] \<and> dwf (tn_env t) \<and> dwf (tn_labels t)
     \<and> 0 \<le> tn_timeout_seconds t \<and> tn_timeout_seconds t \<le> 86400 \<and> retry_ok (tn_retry t)"

definition meets ::
  "'a parser \<Rightarrow> (pystr \<times> pystr) list \<Rightarrow> ((pystr \<times> pystr) list \<Rightarrow> bool) \<Rightarrow> ('a \<Rightarrow> bool) \<Rightarrow> bool" where
  "meets p kvs L Q \<longleftrightarrow> (\<forall>ts rest. map kv ts = kvs @ rest \<longrightarrow> rest \<noteq> [] \<longrightarrow> L rest \<longrightarrow>
     (\<exists>x. p ts = (Inr x, drop (length kvs) ts) \<and> Q x))"

lemma meetsD: "meets p kvs L Q \<Longrightarrow> map kv ts = kvs @ rest \<Longrightarrow> rest \<noteq> [] \<Longrightarrow> L rest \<Longrightarrow>
    \<exists>x. p ts = (Inr x, drop (length kvs) ts) \<and> Q x"
  by (simp add: meets_def)

lemma meetsI: "(\<And>ts rest. map kv ts = kvs @ rest \<Longrightarrow> rest \<noteq> [] \<Longrightarrow> L rest \<Longrightarrow>
    \<exists>x. p ts = (Inr x, drop (length kvs) ts) \<and> Q x) \<Longrightarrow> meets p kvs L Q"
  by (simp add: meets_def)

lemma meets_consumes: "consumes p kvs L x \<Longrightarrow> Q x \<Longrightarrow> meets p kvs L Q"
  by (rule meetsI) (auto dest: consumesD)

lemma meets_ret: "Q x \<Longrightarrow> meets (ret x) [] L Q"
  by (rule meets_consumes [OF consumes_ret])

lemma meets_chain:
  assumes p: "meets p a La P" and f: "\<And>x. P x \<Longrightarrow> meets (f x) b L Q"
    and look: "\<And>rest. rest \<noteq> [] \<Longrightarrow> L rest \<Longrightarrow> La (b @ rest)"
  shows "meets (chain p f) (a @ b) L Q"
proof (rule meetsI)
  fix ts rest assume m: "map kv ts = (a @ b) @ rest" "rest \<noteq> []" "L rest"
  obtain x where x: "p ts = (Inr x, drop (length a) ts)" "P x"
    using meetsD [OF p, of ts "b @ rest"] m look by auto
  have "map kv (drop (length a) ts) = b @ rest" by (rule map_kv_drop) (use m in simp)
  from meetsD [OF f [OF x(2)] this m(2,3)] x(1)
  show "\<exists>y. chain p f ts = (Inr y, drop (length (a @ b)) ts) \<and> Q y"
    by (auto simp: chain_def add.commute)
qed

lemma meets_after:
  assumes p: "consumes p a La x" and f: "meets (f x) b L Q"
    and look: "\<And>rest. rest \<noteq> [] \<Longrightarrow> L rest \<Longrightarrow> La (b @ rest)"
  shows "meets (chain p f) (a @ b) L Q"
  by (rule meets_chain [OF meets_consumes [OF p, of "\<lambda>y. y = x"]]) (use f look in auto)

lemma meets_expect:
  assumes "\<And>t. kv t = (k, v) \<Longrightarrow> meets (g t) b L Q"
  shows "meets (chain (expect k) g) ((k, v) # b) L Q"
proof (rule meetsI)
  fix ts rest assume m: "map kv ts = ((k, v) # b) @ rest" "rest \<noteq> []" "L rest"
  then obtain t us where ts: "ts = t # us" "kv t = (k, v)" "map kv us = b @ rest" by (cases ts) auto
  have "expect k ts = (Inr t, us)"
    using kind_kv [of ts "(k, v)" "b @ rest"] advance_kv [of ts "(k, v)" "b @ rest"] m ts
    by (simp add: expect_def current_def)
  with meetsD [OF assms [OF ts(2)] ts(3) m(2,3)]
  show "\<exists>x. chain (expect k) g ts = (Inr x, drop (length ((k, v) # b)) ts) \<and> Q x"
    by (simp add: chain_def ts(1))
qed

lemma meets_skip:
  assumes "meets p b L Q" "\<And>rest. rest \<noteq> [] \<Longrightarrow> L rest \<Longrightarrow> \<not> starts [lit ''NEWLINE''] (b @ rest)"
  shows "meets (andThen skip p) (replicate n newline @ b) L Q"
  unfolding andThen_def by (rule meets_after [OF consumes_skip]) (use assms in auto)

lemma meets_scalar:
  assumes "scalar_token e" "meets (f (snd e)) b L Q"
  shows "meets (chain (scalar d) f) (e # b) L Q"
proof -
  have "consumes (scalar d) [e] anything (snd e)"
    using consumes_scalar [of "fst e" d "snd e"] assms(1) by (simp add: scalar_token_def)
  from meets_after [where f = f and b = b, OF this assms(2)] show ?thesis by simp
qed

section \<open>One task\<close>

lemma sorted_items_distinct: "dwf d \<Longrightarrow> distinct (map fst (sorted_items d))"
  by (simp add: sorted_items_def comp_def dwf_def)

lemma sorted_items_keys: "map fst (sorted_items d) = sort (dkeys d)"
  by (simp add: sorted_items_def comp_def)

lemma pair_fresh_env:
  "fresh_line kvs \<Longrightarrow> fresh_line (concat (map (pair_tokens ''env'') es) @ kvs)"
  "fresh_line kvs \<Longrightarrow> fresh_line (concat (map (pair_tokens ''labels'') es) @ kvs)"
  "fresh_line kvs \<Longrightarrow> fresh_line (concat (map (pair_tokens ''meta'') es) @ kvs)"
  using fresh_pairs [of kvs "''env''" es] fresh_pairs [of kvs "''labels''" es] fresh_pairs [of kvs "''meta''" es]
  by simp_all

text \<open>The fields in the printer's order, from the last to the first.\<close>

lemma fields_printed:
  assumes "task_shape t"
  shows "consumes (task_fields i [] (new_task_node j line))
     (field_tokens t) closing
     \<lparr>tn_id = j, tn_line = line, tn_command = tn_command t, tn_depends_on = tn_depends_on t,
      tn_env = sorted_items (tn_env t), tn_labels = sorted_items (tn_labels t),
      tn_timeout_seconds = tn_timeout_seconds t, tn_retry = tn_retry t\<rparr>"
proof -
  let ?last = "\<lparr>tn_id = j, tn_line = line, tn_command = tn_command t, tn_depends_on = tn_depends_on t,
      tn_env = sorted_items (tn_env t), tn_labels = sorted_items (tn_labels t),
      tn_timeout_seconds = tn_timeout_seconds t, tn_retry = tn_retry t\<rparr>"
  let ?t5 = "?last\<lparr>tn_retry := sdk_default_retry\<rparr>"
  let ?t4 = "?t5\<lparr>tn_timeout_seconds := 0\<rparr>"
  let ?t3 = "?t4\<lparr>tn_labels := []\<rparr>"
  let ?t2 = "?t3\<lparr>tn_env := []\<rparr>"
  let ?t1 = "?t2\<lparr>tn_depends_on := []\<rparr>"
  let ?k5 = "if tn_retry t \<noteq> sdk_default_retry then mark ''retry'' # retry_tokens (tn_retry t) @ [newline] else []"
  let ?k4 = "(if tn_timeout_seconds t \<noteq> 0
        then [mark ''timeout'', (lit ''DURATION'', format_duration (tn_timeout_seconds t * 1000)), newline]
        else []) @ ?k5"
  let ?k3 = "concat (map (pair_tokens ''labels'') (sorted_items (tn_labels t))) @ ?k4"
  let ?k2 = "concat (map (pair_tokens ''env'') (sorted_items (tn_env t))) @ ?k3"
  let ?k1 = "(if tn_depends_on t \<noteq> []
        then mark ''needs'' # bracketed (map quoted_token (tn_depends_on t)) @ [newline] else []) @ ?k2"
  have fresh: "fresh_line ?k5" "fresh_line ?k4" "fresh_line ?k1"
    and fresh3: "fresh_line ?k3" and fresh2: "fresh_line ?k2"
    using pair_fresh_env(2) [of ?k4 "sorted_items (tn_labels t)"] pair_fresh_env(1) [of ?k3 "sorted_items (tn_env t)"]
    by (auto simp: fresh_line_def mark_def)
  have c5: "consumes (task_fields i seen ?t5) ?k5 closing ?last" if "lit ''retry'' \<notin> set seen" for seen
  proof (cases "tn_retry t = sdk_default_retry")
    case True
    then show ?thesis using fields_done [of i seen ?last] by simp
  next
    case False
    have ok: "retry_ok (tn_retry t)" using assms by (simp add: task_shape_def)
    have "consumes (task_fields i seen ?t5) (mark ''retry'' # retry_tokens (tn_retry t) @ newline # []) closing ?last"
      by (rule fields_once [OF field_body_retry [OF ok]])
        (use that fields_done [of i "lit ''retry'' # seen" ?last] in
          \<open>simp_all add: field_keywords_def repeatable_def fresh_line_def\<close>)
    with False show ?thesis by simp
  qed
  have c4: "consumes (task_fields i seen ?t4) ?k4 closing ?last"
    if "lit ''retry'' \<notin> set seen" "lit ''timeout'' \<notin> set seen" for seen
  proof (cases "tn_timeout_seconds t = 0")
    case True
    then show ?thesis using c5 [OF that(1)] by simp
  next
    case False
    have ok: "0 \<le> tn_timeout_seconds t" "tn_timeout_seconds t \<le> 86400" using assms by (simp_all add: task_shape_def)
    have "consumes (task_fields i seen ?t4) (mark ''timeout''
        # [(lit ''DURATION'', format_duration (tn_timeout_seconds t * 1000))] @ newline # ?k5) closing ?last"
      by (rule fields_once [OF field_body_timeout [OF ok]])
        (use that c5 [of "lit ''timeout'' # seen"] fresh in \<open>simp_all add: field_keywords_def repeatable_def\<close>)
    with False show ?thesis by simp
  qed
  have c3: "consumes (task_fields i seen ?t3) ?k3 closing ?last"
    if "lit ''retry'' \<notin> set seen" "lit ''timeout'' \<notin> set seen" for seen
    by (rule fields_labels) (use c4 [OF that] fresh(2) assms sorted_items_distinct in \<open>simp_all add: task_shape_def\<close>)
  have c2: "consumes (task_fields i seen ?t2) ?k2 closing ?last"
    if "lit ''retry'' \<notin> set seen" "lit ''timeout'' \<notin> set seen" for seen
    by (rule fields_env) (use c3 [OF that] fresh3 assms sorted_items_distinct in \<open>simp_all add: task_shape_def\<close>)
  have c1: "consumes (task_fields i [lit ''run''] ?t1) ?k1 closing ?last"
  proof (cases "tn_depends_on t = []")
    case True
    then show ?thesis using c2 [of "[lit ''run'']"] by simp
  next
    case False
    have "consumes (task_fields i [lit ''run''] ?t1)
        (mark ''needs'' # bracketed (map quoted_token (tn_depends_on t)) @ newline # ?k2) closing ?last"
      by (rule fields_once [OF field_body_needs])
        (use c2 [of "[lit ''needs'', lit ''run'']"] fresh2 in \<open>simp_all add: field_keywords_def repeatable_def\<close>)
    with False show ?thesis by simp
  qed
  have "consumes (task_fields i [] (new_task_node j line))
      (mark ''run'' # bracketed (map string_token (tn_command t)) @ newline # ?k1) closing ?last"
    by (rule fields_once [OF field_body_run])
      (use c1 fresh(3) in \<open>simp_all add: field_keywords_def repeatable_def new_task_node_def\<close>)
  then show ?thesis by (simp add: field_tokens_def)
qed


lemma task_printed:
  assumes "task_shape t"
  shows "meets parse_task (task_tokens t) anything (\<lambda>x. unlined_task x = canonical_task t)"
proof -
  let ?Q = "\<lambda>x. unlined_task x = canonical_task t"
  have body: "meets (chain (task_fields i [] (new_task_node (tn_id t) line)) (\<lambda>t.
     chain (expect (lit ''}'')) (\<lambda>_.
       if tn_command t = [] then raise (Dsl_error (Missing_run (tn_id t)) (tn_line t) 0)
       else ret t))) (field_tokens t @ [mark ''}'']) anything ?Q" for i line
  proof (rule meets_after [OF fields_printed [OF assms, of i "tn_id t" line]], goal_cases)
    case 1
    show ?case unfolding mark_def
      by (rule meets_expect)
        (use assms in \<open>simp add: task_shape_def meets_ret unlined_task_def canonical_task_def\<close>)
  qed (simp add: starts_def mark_def)
  have start: "\<not> starts [lit ''NEWLINE''] ((field_tokens t @ [mark ''}'']) @ rest)" for rest
    by (simp add: starts_def field_tokens_def mark_def)
  have "meets (andThen skip (chain (task_fields i [] (new_task_node (tn_id t) line)) (\<lambda>t.
     chain (expect (lit ''}'')) (\<lambda>_.
       if tn_command t = [] then raise (Dsl_error (Missing_run (tn_id t)) (tn_line t) 0)
       else ret t)))) ([newline] @ field_tokens t @ [mark ''}'']) anything ?Q" for i line
    using meets_skip [where n = 1, OF body] start by simp
  note inner = this
  show ?thesis
    unfolding parse_task_def task_tokens_def mark_def [of "''task''"] mark_def [of "''{''"] append_Cons append_Nil
    by (rule meets_expect, rule meets_scalar, simp, rule meets_skip [where n = 0, simplified replicate_0 append_Nil],
        rule meets_expect) (use inner in \<open>simp_all add: starts_def\<close>)
qed

section \<open>Metadata\<close>

lemma consumes_line_ends:
  "consumes line_end (replicate (Suc n) newline) (\<lambda>rest. \<not> starts [lit ''NEWLINE''] rest) ()"
  unfolding consumes_def
proof (intro allI impI)
  fix ts rest assume m: "map kv ts = replicate (Suc n) newline @ rest" "rest \<noteq> []" "\<not> starts [lit ''NEWLINE''] rest"
  then show "line_end ts = (Inr (), drop (length (replicate (Suc n) newline)) ts)"
    using kind_kv [of ts newline "replicate n newline @ rest"] skip_newlines_kv [of ts "Suc n" rest]
    by (simp add: line_end_def)
qed

lemma meta_printed:
  assumes "dget (wn_metadata w) (fst e) = None"
  shows "consumes (parse_meta w) (pair_tokens ''meta'' e @ replicate n newline)
    (\<lambda>rest. \<not> starts [lit ''NEWLINE''] rest) (w\<lparr>wn_metadata := wn_metadata w @ [e]\<rparr>)"
proof -
  let ?w = "w\<lparr>wn_metadata := wn_metadata w @ [e]\<rparr>"
  let ?L = "\<lambda>rest. \<not> starts [lit ''NEWLINE''] rest"
  have line_tail: "consumes (chain line_end (\<lambda>_. ret ?w)) (replicate (Suc n) newline) ?L ?w"
    by (rule consumes_chain_ret [OF consumes_line_ends]) simp
  have "consumes (named_value x y) [quoted_token (fst e), mark ''='', string_token (snd e)] anything (fst e, snd e)" for x y
    using consumes_named_value [of "quoted_token (fst e)" "string_token (snd e)" x y] by simp
  then have "consumes (chain (named_value x y) (\<lambda>(key, v).
       if dget (wn_metadata w) key \<noteq> None
       then raise (Dsl_error (Duplicate_metadata key) (tk_line t) (tk_column t))
       else chain line_end (\<lambda>_. ret (w\<lparr>wn_metadata := dput key v (wn_metadata w)\<rparr>))))
      ([quoted_token (fst e), mark ''='', string_token (snd e)] @ replicate (Suc n) newline) ?L ?w" for x y t
    by (rule consumes_chain) (use line_tail assms in \<open>cases e; simp add: dput_fresh\<close>)+
  then show ?thesis
    unfolding parse_meta_def pair_tokens_def mark_def [of "''meta''"] append_Cons append_Nil
    by (intro consumes_expect) simp
qed

section \<open>The sections of a workflow\<close>

lemma sections_done: "consumes (parse_sections ids w) [] closing w"
  unfolding consumes_def
proof (intro allI impI)
  fix ts rest assume m: "map kv ts = [] @ rest" "rest \<noteq> []" "closing rest"
  then have "kind ts = lit ''}''" using kind_kv [of ts "hd rest" "tl rest"] by (auto simp: starts_def)
  then show "parse_sections ids w ts = (Inr w, drop (length []) ts)" by (simp add: parse_sections.simps [of ids])
qed

lemma sections_step:
  assumes one: "meets (parse_section ids w) a La P"
    and more: "\<And>r. P r \<Longrightarrow> meets (parse_sections (fst r) (snd r)) b closing Q"
    and look: "\<And>rest. rest \<noteq> [] \<Longrightarrow> fresh_line rest \<Longrightarrow> La (replicate n newline @ rest)"
    and line: "fresh_line b" and a: "a = e # a'" "fst e \<noteq> lit ''}''"
  shows "meets (parse_sections ids w) (a @ replicate n newline @ b) closing Q"
proof (rule meetsI)
  fix ts rest assume m: "map kv ts = (a @ replicate n newline @ b) @ rest" "rest \<noteq> []" "closing rest"
  have next_line: "\<not> starts [lit ''NEWLINE''] (b @ rest)" "fresh_line (b @ rest)"
    using line m(2,3) by (cases b; auto simp: starts_def fresh_line_def)+
  obtain r where r: "parse_section ids w ts = (Inr r, drop (length a) ts)" "P r"
    using meetsD [OF one, of ts "replicate n newline @ b @ rest"] look [of "b @ rest"] next_line m by auto
  have left: "map kv (drop (length a) ts) = replicate n newline @ b @ rest" by (rule map_kv_drop) (use m in simp)
  then have skip: "skip_newlines (drop (length a) ts) = drop n (drop (length a) ts)"
    by (rule skip_newlines_kv) (use next_line m in auto)
  have "map kv (drop n (drop (length a) ts)) = b @ rest"
    using map_kv_drop [OF left] by simp
  from meetsD [OF more [OF r(2)] this m(2,3)] obtain x where x: "Q x"
    "parse_sections (fst r) (snd r) (drop n (drop (length a) ts)) = (Inr x, drop (length b) (drop n (drop (length a) ts)))"
    by blast
  have "kind ts \<noteq> lit ''}''" using kind_kv [of ts e] m(1) a by simp
  then have "parse_sections ids w ts = (Inr x, drop (length b) (drop n (drop (length a) ts)))"
    using r(1) skip x(2) by (subst parse_sections.simps) (simp add: chain_def)
  then show "\<exists>x. parse_sections ids w ts = (Inr x, drop (length (a @ replicate n newline @ b)) ts) \<and> Q x"
    using x(1) by (auto simp: add.commute add.left_commute)
qed


lemma section_meta:
  assumes "dget (wn_metadata w) (fst e) = None"
  shows "meets (parse_section ids w) (pair_tokens ''meta'' e @ replicate n newline)
    (\<lambda>rest. \<not> starts [lit ''NEWLINE''] rest)
    (\<lambda>r. r = (ids, w\<lparr>wn_metadata := wn_metadata w @ [e]\<rparr>))"
proof (rule meetsI)
  fix ts rest assume m: "map kv ts = (pair_tokens ''meta'' e @ replicate n newline) @ rest" "rest \<noteq> []"
    "\<not> starts [lit ''NEWLINE''] rest"
  have "kind ts = lit ''meta''" using m(1) kind_kv [of ts "mark ''meta''"] by (simp add: pair_tokens_def mark_def)
  with consumesD [OF meta_printed [OF assms, of n] m]
  show "\<exists>x. parse_section ids w ts = (Inr x, drop (length (pair_tokens ''meta'' e @ replicate n newline)) ts)
      \<and> x = (ids, w\<lparr>wn_metadata := wn_metadata w @ [e]\<rparr>)"
    by (simp add: parse_section_def chain_def ret_def)
qed

lemma section_task:
  assumes "task_shape t" "tn_id t \<notin> set ids"
  shows "meets (parse_section ids w) (task_tokens t) anything
    (\<lambda>r. \<exists>x. r = (tn_id t # ids, w\<lparr>wn_tasks := wn_tasks w @ [x]\<rparr>) \<and> unlined_task x = canonical_task t)"
proof (rule meetsI)
  fix ts rest assume m: "map kv ts = task_tokens t @ rest" "rest \<noteq> []" "anything rest"
  have "kind ts = lit ''task''" using m(1) kind_kv [of ts "mark ''task''"] by (simp add: task_tokens_def mark_def)
  moreover obtain x where x: "parse_task ts = (Inr x, drop (length (task_tokens t)) ts)"
    "unlined_task x = canonical_task t" using meetsD [OF task_printed [OF assms(1)] m] by blast
  moreover have "tn_id x = tn_id t"
    using arg_cong [OF x(2), of tn_id] by (simp add: unlined_task_def canonical_task_def)
  ultimately show "\<exists>r. parse_section ids w ts = (Inr r, drop (length (task_tokens t)) ts)
      \<and> (\<exists>x. r = (tn_id t # ids, w\<lparr>wn_tasks := wn_tasks w @ [x]\<rparr>) \<and> unlined_task x = canonical_task t)"
    using assms(2) by (auto simp: parse_section_def chain_def ret_def)
qed

lemma metas_printed:
  assumes "meets (parse_sections ids (w\<lparr>wn_metadata := wn_metadata w @ items\<rparr>)) b closing Q" "fresh_line b"
    "distinct (map fst items)" "\<And>e. e \<in> set items \<Longrightarrow> dget (wn_metadata w) (fst e) = None"
    "items = [] \<Longrightarrow> n = 0"
  shows "meets (parse_sections ids w) (concat (map (pair_tokens ''meta'') items) @ replicate n newline @ b) closing Q"
  using assms
proof (induction items arbitrary: w)
  case (Cons e items)
  let ?w = "w\<lparr>wn_metadata := wn_metadata w @ [e]\<rparr>"
  let ?m = "if items = [] then n else 0"
  let ?b = "if items = [] then b else concat (map (pair_tokens ''meta'') items) @ replicate n newline @ b"
  have next_key: "dget (wn_metadata ?w) (fst x) = None" if "x \<in> set items" for x
    using that Cons.prems(3) Cons.prems(4) [of x] by (auto simp: dget_append_fresh image_iff)
  have more: "meets (parse_sections ids ?w) ?b closing Q"
  proof (cases "items = []")
    case True
    then show ?thesis using Cons.prems(1) by simp
  next
    case False
    have "meets (parse_sections ids ?w) (concat (map (pair_tokens ''meta'') items) @ replicate n newline @ b) closing Q"
      by (rule Cons.IH [OF _ _ _ next_key]) (use Cons.prems False in auto)
    with False show ?thesis by simp
  qed
  have "meets (parse_sections ids w) ((pair_tokens ''meta'' e @ replicate ?m newline) @ replicate 0 newline @ ?b) closing Q"
  proof (rule sections_step)
    show "meets (parse_section ids w) (pair_tokens ''meta'' e @ replicate ?m newline)
        (\<lambda>rest. \<not> starts [lit ''NEWLINE''] rest) (\<lambda>r. r = (ids, ?w))"
      by (rule section_meta) (use Cons.prems(4) in simp)
    show "fresh_line ?b"
      using Cons.prems(2) by (cases items) (simp_all add: fresh_line_def pair_tokens_def mark_def)
    show "pair_tokens ''meta'' e @ replicate ?m newline
        = mark ''meta'' # [quoted_token (fst e), mark ''='', string_token (snd e), newline] @ replicate ?m newline"
      by (simp add: pair_tokens_def)
  qed (use more in \<open>auto simp: mark_def starts_def fresh_line_def\<close>)
  then show ?case by (cases items) simp_all
qed simp

section \<open>The tasks of a workflow\<close>

fun tasks_tokens :: "task_node list \<Rightarrow> (pystr \<times> pystr) list" where
  "tasks_tokens [] = []"
| "tasks_tokens [t] = task_tokens t @ [newline]"
| "tasks_tokens (t # u # ts) = task_tokens t @ [newline, newline] @ tasks_tokens (u # ts)"

lemma tasks_fresh: "fresh_line (tasks_tokens ts)"
  by (cases ts rule: tasks_tokens.cases) (simp_all add: fresh_line_def task_tokens_def mark_def)

lemma tasks_step:
  assumes "task_shape t" "tn_id t \<notin> set ids" "fresh_line b"
    and "\<And>x. unlined_task x = canonical_task t \<Longrightarrow>
      meets (parse_sections (tn_id t # ids) (w\<lparr>wn_tasks := wn_tasks w @ [x]\<rparr>)) b closing Q"
  shows "meets (parse_sections ids w) (task_tokens t @ replicate n newline @ b) closing Q"
proof (rule sections_step [OF section_task [OF assms(1,2)]])
  show "task_tokens t = mark ''task'' # [quoted_token (tn_id t), mark ''{'', newline] @ field_tokens t @ [mark ''}'']"
    by (simp add: task_tokens_def)
qed (use assms(3,4) in \<open>auto simp: mark_def\<close>)

definition tasks_read :: "workflow_node \<Rightarrow> task_node list \<Rightarrow> workflow_node \<Rightarrow> bool" where
  "tasks_read w ts w' \<longleftrightarrow> (\<exists>xs. w' = w\<lparr>wn_tasks := wn_tasks w @ xs\<rparr> \<and> map unlined_task xs = map canonical_task ts)"

lemma tasks_read_Cons:
  assumes "unlined_task x = canonical_task t" "tasks_read (w\<lparr>wn_tasks := wn_tasks w @ [x]\<rparr>) ts w'"
  shows "tasks_read w (t # ts) w'"
proof -
  from assms(2) obtain xs where "w' = w\<lparr>wn_tasks := wn_tasks w @ x # xs\<rparr>" "map unlined_task xs = map canonical_task ts"
    by (auto simp: tasks_read_def)
  with assms(1) show ?thesis unfolding tasks_read_def by (intro exI [of _ "x # xs"]) simp
qed

lemma tasks_printed:
  "(\<And>t. t \<in> set ts \<Longrightarrow> task_shape t) \<Longrightarrow> distinct (map tn_id ts) \<Longrightarrow> set (map tn_id ts) \<inter> set ids = {} \<Longrightarrow>
     meets (parse_sections ids w) (tasks_tokens ts) closing (tasks_read w ts)"
proof (induction ts arbitrary: ids w rule: tasks_tokens.induct)
  case 1
  show ?case using meets_consumes [OF sections_done] by (simp add: tasks_read_def)
next
  case (2 t)
  have "meets (parse_sections ids w) (task_tokens t @ replicate 1 newline @ []) closing (tasks_read w [t])"
  proof (rule tasks_step)
    show "meets (parse_sections (tn_id t # ids) (w\<lparr>wn_tasks := wn_tasks w @ [x]\<rparr>)) [] closing (tasks_read w [t])"
      if "unlined_task x = canonical_task t" for x
      by (rule meets_consumes [OF sections_done], rule tasks_read_Cons [OF that])
        (simp add: tasks_read_def)
  qed (use 2 in \<open>simp_all add: fresh_line_def\<close>)
  then show ?case by simp
next
  case (3 t u ts)
  have "meets (parse_sections ids w) (task_tokens t @ replicate 2 newline @ tasks_tokens (u # ts)) closing
      (tasks_read w (t # u # ts))"
  proof (rule tasks_step)
    show "meets (parse_sections (tn_id t # ids) (w\<lparr>wn_tasks := wn_tasks w @ [x]\<rparr>)) (tasks_tokens (u # ts)) closing
        (tasks_read w (t # u # ts))" if x: "unlined_task x = canonical_task t" for x
    proof -
      have "meets (parse_sections (tn_id t # ids) (w\<lparr>wn_tasks := wn_tasks w @ [x]\<rparr>)) (tasks_tokens (u # ts)) closing
          (tasks_read (w\<lparr>wn_tasks := wn_tasks w @ [x]\<rparr>) (u # ts))"
        by (rule 3(1)) (use 3(2-4) in auto)
      then show ?thesis unfolding meets_def using tasks_read_Cons [OF x] by meson
    qed
  qed (use 3(2-4) tasks_fresh in auto)
  then show ?case by (simp add: numeral_2_eq_2)
qed


section \<open>The whole workflow\<close>

definition node_shape :: "workflow_node \<Rightarrow> bool" where
  "node_shape w \<longleftrightarrow> dwf (wn_metadata w) \<and> distinct (map tn_id (wn_tasks w))
     \<and> (\<forall>t \<in> set (wn_tasks w). task_shape t)"

definition section_tokens :: "workflow_node \<Rightarrow> (pystr \<times> pystr) list" where
  "section_tokens w =
     concat (map (pair_tokens ''meta'') (sorted_items (wn_metadata w)))
     @ (if wn_metadata w \<noteq> [] \<and> wn_tasks w \<noteq> [] then [newline] else [])
     @ tasks_tokens (wn_tasks w)"

definition source_tokens :: "workflow_node \<Rightarrow> (pystr \<times> pystr) list" where
  "source_tokens w =
     [mark ''workflow'', quoted_token (wn_name w), mark ''{'', newline]
     @ section_tokens w @ [mark ''}'', newline]"

lemma sections_printed:
  assumes "node_shape w"
  shows "meets (parse_sections [] \<lparr>wn_name = wn_name w, wn_line = line, wn_metadata = [], wn_tasks = []\<rparr>)
    (section_tokens w) closing (\<lambda>x. unlined x = canonical w)"
proof -
  let ?w = "\<lparr>wn_name = wn_name w, wn_line = line, wn_metadata = [], wn_tasks = []\<rparr>"
  let ?items = "sorted_items (wn_metadata w)"
  let ?n = "if wn_metadata w \<noteq> [] \<and> wn_tasks w \<noteq> [] then 1 else 0 :: nat"
  let ?v = "?w\<lparr>wn_metadata := wn_metadata ?w @ ?items\<rparr>"
  have shape: "dwf (wn_metadata w)" "distinct (map tn_id (wn_tasks w))" "\<And>t. t \<in> set (wn_tasks w) \<Longrightarrow> task_shape t"
    using assms by (auto simp: node_shape_def)
  have "tasks_read ?v (wn_tasks w) x \<Longrightarrow> unlined x = canonical w" for x
    by (auto simp: tasks_read_def unlined_def canonical_def)
  with tasks_printed [OF shape(3,2), of "[]" ?v]
  have tasks: "meets (parse_sections [] ?v) (tasks_tokens (wn_tasks w)) closing (\<lambda>x. unlined x = canonical w)"
    unfolding meets_def by simp meson
  have "sorted_items (wn_metadata w) = [] \<longleftrightarrow> wn_metadata w = []"
    using arg_cong [OF sorted_items_keys [of "wn_metadata w"], of length] by (auto simp: dkeys_def)
  then have "meets (parse_sections [] ?w) (concat (map (pair_tokens ''meta'') ?items)
      @ replicate ?n newline @ tasks_tokens (wn_tasks w)) closing (\<lambda>x. unlined x = canonical w)"
    by (intro metas_printed [OF tasks tasks_fresh sorted_items_distinct [OF shape(1)]]) auto
  moreover have "replicate ?n newline = (if wn_metadata w \<noteq> [] \<and> wn_tasks w \<noteq> [] then [newline] else [])"
    by simp
  ultimately show ?thesis by (simp only: section_tokens_def)
qed

lemma section_fresh: "fresh_line (section_tokens w)"
proof (cases "sorted_items (wn_metadata w)")
  case Nil
  then have "wn_metadata w = []"
    using arg_cong [OF sorted_items_keys [of "wn_metadata w"], of length] by (auto simp: dkeys_def)
  then show ?thesis using tasks_fresh by (simp add: section_tokens_def sorted_items_def)
qed (simp add: section_tokens_def fresh_line_def pair_tokens_def mark_def)

lemma meets_eof: "Q w \<Longrightarrow> meets (chain (expect (lit ''EOF'')) (\<lambda>_. ret w)) [] (\<lambda>rest. rest = [(lit ''EOF'', [])]) Q"
proof (rule meetsI)
  fix ts rest assume q: "Q w" and m: "map kv ts = [] @ rest" "rest = [(lit ''EOF'', [])]"
  then obtain t where "ts = [t]" "kv t = (lit ''EOF'', [])" by (auto simp: map_eq_Cons_conv)
  with q show "\<exists>x. chain (expect (lit ''EOF'')) (\<lambda>_. ret w) ts = (Inr x, drop (length []) ts) \<and> Q x"
    by (simp add: chain_def expect_def kind_def current_def kv_def ret_def)
qed

text \<open>On the printed tokens the parser returns the canonical workflow.\<close>

lemma workflow_printed:
  assumes "node_shape w"
  shows "meets parse_workflow (source_tokens w) (\<lambda>rest. rest = [(lit ''EOF'', [])])
    (\<lambda>x. unlined x = canonical w)"
proof -
  let ?Q = "\<lambda>x. unlined x = canonical w"
  let ?L = "\<lambda>rest. rest = [(lit ''EOF'', [])]"
  have eof: "meets (andThen skip (chain (expect (lit ''EOF'')) (\<lambda>_. ret x))) [newline] ?L ?Q" if "?Q x" for x
    using meets_skip [where n = 1, OF meets_eof [where Q = ?Q, OF that]] by (simp add: starts_def)
  have last: "meets (chain (expect (lit ''}'')) (\<lambda>_. andThen skip (chain (expect (lit ''EOF'')) (\<lambda>_. ret x))))
      [mark ''}'', newline] ?L ?Q" if "?Q x" for x
    unfolding mark_def by (rule meets_expect) (rule eof [OF that])
  let ?all = "\<lambda>line. chain (parse_sections [] \<lparr>wn_name = wn_name w, wn_line = line, wn_metadata = [], wn_tasks = []\<rparr>)
      (\<lambda>x. chain (expect (lit ''}'')) (\<lambda>_. andThen skip (chain (expect (lit ''EOF'')) (\<lambda>_. ret x))))"
  have body: "meets (?all line) (section_tokens w @ [mark ''}'', newline]) ?L ?Q" for line
    by (rule meets_chain [OF sections_printed [OF assms] last]) (simp_all add: starts_def mark_def)
  have "meets (andThen skip (?all line)) ([newline] @ section_tokens w @ [mark ''}'', newline]) ?L ?Q" for line
    using meets_skip [where n = 1, OF body] section_fresh [of w]
    by (cases "section_tokens w") (simp_all add: starts_def fresh_line_def mark_def)
  note inner = this
  show ?thesis
    unfolding parse_workflow_def source_tokens_def mark_def [of "''workflow''"] mark_def [of "''{''"] append_Cons append_Nil
    by (rule meets_skip [where n = 0, simplified replicate_0 append_Nil], rule meets_expect, rule meets_scalar, simp,
        rule meets_skip [where n = 0, simplified replicate_0 append_Nil],
        rule meets_expect) (use inner in \<open>simp_all add: starts_def\<close>)
qed

end
