(* ===== verification/Dsl_Print.thy ===== *)
theory Dsl_Print
  imports Dsl_Reread
begin

text \<open>
  The pieces of a printed source, line by line. Their texts are the lines of \<open>format_source\<close>, their
  tokens are the ones the parser's lemmas start from, and no two words touch.
\<close>

section \<open>Pieces of the printer's parts\<close>

definition quoted_piece :: "pystr \<Rightarrow> piece" where
  "quoted_piece s = (if ident_matches s \<and> s \<notin> set dsl_keywords then Word (lit ''IDENT'') s else Quoted s)"

definition key_piece :: "string \<Rightarrow> piece" where
  "key_piece word = Word (lit word) (lit word)"

lemma quoted_piece_simps [simp]:
  "piece_text (quoted_piece s) = quote_if_needed s" "piece_tokens (quoted_piece s) = [quoted_token s]"
  "readable s \<Longrightarrow> piece_ok (quoted_piece s)"
  by (simp_all add: quoted_piece_def quote_if_needed_def quoted_token_def word_ok_def)

lemma key_piece_simps [simp]:
  "piece_text (key_piece word) = lit word" "piece_tokens (key_piece word) = [mark word]"
  by (simp_all add: key_piece_def mark_def)

lemma key_piece_ok: "lit word \<in> set dsl_keywords \<Longrightarrow> ident_matches (lit word) \<Longrightarrow> piece_ok (key_piece word)"
  by (simp add: key_piece_def word_ok_def)

fun comma_pieces :: "piece list \<Rightarrow> piece list" where
  "comma_pieces [] = []"
| "comma_pieces [p] = [p]"
| "comma_pieces (p # q # ps) = p # Mark 44 # Space # comma_pieces (q # ps)"

lemma comma_text: "concat (map piece_text (comma_pieces ps)) = join [44, 32] (map piece_text ps)"
  by (induction ps rule: comma_pieces.induct) auto

lemma comma_tokens:
  "(\<And>s. piece_tokens (f s) = [g s]) \<Longrightarrow> concat (map piece_tokens (comma_pieces (map f ss))) = commas (map g ss)"
  by (induction ss rule: induct_list012) (auto simp: mark_def)

lemma comma_ok: "list_all piece_ok (comma_pieces ps) \<longleftrightarrow> list_all piece_ok ps"
  by (induction ps rule: comma_pieces.induct) (auto simp: punctuation_def)

lemma comma_spaced: "spaced (comma_pieces ps @ [Mark c])"
proof (induction ps rule: comma_pieces.induct)
  case (3 p q ps)
  then show ?case by (cases "comma_pieces (q # ps) @ [Mark c]") auto
qed auto

definition line_ok :: "piece list \<Rightarrow> bool" where
  "line_ok ps \<longleftrightarrow> list_all piece_ok ps \<and> spaced ps"

definition line_text :: "piece list \<Rightarrow> pystr" where
  "line_text ps = concat (map piece_text ps)"

definition line_tokens :: "piece list \<Rightarrow> (pystr \<times> pystr) list" where
  "line_tokens ps = concat (map piece_tokens ps) @ [newline]"

definition list_pieces :: "string \<Rightarrow> piece list \<Rightarrow> piece list" where
  "list_pieces word ps = [Space, Space, Space, Space, key_piece word, Space, Mark 91] @ comma_pieces ps @ [Mark 93]"

definition pair_pieces :: "nat \<Rightarrow> string \<Rightarrow> pystr \<times> pystr \<Rightarrow> piece list" where
  "pair_pieces n word e = replicate n Space
     @ [key_piece word, Space, quoted_piece (fst e), Space, Mark 61, Space, Quoted (snd e)]"

definition retry_pieces :: "sdk_retry \<Rightarrow> piece list" where
  "retry_pieces r = [Space, Space, Space, Space, key_piece ''retry'', Space,
     key_piece ''attempts'', Mark 61, Word (lit ''INTEGER'') (show_int (rp_max_attempts r)), Mark 44, Space,
     key_piece ''base'', Mark 61, Word (lit ''DURATION'') (format_duration (rp_base_delay_ms r)), Mark 44, Space,
     key_piece ''max'', Mark 61, Word (lit ''DURATION'') (format_duration (rp_max_delay_ms r))]"

section \<open>Lines\<close>

lemma not_word [simp]: "is_word (quoted_piece s) = (ident_matches s \<and> s \<notin> set dsl_keywords)"
  "is_word (key_piece w)"
  by (simp_all add: quoted_piece_def key_piece_def)

lemma keyword_pieces [simp]:
  "piece_ok (key_piece ''workflow'')" "piece_ok (key_piece ''meta'')" "piece_ok (key_piece ''task'')"
  "piece_ok (key_piece ''run'')" "piece_ok (key_piece ''needs'')" "piece_ok (key_piece ''env'')"
  "piece_ok (key_piece ''labels'')" "piece_ok (key_piece ''timeout'')" "piece_ok (key_piece ''retry'')"
  "piece_ok (key_piece ''attempts'')" "piece_ok (key_piece ''base'')" "piece_ok (key_piece ''max'')"
  by (rule key_piece_ok;
      simp add: dsl_keywords_def ident_matches_def ident_start_def ident_char_def alpha_def upper_def lower_def)+

lemma digits_show_int: "0 \<le> n \<Longrightarrow> list_all digit (show_int n) \<and> show_int n \<noteq> []"
  using show_nat_digits [of _ "nat n"] by (simp add: show_int_def list_all_iff show_nat.simps [of "nat n"])

lemma integer_ok: "0 \<le> n \<Longrightarrow> piece_ok (Word (lit ''INTEGER'') (show_int n))"
  using digits_show_int [of n] by (simp add: word_ok_def)

lemma duration_ok:
  assumes "0 \<le> ms"
  shows "piece_ok (Word (lit ''DURATION'') (format_duration ms))"
proof -
  have "piece_ok (Word (lit ''DURATION'') (show_int n @ u))"
    if "0 \<le> n" "u \<in> {lit ''ms'', lit ''s'', lit ''m'', lit ''h''}" for n u
    using digits_show_int [OF that(1)] that(2) unfolding piece_ok.simps word_ok_def by blast
  then show ?thesis
    using assms by (simp add: format_duration_def pos_imp_zdiv_nonneg_iff del: piece_ok.simps)
qed

lemma spaced_gap [simp]: "spaced (Space # ps) = spaced ps" "spaced (Mark c # ps) = spaced ps"
  "spaced (p # Mark c # ps) = spaced ps" "spaced (p # Space # ps) = spaced ps"
  by (cases ps; simp)+

lemma list_pieces_facts:
  assumes "piece_ok (key_piece word)" "list_all piece_ok ps"
  shows "line_ok (list_pieces word ps)"
    "line_text (list_pieces word ps) = lit ''    '' @ lit word @ lit '' ['' @ join (lit '', '') (map piece_text ps) @ lit '']''"
  using assms comma_spaced [of ps 93]
  by (simp_all add: list_pieces_def line_ok_def line_text_def comma_text comma_ok punctuation_def)

lemma list_pieces_tokens:
  assumes "\<And>s. piece_tokens (f s) = [g s]"
  shows "line_tokens (list_pieces word (map f ss)) = mark word # bracketed (map g ss) @ [newline]"
  using comma_tokens [where ss = ss, OF assms] by (simp add: list_pieces_def line_tokens_def bracketed_def mark_def)

lemma spaced_spaces: "spaced (replicate n Space @ ps) \<longleftrightarrow> spaced ps"
  by (induction n) simp_all

lemma pair_pieces_facts:
  assumes "piece_ok (key_piece word)" "readable (fst e)" "readable (snd e)"
  shows "line_ok (pair_pieces n word e)"
    "line_text (pair_pieces n word e) = replicate n 32 @ lit word @ lit '' '' @ quote_if_needed (fst e) @ lit '' = '' @ json_string (snd e)"
    "line_tokens (pair_pieces n word e) = pair_tokens word e"
  using assms
  by (simp_all add: pair_pieces_def line_ok_def line_text_def line_tokens_def pair_tokens_def spaced_spaces
      punctuation_def mark_def string_token_def list_all_iff concat_replicate_trivial)

lemma retry_pieces_facts:
  assumes "retry_ok r"
  shows "line_ok (retry_pieces r)" "line_text (retry_pieces r) = retry_line r"
    "line_tokens (retry_pieces r) = mark ''retry'' # retry_tokens r @ [newline]"
  using assms integer_ok [of "rp_max_attempts r"] duration_ok [of "rp_base_delay_ms r"] duration_ok [of "rp_max_delay_ms r"]
  by (simp_all add: retry_pieces_def line_ok_def line_text_def line_tokens_def retry_line_def retry_tokens_def
      option_tokens_def punctuation_def mark_def retry_ok_def del: piece_ok.simps(1))


section \<open>The lines of a source\<close>

definition task_pieces :: "task_node \<Rightarrow> piece list list" where
  "task_pieces t =
     [[Space, Space, key_piece ''task'', Space, quoted_piece (tn_id t), Space, Mark 123],
      list_pieces ''run'' (map Quoted (tn_command t))]
     @ (if tn_depends_on t \<noteq> [] then [list_pieces ''needs'' (map quoted_piece (tn_depends_on t))] else [])
     @ map (pair_pieces 4 ''env'') (sorted_items (tn_env t))
     @ map (pair_pieces 4 ''labels'') (sorted_items (tn_labels t))
     @ (if tn_timeout_seconds t \<noteq> 0
        then [[Space, Space, Space, Space, key_piece ''timeout'', Space,
               Word (lit ''DURATION'') (format_duration (tn_timeout_seconds t * 1000))]] else [])
     @ (if tn_retry t \<noteq> sdk_default_retry then [retry_pieces (tn_retry t)] else [])
     @ [[Space, Space, Mark 125]]"

fun tasks_pieces :: "task_node list \<Rightarrow> piece list list" where
  "tasks_pieces [] = []"
| "tasks_pieces [t] = task_pieces t"
| "tasks_pieces (t # u # ts) = task_pieces t @ [[]] @ tasks_pieces (u # ts)"

definition source_pieces :: "workflow_node \<Rightarrow> piece list list" where
  "source_pieces w =
     [[key_piece ''workflow'', Space, quoted_piece (wn_name w), Space, Mark 123]]
     @ map (pair_pieces 2 ''meta'') (sorted_items (wn_metadata w))
     @ (if wn_metadata w \<noteq> [] \<and> wn_tasks w \<noteq> [] then [[]] else [])
     @ tasks_pieces (wn_tasks w) @ [[Mark 125]]"

definition readable_items :: "(pystr, pystr) dict \<Rightarrow> bool" where
  "readable_items d \<longleftrightarrow> list_all (\<lambda>e. readable (fst e) \<and> readable (snd e)) d"

definition readable_task :: "task_node \<Rightarrow> bool" where
  "readable_task t \<longleftrightarrow> readable (tn_id t) \<and> list_all readable (tn_command t)
     \<and> list_all readable (tn_depends_on t) \<and> readable_items (tn_env t) \<and> readable_items (tn_labels t)"

definition printable :: "workflow_node \<Rightarrow> bool" where
  "printable w \<longleftrightarrow> node_shape w \<and> readable (wn_name w) \<and> readable_items (wn_metadata w)
     \<and> list_all readable_task (wn_tasks w)"

text \<open>What a list of lines should be: fit to be lexed, with the given texts and tokens.\<close>

definition prints :: "piece list list \<Rightarrow> pystr list \<Rightarrow> (pystr \<times> pystr) list \<Rightarrow> bool" where
  "prints ls texts kvs \<longleftrightarrow> list_all line_ok ls \<and> map line_text ls = texts \<and> concat (map line_tokens ls) = kvs"

lemma prints_append: "prints a s k \<Longrightarrow> prints b t m \<Longrightarrow> prints (a @ b) (s @ t) (k @ m)"
  by (simp add: prints_def)

lemma prints_line: "line_ok l \<Longrightarrow> line_text l = s \<Longrightarrow> line_tokens l = k \<Longrightarrow> prints [l] [s] k"
  by (simp add: prints_def)

lemma prints_if: "(b \<Longrightarrow> prints l s k) \<Longrightarrow> prints (if b then l else []) (if b then s else []) (if b then k else [])"
  by (simp add: prints_def)

lemma sorted_items_mem: "e \<in> set (sorted_items d) \<Longrightarrow> e \<in> set d"
  by (cases e) (auto simp: sorted_items_def dkeys_def weak_map_of_SomeI map_of_SomeD dest!: weak_map_of_SomeI)

lemma prints_pairs:
  assumes "readable_items d" "piece_ok (key_piece word)"
    and "\<And>e. pair_line prefix_text e = replicate n 32 @ lit word @ lit '' '' @ quote_if_needed (fst e) @ lit '' = '' @ json_string (snd e)"
  shows "prints (map (pair_pieces n word) (sorted_items d)) (map (pair_line prefix_text) (sorted_items d))
    (concat (map (pair_tokens word) (sorted_items d)))"
proof -
  have "readable (fst e) \<and> readable (snd e)" if "e \<in> set (sorted_items d)" for e
    using assms(1) sorted_items_mem [OF that] by (auto simp: readable_items_def list_all_iff)
  then show ?thesis
    using pair_pieces_facts [OF assms(2)] assms(3)
    by (auto simp: prints_def list_all_iff intro!: arg_cong [where f = concat] map_cong)
qed

lemma prints_list:
  assumes "piece_ok (key_piece word)" "\<And>s. s \<in> set ss \<Longrightarrow> piece_ok (f s)" "\<And>s. piece_tokens (f s) = [g s]"
    "\<And>s. piece_text (f s) = h s" "lit ''    '' @ lit word @ lit '' ['' = prefix_text"
  shows "prints [list_pieces word (map f ss)] [prefix_text @ join (lit '', '') (map h ss) @ lit '']'']
    (mark word # bracketed (map g ss) @ [newline])"
proof (rule prints_line)
  have ok: "list_all piece_ok (map f ss)" using assms(2) by (simp add: list_all_iff)
  show "line_ok (list_pieces word (map f ss))" by (rule list_pieces_facts(1) [OF assms(1) ok])
  show "line_text (list_pieces word (map f ss)) = prefix_text @ join (lit '', '') (map h ss) @ lit '']''"
    using list_pieces_facts(2) [OF assms(1) ok] assms(4,5) by (simp add: comp_def)
  show "line_tokens (list_pieces word (map f ss)) = mark word # bracketed (map g ss) @ [newline]"
    by (rule list_pieces_tokens [OF assms(3)])
qed


lemma prints_task:
  assumes "task_shape t" "readable_task t"
  shows "prints (task_pieces t) (task_lines t) (task_tokens t @ [newline])"
proof -
  have r: "readable (tn_id t)" "\<And>s. s \<in> set (tn_command t) \<Longrightarrow> readable s" "\<And>s. s \<in> set (tn_depends_on t) \<Longrightarrow> readable s"
    "readable_items (tn_env t)" "readable_items (tn_labels t)"
    using assms(2) by (auto simp: readable_task_def list_all_iff)
  have sh: "0 \<le> tn_timeout_seconds t * 1000" "retry_ok (tn_retry t)" using assms(1) by (auto simp: task_shape_def)
  have head: "prints [[Space, Space, key_piece ''task'', Space, quoted_piece (tn_id t), Space, Mark 123]]
      [lit ''  task '' @ quote_if_needed (tn_id t) @ lit '' {'']
      [mark ''task'', quoted_token (tn_id t), mark ''{'', newline]"
    by (rule prints_line) (use r(1) in \<open>simp_all add: line_ok_def line_text_def line_tokens_def punctuation_def mark_def\<close>)
  have run: "prints [list_pieces ''run'' (map Quoted (tn_command t))]
      [lit ''    run ['' @ join (lit '', '') (map json_string (tn_command t)) @ lit '']'']
      (mark ''run'' # bracketed (map string_token (tn_command t)) @ [newline])"
    by (rule prints_list) (use r(2) in \<open>simp_all add: string_token_def\<close>)
  have needs: "prints [list_pieces ''needs'' (map quoted_piece (tn_depends_on t))]
      [lit ''    needs ['' @ join (lit '', '') (map quote_if_needed (tn_depends_on t)) @ lit '']'']
      (mark ''needs'' # bracketed (map quoted_token (tn_depends_on t)) @ [newline])"
    by (rule prints_list) (use r(3) in simp_all)
  have env: "prints (map (pair_pieces 4 ''env'') (sorted_items (tn_env t)))
      (map (pair_line (lit ''    env '')) (sorted_items (tn_env t)))
      (concat (map (pair_tokens ''env'') (sorted_items (tn_env t))))"
    by (rule prints_pairs [OF r(4)]) (simp_all add: pair_line_def numeral_eq_Suc)
  have labels: "prints (map (pair_pieces 4 ''labels'') (sorted_items (tn_labels t)))
      (map (pair_line (lit ''    labels '')) (sorted_items (tn_labels t)))
      (concat (map (pair_tokens ''labels'') (sorted_items (tn_labels t))))"
    by (rule prints_pairs [OF r(5)]) (simp_all add: pair_line_def numeral_eq_Suc)
  have timeout: "prints [[Space, Space, Space, Space, key_piece ''timeout'', Space,
        Word (lit ''DURATION'') (format_duration (tn_timeout_seconds t * 1000))]]
      [lit ''    timeout '' @ format_duration (tn_timeout_seconds t * 1000)]
      [mark ''timeout'', (lit ''DURATION'', format_duration (tn_timeout_seconds t * 1000)), newline]"
    by (rule prints_line) (use duration_ok [OF sh(1)] in \<open>simp_all add: line_ok_def line_text_def line_tokens_def\<close>)
  have retry: "prints [retry_pieces (tn_retry t)] [retry_line (tn_retry t)]
      (mark ''retry'' # retry_tokens (tn_retry t) @ [newline])"
    by (rule prints_line) (rule retry_pieces_facts [OF sh(2)])+
  have close: "prints [[Space, Space, Mark 125]] [lit ''  }''] [mark ''}'', newline]"
    by (rule prints_line) (simp_all add: line_ok_def line_text_def line_tokens_def punctuation_def mark_def)
  note all = prints_append [OF head prints_append [OF run prints_append [OF prints_if [OF needs]
    prints_append [OF env prints_append [OF labels prints_append [OF prints_if [OF timeout]
    prints_append [OF prints_if [OF retry] close]]]]]]]
  show ?thesis
    using all unfolding task_pieces_def task_lines_def task_tokens_def field_tokens_def append_Cons append_Nil append_assoc .
qed

lemma prints_blank: "prints [[]] [[]] [newline]"
  by (rule prints_line) (simp_all add: line_ok_def line_text_def line_tokens_def)

lemma prints_tasks:
  "(\<And>t. t \<in> set ts \<Longrightarrow> task_shape t \<and> readable_task t) \<Longrightarrow>
     prints (tasks_pieces ts) (tasks_lines ts) (tasks_tokens ts)"
proof (induction ts rule: tasks_pieces.induct)
  case (3 t u ts)
  have "prints (task_pieces t @ [[]] @ tasks_pieces (u # ts)) (task_lines t @ [[]] @ tasks_lines (u # ts))
      ((task_tokens t @ [newline]) @ [newline] @ tasks_tokens (u # ts))"
    using 3 by (intro prints_append prints_task prints_blank) auto
  then show ?case by simp
next
  case 1
  show ?case by (simp add: prints_def)
next
  case (2 t)
  then show ?case using prints_task [of t] by simp
qed

lemma prints_source:
  assumes "printable w"
  shows "prints (source_pieces w) (source_lines w) (source_tokens w)"
proof -
  have r: "readable (wn_name w)" "readable_items (wn_metadata w)"
    "\<And>t. t \<in> set (wn_tasks w) \<Longrightarrow> task_shape t \<and> readable_task t"
    using assms by (auto simp: printable_def node_shape_def list_all_iff)
  have head: "prints [[key_piece ''workflow'', Space, quoted_piece (wn_name w), Space, Mark 123]]
      [lit ''workflow '' @ quote_if_needed (wn_name w) @ lit '' {'']
      [mark ''workflow'', quoted_token (wn_name w), mark ''{'', newline]"
    by (rule prints_line) (use r(1) in \<open>simp_all add: line_ok_def line_text_def line_tokens_def punctuation_def mark_def\<close>)
  have meta: "prints (map (pair_pieces 2 ''meta'') (sorted_items (wn_metadata w)))
      (map (pair_line (lit ''  meta '')) (sorted_items (wn_metadata w)))
      (concat (map (pair_tokens ''meta'') (sorted_items (wn_metadata w))))"
    by (rule prints_pairs [OF r(2)]) (simp_all add: pair_line_def numeral_eq_Suc)
  have close: "prints [[Mark 125]] [lit ''}''] [mark ''}'', newline]"
    by (rule prints_line) (simp_all add: line_ok_def line_text_def line_tokens_def punctuation_def mark_def)
  note all = prints_append [OF head prints_append [OF meta prints_append [OF prints_if [OF prints_blank]
    prints_append [OF prints_tasks [OF r(3)] close]]]]
  show ?thesis
    using all unfolding source_pieces_def source_lines_def source_tokens_def section_tokens_def
      append_Cons append_Nil append_assoc .
qed

section \<open>The whole text\<close>

lemma join_lines: "ls \<noteq> [] \<Longrightarrow> join [10] ls @ [10] = concat (map (\<lambda>l. l @ [10]) ls)"
  by (induction "[10] :: pystr" ls rule: join.induct) auto

lemma spaced_Break: "spaced (ps @ Break # qs) \<longleftrightarrow> spaced ps \<and> spaced qs"
proof (induction ps rule: spaced.induct, goal_cases)
  case (1 p q ps)
  then show ?case by auto
next
  case 2
  show ?case by (cases qs) auto
next
  case (3 p)
  show ?case by (cases qs) auto
qed

lemma concat_lines:
  "concat (map f (concat (map (\<lambda>l. l @ [Break]) ls))) = concat (map (\<lambda>l. concat (map f l) @ f Break) ls)"
  by (induction ls) auto

lemma lines_ok:
  "list_all line_ok ls \<Longrightarrow> list_all piece_ok (concat (map (\<lambda>l. l @ [Break]) ls)) \<and> spaced (concat (map (\<lambda>l. l @ [Break]) ls))"
  by (induction ls) (auto simp: line_ok_def spaced_Break)

lemma source_lexes:
  assumes "printable w"
  shows "lexes_to (format_source w) (source_tokens w @ [(lit ''EOF'', [])])"
proof -
  let ?ps = "concat (map (\<lambda>l. l @ [Break]) (source_pieces w))"
  have p: "list_all line_ok (source_pieces w)" "map line_text (source_pieces w) = source_lines w"
    "concat (map line_tokens (source_pieces w)) = source_tokens w"
    using prints_source [OF assms] by (simp_all add: prints_def)
  have "concat (map piece_text ?ps) = concat (map (\<lambda>l. l @ [10]) (map line_text (source_pieces w)))"
    by (simp add: concat_lines line_text_def comp_def)
  then have "concat (map piece_text ?ps) = format_source w"
    unfolding p(2) format_source_def by (simp add: join_lines source_lines_def)
  moreover have "concat (map piece_tokens ?ps) = source_tokens w"
    by (simp add: p(3) [symmetric] concat_lines line_tokens_def [abs_def])
  ultimately show ?thesis using lex_pieces [of ?ps] lines_ok [OF p(1)] by simp
qed

end
