(* ===== verification/Dsl_Shape.thy ===== *)
theory Dsl_Shape
  imports Dsl_Print
begin

text \<open>
  What the parser returns is well formed: task ids are distinct, every task has a command, the
  dictionaries have no key twice, and timeouts and retry policies are in their ranges.
\<close>

section \<open>Results\<close>

definition returns :: "'a parser \<Rightarrow> ('a \<Rightarrow> bool) \<Rightarrow> bool" where
  "returns p Q \<longleftrightarrow> (\<forall>ts x ts'. p ts = (Inr x, ts') \<longrightarrow> Q x)"

lemma returnsD: "returns p Q \<Longrightarrow> p ts = (Inr x, ts') \<Longrightarrow> Q x"
  unfolding returns_def by blast

lemma returns_ret: "Q x \<Longrightarrow> returns (ret x) Q"
  by (simp add: returns_def ret_def)

lemma returns_raise: "returns (raise e) Q" "returns (parse_error problem) Q"
  by (simp_all add: returns_def raise_def parse_error_def)

lemma returns_chain: "returns p P \<Longrightarrow> (\<And>x. P x \<Longrightarrow> returns (f x) Q) \<Longrightarrow> returns (chain p f) Q"
  unfolding returns_def chain_result by blast

lemma returns_andThen: "returns q Q \<Longrightarrow> returns (andThen p q) Q"
  unfolding andThen_def by (rule returns_chain [where P = "\<lambda>_. True"]) (simp_all add: returns_def)

lemma returns_any: "(\<And>x. returns (f x) Q) \<Longrightarrow> returns (chain p f) Q"
  by (rule returns_chain [where P = "\<lambda>_. True"]) (simp_all add: returns_def)

lemma returns_if: "(b \<Longrightarrow> returns p Q) \<Longrightarrow> (\<not> b \<Longrightarrow> returns q Q) \<Longrightarrow> returns (if b then p else q) Q"
  by simp

lemma returns_weaken: "returns p P \<Longrightarrow> (\<And>x. P x \<Longrightarrow> Q x) \<Longrightarrow> returns p Q"
  by (auto simp: returns_def)

section \<open>Durations and retry policies\<close>

lemma duration_range: "duration_to_milliseconds s l c = Inr ms \<Longrightarrow> 0 \<le> ms \<and> ms \<le> 86400000"
proof -
  assume "duration_to_milliseconds s l c = Inr ms"
  then obtain k where k: "unit_factor (dropWhile digit s) = Some k"
    "ms = dec_value (takeWhile digit s) * k" "ms \<le> 86400000"
    by (auto simp: duration_to_milliseconds_def Let_def split: option.splits if_splits)
  have "0 \<le> dec_value (takeWhile digit s)"
    using dec_value_bounds [of "takeWhile digit s"] set_takeWhileD [of _ digit s] by blast
  moreover have "0 < k" using k(1) by (auto simp: unit_factor_def split: if_splits)
  ultimately show ?thesis using k(2,3) by simp
qed

lemma returns_duration: "returns duration_ms (\<lambda>ms. 0 \<le> ms \<and> ms \<le> 86400000)"
  unfolding duration_ms_def lift_result_def
  by (rule returns_any) (auto split: sum.split intro: returns_ret returns_raise dest: duration_range)

definition delays_small :: "sdk_retry \<Rightarrow> bool" where
  "delays_small r \<longleftrightarrow> rp_max_delay_ms r \<le> 86400000"

lemma returns_retry_option:
  assumes "delays_small r"
  shows "returns (retry_option key r) delays_small"
  unfolding retry_option_def
proof (rule returns_any, rule returns_any, rule returns_chain [where P = delays_small])
  show "returns (if key = lit ''attempts'' then
       chain (expect (lit ''INTEGER'')) (\<lambda>t. ret (r\<lparr>rp_max_attempts := dec_value (tk_value t)\<rparr>))
     else chain duration_ms (\<lambda>ms.
       ret (if key = lit ''base'' then r\<lparr>rp_base_delay_ms := ms\<rparr> else r\<lparr>rp_max_delay_ms := ms\<rparr>))) delays_small"
    using assms
    by (intro returns_if returns_any [of _ _ "expect _"] returns_chain [OF returns_duration] returns_ret)
      (auto simp: delays_small_def)
  show "returns (\<lambda>ts. (Inr r', if kind ts = lit '','' then advance_token ts else ts)) delays_small"
    if "delays_small r'" for r' using that by (simp add: returns_def)
qed

lemma retry_options_small:
  "delays_small r \<Longrightarrow> retry_options r seen ts = (Inr r', ts') \<Longrightarrow> delays_small r'"
proof (induction r seen ts rule: retry_options.induct)
  case (1 r seen ts)
  show ?case
  proof (cases "kind ts \<in> {lit ''NEWLINE'', lit ''}'', lit ''EOF''} \<or> kind ts \<notin> {lit ''attempts'', lit ''base'', lit ''max''}
      \<or> kind ts \<in> set seen")
    case True
    with "1.prems" show ?thesis
      by (subst (asm) retry_options.simps) (auto simp: parse_error_def split: if_splits)
  next
    case False
    then have sub: "kind ts \<notin> {lit ''NEWLINE'', lit ''}'', lit ''EOF''}"
      "\<not> kind ts \<notin> {lit ''attempts'', lit ''base'', lit ''max''}" "kind ts \<notin> set seen" by blast+
    have "retry_options r seen ts = chain (retry_option (kind ts) r)
        (\<lambda>r' ts'. retry_options r' (kind ts # seen) ts') ts"
      by (subst retry_options.simps) (simp only: sub if_False if_True not_False_eq_True)
    with "1.prems" obtain r1 ts1 where one: "retry_option (kind ts) r ts = (Inr r1, ts1)"
      and rest: "retry_options r1 (kind ts # seen) ts1 = (Inr r', ts')" by (auto simp: chain_result)
    show ?thesis
      by (rule "1.IH" [OF sub one _ rest]) (rule returnsD [OF returns_retry_option [OF "1.prems"(1)] one])
  qed
qed

lemma returns_parse_retry: "returns parse_retry retry_ok"
  unfolding parse_retry_def
proof (rule returns_chain)
  show "returns (retry_options sdk_default_retry []) delays_small"
    using retry_options_small [of sdk_default_retry "[]"] unfolding returns_def
    by (force simp: delays_small_def sdk_default_retry_def)
  show "returns (check_retry r) retry_ok" if "delays_small r" for r
    using that unfolding check_retry_def
    by (intro returns_if returns_raise returns_ret) (auto simp: retry_ok_def delays_small_def)
qed


section \<open>Tasks\<close>

definition fields_ok :: "task_node \<Rightarrow> bool" where
  "fields_ok t \<longleftrightarrow> dwf (tn_env t) \<and> dwf (tn_labels t) \<and> 0 \<le> tn_timeout_seconds t
     \<and> tn_timeout_seconds t \<le> 86400 \<and> retry_ok (tn_retry t)"

lemma seconds_range:
  "duration_to_seconds s l c = Inr x \<Longrightarrow> 0 \<le> x \<and> x \<le> 86400"
  using duration_range [of s l c]
  by (auto simp: duration_to_seconds_def pos_imp_zdiv_nonneg_iff split: sum.splits if_splits)

lemma returns_lift: "(\<And>x. r = Inr x \<Longrightarrow> Q x) \<Longrightarrow> returns (lift_result r) Q"
  by (auto simp: lift_result_def intro: returns_ret returns_raise split: sum.split)

lemma returns_field_body:
  assumes "fields_ok t"
  shows "returns (field_body key t) fields_ok"
  unfolding field_body_def
proof (intro returns_if)
  show "returns (chain command (\<lambda>cmd. ret (t\<lparr>tn_command := cmd\<rparr>))) fields_ok"
    using assms by (intro returns_any returns_ret) (simp add: fields_ok_def)
  show "returns (chain (list_of_scalars d) (\<lambda>ds. ret (t\<lparr>tn_depends_on := ds\<rparr>))) fields_ok" for d
    using assms by (intro returns_any returns_ret) (simp add: fields_ok_def)
  show "returns (chain (named_value a b)
      (\<lambda>(name, v). if dget (tn_env t) name \<noteq> None then parse_error (Duplicate_env name)
         else ret (t\<lparr>tn_env := dput name v (tn_env t)\<rparr>))) fields_ok" for a b
    using assms by (intro returns_any) (auto simp: fields_ok_def dict_simps split: prod.split intro!: returns_if returns_ret returns_raise)
  show "returns (chain (named_value a b)
      (\<lambda>(name, v). if dget (tn_labels t) name \<noteq> None then parse_error (Duplicate_label name)
         else ret (t\<lparr>tn_labels := dput name v (tn_labels t)\<rparr>))) fields_ok" for a b
    using assms by (intro returns_any) (auto simp: fields_ok_def dict_simps split: prod.split intro!: returns_if returns_ret returns_raise)
  show "returns (chain (expect k) (\<lambda>d.
        chain (lift_result (duration_to_seconds (tk_value d) (tk_line d) (tk_column d)))
          (\<lambda>seconds. ret (t\<lparr>tn_timeout_seconds := seconds\<rparr>)))) fields_ok" for k
    using assms
    by (intro returns_any [of _ _ "expect _"] returns_chain [OF returns_lift [OF seconds_range]] returns_ret)
      (auto simp: fields_ok_def)
  show "returns (chain parse_retry (\<lambda>r. ret (t\<lparr>tn_retry := r\<rparr>))) fields_ok"
    using assms by (intro returns_chain [OF returns_parse_retry] returns_ret) (simp add: fields_ok_def)
qed

lemma returns_task_field:
  assumes "fields_ok t"
  shows "returns (task_field t) fields_ok"
proof -
  have "returns (chain (modify advance_token) (\<lambda>_.
       chain (field_body key t) (\<lambda>t'. chain line_end (\<lambda>_. ret t')))) fields_ok" for key
    by (intro returns_any [of _ _ "modify _"] returns_chain [OF returns_field_body [OF assms]]
        returns_any [of _ _ line_end] returns_ret)
  then show ?thesis unfolding task_field_def returns_def by (auto simp: parse_error_def)
qed

lemma task_fields_ok:
  "fields_ok t \<Longrightarrow> task_fields i seen t ts = (Inr t', ts') \<Longrightarrow> fields_ok t'"
proof (induction i seen t ts rule: task_fields.induct)
  case (1 i seen t ts)
  show ?case
  proof (cases "kind ts = lit ''}'' \<or> kind ts = lit ''EOF'' \<or> kind ts \<in> set seen \<and> \<not> repeatable (kind ts)")
    case True
    with "1.prems" show ?thesis
      by (subst (asm) task_fields.simps) (auto simp: parse_error_def split: if_splits)
  next
    case False
    then have sub: "kind ts \<noteq> lit ''}''" "kind ts \<noteq> lit ''EOF''"
      "\<not> (kind ts \<in> set seen \<and> \<not> repeatable (kind ts))" by blast+
    have "task_fields i seen t ts = chain (task_field t) (\<lambda>t' ts'.
        task_fields i (if repeatable (kind ts) then seen else kind ts # seen) t' (skip_newlines ts')) ts"
      by (subst task_fields.simps) (simp only: sub if_False)
    with "1.prems" obtain t1 ts1 where one: "task_field t ts = (Inr t1, ts1)"
      and rest: "task_fields i (if repeatable (kind ts) then seen else kind ts # seen) t1
        (skip_newlines ts1) = (Inr t', ts')" by (auto simp: chain_result)
    show ?thesis
      by (rule "1.IH" [OF sub one _ rest]) (rule returnsD [OF returns_task_field [OF "1.prems"(1)] one])
  qed
qed

lemma returns_task: "returns parse_task task_shape"
proof -
  have new: "fields_ok (new_task_node i line)" for i line
    by (simp add: fields_ok_def new_task_node_def retry_ok_def sdk_default_retry_def)
  have fields: "returns (task_fields i [] (new_task_node j line)) fields_ok" for i j line
    unfolding returns_def using task_fields_ok [OF new] by blast
  show ?thesis
    unfolding parse_task_def
    by (intro returns_any [of _ _ "expect _"] returns_any [of _ _ "scalar _"] returns_andThen
        returns_chain [OF fields] returns_if returns_raise returns_ret)
      (auto simp: fields_ok_def task_shape_def)
qed

section \<open>Workflows\<close>

definition sections_ok :: "pystr list \<Rightarrow> workflow_node \<Rightarrow> bool" where
  "sections_ok ids w \<longleftrightarrow> node_shape w \<and> set (map tn_id (wn_tasks w)) \<subseteq> set ids"

lemma returns_section:
  assumes "sections_ok ids w"
  shows "returns (parse_section ids w) (\<lambda>r. sections_ok (fst r) (snd r))"
proof -
  have meta: "returns (parse_meta w) (sections_ok ids)"
    unfolding parse_meta_def using assms
    by (intro returns_any [of _ _ "expect _"] returns_any [of _ _ "named_value _ _"])
      (auto split: prod.split intro!: returns_if returns_any [of _ _ line_end] returns_ret returns_raise
        simp: sections_ok_def node_shape_def dict_simps)
  have "returns (chain (parse_meta w) (\<lambda>w'. ret (ids, w'))) (\<lambda>r. sections_ok (fst r) (snd r))"
    by (rule returns_chain [OF meta]) (simp add: returns_ret)
  moreover have "returns (chain parse_task (\<lambda>t.
         if tn_id t \<in> set ids then raise (Dsl_error (Duplicate_task_id (tn_id t)) (tn_line t) 0)
         else ret (tn_id t # ids, w\<lparr>wn_tasks := wn_tasks w @ [t]\<rparr>))) (\<lambda>r. sections_ok (fst r) (snd r))"
    by (rule returns_chain [OF returns_task], intro returns_if returns_raise returns_ret)
      (use assms in \<open>auto simp: sections_ok_def node_shape_def\<close>)
  ultimately show ?thesis
    unfolding parse_section_def returns_def by (auto simp: parse_error_def split: if_splits)
qed

lemma parse_sections_ok:
  "sections_ok ids w \<Longrightarrow> parse_sections ids w ts = (Inr w', ts') \<Longrightarrow> node_shape w'"
proof (induction ids w ts rule: parse_sections.induct)
  case (1 ids w ts)
  show ?case
  proof (cases "kind ts = lit ''}''")
    case True
    then have "parse_sections ids w ts = (Inr w, ts)" by (subst parse_sections.simps) simp
    with 1 show ?thesis by (simp add: sections_ok_def)
  next
    case False
    then have "parse_sections ids w ts = chain (parse_section ids w) (\<lambda>r ts'.
        parse_sections (fst r) (snd r) (skip_newlines ts')) ts" by (subst parse_sections.simps) simp
    with "1.prems" obtain r ts1 where one: "parse_section ids w ts = (Inr r, ts1)"
      and rest: "parse_sections (fst r) (snd r) (skip_newlines ts1) = (Inr w', ts')"
      by (auto simp: chain_result)
    show ?thesis
      by (rule "1.IH" [OF False one _ rest]) (rule returnsD [OF returns_section [OF "1.prems"(1)] one])
  qed
qed

lemma parse_node_shape:
  assumes "parse s = Inr w"
  shows "node_shape w"
proof -
  have "returns (parse_sections [] \<lparr>wn_name = name, wn_line = line, wn_metadata = [], wn_tasks = []\<rparr>) node_shape"
    for name line
  proof -
    have "sections_ok [] \<lparr>wn_name = name, wn_line = line, wn_metadata = [], wn_tasks = []\<rparr>"
      by (simp add: sections_ok_def node_shape_def)
    from parse_sections_ok [OF this] show ?thesis unfolding returns_def by blast
  qed
  note sections = this
  have "returns parse_workflow node_shape"
    unfolding parse_workflow_def
    by (intro returns_andThen returns_any [of _ _ "expect _"] returns_any [of _ _ "scalar _"]
        returns_chain [OF sections] returns_ret)
  moreover obtain ts where "parse_workflow ts = (Inr w, snd (parse_workflow ts))"
    using assms unfolding parse_def by (metis prod.collapse sum.case_eq_if sum.distinct(1))
  ultimately show ?thesis by (rule returnsD)
qed

end
