(* ===== verification/Dsl_Text_Props.thy ===== *)
theory Dsl_Text_Props
  imports Dsl_Shape Sdk_Facts
begin

text \<open>The properties of the textual form of workflows: parsing, printing and reading back.\<close>

section \<open>Printing again\<close>

lemma sorted_items_twice: "sorted_items (sorted_items d) = sorted_items d"
proof -
  let ?ks = "sort (dkeys d)"
  have keys: "dkeys (sorted_items d) = ?ks" using sorted_items_keys [of d] by (simp add: dkeys_def)
  have "dget (sorted_items d) k = Some (the (dget d k))" if "k \<in> set ?ks" for k
    using that by (simp add: sorted_items_def map_of_map_restrict restrict_map_def)
  then have "map (\<lambda>k. (k, the (dget (sorted_items d) k))) ?ks = map (\<lambda>k. (k, the (dget d k))) ?ks"
    by (intro map_cong) simp_all
  moreover have "sort ?ks = ?ks" by (rule sorted_sort_id) simp
  ultimately show ?thesis by (simp only: sorted_items_def [of "sorted_items d"] keys) (simp only: sorted_items_def)
qed

lemma sorted_items_empty: "sorted_items d = [] \<longleftrightarrow> d = []"
  using arg_cong [OF sorted_items_keys [of d], of length] by (auto simp: dkeys_def)

lemma tasks_lines_map:
  "(\<And>t. task_lines (f t) = task_lines t) \<Longrightarrow> tasks_lines (map f ts) = tasks_lines ts"
  by (induction ts rule: tasks_lines.induct) auto

lemma unlined_format: "format_source (unlined w) = format_source w"
  using tasks_lines_map [of unlined_task "wn_tasks w"]
  by (simp add: format_source_def source_lines_def unlined_def task_lines_def unlined_task_def)

lemma canonical_format: "format_source (canonical w) = format_source w"
  using tasks_lines_map [of canonical_task "wn_tasks w"]
  by (simp add: format_source_def source_lines_def canonical_def task_lines_def canonical_task_def
      sorted_items_twice sorted_items_empty)

section \<open>Properties\<close>

text \<open>C16: What \<open>parse\<close> returns is well formed: task ids are distinct, every task has a command, no
  dictionary has a key twice, timeouts are at most a day, and every retry policy has between 1 and 100
  attempts and delays with 1 <= base <= max <= one day.\<close>
theorem parsed_is_well_formed:
  assumes "parse s = Inr w"
  shows "distinct (map tn_id (wn_tasks w)) \<and> dwf (wn_metadata w)
    \<and> list_all (\<lambda>t. tn_command t \<noteq> [] \<and> dwf (tn_env t) \<and> dwf (tn_labels t)
        \<and> 0 \<le> tn_timeout_seconds t \<and> tn_timeout_seconds t \<le> 86400
        \<and> 1 \<le> rp_max_attempts (tn_retry t) \<and> rp_max_attempts (tn_retry t) \<le> 100
        \<and> 1 \<le> rp_base_delay_ms (tn_retry t) \<and> rp_base_delay_ms (tn_retry t) \<le> rp_max_delay_ms (tn_retry t)
        \<and> rp_max_delay_ms (tn_retry t) \<le> 86400000) (wn_tasks w)"
  using parse_node_shape [OF assms]
  by (auto simp: node_shape_def task_shape_def retry_ok_def list_all_iff)

definition small_source :: pystr where
  "small_source = lit ''workflow w { task a { run b timeout 2m retry attempts=3, max=1h } }''"

definition small_node :: workflow_node where
  "small_node = \<lparr>wn_name = lit ''w'', wn_line = 1, wn_metadata = [], wn_tasks =
     [\<lparr>tn_id = lit ''a'', tn_line = 1, tn_command = [lit ''b''], tn_depends_on = [], tn_env = [], tn_labels = [],
       tn_timeout_seconds = 120,
       tn_retry = \<lparr>rp_max_attempts = 3, rp_base_delay_ms = 250, rp_max_delay_ms = 3600000\<rparr>\<rparr>]\<rparr>"

lemma small_source_parses: "parse small_source = Inr small_node"
  by code_simp

theorem parsed_is_well_formed_witness:
  "parse small_source = Inr small_node \<and> distinct (map tn_id (wn_tasks small_node)) \<and> dwf (wn_metadata small_node)"
  using parsed_is_well_formed [OF small_source_parses] small_source_parses by blast

text \<open>C15: Reading what \<open>format_source\<close> prints gives the workflow back: the same names, tasks, commands,
  dependencies, timeouts and retry policies, with the entries of every dictionary in the order of
  their keys and only line numbers changed; printing the result again gives the same text. The
  workflow must be well formed and its strings free of backspace and form feed.\<close>
theorem format_parse_roundtrip:
  assumes "printable w"
  shows "\<exists>x. parse (format_source w) = Inr x \<and> unlined x = canonical w \<and> format_source x = format_source w"
proof -
  obtain ts where ts: "tokens (format_source w) = Inr ts" "map kv ts = source_tokens w @ [(lit ''EOF'', [])]"
    using source_lexes [OF assms] unfolding lexes_to_def tokens_def by blast
  have "node_shape w" using assms by (simp add: printable_def)
  from meetsD [OF workflow_printed [OF this] ts(2)]
  obtain x where x: "fst (parse_workflow ts) = Inr x" "unlined x = canonical w" by auto
  have "format_source x = format_source w"
    using unlined_format [of x] canonical_format [of w] x(2) by simp
  with x ts(1) show ?thesis by (auto simp: parse_def)
qed

definition release_node :: workflow_node where
  "release_node = \<lparr>wn_name = lit ''release pipeline'', wn_line = 1,
     wn_metadata = [(lit ''team'', lit ''platform''), (lit ''env'', [34, 10, 1, 8364])],
     wn_tasks = [(hd (wn_tasks small_node))\<lparr>tn_env := [(lit ''task'', lit ''x''), (lit ''B'', [])]\<rparr>,
       (new_task_node (lit ''meta'') 9)\<lparr>tn_command := [lit ''sh'', lit ''-lc''], tn_depends_on := [lit ''a'']\<rparr>]\<rparr>"

lemma release_printable: "printable release_node"
  by code_simp

theorem format_parse_roundtrip_witness:
  "\<exists>x. parse (format_source release_node) = Inr x \<and> unlined x = canonical release_node"
  using format_parse_roundtrip [OF release_printable] by blast

text \<open>A string may hold a backspace, written as a Unicode escape, but the printer writes it with
  the short escape that the lexer does not know: the printed source is refused.\<close>
theorem backspace_not_read_back:
  "parse (lit ''workflow w { meta k = '' @ [34, 92] @ lit ''u0008'' @ [34] @ lit '' }'')
     = Inr \<lparr>wn_name = lit ''w'', wn_line = 1, wn_metadata = [(lit ''k'', [8])], wn_tasks = []\<rparr>
   \<and> parse (format_source \<lparr>wn_name = lit ''w'', wn_line = 1, wn_metadata = [(lit ''k'', [8])], wn_tasks = []\<rparr>)
     = Inl (Dsl_error (Unknown_escape 98) 2 14)"
  by (rule conjI) code_simp+

text \<open>A source that waits longer than an hour between retries compiles without an error, but the
  compiled definition has no payload: \<open>as_dict\<close>, which the client calls to submit it, raises.\<close>
theorem long_retry_not_submitted:
  "\<exists>w. compile_source (lit ''workflow w { task a { run b retry attempts=2, base=2h, max=3h } }'') = Inr w
     \<and> workflow_as_dict w = Inl Base_delay_out_of_range"
proof -
  let ?c = "compile_source (lit ''workflow w { task a { run b retry attempts=2, base=2h, max=3h } }'')"
  have "(case ?c of Inl e \<Rightarrow> False | Inr w \<Rightarrow> workflow_as_dict w = Inl Base_delay_out_of_range)"
    by code_simp
  then show ?thesis by (cases ?c) auto
qed

end
