(* ===== verification/Lab_Runner.thy ===== *)
theory Lab_Runner
  imports Chaos_Query Chaos_Runs
begin

text \<open>
  The runner of the chaos lab (\<open>tools/chaos_lab/runner.py\<close>): a scenario is replayed against the
  reference model, with the self-check after every action. Two digests are parameters: the one
  behind generated ids, and \<open>fingerprint\<close>, the hash of the printed snapshot. A report keeps the
  events themselves instead of their printed lines, and no elapsed time.
\<close>

section \<open>Scenarios\<close>

record gen_workflow =
  gw_name :: pystr
  gw_tasks :: "task list"
  gw_metadata :: "(pystr, pystr) dict"

type_synonym worker_spec = "pystr \<times> int \<times> (pystr, pystr) dict"

text \<open>The notes are texts in the code; here the generator's notes are the error itself, so the type of a
  note is a parameter.\<close>

type_synonym gen_note = "action_kind \<times> chaos_error"

record 'n scenario =
  sc_seed :: int
  sc_workflow :: gen_workflow
  sc_workers :: "worker_spec list"
  sc_actions :: "action list"
  sc_notes :: "'n list"

section \<open>Reports\<close>

text \<open>What stopped a replay: an exception of the model or a violated check.\<close>

datatype failure_cause = Raised chaos_error | Violated violation

record replay_failure =
  rf_index :: int
  rf_action :: "action option"
  rf_cause :: failure_cause
  rf_snapshot :: "model_view option"

record step_record =
  sr_index :: int
  sr_action :: action
  sr_accepted :: bool
  sr_error :: "chaos_error option"
  sr_digest :: pystr
  sr_event_count :: int
  sr_active_leases :: int

record replay_report =
  rr_seed :: int
  rr_records :: "step_record list"
  rr_final_digest :: pystr
  rr_final_snapshot :: "model_view option"
  rr_events :: "event list"
  rr_failure :: "replay_failure option"

definition report_ok :: "replay_report \<Rightarrow> bool" where
  "report_ok r \<longleftrightarrow> rr_failure r = None"

definition report_accepted :: "replay_report \<Rightarrow> int" where
  "report_accepted r = int (length (filter sr_accepted (rr_records r)))"

definition report_rejected :: "replay_report \<Rightarrow> int" where
  "report_rejected r = int (length (rr_records r)) - report_accepted r"

text \<open>The class names of the model's exceptions, \<open>type(exc).__name__\<close>.\<close>

fun error_type :: "chaos_error \<Rightarrow> pystr" where
  "error_type BadValue = lit ''ValueError''"
| "error_type MissingKey = lit ''KeyError''"
| "error_type BadEncoding = lit ''UnicodeEncodeError''"
| "error_type _ = lit ''ModelError''"

definition rejection_types :: "replay_report \<Rightarrow> (pystr, int) dict" where
  "rejection_types r = sort_key fst (fold count_key
     (map (\<lambda>s. case sr_error s of None \<Rightarrow> [] | Some e \<Rightarrow> error_type e)
        (filter (\<lambda>s. \<not> sr_accepted s) (rr_records r))) [])"

section \<open>Bootstrap\<close>

fun register_all :: "(pystr \<Rightarrow> pystr) \<Rightarrow> worker_spec list \<Rightarrow> (model, chaos_error, unit) proc" where
  "register_all digest [] = ret ()"
| "register_all digest ((worker, capacity, labels) # specs) =
     chain (register_worker digest worker capacity labels (Some worker))
       (\<lambda>_. register_all digest specs)"

definition workflow_key :: "int \<Rightarrow> pystr" where
  "workflow_key seed = lit ''workflow-'' @ show_int seed"

text \<open>The workflow and the workers of a scenario, which the generator and the runner both set up.\<close>

definition set_up ::
  "(pystr \<Rightarrow> pystr) \<Rightarrow> int \<Rightarrow> gen_workflow \<Rightarrow> worker_spec list \<Rightarrow> (model, chaos_error, unit) proc" where
  "set_up digest seed w specs =
     chain (add_workflow digest (gw_name w) (gw_tasks w) (Some (workflow_key seed)) (gw_metadata w))
       (\<lambda>_. register_all digest specs)"

definition bootstrap :: "(pystr \<Rightarrow> pystr) \<Rightarrow> 'n scenario
   \<Rightarrow> failure_cause \<times> model_view option + model" where
  "bootstrap digest sc =
     (case default_model of
        Inl e \<Rightarrow> Inl (Raised e, None)
      | Inr m0 \<Rightarrow>
          (case set_up digest (sc_seed sc) (sc_workflow sc) (sc_workers sc) m0 of
             (Inl e, m) \<Rightarrow> Inl (Raised e, None)
           | (Inr _, m) \<Rightarrow>
               (case check_invariants m of
                  Some v \<Rightarrow> Inl (Violated v, Some (snapshot m))
                | None \<Rightarrow> Inr m)))"

section \<open>Replay\<close>

definition failure_at :: "nat \<Rightarrow> action \<Rightarrow> failure_cause \<Rightarrow> model \<Rightarrow> replay_failure option" where
  "failure_at i a cause m = Some \<lparr>rf_index = int i, rf_action = Some a, rf_cause = cause,
     rf_snapshot = Some (snapshot m)\<rparr>"

text \<open>One turn of the loop: the action, the check unless something failed before, the record.\<close>

definition replay_step ::
  "(pystr \<Rightarrow> pystr) \<Rightarrow> (model_view \<Rightarrow> pystr) \<Rightarrow> bool \<Rightarrow> nat \<Rightarrow> action \<Rightarrow> replay_failure option \<Rightarrow> model
   \<Rightarrow> step_record \<times> replay_failure option \<times> model" where
  "replay_step digest fingerprint strict i a failure m =
     (case apply_action digest a m of (result, m') \<Rightarrow>
        let error = (case result of Inl e \<Rightarrow> Some e | Inr _ \<Rightarrow> None);
            raised = (case error of
                None \<Rightarrow> failure
              | Some e \<Rightarrow> if is_model_error e \<and> \<not> strict then failure else failure_at i a (Raised e) m');
            failed = (if raised \<noteq> None then raised
              else case check_invariants m' of
                None \<Rightarrow> None
              | Some v \<Rightarrow> failure_at i a (Violated v) m')
        in (\<lparr>sr_index = int i, sr_action = a, sr_accepted = (error = None), sr_error = error,
             sr_digest = fingerprint (snapshot m'), sr_event_count = int (length (events m')),
             sr_active_leases = int (length (leases m'))\<rparr>, failed, m'))"

fun replay_loop ::
  "(pystr \<Rightarrow> pystr) \<Rightarrow> (model_view \<Rightarrow> pystr) \<Rightarrow> bool \<Rightarrow> bool \<Rightarrow> nat \<Rightarrow> action list \<Rightarrow> replay_failure option
   \<Rightarrow> model \<Rightarrow> step_record list \<times> replay_failure option \<times> model" where
  "replay_loop digest fingerprint strict stop i [] failure m = ([], failure, m)"
| "replay_loop digest fingerprint strict stop i (a # as) failure m =
     (case replay_step digest fingerprint strict i a failure m of (r, failed, m') \<Rightarrow>
        if failed \<noteq> None \<and> stop then ([r], failed, m')
        else case replay_loop digest fingerprint strict stop (Suc i) as failed m' of
          (rs, final, m'') \<Rightarrow> (r # rs, final, m''))"

definition replay ::
  "(pystr \<Rightarrow> pystr) \<Rightarrow> (model_view \<Rightarrow> pystr) \<Rightarrow> bool \<Rightarrow> bool \<Rightarrow> action list option \<Rightarrow> 'n scenario
   \<Rightarrow> replay_report" where
  "replay digest fingerprint strict stop given sc =
     (case bootstrap digest sc of
        Inl (cause, view) \<Rightarrow> \<lparr>rr_seed = sc_seed sc, rr_records = [], rr_final_digest = [],
          rr_final_snapshot = None, rr_events = [],
          rr_failure = Some \<lparr>rf_index = -1, rf_action = None, rf_cause = cause, rf_snapshot = view\<rparr>\<rparr>
      | Inr m0 \<Rightarrow>
          (case replay_loop digest fingerprint strict stop 0
              (case given of None \<Rightarrow> sc_actions sc | Some as \<Rightarrow> as) None m0 of
             (records, failure, m) \<Rightarrow>
               \<lparr>rr_seed = sc_seed sc, rr_records = records, rr_final_digest = fingerprint (snapshot m),
                rr_final_snapshot = Some (snapshot m), rr_events = events m, rr_failure = failure\<rparr>))"

text \<open>The determinism check compares the digests, the events and the records of two replays.\<close>

definition determinism_check ::
  "(pystr \<Rightarrow> pystr) \<Rightarrow> (model_view \<Rightarrow> pystr) \<Rightarrow> bool \<Rightarrow> 'n scenario \<Rightarrow> bool \<times> replay_report \<times> replay_report" where
  "determinism_check digest fingerprint strict sc =
     (let first = replay digest fingerprint strict True None sc;
          second = replay digest fingerprint strict True None sc
      in (rr_final_digest first = rr_final_digest second \<and> rr_events first = rr_events second
            \<and> rr_records first = rr_records second, first, second))"

section \<open>Adding a workflow leaves the workers alone\<close>

abbreviation on_workers :: "(pystr, worker) dict \<Rightarrow> (chaos_error + 'a) \<times> model \<Rightarrow> bool" where
  "on_workers W \<equiv> keeps (\<lambda>s. workers s = W) (\<lambda>_. True)"

lemma workers_transition: "workers m = W \<Longrightarrow> on_workers W (transition_task w t st m)"
  by (auto simp: transition_task_def the_task_def proc_simps keeps_def view_simps split: option.splits)

lemma workers_emit: "workers m = W \<Longrightarrow> on_workers W (emit ty a b c d m)"
  by (simp add: emit_def modify_def keeps_def view_simps)

lemma workers_set: "workers m = W \<Longrightarrow> on_workers W (modify (set_task w t f) m)"
  "workers m = W \<Longrightarrow> on_workers W (modify (set_workflow w g) m)"
  by (simp_all add: modify_def keeps_def view_simps)

lemma workers_fetch: "workers m = W \<Longrightarrow> on_workers W (fetch f e m)" "workers m = W \<Longrightarrow> on_workers W (reads g m)"
  by (simp_all add: fetch_def reads_def keeps_def split: option.split)

lemma workers_chain:
  "on_workers W (c s) \<Longrightarrow> (\<And>x s'. workers s' = W \<Longrightarrow> on_workers W (f x s')) \<Longrightarrow> on_workers W (chain c f s)"
  by (rule keeps_chain)

lemmas worker_rules = workers_transition workers_emit workers_set workers_fetch keeps_ret keeps_raise

lemma workers_recompute_task: "workers m = W \<Longrightarrow> on_workers W (recompute_task w t m)"
  unfolding recompute_task_def the_task_def dep_states_def
  by (intro keeps_chain keeps_andThen worker_rules; (simp split del: if_split)?; (split if_split)?)
     (auto intro!: keeps_chain keeps_andThen worker_rules)

lemma workers_settle: "workers m = W \<Longrightarrow> on_workers W (settle_workflow w prev m)"
  unfolding settle_workflow_def require_workflow_def Let_def
  by (intro keeps_chain keeps_andThen worker_rules; (simp split del: if_split)?; (split if_split)?)
     (auto intro!: keeps_chain keeps_andThen worker_rules)

lemma workers_recompute: "workers m = W \<Longrightarrow> on_workers W (recompute w m)"
  unfolding recompute_def require_workflow_def
  by (intro keeps_chain worker_rules)
    (auto intro!: keeps_andThen keeps_for_each workers_recompute_task workers_settle worker_rules)

lemma workers_add_workflow: "on_workers (workers m) (add_workflow digest name ts given meta m)"
proof -
  have id: "on_workers (workers m) (id_or_next digest pre given s)" if "workers s = workers m" for pre s
    using id_or_next_run [of digest pre given s] that by (auto simp: keeps_def)
  have lifted: "on_workers (workers m) (lift_result r s)" if "workers s = workers m" for r s
    using that by (auto simp: lift_result_def intro: keeps_ret keeps_raise split: sum.split)
  have stored: "on_workers (workers m) (modify (\<lambda>m. m\<lparr>workflows := f m\<rparr>) s)" if "workers s = workers m" for f s
    using that by (simp add: modify_def keeps_def)
  show ?thesis
    unfolding add_workflow_def Let_def require_workflow_def
    by (auto intro!: workers_chain keeps_andThen id lifted stored workers_recompute worker_rules)
qed

section \<open>Setting up is a sequence of requests\<close>

lemma step_of_perform:
  "admissible digest req m \<Longrightarrow> chaos_step digest m (snd (perform digest req m))"
  by (rule chaos_step.request [where e = "fst (perform digest req m)"]) simp_all

lemma register_all_steps:
  "register_all digest specs m = (Inr x, s) \<Longrightarrow> (chaos_step digest)\<^sup>*\<^sup>* m s"
proof (induction specs arbitrary: m)
  case Nil
  then show ?case by (simp add: ret_def)
next
  case (Cons spec specs)
  obtain worker cap labels where spec: "spec = (worker, cap, labels)" by (rule prod_cases3)
  obtain wk m1 where one: "register_worker digest worker cap labels (Some worker) m = (Inr wk, m1)"
    and rest: "register_all digest specs m1 = (Inr x, s)"
    using Cons.prems by (auto simp: spec chain_def split: prod.splits sum.splits)
  have "admissible digest (Register worker cap labels (Some worker)) m" by simp
  from step_of_perform [OF this] have "chaos_step digest m m1" by (simp add: one outcome_def)
  moreover have "(chaos_step digest)\<^sup>*\<^sup>* m1 s"
    by (rule Cons.IH [OF rest])
  ultimately show ?case by (rule converse_rtranclp_into_rtranclp)
qed

lemma default_model_initial: "default_model = Inr m \<Longrightarrow> initial m \<and> workers m = [] \<and> leases m = [] \<and> 0 \<le> output_limit_bytes m"
  unfolding initial_def default_model_def
  by (intro conjI exI [of _ 20000] exI [of _ 45000] exI [of _ "32 * 1024 * 1024"] exI [of _ "64 * 1024"])
    (auto simp: new_model_def)

lemma set_up_reachable:
  assumes "default_model = Inr m0" "set_up digest seed w specs m0 = (Inr x, m)"
  shows "reachable digest m"
proof -
  obtain flow m1 where add: "add_workflow digest (gw_name w) (gw_tasks w) (Some (workflow_key seed)) (gw_metadata w) m0
      = (Inr flow, m1)" and rest: "register_all digest specs m1 = (Inr x, m)"
    using assms(2) by (auto simp: set_up_def chain_def split: prod.splits sum.splits)
  have "admissible digest (Add (gw_name w) (gw_tasks w) (Some (workflow_key seed)) (gw_metadata w)) m0" by simp
  from step_of_perform [OF this] have "chaos_step digest m0 m1" by (simp add: add outcome_def)
  moreover have "(chaos_step digest)\<^sup>*\<^sup>* m1 m" by (rule register_all_steps [OF rest])
  ultimately show ?thesis
    using default_model_initial [OF assms(1)] unfolding reachable_def
    by (meson converse_rtranclp_into_rtranclp)
qed

lemma bootstrap_Inr:
  assumes "bootstrap digest sc = Inr m"
  obtains m0 where "default_model = Inr m0"
    "set_up digest (sc_seed sc) (sc_workflow sc) (sc_workers sc) m0 = (Inr (), m)" "check_invariants m = None"
proof (cases default_model)
  case (Inl e)
  then show ?thesis using assms unfolding bootstrap_def Inl by simp
next
  case (Inr m0)
  obtain r s where "set_up digest (sc_seed sc) (sc_workflow sc) (sc_workers sc) m0 = (r, s)" by (rule prod.exhaust)
  then show ?thesis
    using assms that [OF Inr] unfolding bootstrap_def Inr
    by (cases r; cases "check_invariants s") simp_all
qed

lemma bootstrap_reachable: "bootstrap digest sc = Inr m \<Longrightarrow> reachable digest m"
  by (erule bootstrap_Inr) (rule set_up_reachable)

section \<open>Cloning\<close>

lemma clone_deps: "task_clone t = Inr t \<Longrightarrow> task_clone (t\<lparr>t_depends_on := ds\<rparr>) = Inr (t\<lparr>t_depends_on := ds\<rparr>)"
  by (cases t) (auto simp: task_clone_def task_post_init_def Let_def split: if_splits)

text \<open>Tasks as their constructor leaves them; cloning changes nothing.\<close>

definition constructed :: "task list \<Rightarrow> bool" where
  "constructed ts \<longleftrightarrow> list_all (\<lambda>t. task_clone t = Inr t) ts"

lemma clone_constructed: "constructed ts \<Longrightarrow> clone_all ts = Inr ts"
  by (induction ts) (auto simp: constructed_def)

end
