(* ===== verification/Lab_Errors.thy ===== *)
theory Lab_Errors
  imports Lab_Runner
begin

text \<open>
  Which exceptions an action can raise: never the \<open>ValueError\<close> of a constructor, and the
  \<open>UnicodeEncodeError\<close> only for a log line with a lone surrogate.
\<close>

definition plain :: "chaos_error \<Rightarrow> bool" where
  "plain e \<longleftrightarrow> e \<noteq> BadValue \<and> e \<noteq> BadEncoding"

text \<open>Only plain exceptions, and those of a set \<open>X\<close>.\<close>

definition mild :: "chaos_error set \<Rightarrow> (model, chaos_error, 'a) proc \<Rightarrow> bool" where
  "mild X p \<longleftrightarrow> (\<forall>m e s. p m = (Inl e, s) \<longrightarrow> plain e \<or> e \<in> X)"

lemma plain_simps [simp, intro!]:
  "plain (Rejected c)" "plain (UnknownWorker k)" "plain (UnknownWorkflow k)" "plain LeaseMissingTask"
  "plain (InvalidTransition a b w t)" "plain CannotExpireLive" "plain TimeBackwards" "plain MissingKey"
  "plain BadCapacity" "plain WorkerExists"
  by (simp_all add: plain_def)

lemma mild_basic [intro!]:
  "mild X (ret x)" "plain e \<Longrightarrow> mild X (raise e)" "mild X (reads f)" "mild X (modify g)"
  "plain e \<Longrightarrow> mild X (fetch h e)"
  by (auto simp: mild_def ret_def raise_def reads_def modify_def fetch_def split: option.splits)

lemma mild_raise_in: "e \<in> X \<Longrightarrow> mild X (raise e)"
  by (auto simp: mild_def raise_def)

lemma mild_chain [intro!]: "mild X c \<Longrightarrow> (\<And>x. mild X (f x)) \<Longrightarrow> mild X (chain c f)"
  by (auto simp: mild_def chain_def split: prod.splits sum.splits)

lemma mild_andThen [intro!]: "mild X c \<Longrightarrow> mild X d \<Longrightarrow> mild X (andThen c d)"
  unfolding andThen_def by (rule mild_chain)

lemma mild_if [intro!]: "mild X c \<Longrightarrow> mild X d \<Longrightarrow> mild X (if b then c else d)"
  by simp

lemma mild_option [intro!]: "mild X c \<Longrightarrow> (\<And>x. mild X (f x)) \<Longrightarrow> mild X (case y of None \<Rightarrow> c | Some x \<Rightarrow> f x)"
  by (simp split: option.split)

lemma mild_prod [intro!]: "(\<And>x y. mild X (f x y)) \<Longrightarrow> mild X (case z of (x, y) \<Rightarrow> f x y)"
  by (simp split: prod.split)

lemma mild_list [intro!]: "mild X c \<Longrightarrow> (\<And>x xs. mild X (f x xs)) \<Longrightarrow> mild X (case ys of [] \<Rightarrow> c | x # xs \<Rightarrow> f x xs)"
  by (simp split: list.split)

lemma mild_for_each [intro!]: "(\<And>x. mild X (f x)) \<Longrightarrow> mild X (for_each xs f)"
  by (induction xs) auto

lemma mild_reject [intro!]: "mild X (reject c)"
  unfolding reject_def by auto

lemma mild_emit [intro!]: "mild X (emit ty a b c d)"
  unfolding emit_def by auto

lemma mild_lookups [intro!]:
  "mild X (require_workflow w)" "mild X (require_worker k)" "mild X (the_task w t)" "mild X (next_id digest pre)"
  "mild X (require_active_lease tok)" "mild X (dep_states w ds)" "mild X (id_or_next digest pre given)"
proof -
  show "mild X (require_active_lease tok)"
    using mild_reject unfolding mild_def require_active_lease_def by (auto split: option.splits if_splits)
  show gen: "mild X (next_id digest pre)" for digest pre unfolding next_id_def by auto
  show "mild X (id_or_next digest pre given)" unfolding id_or_next_def using gen by (auto split: option.split)
qed (auto simp: require_workflow_def require_worker_def the_task_def dep_states_def)

lemma mild_leases [intro!]:
  shows "mild X (resolve_lease l)" "mild X (transition_task w t st)" "mild X (close_lease l)" "mild X (expire_lease tok)"
    "mild X (ensure_live_lease l)"
proof -
  show r: "mild X (resolve_lease l)" for l
    unfolding resolve_lease_def by (auto split: option.split)
  show tr: "mild X (transition_task w t st)" for w t st unfolding transition_task_def by auto
  show c: "mild X (close_lease l)" for l
    unfolding close_lease_def by (intro mild_if mild_chain mild_prod mild_andThen r) auto
  show e: "mild X (expire_lease tok)" for tok
    unfolding expire_lease_def
    by (intro mild_if mild_chain mild_prod mild_andThen mild_option r c tr) auto
  show "mild X (ensure_live_lease l)"
    unfolding ensure_live_lease_def by (intro mild_if mild_chain mild_andThen e) auto
qed

lemma mild_recompute [intro!]: "mild X (recompute_task w t)" "mild X (settle_workflow w prev)" "mild X (recompute w)" "mild X sweep"
proof -
  show r: "mild X (recompute_task w t)" for w t
    unfolding recompute_task_def by (intro mild_if mild_chain mild_andThen) auto
  show s: "mild X (settle_workflow w prev)" for w prev
    unfolding settle_workflow_def Let_def by (intro mild_if mild_chain mild_andThen) auto
  show c: "mild X (recompute w)" for w
    unfolding recompute_def by (intro mild_if mild_chain mild_andThen mild_for_each r s) auto
  show "mild X sweep"
    unfolding sweep_def by (intro mild_chain mild_andThen mild_for_each c mild_leases) auto
qed

lemma mild_collect [intro!]: "mild X (collect_candidates labels ws acc)"
  by (induction ws arbitrary: acc) (auto simp del: if_split intro!: mild_if mild_chain)

lemma mild_operations:
  "mild X (register_worker digest name cap labels given)" "mild X (heartbeat k)" "mild X (drop_worker k)"
  "mild X (lease_next digest k)" "mild X (start tok)" "mild X (renew tok)" "mild X (complete tok code err)"
  "mild X (cancel_workflow w)" "mild X (advance d sweeping)" "mild X (stale_complete tok)" "mild X (stale_renew tok)"
  "mild X (duplicate_complete tok)"
proof -
  show "mild X (register_worker digest name cap labels given)"
    unfolding register_worker_def by (intro mild_if mild_chain mild_andThen) auto
  show "mild X (heartbeat k)" unfolding heartbeat_def by (intro mild_if mild_chain mild_andThen) auto
  show "mild X (drop_worker k)" unfolding drop_worker_def by (intro mild_if mild_chain mild_andThen) auto
  have g: "mild X (grant_lease digest k w t)" for k w t
    unfolding grant_lease_def by (intro mild_if mild_chain mild_andThen mild_leases) auto
  show "mild X (lease_next digest k)"
    unfolding lease_next_def Let_def by (intro mild_if mild_chain mild_andThen mild_list mild_prod g) auto
  show "mild X (start tok)"
    unfolding start_def Let_def by (intro mild_if mild_chain mild_andThen mild_prod mild_leases) auto
  show "mild X (renew tok)"
    unfolding renew_def by (intro mild_if mild_chain mild_andThen mild_prod mild_leases) auto
  have o: "mild X (report_outcome l x code err)" for l x code err
    unfolding report_outcome_def Let_def by (intro mild_if mild_chain mild_andThen mild_leases) auto
  show "mild X (complete tok code err)"
    unfolding complete_def Let_def
    by (intro mild_if mild_chain mild_andThen mild_prod mild_leases o mild_recompute) auto
  have "mild X (cancel_task w t)" for t
    unfolding cancel_task_def by (intro mild_if mild_chain mild_andThen mild_option mild_leases) auto
  then show "mild X (cancel_workflow w)"
    unfolding cancel_workflow_def by (intro mild_if mild_chain mild_andThen mild_for_each) auto
  show "mild X (advance d sweeping)" unfolding advance_def by (intro mild_if mild_andThen) auto
qed (use mild_reject in \<open>auto simp: mild_def stale_complete_def stale_renew_def duplicate_complete_def split: if_splits\<close>)

lemma mild_append_log: "mild (if encodable txt then {} else {BadEncoding}) (append_log tok txt stream)"
proof (cases "utf8_len txt")
  case None
  then show ?thesis
    unfolding append_log_def Let_def encodable_def
    by (simp only: option.case)
      (intro mild_chain mild_andThen mild_prod mild_leases mild_if mild_raise_in; auto)
next
  case (Some n)
  then show ?thesis
    unfolding append_log_def Let_def encodable_def
    by (simp only: option.case) (intro mild_chain mild_andThen mild_prod mild_leases mild_if; auto)
qed

lemma mild_reply [intro!]: "mild X c \<Longrightarrow> mild X (reply_with f c)"
  unfolding reply_with_def by auto

text \<open>An action whose log line cannot be encoded.\<close>

definition unencodable :: "action \<Rightarrow> bool" where
  "unencodable a \<longleftrightarrow> ac_kind a = Log \<and> \<not> encodable (ac_text a)"

lemma mild_apply: "mild (if unencodable a then {BadEncoding} else {}) (apply_action digest a)"
proof (cases "ac_kind a")
  case Log
  have e: "encodable (lit ''log'' @ [10])" "encodable []" unfolding encodable_def by code_simp+
  have "encodable (str_or (ac_text a) (lit ''log'' @ [10])) = encodable (ac_text a)"
    using e by (simp add: str_or_def)
  then show ?thesis
    using Log mild_append_log [of "str_or (ac_text a) (lit ''log'' @ [10])" "ac_token a" "lit ''stdout''"]
    by (simp add: apply_action_def mild_reply unencodable_def split: if_splits)
qed (simp_all add: apply_action_def complete_success_def complete_failure_def mild_reply mild_operations
  mild_recompute(4))

section \<open>Replays\<close>

text \<open>The actions of a replay one after the other, whatever they answer.\<close>

fun play :: "(pystr \<Rightarrow> pystr) \<Rightarrow> action list \<Rightarrow> model \<Rightarrow> model" where
  "play digest [] m = m"
| "play digest (a # as) m = play digest as (snd (apply_action digest a m))"

text \<open>Every new lease token is one that was not given before.\<close>

fun tokens_fresh :: "(pystr \<Rightarrow> pystr) \<Rightarrow> action list \<Rightarrow> model \<Rightarrow> bool" where
  "tokens_fresh digest [] m = True"
| "tokens_fresh digest (a # as) m =
     (admissible digest (Apply a) m \<and> tokens_fresh digest as (snd (apply_action digest a m)))"

lemma apply_reachable:
  assumes "reachable digest m" "admissible digest (Apply a) m" "apply_action digest a m = (r, s)"
  shows "reachable digest s" "output_limit_bytes s = output_limit_bytes m"
    "r = Inl e \<Longrightarrow> is_model_error e \<or> e = BadEncoding \<and> unencodable a"
proof -
  have p: "perform digest (Apply a) m = outcome (r, s)" using assms(3) by simp
  have snd: "snd (outcome (r, s)) = s" by (cases r) (simp_all add: outcome_def)
  have step: "chaos_step digest m s" using step_of_perform [OF assms(2)] by (simp only: p snd)
  then show "reachable digest s"
    using assms(1) unfolding reachable_def by (meson rtranclp.rtrancl_into_rtrancl)
  have "grows m s" using steps_grow [OF r_into_rtranclp [of "chaos_step digest", OF step]] reachable_inv [OF assms(1)] .
  then show "output_limit_bytes s = output_limit_bytes m" using growsD(7) by (fastforce simp: config_def)
  show "is_model_error e \<or> e = BadEncoding \<and> unencodable a" if e: "r = Inl e"
  proof -
    have "perform digest (Apply a) m = (Some e, s)" using assms(3) e by (simp add: outcome_def)
    from perform_good [OF reachable_inv [OF assms(1)] assms(2) this] have "\<not> fault e" by simp
    moreover have "plain e \<or> e = BadEncoding \<and> unencodable a"
      using mild_apply [of a digest] assms(3) e unfolding mild_def by (auto split: if_splits)
    ultimately show ?thesis by (auto simp: is_model_error_def plain_def fault_def)
  qed
qed

text \<open>What a lenient replay can stop for after action \<open>a\<close>, in the state \<open>s\<close>.\<close>

definition stopping :: "action \<Rightarrow> model \<Rightarrow> failure_cause \<Rightarrow> bool" where
  "stopping a s cause \<longleftrightarrow>
     cause = Raised BadEncoding \<and> unencodable a
     \<or> cause = Violated LEASE_WORKER_INDEX \<and> \<not> indexed s
     \<or> cause = Violated ATTEMPT_BUDGET \<and> indexed s \<and> over_budget s"

lemma replay_step_lenient:
  assumes "reachable digest m" "admissible digest (Apply a) m" "0 \<le> output_limit_bytes m"
    and "replay_step digest fingerprint False i a None m = (r, failed, s)"
  shows "s = snd (apply_action digest a m)" "reachable digest s" "0 \<le> output_limit_bytes s"
    "failed = None \<and> check_invariants s = None
     \<or> (\<exists>cause. failed = failure_at i a cause s \<and> stopping a s cause)"
proof -
  obtain x m' where x: "apply_action digest a m = (x, m')" by (rule prod.exhaust)
  note facts = apply_reachable [OF assms(1,2) x]
  have s: "s = m'" using assms(4) x by (auto simp: replay_step_def Let_def)
  then show "s = snd (apply_action digest a m)" "reachable digest s" "0 \<le> output_limit_bytes s"
    using x facts(1,2) assms(3) by simp_all
  have check: "check_invariants s = (if \<not> indexed s then Some LEASE_WORKER_INDEX
      else if over_budget s then Some ATTEMPT_BUDGET else None)"
    using check_invariants_verdict [OF reachable_inv [OF facts(1)]] facts(2) assms(3) s
    by (simp add: negative_limit_def)
  show "failed = None \<and> check_invariants s = None
     \<or> (\<exists>cause. failed = failure_at i a cause s \<and> stopping a s cause)"
  proof (cases "\<exists>e. x = Inl e \<and> \<not> is_model_error e")
    case True
    then obtain e where e: "x = Inl e" "\<not> is_model_error e" by blast
    then have "e = BadEncoding" "unencodable a" using facts(3) by blast+
    moreover have "failed = failure_at i a (Raised e) s"
      using assms(4) x e by (auto simp: replay_step_def Let_def failure_at_def)
    ultimately show ?thesis by (auto simp: stopping_def)
  next
    case False
    then have "failed = (case check_invariants s of None \<Rightarrow> None | Some v \<Rightarrow> failure_at i a (Violated v) s)"
      using assms(4) x by (auto simp: replay_step_def Let_def split: sum.splits)
    then show ?thesis unfolding check stopping_def by auto
  qed
qed

text \<open>The verdict of a replay that stops at the first failure.\<close>

definition verdict ::
  "(pystr \<Rightarrow> pystr) \<Rightarrow> nat \<Rightarrow> action list \<Rightarrow> model \<Rightarrow> step_record list \<Rightarrow> replay_failure option \<Rightarrow> model \<Rightarrow> bool" where
  "verdict digest i as m records failure s \<longleftrightarrow>
     length records \<le> length as \<and> s = play digest (take (length records) as) m
     \<and> (\<forall>j. j + 1 < length records \<or> j < length records \<and> failure = None \<longrightarrow>
          check_invariants (play digest (take (j + 1) as) m) = None)
     \<and> (failure = None \<and> length records = length as
        \<or> records \<noteq> [] \<and> (\<exists>cause. stopping (as ! (length records - 1)) s cause
            \<and> failure = failure_at (i + length records - 1) (as ! (length records - 1)) cause s))"

lemma replay_loop_verdict:
  "reachable digest m \<Longrightarrow> tokens_fresh digest as m \<Longrightarrow> 0 \<le> output_limit_bytes m \<Longrightarrow>
     replay_loop digest fingerprint False True i as None m = (records, failure, s) \<Longrightarrow>
     verdict digest i as m records failure s"
proof (induction as arbitrary: i m records)
  case Nil
  then show ?case by (simp add: verdict_def)
next
  case (Cons a as)
  obtain r failed m1 where step: "replay_step digest fingerprint False i a None m = (r, failed, m1)"
    by (rule prod_cases3)
  have adm: "admissible digest (Apply a) m" "tokens_fresh digest as (snd (apply_action digest a m))"
    using Cons.prems(2) by simp_all
  note s1 = replay_step_lenient [OF Cons.prems(1) adm(1) Cons.prems(3) step]
  show ?case
  proof (cases "failed = None")
    case False
    then obtain cause where cause: "failed = failure_at i a cause m1" "stopping a m1 cause"
      using s1(4) by blast
    then have "records = [r]" "failure = failure_at i a cause m1" "s = m1"
      using Cons.prems(4) step False by auto
    then show ?thesis using s1(1) cause by (auto simp: verdict_def failure_at_def)
  next
    case True
    then have passed: "check_invariants m1 = None" using s1(4) by (auto simp: failure_at_def)
    obtain rs where rest: "replay_loop digest fingerprint False True (Suc i) as None m1 = (rs, failure, s)"
      "records = r # rs"
      using Cons.prems(4) step True by (auto split: prod.splits)
    have v: "verdict digest (Suc i) as m1 rs failure s"
      by (rule Cons.IH [OF s1(2) _ s1(3) rest(1)]) (use adm(2) s1(1) in simp)
    have "check_invariants (play digest (take (j + 1) (a # as)) m) = None"
      if j: "j + 1 < length records \<or> j < length records \<and> failure = None" for j
    proof (cases j)
      case 0
      with passed s1(1) show ?thesis by simp
    next
      case (Suc n)
      then have "n + 1 < length rs \<or> n < length rs \<and> failure = None" using j rest(2) by simp
      then have "check_invariants (play digest (take (n + 1) as) m1) = None"
        using v unfolding verdict_def by blast
      then show ?thesis using s1(1) Suc by simp
    qed
    moreover have "rs \<noteq> [] \<Longrightarrow> (a # as) ! (length records - 1) = as ! (length rs - 1)"
      using rest(2) by (cases rs) simp_all
    ultimately show ?thesis
      using v rest(2) s1(1) unfolding verdict_def by (cases "rs = []") auto
  qed
qed

end
