(* ===== verification/Lab_Generator.thy ===== *)
theory Lab_Generator
  imports Complex_Main Lab_Errors
begin

text \<open>
  The scenario generator of the chaos lab (\<open>tools/chaos_lab/generator.py\<close>). Python's \<open>random.Random\<close>
  is a parameter: a state and the four methods the generator calls, with the laws its documentation
  gives. A float is the rational number it stands for, so the comparison of a draw with a
  probability is exact; the rounding of the sums in the weighted choice is not modelled.
\<close>

section \<open>The source of randomness\<close>

text \<open>\<open>random\<close>, \<open>randint\<close>, the index that \<open>choice\<close> takes, the indices that \<open>sample\<close> takes.\<close>

record 'r rng =
  rng_random :: "'r \<Rightarrow> rat \<times> 'r"
  rng_randint :: "int \<Rightarrow> int \<Rightarrow> 'r \<Rightarrow> int \<times> 'r"
  rng_choice :: "nat \<Rightarrow> 'r \<Rightarrow> nat \<times> 'r"
  rng_sample :: "nat \<Rightarrow> nat \<Rightarrow> 'r \<Rightarrow> nat list \<times> 'r"

definition rng_ok :: "'r rng \<Rightarrow> bool" where
  "rng_ok g \<longleftrightarrow>
     (\<forall>s. 0 \<le> fst (rng_random g s) \<and> fst (rng_random g s) < 1)
     \<and> (\<forall>a b s. a \<le> b \<longrightarrow> a \<le> fst (rng_randint g a b s) \<and> fst (rng_randint g a b s) \<le> b)
     \<and> (\<forall>n s. 0 < n \<longrightarrow> fst (rng_choice g n s) < n)
     \<and> (\<forall>n k s. k \<le> n \<longrightarrow> length (fst (rng_sample g n k s)) = k
          \<and> distinct (fst (rng_sample g n k s)) \<and> (\<forall>i \<in> set (fst (rng_sample g n k s)). i < n))"

text \<open>What can stop the generation: an empty range, an exception of the model, a violated check.\<close>

datatype gen_error = Empty_range | Bad_config | Model_error chaos_error | Check_failed violation

type_synonym ('r, 'a) gen = "('r, gen_error, 'a) proc"

definition draw :: "'r rng \<Rightarrow> ('r, rat) gen" where
  "draw g = (\<lambda>s. case rng_random g s of (x, s') \<Rightarrow> (Inr x, s'))"

definition chance :: "'r rng \<Rightarrow> rat \<Rightarrow> ('r, bool) gen" where
  "chance g p = chain (draw g) (\<lambda>x. ret (x < p))"

definition randint :: "'r rng \<Rightarrow> int \<Rightarrow> int \<Rightarrow> ('r, int) gen" where
  "randint g a b = (\<lambda>s. if b < a then (Inl Empty_range, s)
     else case rng_randint g a b s of (x, s') \<Rightarrow> (Inr x, s'))"

definition pick_one :: "'r rng \<Rightarrow> 'a list \<Rightarrow> ('r, 'a) gen" where
  "pick_one g xs = (\<lambda>s. if xs = [] then (Inl Empty_range, s)
     else case rng_choice g (length xs) s of (i, s') \<Rightarrow> (Inr (xs ! i), s'))"

definition sample :: "'r rng \<Rightarrow> 'a list \<Rightarrow> int \<Rightarrow> ('r, 'a list) gen" where
  "sample g xs k = (\<lambda>s. if k < 0 \<or> int (length xs) < k then (Inl Empty_range, s)
     else case rng_sample g (length xs) (nat k) s of (is, s') \<Rightarrow> (Inr (map ((!) xs) is), s'))"

definition from_result :: "chaos_error + 'a \<Rightarrow> ('r, 'a) gen" where
  "from_result r = (case r of Inl e \<Rightarrow> raise (Model_error e) | Inr x \<Rightarrow> ret x)"

text \<open>A list comprehension whose elements draw.\<close>

fun gen_list :: "('a \<Rightarrow> ('r, 'b) gen) \<Rightarrow> 'a list \<Rightarrow> ('r, 'b list) gen" where
  "gen_list f [] = ret []"
| "gen_list f (x # xs) = chain (f x) (\<lambda>y. chain (gen_list f xs) (\<lambda>ys. ret (y # ys)))"

section \<open>Configuration\<close>

record gen_config =
  gc_min_tasks :: int
  gc_max_tasks :: int
  gc_max_dependencies :: int
  gc_max_workers :: int
  gc_max_capacity :: int
  gc_label_probability :: rat
  gc_retry_probability :: rat
  gc_failure_probability :: rat
  gc_timeout_probability :: rat
  gc_stale_operation_probability :: rat
  gc_cancel_probability :: rat
  gc_worker_drop_probability :: rat
  gc_log_probability :: rat
  gc_heartbeat_probability :: rat
  gc_renew_probability :: rat
  gc_max_time_step_ms :: int

definition default_config :: gen_config where
  "default_config = \<lparr>gc_min_tasks = 3, gc_max_tasks = 24, gc_max_dependencies = 4, gc_max_workers = 6,
     gc_max_capacity = 4, gc_label_probability = 22/100, gc_retry_probability = 35/100,
     gc_failure_probability = 18/100, gc_timeout_probability = 12/100,
     gc_stale_operation_probability = 8/100, gc_cancel_probability = 3/100,
     gc_worker_drop_probability = 4/100, gc_log_probability = 25/100,
     gc_heartbeat_probability = 15/100, gc_renew_probability = 20/100, gc_max_time_step_ms = 8000\<rparr>"

text \<open>\<open>__post_init__\<close>; every failed test is a \<open>ValueError\<close>.\<close>

definition config_accepted :: "gen_config \<Rightarrow> bool" where
  "config_accepted c \<longleftrightarrow>
     1 \<le> gc_min_tasks c \<and> gc_min_tasks c \<le> gc_max_tasks c \<and> 0 \<le> gc_max_dependencies c
     \<and> 1 \<le> gc_max_workers c \<and> 1 \<le> gc_max_capacity c
     \<and> list_all (\<lambda>p. 0 \<le> p \<and> p \<le> 1) [gc_label_probability c, gc_retry_probability c,
          gc_failure_probability c, gc_timeout_probability c, gc_stale_operation_probability c,
          gc_cancel_probability c, gc_worker_drop_probability c, gc_log_probability c,
          gc_heartbeat_probability c, gc_renew_probability c]
     \<and> 1 \<le> gc_max_time_step_ms c"

section \<open>Workflows\<close>

definition pad2 :: "nat \<Rightarrow> pystr" where
  "pad2 n = (let s = show_nat n in replicate (2 - length s) 48 @ s)"

definition label_pool :: "(pystr \<times> pystr) list" where
  "label_pool = map (\<lambda>(k, v). (lit k, lit v)) [(''os'', ''linux''), (''os'', ''windows''),
     (''arch'', ''x86_64''), (''arch'', ''arm64''), (''tier'', ''cpu''), (''tier'', ''fast'')]"

definition task_labels :: "'r rng \<Rightarrow> gen_config \<Rightarrow> ('r, (pystr, pystr) dict) gen" where
  "task_labels g c =
     chain (chance g (gc_label_probability c)) (\<lambda>labelled.
       if \<not> labelled then ret []
       else chain (pick_one g label_pool) (\<lambda>(key, v).
         chain (chance g (25/100)) (\<lambda>second.
           if \<not> second then ret (dput key v [])
           else chain (pick_one g label_pool) (\<lambda>(other_key, other).
             ret (if other_key \<noteq> key then dput other_key other (dput key v []) else dput key v [])))))"

definition gen_retry_policy :: "'r rng \<Rightarrow> gen_config \<Rightarrow> ('r, retry_policy) gen" where
  "gen_retry_policy g c =
     chain (chance g (gc_retry_probability c)) (\<lambda>retried.
       if \<not> retried then ret default_retry
       else chain (randint g 2 5) (\<lambda>attempts.
         chain (pick_one g [50, 100, 250, 500, 1000]) (\<lambda>base.
         chain (pick_one g [500, 1000, 2000, 5000, 10000]) (\<lambda>limit.
         ret \<lparr>max_attempts = attempts, base_delay_ms = base, max_delay_ms = max base limit\<rparr>))))"

text \<open>One turn of the loop of \<open>workflow\<close>, for the id at \<open>index\<close>; the earlier ids are candidates.\<close>

definition dependency_count :: "'r rng \<Rightarrow> gen_config \<Rightarrow> pystr list \<Rightarrow> ('r, int) gen" where
  "dependency_count g c candidates =
     (if candidates = [] then ret 0
      else chain (chance g (78/100)) (\<lambda>connected.
        if connected
        then randint g 1 (min (gc_max_dependencies c) (int (length candidates)))
        else ret 0))"

definition gen_task :: "'r rng \<Rightarrow> gen_config \<Rightarrow> pystr list \<Rightarrow> nat \<Rightarrow> ('r, task) gen" where
  "gen_task g c ids index =
     (let candidates = take index ids in
      chain (dependency_count g c candidates) (\<lambda>count.
      chain (sample g candidates count) (\<lambda>picked.
      chain (task_labels g c) (\<lambda>labels.
      chain (gen_retry_policy g c) (\<lambda>retry.
      chain (chance g (gc_timeout_probability c)) (\<lambda>timed.
      chain (if timed then randint g 1 120 else ret 0) (\<lambda>seconds.
      from_result (new_task (ids ! index) (sort picked) labels retry (seconds * 1000)))))))))"

text \<open>At least one dependency when possible.\<close>

definition connect :: "task list \<Rightarrow> task list" where
  "connect ts =
     (if 1 < length ts \<and> list_all (\<lambda>t. t_depends_on t = []) ts
      then ts[length ts - 1 := (ts ! (length ts - 1))\<lparr>t_depends_on := [t_id (hd ts)]\<rparr>]
      else ts)"

definition task_ids :: "nat \<Rightarrow> pystr list" where
  "task_ids n = map (\<lambda>i. lit ''task-'' @ pad2 i) [0..<n]"

definition gen_workflow_of ::
  "'r rng \<Rightarrow> gen_config \<Rightarrow> int \<Rightarrow> pystr option \<Rightarrow> ('r, gen_workflow) gen" where
  "gen_workflow_of g c seed given =
     chain (randint g (gc_min_tasks c) (gc_max_tasks c)) (\<lambda>count.
       let ids = task_ids (nat count) in
       chain (gen_list (gen_task g c ids) [0..<nat count]) (\<lambda>tasks.
       chain (from_result (clone_all (connect tasks))) (\<lambda>clones.
       ret \<lparr>gw_name = (case given of None \<Rightarrow> lit ''chaos-'' @ show_int seed
                        | Some s \<Rightarrow> if s = [] then lit ''chaos-'' @ show_int seed else s),
            gw_tasks = clones,
            gw_metadata = [(lit ''generator'', lit ''helixgrid-chaos''), (lit ''seed'', show_int seed)]\<rparr>)))"

section \<open>Workers\<close>

definition add_required ::
  "pystr \<times> pystr \<Rightarrow> (pystr, pystr list) dict \<Rightarrow> (pystr, pystr list) dict" where
  "add_required e d =
     dput (fst e) (List.insert (snd e) (case dget d (fst e) of None \<Rightarrow> [] | Some vs \<Rightarrow> vs)) d"

definition required_labels :: "task list \<Rightarrow> (pystr, pystr list) dict" where
  "required_labels ts = fold (\<lambda>t. fold add_required (t_labels t)) ts []"

definition worker_label ::
  "'r rng \<Rightarrow> (pystr, pystr list) dict \<Rightarrow> pystr \<Rightarrow> ('r, (pystr \<times> pystr) list) gen" where
  "worker_label g required key =
     (case dget required key of None \<Rightarrow> ret [] | Some vs \<Rightarrow>
        if vs = [] then ret []
        else chain (chance g (72/100)) (\<lambda>able.
          if able then chain (pick_one g (sort vs)) (\<lambda>v. ret [(key, v)]) else ret []))"

definition random_worker ::
  "'r rng \<Rightarrow> gen_config \<Rightarrow> (pystr, pystr list) dict \<Rightarrow> nat \<Rightarrow> ('r, worker_spec) gen" where
  "random_worker g c required index =
     chain (gen_list (worker_label g required) (sort (dkeys required))) (\<lambda>labels.
     chain (randint g 1 (gc_max_capacity c)) (\<lambda>capacity.
     ret (lit ''worker-'' @ pad2 index, capacity, concat labels)))"

text \<open>Exact-match workers for the label sets that no worker satisfies.\<close>

definition place :: "task \<Rightarrow> worker_spec list \<Rightarrow> worker_spec list" where
  "place t specs =
     (if list_ex (\<lambda>(i, n, labels). labels_match labels (t_labels t)) specs then specs
      else specs @ [(lit ''worker-placement-'' @ pad2 (length specs), 1, t_labels t)])"

definition gen_workers :: "'r rng \<Rightarrow> gen_config \<Rightarrow> gen_workflow \<Rightarrow> ('r, worker_spec list) gen" where
  "gen_workers g c w =
     chain (randint g 1 (gc_max_workers c)) (\<lambda>count.
     chain (gen_list (random_worker g c (required_labels (gw_tasks w))) [0..<nat count]) (\<lambda>specs.
     ret (fold place (gw_tasks w) specs)))"

section \<open>Actions\<close>

definition bare_action :: "action_kind \<Rightarrow> action" where
  "bare_action k = \<lparr>ac_kind = k, ac_workflow_id = [], ac_task_id = [], ac_worker_id = [], ac_token = [],
     ac_amount = 0, ac_text = []\<rparr>"

definition completion_action :: "'r rng \<Rightarrow> gen_config \<Rightarrow> pystr \<Rightarrow> ('r, action) gen" where
  "completion_action g c tok =
     chain (chance g (gc_failure_probability c)) (\<lambda>fails.
       if fails
       then chain (pick_one g [1, 2, 3, 125, 137]) (\<lambda>code.
         chain (pick_one g (map lit [''simulated process failure'', ''simulated dependency outage'',
             ''simulated worker exception'', ''simulated non-zero exit''])) (\<lambda>message.
         ret ((bare_action CompleteFailure)\<lparr>ac_token := tok, ac_amount := code, ac_text := message\<rparr>)))
       else ret ((bare_action CompleteSuccess)\<lparr>ac_token := tok\<rparr>))"

definition log_text :: "'r rng \<Rightarrow> pystr \<Rightarrow> pystr \<Rightarrow> ('r, pystr) gen" where
  "log_text g w t =
     chain (pick_one g (map lit [''starting phase'', ''checkpoint reached'', ''processing batch'',
         ''artifact written'', ''dependency response received'', ''validation passed''])) (\<lambda>message.
       ret (lit ''['' @ w @ lit ''/'' @ t @ lit ''] '' @ message @ [10]))"

type_synonym choices = "(rat \<times> action) list"

definition if_chance :: "'r rng \<Rightarrow> rat \<Rightarrow> ('r, choices) gen \<Rightarrow> ('r, choices) gen" where
  "if_chance g p others = chain (chance g p) (\<lambda>taken. if taken then others else ret [])"

definition append_gen :: "('r, 'a list) gen \<Rightarrow> ('r, 'a list) gen \<Rightarrow> ('r, 'a list) gen" where
  "append_gen p q = chain p (\<lambda>xs. chain q (\<lambda>ys. ret (xs @ ys)))"

definition worker_choices :: "'r rng \<Rightarrow> gen_config \<Rightarrow> model \<Rightarrow> pystr \<Rightarrow> ('r, choices) gen" where
  "worker_choices g c m k =
     (case dget (workers m) k of
        None \<Rightarrow> raise (Model_error MissingKey)
      | Some wk \<Rightarrow>
          if wk_dropped wk then ret []
          else append_gen (ret [(5, (bare_action LeaseTask)\<lparr>ac_worker_id := k\<rparr>)])
            (append_gen (if_chance g (gc_heartbeat_probability c)
                (ret [(3/2, (bare_action Heartbeat)\<lparr>ac_worker_id := k\<rparr>)]))
              (if_chance g (gc_worker_drop_probability c)
                (ret [(1/2, (bare_action DropWorker)\<lparr>ac_worker_id := k\<rparr>)]))))"

definition lease_choices :: "'r rng \<Rightarrow> gen_config \<Rightarrow> model \<Rightarrow> pystr \<Rightarrow> ('r, choices) gen" where
  "lease_choices g c m tok =
     (case dget (leases m) tok of
        None \<Rightarrow> raise (Model_error MissingKey)
      | Some l \<Rightarrow>
          (case task_lookup m (ls_workflow_id l) (ls_task_id l) of
             None \<Rightarrow> raise (Model_error MissingKey)
           | Some x \<Rightarrow>
               append_gen (ret (if t_state x = Leased
                  then [(5, (bare_action Start)\<lparr>ac_token := tok\<rparr>)] else []))
               (if t_state x \<notin> {Leased, Running} then ret []
                else append_gen (chain (completion_action g c tok) (\<lambda>a. ret [(9/2, a)]))
                  (append_gen (if_chance g (gc_renew_probability c)
                      (ret [(13/10, (bare_action Renew)\<lparr>ac_token := tok\<rparr>)]))
                    (if_chance g (gc_log_probability c)
                      (chain (log_text g (ls_workflow_id l) (ls_task_id l)) (\<lambda>txt.
                        ret [(1, (bare_action Log)\<lparr>ac_token := tok, ac_text := txt\<rparr>)])))))))"

definition stale_choices :: "'r rng \<Rightarrow> gen_config \<Rightarrow> model \<Rightarrow> ('r, choices) gen" where
  "stale_choices g c m =
     (if closed_leases m = [] then ret []
      else if_chance g (gc_stale_operation_probability c)
        (chain (pick_one g (closed_lease_tokens m)) (\<lambda>tok.
         chain (pick_one g [StaleComplete, StaleRenew, DuplicateComplete]) (\<lambda>k.
         ret [(9/10, (bare_action k)\<lparr>ac_token := tok\<rparr>)]))))"

definition cancel_choices :: "'r rng \<Rightarrow> gen_config \<Rightarrow> model \<Rightarrow> ('r, choices) gen" where
  "cancel_choices g c m =
     (if workflows m = [] then ret []
      else if_chance g (gc_cancel_probability c)
        (chain (pick_one g (workflow_ids m)) (\<lambda>w.
           case dget (workflows m) w of
             None \<Rightarrow> raise (Model_error MissingKey)
           | Some f \<Rightarrow> ret (if workflow_terminal (wf_state f) then []
               else [(4/10, (bare_action CancelWorkflow)\<lparr>ac_workflow_id := w\<rparr>)]))))"

definition gather :: "('a \<Rightarrow> ('r, choices) gen) \<Rightarrow> 'a list \<Rightarrow> ('r, choices) gen" where
  "gather f xs = chain (gen_list f xs) (\<lambda>cs. ret (concat cs))"

fun weighted :: "rat \<Rightarrow> rat \<Rightarrow> choices \<Rightarrow> action option" where
  "weighted cursor pick [] = None"
| "weighted cursor pick [(w, a)] = Some a"
| "weighted cursor pick ((w, a) # x # xs) =
     (if pick \<le> cursor + w then Some a else weighted (cursor + w) pick (x # xs))"

definition next_action :: "'r rng \<Rightarrow> gen_config \<Rightarrow> model \<Rightarrow> ('r, action option) gen" where
  "next_action g c m =
     chain (append_gen (gather (worker_choices g c m) (worker_ids False m))
       (append_gen (gather (lease_choices g c m) (active_lease_tokens m))
       (append_gen (stale_choices g c m)
       (append_gen (cancel_choices g c m)
       (append_gen (chain (randint g 1 (gc_max_time_step_ms c)) (\<lambda>d.
          ret [(18/10, (bare_action AdvanceTime)\<lparr>ac_amount := d\<rparr>)]))
       (ret [(3/10, bare_action Sweep)]))))))
     (\<lambda>choices. if choices = [] then ret None
       else chain (draw g) (\<lambda>x.
         ret (weighted 0 (x * sum_list (map fst choices)) choices)))"

section \<open>Scenarios\<close>

fun generate_steps ::
  "'r rng \<Rightarrow> gen_config \<Rightarrow> (pystr \<Rightarrow> pystr) \<Rightarrow> nat \<Rightarrow> model
   \<Rightarrow> ('r, action list \<times> gen_note list) gen" where
  "generate_steps g c digest 0 m = ret ([], [])"
| "generate_steps g c digest (Suc n) m =
     chain (next_action g c m) (\<lambda>found.
       if found = None \<and> model_terminal m then ret ([], [])
       else chain (case found of
                Some a \<Rightarrow> ret a
              | None \<Rightarrow> chain (randint g 1 500) (\<lambda>d. ret ((bare_action AdvanceTime)\<lparr>ac_amount := d\<rparr>)))
         (\<lambda>a. case apply_action digest a m of (result, m') \<Rightarrow>
           let notes = (case result of Inl e \<Rightarrow> [(ac_kind a, e)] | Inr _ \<Rightarrow> []) in
           case check_invariants m' of
             Some v \<Rightarrow> raise (Check_failed v)
           | None \<Rightarrow>
               if model_terminal m' \<and> leases m' = [] then ret ([a], notes)
               else chain (generate_steps g c digest n m') (\<lambda>(as, others).
                 ret (a # as, notes @ others))))"

definition gen_scenario ::
  "'r rng \<Rightarrow> gen_config \<Rightarrow> (pystr \<Rightarrow> pystr) \<Rightarrow> int \<Rightarrow> int \<Rightarrow> ('r, gen_note scenario) gen" where
  "gen_scenario g c digest seed steps =
     chain (gen_workflow_of g c seed None) (\<lambda>w.
     chain (gen_workers g c w) (\<lambda>specs.
     chain (from_result default_model) (\<lambda>m0.
     case set_up digest seed w specs m0 of
       (Inl e, m) \<Rightarrow> raise (Model_error e)
     | (Inr _, m) \<Rightarrow>
         chain (generate_steps g c digest (nat (max 1 steps)) m) (\<lambda>(actions, notes).
           ret \<lparr>sc_seed = seed, sc_workflow = w, sc_workers = specs, sc_actions = actions,
                sc_notes = notes\<rparr>))))"

section \<open>Helpers of the tests\<close>

definition clone_workflow :: "gen_workflow \<Rightarrow> chaos_error + gen_workflow" where
  "clone_workflow w =
     (case clone_all (gw_tasks w) of Inl e \<Rightarrow> Inl e | Inr ts \<Rightarrow> Inr (w\<lparr>gw_tasks := ts\<rparr>))"

definition edge_count :: "gen_workflow \<Rightarrow> nat" where
  "edge_count w = sum_list (map (\<lambda>t. length (t_depends_on t)) (gw_tasks w))"

definition width_hint :: "gen_workflow \<Rightarrow> nat" where
  "width_hint w = max 1 (length (filter (\<lambda>t. t_depends_on t = []) (gw_tasks w)))"

end
