(* ===== verification/Lab_Campaign.thy ===== *)
theory Lab_Campaign
  imports Lab_Generator
begin

text \<open>
  Campaigns (\<open>run_campaign\<close> in \<open>tools/chaos_lab/runner.py\<close>): the scenarios of consecutive seeds are
  generated and replayed. \<open>seeded\<close> is \<open>random.Random(seed)\<close>. No times are kept.
\<close>

record campaign_report =
  cp_first_seed :: int
  cp_count :: int
  cp_reports :: "replay_report list"

definition campaign_failures :: "campaign_report \<Rightarrow> replay_report list" where
  "campaign_failures c = filter (\<lambda>r. \<not> report_ok r) (cp_reports c)"

definition campaign_ok :: "campaign_report \<Rightarrow> bool" where
  "campaign_ok c \<longleftrightarrow> campaign_failures c = []"

text \<open>The totals of \<open>as_dict\<close>: steps, accepted and rejected actions.\<close>

definition campaign_totals :: "campaign_report \<Rightarrow> int \<times> int \<times> int" where
  "campaign_totals c =
     (sum_list (map (\<lambda>r. int (length (rr_records r))) (cp_reports c)),
      sum_list (map report_accepted (cp_reports c)), sum_list (map report_rejected (cp_reports c)))"

definition generate_one ::
  "(int \<Rightarrow> 'r) \<Rightarrow> 'r rng \<Rightarrow> gen_config option \<Rightarrow> (pystr \<Rightarrow> pystr) \<Rightarrow> int \<Rightarrow> int \<Rightarrow> gen_error + gen_note scenario" where
  "generate_one seeded g settings digest steps seed =
     fst (gen_scenario g (case settings of None \<Rightarrow> default_config | Some c \<Rightarrow> c) digest seed steps (seeded seed))"

fun generate_many ::
  "(int \<Rightarrow> 'r) \<Rightarrow> 'r rng \<Rightarrow> gen_config option \<Rightarrow> (pystr \<Rightarrow> pystr) \<Rightarrow> int \<Rightarrow> int list
   \<Rightarrow> gen_error + gen_note scenario list" where
  "generate_many seeded g settings digest steps [] = Inr []"
| "generate_many seeded g settings digest steps (seed # seeds) =
     (case generate_one seeded g settings digest steps seed of
        Inl e \<Rightarrow> Inl e
      | Inr sc \<Rightarrow> (case generate_many seeded g settings digest steps seeds of Inl e \<Rightarrow> Inl e | Inr scs \<Rightarrow> Inr (sc # scs)))"

fun campaign_loop ::
  "(int \<Rightarrow> gen_error + gen_note scenario) \<Rightarrow> (gen_note scenario \<Rightarrow> replay_report) \<Rightarrow> bool \<Rightarrow> int \<Rightarrow> nat
   \<Rightarrow> gen_error + replay_report list" where
  "campaign_loop generate run stop seed 0 = Inr []"
| "campaign_loop generate run stop seed (Suc n) =
     (case generate seed of
        Inl e \<Rightarrow> Inl e
      | Inr sc \<Rightarrow>
          if \<not> report_ok (run sc) \<and> stop then Inr [run sc]
          else case campaign_loop generate run stop (seed + 1) n of
            Inl e \<Rightarrow> Inl e
          | Inr reports \<Rightarrow> Inr (run sc # reports))"

definition run_campaign ::
  "(int \<Rightarrow> 'r) \<Rightarrow> 'r rng \<Rightarrow> (pystr \<Rightarrow> pystr) \<Rightarrow> (model_view \<Rightarrow> pystr) \<Rightarrow> int \<Rightarrow> int \<Rightarrow> int \<Rightarrow> gen_config option
   \<Rightarrow> bool \<Rightarrow> bool \<Rightarrow> gen_error + campaign_report" where
  "run_campaign seeded g digest fingerprint first_seed number steps settings strict stop =
     (if number < 1 then Inl Bad_config
      else case campaign_loop (generate_one seeded g settings digest steps) (replay digest fingerprint strict True None)
             stop first_seed (nat number) of
        Inl e \<Rightarrow> Inl e
      | Inr reports \<Rightarrow> Inr \<lparr>cp_first_seed = first_seed, cp_count = int (length reports), cp_reports = reports\<rparr>)"

section \<open>What a campaign covers\<close>

lemma generate_one_seed: "generate_one seeded g settings digest steps seed = Inr sc \<Longrightarrow> sc_seed sc = seed"
  unfolding generate_one_def gen_scenario_def
  by (auto simp: chain_def ret_def raise_def from_result_def split: prod.splits sum.splits)

lemma replay_seed: "rr_seed (replay digest fingerprint strict stop given sc) = sc_seed sc"
  by (simp add: replay_def split: sum.split prod.split)

lemma campaign_loop_covers:
  assumes "\<And>seed sc. generate seed = Inr sc \<Longrightarrow> rr_seed (run sc) = seed"
  shows "campaign_loop generate run stop seed n = Inr reports \<Longrightarrow>
    map rr_seed reports = map (\<lambda>i. seed + int i) [0..<length reports]
    \<and> length reports \<le> n \<and> (stop \<longrightarrow> list_all report_ok (butlast reports))
    \<and> (length reports = n \<or> stop \<and> reports \<noteq> [] \<and> \<not> report_ok (List.last reports))"
proof (induction n arbitrary: seed reports)
  case (Suc n)
  obtain sc where sc: "generate seed = Inr sc" using Suc.prems by (auto split: sum.splits)
  show ?case
  proof (cases "\<not> report_ok (run sc) \<and> stop")
    case True
    then show ?thesis using Suc.prems sc assms [OF sc] by auto
  next
    case False
    then obtain rest where rest: "campaign_loop generate run stop (seed + 1) n = Inr rest" "reports = run sc # rest"
      using Suc.prems sc by (auto split: sum.splits)
    note facts = Suc.IH [OF rest(1)]
    have "map rr_seed reports = map (\<lambda>i. seed + int i) (0 # map Suc [0..<length rest])"
      using facts assms [OF sc] rest(2) by (simp add: comp_def algebra_simps)
    moreover have "0 # map Suc [0..<length rest] = [0..<length reports]"
      using rest(2) by (simp add: map_Suc_upt upt_conv_Cons del: upt_Suc)
    ultimately have "map rr_seed reports = map (\<lambda>i. seed + int i) [0..<length reports]" by simp
    then show ?thesis using facts False rest(2) by auto
  qed
qed simp

text \<open>
  A campaign that ends has one report for every seed from the first one on, in order. It is shorter
  than asked only if it stops at a failure, and then only its last report is a failure.
\<close>

lemma campaign_covers:
  assumes "run_campaign seeded g digest fingerprint first number steps settings strict stop = Inr report"
  shows "map rr_seed (cp_reports report) = map (\<lambda>i. first + int i) [0..<nat (cp_count report)]"
    "cp_count report \<le> number" "campaign_ok report \<Longrightarrow> cp_count report = number"
    "stop \<Longrightarrow> length (campaign_failures report) \<le> 1"
proof -
  obtain reports where loop: "campaign_loop (generate_one seeded g settings digest steps)
      (replay digest fingerprint strict True None) stop first (nat number) = Inr reports"
    "report = \<lparr>cp_first_seed = first, cp_count = int (length reports), cp_reports = reports\<rparr>" "1 \<le> number"
    using assms by (auto simp: run_campaign_def split: if_splits sum.splits)
  have facts: "map rr_seed reports = map (\<lambda>i. first + int i) [0..<length reports]"
    "length reports \<le> nat number" "stop \<Longrightarrow> list_all report_ok (butlast reports)"
    "length reports = nat number \<or> stop \<and> reports \<noteq> [] \<and> \<not> report_ok (List.last reports)"
    using campaign_loop_covers [OF _ loop(1)] generate_one_seed replay_seed by metis+
  show "map rr_seed (cp_reports report) = map (\<lambda>i. first + int i) [0..<nat (cp_count report)]"
    "cp_count report \<le> number" using facts loop by simp_all
  show "cp_count report = number" if "campaign_ok report"
  proof -
    have "list_all report_ok reports" using that loop(2) by (simp add: campaign_ok_def campaign_failures_def filter_empty_conv list_all_iff)
    then have "length reports = nat number" using facts(4) by (auto simp: list_all_iff)
    then show ?thesis using loop by simp
  qed
  show "length (campaign_failures report) \<le> 1" if "stop"
  proof (cases reports rule: rev_cases)
    case (snoc rs r)
    then show ?thesis using facts(3) [OF that] loop(2)
      by (auto simp: campaign_failures_def list_all_iff filter_empty_conv filter_False)
  qed (use loop(2) in \<open>simp add: campaign_failures_def\<close>)
qed

end
