(* ===== verification/Lab_Trace.thy ===== *)
theory Lab_Trace
  imports Lab_Runner Py_Text
begin

text \<open>
  Saved scenarios (\<open>tools/chaos_lab/runner.py\<close>): the JSON value that \<open>scenario_to_dict\<close> builds and
  the scenario that \<open>scenario_from_dict\<close> reads from any JSON value. Python's \<open>str\<close> and \<open>int\<close> of a
  JSON value are parameters. The text of a note is a parameter too.
\<close>

section \<open>Reading JSON values\<close>

datatype trace_error = Key_missing string | Bad_type | Bad_number | Bad_kind | Bad_task chaos_error

record conversions =
  cv_str :: "json \<Rightarrow> pystr"
  cv_int :: "json \<Rightarrow> trace_error + int"

text \<open>What is relied on: the text of a text is itself, and so is the integer of an integer.\<close>

definition conversions_ok :: "conversions \<Rightarrow> bool" where
  "conversions_ok cv \<longleftrightarrow> (\<forall>s. cv_str cv (JStr s) = s) \<and> (\<forall>n. cv_int cv (JInt n) = Inr n)"

definition attempt :: "trace_error + 'a \<Rightarrow> ('a \<Rightarrow> trace_error + 'b) \<Rightarrow> trace_error + 'b" where
  "attempt r f = (case r of Inl e \<Rightarrow> Inl e | Inr x \<Rightarrow> f x)"

fun attempt_all :: "('a \<Rightarrow> trace_error + 'b) \<Rightarrow> 'a list \<Rightarrow> trace_error + 'b list" where
  "attempt_all f [] = Inr []"
| "attempt_all f (x # xs) = attempt (f x) (\<lambda>y. attempt (attempt_all f xs) (\<lambda>ys. Inr (y # ys)))"

text \<open>\<open>value[key]\<close>, \<open>value.get(key, default)\<close>, the elements of an iterable, \<open>value.items()\<close>.\<close>

definition item :: "string \<Rightarrow> json \<Rightarrow> trace_error + json" where
  "item k v = (case v of
     JDict d \<Rightarrow> (case map_of d (lit k) of None \<Rightarrow> Inl (Key_missing k) | Some x \<Rightarrow> Inr x)
   | _ \<Rightarrow> Inl Bad_type)"

definition get_item :: "string \<Rightarrow> json \<Rightarrow> json \<Rightarrow> trace_error + json" where
  "get_item k fallback v = (case v of
     JDict d \<Rightarrow> Inr (case map_of d (lit k) of None \<Rightarrow> fallback | Some x \<Rightarrow> x)
   | _ \<Rightarrow> Inl Bad_type)"

definition elements :: "json \<Rightarrow> trace_error + json list" where
  "elements v = (case v of
     JList xs \<Rightarrow> Inr xs
   | JStr s \<Rightarrow> Inr (map (\<lambda>c. JStr [c]) s)
   | JDict d \<Rightarrow> Inr (map (\<lambda>(k, x). JStr k) d)
   | _ \<Rightarrow> Inl Bad_type)"

definition text_pairs :: "conversions \<Rightarrow> json \<Rightarrow> trace_error + (pystr, pystr) dict" where
  "text_pairs cv v = (case v of
     JDict d \<Rightarrow> Inr (fold (\<lambda>(k, x) m. dput (cv_str cv (JStr k)) (cv_str cv x) m) d [])
   | _ \<Rightarrow> Inl Bad_type)"

definition text_map :: "(pystr, pystr) dict \<Rightarrow> json" where
  "text_map d = JDict (map (\<lambda>(k, v). (k, JStr v)) d)"

definition obj :: "(string \<times> json) list \<Rightarrow> json" where
  "obj entries = JDict (map (\<lambda>(k, v). (lit k, v)) entries)"

section \<open>Actions\<close>

fun kind_text :: "action_kind \<Rightarrow> pystr" where
  "kind_text RegisterWorker = lit ''register_worker''"
| "kind_text Heartbeat = lit ''heartbeat''"
| "kind_text LeaseTask = lit ''lease''"
| "kind_text Start = lit ''start''"
| "kind_text Renew = lit ''renew''"
| "kind_text Log = lit ''log''"
| "kind_text CompleteSuccess = lit ''complete_success''"
| "kind_text CompleteFailure = lit ''complete_failure''"
| "kind_text AdvanceTime = lit ''advance_time''"
| "kind_text Sweep = lit ''sweep''"
| "kind_text CancelWorkflow = lit ''cancel_workflow''"
| "kind_text DropWorker = lit ''drop_worker''"
| "kind_text StaleComplete = lit ''stale_complete''"
| "kind_text StaleRenew = lit ''stale_renew''"
| "kind_text DuplicateComplete = lit ''duplicate_complete''"

definition all_kinds :: "action_kind list" where
  "all_kinds = [RegisterWorker, Heartbeat, LeaseTask, Start, Renew, Log, CompleteSuccess, CompleteFailure,
     AdvanceTime, Sweep, CancelWorkflow, DropWorker, StaleComplete, StaleRenew, DuplicateComplete]"

definition kind_of_text :: "pystr \<Rightarrow> trace_error + action_kind" where
  "kind_of_text s = (case find (\<lambda>k. kind_text k = s) all_kinds of None \<Rightarrow> Inl Bad_kind | Some k \<Rightarrow> Inr k)"

definition action_as_dict :: "action \<Rightarrow> json" where
  "action_as_dict a = obj [(''kind'', JStr (kind_text (ac_kind a))), (''workflow_id'', JStr (ac_workflow_id a)),
     (''task_id'', JStr (ac_task_id a)), (''worker_id'', JStr (ac_worker_id a)), (''token'', JStr (ac_token a)),
     (''amount'', JInt (ac_amount a)), (''text'', JStr (ac_text a))]"

definition get_text :: "conversions \<Rightarrow> string \<Rightarrow> json \<Rightarrow> trace_error + pystr" where
  "get_text cv k v = attempt (get_item k (JStr []) v) (\<lambda>x. Inr (cv_str cv x))"

definition get_int :: "conversions \<Rightarrow> string \<Rightarrow> int \<Rightarrow> json \<Rightarrow> trace_error + int" where
  "get_int cv k fallback v = attempt (get_item k (JInt fallback) v) (cv_int cv)"

definition action_from_dict :: "conversions \<Rightarrow> json \<Rightarrow> trace_error + action" where
  "action_from_dict cv v =
     attempt (item ''kind'' v) (\<lambda>k. attempt (kind_of_text (cv_str cv k)) (\<lambda>kind.
     attempt (get_text cv ''workflow_id'' v) (\<lambda>w. attempt (get_text cv ''task_id'' v) (\<lambda>t.
     attempt (get_text cv ''worker_id'' v) (\<lambda>worker. attempt (get_text cv ''token'' v) (\<lambda>tok.
     attempt (get_int cv ''amount'' 0 v) (\<lambda>n. attempt (get_text cv ''text'' v) (\<lambda>s.
     Inr \<lparr>ac_kind = kind, ac_workflow_id = w, ac_task_id = t, ac_worker_id = worker, ac_token = tok,
       ac_amount = n, ac_text = s\<rparr>))))))))"

section \<open>Scenarios\<close>

definition retry_as_json :: "retry_policy \<Rightarrow> json" where
  "retry_as_json r = obj [(''max_attempts'', JInt (max_attempts r)), (''base_delay_ms'', JInt (base_delay_ms r)),
     (''max_delay_ms'', JInt (max_delay_ms r))]"

definition task_to_dict :: "task \<Rightarrow> json" where
  "task_to_dict t = obj [(''id'', JStr (t_id t)), (''depends_on'', JList (map JStr (t_depends_on t))),
     (''labels'', text_map (t_labels t)), (''retry'', retry_as_json (t_retry t)), (''timeout_ms'', JInt (t_timeout_ms t))]"

definition worker_to_dict :: "worker_spec \<Rightarrow> json" where
  "worker_to_dict spec = (case spec of (k, n, labels) \<Rightarrow>
     obj [(''id'', JStr k), (''capacity'', JInt n), (''labels'', text_map labels)])"

definition scenario_to_dict :: "('n \<Rightarrow> pystr) \<Rightarrow> 'n scenario \<Rightarrow> json" where
  "scenario_to_dict note_text sc = obj [
     (''seed'', JInt (sc_seed sc)),
     (''workflow'', obj [(''name'', JStr (gw_name (sc_workflow sc))),
        (''metadata'', text_map (gw_metadata (sc_workflow sc))),
        (''tasks'', JList (map task_to_dict (gw_tasks (sc_workflow sc))))]),
     (''workers'', JList (map worker_to_dict (sc_workers sc))),
     (''actions'', JList (map action_as_dict (sc_actions sc))),
     (''notes'', JList (map (\<lambda>n. JStr (note_text n)) (sc_notes sc)))]"

definition task_from_dict :: "conversions \<Rightarrow> json \<Rightarrow> trace_error + task" where
  "task_from_dict cv v =
     attempt (get_item ''retry'' (JDict []) v) (\<lambda>retry.
     attempt (item ''id'' v) (\<lambda>i.
     attempt (get_item ''depends_on'' (JList []) v) (\<lambda>ds. attempt (elements ds) (\<lambda>deps.
     attempt (get_item ''labels'' (JDict []) v) (\<lambda>ls. attempt (text_pairs cv ls) (\<lambda>labels.
     attempt (get_int cv ''max_attempts'' 1 retry) (\<lambda>attempts.
     attempt (get_int cv ''base_delay_ms'' 250 retry) (\<lambda>base.
     attempt (get_int cv ''max_delay_ms'' 30000 retry) (\<lambda>limit.
     attempt (get_int cv ''timeout_ms'' 0 v) (\<lambda>timeout.
     case new_task (cv_str cv i) (map (cv_str cv) deps) labels
         \<lparr>max_attempts = attempts, base_delay_ms = base, max_delay_ms = limit\<rparr> timeout of
       Inl e \<Rightarrow> Inl (Bad_task e)
     | Inr t \<Rightarrow> Inr t))))))))))"

definition worker_from_dict :: "conversions \<Rightarrow> json \<Rightarrow> trace_error + worker_spec" where
  "worker_from_dict cv v =
     attempt (item ''id'' v) (\<lambda>i.
     attempt (get_int cv ''capacity'' 1 v) (\<lambda>n.
     attempt (get_item ''labels'' (JDict []) v) (\<lambda>ls. attempt (text_pairs cv ls) (\<lambda>labels.
     Inr (cv_str cv i, n, labels)))))"

definition get_list :: "string \<Rightarrow> json \<Rightarrow> trace_error + json list" where
  "get_list k v = attempt (get_item k (JList []) v) elements"

definition scenario_from_dict :: "conversions \<Rightarrow> json \<Rightarrow> trace_error + pystr scenario" where
  "scenario_from_dict cv v =
     attempt (item ''workflow'' v) (\<lambda>w.
     attempt (item ''tasks'' w) (\<lambda>ts. attempt (elements ts) (\<lambda>task_values.
     attempt (attempt_all (task_from_dict cv) task_values) (\<lambda>tasks.
     attempt (item ''name'' w) (\<lambda>name.
     attempt (get_item ''metadata'' (JDict []) w) (\<lambda>ms. attempt (text_pairs cv ms) (\<lambda>metadata.
     attempt (get_list ''workers'' v) (\<lambda>ws. attempt (attempt_all (worker_from_dict cv) ws) (\<lambda>workers.
     attempt (get_list ''actions'' v) (\<lambda>acts. attempt (attempt_all (action_from_dict cv) acts) (\<lambda>actions.
     attempt (get_int cv ''seed'' 0 v) (\<lambda>seed.
     attempt (get_list ''notes'' v) (\<lambda>texts.
     Inr \<lparr>sc_seed = seed,
       sc_workflow = \<lparr>gw_name = cv_str cv name, gw_tasks = tasks, gw_metadata = metadata\<rparr>,
       sc_workers = workers, sc_actions = actions, sc_notes = map (cv_str cv) texts\<rparr>)))))))))))))"

section \<open>Reading back\<close>

lemma attempt_simps [simp]: "attempt (Inl e) f = Inl e" "attempt (Inr x) f = f x"
  by (simp_all add: attempt_def)

lemma obj_simps [simp]:
  "item k (obj entries) = (case map_of entries k of None \<Rightarrow> Inl (Key_missing k) | Some x \<Rightarrow> Inr x)"
  "get_item k d (obj entries) = Inr (case map_of entries k of None \<Rightarrow> d | Some x \<Rightarrow> x)"
proof -
  have lit: "lit a = lit b \<longleftrightarrow> a = b" for a b by (simp add: lit_def inj_map_eq_map inj_def)
  have "map_of (map (\<lambda>(k, v). (lit k, v)) entries) (lit k) = map_of entries k"
    by (induction entries) (auto simp: lit)
  then show "item k (obj entries) = (case map_of entries k of None \<Rightarrow> Inl (Key_missing k) | Some x \<Rightarrow> Inr x)"
    "get_item k d (obj entries) = Inr (case map_of entries k of None \<Rightarrow> d | Some x \<Rightarrow> x)"
    by (simp_all add: item_def get_item_def obj_def)
qed

lemma elements_list [simp]: "elements (JList xs) = Inr xs"
  by (simp add: elements_def)

lemma kind_read_back [simp]: "kind_of_text (kind_text k) = Inr k"
  by (cases k) (simp_all add: kind_of_text_def all_kinds_def)

lemma dput_new: "k \<notin> set (dkeys d) \<Longrightarrow> dput k v d = d @ [(k, v)]"
  by (induction d) (auto simp: dkeys_def dput_def)

lemma text_pairs_back:
  assumes "conversions_ok cv" "dwf d"
  shows "text_pairs cv (text_map d) = Inr d"
proof -
  have "distinct (dkeys e @ dkeys d) \<Longrightarrow>
      fold (\<lambda>(k, x) m. dput (cv_str cv (JStr k)) (cv_str cv x) m) (map (\<lambda>(k, v). (k, JStr v)) d) e = e @ d" for e
    using assms(1)
    by (induction d arbitrary: e) (auto simp: dput_new conversions_ok_def dkeys_def)
  from this [of "[]"] show ?thesis using assms(2) by (simp add: text_pairs_def text_map_def dwf_def dkeys_def)
qed

lemma attempt_all_back:
  "(\<And>x. x \<in> set xs \<Longrightarrow> f (g x) = Inr x) \<Longrightarrow> attempt_all f (map g xs) = Inr xs"
  by (induction xs) simp_all

lemma action_back: "conversions_ok cv \<Longrightarrow> action_from_dict cv (action_as_dict a) = Inr a"
  by (simp add: action_from_dict_def action_as_dict_def get_text_def get_int_def conversions_ok_def)

text \<open>A task as its constructor makes it.\<close>

definition fresh_task :: "task \<Rightarrow> bool" where
  "fresh_task t \<longleftrightarrow> new_task (t_id t) (t_depends_on t) (t_labels t) (t_retry t) (t_timeout_ms t) = Inr t \<and> dwf (t_labels t)"

lemma task_back:
  assumes "conversions_ok cv" "fresh_task t"
  shows "task_from_dict cv (task_to_dict t) = Inr t"
proof -
  have pairs: "text_pairs cv (text_map (t_labels t)) = Inr (t_labels t)"
    using text_pairs_back assms by (simp add: fresh_task_def)
  have texts: "map (cv_str cv) (map JStr ds) = ds" for ds
    using assms(1) by (simp add: conversions_ok_def comp_def)
  have retry: "\<lparr>max_attempts = max_attempts r, base_delay_ms = base_delay_ms r, max_delay_ms = max_delay_ms r\<rparr> = r"
    for r :: retry_policy by (cases r) simp
  show ?thesis
    using assms pairs texts [of "t_depends_on t"]
    by (simp add: retry task_from_dict_def task_to_dict_def retry_as_json_def get_int_def conversions_ok_def fresh_task_def)
qed

lemma worker_back:
  assumes "conversions_ok cv" "dwf (snd (snd spec))"
  shows "worker_from_dict cv (worker_to_dict spec) = Inr spec"
  using assms text_pairs_back [OF assms]
  by (cases spec) (simp add: worker_from_dict_def worker_to_dict_def get_int_def conversions_ok_def)

definition with_texts :: "('n \<Rightarrow> pystr) \<Rightarrow> 'n scenario \<Rightarrow> pystr scenario" where
  "with_texts note_text sc = \<lparr>sc_seed = sc_seed sc, sc_workflow = sc_workflow sc, sc_workers = sc_workers sc,
     sc_actions = sc_actions sc, sc_notes = map note_text (sc_notes sc)\<rparr>"

lemma scenario_back:
  assumes "conversions_ok cv" "list_all fresh_task (gw_tasks (sc_workflow sc))" "dwf (gw_metadata (sc_workflow sc))"
    "list_all (\<lambda>spec. dwf (snd (snd spec))) (sc_workers sc)"
  shows "scenario_from_dict cv (scenario_to_dict note_text sc) = Inr (with_texts note_text sc)"
proof -
  have lists: "attempt_all (task_from_dict cv) (map task_to_dict (gw_tasks (sc_workflow sc))) = Inr (gw_tasks (sc_workflow sc))"
    "attempt_all (worker_from_dict cv) (map worker_to_dict (sc_workers sc)) = Inr (sc_workers sc)"
    "attempt_all (action_from_dict cv) (map action_as_dict (sc_actions sc)) = Inr (sc_actions sc)"
    using assms by (auto intro!: attempt_all_back task_back worker_back action_back simp: list_all_iff)
  have texts: "map (cv_str cv) (map (\<lambda>n. JStr (note_text n)) ns) = map note_text ns" for ns
    using assms(1) by (simp add: conversions_ok_def comp_def)
  show ?thesis
    using assms(1) lists texts [of "sc_notes sc"] text_pairs_back [OF assms(1,3)]
    by (simp add: scenario_from_dict_def scenario_to_dict_def get_list_def get_int_def conversions_ok_def with_texts_def)
qed

lemma replay_texts: "replay digest fingerprint strict stop given (with_texts note_text sc) = replay digest fingerprint strict stop given sc"
  unfolding replay_def bootstrap_def with_texts_def scenario.select_convs by (rule refl)

end
