(* ===== verification/Lab_Shrinker.thy ===== *)
theory Lab_Shrinker
  imports Lab_Runner
begin

text \<open>
  The shrinker of the chaos lab (\<open>tools/chaos_lab/shrinker.py\<close>): a failing scenario is reduced by
  removing chunks of actions, simplifying the actions that are left, and removing workers and tasks,
  as long as a predicate on the report still holds. The predicate is a parameter; it may raise, which
  is \<open>None\<close> here.
\<close>

section \<open>Passes and results\<close>

record shrink_pass =
  sp_name :: pystr
  sp_before :: int
  sp_after :: int
  sp_accepted :: bool

record 'n shrink_result =
  sh_original :: "'n scenario"
  sh_minimized :: "'n scenario"
  sh_report :: replay_report
  sh_passes :: "shrink_pass list"

definition removed_actions :: "'n shrink_result \<Rightarrow> int" where
  "removed_actions r = int (length (sc_actions (sh_original r))) - int (length (sc_actions (sh_minimized r)))"

datatype shrink_error = Not_failing | Lost_failure | Predicate_raised | Clone_failed chaos_error

definition make_pass :: "pystr \<Rightarrow> int \<Rightarrow> int \<Rightarrow> bool \<Rightarrow> shrink_pass" where
  "make_pass name before after ok = \<lparr>sp_name = name, sp_before = before, sp_after = after, sp_accepted = ok\<rparr>"

section \<open>Removing actions\<close>

text \<open>\<open>range(0, n, k)\<close>\<close>

definition range_step :: "nat \<Rightarrow> nat \<Rightarrow> nat list" where
  "range_step n k = filter (\<lambda>i. i mod k = 0) [0..<n]"

fun try_chunks ::
  "(action list \<Rightarrow> bool) \<Rightarrow> nat \<Rightarrow> action list \<Rightarrow> nat list \<Rightarrow> action list option \<times> shrink_pass list" where
  "try_chunks test width actions [] = (None, [])"
| "try_chunks test width actions (low # lows) =
     (let candidate = take low actions @ drop (low + width) actions;
          accepted = test candidate;
          entry = make_pass (lit ''remove-actions['' @ show_nat low @ lit '':'' @ show_nat (low + width) @ lit '']'')
            (int (length actions)) (int (length candidate)) accepted
      in if accepted then (Some candidate, [entry])
         else case try_chunks test width actions lows of (found, trace) \<Rightarrow> (found, entry # trace))"

definition chunk_size :: "nat \<Rightarrow> nat \<Rightarrow> nat" where
  "chunk_size n granularity = max 1 ((n + granularity - 1) div granularity)"

lemma try_chunks_Some:
  "try_chunks test width actions lows = (Some candidate, trace) \<Longrightarrow>
     test candidate \<and> (\<exists>low \<in> set lows. candidate = take low actions @ drop (low + width) actions)"
  by (induction lows arbitrary: trace) (auto simp: Let_def split: if_splits prod.splits)

lemma try_chunks_None:
  "try_chunks test width actions lows = (None, trace) \<Longrightarrow> low \<in> set lows \<Longrightarrow>
     \<not> test (take low actions @ drop (low + width) actions)"
  by (induction lows arbitrary: trace) (auto simp: Let_def split: if_splits prod.splits)

lemma chunk_size_pos: "1 \<le> chunk_size n g"
  by (simp add: chunk_size_def)

lemma range_step_less: "i \<in> set (range_step n k) \<Longrightarrow> i < n"
  by (auto simp: range_step_def)

lemma cut_shorter: "i < length xs \<Longrightarrow> 1 \<le> k \<Longrightarrow> length (take i xs @ drop (i + k) xs) < length xs"
  by simp

lemma try_chunks_shorter:
  assumes "try_chunks test width actions (range_step (length actions) width) = (Some candidate, trace)" "1 \<le> width"
  shows "length candidate < length actions"
proof -
  obtain low where "low \<in> set (range_step (length actions) width)" "candidate = take low actions @ drop (low + width) actions"
    using try_chunks_Some [OF assms(1)] by blast
  then show ?thesis using cut_shorter [OF range_step_less assms(2)] by simp
qed

text \<open>The loop; the granularity starts at 2 and never falls below.\<close>

function ddmin_loop :: "(action list \<Rightarrow> bool) \<Rightarrow> nat \<Rightarrow> action list \<Rightarrow> action list \<times> shrink_pass list" where
  "ddmin_loop test granularity actions =
     (if length actions < 2 \<or> granularity < 2 then (actions, [])
      else let width = chunk_size (length actions) granularity
      in case try_chunks test width actions (range_step (length actions) width) of
        (Some candidate, trace) \<Rightarrow>
          (case ddmin_loop test (max 2 (granularity - 1)) candidate of (result, others) \<Rightarrow> (result, trace @ others))
      | (None, trace) \<Rightarrow>
          if length actions \<le> granularity then (actions, trace)
          else case ddmin_loop test (min (length actions) (granularity * 2)) actions of
            (result, others) \<Rightarrow> (result, trace @ others))"
  by pat_completeness auto
termination
  by (relation "measures [\<lambda>(test, g, actions). length actions, \<lambda>(test, g, actions). length actions - g]")
    (auto simp: min_def dest: try_chunks_shorter [OF sym chunk_size_pos])

declare ddmin_loop.simps [simp del]

definition ddmin_actions :: "('n scenario \<Rightarrow> bool) \<Rightarrow> 'n scenario \<Rightarrow> 'n scenario \<times> shrink_pass list" where
  "ddmin_actions fails sc =
     (if length (sc_actions sc) \<le> 1 then (sc, [])
      else case ddmin_loop (\<lambda>actions. fails (sc\<lparr>sc_actions := actions\<rparr>)) 2 (sc_actions sc) of
        (actions, trace) \<Rightarrow> (sc\<lparr>sc_actions := actions\<rparr>, trace))"

section \<open>Simplifying actions\<close>

definition action_variants :: "action \<Rightarrow> action list" where
  "action_variants a =
     (if ac_amount a \<notin> {0, 1} then [a\<lparr>ac_amount := 1\<rparr>] else [])
     @ (if ac_text a \<noteq> []
        then [a\<lparr>ac_text := []\<rparr>] @ (if 1 < length (ac_text a) then [a\<lparr>ac_text := take 1 (ac_text a)\<rparr>] else [])
        else [])
     @ (if ac_kind a = AdvanceTime \<and> 1 < ac_amount a
        then map (\<lambda>n. a\<lparr>ac_amount := n\<rparr>) (filter (\<lambda>n. n < ac_amount a) [1, 10, 100, 1000]) else [])
     @ (if ac_kind a = Log \<and> 2 < length (ac_text a) then [a\<lparr>ac_text := lit ''x'' @ [10]\<rparr>] else [])
     @ (if ac_kind a = CompleteFailure then [a\<lparr>ac_amount := 1, ac_text := lit ''x''\<rparr>] else [])"

definition action_complexity :: "action \<Rightarrow> int" where
  "action_complexity a =
     1 + int (length (ac_workflow_id a)) + int (length (ac_task_id a)) + int (length (ac_worker_id a))
       + int (length (ac_token a)) + min \<bar>ac_amount a\<bar> 1000000 + int (length (ac_text a))"

text \<open>The variants of one action; \<open>original\<close> becomes the variant that was accepted last.\<close>

fun try_variants ::
  "(action list \<Rightarrow> bool) \<Rightarrow> nat \<Rightarrow> action \<Rightarrow> action list \<Rightarrow> action list \<Rightarrow> action list \<times> shrink_pass list" where
  "try_variants test index original [] actions = (actions, [])"
| "try_variants test index original (v # vs) actions =
     (if v = original then try_variants test index original vs actions
      else let candidate = actions[index := v];
               accepted = test candidate;
               entry = make_pass (lit ''simplify-action['' @ show_nat index @ lit '']'')
                 (action_complexity original) (action_complexity v) accepted
           in case (if accepted then try_variants test index v vs candidate
                    else try_variants test index original vs actions) of
                (result, trace) \<Rightarrow> (result, entry # trace))"

fun simplify_loop :: "(action list \<Rightarrow> bool) \<Rightarrow> nat list \<Rightarrow> action list \<Rightarrow> action list \<times> shrink_pass list" where
  "simplify_loop test [] actions = (actions, [])"
| "simplify_loop test (i # is) actions =
     (case try_variants test i (actions ! i) (action_variants (actions ! i)) actions of (simpler, trace) \<Rightarrow>
        case simplify_loop test is simpler of (result, others) \<Rightarrow> (result, trace @ others))"

definition simplify_actions :: "('n scenario \<Rightarrow> bool) \<Rightarrow> 'n scenario \<Rightarrow> 'n scenario \<times> shrink_pass list" where
  "simplify_actions fails sc =
     (case simplify_loop (\<lambda>actions. fails (sc\<lparr>sc_actions := actions\<rparr>)) [0..<length (sc_actions sc)] (sc_actions sc) of
        (actions, trace) \<Rightarrow> (sc\<lparr>sc_actions := actions\<rparr>, trace))"

section \<open>Removing workers\<close>

definition actions_reference_worker :: "action list \<Rightarrow> pystr \<Rightarrow> bool" where
  "actions_reference_worker actions k \<longleftrightarrow> list_ex (\<lambda>a. ac_worker_id a = k) actions"

definition actions_reference_task :: "action list \<Rightarrow> pystr \<Rightarrow> bool" where
  "actions_reference_task actions t \<longleftrightarrow> list_ex (\<lambda>a. ac_task_id a = t) actions"

function remove_workers_loop ::
  "(worker_spec list \<Rightarrow> bool) \<Rightarrow> action list \<Rightarrow> nat \<Rightarrow> worker_spec list \<Rightarrow> worker_spec list \<times> shrink_pass list" where
  "remove_workers_loop test actions index specs =
     (if index < length specs
      then let k = fst (specs ! index); candidate = take index specs @ drop (index + 1) specs
        in if actions_reference_worker actions k \<or> candidate = []
           then remove_workers_loop test actions (index + 1) specs
           else let accepted = test candidate;
                    entry = make_pass (lit ''remove-worker['' @ k @ lit '']'')
                      (int (length specs)) (int (length candidate)) accepted
                in case (if accepted then remove_workers_loop test actions index candidate
                         else remove_workers_loop test actions (index + 1) specs) of
                     (result, trace) \<Rightarrow> (result, entry # trace)
      else (specs, []))"
  by pat_completeness auto
termination
  by (relation "measure (\<lambda>(test, actions, index, specs). length specs - index)") (auto simp: diff_less_mono2)

declare remove_workers_loop.simps [simp del]

definition remove_workers :: "('n scenario \<Rightarrow> bool) \<Rightarrow> 'n scenario \<Rightarrow> 'n scenario \<times> shrink_pass list" where
  "remove_workers fails sc =
     (case remove_workers_loop (\<lambda>specs. fails (sc\<lparr>sc_workers := specs\<rparr>)) (sc_actions sc) 0 (sc_workers sc) of
        (specs, trace) \<Rightarrow> (sc\<lparr>sc_workers := specs\<rparr>, trace))"

section \<open>Removing tasks\<close>

text \<open>\<open>dict.fromkeys\<close>: the first occurrence of every element.\<close>

definition from_keys :: "'a list \<Rightarrow> 'a list" where
  "from_keys xs = rev (remdups (rev xs))"

text \<open>The dependencies of the removed task replace it in the tasks that depend on it.\<close>

definition target_dependencies :: "task list \<Rightarrow> pystr \<Rightarrow> pystr list" where
  "target_dependencies ts target =
     (case filter (\<lambda>t. t_id t = target) ts of [] \<Rightarrow> [] | t # _ \<Rightarrow> t_depends_on t)"

definition bypass :: "pystr \<Rightarrow> pystr list \<Rightarrow> pystr list \<Rightarrow> pystr list" where
  "bypass target target_deps ds =
     (if target \<in> set ds
      then from_keys (concat (map (\<lambda>d. if d = target then target_deps else [d]) ds))
      else ds)"

definition without_task :: "task list \<Rightarrow> pystr \<Rightarrow> chaos_error + task list" where
  "without_task ts target =
     (case clone_all (filter (\<lambda>t. t_id t \<noteq> target) ts) of
        Inl e \<Rightarrow> Inl e
      | Inr copies \<Rightarrow>
          Inr (map (\<lambda>t. t\<lparr>t_depends_on := bypass target (target_dependencies ts target) (t_depends_on t)\<rparr>) copies))"

text \<open>
  The loop over the tasks, from the last to the first; \<open>left\<close> is the index plus one. A clone may
  raise, which ends the shrinking.
\<close>

function remove_tasks_loop ::
  "(task list \<Rightarrow> bool) \<Rightarrow> action list \<Rightarrow> nat \<Rightarrow> task list \<Rightarrow> chaos_error + task list \<times> shrink_pass list" where
  "remove_tasks_loop test actions left ts =
     (if 0 < left \<and> 1 < length ts
      then let target = t_id (ts ! (left - 1))
        in if actions_reference_task actions target then remove_tasks_loop test actions (left - 1) ts
           else case without_task ts target of
             Inl e \<Rightarrow> Inl e
           | Inr candidate \<Rightarrow>
               (case validate_dag candidate of
                  Inl _ \<Rightarrow> remove_tasks_loop test actions (left - 1) ts
                | Inr _ \<Rightarrow>
                    (case clone_all candidate of
                       Inl e \<Rightarrow> Inl e
                     | Inr clones \<Rightarrow>
                         let accepted = test clones;
                             entry = make_pass (lit ''remove-task['' @ target @ lit '']'')
                               (int (length ts)) (int (length candidate)) accepted
                         in case (if accepted
                                  then remove_tasks_loop test actions (min (left - 1) (length candidate)) candidate
                                  else remove_tasks_loop test actions (left - 1) ts) of
                              Inl e \<Rightarrow> Inl e
                            | Inr (result, trace) \<Rightarrow> Inr (result, entry # trace)))
      else Inr (ts, []))"
  by pat_completeness auto
termination
  by (relation "measure (\<lambda>(test, actions, left, ts). left)") auto

declare remove_tasks_loop.simps [simp del]

definition with_tasks :: "'n scenario \<Rightarrow> task list \<Rightarrow> 'n scenario" where
  "with_tasks sc ts = sc\<lparr>sc_workflow := (sc_workflow sc)\<lparr>gw_tasks := ts\<rparr>\<rparr>"

definition remove_tasks ::
  "('n scenario \<Rightarrow> bool) \<Rightarrow> 'n scenario \<Rightarrow> chaos_error + 'n scenario \<times> shrink_pass list" where
  "remove_tasks fails sc =
     (case clone_all (gw_tasks (sc_workflow sc)) of
        Inl e \<Rightarrow> Inl e
      | Inr ts \<Rightarrow>
          (case remove_tasks_loop (\<lambda>ts. fails (with_tasks sc ts)) (sc_actions sc) (length ts) ts of
             Inl e \<Rightarrow> Inl e
           | Inr (result, trace) \<Rightarrow>
               (case clone_all result of
                  Inl e \<Rightarrow> Inl e
                | Inr clones \<Rightarrow> Inr (with_tasks sc clones, trace))))"

section \<open>The rounds\<close>

type_synonym predicate = "replay_report \<Rightarrow> bool option"

definition fails_on :: "('n scenario \<Rightarrow> replay_report) \<Rightarrow> predicate \<Rightarrow> 'n scenario \<Rightarrow> bool" where
  "fails_on run predicate sc = (case predicate (run sc) of None \<Rightarrow> True | Some b \<Rightarrow> b)"

text \<open>One round: the four reductions, and whether one of them changed the scenario.\<close>

definition shrink_round ::
  "('n scenario \<Rightarrow> bool) \<Rightarrow> 'n scenario \<Rightarrow> chaos_error + 'n scenario \<times> shrink_pass list \<times> bool" where
  "shrink_round fails sc =
     (case ddmin_actions fails sc of (trimmed, trace1) \<Rightarrow>
      let sc1 = (if length (sc_actions trimmed) < length (sc_actions sc) then trimmed else sc) in
      case simplify_actions fails sc1 of (simpler, trace2) \<Rightarrow>
      let sc2 = (if sc_actions simpler \<noteq> sc_actions sc1 then simpler else sc1) in
      case remove_workers fails sc2 of (fewer, trace3) \<Rightarrow>
      let sc3 = (if sc_workers fewer \<noteq> sc_workers sc2 then fewer else sc2) in
      case remove_tasks fails sc3 of
        Inl e \<Rightarrow> Inl e
      | Inr (smaller, trace4) \<Rightarrow>
          let sc4 = (if gw_tasks (sc_workflow smaller) \<noteq> gw_tasks (sc_workflow sc3) then smaller else sc3)
          in Inr (sc4, trace1 @ trace2 @ trace3 @ trace4,
               length (sc_actions trimmed) < length (sc_actions sc) \<or> sc_actions simpler \<noteq> sc_actions sc1
               \<or> sc_workers fewer \<noteq> sc_workers sc2
               \<or> gw_tasks (sc_workflow smaller) \<noteq> gw_tasks (sc_workflow sc3)))"

fun shrink_rounds ::
  "('n scenario \<Rightarrow> bool) \<Rightarrow> nat \<Rightarrow> 'n scenario \<Rightarrow> chaos_error + 'n scenario \<times> shrink_pass list" where
  "shrink_rounds fails 0 sc = Inr (sc, [])"
| "shrink_rounds fails (Suc n) sc =
     (case shrink_round fails sc of
        Inl e \<Rightarrow> Inl e
      | Inr (next_sc, trace, changed) \<Rightarrow>
          if \<not> changed then Inr (next_sc, trace)
          else case shrink_rounds fails n next_sc of
            Inl e \<Rightarrow> Inl e
          | Inr (result, others) \<Rightarrow> Inr (result, trace @ others))"

definition shrink ::
  "('n scenario \<Rightarrow> replay_report) \<Rightarrow> predicate \<Rightarrow> int \<Rightarrow> 'n scenario \<Rightarrow> shrink_error + 'n shrink_result" where
  "shrink run predicate max_rounds sc =
     (case predicate (run sc) of
        None \<Rightarrow> Inl Predicate_raised
      | Some False \<Rightarrow> Inl Not_failing
      | Some True \<Rightarrow>
          (case shrink_rounds (fails_on run predicate) (nat (max 1 max_rounds)) sc of
             Inl e \<Rightarrow> Inl (Clone_failed e)
           | Inr (result, trace) \<Rightarrow>
               (case predicate (run result) of
                  None \<Rightarrow> Inl Predicate_raised
                | Some False \<Rightarrow> Inl Lost_failure
                | Some True \<Rightarrow> Inr \<lparr>sh_original = sc, sh_minimized = result, sh_report = run result,
                    sh_passes = trace\<rparr>)))"

end
