(* ===== verification/Py_Json.thy ===== *)
theory Py_Json
  imports Py_Text
begin

text \<open>
  The exceptions of Python that the dashboard and the command line meet, and what they do with a JSON
  value: truth, \<open>value.get(key, default)\<close>, \<open>value[key]\<close>, \<open>str\<close>, \<open>int\<close>, \<open>len\<close>. The \<open>json\<close> module, the text of a
  compound value and floats are parameters.
\<close>

datatype py_error =
  Attribute_error | Type_error | Key_error pystr | Value_error pystr | Overflow_error | Os_error pystr
  | Tcl_error pystr | Runtime_error pystr | Http_error int pystr | Url_error pystr | Process_error int
  | Timeout_expired | Other_error pystr

text \<open>\<open>URLError\<close>, and so \<open>HTTPError\<close>, is an \<open>OSError\<close>; a \<open>JSONDecodeError\<close> is a \<open>ValueError\<close>.\<close>

definition is_os_error :: "py_error \<Rightarrow> bool" where
  "is_os_error e \<longleftrightarrow> (case e of Os_error _ \<Rightarrow> True | Http_error _ _ \<Rightarrow> True | Url_error _ \<Rightarrow> True | _ \<Rightarrow> False)"

definition is_value_error :: "py_error \<Rightarrow> bool" where
  "is_value_error e \<longleftrightarrow> (case e of Value_error _ \<Rightarrow> True | _ \<Rightarrow> False)"

record py_lib =
  py_loads :: "pystr \<Rightarrow> json option"
  py_dumps :: "json \<Rightarrow> pystr"
  py_str :: "json \<Rightarrow> pystr"
  py_int_text :: "pystr \<Rightarrow> int option"
  py_int_float :: "pystr \<Rightarrow> py_error + int"
  py_float_zero :: "pystr \<Rightarrow> bool"
  py_message :: "py_error \<Rightarrow> pystr"

text \<open>What is relied on: a JSON text is read back, also with a line break behind it.\<close>

definition reads_back :: "py_lib \<Rightarrow> json \<Rightarrow> bool" where
  "reads_back lib v \<longleftrightarrow> py_loads lib (py_dumps lib v) = Some v \<and> py_loads lib (py_dumps lib v @ [10]) = Some v"

definition truthy :: "py_lib \<Rightarrow> json \<Rightarrow> bool" where
  "truthy lib v = (case v of
     JNull \<Rightarrow> False | JBool b \<Rightarrow> b | JInt n \<Rightarrow> n \<noteq> 0 | JFloat t \<Rightarrow> \<not> py_float_zero lib t
   | JStr s \<Rightarrow> s \<noteq> [] | JList xs \<Rightarrow> xs \<noteq> [] | JDict d \<Rightarrow> d \<noteq> [])"

definition or_else :: "py_lib \<Rightarrow> json \<Rightarrow> json \<Rightarrow> json" where
  "or_else lib v w = (if truthy lib v then v else w)"

definition get_or :: "string \<Rightarrow> json \<Rightarrow> json \<Rightarrow> py_error + json" where
  "get_or k fallback v = (case v of
     JDict d \<Rightarrow> Inr (case map_of d (lit k) of None \<Rightarrow> fallback | Some x \<Rightarrow> x)
   | _ \<Rightarrow> Inl Attribute_error)"

definition subscript :: "string \<Rightarrow> json \<Rightarrow> py_error + json" where
  "subscript k v = (case v of
     JDict d \<Rightarrow> (case map_of d (lit k) of None \<Rightarrow> Inl (Key_error (lit k)) | Some x \<Rightarrow> Inr x)
   | _ \<Rightarrow> Inl Type_error)"

definition str_of :: "py_lib \<Rightarrow> json \<Rightarrow> pystr" where
  "str_of lib v = (case v of JStr s \<Rightarrow> s | JInt n \<Rightarrow> show_int n | _ \<Rightarrow> py_str lib v)"

definition int_of :: "py_lib \<Rightarrow> json \<Rightarrow> py_error + int" where
  "int_of lib v = (case v of
     JInt n \<Rightarrow> Inr n
   | JBool b \<Rightarrow> Inr (if b then 1 else 0)
   | JFloat t \<Rightarrow> py_int_float lib t
   | JStr s \<Rightarrow> (case py_int_text lib s of None \<Rightarrow> Inl (Value_error s) | Some n \<Rightarrow> Inr n)
   | _ \<Rightarrow> Inl Type_error)"

definition len_of :: "json \<Rightarrow> py_error + int" where
  "len_of v = (case v of
     JStr s \<Rightarrow> Inr (int (length s)) | JList xs \<Rightarrow> Inr (int (length xs)) | JDict d \<Rightarrow> Inr (int (length d))
   | _ \<Rightarrow> Inl Type_error)"

text \<open>The elements a \<open>for\<close> runs through.\<close>

definition iter_of :: "json \<Rightarrow> py_error + json list" where
  "iter_of v = (case v of
     JStr s \<Rightarrow> Inr (map (\<lambda>c. JStr [c]) s) | JList xs \<Rightarrow> Inr xs | JDict d \<Rightarrow> Inr (map (\<lambda>(k, x). JStr k) d)
   | _ \<Rightarrow> Inl Type_error)"

section \<open>Formatting\<close>

datatype alignment = Natural | Leftwards | Rightwards

definition pad_right :: "nat \<Rightarrow> pystr \<Rightarrow> pystr" where
  "pad_right w s = s @ replicate (w - length s) 32"

definition pad_left :: "nat \<Rightarrow> pystr \<Rightarrow> pystr" where
  "pad_left w s = replicate (w - length s) 32 @ s"

text \<open>\<open>format(v, spec)\<close> for a width: texts to the left, numbers to the right, no other value has a width.\<close>

definition format_value :: "py_lib \<Rightarrow> alignment \<Rightarrow> nat \<Rightarrow> json \<Rightarrow> py_error + pystr" where
  "format_value lib a w v = (case v of
     JStr s \<Rightarrow> Inr (if a = Rightwards then pad_left w s else pad_right w s)
   | JInt n \<Rightarrow> Inr (if a = Leftwards then pad_right w (show_int n) else pad_left w (show_int n))
   | JBool b \<Rightarrow> (let s = (if b then lit ''1'' else lit ''0'') in Inr (if a = Leftwards then pad_right w s else pad_left w s))
   | JFloat t \<Rightarrow> Inr (if a = Leftwards then pad_right w (str_of lib v) else pad_left w (str_of lib v))
   | _ \<Rightarrow> Inl Type_error)"

fun join_with :: "pystr \<Rightarrow> pystr list \<Rightarrow> pystr" where
  "join_with sep [] = []"
| "join_with sep [t] = t"
| "join_with sep (t # ts) = t @ sep @ join_with sep ts"

section \<open>Computations\<close>

text \<open>Sequencing of fallible values, and lifting one into a computation.\<close>

definition bind_result :: "'e + 'a \<Rightarrow> ('a \<Rightarrow> 'e + 'b) \<Rightarrow> 'e + 'b" where
  "bind_result r f = (case r of Inl e \<Rightarrow> Inl e | Inr x \<Rightarrow> f x)"

definition of_result :: "'e + 'a \<Rightarrow> ('s, 'e, 'a) proc" where
  "of_result r = (\<lambda>s. (r, s))"

text \<open>\<open>try: c except matching: handler\<close>\<close>

definition catch :: "('s, 'e, 'a) proc \<Rightarrow> ('e \<Rightarrow> bool) \<Rightarrow> ('e \<Rightarrow> ('s, 'e, 'a) proc) \<Rightarrow> ('s, 'e, 'a) proc" where
  "catch c matching handler = (\<lambda>s. case c s of
     (Inl e, s') \<Rightarrow> if matching e then handler e s' else (Inl e, s')
   | (Inr x, s') \<Rightarrow> (Inr x, s'))"

text \<open>Computations with loops that may go on: \<open>None\<close> is one that is still running.\<close>

type_synonym ('s, 'e, 'a) run = "'s \<Rightarrow> (('e + 'a) \<times> 's) option"

definition run_ret :: "'a \<Rightarrow> ('s, 'e, 'a) run" where
  "run_ret x s = Some (Inr x, s)"

definition run_raise :: "'e \<Rightarrow> ('s, 'e, 'a) run" where
  "run_raise e s = Some (Inl e, s)"

definition run_then :: "('s, 'e, 'a) run \<Rightarrow> ('a \<Rightarrow> ('s, 'e, 'b) run) \<Rightarrow> ('s, 'e, 'b) run" where
  "run_then c f s = (case c s of
     None \<Rightarrow> None | Some (Inl e, s') \<Rightarrow> Some (Inl e, s') | Some (Inr x, s') \<Rightarrow> f x s')"

lemma bind_result_simps [simp]: "bind_result (Inl e) f = Inl e" "bind_result (Inr x) f = f x"
  by (simp_all add: bind_result_def)

lemma bind_result_Inr: "bind_result r f = Inr y \<longleftrightarrow> (\<exists>x. r = Inr x \<and> f x = Inr y)"
  by (cases r) auto

lemma run_then_Inr:
  "run_then c f s = Some (Inr y, t) \<longleftrightarrow> (\<exists>x u. c s = Some (Inr x, u) \<and> f x u = Some (Inr y, t))"
  by (auto simp: run_then_def split: option.splits sum.splits)

lemma run_simple_Inr:
  "run_ret x s = Some (Inr y, t) \<longleftrightarrow> y = x \<and> t = s" "\<not> run_raise e s = Some (Inr y, t)"
  by (auto simp: run_ret_def run_raise_def)

text \<open>Computations that end from every state.\<close>

definition ends :: "('s, 'e, 'a) run \<Rightarrow> bool" where
  "ends c \<longleftrightarrow> (\<forall>s. c s \<noteq> None)"

named_theorems ends_rules \<open>computations that end\<close>

lemma ends_basic [ends_rules]: "ends (run_ret x)" "ends (run_raise e)"
  by (simp_all add: ends_def run_ret_def run_raise_def)

lemma ends_then [ends_rules]: "ends c \<Longrightarrow> (\<And>x. ends (f x)) \<Longrightarrow> ends (run_then c f)"
  by (auto simp: ends_def run_then_def split: option.split sum.split)

lemma ends_if [ends_rules]: "ends c \<Longrightarrow> ends d \<Longrightarrow> ends (if b then c else d)"
  by simp

lemma keeps_of_result [keeps_rules]: "I s \<Longrightarrow> (\<And>e. r = Inl e \<Longrightarrow> F e) \<Longrightarrow> keeps I F (of_result r s)"
  by (simp add: keeps_def of_result_def)

lemma keeps_catch:
  assumes "keeps I G (c s)" "\<And>e s'. I s' \<Longrightarrow> G e \<Longrightarrow> matching e \<Longrightarrow> keeps I F (handler e s')"
    "\<And>e. G e \<Longrightarrow> \<not> matching e \<Longrightarrow> F e"
  shows "keeps I F (catch c matching handler s)"
  using assms by (cases "c s"; cases "fst (c s)") (auto simp: keeps_def catch_def)

end
