(* ===== verification/Lab_Report.thy ===== *)
theory Lab_Report
  imports Lab_Campaign Lab_Trace Lab_Shrinker Py_Text Py_Json Dsl_Format
begin

text \<open>
  What the chaos lab writes (\<open>runner.py\<close>, \<open>model.py\<close>, \<open>shrinker.py\<close> and \<open>generator.py\<close> in
  \<open>tools/chaos_lab\<close>): the texts of errors and events, the JSON documents of snapshots and reports, the
  printed lines and the exit code of its command line, the signature of a failure. Parameters are the
  hash, the clock, the \<open>json\<close> module's parser and its indented form, the details of error messages.
\<close>

section \<open>The texts of errors and events\<close>

fun reject_text :: "reject_code \<Rightarrow> pystr" where
  "reject_text Worker_dropped = lit ''worker_dropped''"
| "reject_text Worker_expired = lit ''worker_expired''"
| "reject_text Stale_lease = lit ''stale_lease''"
| "reject_text Invalid_start_state = lit ''invalid_start_state''"
| "reject_text Invalid_stream = lit ''invalid_stream''"
| "reject_text Log_chunk_too_large = lit ''log_chunk_too_large''"
| "reject_text Task_output_limit = lit ''task_output_limit''"
| "reject_text Invalid_complete_state = lit ''invalid_complete_state''"
| "reject_text Not_stale = lit ''not_stale''"
| "reject_text Unknown_lease = lit ''unknown_lease''"
| "reject_text Not_completed = lit ''not_completed''"
| "reject_text Duplicate_completion = lit ''duplicate_completion''"
| "reject_text Lease_is_expired = lit ''lease_expired''"

fun event_text :: "event_type \<Rightarrow> pystr" where
  "event_text Workflow_created = lit ''workflow.created''"
| "event_text Workflow_started = lit ''workflow.started''"
| "event_text Workflow_succeeded = lit ''workflow.succeeded''"
| "event_text Workflow_failed = lit ''workflow.failed''"
| "event_text Workflow_cancelled = lit ''workflow.cancelled''"
| "event_text Worker_registered = lit ''worker.registered''"
| "event_text Worker_heartbeat = lit ''worker.heartbeat''"
| "event_text Task_ready = lit ''task.ready''"
| "event_text Task_leased = lit ''task.leased''"
| "event_text Task_started = lit ''task.started''"
| "event_text Task_log = lit ''task.log''"
| "event_text Task_succeeded = lit ''task.succeeded''"
| "event_text Task_retry = lit ''task.retry''"
| "event_text Task_failed = lit ''task.failed''"
| "event_text Lease_expired = lit ''lease.expired''"

text \<open>The codes of the checks. An unguarded lookup in a check is a \<open>KeyError\<close>, which has no code.\<close>

fun violation_code :: "violation \<Rightarrow> pystr" where
  "violation_code EVENT_SEQUENCE = lit ''EVENT_SEQUENCE''"
| "violation_code EVENT_TIME = lit ''EVENT_TIME''"
| "violation_code WORKER_CAPACITY = lit ''WORKER_CAPACITY''"
| "violation_code WORKER_GHOST_LEASE = lit ''WORKER_GHOST_LEASE''"
| "violation_code WORKER_LEASE_OWNER = lit ''WORKER_LEASE_OWNER''"
| "violation_code LEASE_KEY = lit ''LEASE_KEY''"
| "violation_code OVERLAPPING_LEASE = lit ''OVERLAPPING_LEASE''"
| "violation_code ACTIVE_CLOSED_LEASE = lit ''ACTIVE_CLOSED_LEASE''"
| "violation_code LEASE_DURATION = lit ''LEASE_DURATION''"
| "violation_code LEASE_WORKER_INDEX = lit ''LEASE_WORKER_INDEX''"
| "violation_code ACTIVE_TASK_NO_LEASE = lit ''ACTIVE_TASK_NO_LEASE''"
| "violation_code ACTIVE_TASK_UNKNOWN_LEASE = lit ''ACTIVE_TASK_UNKNOWN_LEASE''"
| "violation_code TASK_LEASE_TARGET = lit ''TASK_LEASE_TARGET''"
| "violation_code TASK_LEASE_OWNER = lit ''TASK_LEASE_OWNER''"
| "violation_code TASK_LEASE_EXPIRY = lit ''TASK_LEASE_EXPIRY''"
| "violation_code INACTIVE_TASK_HAS_LEASE = lit ''INACTIVE_TASK_HAS_LEASE''"
| "violation_code DEPENDENCY_SAFETY = lit ''DEPENDENCY_SAFETY''"
| "violation_code DEPENDENCY_KEY_ERROR = []"
| "violation_code WORKFLOW_FALSE_SUCCESS = lit ''WORKFLOW_FALSE_SUCCESS''"
| "violation_code WORKFLOW_CANCEL_ACTIVE = lit ''WORKFLOW_CANCEL_ACTIVE''"
| "violation_code WORKFLOW_CANCEL_LEASE = lit ''WORKFLOW_CANCEL_LEASE''"
| "violation_code WORKFLOW_TERMINAL_TIME = lit ''WORKFLOW_TERMINAL_TIME''"
| "violation_code WORKFLOW_ACTIVE_FINISHED = lit ''WORKFLOW_ACTIVE_FINISHED''"
| "violation_code NEGATIVE_ATTEMPT = lit ''NEGATIVE_ATTEMPT''"
| "violation_code ATTEMPT_BUDGET = lit ''ATTEMPT_BUDGET''"
| "violation_code PENDING_ATTEMPT = lit ''PENDING_ATTEMPT''"
| "violation_code ACTIVE_ATTEMPT = lit ''ACTIVE_ATTEMPT''"
| "violation_code RETRY_TIME = lit ''RETRY_TIME''"
| "violation_code STALE_RETRY_TIME = lit ''STALE_RETRY_TIME''"
| "violation_code WORKFLOW_FUTURE_CREATED = lit ''WORKFLOW_FUTURE_CREATED''"
| "violation_code WORKFLOW_TIME_ORDER = lit ''WORKFLOW_TIME_ORDER''"
| "violation_code TASK_FUTURE_START = lit ''TASK_FUTURE_START''"
| "violation_code TASK_FUTURE_FINISH = lit ''TASK_FUTURE_FINISH''"
| "violation_code TASK_TIME_ORDER = lit ''TASK_TIME_ORDER''"
| "violation_code NEGATIVE_OUTPUT = lit ''NEGATIVE_OUTPUT''"
| "violation_code OUTPUT_LIMIT = lit ''OUTPUT_LIMIT''"

text \<open>The text of an exception. What follows a code, the messages of exceptions that are not the model's
  own, and the text of a state in a message are parameters: they depend on the exception or the
  violated check and, through the objects it is about, on the step.\<close>

record message_texts =
  mt_detail :: "int \<Rightarrow> chaos_error \<Rightarrow> pystr"
  mt_check :: "int \<Rightarrow> violation \<Rightarrow> pystr"
  mt_other :: "int \<Rightarrow> chaos_error \<Rightarrow> pystr"
  mt_state :: "task_state \<Rightarrow> pystr"

fun error_message :: "message_texts \<Rightarrow> int \<Rightarrow> chaos_error \<Rightarrow> pystr" where
  "error_message mt i (Rejected c) = reject_text c @ lit '': '' @ mt_detail mt i (Rejected c)"
| "error_message mt i (UnknownWorker k) = lit ''unknown worker: '' @ k"
| "error_message mt i (UnknownWorkflow k) = lit ''unknown workflow: '' @ k"
| "error_message mt i LeaseMissingTask = lit ''lease references missing task''"
| "error_message mt i (InvalidTransition a b w t) =
     lit ''invalid transition '' @ mt_state mt a @ lit '' -> '' @ mt_state mt b @ lit '' for '' @ w @ lit ''/'' @ t"
| "error_message mt i WorkflowExists = lit ''workflow already exists''"
| "error_message mt i EmptyWorkflow = lit ''workflow must contain at least one task''"
| "error_message mt i (DuplicateTask t) = lit ''duplicate task id: '' @ t"
| "error_message mt i (SelfDependency t) = lit ''task '' @ t @ lit '' depends on itself''"
| "error_message mt i (RepeatedDependency t d) = lit ''task '' @ t @ lit '' repeats dependency '' @ d"
| "error_message mt i (UnknownDependency t d) = lit ''task '' @ t @ lit '' references unknown dependency '' @ d"
| "error_message mt i DependencyCycle = lit ''workflow graph contains a dependency cycle''"
| "error_message mt i BadCapacity = lit ''worker capacity must be 1..256''"
| "error_message mt i WorkerExists = lit ''worker already exists''"
| "error_message mt i TimeBackwards = lit ''time cannot move backwards''"
| "error_message mt i CannotExpireLive = lit ''cannot expire live lease''"
| "error_message mt i BadValue = mt_other mt i BadValue"
| "error_message mt i MissingKey = mt_other mt i MissingKey"
| "error_message mt i BadEncoding = mt_other mt i BadEncoding"

text \<open>The three texts of a failure: its type, its message, the code of the violated check.\<close>

definition failure_type :: "replay_failure \<Rightarrow> pystr" where
  "failure_type f = (case rf_cause f of
     Raised e \<Rightarrow> error_type e
   | Violated v \<Rightarrow> if v = DEPENDENCY_KEY_ERROR then lit ''KeyError'' else lit ''InvariantViolation'')"

definition failure_message :: "message_texts \<Rightarrow> replay_failure \<Rightarrow> pystr" where
  "failure_message mt f = (case rf_cause f of
     Raised e \<Rightarrow> error_message mt (rf_index f) e
   | Violated v \<Rightarrow> if v = DEPENDENCY_KEY_ERROR then mt_other mt (rf_index f) MissingKey
       else violation_code v @ lit '': '' @ mt_check mt (rf_index f) v)"

definition failure_code :: "replay_failure \<Rightarrow> pystr" where
  "failure_code f = (case rf_cause f of Raised e \<Rightarrow> [] | Violated v \<Rightarrow> violation_code v)"

section \<open>Snapshots and events\<close>

definition optional_int :: "int option \<Rightarrow> json" where
  "optional_int x = (case x of None \<Rightarrow> JNull | Some n \<Rightarrow> JInt n)"

definition task_view_json :: "task_view \<Rightarrow> json" where
  "task_view_json v = obj [(''state'', JStr (tv_state v)), (''attempt'', JInt (tv_attempt v)),
     (''lease_token'', JStr (tv_lease_token v)), (''lease_owner'', JStr (tv_lease_owner v)),
     (''lease_until_ms'', optional_int (tv_lease_until_ms v)), (''next_retry_ms'', optional_int (tv_next_retry_ms v)),
     (''output_bytes'', JInt (tv_output_bytes v))]"

definition worker_view_json :: "worker_view \<Rightarrow> json" where
  "worker_view_json v = obj [(''capacity'', JInt (kv_capacity v)), (''heartbeat_ms'', JInt (kv_heartbeat_ms v)),
     (''active_tokens'', JList (map JStr (kv_active_tokens v))), (''dropped'', JBool (kv_dropped v))]"

definition lease_view_json :: "lease_view \<Rightarrow> json" where
  "lease_view_json v = obj [(''workflow_id'', JStr (lv_workflow_id v)), (''task_id'', JStr (lv_task_id v)),
     (''worker_id'', JStr (lv_worker_id v)), (''attempt'', JInt (lv_attempt v)),
     (''expires_ms'', JInt (lv_expires_ms v)), (''started'', JBool (lv_started v))]"

definition snapshot_json :: "model_view \<Rightarrow> json" where
  "snapshot_json v = obj [
     (''now_ms'', JInt (mv_now_ms v)), (''workflow_count'', JInt (mv_workflow_count v)),
     (''worker_count'', JInt (mv_worker_count v)), (''lease_count'', JInt (mv_lease_count v)),
     (''closed_lease_count'', JInt (mv_closed_lease_count v)), (''event_count'', JInt (mv_event_count v)),
     (''rejections'', JDict (map (\<lambda>(c, n). (reject_text c, JInt n)) (mv_rejections v))),
     (''workflows'', JDict (map_vals (\<lambda>f. obj [(''state'', JStr (wv_state f)),
        (''tasks'', JDict (map_vals task_view_json (wv_tasks f)))]) (mv_workflows v))),
     (''workers'', JDict (map_vals worker_view_json (mv_workers v))),
     (''leases'', JDict (map_vals lease_view_json (mv_leases v)))]"

definition event_as_dict :: "event \<Rightarrow> json" where
  "event_as_dict e = obj [(''id'', JInt (ev_sequence e)), (''type'', JStr (event_text (ev_type e))),
     (''at_ms'', JInt (ev_at_ms e)), (''workflow_id'', JStr (ev_workflow_id e)), (''task_id'', JStr (ev_task_id e)),
     (''worker_id'', JStr (ev_worker_id e)), (''data'', text_map (ev_data e))]"

text \<open>\<open>json.dumps(v, sort_keys=True)\<close>, with the separators of items and of keys.\<close>

fun dumps_sorted :: "pystr \<Rightarrow> pystr \<Rightarrow> json \<Rightarrow> pystr" where
  "dumps_sorted is ks JNull = lit ''null''"
| "dumps_sorted is ks (JBool b) = (if b then lit ''true'' else lit ''false'')"
| "dumps_sorted is ks (JInt n) = show_int n"
| "dumps_sorted is ks (JFloat t) = t"
| "dumps_sorted is ks (JStr s) = ascii_string s"
| "dumps_sorted is ks (JList xs) = [91] @ join_with is (map (dumps_sorted is ks) xs) @ [93]"
| "dumps_sorted is ks (JDict d) =
     [123] @ join_with is (map snd (sort_key fst (map (\<lambda>(k, v). (k, ascii_string k @ ks @ dumps_sorted is ks v)) d))) @ [125]"

definition model_digest :: "(pystr \<Rightarrow> pystr) \<Rightarrow> model_view \<Rightarrow> pystr" where
  "model_digest sha256 v = sha256 (dumps_sorted (lit '','') (lit '':'') (snapshot_json v))"

definition event_jsonl :: "event list \<Rightarrow> pystr" where
  "event_jsonl es = concat (map (\<lambda>e. dumps_sorted (lit '', '') (lit '': '') (event_as_dict e) @ [10]) es)"

section \<open>Reports\<close>

definition action_option_json :: "action option \<Rightarrow> json" where
  "action_option_json a = (case a of None \<Rightarrow> JNull | Some a \<Rightarrow> action_as_dict a)"

definition view_json :: "model_view option \<Rightarrow> json" where
  "view_json v = (case v of None \<Rightarrow> JDict [] | Some v \<Rightarrow> snapshot_json v)"

definition step_as_dict :: "message_texts \<Rightarrow> step_record \<Rightarrow> json" where
  "step_as_dict mt r = obj [(''index'', JInt (sr_index r)), (''action'', action_as_dict (sr_action r)),
     (''accepted'', JBool (sr_accepted r)),
     (''error_type'', JStr (case sr_error r of None \<Rightarrow> [] | Some e \<Rightarrow> error_type e)),
     (''error'', JStr (case sr_error r of None \<Rightarrow> [] | Some e \<Rightarrow> error_message mt (sr_index r) e)),
     (''digest'', JStr (sr_digest r)), (''event_count'', JInt (sr_event_count r)),
     (''active_leases'', JInt (sr_active_leases r))]"

definition failure_as_dict :: "message_texts \<Rightarrow> replay_failure \<Rightarrow> json" where
  "failure_as_dict mt f = obj [(''index'', JInt (rf_index f)), (''action'', action_option_json (rf_action f)),
     (''error_type'', JStr (failure_type f)), (''error'', JStr (failure_message mt f)),
     (''invariant_code'', JStr (failure_code f)), (''snapshot'', view_json (rf_snapshot f))]"

definition report_as_dict :: "message_texts \<Rightarrow> pystr \<Rightarrow> bool \<Rightarrow> bool \<Rightarrow> replay_report \<Rightarrow> json" where
  "report_as_dict mt elapsed include_records include_events r = obj ([
     (''seed'', JInt (rr_seed r)), (''ok'', JBool (report_ok r)), (''steps'', JInt (int (length (rr_records r)))),
     (''accepted'', JInt (report_accepted r)), (''rejected'', JInt (report_rejected r)),
     (''rejection_types'', JDict (map (\<lambda>(k, n). (k, JInt n)) (rejection_types r))),
     (''final_digest'', JStr (rr_final_digest r)), (''final_snapshot'', view_json (rr_final_snapshot r)),
     (''failure'', case rr_failure r of None \<Rightarrow> JNull | Some f \<Rightarrow> failure_as_dict mt f),
     (''elapsed_seconds'', JFloat elapsed)]
     @ (if include_records then [(''records'', JList (map (step_as_dict mt) (rr_records r)))] else [])
     @ (if include_events then [(''event_jsonl'', JStr (event_jsonl (rr_events r)))] else []))"

text \<open>The elapsed time of every report and of the campaign, and the two texts of a count divided by it.\<close>

record clock_texts =
  ct_elapsed :: "int \<Rightarrow> pystr"
  ct_campaign :: pystr
  ct_ratio :: "int \<Rightarrow> pystr"
  ct_rate :: "int \<Rightarrow> pystr"

definition campaign_as_dict :: "message_texts \<Rightarrow> clock_texts \<Rightarrow> campaign_report \<Rightarrow> json" where
  "campaign_as_dict mt ct c = (case campaign_totals c of (total_steps, accepted, rejected) \<Rightarrow> obj [
     (''first_seed'', JInt (cp_first_seed c)), (''count'', JInt (cp_count c)), (''ok'', JBool (campaign_ok c)),
     (''failures'', JList (map (\<lambda>r. report_as_dict mt (ct_elapsed ct (rr_seed r)) False False r) (campaign_failures c))),
     (''total_steps'', JInt total_steps), (''accepted'', JInt accepted), (''rejected'', JInt rejected),
     (''elapsed_seconds'', JFloat (ct_campaign ct)),
     (''scenarios_per_second'', JFloat (ct_ratio ct (cp_count c))),
     (''steps_per_second'', JFloat (ct_ratio ct total_steps))])"

end
