(* ===== verification/Lab_Shrunk.thy ===== *)
theory Lab_Shrunk
  imports Lab_Shrinker "HOL-Library.Sublist"
begin

text \<open>
  What the shrinker keeps: every reduction keeps the failure, actions and workers and tasks are only
  removed, and no single action can be removed from what the delta debugger leaves.
\<close>

section \<open>Actions\<close>

text \<open>No single action can go.\<close>

definition one_minimal :: "(action list \<Rightarrow> bool) \<Rightarrow> action list \<Rightarrow> bool" where
  "one_minimal test actions \<longleftrightarrow>
     length actions < 2 \<or> list_all (\<lambda>i. \<not> test (take i actions @ drop (i + 1) actions)) [0..<length actions]"

lemma cut_subseq: "subseq (take i xs @ drop (i + k) xs) xs"
proof -
  have "subseq (take i xs @ drop k (drop i xs)) (take i xs @ drop i xs)"
    by (intro list_emb_append_mono suffix_imp_subseq [OF suffix_drop]) simp
  then show ?thesis by (simp add: add.commute)
qed

lemma chunk_size_one: "2 \<le> n \<Longrightarrow> n \<le> g \<Longrightarrow> chunk_size n g = 1"
proof -
  assume "2 \<le> n" "n \<le> g"
  then have "n + g - 1 < 2 * g" by linarith
  then have "(n + g - 1) div g < 2" by (simp add: div_less_iff_less_mult \<open>2 \<le> n\<close>)
  then show ?thesis by (simp add: chunk_size_def)
qed

lemma ddmin_loop_facts:
  "2 \<le> g \<Longrightarrow> ddmin_loop test g actions = (result, trace) \<Longrightarrow>
     (test actions \<longrightarrow> test result) \<and> subseq result actions \<and> one_minimal test result"
proof (induction test g actions arbitrary: result trace rule: ddmin_loop.induct)
  case (1 test g actions)
  let ?width = "chunk_size (length actions) g"
  show ?case
  proof (cases "length actions < 2")
    case True
    then show ?thesis using 1 by (simp add: ddmin_loop.simps one_minimal_def)
  next
    case long: False
    obtain found tr where tried: "try_chunks test ?width actions (range_step (length actions) ?width) = (found, tr)"
      by (rule prod.exhaust)
    show ?thesis
    proof (cases found)
      case (Some candidate)
      obtain others where rest: "ddmin_loop test (max 2 (g - 1)) candidate = (result, others)"
        using 1(4) long 1(3) tried Some
        by (subst (asm) ddmin_loop.simps) (auto simp: Let_def split: prod.splits)
      have cand: "test candidate" "subseq candidate actions"
        using try_chunks_Some [OF tried [unfolded Some]] cut_subseq by auto
      have "(test candidate \<longrightarrow> test result) \<and> subseq result candidate \<and> one_minimal test result"
        using 1(2) [OF _ refl tried [symmetric] Some _ rest] long 1(3) by simp
      then show ?thesis using cand subseq_order.trans by blast
    next
      case None
      note fails = try_chunks_None [OF tried [unfolded None]]
      show ?thesis
      proof (cases "length actions \<le> g")
        case True
        then have "result = actions"
          using 1(4) long 1(3) tried None by (subst (asm) ddmin_loop.simps) (simp add: Let_def)
        moreover have "?width = 1" using chunk_size_one long True by simp
        then have "\<not> test (take i actions @ drop (i + 1) actions)" if "i < length actions" for i
          using fails [of i] that by (simp add: range_step_def)
        ultimately show ?thesis by (simp add: one_minimal_def list_all_iff)
      next
        case False
        obtain others where rest: "ddmin_loop test (min (length actions) (g * 2)) actions = (result, others)"
          using 1(4) long 1(3) tried None False
          by (subst (asm) ddmin_loop.simps) (auto simp: Let_def split: prod.splits)
        show ?thesis
          using 1(1) [OF _ refl tried [symmetric] None False _ rest] long 1(3) by simp
      qed
    qed
  qed
qed

lemma ddmin_facts:
  assumes "ddmin_actions fails sc = (result, trace)"
  shows "\<exists>actions. result = sc\<lparr>sc_actions := actions\<rparr> \<and> subseq actions (sc_actions sc)
    \<and> one_minimal (\<lambda>actions. fails (sc\<lparr>sc_actions := actions\<rparr>)) actions" "fails sc \<Longrightarrow> fails result"
proof -
  have "\<exists>actions. result = sc\<lparr>sc_actions := actions\<rparr> \<and> subseq actions (sc_actions sc)
    \<and> one_minimal (\<lambda>actions. fails (sc\<lparr>sc_actions := actions\<rparr>)) actions \<and> (fails sc \<longrightarrow> fails result)"
  proof (cases "length (sc_actions sc) \<le> 1")
    case True
    then show ?thesis using assms by (intro exI [of _ "sc_actions sc"]) (simp add: ddmin_actions_def one_minimal_def)
  next
    case False
    then obtain actions where run: "ddmin_loop (\<lambda>actions. fails (sc\<lparr>sc_actions := actions\<rparr>)) 2 (sc_actions sc)
        = (actions, trace)" "result = sc\<lparr>sc_actions := actions\<rparr>"
      using assms by (auto simp: ddmin_actions_def split: prod.splits)
    from ddmin_loop_facts [OF order_refl run(1)] run(2) show ?thesis by auto
  qed
  then show "\<exists>actions. result = sc\<lparr>sc_actions := actions\<rparr> \<and> subseq actions (sc_actions sc)
    \<and> one_minimal (\<lambda>actions. fails (sc\<lparr>sc_actions := actions\<rparr>)) actions" "fails sc \<Longrightarrow> fails result" by blast+
qed

lemma try_variants_facts:
  "try_variants test i a vs actions = (result, trace) \<Longrightarrow>
     length result = length actions \<and> (test actions \<longrightarrow> test result)"
  by (induction vs arbitrary: a actions trace) (fastforce simp: Let_def split: if_splits prod.splits)+

lemma simplify_loop_facts:
  "simplify_loop test is actions = (result, trace) \<Longrightarrow>
     length result = length actions \<and> (test actions \<longrightarrow> test result)"
  by (induction "is" arbitrary: actions trace) (fastforce dest: try_variants_facts split: prod.splits)+

lemma simplify_facts:
  assumes "simplify_actions fails sc = (result, trace)"
  shows "\<exists>actions. result = sc\<lparr>sc_actions := actions\<rparr> \<and> length actions = length (sc_actions sc)"
    "fails sc \<Longrightarrow> fails result"
  using assms simplify_loop_facts [of "\<lambda>actions. fails (sc\<lparr>sc_actions := actions\<rparr>)"]
  by (fastforce simp: simplify_actions_def split: prod.splits)+

section \<open>Workers\<close>

lemma remove_workers_loop_facts:
  "remove_workers_loop test actions i specs = (result, trace) \<Longrightarrow>
     subseq result specs \<and> (result = [] \<longrightarrow> specs = []) \<and> (test specs \<longrightarrow> test result)"
proof (induction test actions i specs arbitrary: result trace rule: remove_workers_loop.induct)
  case (1 test actions i specs)
  let ?k = "fst (specs ! i)" and ?candidate = "take i specs @ drop (i + 1) specs"
  show ?case
  proof (cases "i < length specs")
    case False
    then show ?thesis using 1(4) by (simp add: remove_workers_loop.simps)
  next
    case inside: True
    show ?thesis
    proof (cases "actions_reference_worker actions ?k \<or> ?candidate = []")
      case True
      then have "remove_workers_loop test actions (i + 1) specs = (result, trace)"
        using 1(4) inside by (subst (asm) remove_workers_loop.simps) (simp only: if_True Let_def)
      then show ?thesis using 1(1) [OF inside refl refl True] by blast
    next
      case False
      show ?thesis
      proof (cases "test ?candidate")
        case True
        then obtain tr where "remove_workers_loop test actions i ?candidate = (result, tr)"
          using 1(4) inside False
          by (subst (asm) remove_workers_loop.simps) (simp only: if_True if_False Let_def split: prod.splits; blast)
        from 1(2) [OF inside refl refl False refl refl True this] show ?thesis
          using True False cut_subseq [of i specs 1] subseq_order.trans by blast
      next
        case rejected: False
        then obtain tr where "remove_workers_loop test actions (i + 1) specs = (result, tr)"
          using 1(4) inside False
          by (subst (asm) remove_workers_loop.simps) (simp only: if_True if_False Let_def split: prod.splits; blast)
        from 1(3) [OF inside refl refl False refl refl rejected this] show ?thesis .
      qed
    qed
  qed
qed

lemma remove_workers_facts:
  assumes "remove_workers fails sc = (result, trace)"
  shows "\<exists>specs. result = sc\<lparr>sc_workers := specs\<rparr> \<and> subseq specs (sc_workers sc)
    \<and> (specs = [] \<longrightarrow> sc_workers sc = [])" "fails sc \<Longrightarrow> fails result"
proof -
  obtain specs where run: "remove_workers_loop (\<lambda>specs. fails (sc\<lparr>sc_workers := specs\<rparr>)) (sc_actions sc) 0
      (sc_workers sc) = (specs, trace)" "result = sc\<lparr>sc_workers := specs\<rparr>"
    using assms by (auto simp: remove_workers_def split: prod.splits)
  note facts = remove_workers_loop_facts [OF run(1)]
  show "\<exists>specs. result = sc\<lparr>sc_workers := specs\<rparr> \<and> subseq specs (sc_workers sc)
    \<and> (specs = [] \<longrightarrow> sc_workers sc = [])" using facts run(2) by blast
  show "fails result" if "fails sc" using facts run(2) that by simp
qed

section \<open>Tasks\<close>

lemma constructed_without:
  assumes "constructed ts"
  shows "without_task ts target = Inr (map (\<lambda>t. t\<lparr>t_depends_on :=
      bypass target (target_dependencies ts target) (t_depends_on t)\<rparr>) (filter (\<lambda>t. t_id t \<noteq> target) ts))"
proof -
  have "constructed (filter (\<lambda>t. t_id t \<noteq> target) ts)" using assms by (auto simp: constructed_def list_all_iff)
  then show ?thesis by (simp add: without_task_def clone_constructed)
qed

lemma without_constructed:
  assumes "constructed ts" "without_task ts target = Inr us"
  shows "constructed us" "subseq (map t_id us) (map t_id ts)"
proof -
  have us: "us = map (\<lambda>t. t\<lparr>t_depends_on := bypass target (target_dependencies ts target) (t_depends_on t)\<rparr>)
      (filter (\<lambda>t. t_id t \<noteq> target) ts)" using constructed_without [OF assms(1)] assms(2) by simp
  show "constructed us" using assms(1) by (auto simp: us constructed_def list_all_iff intro: clone_deps)
  have "map t_id us = map t_id (filter (\<lambda>t. t_id t \<noteq> target) ts)" by (simp add: us comp_def)
  then show "subseq (map t_id us) (map t_id ts)" by (metis subseq_filter_left subseq_map)
qed

text \<open>The cloning never raises, and every candidate that was accepted fails.\<close>

lemma remove_tasks_loop_facts:
  "constructed ts \<Longrightarrow> \<exists>us trace. remove_tasks_loop test actions k ts = Inr (us, trace) \<and> constructed us
     \<and> subseq (map t_id us) (map t_id ts) \<and> (us = [] \<longrightarrow> ts = []) \<and> (test ts \<longrightarrow> test us)"
proof (induction test actions k ts rule: remove_tasks_loop.induct)
  case (1 test actions k ts)
  let ?target = "t_id (ts ! (k - 1))"
  note step = remove_tasks_loop.simps [of test actions k ts]
  show ?case
  proof (cases "0 < k \<and> 1 < length ts")
    case False
    then have "remove_tasks_loop test actions k ts = Inr (ts, [])" by (simp only: step if_False)
    then show ?thesis using 1(5) by simp
  next
    case inside: True
    show ?thesis
    proof (cases "actions_reference_task actions ?target")
      case True
      then have "remove_tasks_loop test actions k ts = remove_tasks_loop test actions (k - 1) ts"
        using inside by (simp add: step Let_def)
      then show ?thesis using 1(1) [OF inside refl True 1(5)] by simp
    next
      case unused: False
      obtain us where us: "without_task ts ?target = Inr us" using constructed_without [OF 1(5)] by blast
      note kept = without_constructed [OF 1(5) us]
      have clones: "clone_all us = Inr us" by (rule clone_constructed [OF kept(1)])
      show ?thesis
      proof (cases "validate_dag us")
        case (Inl e)
        then have "remove_tasks_loop test actions k ts = remove_tasks_loop test actions (k - 1) ts"
          using inside unused us by (simp add: step Let_def)
        then show ?thesis using 1(2) [OF inside refl unused us Inl 1(5)] by simp
      next
        case (Inr order)
        then have "us \<noteq> []" by (auto simp: validate_dag_Inr graph_ok_tasks)
        show ?thesis
        proof (cases "test us")
          case True
          obtain vs tr where "remove_tasks_loop test actions (min (k - 1) (length us)) us = Inr (vs, tr)" "constructed vs"
            "subseq (map t_id vs) (map t_id us)" "vs = [] \<longrightarrow> us = []" "test us \<longrightarrow> test vs"
            using 1(3) [OF inside refl unused us Inr clones refl refl True kept(1)] by blast
          then show ?thesis
            using inside unused us Inr clones True kept(2) \<open>us \<noteq> []\<close> subseq_order.trans
            by (auto simp: step Let_def)
        next
          case False
          obtain vs tr where "remove_tasks_loop test actions (k - 1) ts = Inr (vs, tr)" "constructed vs"
            "subseq (map t_id vs) (map t_id ts)" "vs = [] \<longrightarrow> ts = []" "test ts \<longrightarrow> test vs"
            using 1(4) [OF inside refl unused us Inr clones refl refl False 1(5)] by blast
          then show ?thesis using inside unused us Inr clones False by (auto simp: step Let_def)
        qed
      qed
    qed
  qed
qed

lemma remove_tasks_facts:
  assumes "constructed (gw_tasks (sc_workflow sc))"
  shows "\<exists>us trace. remove_tasks fails sc = Inr (with_tasks sc us, trace) \<and> constructed us
    \<and> subseq (map t_id us) (map t_id (gw_tasks (sc_workflow sc))) \<and> (us = [] \<longrightarrow> gw_tasks (sc_workflow sc) = [])
    \<and> (fails sc \<longrightarrow> fails (with_tasks sc us))"
proof -
  let ?ts = "gw_tasks (sc_workflow sc)"
  have same: "with_tasks sc ?ts = sc" by (simp add: with_tasks_def)
  obtain us trace where "remove_tasks_loop (\<lambda>ts. fails (with_tasks sc ts)) (sc_actions sc) (length ?ts) ?ts = Inr (us, trace)"
    "constructed us" "subseq (map t_id us) (map t_id ?ts)" "us = [] \<longrightarrow> ?ts = []"
    "fails (with_tasks sc ?ts) \<longrightarrow> fails (with_tasks sc us)"
    using remove_tasks_loop_facts [OF assms, of "\<lambda>ts. fails (with_tasks sc ts)" "sc_actions sc" "length ?ts"] by blast
  then show ?thesis
    using clone_constructed [OF assms] clone_constructed [of us] by (auto simp: remove_tasks_def same)
qed

section \<open>Rounds\<close>

text \<open>What a scenario keeps of the one it was reduced from.\<close>

definition reduced :: "'n scenario \<Rightarrow> 'n scenario \<Rightarrow> bool" where
  "reduced small sc \<longleftrightarrow> sc_seed small = sc_seed sc \<and> sc_notes small = sc_notes sc
     \<and> length (sc_actions small) \<le> length (sc_actions sc)
     \<and> subseq (sc_workers small) (sc_workers sc) \<and> (sc_workers small = [] \<longrightarrow> sc_workers sc = [])
     \<and> subseq (map t_id (gw_tasks (sc_workflow small))) (map t_id (gw_tasks (sc_workflow sc)))
     \<and> (gw_tasks (sc_workflow small) = [] \<longrightarrow> gw_tasks (sc_workflow sc) = [])"

lemma reduced_refl: "reduced sc sc"
  by (simp add: reduced_def)

lemma reduced_trans: "reduced a b \<Longrightarrow> reduced b c \<Longrightarrow> reduced a c"
  unfolding reduced_def by (intro conjI; (elim conjE)?) (metis subseq_order.trans order.trans)+

abbreviation well_made :: "'n scenario \<Rightarrow> bool" where
  "well_made sc \<equiv> constructed (gw_tasks (sc_workflow sc))"

definition round_keeps :: "('n scenario \<Rightarrow> bool) \<Rightarrow> 'n scenario \<Rightarrow> 'n scenario \<Rightarrow> bool" where
  "round_keeps fails sc sc' \<longleftrightarrow> reduced sc' sc \<and> well_made sc' \<and> (fails sc \<longrightarrow> fails sc')"

lemma keeps_if: "round_keeps fails sc a \<Longrightarrow> round_keeps fails sc b \<Longrightarrow> round_keeps fails sc (if p then a else b)"
  by simp

lemma round_keeps_refl: "well_made sc \<Longrightarrow> round_keeps fails sc sc"
  by (simp add: round_keeps_def reduced_refl)

lemma round_keeps_trans: "round_keeps fails a b \<Longrightarrow> round_keeps fails b c \<Longrightarrow> round_keeps fails a c"
  unfolding round_keeps_def using reduced_trans by blast

lemma ddmin_keeps: "well_made sc \<Longrightarrow> ddmin_actions fails sc = (result, trace) \<Longrightarrow> round_keeps fails sc result"
  using ddmin_facts [of fails sc result trace] by (auto simp: round_keeps_def reduced_def dest: list_emb_length)

lemma simplify_keeps: "well_made sc \<Longrightarrow> simplify_actions fails sc = (result, trace) \<Longrightarrow> round_keeps fails sc result"
  using simplify_facts [of fails sc result trace] by (auto simp: round_keeps_def reduced_def)

lemma workers_keeps: "well_made sc \<Longrightarrow> remove_workers fails sc = (result, trace) \<Longrightarrow> round_keeps fails sc result"
  using remove_workers_facts [of fails sc result trace] by (auto simp: round_keeps_def reduced_def)

lemma tasks_keeps:
  assumes "well_made sc"
  obtains result trace where "remove_tasks fails sc = Inr (result, trace)" "round_keeps fails sc result"
  using remove_tasks_facts [OF assms, of fails] by (auto simp: round_keeps_def reduced_def with_tasks_def)

lemma shrink_round_keeps:
  assumes "well_made sc"
  obtains result trace changed where "shrink_round fails sc = Inr (result, trace, changed)" "round_keeps fails sc result"
proof -
  obtain a t1 where a: "ddmin_actions fails sc = (a, t1)" by (rule prod.exhaust)
  define s1 where "s1 = (if length (sc_actions a) < length (sc_actions sc) then a else sc)"
  have k1: "round_keeps fails sc s1"
    unfolding s1_def by (rule keeps_if [OF ddmin_keeps [OF assms a] round_keeps_refl [OF assms]])
  then have w1: "well_made s1" by (simp add: round_keeps_def)
  obtain b t2 where b: "simplify_actions fails s1 = (b, t2)" by (rule prod.exhaust)
  define s2 where "s2 = (if sc_actions b \<noteq> sc_actions s1 then b else s1)"
  have k2: "round_keeps fails s1 s2"
    unfolding s2_def by (rule keeps_if [OF simplify_keeps [OF w1 b] round_keeps_refl [OF w1]])
  then have w2: "well_made s2" by (simp add: round_keeps_def)
  obtain c t3 where c: "remove_workers fails s2 = (c, t3)" by (rule prod.exhaust)
  define s3 where "s3 = (if sc_workers c \<noteq> sc_workers s2 then c else s2)"
  have k3: "round_keeps fails s2 s3"
    unfolding s3_def by (rule keeps_if [OF workers_keeps [OF w2 c] round_keeps_refl [OF w2]])
  then have w3: "well_made s3" by (simp add: round_keeps_def)
  obtain d t4 where d: "remove_tasks fails s3 = Inr (d, t4)" "round_keeps fails s3 d"
    by (rule tasks_keeps [OF w3])
  define s4 where "s4 = (if gw_tasks (sc_workflow d) \<noteq> gw_tasks (sc_workflow s3) then d else s3)"
  have k4: "round_keeps fails s3 s4"
    unfolding s4_def by (rule keeps_if [OF d(2) round_keeps_refl [OF w3]])
  have "round_keeps fails sc s4"
    by (rule round_keeps_trans [OF k1 round_keeps_trans [OF k2 round_keeps_trans [OF k3 k4]]])
  moreover have "\<exists>trace changed. shrink_round fails sc = Inr (s4, trace, changed)"
    unfolding shrink_round_def a prod.case Let_def
    unfolding s1_def [symmetric] b prod.case
    unfolding s2_def [symmetric] c prod.case
    unfolding s3_def [symmetric] d(1) sum.case prod.case
    unfolding s4_def [symmetric] by blast
  ultimately show ?thesis using that by blast
qed

lemma shrink_rounds_keeps:
  "well_made sc \<Longrightarrow> \<exists>result trace. shrink_rounds fails n sc = Inr (result, trace) \<and> round_keeps fails sc result"
proof (induction n arbitrary: sc)
  case (Suc n)
  obtain a tr changed where a: "shrink_round fails sc = Inr (a, tr, changed)" "round_keeps fails sc a"
    by (rule shrink_round_keeps [OF Suc.prems])
  then have "well_made a" by (simp add: round_keeps_def)
  from Suc.IH [OF this] obtain b trace where b: "shrink_rounds fails n a = Inr (b, trace)" "round_keeps fails a b"
    by blast
  show ?case using a b round_keeps_trans [OF a(2) b(2)] by (cases changed) auto
qed (simp add: round_keeps_refl)

text \<open>A predicate that never raises: the shrinker succeeds, and what it returns still fails.\<close>

lemma shrink_keeps:
  assumes "\<And>r. predicate r \<noteq> None" "predicate (run sc) = Some True" "well_made sc"
  obtains result where "shrink run predicate rounds sc = Inr result" "sh_original result = sc"
    "sh_report result = run (sh_minimized result)" "predicate (sh_report result) = Some True"
    "reduced (sh_minimized result) sc"
proof -
  have whole: "fails_on run predicate s \<longleftrightarrow> predicate (run s) = Some True" for s
    using assms(1) [of "run s"] by (auto simp: fails_on_def split: option.splits)
  obtain small trace where small: "shrink_rounds (fails_on run predicate) (nat (max 1 rounds)) sc = Inr (small, trace)"
    "round_keeps (fails_on run predicate) sc small"
    using shrink_rounds_keeps [OF assms(3)] by blast
  have "predicate (run small) = Some True" "reduced small sc"
    using small(2) assms(2) by (simp_all add: round_keeps_def whole)
  then show ?thesis
    using small(1) assms(2) that [of "\<lparr>sh_original = sc, sh_minimized = small, sh_report = run small, sh_passes = trace\<rparr>"]
    by (simp add: shrink_def)
qed

end
