(* ===== verification/Lab_Main.thy ===== *)
theory Lab_Main
  imports Lab_Report Lab_Shrunk
begin

text \<open>
  The command line of the chaos lab's runner on a file system (\<open>main\<close>, \<open>save_scenario\<close> and
  \<open>load_scenario\<close> in \<open>tools/chaos_lab/runner.py\<close>), the failure signature and the printed summary of the
  shrinker, \<open>replace_task\<close> of the generator. Its input is a parsed command: \<open>argparse\<close> is a library. The
  parser and the indented form of the \<open>json\<close> module are parameters.
\<close>

section \<open>Files\<close>

text \<open>A file that is written is there afterwards; a directory that is missing is not modelled.\<close>

datatype lab_error =
  No_file pystr | Not_json | Not_object | Bad_trace trace_error | Bad_generation gen_error

record lab_lib =
  ll_pretty :: "json \<Rightarrow> pystr"
  ll_loads :: "pystr \<Rightarrow> json option"
  ll_conversions :: conversions
  ll_note :: "gen_note \<Rightarrow> pystr"
  ll_texts :: message_texts
  ll_clock :: clock_texts
  ll_digest :: "pystr \<Rightarrow> pystr"
  ll_sha256 :: "pystr \<Rightarrow> pystr"

record lab_world =
  lw_files :: "(pystr, pystr) dict"
  lw_out :: "pystr list"
  lw_err :: "pystr list"

type_synonym 'a lab_proc = "(lab_world, lab_error, 'a) proc"

definition print_out :: "pystr \<Rightarrow> unit lab_proc" where
  "print_out s = modify (\<lambda>w. w\<lparr>lw_out := lw_out w @ [s]\<rparr>)"

definition print_err :: "pystr \<Rightarrow> unit lab_proc" where
  "print_err s = modify (\<lambda>w. w\<lparr>lw_err := lw_err w @ [s]\<rparr>)"

definition save_scenario :: "lab_lib \<Rightarrow> pystr \<Rightarrow> gen_note scenario \<Rightarrow> unit lab_proc" where
  "save_scenario lib path sc =
     modify (\<lambda>w. w\<lparr>lw_files := dput path (ll_pretty lib (scenario_to_dict (ll_note lib) sc) @ [10]) (lw_files w)\<rparr>)"

definition load_scenario :: "lab_lib \<Rightarrow> pystr \<Rightarrow> pystr scenario lab_proc" where
  "load_scenario lib path w =
     (case dget (lw_files w) path of
        None \<Rightarrow> (Inl (No_file path), w)
      | Some source \<Rightarrow>
          (case ll_loads lib source of
             None \<Rightarrow> (Inl Not_json, w)
           | Some (JDict d) \<Rightarrow>
               (case scenario_from_dict (ll_conversions lib) (JDict d) of
                  Inl e \<Rightarrow> (Inl (Bad_trace e), w) | Inr sc \<Rightarrow> (Inr sc, w))
           | Some _ \<Rightarrow> (Inl Not_object, w)))"

section \<open>The command line\<close>

datatype lab_command =
  Generate_cmd int int pystr
  | Replay_cmd pystr bool bool
  | Campaign_cmd int int int bool bool bool
  | Determinism_cmd pystr

definition show_bool :: "bool \<Rightarrow> pystr" where
  "show_bool b = (if b then lit ''True'' else lit ''False'')"

definition lab_replay :: "lab_lib \<Rightarrow> bool \<Rightarrow> 'n scenario \<Rightarrow> replay_report" where
  "lab_replay lib strict sc = replay (ll_digest lib) (model_digest (ll_sha256 lib)) strict True None sc"

definition generate_command ::
  "lab_lib \<Rightarrow> (int \<Rightarrow> 'r) \<Rightarrow> 'r rng \<Rightarrow> int \<Rightarrow> int \<Rightarrow> pystr \<Rightarrow> int lab_proc" where
  "generate_command lib seeded g seed steps path =
     (case generate_one seeded g None (ll_digest lib) steps seed of
        Inl e \<Rightarrow> raise (Bad_generation e)
      | Inr sc \<Rightarrow>
          andThen (save_scenario lib path sc)
            (andThen (print_out (lit ''wrote seed='' @ show_int (sc_seed sc) @ lit '' steps='' @
                show_int (int (length (sc_actions sc))) @ lit '' to '' @ path))
              (ret 0)))"

definition replay_line :: "replay_report \<Rightarrow> pystr" where
  "replay_line r = lit ''seed='' @ show_int (rr_seed r) @ lit '' ok='' @ show_bool (report_ok r)
     @ lit '' steps='' @ show_int (int (length (rr_records r))) @ lit '' accepted='' @ show_int (report_accepted r)
     @ lit '' rejected='' @ show_int (report_rejected r) @ lit '' digest='' @ rr_final_digest r"

definition failure_line :: "message_texts \<Rightarrow> replay_failure \<Rightarrow> pystr" where
  "failure_line mt f = lit ''failure at step '' @ show_int (rf_index f) @ lit '': '' @ failure_type f @ lit '': ''
     @ failure_message mt f"

definition replay_command :: "lab_lib \<Rightarrow> pystr \<Rightarrow> bool \<Rightarrow> bool \<Rightarrow> int lab_proc" where
  "replay_command lib path as_json strict =
     chain (load_scenario lib path) (\<lambda>sc.
       let r = lab_replay lib strict sc in
       andThen
         (if as_json
          then print_out (ll_pretty lib (report_as_dict (ll_texts lib) (ct_elapsed (ll_clock lib) (rr_seed r)) True False r))
          else andThen (print_out (replay_line r))
            (case rr_failure r of None \<Rightarrow> ret () | Some f \<Rightarrow> print_err (failure_line (ll_texts lib) f)))
         (ret (if report_ok r then 0 else 1)))"

definition campaign_line :: "clock_texts \<Rightarrow> campaign_report \<Rightarrow> pystr" where
  "campaign_line ct c = (case campaign_totals c of (total_steps, accepted, rejected) \<Rightarrow>
     lit ''scenarios='' @ show_int (cp_count c) @ lit '' ok='' @ show_bool (campaign_ok c) @ lit '' steps='' @ show_int total_steps
     @ lit '' accepted='' @ show_int accepted @ lit '' rejected='' @ show_int rejected
     @ lit '' rate='' @ ct_rate ct total_steps @ lit '' steps/s'')"

definition seed_line :: "message_texts \<Rightarrow> replay_report \<Rightarrow> pystr" where
  "seed_line mt r = (case rr_failure r of
     None \<Rightarrow> []
   | Some f \<Rightarrow> lit ''seed '' @ show_int (rr_seed r) @ lit '' failed at step '' @ show_int (rf_index f) @ lit '': ''
       @ failure_message mt f)"

definition campaign_command ::
  "lab_lib \<Rightarrow> (int \<Rightarrow> 'r) \<Rightarrow> 'r rng \<Rightarrow> int \<Rightarrow> int \<Rightarrow> int \<Rightarrow> bool \<Rightarrow> bool \<Rightarrow> bool \<Rightarrow> int lab_proc" where
  "campaign_command lib seeded g seed number steps as_json strict keep_going =
     (case run_campaign seeded g (ll_digest lib) (model_digest (ll_sha256 lib)) seed number steps None strict (\<not> keep_going) of
        Inl e \<Rightarrow> raise (Bad_generation e)
      | Inr c \<Rightarrow>
          andThen
            (if as_json then print_out (ll_pretty lib (campaign_as_dict (ll_texts lib) (ll_clock lib) c))
             else andThen (print_out (campaign_line (ll_clock lib) c))
               (for_each (campaign_failures c) (\<lambda>r. print_err (seed_line (ll_texts lib) r))))
            (ret (if campaign_ok c then 0 else 1)))"

definition determinism_command :: "lab_lib \<Rightarrow> pystr \<Rightarrow> int lab_proc" where
  "determinism_command lib path =
     chain (load_scenario lib path) (\<lambda>sc.
       case determinism_check (ll_digest lib) (model_digest (ll_sha256 lib)) False sc of (same, first, second) \<Rightarrow>
         andThen (print_out (lit ''deterministic='' @ show_bool same @ lit '' first='' @ rr_final_digest first
             @ lit '' second='' @ rr_final_digest second @ lit '' steps='' @ show_int (int (length (rr_records first)))))
           (ret (if same then 0 else 1)))"

fun lab_main :: "lab_lib \<Rightarrow> (int \<Rightarrow> 'r) \<Rightarrow> 'r rng \<Rightarrow> lab_command \<Rightarrow> int lab_proc" where
  "lab_main lib seeded g (Generate_cmd seed steps path) = generate_command lib seeded g seed steps path"
| "lab_main lib seeded g (Replay_cmd path as_json strict) = replay_command lib path as_json strict"
| "lab_main lib seeded g (Campaign_cmd seed number steps as_json strict keep_going) =
     campaign_command lib seeded g seed number steps as_json strict keep_going"
| "lab_main lib seeded g (Determinism_cmd path) = determinism_command lib path"

section \<open>The signature of a failure\<close>

definition prefix_of :: "pystr \<Rightarrow> pystr" where
  "prefix_of s = strip (takeWhile (\<lambda>c. c \<noteq> 58) s)"

definition same_failure_signature :: "message_texts \<Rightarrow> replay_failure \<Rightarrow> replay_report \<Rightarrow> bool" where
  "same_failure_signature mt expected r = (case rr_failure r of
     None \<Rightarrow> False
   | Some f \<Rightarrow>
       if failure_code expected \<noteq> [] then failure_code f = failure_code expected
       else failure_type f = failure_type expected
         \<and> prefix_of (failure_message mt f) = prefix_of (failure_message mt expected))"

definition format_shrink_summary :: "message_texts \<Rightarrow> 'n shrink_result \<Rightarrow> pystr" where
  "format_shrink_summary mt r =
     (let accepted = length (filter sp_accepted (sh_passes r));
          rejected = int (length (sh_passes r)) - int accepted;
          arrow = (\<lambda>name a b. lit name @ show_nat a @ lit '' -> '' @ show_nat b);
          a = sh_original r; b = sh_minimized r
      in join_with [10] ([lit ''HelixGrid chaos shrink result'',
           arrow ''actions: '' (length (sc_actions a)) (length (sc_actions b)),
           arrow ''workers: '' (length (sc_workers a)) (length (sc_workers b)),
           arrow ''tasks: '' (length (gw_tasks (sc_workflow a))) (length (gw_tasks (sc_workflow b))),
           lit ''passes: '' @ show_nat (length (sh_passes r)) @ lit '' ('' @ show_nat accepted @ lit '' accepted, ''
             @ show_int rejected @ lit '' rejected)'']
         @ (case rr_failure (sh_report r) of
              None \<Rightarrow> []
            | Some f \<Rightarrow> [lit ''failure: step='' @ show_int (rf_index f) @ lit '' type='' @ failure_type f
                @ lit '' code='' @ (if failure_code f = [] then lit ''-'' else failure_code f)
                @ lit '' error='' @ failure_message mt f])))"

section \<open>Copies\<close>

text \<open>\<open>clone\<close> of a workflow, a worker and a lease; cloning a task may raise.\<close>

fun clone_entries :: "(pystr, task) dict \<Rightarrow> chaos_error + (pystr, task) dict" where
  "clone_entries [] = Inr []"
| "clone_entries ((k, t) # d) = (case task_clone t of
     Inl e \<Rightarrow> Inl e
   | Inr t' \<Rightarrow> (case clone_entries d of Inl e \<Rightarrow> Inl e | Inr d' \<Rightarrow> Inr ((k, t') # d')))"

definition workflow_clone :: "workflow \<Rightarrow> chaos_error + workflow" where
  "workflow_clone f = (case clone_entries (wf_tasks f) of
     Inl e \<Rightarrow> Inl e
   | Inr d \<Rightarrow> Inr \<lparr>wf_id = wf_id f, wf_name = wf_name f, wf_tasks = d, wf_order = wf_order f,
       wf_created_ms = wf_created_ms f, wf_state = wf_state f, wf_finished_ms = wf_finished_ms f,
       wf_metadata = wf_metadata f\<rparr>)"

text \<open>\<open>replace_task\<close>: the changes are given by the names of attributes.\<close>

datatype replace_error = No_attribute pystr | No_task pystr | Clone_raised chaos_error | Invalid_tasks chaos_error

definition task_attributes :: "pystr list" where
  "task_attributes = map lit [''id'', ''depends_on'', ''labels'', ''retry'', ''timeout_ms'', ''state'', ''attempt'',
     ''lease_token'', ''lease_owner'', ''lease_until_ms'', ''next_retry_ms'', ''started_ms'', ''finished_ms'',
     ''exit_code'', ''error'', ''output_bytes'', ''history'']"

fun apply_changes :: "(pystr \<times> (task \<Rightarrow> task)) list \<Rightarrow> task \<Rightarrow> replace_error + task" where
  "apply_changes [] t = Inr t"
| "apply_changes ((k, f) # cs) t = (if k \<notin> set task_attributes then Inl (No_attribute k) else apply_changes cs (f t))"

fun replace_in :: "pystr \<Rightarrow> (pystr \<times> (task \<Rightarrow> task)) list \<Rightarrow> task list \<Rightarrow> replace_error + task list" where
  "replace_in target changes [] = Inr []"
| "replace_in target changes (t # ts) = (case task_clone t of
     Inl e \<Rightarrow> Inl (Clone_raised e)
   | Inr copy \<Rightarrow>
       (case (if t_id copy = target then apply_changes changes copy else Inr copy) of
          Inl e \<Rightarrow> Inl e
        | Inr t' \<Rightarrow> (case replace_in target changes ts of Inl e \<Rightarrow> Inl e | Inr ts' \<Rightarrow> Inr (t' # ts'))))"

definition replace_task ::
  "gen_workflow \<Rightarrow> pystr \<Rightarrow> (pystr \<times> (task \<Rightarrow> task)) list \<Rightarrow> replace_error + gen_workflow" where
  "replace_task w target changes = (case replace_in target changes (gw_tasks w) of
     Inl e \<Rightarrow> Inl e
   | Inr ts \<Rightarrow>
       if \<not> list_ex (\<lambda>t. t_id t = target) (gw_tasks w) then Inl (No_task target)
       else case validate_dag ts of Inl e \<Rightarrow> Inl (Invalid_tasks e) | Inr _ \<Rightarrow> Inr (w\<lparr>gw_tasks := ts\<rparr>))"

end
