(* ===== verification/Lab_Generated.thy ===== *)
theory Lab_Generated
  imports Lab_Generator
begin

text \<open>
  What the generator's loop has tried, the runner replays: both set up the same model, carry out the
  same actions and check it after each.
\<close>

section \<open>Drawing\<close>

lemma chain_Inr_iff: "chain p f s = (Inr y, s') \<longleftrightarrow> (\<exists>x s1. p s = (Inr x, s1) \<and> f x s1 = (Inr y, s'))"
  by (auto simp: chain_def split: prod.splits sum.splits)

lemma from_result_Inr_iff: "from_result p s = (Inr y, s') \<longleftrightarrow> p = Inr y \<and> s' = s"
  by (auto simp: from_result_def ret_def raise_def split: sum.splits)

text \<open>The notes of a list of records.\<close>

definition record_notes :: "step_record list \<Rightarrow> gen_note list" where
  "record_notes rs = concat (map (\<lambda>r. case sr_error r of None \<Rightarrow> [] | Some e \<Rightarrow> [(ac_kind (sr_action r), e)]) rs)"

lemma record_notes_Cons:
  "record_notes (r # rs) = (case sr_error r of None \<Rightarrow> [] | Some e \<Rightarrow> [(ac_kind (sr_action r), e)]) @ record_notes rs"
  by (simp add: record_notes_def)

lemma replay_step_passes:
  assumes "check_invariants (snd (apply_action digest a m)) = None"
    and "\<And>e. fst (apply_action digest a m) = Inl e \<Longrightarrow> is_model_error e"
    and "replay_step digest fingerprint False i a None m = (r, failed, s)"
  shows "failed = None" "s = snd (apply_action digest a m)" "sr_action r = a" "sr_index r = int i"
    "sr_error r = (case fst (apply_action digest a m) of Inl e \<Rightarrow> Some e | Inr _ \<Rightarrow> None)"
  using assms by (auto simp: replay_step_def Let_def split: prod.splits sum.splits)

lemma generate_steps_Suc:
  assumes "generate_steps g c digest (Suc n) m r = (Inr (acts, noted), r')" "acts \<noteq> []"
  obtains a bs other r1 where "acts = a # bs" "check_invariants (snd (apply_action digest a m)) = None"
    "noted = (case fst (apply_action digest a m) of Inl e \<Rightarrow> [(ac_kind a, e)] | Inr _ \<Rightarrow> []) @ other"
    "bs = [] \<and> other = [] \<or> generate_steps g c digest n (snd (apply_action digest a m)) r1 = (Inr (bs, other), r')"
proof -
  obtain found r0 where found: "next_action g c m r = (Inr found, r0)"
    and rest: "(if found = None \<and> model_terminal m then ret ([], [])
       else chain (case found of
                Some a \<Rightarrow> ret a
              | None \<Rightarrow> chain (randint g 1 500) (\<lambda>d. ret ((bare_action AdvanceTime)\<lparr>ac_amount := d\<rparr>)))
         (\<lambda>a. case apply_action digest a m of (result, m') \<Rightarrow>
           let noted = (case result of Inl e \<Rightarrow> [(ac_kind a, e)] | Inr _ \<Rightarrow> []) in
           case check_invariants m' of
             Some v \<Rightarrow> raise (Check_failed v)
           | None \<Rightarrow>
               if model_terminal m' \<and> leases m' = [] then ret ([a], noted)
               else chain (generate_steps g c digest n m') (\<lambda>(acts, others).
                 ret (a # acts, noted @ others)))) r0 = (Inr (acts, noted), r')"
    using assms(1) by (auto simp: chain_Inr_iff)
  obtain a r2 where body: "(case apply_action digest a m of (result, m') \<Rightarrow>
           let noted = (case result of Inl e \<Rightarrow> [(ac_kind a, e)] | Inr _ \<Rightarrow> []) in
           case check_invariants m' of
             Some v \<Rightarrow> raise (Check_failed v)
           | None \<Rightarrow>
               if model_terminal m' \<and> leases m' = [] then ret ([a], noted)
               else chain (generate_steps g c digest n m') (\<lambda>(acts, others).
                 ret (a # acts, noted @ others))) r2 = (Inr (acts, noted), r')"
    using rest assms(2) by (auto simp: chain_Inr_iff ret_def split: if_splits)
  obtain result m' where step: "apply_action digest a m = (result, m')" by (rule prod.exhaust)
  have ok: "check_invariants m' = None"
    using body step by (auto simp: raise_def Let_def split: option.splits)
  show ?thesis
  proof (cases "model_terminal m' \<and> leases m' = []")
    case True
    then show ?thesis
      using body step ok that [of a "[]" "[]"] by (auto simp: ret_def Let_def)
  next
    case False
    then obtain bs other r1 where "generate_steps g c digest n m' r2 = (Inr (bs, other), r1)"
      "acts = a # bs" "noted = (case result of Inl e \<Rightarrow> [(ac_kind a, e)] | Inr _ \<Rightarrow> []) @ other" "r' = r1"
      using body step ok by (auto simp: chain_Inr_iff ret_def Let_def)
    then show ?thesis using that [of a bs other r2] step ok by auto
  qed
qed

lemma generate_steps_nil:
  assumes "generate_steps g c digest n m r = (Inr ([], noted), r')"
  shows "noted = []"
proof (cases n)
  case 0
  then show ?thesis using assms by (simp add: ret_def)
next
  case (Suc k)
  show ?thesis
  proof (rule ccontr)
    assume "noted \<noteq> []"
    obtain found r0 where "next_action g c m r = (Inr found, r0)"
      and rest: "(if found = None \<and> model_terminal m then ret ([], [])
         else chain (case found of
                  Some a \<Rightarrow> ret a
                | None \<Rightarrow> chain (randint g 1 500) (\<lambda>d. ret ((bare_action AdvanceTime)\<lparr>ac_amount := d\<rparr>)))
           (\<lambda>a. case apply_action digest a m of (result, m') \<Rightarrow>
             let noted = (case result of Inl e \<Rightarrow> [(ac_kind a, e)] | Inr _ \<Rightarrow> []) in
             case check_invariants m' of
               Some v \<Rightarrow> raise (Check_failed v)
             | None \<Rightarrow>
                 if model_terminal m' \<and> leases m' = [] then ret ([a], noted)
                 else chain (generate_steps g c digest k m') (\<lambda>(acts, others).
                   ret (a # acts, noted @ others)))) r0 = (Inr ([], noted), r')"
      using assms Suc by (auto simp: chain_Inr_iff)
    show False
    proof (cases "found = None \<and> model_terminal m")
      case True
      then show False using rest \<open>noted \<noteq> []\<close> by (simp add: ret_def)
    next
      case False
      then obtain a r2 where body: "(case apply_action digest a m of (result, m') \<Rightarrow>
             let noted = (case result of Inl e \<Rightarrow> [(ac_kind a, e)] | Inr _ \<Rightarrow> []) in
             case check_invariants m' of
               Some v \<Rightarrow> raise (Check_failed v)
             | None \<Rightarrow>
                 if model_terminal m' \<and> leases m' = [] then ret ([a], noted)
                 else chain (generate_steps g c digest k m') (\<lambda>(acts, others).
                   ret (a # acts, noted @ others))) r2 = (Inr ([], noted), r')"
        using rest by (simp only: if_False chain_Inr_iff) auto
      obtain result m' where step: "apply_action digest a m = (result, m')" by (rule prod.exhaust)
      show False using body step
        by (auto simp: raise_def ret_def Let_def chain_Inr_iff split: option.splits if_splits prod.splits)
    qed
  qed
qed

lemma generated_replay:
  "generate_steps g c digest n m r = (Inr (acts, noted), r') \<Longrightarrow> (\<And>k e. (k, e) \<in> set noted \<Longrightarrow> is_model_error e) \<Longrightarrow>
     replay_loop digest fingerprint False stop i acts None m = (records, failure, s) \<Longrightarrow>
     failure = None \<and> map sr_action records = acts \<and> record_notes records = noted"
proof (induction n arbitrary: m r acts noted i records failure)
  case 0
  then show ?case by (auto simp: ret_def record_notes_def)
next
  case (Suc n)
  show ?case
  proof (cases "acts = []")
    case True
    have "noted = []" by (rule generate_steps_nil [OF Suc.prems(1) [unfolded True]])
    then show ?thesis using Suc.prems(3) True by (simp add: record_notes_def)
  next
    case False
    obtain a bs other r1 where split: "acts = a # bs" "check_invariants (snd (apply_action digest a m)) = None"
      "noted = (case fst (apply_action digest a m) of Inl e \<Rightarrow> [(ac_kind a, e)] | Inr _ \<Rightarrow> []) @ other"
      "bs = [] \<and> other = [] \<or> generate_steps g c digest n (snd (apply_action digest a m)) r1 = (Inr (bs, other), r')"
      by (rule generate_steps_Suc [OF Suc.prems(1) False])
    have plain: "is_model_error e" if "fst (apply_action digest a m) = Inl e" for e
      using Suc.prems(2) [of "ac_kind a" e] split(3) that by simp
    obtain q failed m1 where step: "replay_step digest fingerprint False i a None m = (q, failed, m1)"
      by (rule prod_cases3)
    note passes = replay_step_passes [OF split(2) plain step]
    obtain rs f where rest: "replay_loop digest fingerprint False stop (Suc i) bs None m1 = (rs, f, s)"
      "records = q # rs" "failure = f"
      using Suc.prems(3) split(1) step passes(1) by (auto split: prod.splits)
    have "f = None \<and> map sr_action rs = bs \<and> record_notes rs = other"
    proof (cases "bs = [] \<and> other = []")
      case True
      then show ?thesis using rest(1) by (simp add: record_notes_def)
    next
      case False
      with split(4) passes(2) have more: "generate_steps g c digest n m1 r1 = (Inr (bs, other), r')" by auto
      show ?thesis
        by (rule Suc.IH [OF more _ rest(1)]) (use Suc.prems(2) split(3) in auto)
    qed
    then show ?thesis
      using rest passes split(1,3) by (auto simp: record_notes_Cons split: sum.splits)
  qed
qed

end
