(* ===== verification/Lab_Setup.thy ===== *)
theory Lab_Setup
  imports Lab_Runner
begin

text \<open>
  Setting up a scenario logs no lease expiry and grants no lease, so the self-check passes on the
  model it leaves.
\<close>

definition unexpired :: "model \<Rightarrow> bool" where
  "unexpired m \<longleftrightarrow> list_all (\<lambda>e. ev_type e \<noteq> Lease_expired) (events m) \<and> leases m = []
     \<and> 0 \<le> output_limit_bytes m"

abbreviation calm :: "(chaos_error + 'a) \<times> model \<Rightarrow> bool" where
  "calm \<equiv> keeps unexpired (\<lambda>_. True)"

lemma unexpired_simps [simp]:
  "unexpired (set_task w t f m) = unexpired m" "unexpired (set_workflow w g m) = unexpired m"
  "unexpired (m\<lparr>workflows := ws\<rparr>) = unexpired m" "unexpired (m\<lparr>workers := ks\<rparr>) = unexpired m"
  "unexpired (m\<lparr>id_counter := n\<rparr>) = unexpired m"
  by (simp_all add: unexpired_def view_simps)

lemma calm_emit: "unexpired m \<Longrightarrow> ty \<noteq> Lease_expired \<Longrightarrow> calm (emit ty a b c d m)"
  by (simp add: emit_def modify_def keeps_def view_simps unexpired_def)

lemma calm_transition: "unexpired m \<Longrightarrow> calm (transition_task w t st m)"
  unfolding transition_task_def the_task_def
  by (auto simp: proc_simps keeps_def view_simps unexpired_def split: option.splits)

lemma calm_modify: "unexpired m \<Longrightarrow> (\<And>s. unexpired (f s) = unexpired s) \<Longrightarrow> calm (modify f m)"
  by (simp add: modify_def keeps_def)

lemma calm_fetch: "unexpired m \<Longrightarrow> calm (fetch f e m)" "unexpired m \<Longrightarrow> calm (reads g m)"
  by (simp_all add: fetch_def reads_def keeps_def split: option.split)

lemma calm_chain: "calm (c s) \<Longrightarrow> (\<And>x s'. unexpired s' \<Longrightarrow> calm (f x s')) \<Longrightarrow> calm (chain c f s)"
  by (rule keeps_chain)

lemmas calm_rules = calm_transition calm_emit calm_modify calm_fetch keeps_ret keeps_raise

lemma calm_recompute_task: "unexpired m \<Longrightarrow> calm (recompute_task w t m)"
  unfolding recompute_task_def the_task_def dep_states_def
  by (intro keeps_chain keeps_andThen calm_rules; (simp split del: if_split)?; (split if_split)?)
     (auto intro!: keeps_chain keeps_andThen calm_rules)

lemma calm_settle: "unexpired m \<Longrightarrow> calm (settle_workflow w prev m)"
  unfolding settle_workflow_def require_workflow_def Let_def
  by (intro keeps_chain keeps_andThen calm_rules; (simp split del: if_split)?; (split if_split)?)
     (auto intro!: keeps_chain keeps_andThen calm_rules)

lemma calm_recompute: "unexpired m \<Longrightarrow> calm (recompute w m)"
  unfolding recompute_def require_workflow_def
  by (intro keeps_chain calm_rules)
    (auto intro!: keeps_andThen keeps_for_each calm_recompute_task calm_settle calm_rules)

lemma calm_id: "unexpired m \<Longrightarrow> calm (id_or_next digest pre given m)"
  using id_or_next_run [of digest pre given m] by (auto simp: keeps_def)

lemma calm_lift: "unexpired m \<Longrightarrow> calm (lift_result r m)"
  by (auto simp: lift_result_def intro: keeps_ret keeps_raise split: sum.split)

lemma calm_add: "unexpired m \<Longrightarrow> calm (add_workflow digest name ts given meta m)"
  unfolding add_workflow_def Let_def require_workflow_def
  by (auto intro!: calm_chain keeps_andThen calm_id calm_lift calm_recompute calm_rules)

lemma calm_register: "unexpired m \<Longrightarrow> calm (register_worker digest name cap labels given m)"
  unfolding register_worker_def Let_def require_worker_def
  by (auto intro!: calm_chain keeps_andThen calm_id calm_rules)

lemma calm_register_all: "unexpired m \<Longrightarrow> calm (register_all digest specs m)"
  by (induction specs arbitrary: m) (auto intro!: calm_chain calm_register keeps_ret)

lemma calm_set_up: "unexpired m \<Longrightarrow> calm (set_up digest seed w specs m)"
  unfolding set_up_def by (intro calm_chain calm_add calm_register_all)

lemma set_up_unexpired:
  assumes "default_model = Inr m0" "set_up digest seed w specs m0 = (Inr x, m)"
  shows "unexpired m"
proof -
  have "unexpired m0"
    using default_model_initial [OF assms(1)]
    by (auto simp: initial_def new_model_def unexpired_def split: if_splits)
  from calm_set_up [OF this, of digest seed w specs] assms(2) show ?thesis by (simp add: keeps_def)
qed

end
