(* ===== verification/Lab_Valid.thy ===== *)
theory Lab_Valid
  imports Lab_Generator Lab_Setup
begin

text \<open>
  What the generator draws can be set up: the tasks form a graph without cycles, every task has a
  worker that may run it, and the model accepts the workflow and the workers.
\<close>

section \<open>Draws that succeed\<close>

definition yields :: "('a \<Rightarrow> bool) \<Rightarrow> ('r, 'a) gen \<Rightarrow> 'r \<Rightarrow> bool" where
  "yields Q p r \<longleftrightarrow> (\<exists>x r'. p r = (Inr x, r') \<and> Q x)"

named_theorems yield_rules

lemma yields_ret [yield_rules]: "Q x \<Longrightarrow> yields Q (ret x) r"
  by (simp add: yields_def ret_def)

lemma yields_chain:
  "yields P p r \<Longrightarrow> (\<And>x r'. P x \<Longrightarrow> yields Q (f x) r') \<Longrightarrow> yields Q (chain p f) r"
  by (fastforce simp: yields_def chain_def)

lemma yields_if [yield_rules]:
  "(b \<Longrightarrow> yields Q p r) \<Longrightarrow> (\<not> b \<Longrightarrow> yields Q q r) \<Longrightarrow> yields Q (if b then p else q) r"
  by simp

lemma yields_weaken: "yields P p r \<Longrightarrow> (\<And>x. P x \<Longrightarrow> Q x) \<Longrightarrow> yields Q p r"
  by (auto simp: yields_def)

lemma yields_draw: "yields (\<lambda>x. True) (draw g) r"
  by (simp add: yields_def draw_def split: prod.split)

lemma yields_chance: "yields (\<lambda>b. True) (chance g p) r"
  unfolding chance_def by (rule yields_chain [OF yields_draw]) (simp add: yield_rules)

lemma yields_randint:
  "rng_ok g \<Longrightarrow> a \<le> b \<Longrightarrow> yields (\<lambda>x. a \<le> x \<and> x \<le> b) (randint g a b) r"
  by (simp add: yields_def randint_def rng_ok_def split: prod.split) (metis fst_conv)

lemma yields_pick: "rng_ok g \<Longrightarrow> xs \<noteq> [] \<Longrightarrow> yields (\<lambda>x. x \<in> set xs) (pick_one g xs) r"
  by (simp add: yields_def pick_one_def rng_ok_def split: prod.split)
     (metis fst_conv length_greater_0_conv nth_mem)

lemma yields_sample:
  assumes "rng_ok g" "0 \<le> k" "k \<le> int (length xs)" "distinct xs"
  shows "yields (\<lambda>ys. distinct ys \<and> set ys \<subseteq> set xs \<and> int (length ys) = k) (sample g xs k) r"
proof -
  obtain ks s' where run: "rng_sample g (length xs) (nat k) r = (ks, s')" by (rule prod.exhaust)
  have "nat k \<le> length xs" using assms(2,3) by simp
  then have "length ks = nat k" "distinct ks" "\<forall>i \<in> set ks. i < length xs"
    using assms(1) run unfolding rng_ok_def by (metis fst_conv)+
  then have "distinct (map ((!) xs) ks) \<and> set (map ((!) xs) ks) \<subseteq> set xs \<and> int (length (map ((!) xs) ks)) = k"
    using assms(2,4) by (auto simp: distinct_map inj_on_def nth_eq_iff_index_eq)
  then show ?thesis using assms(2,3) run by (simp add: yields_def sample_def)
qed

lemma yields_list_step:
  assumes "yields (P x) (f x) r" "\<And>r'. yields (list_all2 P xs) (gen_list f xs) r'"
  shows "yields (list_all2 P (x # xs)) (gen_list f (x # xs)) r"
proof -
  have "yields (list_all2 P (x # xs)) (chain (gen_list f xs) (\<lambda>ys. ret (y # ys))) r'" if "P x y" for y r'
    using that by (intro yields_chain [OF assms(2)] yields_ret) simp
  then show ?thesis unfolding gen_list.simps by (intro yields_chain [OF assms(1)])
qed

lemma yields_list:
  "(\<And>x r. x \<in> set xs \<Longrightarrow> yields (P x) (f x) r) \<Longrightarrow> yields (list_all2 P xs) (gen_list f xs) s"
  by (induction xs arbitrary: s) (simp_all add: yields_ret yields_list_step del: gen_list.simps(2))

lemma yields_from_result: "r = Inr x \<Longrightarrow> Q x \<Longrightarrow> yields Q (from_result r) s"
  by (simp add: from_result_def yields_ret)

section \<open>Ids\<close>

lemma dec_value_pad2: "dec_value (pad2 n) = int n"
  by (simp add: pad2_def Let_def dec_value_show_nat)

lemma pad2_inj: "pad2 m = pad2 n \<Longrightarrow> m = n"
  by (metis dec_value_pad2 of_nat_eq_iff)

lemma pad2_digits: "c \<in> set (pad2 n) \<Longrightarrow> digit c"
  by (auto simp: pad2_def Let_def digit_def dest: show_nat_digits [unfolded digit_def])

lemma task_ids_facts:
  "length (task_ids n) = n" "distinct (task_ids n)" "i \<in> set (task_ids n) \<Longrightarrow> i \<noteq> []"
  by (auto simp: task_ids_def distinct_map inj_on_def lit_def dest: pad2_inj)

section \<open>Tasks\<close>

text \<open>The task drawn for the id at an index.\<close>

definition drawn :: "pystr list \<Rightarrow> nat \<Rightarrow> task \<Rightarrow> bool" where
  "drawn ids i t \<longleftrightarrow> t_id t = ids ! i \<and> distinct (t_depends_on t) \<and> set (t_depends_on t) \<subseteq> set (take i ids)
     \<and> task_clone t = Inr t \<and> dwf (t_labels t)"

lemma yields_labels: "rng_ok g \<Longrightarrow> yields dwf (task_labels g c) r"
  unfolding task_labels_def
  by (auto simp: label_pool_def dict_simps intro!: yields_if yields_ret
      yields_chain [OF yields_chance] yields_chain [OF yields_pick] split: prod.split)

lemma yields_retry: "rng_ok g \<Longrightarrow> yields (\<lambda>x. True) (gen_retry_policy g c) r"
  unfolding gen_retry_policy_def
  by (auto intro!: yields_if yields_ret yields_chain [OF yields_chance] yields_chain [OF yields_pick]
      yields_chain [OF yields_randint])

lemma yields_count:
  assumes "rng_ok g" "1 \<le> gc_max_dependencies c"
  shows "yields (\<lambda>n. 0 \<le> n \<and> n \<le> int (length candidates)) (dependency_count g c candidates) r"
proof (cases "candidates = []")
  case True
  then show ?thesis by (simp add: dependency_count_def yields_ret)
next
  case False
  then have "1 \<le> min (gc_max_dependencies c) (int (length candidates))"
    using assms(2) by (cases candidates) auto
  from yields_randint [OF assms(1) this]
  have "yields (\<lambda>n. 0 \<le> n \<and> n \<le> int (length candidates))
      (randint g 1 (min (gc_max_dependencies c) (int (length candidates)))) s" for s
    by (rule yields_weaken) auto
  then show ?thesis
    using False by (auto simp: dependency_count_def intro!: yields_chain [OF yields_chance] yields_ret)
qed

lemma yields_task:
  assumes g: "rng_ok g" and c: "1 \<le> gc_max_dependencies c"
    and ids: "distinct ids" "\<And>k. k \<in> set ids \<Longrightarrow> k \<noteq> []" "i < length ids"
  shows "yields (drawn ids i) (gen_task g c ids i) r"
proof -
  have dist: "distinct (take i ids)" using ids(1) by simp
  have made: "yields (drawn ids i) (from_result (new_task (ids ! i) (sort picked) labels retry (n * 1000))) s"
    if "distinct picked \<and> set picked \<subseteq> set (take i ids) \<and> x" "dwf labels" "0 \<le> n" for picked x labels retry n s
    using that ids(2) [OF nth_mem [OF ids(3)]]
    by (auto intro!: yields_from_result simp: new_task_def task_post_init_def drawn_def Let_def task_clone_def)
  have secs: "yields (\<lambda>n. 0 \<le> n) (if b then randint g 1 120 else ret 0) s" for b s
    using yields_weaken [OF yields_randint [OF g, of 1 120 s], of "\<lambda>n. 0 \<le> n"]
    by (auto intro: yields_ret)
  have picks: "yields (\<lambda>ys. distinct ys \<and> set ys \<subseteq> set (take i ids) \<and> int (length ys) = k)
      (sample g (take i ids) k) s" if "0 \<le> k \<and> k \<le> int (length (take i ids))" for k s
    by (rule yields_sample [OF g _ _ dist]) (use that in auto)
  show ?thesis
    unfolding gen_task_def Let_def
    by (rule yields_chain [OF yields_count [OF g c]], rule yields_chain [OF picks], assumption,
      rule yields_chain [OF yields_labels [OF g]], rule yields_chain [OF yields_retry [OF g]],
      rule yields_chain [OF yields_chance], rule yields_chain [OF secs], rule made)
qed

text \<open>Tasks in the order of their ids, each depending on earlier ones only.\<close>

definition layered :: "pystr list \<Rightarrow> task list \<Rightarrow> bool" where
  "layered ids ts \<longleftrightarrow> length ts = length ids \<and> (\<forall>i < length ids. drawn ids i (ts ! i))"

lemma layered_list: "list_all2 (drawn ids) [0..<length ids] ts \<Longrightarrow> layered ids ts"
  by (auto simp: layered_def list_all2_conv_all_nth)

lemma layered_ids: "layered ids ts \<Longrightarrow> map t_id ts = ids"
  by (rule nth_equalityI) (auto simp: layered_def drawn_def)

lemma layered_connect:
  assumes "layered ids ts" "distinct ids"
  shows "layered ids (connect ts)"
proof -
  let ?n = "length ts - 1"
  have two: "drawn ids ?n ((ts ! ?n)\<lparr>t_depends_on := [t_id (hd ts)]\<rparr>)" if "1 < length ts"
  proof -
    have last: "drawn ids ?n (ts ! ?n)" using assms(1) that by (simp add: layered_def)
    have "hd ts = ts ! 0" using that by (cases ts) simp_all
    moreover have "0 < length ids" using assms(1) that unfolding layered_def by linarith
    ultimately have "t_id (hd ts) = ids ! 0" using assms(1) by (simp add: layered_def drawn_def)
    moreover have "ids ! 0 \<in> set (take ?n ids)"
      using assms(1) that by (auto simp: layered_def in_set_conv_nth intro!: exI [of _ 0])
    ultimately show ?thesis
      using last clone_deps by (simp add: drawn_def)
  qed
  show ?thesis
    using assms(1) two by (auto simp: connect_def layered_def nth_list_update)
qed

lemma layered_clone: "layered ids ts \<Longrightarrow> clone_all ts = Inr ts"
  by (rule clone_constructed) (auto simp: layered_def drawn_def constructed_def list_all_length)

lemma layered_dag:
  assumes "layered ids ts" "distinct ids" "ids \<noteq> []"
  shows "\<exists>order. validate_dag ts = Inr order"
proof -
  have len: "length ts = length ids" using assms(1) by (simp add: layered_def)
  have d: "drawn ids i (ts ! i)" if "i < length ts" for i using assms(1) that by (simp add: layered_def)
  have at: "\<exists>i < length ts. t = ts ! i" if "t \<in> set ts" for t using that by (auto simp: in_set_conv_nth)
  have before: "ids ! i \<notin> set (take i ids)" if "i < length ids" for i
    using assms(2) that by (metis distinct_take id_take_nth_drop not_distinct_conv_prefix)
  have ids: "t_id ` set ts = set ids" using layered_ids [OF assms(1)] by (metis list.set_map)
  have ok: "graph_ok (task_graph ts)"
    unfolding graph_ok_tasks
  proof (intro conjI ballI)
    show "ts \<noteq> []" using len assms(3) by auto
    show "distinct (map t_id ts)" using layered_ids [OF assms(1)] assms(2) by simp
    fix t assume "t \<in> set ts"
    then obtain i where i: "i < length ts" "t = ts ! i" using at by blast
    then show "distinct (t_depends_on t)" "t_id t \<notin> set (t_depends_on t)" "set (t_depends_on t) \<subseteq> t_id ` set ts"
      using d [OF i(1)] before [of i] len by (auto simp: drawn_def ids dest: in_set_takeD)
  qed
  have deps: "gdeps (task_graph ts) (ids ! i) = t_depends_on (ts ! i)" if "i < length ts" for i
    using gdeps_task_graph [of ts "ts ! i"] layered_ids [OF assms(1)] assms(2) d [OF that] that
    by (simp add: drawn_def)
  have "topo_from (gdeps (task_graph ts)) {} (take n ids)" if "n \<le> length ids" for n
    using that
  proof (induction n)
    case (Suc n)
    then show ?case
      using d [of n] deps [of n] len
      by (auto simp: take_Suc_conv_app_nth topo_from_append drawn_def)
  qed simp
  from this [of "length ids"] have "topo_from (gdeps (task_graph ts)) {} ids" by simp
  from topo_from_acyclic [OF this refl assms(2)] have "graph_acyclic (task_graph ts)"
    using layered_ids [OF assms(1)] by (simp add: graph_acyclic_def)
  with ok show ?thesis using validate_dag_accepts by blast
qed

text \<open>A workflow as the generator draws it.\<close>

definition drawn_workflow :: "gen_workflow \<Rightarrow> bool" where
  "drawn_workflow w \<longleftrightarrow> (\<exists>n. 0 < n \<and> layered (task_ids n) (gw_tasks w))"

lemma yields_workflow:
  assumes g: "rng_ok g" and c: "config_accepted c" "1 \<le> gc_max_dependencies c"
  shows "yields drawn_workflow (gen_workflow_of g c seed given) r"
proof -
  have sizes: "gc_min_tasks c \<le> gc_max_tasks c" "1 \<le> gc_min_tasks c" using c(1) by (simp_all add: config_accepted_def)
  have tasks: "yields (layered (task_ids n)) (gen_list (gen_task g c (task_ids n)) [0..<n]) s" for n s
  proof (rule yields_weaken [OF yields_list])
    fix i s assume "i \<in> set [0..<n]"
    then show "yields (drawn (task_ids n) i) (gen_task g c (task_ids n) i) s"
      by (intro yields_task [OF g c(2)]) (simp_all add: task_ids_facts)
  next
    fix ts assume "list_all2 (drawn (task_ids n)) [0..<n] ts"
    then show "layered (task_ids n) ts" using layered_list [of "task_ids n" ts] by (simp add: task_ids_facts)
  qed
  have kept: "yields drawn_workflow (chain (from_result (clone_all (connect ts))) (\<lambda>clones. ret (f clones))) s"
    if "layered (task_ids n) ts" "0 < n" "\<And>ts. gw_tasks (f ts) = ts" for ts n f s
  proof -
    have "layered (task_ids n) (connect ts)" by (rule layered_connect [OF that(1) task_ids_facts(2)])
    from layered_clone [OF this] this show ?thesis
      using that(2,3) by (auto simp: from_result_def chain_def ret_def yields_def drawn_workflow_def)
  qed
  show ?thesis
    unfolding gen_workflow_of_def Let_def
  proof (rule yields_chain [OF yields_randint [OF g sizes(1)]])
    fix n s assume n: "gc_min_tasks c \<le> n \<and> n \<le> gc_max_tasks c"
    then have pos: "0 < nat n" using sizes(2) by simp
    show "yields drawn_workflow (chain (gen_list (gen_task g c (task_ids (nat n))) [0..<nat n])
        (\<lambda>tasks. chain (from_result (clone_all (connect tasks))) (\<lambda>clones.
          ret \<lparr>gw_name = (case given of None \<Rightarrow> lit ''chaos-'' @ show_int seed
                        | Some s \<Rightarrow> if s = [] then lit ''chaos-'' @ show_int seed else s),
            gw_tasks = clones,
            gw_metadata = [(lit ''generator'', lit ''helixgrid-chaos''), (lit ''seed'', show_int seed)]\<rparr>))) s"
      by (intro yields_chain [OF tasks] kept [OF _ pos]) simp_all
  qed
qed

section \<open>Workers\<close>

definition spec_fits :: "int \<Rightarrow> worker_spec \<Rightarrow> bool" where
  "spec_fits limit spec \<longleftrightarrow> (case spec of (k, capacity, labels) \<Rightarrow> k \<noteq> [] \<and> 1 \<le> capacity \<and> capacity \<le> limit)"

definition specs_fit :: "int \<Rightarrow> worker_spec list \<Rightarrow> bool" where
  "specs_fit limit specs \<longleftrightarrow> list_all (spec_fits limit) specs \<and> distinct (map fst specs)
     \<and> (\<forall>n \<ge> length specs. lit ''worker-placement-'' @ pad2 n \<notin> fst ` set specs)"

lemma labels_match_refl: "dwf d \<Longrightarrow> labels_match d d"
  by (auto simp: labels_match_def list_all_iff dwf_def dkeys_def)

definition can_run :: "worker_spec list \<Rightarrow> task \<Rightarrow> bool" where
  "can_run specs t \<longleftrightarrow> (\<exists>k n labels. (k, n, labels) \<in> set specs \<and> labels_match labels (t_labels t))"

lemma can_run_mono: "can_run specs t \<Longrightarrow> set specs \<subseteq> set specs' \<Longrightarrow> can_run specs' t"
  by (auto simp: can_run_def)

lemma place_grows: "set specs \<subseteq> set (place t specs)"
  by (auto simp: place_def)

lemma place_can_run: "dwf (t_labels t) \<Longrightarrow> can_run (place t specs) t"
  using labels_match_refl by (fastforce simp: place_def can_run_def list_ex_iff)

lemma place_fits:
  assumes "specs_fit limit specs" "1 \<le> limit"
  shows "specs_fit limit (place t specs)"
proof -
  have "lit ''worker-placement-'' @ pad2 (length specs) \<notin> fst ` set specs" using assms(1) by (simp add: specs_fit_def)
  moreover have "lit ''worker-placement-'' @ pad2 n \<noteq> lit ''worker-placement-'' @ pad2 (length specs)"
    if "length specs < n" for n using that pad2_inj by fastforce
  ultimately show ?thesis
    using assms by (auto simp: place_def specs_fit_def spec_fits_def)
qed

lemma fold_place:
  "(\<And>t. t \<in> set ts \<Longrightarrow> dwf (t_labels t)) \<Longrightarrow> specs_fit limit specs \<Longrightarrow> 1 \<le> limit \<Longrightarrow>
     specs_fit limit (fold place ts specs) \<and> set specs \<subseteq> set (fold place ts specs)
     \<and> (\<forall>t \<in> set ts. can_run (fold place ts specs) t)"
proof (induction ts arbitrary: specs)
  case (Cons t ts)
  have fit: "specs_fit limit (place t specs)" by (rule place_fits [OF Cons.prems(2,3)])
  have rest: "specs_fit limit (fold place ts (place t specs))"
    "set (place t specs) \<subseteq> set (fold place ts (place t specs))"
    "\<forall>t' \<in> set ts. can_run (fold place ts (place t specs)) t'"
    using Cons.IH [OF _ fit Cons.prems(3)] Cons.prems(1) by simp_all
  moreover have "can_run (place t specs) t" by (rule place_can_run) (simp add: Cons.prems(1))
  from can_run_mono [OF this rest(2)] have "can_run (fold place ts (place t specs)) t" .
  ultimately show ?case using place_grows [of specs t] by auto
qed simp

lemma yields_random_worker:
  assumes "rng_ok g" "1 \<le> gc_max_capacity c"
  shows "yields (\<lambda>(k, n, labels). k = lit ''worker-'' @ pad2 i \<and> 1 \<le> n \<and> n \<le> gc_max_capacity c)
    (random_worker g c required i) r"
proof -
  have label: "yields (\<lambda>x. True) (worker_label g required key) s" for key s
  proof (cases "dget required key")
    case (Some vs)
    have "sort vs \<noteq> []" if "vs \<noteq> []" using that by (metis set_empty set_sort)
    then show ?thesis
      unfolding worker_label_def Some
      by (auto intro!: yields_if yields_ret yields_chain [OF yields_chance] yields_chain [OF yields_pick [OF assms(1)]])
  qed (simp add: worker_label_def yields_ret)
  show ?thesis
    unfolding random_worker_def
    by (rule yields_chain [OF yields_list [where P = "\<lambda>_ _. True"]], rule label,
      rule yields_chain [OF yields_randint [OF assms]], rule yields_ret, simp)
qed

lemma yields_workers:
  assumes g: "rng_ok g" and c: "config_accepted c" and w: "\<And>t. t \<in> set (gw_tasks w) \<Longrightarrow> dwf (t_labels t)"
  shows "yields (\<lambda>specs. specs_fit (gc_max_capacity c) specs \<and> specs \<noteq> [] \<and> (\<forall>t \<in> set (gw_tasks w). can_run specs t))
    (gen_workers g c w) r"
proof -
  have limits: "1 \<le> gc_max_capacity c" "1 \<le> gc_max_workers c" using c by (simp_all add: config_accepted_def)
  have fits: "specs_fit (gc_max_capacity c) specs \<and> length specs = n"
    if "list_all2 (\<lambda>i (k, m, labels). k = lit ''worker-'' @ pad2 i \<and> 1 \<le> m \<and> m \<le> gc_max_capacity c) [0..<n] specs"
    for specs :: "worker_spec list" and n
  proof -
    have len: "length specs = n" using list_all2_lengthD [OF that] by simp
    have at: "fst (specs ! i) = lit ''worker-'' @ pad2 i" "spec_fits (gc_max_capacity c) (specs ! i)"
      if "i < n" for i
    proof -
      obtain k m labels where "specs ! i = (k, m, labels)" by (rule prod_cases3)
      then show "fst (specs ! i) = lit ''worker-'' @ pad2 i" "spec_fits (gc_max_capacity c) (specs ! i)"
        using list_all2_nthD [OF \<open>list_all2 _ _ _\<close>, of i] that by (auto simp: spec_fits_def)
    qed
    have keys: "map fst specs = map (\<lambda>i. lit ''worker-'' @ pad2 i) [0..<n]"
      by (rule nth_equalityI) (simp_all add: len at)
    have "distinct (map fst specs)" unfolding keys by (auto simp: distinct_map inj_on_def dest: pad2_inj)
    moreover have "lit ''worker-placement-'' @ pad2 j \<notin> fst ` set specs" for j
    proof
      assume "lit ''worker-placement-'' @ pad2 j \<in> fst ` set specs"
      then have "lit ''worker-placement-'' @ pad2 j \<in> set (map fst specs)" by simp
      then obtain i where "lit ''worker-placement-'' @ pad2 j = lit ''worker-'' @ pad2 i" unfolding keys by auto
      then have "112 \<in> set (pad2 i)" by (simp, metis list.set_intros(1))
      then show False using pad2_digits by (fastforce simp: digit_def)
    qed
    moreover have "list_all (spec_fits (gc_max_capacity c)) specs" using at(2) len by (auto simp: list_all_length)
    ultimately show ?thesis using len by (simp add: specs_fit_def)
  qed
  show ?thesis
    unfolding gen_workers_def
  proof (rule yields_chain [OF yields_randint [OF g limits(2)]])
    fix n s assume n: "1 \<le> n \<and> n \<le> gc_max_workers c"
    show "yields (\<lambda>specs. specs_fit (gc_max_capacity c) specs \<and> specs \<noteq> [] \<and> (\<forall>t \<in> set (gw_tasks w). can_run specs t))
      (chain (gen_list (random_worker g c (required_labels (gw_tasks w))) [0..<nat n])
        (\<lambda>specs. ret (fold place (gw_tasks w) specs))) s"
    proof (rule yields_chain [OF yields_list])
      fix i s show "yields (\<lambda>(k, m, labels). k = lit ''worker-'' @ pad2 i \<and> 1 \<le> m \<and> m \<le> gc_max_capacity c)
        (random_worker g c (required_labels (gw_tasks w)) i) s" by (rule yields_random_worker [OF g limits(1)])
    next
      fix specs s
      assume "list_all2 (\<lambda>i (k, m, labels). k = lit ''worker-'' @ pad2 i \<and> 1 \<le> m \<and> m \<le> gc_max_capacity c)
        [0..<nat n] (specs :: worker_spec list)"
      from fits [OF this] have fit: "specs_fit (gc_max_capacity c) specs" "length specs = nat n" by simp_all
      have "specs \<noteq> []" using fit(2) n by auto
      with fold_place [OF w fit(1) limits(1)]
      have "specs_fit (gc_max_capacity c) (fold place (gw_tasks w) specs) \<and> fold place (gw_tasks w) specs \<noteq> []
          \<and> (\<forall>t \<in> set (gw_tasks w). can_run (fold place (gw_tasks w) specs) t)" by fastforce
      then show "yields (\<lambda>specs. specs_fit (gc_max_capacity c) specs \<and> specs \<noteq> []
          \<and> (\<forall>t \<in> set (gw_tasks w). can_run specs t)) (ret (fold place (gw_tasks w) specs)) s"
        by (rule yields_ret)
    qed
  qed
qed

section \<open>The model accepts them\<close>

lemma add_workflow_succeeds:
  assumes "inv m" "w \<noteq> []" "dget (workflows m) w = None" "validate_dag ts = Inr order" "clone_all ts = Inr cs"
  shows "\<exists>f s. add_workflow digest name ts (Some w) meta m = (Inr f, s)"
proof -
  obtain s f where s: "recompute w (emit_event Workflow_created w [] [] [(lit ''name'', name)]
      (m\<lparr>workflows := dput w (new_flow w name cs order meta (now_ms m)) (workflows m)\<rparr>)) = (Inr (), s)"
    "dget (workflows s) w = Some f"
    using add_workflow_new [OF assms(1,3,4,5)] by blast
  have "add_workflow digest name ts (Some w) meta m = (Inr f, s)"
    using assms s by (simp add: add_workflow_def id_or_next_def chain_def andThen_def reads_def modify_def emit_def
        lift_result_def ret_def require_workflow_def fetch_def new_flow_def)
  then show ?thesis by blast
qed

lemma register_succeeds:
  assumes "k \<noteq> []" "1 \<le> n" "n \<le> 256" "dget (workers m) k = None"
  obtains wk s where "register_worker digest k n labels (Some k) m = (Inr wk, s)"
    "\<And>j. j \<noteq> k \<Longrightarrow> dget (workers s) j = dget (workers m) j"
  using assms that
  by (simp add: register_worker_def id_or_next_def chain_def andThen_def reads_def modify_def emit_def ret_def
      require_worker_def fetch_def view_simps dict_simps)

lemma register_all_succeeds:
  "list_all (spec_fits 256) specs \<Longrightarrow> distinct (map fst specs) \<Longrightarrow> (\<And>k. k \<in> fst ` set specs \<Longrightarrow> dget (workers m) k = None)
     \<Longrightarrow> \<exists>s. register_all digest specs m = (Inr (), s)"
proof (induction specs arbitrary: m)
  case (Cons spec specs)
  obtain k n labels where spec: "spec = (k, n, labels)" by (rule prod_cases3)
  have fit: "k \<noteq> []" "1 \<le> n" "n \<le> 256" "dget (workers m) k = None"
    using Cons.prems by (auto simp: spec spec_fits_def)
  obtain wk s where s: "register_worker digest k n labels (Some k) m = (Inr wk, s)"
    "\<And>j. j \<noteq> k \<Longrightarrow> dget (workers s) j = dget (workers m) j"
    by (rule register_succeeds [OF fit, where digest = digest and labels = labels]) blast
  have "\<exists>s'. register_all digest specs s = (Inr (), s')"
  proof (rule Cons.IH)
    fix j assume j: "j \<in> fst ` set specs"
    then have "j \<noteq> k" using Cons.prems(2) by (auto simp: spec)
    then show "dget (workers s) j = None" using s(2) Cons.prems(3) [of j] j by simp
  qed (use Cons.prems in simp_all)
  then show ?case using s(1) by (auto simp: spec chain_def)
qed (simp add: ret_def)

lemma set_up_succeeds:
  assumes m0: "default_model = Inr m0" and w: "drawn_workflow w"
    and specs: "list_all (spec_fits 256) specs" "distinct (map fst specs)"
  obtains m where "set_up digest seed w specs m0 = (Inr (), m)"
proof -
  note init = default_model_initial [OF m0]
  have i: "inv m0" using init by (intro reachable_inv) (auto simp: reachable_def)
  have fresh: "dget (workflows m0) k = None" for k
    using init by (auto simp: initial_def new_model_def split: if_splits)
  obtain n where n: "0 < n" "layered (task_ids n) (gw_tasks w)" using w by (auto simp: drawn_workflow_def)
  have "task_ids n \<noteq> []" using n(1) by (simp add: task_ids_def)
  then obtain order where order: "validate_dag (gw_tasks w) = Inr order"
    using layered_dag [OF n(2) task_ids_facts(2)] by blast
  have key: "workflow_key seed \<noteq> []" by (simp add: workflow_key_def)
  obtain f s where s: "add_workflow digest (gw_name w) (gw_tasks w) (Some (workflow_key seed)) (gw_metadata w) m0 = (Inr f, s)"
    using add_workflow_succeeds [OF i key fresh order layered_clone [OF n(2)]] by blast
  have "workers s = []"
    using workers_add_workflow [of m0 digest "gw_name w" "gw_tasks w" "Some (workflow_key seed)" "gw_metadata w"]
      init by (simp add: s keeps_def)
  then obtain m where "register_all digest specs s = (Inr (), m)"
    using register_all_succeeds [OF specs, of s digest] by auto
  then show ?thesis using s that by (simp add: set_up_def chain_def)
qed

end
