(* ===== verification/Lab_Rewire.thy ===== *)
theory Lab_Rewire
  imports Lab_Shrunk
begin

text \<open>
  Removing a task from a workflow: its dependents take over its dependencies, so the rest is still
  without cycles, and a task still waits for exactly the remaining tasks it waited for before.
\<close>

section \<open>Bypassed dependencies\<close>

lemma from_keys_facts: "set (from_keys xs) = set xs" "distinct (from_keys xs)"
  by (simp_all add: from_keys_def)

lemma set_bypass:
  "set (bypass v vs ds) = (set ds - {v}) \<union> (if v \<in> set ds then set vs else {})"
  by (auto simp: bypass_def from_keys_facts split: if_splits)

lemma distinct_bypass: "distinct ds \<Longrightarrow> distinct (bypass v vs ds)"
  by (simp add: bypass_def from_keys_facts)

section \<open>Waiting\<close>

text \<open>Who waits for whom, directly.\<close>

definition waits :: "task list \<Rightarrow> (pystr \<times> pystr) set" where
  "waits ts = {(d, k). \<exists>t \<in> set ts. t_id t = k \<and> d \<in> set (t_depends_on t)}"

lemma bypass_reach:
  assumes new: "\<And>u w. (u, w) \<in> E' \<longleftrightarrow> u \<noteq> v \<and> w \<noteq> v \<and> ((u, w) \<in> E \<or> (u, v) \<in> E \<and> (v, w) \<in> E)"
    and irrefl: "(v, v) \<notin> E" and ends: "u \<noteq> v" "w \<noteq> v"
  shows "(u, w) \<in> E'\<^sup>+ \<longleftrightarrow> (u, w) \<in> E\<^sup>+"
proof
  have "E' \<subseteq> E\<^sup>+" using new by (auto intro: trancl.intros)
  then show "(u, w) \<in> E'\<^sup>+ \<Longrightarrow> (u, w) \<in> E\<^sup>+" by (metis trancl_id trancl_mono trans_trancl)
next
  assume "(u, w) \<in> E\<^sup>+"
  then have "(w \<noteq> v \<longrightarrow> (u, w) \<in> E'\<^sup>+) \<and> (w = v \<longrightarrow> (\<forall>z. (v, z) \<in> E \<longrightarrow> (u, z) \<in> E'\<^sup>+))"
  proof (induction rule: trancl_induct)
    case (base w)
    then show ?case using new irrefl ends(1) by (auto intro!: r_into_trancl)
  next
    case (step y z)
    show ?case
    proof (cases "y = v")
      case True
      then show ?thesis using step irrefl by auto
    next
      case False
      then have uy: "(u, y) \<in> E'\<^sup>+" using step.IH by simp
      have "(y, z) \<in> E'" if "z \<noteq> v" using that False step.hyps(2) new by simp
      moreover have "(y, x) \<in> E'" if "z = v" "(v, x) \<in> E" for x
        using that False step.hyps(2) new irrefl by metis
      ultimately show ?thesis using uy by (metis trancl.trancl_into_trancl)
    qed
  qed
  then show "(u, w) \<in> E'\<^sup>+" using ends(2) by simp
qed

section \<open>The workflow without the task\<close>

lemma valid_tasks:
  assumes "validate_dag ts = Inr order"
  shows "distinct (map t_id ts)"
    "t \<in> set ts \<Longrightarrow> t_id t \<notin> set (t_depends_on t) \<and> distinct (t_depends_on t) \<and> set (t_depends_on t) \<subseteq> t_id ` set ts"
  using validate_dag_order(4) [OF assms] unfolding graph_ok_tasks by blast+

lemma waits_edges:
  "distinct (map t_id ts) \<Longrightarrow> dep_edges (gdeps (task_graph ts)) (set (map t_id ts)) = waits ts"
  using gdeps_task_graph [of ts] by (auto simp: dep_edges_def waits_def)

lemma valid_acyclic: "validate_dag ts = Inr order \<Longrightarrow> acyclic (waits ts)"
  using validate_dag_accepts [of ts] waits_edges [OF valid_tasks(1)] by (auto simp: graph_acyclic_def)

lemma target_dependencies_in:
  assumes "distinct (map t_id ts)" "t \<in> set ts"
  shows "target_dependencies ts (t_id t) = t_depends_on t"
proof -
  have "filter (\<lambda>u. t_id u = t_id t) ts = [t]"
    using assms by (induction ts) (auto simp: filter_empty_conv intro: rev_image_eqI)
  then show ?thesis by (simp add: target_dependencies_def)
qed

lemma target_dependencies_iff:
  assumes v: "validate_dag ts = Inr order" and t: "t \<in> set ts" "target \<in> set (t_depends_on t)"
  shows "x \<in> set (target_dependencies ts target) \<longleftrightarrow> (x, target) \<in> waits ts"
proof -
  have "target \<in> t_id ` set ts" using valid_tasks(2) [OF v t(1)] t(2) by blast
  then obtain s where s: "s \<in> set ts" "t_id s = target" by blast
  then have "(x, target) \<in> waits ts \<longleftrightarrow> x \<in> set (t_depends_on s)"
    using valid_tasks(1) [OF v] by (auto simp: waits_def distinct_map inj_on_def)
  then show ?thesis using target_dependencies_in [OF valid_tasks(1) [OF v] s(1)] s(2) by simp
qed

text \<open>The direct waits after the removal.\<close>

lemma without_task_waits:
  assumes v: "validate_dag ts = Inr order" and made: "constructed ts" and w: "without_task ts target = Inr us"
  shows "(x, y) \<in> waits us \<longleftrightarrow> x \<noteq> target \<and> y \<noteq> target
      \<and> ((x, y) \<in> waits ts \<or> (x, target) \<in> waits ts \<and> (target, y) \<in> waits ts)"
proof -
  let ?td = "target_dependencies ts target"
  let ?f = "\<lambda>t. t\<lparr>t_depends_on := bypass target ?td (t_depends_on t)\<rparr>"
  have us: "us = map ?f (filter (\<lambda>t. t_id t \<noteq> target) ts)" using constructed_without [OF made] w by simp
  have irrefl: "(target, target) \<notin> waits ts" using valid_tasks(2) [OF v] by (auto simp: waits_def)
  have "(x, y) \<in> waits us \<longleftrightarrow> (\<exists>t \<in> set ts. t_id t = y \<and> y \<noteq> target
      \<and> x \<in> set (bypass target ?td (t_depends_on t)))"
    by (auto simp: waits_def us)
  also have "\<dots> \<longleftrightarrow> (\<exists>t \<in> set ts. t_id t = y \<and> y \<noteq> target
      \<and> (x \<in> set (t_depends_on t) \<and> x \<noteq> target \<or> target \<in> set (t_depends_on t) \<and> (x, target) \<in> waits ts))"
    using target_dependencies_iff [OF v] by (auto simp: set_bypass)
  also have "\<dots> \<longleftrightarrow> x \<noteq> target \<and> y \<noteq> target
      \<and> ((x, y) \<in> waits ts \<or> (x, target) \<in> waits ts \<and> (target, y) \<in> waits ts)"
    using irrefl by (auto simp: waits_def)
  finally show ?thesis .
qed

lemma without_task_reach:
  assumes v: "validate_dag ts = Inr order" and made: "constructed ts" and w: "without_task ts target = Inr us"
  shows "(d, k) \<in> (waits us)\<^sup>+ \<longleftrightarrow> d \<noteq> target \<and> k \<noteq> target \<and> (d, k) \<in> (waits ts)\<^sup>+"
proof -
  note new = without_task_waits [OF assms]
  have "(target, target) \<notin> waits ts" using valid_tasks(2) [OF v] by (auto simp: waits_def)
  note reach = bypass_reach [OF new this]
  have "d \<noteq> target \<and> k \<noteq> target" if "(d, k) \<in> (waits us)\<^sup>+"
    using that new by (metis tranclD tranclD2)
  then show ?thesis using reach by blast
qed

lemma without_task_valid:
  assumes v: "validate_dag ts = Inr order" and made: "constructed ts" and w: "without_task ts target = Inr us"
    and left: "us \<noteq> []"
  shows "\<exists>order'. validate_dag us = Inr order'"
proof -
  let ?f = "\<lambda>t. t\<lparr>t_depends_on := bypass target (target_dependencies ts target) (t_depends_on t)\<rparr>"
  have us: "us = map ?f (filter (\<lambda>t. t_id t \<noteq> target) ts)" using constructed_without [OF made] w by simp
  have ids: "map t_id us = filter (\<lambda>k. k \<noteq> target) (map t_id ts)" by (simp add: us comp_def filter_map)
  have dist: "distinct (map t_id us)" unfolding ids using valid_tasks(1) [OF v] by simp
  have cyc: "acyclic (waits us)"
    using valid_acyclic [OF v] without_task_reach [OF v made w] by (simp add: acyclic_def)
  have ok: "graph_ok (task_graph us)"
    unfolding graph_ok_tasks
  proof (intro conjI ballI)
    show "us \<noteq> []" by (rule left)
    show "distinct (map t_id us)" by (rule dist)
    fix t' assume t': "t' \<in> set us"
    then obtain t where t: "t \<in> set ts" "t' = ?f t" by (auto simp: us)
    show "distinct (t_depends_on t')" using t valid_tasks(2) [OF v t(1)] by (simp add: distinct_bypass)
    show "t_id t' \<notin> set (t_depends_on t')"
    proof
      assume "t_id t' \<in> set (t_depends_on t')"
      then have "(t_id t', t_id t') \<in> waits us" using t' by (auto simp: waits_def)
      then show False using cyc by (auto simp: acyclic_def)
    qed
    show "set (t_depends_on t') \<subseteq> t_id ` set us"
    proof
      fix d assume "d \<in> set (t_depends_on t')"
      then have "(d, t_id t') \<in> waits us" using t' by (auto simp: waits_def)
      then have "d \<noteq> target" "\<exists>y. (d, y) \<in> waits ts" using without_task_waits [OF v made w] by blast+
      then have "d \<in> set (map t_id us)" unfolding ids using valid_tasks(2) [OF v] by (auto simp: waits_def)
      then show "d \<in> t_id ` set us" by simp
    qed
  qed
  have "graph_acyclic (task_graph us)" using cyc waits_edges [OF dist] by (simp add: graph_acyclic_def)
  with ok show ?thesis using validate_dag_accepts by blast
qed

end
