(* ===== verification/Lab_Props.thy ===== *)
theory Lab_Props
  imports Lab_Generated Lab_Valid Lab_Rewire Lab_Trace Lab_Campaign Chaos_Props
begin

text \<open>The properties of the chaos lab: its runner, its generator and its shrinker.\<close>

section \<open>Examples\<close>

definition text_length :: "model_view \<Rightarrow> pystr" where
  "text_length v = []"

definition small_task :: "string \<Rightarrow> string list \<Rightarrow> task" where
  "small_task i ds = (case new_task (lit i) (map lit ds) [] default_retry 0 of Inr t \<Rightarrow> t)"

definition lease_by :: "string \<Rightarrow> action" where
  "lease_by k = (bare_action LeaseTask)\<lparr>ac_worker_id := lit k\<rparr>"

text \<open>Two tasks, two workers, and three actions of which one is rejected.\<close>

definition small_scenario :: "gen_note scenario" where
  "small_scenario = \<lparr>sc_seed = 1, sc_workflow = \<lparr>gw_name = lit ''w'', gw_tasks = [small_task ''a'' [], small_task ''b'' [''a'']],
      gw_metadata = []\<rparr>,
     sc_workers = [(lit ''u'', 1, []), (lit ''v'', 2, [])],
     sc_actions = [lease_by ''u'', lease_by ''u'', (bare_action AdvanceTime)\<lparr>ac_amount := 7\<rparr>], sc_notes = []\<rparr>"

text \<open>A source of randomness that always takes the least, and one that never takes a chance.\<close>

definition low_rng :: "rat \<Rightarrow> unit rng" where
  "low_rng x = \<lparr>rng_random = (\<lambda>s. (x, s)), rng_randint = (\<lambda>a b s. (a, s)), rng_choice = (\<lambda>n s. (0, s)),
     rng_sample = (\<lambda>n k s. ([0..<k], s))\<rparr>"

lemma low_rng_ok: "0 \<le> x \<Longrightarrow> x < 1 \<Longrightarrow> rng_ok (low_rng x)"
  by (simp add: rng_ok_def low_rng_def)

definition tiny_config :: gen_config where
  "tiny_config = default_config\<lparr>gc_min_tasks := 1, gc_max_tasks := 2\<rparr>"

definition tiny_scenario :: "gen_note scenario" where
  "tiny_scenario = (case fst (gen_scenario (low_rng (99/100)) tiny_config same_text 5 2 ()) of Inr sc \<Rightarrow> sc)"

section \<open>The runner\<close>

text \<open>The model that a scenario is set up with passes every check.\<close>

lemma set_up_passes:
  assumes "default_model = Inr m0" "set_up digest seed w specs m0 = (Inr x, m)"
  shows "check_invariants m = None"
  using no_expiry_no_violation [OF set_up_reachable [OF assms]] set_up_unexpired [OF assms]
  by (simp add: unexpired_def list_all_iff indexed_def negative_limit_def)




text \<open>C28: Saving a scenario loses nothing: what \<open>scenario_from_dict\<close> reads from the value that
  \<open>scenario_to_dict\<close> builds is the same scenario, the notes as their texts, and its replay is the same
  report. The tasks are as their constructor makes them and no dictionary repeats a key.\<close>

theorem scenario_roundtrip:
  assumes "conversions_ok cv" "list_all fresh_task (gw_tasks (sc_workflow sc))" "dwf (gw_metadata (sc_workflow sc))"
    "list_all (\<lambda>spec. dwf (snd (snd spec))) (sc_workers sc)"
  shows "\<exists>back. scenario_from_dict cv (scenario_to_dict note_text sc) = Inr back
    \<and> back = \<lparr>sc_seed = sc_seed sc, sc_workflow = sc_workflow sc, sc_workers = sc_workers sc,
        sc_actions = sc_actions sc, sc_notes = map note_text (sc_notes sc)\<rparr>
    \<and> replay digest fingerprint strict stop_first given back = replay digest fingerprint strict stop_first given sc"
  using scenario_back [OF assms, of note_text] replay_texts unfolding with_texts_def by blast

definition plain_conversions :: conversions where
  "plain_conversions = \<lparr>cv_str = (\<lambda>v. case v of JStr s \<Rightarrow> s | JInt n \<Rightarrow> show_int n | _ \<Rightarrow> []),
     cv_int = (\<lambda>v. case v of JInt n \<Rightarrow> Inr n | _ \<Rightarrow> Inl Bad_number)\<rparr>"

theorem scenario_roundtrip_witness:
  "\<exists>back. scenario_from_dict plain_conversions (scenario_to_dict (\<lambda>n. []) small_scenario) = Inr back
     \<and> sc_actions back = sc_actions small_scenario"
proof -
  have "conversions_ok plain_conversions" by (simp add: conversions_ok_def plain_conversions_def)
  moreover have "list_all fresh_task (gw_tasks (sc_workflow small_scenario))"
    "dwf (gw_metadata (sc_workflow small_scenario))"
    "list_all (\<lambda>spec. dwf (snd (snd spec))) (sc_workers small_scenario)" by code_simp+
  ultimately show ?thesis
    using scenario_roundtrip [of plain_conversions small_scenario "\<lambda>n. []" same_text text_length True True None] by auto
qed

section \<open>The generator\<close>

text \<open>C23: What the generator tries out the runner reproduces: if the errors it noted are all of the
  model's own kind, the lenient replay of the generated scenario has no failure, replays exactly its
  actions, and rejects exactly those the generator noted, for the same reasons.\<close>

theorem generated_replays:
  assumes "gen_scenario g c digest seed steps r = (Inr sc, r')"
    "list_all (\<lambda>(k, e). is_model_error e) (sc_notes sc)"
    "report = replay digest fingerprint False stop_first None sc"
  shows "report_ok report \<and> map sr_action (rr_records report) = sc_actions sc
    \<and> record_notes (rr_records report) = sc_notes sc"
proof -
  obtain w specs m0 r3 where drawn: "default_model = Inr m0"
    "(case set_up digest seed w specs m0 of
       (Inl e, m) \<Rightarrow> raise (Model_error e)
     | (Inr _, m) \<Rightarrow>
         chain (generate_steps g c digest (nat (max 1 steps)) m) (\<lambda>(actions, noted).
           ret \<lparr>sc_seed = seed, sc_workflow = w, sc_workers = specs, sc_actions = actions,
                sc_notes = noted\<rparr>)) r3 = (Inr sc, r')"
    using assms(1) unfolding gen_scenario_def chain_Inr_iff from_result_Inr_iff by blast
  obtain u m where ready: "set_up digest seed w specs m0 = (Inr u, m)"
    using drawn(2) by (cases "set_up digest seed w specs m0"; cases "fst (set_up digest seed w specs m0)")
      (auto simp: raise_def)
  obtain acts noted where steps: "generate_steps g c digest (nat (max 1 steps)) m r3 = (Inr (acts, noted), r')"
    "sc = \<lparr>sc_seed = seed, sc_workflow = w, sc_workers = specs, sc_actions = acts, sc_notes = noted\<rparr>"
    using drawn(2) by (auto simp: ready chain_Inr_iff ret_def)
  note gen = drawn(1) ready steps
  have ok: "check_invariants m = None" by (rule set_up_passes [OF gen(1,2)])
  have boot: "bootstrap digest sc = Inr m" unfolding bootstrap_def gen(1,4) sum.case by (simp add: gen(2) ok)
  obtain records failure s where loop:
    "replay_loop digest fingerprint False stop_first 0 acts None m = (records, failure, s)" by (rule prod_cases3)
  have "is_model_error e" if "(k, e) \<in> set noted" for k e
    using assms(2) gen(4) that by (auto simp: list_all_iff)
  from generated_replay [OF gen(3) this loop] show ?thesis
    using boot loop gen(4) assms(3) by (simp add: replay_def report_ok_def)
qed

theorem generated_replays_witness:
  "map sr_action (rr_records (replay same_text text_length False True None tiny_scenario)) = sc_actions tiny_scenario
   \<and> sc_actions tiny_scenario \<noteq> []"
proof -
  have "fst (gen_scenario (low_rng (99/100)) tiny_config same_text 5 2 ()) = Inr tiny_scenario"
    "list_all (\<lambda>(k, e). is_model_error e) (sc_notes tiny_scenario)" "sc_actions tiny_scenario \<noteq> []"
    by code_simp+
  then show ?thesis
    using generated_replays [of "low_rng (99/100)" tiny_config same_text 5 2 "()" tiny_scenario "()", OF _ _ refl]
    by (simp add: prod_eq_iff)
qed

text \<open>C24: What the generator draws can be set up. With a random source that keeps its documented
  ranges, a configuration that \<open>GeneratorConfig\<close> accepts, at least one dependency allowed and no
  worker larger than the model takes, the workflow and the workers are drawn without an error, the
  workers can run every task between them, the model accepts the workflow and registers every worker,
  and its self-check passes.\<close>

theorem generated_sets_up:
  assumes "rng_ok g" "config_accepted c" "1 \<le> gc_max_dependencies c" "gc_max_capacity c \<le> 256"
  shows "\<exists>w r1 specs r2 m0 m. gen_workflow_of g c seed None r = (Inr w, r1) \<and> gen_workers g c w r1 = (Inr specs, r2)
    \<and> list_all (can_run specs) (gw_tasks w)
    \<and> default_model = Inr m0 \<and> set_up digest seed w specs m0 = (Inr (), m) \<and> check_invariants m = None"
proof -
  obtain w r1 where w: "gen_workflow_of g c seed None r = (Inr w, r1)" "drawn_workflow w"
    using yields_workflow [OF assms(1-3)] unfolding yields_def by blast
  have "dwf (t_labels t)" if "t \<in> set (gw_tasks w)" for t
    using w(2) that by (auto simp: drawn_workflow_def layered_def drawn_def in_set_conv_nth)
  then obtain specs r2 where specs: "gen_workers g c w r1 = (Inr specs, r2)" "specs_fit (gc_max_capacity c) specs"
    "\<forall>t \<in> set (gw_tasks w). can_run specs t"
    using yields_workers [OF assms(1,2), of w r1] unfolding yields_def by blast
  obtain m0 where m0: "default_model = Inr m0" by (auto simp: default_model_def new_model_def)
  have fit: "list_all (spec_fits 256) specs" "distinct (map fst specs)"
    using specs(2) assms(4) by (auto simp: specs_fit_def spec_fits_def list_all_iff)
  obtain m where m: "set_up digest seed w specs m0 = (Inr (), m)"
    by (rule set_up_succeeds [OF m0 w(2) fit])
  have "check_invariants m = None" by (rule set_up_passes [OF m0 m])
  then show ?thesis using w(1) specs m0 m by (auto simp: list_all_iff)
qed

theorem generated_sets_up_witness:
  "\<exists>w r1. gen_workflow_of (low_rng 0) default_config 7 None () = (Inr w, r1)"
proof -
  have "rng_ok (low_rng 0)" by (rule low_rng_ok) simp_all
  moreover have "config_accepted default_config" "1 \<le> gc_max_dependencies default_config"
    "gc_max_capacity default_config \<le> 256" by (simp_all add: config_accepted_def default_config_def)
  ultimately show ?thesis using generated_sets_up [of "low_rng 0" default_config 7 "()" same_text] by blast
qed

text \<open>The two limits are needed, but \<open>GeneratorConfig\<close> checks neither of them: it accepts a
  configuration without dependencies, with which the draw of a dependency count raises on an empty
  range, and workers larger than 256, which the model refuses to register.\<close>

definition no_dependencies :: gen_config where
  "no_dependencies = default_config\<lparr>gc_max_dependencies := 0\<rparr>"

definition large_workers :: gen_config where
  "large_workers = default_config\<lparr>gc_min_tasks := 1, gc_max_tasks := 1, gc_max_workers := 1, gc_max_capacity := 300\<rparr>"

theorem accepted_configs_fail:
  "config_accepted no_dependencies \<and> fst (gen_scenario (low_rng 0) no_dependencies same_text 1 1 ()) = Inl Empty_range
   \<and> config_accepted large_workers
   \<and> fst (gen_scenario ((low_rng 0)\<lparr>rng_randint := \<lambda>a b s. (b, s)\<rparr>) large_workers same_text 1 1 ())
       = Inl (Model_error BadCapacity)"
  by (intro conjI) code_simp+

section \<open>The shrinker\<close>

text \<open>C26: The delta debugger keeps the failure, only removes actions, and ends with a list from which
  no single action can be removed without losing the failure, or with one action at most.\<close>

theorem ddmin_one_minimal:
  assumes "ddmin_actions fails sc = (result, trace)" "fails sc"
  shows "fails result \<and> subseq (sc_actions result) (sc_actions sc)
    \<and> (length (sc_actions result) < 2
       \<or> list_all (\<lambda>i. \<not> fails (result\<lparr>sc_actions := take i (sc_actions result) @ drop (i + 1) (sc_actions result)\<rparr>))
           [0..<length (sc_actions result)])"
  using ddmin_facts [OF assms(1)] assms(2) by (auto simp: one_minimal_def)

theorem ddmin_one_minimal_witness:
  "sc_actions (fst (ddmin_actions (\<lambda>sc. 2 \<le> length (sc_actions sc)) small_scenario))
     = [lease_by ''u'', lease_by ''u'']
   \<and> 2 \<le> length (sc_actions (fst (ddmin_actions (\<lambda>sc. 2 \<le> length (sc_actions sc)) small_scenario)))"
proof -
  obtain result trace where run: "ddmin_actions (\<lambda>sc. 2 \<le> length (sc_actions sc)) small_scenario = (result, trace)"
    by (rule prod.exhaust)
  have "2 \<le> length (sc_actions small_scenario)" by code_simp
  from ddmin_one_minimal [OF run this] have "2 \<le> length (sc_actions result)" by blast
  moreover have "sc_actions (fst (ddmin_actions (\<lambda>sc. 2 \<le> length (sc_actions sc)) small_scenario))
     = [lease_by ''u'', lease_by ''u'']" by code_simp
  ultimately show ?thesis using run by simp
qed

text \<open>With a predicate that does not raise, shrinking a failing scenario always succeeds: the
  failure is never lost, the report is the replay of the result and still satisfies the predicate. The
  result has no more actions, some of the workers and some of the tasks, and at least one of each
  where the scenario had any.\<close>

theorem shrink_keeps_failure:
  assumes "run = replay digest fingerprint strict True None" "range predicate \<subseteq> {Some False, Some True}"
    "predicate (run sc) = Some True" "list_all (\<lambda>t. task_clone t = Inr t) (gw_tasks (sc_workflow sc))"
  shows "\<exists>result. shrink run predicate rounds sc = Inr result \<and> sh_report result = run (sh_minimized result)
    \<and> predicate (sh_report result) = Some True \<and> reduced (sh_minimized result) sc \<and> 0 \<le> removed_actions result"
proof -
  have never: "predicate r \<noteq> None" for r using assms(2) by (auto simp: image_subset_iff)
  obtain result where "shrink run predicate rounds sc = Inr result" "sh_original result = sc"
    "sh_report result = run (sh_minimized result)" "predicate (sh_report result) = Some True"
    "reduced (sh_minimized result) sc"
    using shrink_keeps [where predicate = predicate and run = run and sc = sc and rounds = rounds, OF never assms(3)]
      assms(4) unfolding constructed_def by blast
  then show ?thesis by (auto simp: removed_actions_def reduced_def)
qed

theorem shrink_keeps_failure_witness:
  "\<exists>result. shrink (replay same_text text_length False True None) (\<lambda>r. Some (rr_records r \<noteq> [])) 3 small_scenario = Inr result
     \<and> rr_records (sh_report result) \<noteq> []"
proof -
  let ?run = "replay same_text text_length False True None" and ?predicate = "\<lambda>r. Some (rr_records r \<noteq> [])"
  have "rr_records (?run small_scenario) \<noteq> []"
    "list_all (\<lambda>t. task_clone t = Inr t) (gw_tasks (sc_workflow small_scenario))" by code_simp+
  then have "?predicate (?run small_scenario) = Some True"
    "list_all (\<lambda>t. task_clone t = Inr t) (gw_tasks (sc_workflow small_scenario))" by simp_all
  from shrink_keeps_failure [where predicate = ?predicate and run = ?run, OF refl _ this, of 3] show ?thesis by auto
qed

text \<open>C27: Removing a task keeps the workflow valid: a list that \<open>validate_dag\<close> accepts is still
  accepted after \<open>_without_task\<close>, unless nothing is left, and a remaining task waits, directly or
  through others, for exactly the remaining tasks it waited for before.\<close>

theorem removed_task_keeps_waiting:
  assumes "validate_dag ts = Inr order" "list_all (\<lambda>t. task_clone t = Inr t) ts"
    "without_task ts target = Inr us" "us \<noteq> []"
  shows "(\<exists>order'. validate_dag us = Inr order')
    \<and> (waits us)\<^sup>+ = {(d, k). d \<noteq> target \<and> k \<noteq> target \<and> (d, k) \<in> (waits ts)\<^sup>+}"
proof -
  have made: "constructed ts" using assms(2) by (simp add: constructed_def)
  show ?thesis
    using without_task_valid [OF assms(1) made assms(3,4)] without_task_reach [OF assms(1) made assms(3)] by auto
qed

definition chain_of_three :: "task list" where
  "chain_of_three = [small_task ''a'' [], small_task ''b'' [''a''], small_task ''c'' [''b'']]"

theorem removed_task_keeps_waiting_witness:
  "\<exists>us order'. without_task chain_of_three (lit ''b'') = Inr us \<and> map t_depends_on us = [[], [lit ''a'']]
     \<and> validate_dag us = Inr order'"
proof -
  have run: "validate_dag chain_of_three = Inr [lit ''a'', lit ''b'', lit ''c'']" by code_simp
  have made: "list_all (\<lambda>t. task_clone t = Inr t) chain_of_three" by code_simp
  have "case without_task chain_of_three (lit ''b'') of Inr us \<Rightarrow> map t_depends_on us = [[], [lit ''a'']] | Inl _ \<Rightarrow> False"
    by code_simp
  then obtain us where us: "without_task chain_of_three (lit ''b'') = Inr us" "map t_depends_on us = [[], [lit ''a'']]"
    by (auto split: sum.splits)
  then have "us \<noteq> []" by auto
  from removed_task_keeps_waiting [OF run made us(1) this, THEN conjunct1]
  obtain order' where "validate_dag us = Inr order'" ..
  with us show ?thesis by (intro exI conjI)
qed

end
