(* ===== verification/Lab_Main_Props.thy ===== *)
theory Lab_Main_Props
  imports Lab_Main Lab_Props
begin

text \<open>What the command line of the lab and the shrinker with a failure signature give.\<close>

section \<open>The signature of a failure\<close>

definition all_violations :: "violation list" where
  "all_violations = [EVENT_SEQUENCE, EVENT_TIME, WORKER_CAPACITY, WORKER_GHOST_LEASE, WORKER_LEASE_OWNER,
     LEASE_KEY, OVERLAPPING_LEASE, ACTIVE_CLOSED_LEASE, LEASE_DURATION, LEASE_WORKER_INDEX, ACTIVE_TASK_NO_LEASE,
     ACTIVE_TASK_UNKNOWN_LEASE, TASK_LEASE_TARGET, TASK_LEASE_OWNER, TASK_LEASE_EXPIRY, INACTIVE_TASK_HAS_LEASE,
     DEPENDENCY_SAFETY, DEPENDENCY_KEY_ERROR, WORKFLOW_FALSE_SUCCESS, WORKFLOW_CANCEL_ACTIVE, WORKFLOW_CANCEL_LEASE,
     WORKFLOW_TERMINAL_TIME, WORKFLOW_ACTIVE_FINISHED, NEGATIVE_ATTEMPT, ATTEMPT_BUDGET, PENDING_ATTEMPT,
     ACTIVE_ATTEMPT, RETRY_TIME, STALE_RETRY_TIME, WORKFLOW_FUTURE_CREATED, WORKFLOW_TIME_ORDER, TASK_FUTURE_START,
     TASK_FUTURE_FINISH, TASK_TIME_ORDER, NEGATIVE_OUTPUT, OUTPUT_LIMIT]"

lemma violation_codes: "distinct (map violation_code all_violations)"
  by code_simp

lemma violation_code_inj: "violation_code v = violation_code w \<Longrightarrow> v = w"
proof -
  have all: "v \<in> set all_violations" for v by (cases v) (simp_all add: all_violations_def)
  assume "violation_code v = violation_code w"
  then show "v = w" using violation_codes all [of v] all [of w] by (auto simp: distinct_map inj_on_def)
qed

lemma violation_code_Nil: "violation_code v = [] \<longleftrightarrow> v = DEPENDENCY_KEY_ERROR"
  using violation_code_inj [of v DEPENDENCY_KEY_ERROR] by auto

definition all_rejects :: "reject_code list" where
  "all_rejects = [Worker_dropped, Worker_expired, Stale_lease, Invalid_start_state, Invalid_stream, Log_chunk_too_large,
     Task_output_limit, Invalid_complete_state, Not_stale, Unknown_lease, Not_completed, Duplicate_completion,
     Lease_is_expired]"

lemma in_all_rejects: "c \<in> set all_rejects"
  by (cases c) (simp_all add: all_rejects_def)

lemma reject_text_inj: "reject_text c = reject_text d \<Longrightarrow> c = d"
proof -
  have "distinct (map reject_text all_rejects)" by code_simp
  then show "reject_text c = reject_text d \<Longrightarrow> c = d"
    using in_all_rejects [of c] in_all_rejects [of d] by (auto simp: distinct_map inj_on_def)
qed

text \<open>The prefix of a message that starts with a code is the code.\<close>

lemma strip_plain: "list_all (\<lambda>c. \<not> py_space c) s \<Longrightarrow> strip s = s"
proof -
  assume plain: "list_all (\<lambda>c. \<not> py_space c) s"
  then have "dropWhile py_space s = s" by (cases s) simp_all
  moreover have "dropWhile py_space (rev s) = rev s" using plain by (cases s rule: rev_cases) simp_all
  ultimately show ?thesis by (simp add: strip_def)
qed

lemma prefix_of_code:
  assumes "list_all (\<lambda>c. \<not> py_space c \<and> c \<noteq> 58) s"
  shows "prefix_of (s @ lit '': '' @ d) = s"
proof -
  have "takeWhile (\<lambda>c. c \<noteq> 58) (s @ lit '': '' @ d) = s"
    using assms by (simp add: takeWhile_append list_all_iff)
  then show ?thesis using strip_plain [of s] assms by (simp add: prefix_of_def list_all_iff)
qed

lemma reject_plain: "list_all (\<lambda>x. \<not> py_space x \<and> x \<noteq> 58) (reject_text c)"
proof -
  have "list_all (\<lambda>c. list_all (\<lambda>x. \<not> py_space x \<and> x \<noteq> 58) (reject_text c)) all_rejects" by code_simp
  then show ?thesis using in_all_rejects [of c] by (simp add: list_all_iff)
qed

text \<open>The prefix of a message that is no code starts with a plain word that is not one of the codes.\<close>

definition message_words :: "pystr list" where
  "message_words = map lit [''unknown'', ''lease'', ''invalid'', ''workflow'', ''duplicate'', ''task'', ''worker'', ''time'',
     ''cannot'']"

lemma strip_word:
  assumes "w \<noteq> []" "list_all (\<lambda>c. \<not> py_space c) w" "strip (w @ 32 # y) = u" "32 \<notin> set u"
  shows "take (length u) w = u"
proof -
  have "dropWhile py_space (w @ 32 # y) = w @ 32 # y" using assms(1,2) by (cases w) simp_all
  then have "u = rev (dropWhile py_space (rev (w @ 32 # y)))" using assms(3) by (simp add: strip_def)
  moreover have "rev (w @ 32 # y) = takeWhile py_space (rev (w @ 32 # y)) @ dropWhile py_space (rev (w @ 32 # y))" by simp
  ultimately have whole: "w @ 32 # y = u @ rev (takeWhile py_space (rev (w @ 32 # y)))"
    by (metis rev_append rev_rev_ident)
  define z where "z = rev (takeWhile py_space (rev (w @ 32 # y)))"
  have whole: "w @ 32 # y = u @ z" using whole by (simp only: z_def)
  have short: "length u \<le> length w"
  proof (rule ccontr)
    assume long: "\<not> length u \<le> length w"
    have "u ! length w = (u @ z) ! length w" using long by (simp add: nth_append)
    also have "\<dots> = (w @ 32 # y) ! length w" by (simp only: whole)
    also have "\<dots> = 32" by (rule nth_append_length)
    finally have "u ! length w = 32" .
    then show False using assms(4) nth_mem [of "length w" u] long by simp
  qed
  have "take (length u) (w @ 32 # y) = u" by (simp add: whole)
  then show ?thesis using short by simp
qed

lemma word_not_code:
  assumes "w \<in> set message_words"
  shows "prefix_of (w @ 32 # y) \<noteq> reject_text c"
proof
  assume eq: "prefix_of (w @ 32 # y) = reject_text c"
  have words: "list_all (\<lambda>w. w \<noteq> [] \<and> list_all (\<lambda>x. \<not> py_space x \<and> x \<noteq> 58) w
      \<and> list_all (\<lambda>c. take (length (reject_text c)) w \<noteq> reject_text c) all_rejects) message_words" by code_simp
  then have w: "w \<noteq> []" "list_all (\<lambda>x. \<not> py_space x \<and> x \<noteq> 58) w" "take (length (reject_text c)) w \<noteq> reject_text c"
    using bspec [OF words [unfolded list_all_iff] assms] in_all_rejects [of c] unfolding list_all_iff by blast+
  have "\<And>x. x \<in> set w \<Longrightarrow> x \<noteq> 58" using w(2) unfolding list_all_iff by blast
  then have "takeWhile (\<lambda>c. c \<noteq> 58) (w @ 32 # y) = w @ takeWhile (\<lambda>c. c \<noteq> 58) (32 # y)"
    by (rule takeWhile_append2)
  then have "takeWhile (\<lambda>c. c \<noteq> 58) (w @ 32 # y) = w @ 32 # takeWhile (\<lambda>c. c \<noteq> 58) y" by simp
  then have strip: "strip (w @ 32 # takeWhile (\<lambda>c. c \<noteq> 58) y) = reject_text c" using eq by (simp add: prefix_of_def)
  have "py_space 32" by (simp add: py_space_def)
  then have no_space: "32 \<notin> set (reject_text c)" using reject_plain [of c] unfolding list_all_iff by blast
  have "list_all (\<lambda>x. \<not> py_space x) w" using w(2) unfolding list_all_iff by blast
  from strip_word [OF w(1) this strip no_space] w(3) show False by contradiction
qed

lemma message_has_word:
  assumes "error_type e = lit ''ModelError''"
  shows "(\<exists>c. e = Rejected c) \<or> (\<exists>w \<in> set message_words. \<exists>y. error_message mt i e = w @ 32 # y)"
  using assms by (cases e) (auto simp: message_words_def)

lemma rejected_prefix:
  assumes "error_type e = lit ''ModelError''" "prefix_of (error_message mt i e) = reject_text c"
  shows "e = Rejected c"
  using message_has_word [OF assms(1), of mt i] assms(2) prefix_of_code [OF reject_plain] word_not_code reject_text_inj
  by auto

text \<open>The causes that the signature tells apart: the violated checks and the rejections.\<close>

fun coded :: "failure_cause \<Rightarrow> bool" where
  "coded (Violated v) \<longleftrightarrow> v \<noteq> DEPENDENCY_KEY_ERROR"
| "coded (Raised e) \<longleftrightarrow> (\<exists>c. e = Rejected c)"

lemma signature_cause:
  assumes "same_failure_signature mt expected r" "coded (rf_cause expected)"
  shows "\<exists>f. rr_failure r = Some f \<and> rf_cause f = rf_cause expected"
proof -
  obtain f where f: "rr_failure r = Some f" using assms(1) by (auto simp: same_failure_signature_def split: option.splits)
  show ?thesis
  proof (cases "rf_cause expected")
    case (Violated v)
    then have "failure_code f = violation_code v" "violation_code v \<noteq> []"
      using assms f by (auto simp: same_failure_signature_def failure_code_def violation_code_Nil)
    then show ?thesis using f Violated violation_code_inj
      by (auto simp: failure_code_def split: failure_cause.splits)
  next
    case (Raised e)
    then obtain c where c: "e = Rejected c" using assms(2) by auto
    have alike: "failure_type f = lit ''ModelError''" "prefix_of (failure_message mt f) = reject_text c"
      using assms(1) f Raised c prefix_of_code [OF reject_plain]
      by (auto simp: same_failure_signature_def failure_code_def failure_type_def failure_message_def)
    show ?thesis
    proof (cases "rf_cause f")
      case (Raised e')
      then have "e' = Rejected c" using alike rejected_prefix by (simp add: failure_type_def failure_message_def)
      then show ?thesis using f Raised \<open>rf_cause expected = Raised e\<close> c by simp
    qed (use alike(1) in \<open>auto simp: failure_type_def split: if_splits\<close>)
  qed
qed

text \<open>C25: Shrinking a failing scenario for the signature of its failure always succeeds, and the result
  fails in the same way: with the same violated check or the same rejection where the failure has a
  code, and otherwise with an exception of the same type and message prefix. The report is the replay
  of the result, which has no more actions, some of the workers and some of the tasks.\<close>

theorem shrink_keeps_signature:
  assumes "run = replay digest fingerprint strict True None" "rr_failure (run sc) = Some expected"
    "list_all (\<lambda>t. task_clone t = Inr t) (gw_tasks (sc_workflow sc))"
  shows "\<exists>result f. shrink run (\<lambda>r. Some (same_failure_signature mt expected r)) rounds sc = Inr result
    \<and> sh_report result = run (sh_minimized result) \<and> rr_failure (sh_report result) = Some f
    \<and> (if coded (rf_cause expected) then rf_cause f = rf_cause expected
       else failure_type f = failure_type expected
         \<and> prefix_of (failure_message mt f) = prefix_of (failure_message mt expected))
    \<and> reduced (sh_minimized result) sc \<and> 0 \<le> removed_actions result"
proof -
  have start: "same_failure_signature mt expected (run sc)" using assms(2) by (simp add: same_failure_signature_def)
  obtain result where result: "shrink run (\<lambda>r. Some (same_failure_signature mt expected r)) rounds sc = Inr result"
    "sh_original result = sc" "sh_report result = run (sh_minimized result)"
    "same_failure_signature mt expected (sh_report result)" "reduced (sh_minimized result) sc"
    using shrink_keeps [where predicate = "\<lambda>r. Some (same_failure_signature mt expected r)" and run = run and sc = sc
        and rounds = rounds] start assms(3) by (auto simp: constructed_def)
  obtain f where f: "rr_failure (sh_report result) = Some f"
    using result(4) by (auto simp: same_failure_signature_def split: option.splits)
  have "if coded (rf_cause expected) then rf_cause f = rf_cause expected
     else failure_type f = failure_type expected
       \<and> prefix_of (failure_message mt f) = prefix_of (failure_message mt expected)"
  proof (cases "coded (rf_cause expected)")
    case True
    then show ?thesis using signature_cause [OF result(4)] f by simp
  next
    case False
    then have "failure_code expected = []"
      by (cases "rf_cause expected") (auto simp: failure_code_def)
    then show ?thesis using result(4) f False by (simp add: same_failure_signature_def)
  qed
  then show ?thesis using result f by (auto simp: removed_actions_def reduced_def)
qed

definition renew_scenario :: "gen_note scenario" where
  "renew_scenario = small_scenario\<lparr>sc_actions := [(bare_action AdvanceTime)\<lparr>ac_amount := 5\<rparr>, (bare_action Renew)\<lparr>ac_token := lit ''x''\<rparr>]\<rparr>"

definition plain_texts :: message_texts where
  "plain_texts = \<lparr>mt_detail = (\<lambda>i e. show_int i), mt_check = (\<lambda>i v. show_int i),
     mt_other = (\<lambda>i e. error_type e), mt_state = task_state_text\<rparr>"

theorem shrink_keeps_signature_witness:
  "\<exists>expected result f. rf_cause expected = Raised (Rejected Unknown_lease)
     \<and> shrink (replay same_text text_length True True None) (\<lambda>r. Some (same_failure_signature plain_texts expected r)) 5
         renew_scenario = Inr result
     \<and> rr_failure (sh_report result) = Some f \<and> rf_cause f = Raised (Rejected Unknown_lease)"
proof -
  let ?run = "replay same_text text_length True True None"
  have "map_option rf_cause (rr_failure (?run renew_scenario)) = Some (Raised (Rejected Unknown_lease))" by code_simp
  then obtain expected where expected: "rr_failure (?run renew_scenario) = Some expected"
    "rf_cause expected = Raised (Rejected Unknown_lease)" by auto
  have tasks: "list_all (\<lambda>t. task_clone t = Inr t) (gw_tasks (sc_workflow renew_scenario))" by code_simp
  have "coded (rf_cause expected)" by (simp add: expected(2))
  with shrink_keeps_signature [OF refl expected(1) tasks, of plain_texts 5] show ?thesis
    unfolding expected(2) by (auto simp: expected(2) intro!: exI [of _ expected])
qed

section \<open>The command line\<close>

text \<open>The campaign command ends with 0 exactly if every seed was replayed without a failure, and then none is
  missing; the steps it reports are the accepted and the rejected actions together.\<close>

lemma campaign_steps:
  "campaign_totals c = (total_steps, accepted, rejected) \<Longrightarrow> total_steps = accepted + rejected"
proof -
  have "sum_list (map (\<lambda>r. int (length (rr_records r))) rs)
      = sum_list (map report_accepted rs) + sum_list (map report_rejected rs)" for rs
    by (induction rs) (simp_all add: report_rejected_def)
  then show "campaign_totals c = (total_steps, accepted, rejected) \<Longrightarrow> total_steps = accepted + rejected"
    by (auto simp: campaign_totals_def)
qed

lemma for_each_out: "\<exists>s'. for_each xs (\<lambda>x. print_err (f x)) s = (Inr (), s')"
  by (induction xs arbitrary: s) (auto simp: ret_def andThen_def chain_def print_err_def modify_def)

theorem campaign_exit:
  assumes "lab_main lib seeded g (Campaign_cmd first number steps as_json strict keep_going) w = (Inr code, w')"
  shows "\<exists>c. run_campaign seeded g (ll_digest lib) (model_digest (ll_sha256 lib)) first number steps None strict (\<not> keep_going) = Inr c
    \<and> code = (if campaign_ok c then 0 else 1)
    \<and> map rr_seed (cp_reports c) = map (\<lambda>i. first + int i) [0..<nat (cp_count c)]
    \<and> (code = 0 \<longrightarrow> cp_count c = number) \<and> (code = 1 \<longrightarrow> campaign_failures c \<noteq> [])"
proof -
  obtain c where c: "run_campaign seeded g (ll_digest lib) (model_digest (ll_sha256 lib)) first number steps None strict
      (\<not> keep_going) = Inr c"
    using assms by (cases "run_campaign seeded g (ll_digest lib) (model_digest (ll_sha256 lib)) first number steps None strict
      (\<not> keep_going)") (auto simp: campaign_command_def raise_def)
  obtain s' where "for_each (campaign_failures c) (\<lambda>r. print_err (seed_line (ll_texts lib) r))
      (w\<lparr>lw_out := lw_out w @ [campaign_line (ll_clock lib) c]\<rparr>) = (Inr (), s')"
    using for_each_out by blast
  then have "code = (if campaign_ok c then 0 else 1)"
    using assms by (auto simp: campaign_command_def c andThen_def chain_def print_out_def modify_def ret_def split: if_splits)
  then show ?thesis using c campaign_covers [OF c] by (auto simp: campaign_ok_def split: if_splits)
qed

section \<open>Saved scenarios\<close>

text \<open>The \<open>json\<close> module with \<open>sort_keys=True\<close> gives back the value with the keys of every object in order.\<close>

fun sort_json :: "json \<Rightarrow> json" where
  "sort_json (JList xs) = JList (map sort_json xs)"
| "sort_json (JDict d) = JDict (sort_key fst (map (\<lambda>(k, v). (k, sort_json v)) d))"
| "sort_json v = v"

definition sorted_back :: "lab_lib \<Rightarrow> bool" where
  "sorted_back lib \<longleftrightarrow> (\<forall>v. ll_loads lib (ll_pretty lib v @ [10]) = Some (sort_json v))"

definition sorted_labels :: "task \<Rightarrow> task" where
  "sorted_labels t = t\<lparr>t_labels := sort_key fst (t_labels t)\<rparr>"

definition sorted_scenario :: "'n scenario \<Rightarrow> 'n scenario" where
  "sorted_scenario sc = sc\<lparr>sc_workflow := \<lparr>gw_name = gw_name (sc_workflow sc),
       gw_tasks = map sorted_labels (gw_tasks (sc_workflow sc)), gw_metadata = sort_key fst (gw_metadata (sc_workflow sc))\<rparr>,
     sc_workers := map (\<lambda>(k, n, labels). (k, n, sort_key fst labels)) (sc_workers sc)\<rparr>"

lemma map_of_sort_key: "distinct (map fst d) \<Longrightarrow> map_of (sort_key fst d) = map_of d"
proof -
  assume d: "distinct (map fst d)"
  have "mset (map fst (sort_key fst d)) = mset (map fst d)" by simp
  then have "distinct (map fst (sort_key fst d))" using d by (metis mset_eq_imp_distinct_iff)
  then show ?thesis by (intro map_of_inject_set [THEN iffD2]) (simp_all add: d)
qed

lemma map_of_map_pair: "map_of (map (\<lambda>(k, v). (k, f v)) d) k = map_option f (map_of d k)"
  by (induction d) auto

lemma sorted_lookup:
  assumes "distinct (map fst entries)"
  shows "item k (sort_json (obj entries)) = (case map_of entries k of None \<Rightarrow> Inl (Key_missing k) | Some x \<Rightarrow> Inr (sort_json x))"
    "get_item k d (sort_json (obj entries)) = Inr (case map_of entries k of None \<Rightarrow> d | Some x \<Rightarrow> sort_json x)"
proof -
  have lit: "lit a = lit b \<longleftrightarrow> a = b" for a b by (simp add: lit_def inj_map_eq_map inj_def)
  let ?d = "map (\<lambda>(k, v). (k, sort_json v)) (map (\<lambda>(k, v). (lit k, v)) entries)"
  have "distinct (map fst ?d)" using assms by (simp add: comp_def case_prod_beta distinct_map inj_on_def lit)
  then have "map_of (sort_key fst ?d) (lit k) = map_of ?d (lit k)" by (simp add: map_of_sort_key)
  also have "\<dots> = map_option sort_json (map_of (map (\<lambda>(k, v). (lit k, v)) entries) (lit k))" by (rule map_of_map_pair)
  also have "map_of (map (\<lambda>(k, v). (lit k, v)) entries) (lit k) = map_of entries k"
    by (induction entries) (auto simp: lit)
  finally have look: "map_of (sort_key fst ?d) (lit k) = map_option sort_json (map_of entries k)" .
  show "item k (sort_json (obj entries)) = (case map_of entries k of None \<Rightarrow> Inl (Key_missing k) | Some x \<Rightarrow> Inr (sort_json x))"
    "get_item k d (sort_json (obj entries)) = Inr (case map_of entries k of None \<Rightarrow> d | Some x \<Rightarrow> sort_json x)"
    using look by (simp_all add: item_def get_item_def obj_def split: option.split)
qed

lemma insort_map_values:
  "insort_key fst (k, f v) (map (\<lambda>(k, v). (k, f v)) e) = map (\<lambda>(k, v). (k, f v)) (insort_key fst (k, v) e)"
  by (induction e) auto

lemma sort_map_values: "sort_key fst (map (\<lambda>(k, v). (k, f v)) d) = map (\<lambda>(k, v). (k, f v)) (sort_key fst d)"
  by (induction d) (auto simp: insort_map_values)

lemma sort_json_simps [simp]:
  "sort_json (text_map d) = text_map (sort_key fst d)" "sort_json (JList (map JStr ts)) = JList (map JStr ts)"
proof -
  have "map (\<lambda>(k, v). (k, sort_json v)) (map (\<lambda>(k, v). (k, JStr v)) d) = map (\<lambda>(k, v). (k, JStr v)) d"
    by (induction d) auto
  then show "sort_json (text_map d) = text_map (sort_key fst d)"
    by (simp only: text_map_def sort_json.simps sort_map_values)
  show "sort_json (JList (map JStr ts)) = JList (map JStr ts)" by (simp add: comp_def)
qed

lemma sorted_dwf: "dwf (sort_key fst d) \<longleftrightarrow> dwf d"
proof -
  have "distinct (map fst (sort_key fst d)) \<longleftrightarrow> distinct (map fst d)" by (rule mset_eq_imp_distinct_iff) simp
  then show ?thesis by (simp add: dwf_def dkeys_def)
qed

lemma fresh_sorted:
  assumes "fresh_task t"
  shows "new_task (t_id t) (t_depends_on t) (sort_key fst (t_labels t)) (t_retry t) (t_timeout_ms t) = Inr (sorted_labels t)"
  using assms by (cases t) (simp add: fresh_task_def new_task_def task_post_init_def sorted_labels_def Let_def split: if_splits)

lemma sorted_task_back:
  assumes "conversions_ok cv" "fresh_task t"
  shows "task_from_dict cv (sort_json (task_to_dict t)) = Inr (sorted_labels t)"
proof -
  have pairs: "text_pairs cv (text_map (sort_key fst (t_labels t))) = Inr (sort_key fst (t_labels t))"
    using text_pairs_back [OF assms(1) sorted_dwf [THEN iffD2]] assms(2) by (simp add: fresh_task_def)
  have texts: "map (cv_str cv \<circ> (sort_json \<circ> JStr)) ds = ds" for ds
    using assms(1) by (simp add: conversions_ok_def comp_def)
  have retry: "\<lparr>max_attempts = max_attempts r, base_delay_ms = base_delay_ms r, max_delay_ms = max_delay_ms r\<rparr> = r"
    for r :: retry_policy by (cases r) simp
  show ?thesis
    using assms(1) pairs texts [of "t_depends_on t"] fresh_sorted [OF assms(2)]
    by (simp add: retry sorted_lookup task_from_dict_def task_to_dict_def retry_as_json_def get_int_def conversions_ok_def)
qed

lemma sorted_worker_back:
  assumes "conversions_ok cv" "dwf (snd (snd spec))"
  shows "worker_from_dict cv (sort_json (worker_to_dict spec)) = Inr ((\<lambda>(k, n, labels). (k, n, sort_key fst labels)) spec)"
  using assms text_pairs_back [OF assms(1) sorted_dwf [THEN iffD2, OF assms(2)]]
  by (cases spec) (simp add: sorted_lookup worker_from_dict_def worker_to_dict_def get_int_def conversions_ok_def)

lemma sorted_action_back: "conversions_ok cv \<Longrightarrow> action_from_dict cv (sort_json (action_as_dict a)) = Inr a"
  by (simp add: sorted_lookup action_from_dict_def action_as_dict_def get_text_def get_int_def conversions_ok_def)

lemma attempt_all_sorted:
  "(\<And>x. x \<in> set xs \<Longrightarrow> f (sort_json (g x)) = Inr (h x)) \<Longrightarrow>
     attempt_all f (map sort_json (map g xs)) = Inr (map h xs)"
  by (induction xs) simp_all

text \<open>A scenario that is saved to a file is loaded again with the same seed, actions, tasks, workers and notes;
  only the dictionaries of labels and of metadata come back in the order of their keys.\<close>

theorem saved_scenario_loads:
  assumes "sorted_back lib" "conversions_ok (ll_conversions lib)" "list_all fresh_task (gw_tasks (sc_workflow sc))"
    "dwf (gw_metadata (sc_workflow sc))" "list_all (\<lambda>spec. dwf (snd (snd spec))) (sc_workers sc)"
    "save_scenario lib path sc w = (Inr (), w')"
  shows "load_scenario lib path w' = (Inr (sorted_scenario (with_texts (ll_note lib) sc)), w')"
proof -
  let ?cv = "ll_conversions lib" and ?v = "scenario_to_dict (ll_note lib) sc"
  have lists: "attempt_all (task_from_dict ?cv) (map sort_json (map task_to_dict (gw_tasks (sc_workflow sc))))
      = Inr (map sorted_labels (gw_tasks (sc_workflow sc)))"
    "attempt_all (worker_from_dict ?cv) (map sort_json (map worker_to_dict (sc_workers sc)))
      = Inr (map (\<lambda>(k, n, labels). (k, n, sort_key fst labels)) (sc_workers sc))"
    "attempt_all (action_from_dict ?cv) (map sort_json (map action_as_dict (sc_actions sc))) = Inr (map (\<lambda>a. a) (sc_actions sc))"
    by (rule attempt_all_sorted; use assms in \<open>simp add: list_all_iff sorted_task_back sorted_worker_back sorted_action_back\<close>)+
  have texts: "map (cv_str ?cv) (map sort_json (map (\<lambda>n. JStr (ll_note lib n)) ns)) = map (ll_note lib) ns" for ns
    using assms(2) by (simp add: conversions_ok_def comp_def)
  have pairs: "text_pairs ?cv (text_map (sort_key fst (gw_metadata (sc_workflow sc)))) = Inr (sort_key fst (gw_metadata (sc_workflow sc)))"
    by (rule text_pairs_back [OF assms(2) sorted_dwf [THEN iffD2, OF assms(4)]])
  have loaded: "scenario_from_dict ?cv (sort_json ?v) = Inr (sorted_scenario (with_texts (ll_note lib) sc))"
    using assms(2) lists texts [of "sc_notes sc"] pairs
    by (simp add: sorted_lookup scenario_from_dict_def scenario_to_dict_def get_list_def get_int_def conversions_ok_def
        with_texts_def sorted_scenario_def del: map_map)
  have "\<exists>d. sort_json ?v = JDict d" by (simp add: scenario_to_dict_def obj_def)
  moreover have "dget (lw_files w') path = Some (ll_pretty lib ?v @ [10])"
    using assms(6) by (auto simp: save_scenario_def modify_def dict_simps)
  ultimately show ?thesis
    using assms(1) loaded by (auto simp: load_scenario_def sorted_back_def)
qed

end
