(* ===== verification/Sdk_Client.thy ===== *)
theory Sdk_Client
  imports Sdk_Builder Py_Text Complex_Main
begin

text \<open>
  The HTTP client of the library (\<open>HelixClient\<close> in \<open>sdk/python/src/helixgrid/client.py\<close>). The network
  is a parameter: sending a request, the monotonic clock and sleeping, each acting on a state of the
  outside world. The \<open>json\<close> module, \<open>urlparse\<close> and \<open>int\<close> of a text are parameters too. Times are the
  rationals that floats stand for; a body is the text it decodes to.
\<close>

section \<open>Percent encoding\<close>

definition utf8_point :: "int \<Rightarrow> int list" where
  "utf8_point c =
     (if c < 128 then [c]
      else if c < 2048 then [192 + c div 64, 128 + c mod 64]
      else if c < 65536 then [224 + c div 4096, 128 + c div 64 mod 64, 128 + c mod 64]
      else [240 + c div 262144, 128 + c div 4096 mod 64, 128 + c div 64 mod 64, 128 + c mod 64])"

definition lone_surrogate :: "int \<Rightarrow> bool" where
  "lone_surrogate c \<longleftrightarrow> 55296 \<le> c \<and> c \<le> 57343"

definition utf8_bytes :: "pystr \<Rightarrow> int list option" where
  "utf8_bytes s = (if list_ex lone_surrogate s then None else Some (concat (map utf8_point s)))"

definition unreserved :: "int \<Rightarrow> bool" where
  "unreserved b \<longleftrightarrow> alpha b \<or> digit b \<or> b \<in> set (lit ''_.-~'')"

definition hex_char :: "int \<Rightarrow> int" where
  "hex_char d = (if d < 10 then 48 + d else 55 + d)"

definition quote_byte :: "int \<Rightarrow> pystr" where
  "quote_byte b = (if unreserved b then [b] else [37, hex_char (b div 16), hex_char (b mod 16)])"

text \<open>\<open>urllib.parse.quote(value, safe="")\<close>; \<open>None\<close> where the encoder raises.\<close>

definition quote :: "pystr \<Rightarrow> pystr option" where
  "quote s = map_option (\<lambda>bs. concat (map quote_byte bs)) (utf8_bytes s)"

section \<open>The client\<close>

record json_lib =
  jl_loads :: "pystr \<Rightarrow> json option"
  jl_dumps :: "json \<Rightarrow> pystr"
  jl_read_int :: "pystr \<Rightarrow> int option"

record request =
  rq_method :: string
  rq_url :: pystr
  rq_headers :: "(pystr, pystr) dict"
  rq_body :: "pystr option"
  rq_timeout :: rat

text \<open>A payload is a JSON value.\<close>

fun payload_json :: "payload \<Rightarrow> json" where
  "payload_json (PText s) = JStr s"
| "payload_json (PInt n) = JInt n"
| "payload_json (PList xs) = JList (map payload_json xs)"
| "payload_json (PDict d) = JDict (map (\<lambda>(k, v). (k, payload_json v)) d)"

text \<open>An exception that sending, reading the body or decoding it raises and that is neither \<open>HTTPError\<close> nor
  \<open>URLError\<close>, by what it is an instance of: \<open>OSError\<close> (a timeout, a reset), \<open>ValueError\<close> (a body that is no
  UTF-8), or neither (\<open>IncompleteRead\<close>).\<close>

datatype wire_error = Wire_os pystr | Wire_value pystr | Wire_other pystr

text \<open>A response with its decoded body, an error status with its body, no connection, or such an exception.\<close>

datatype answer = Body pystr | Status int pystr | No_route pystr | Broken wire_error

record 's network =
  net_send :: "request \<Rightarrow> 's \<Rightarrow> answer \<times> 's"
  net_clock :: "'s \<Rightarrow> rat \<times> 's"
  net_sleep :: "rat \<Rightarrow> 's \<Rightarrow> 's"

datatype api_error =
  Bad_url | Bad_timeout | Bad_interval | Api_error int pystr pystr | Unreachable pystr
  | Bad_json | No_data | Wrong_type | Not_encodable | Timed_out
  | Wire wire_error | Client_error client_error

record helix_client =
  hc_base_url :: pystr
  hc_timeout :: rat
  hc_user_agent :: pystr

type_synonym ('s, 'a) call = "('s, api_error, 'a) proc"

text \<open>\<open>__init__\<close>; \<open>urlparse\<close> gives the scheme and the network location.\<close>

definition strip_slashes :: "pystr \<Rightarrow> pystr" where
  "strip_slashes s = rev (dropWhile (\<lambda>c. c = 47) (rev s))"

definition new_client :: "(pystr \<Rightarrow> pystr \<times> pystr) \<Rightarrow> pystr \<Rightarrow> rat \<Rightarrow> pystr \<Rightarrow> api_error + helix_client" where
  "new_client urlparse base_url timeout user_agent =
     (case urlparse base_url of (scheme, netloc) \<Rightarrow>
        if scheme \<notin> {lit ''http'', lit ''https''} \<or> netloc = [] then Inl Bad_url
        else if timeout \<le> 0 then Inl Bad_timeout
        else Inr \<lparr>hc_base_url = strip_slashes base_url, hc_timeout = timeout, hc_user_agent = user_agent\<rparr>)"

definition client_headers :: "helix_client \<Rightarrow> (pystr, pystr) dict \<Rightarrow> (pystr, pystr) dict" where
  "client_headers c extra = fold (\<lambda>(k, v) d. dput k v d) extra
     [(lit ''Accept'', lit ''application/json''), (lit ''User-Agent'', hc_user_agent c)]"

text \<open>\<open>_raise_http_error\<close>: the message of a JSON error body, or the body itself.\<close>

definition http_error :: "json_lib \<Rightarrow> int \<Rightarrow> pystr \<Rightarrow> api_error" where
  "http_error lib code body = Api_error code
     (case jl_loads lib body of
        Some (JDict d) \<Rightarrow> (case map_of d (lit ''error'') of Some (JStr m) \<Rightarrow> m | _ \<Rightarrow> body)
      | _ \<Rightarrow> body) body"

definition api_request ::
  "json_lib \<Rightarrow> 's network \<Rightarrow> helix_client \<Rightarrow> string \<Rightarrow> pystr \<Rightarrow> json option \<Rightarrow> (pystr, pystr) dict \<Rightarrow> ('s, json) call" where
  "api_request lib net c method path body extra = (\<lambda>s.
     let plain = client_headers c extra;
         headers = (if body = None then plain else dput (lit ''Content-Type'') (lit ''application/json'') plain)
     in case net_send net \<lparr>rq_method = method, rq_url = hc_base_url c @ path, rq_headers = headers,
            rq_body = map_option (jl_dumps lib) body, rq_timeout = hc_timeout c\<rparr> s of
          (Body t, s') \<Rightarrow>
            if t = [] then (Inr (JDict []), s')
            else (case jl_loads lib t of None \<Rightarrow> (Inl Bad_json, s') | Some v \<Rightarrow> (Inr v, s'))
        | (Status code t, s') \<Rightarrow> (Inl (http_error lib code t), s')
        | (No_route reason, s') \<Rightarrow> (Inl (Unreachable reason), s')
        | (Broken e, s') \<Rightarrow> (Inl (Wire e), s'))"

text \<open>\<open>result["data"]\<close>\<close>

definition data_of :: "json \<Rightarrow> ('s, json) call" where
  "data_of v = (case v of
     JDict d \<Rightarrow> (case map_of d (lit ''data'') of None \<Rightarrow> raise No_data | Some x \<Rightarrow> ret x)
   | _ \<Rightarrow> raise Wrong_type)"

definition quoted :: "pystr \<Rightarrow> ('s, pystr) call" where
  "quoted s = (case quote s of None \<Rightarrow> raise Not_encodable | Some q \<Rightarrow> ret q)"

definition submit_workflow ::
  "json_lib \<Rightarrow> 's network \<Rightarrow> helix_client \<Rightarrow> workflow_definition + (pystr \<times> json) list \<Rightarrow> pystr option \<Rightarrow> ('s, json) call" where
  "submit_workflow lib net c w idempotency_key =
     (case (case w of Inl wd \<Rightarrow> map_sum id payload_json (workflow_as_dict wd) | Inr d \<Rightarrow> Inr (JDict d)) of
        Inl e \<Rightarrow> raise (Client_error e)
      | Inr body \<Rightarrow>
          chain (api_request lib net c ''POST'' (lit ''/v1/workflows'') (Some body)
            (case idempotency_key of None \<Rightarrow> [] | Some k \<Rightarrow> if k = [] then [] else [(lit ''Idempotency-Key'', k)])) data_of)"

definition list_workflows :: "json_lib \<Rightarrow> 's network \<Rightarrow> helix_client \<Rightarrow> ('s, json) call" where
  "list_workflows lib net c = chain (api_request lib net c ''GET'' (lit ''/v1/workflows'') None []) data_of"

definition get_workflow :: "json_lib \<Rightarrow> 's network \<Rightarrow> helix_client \<Rightarrow> pystr \<Rightarrow> ('s, json) call" where
  "get_workflow lib net c w = chain (quoted w) (\<lambda>q.
     chain (api_request lib net c ''GET'' (lit ''/v1/workflows/'' @ q) None []) data_of)"

definition client_cancel :: "json_lib \<Rightarrow> 's network \<Rightarrow> helix_client \<Rightarrow> pystr \<Rightarrow> ('s, json) call" where
  "client_cancel lib net c w = chain (quoted w) (\<lambda>q.
     chain (api_request lib net c ''POST'' (lit ''/v1/workflows/'' @ q @ lit ''/cancel'') None []) data_of)"

definition list_workers :: "json_lib \<Rightarrow> 's network \<Rightarrow> helix_client \<Rightarrow> ('s, json) call" where
  "list_workers lib net c = chain (api_request lib net c ''GET'' (lit ''/v1/workers'') None []) data_of"

section \<open>Waiting\<close>

text \<open>\<open>workflow.get("state") in terminal\<close>; a list or an object is not hashable.\<close>

definition terminal_state :: "json \<Rightarrow> api_error + bool" where
  "terminal_state v = (case v of
     JDict d \<Rightarrow> (case map_of d (lit ''state'') of
         Some (JStr s) \<Rightarrow> Inr (s \<in> {lit ''SUCCEEDED'', lit ''FAILED'', lit ''CANCELLED''})
       | Some (JList _) \<Rightarrow> Inl Wrong_type
       | Some (JDict _) \<Rightarrow> Inl Wrong_type
       | _ \<Rightarrow> Inr False)
   | _ \<Rightarrow> Inl Wrong_type)"

text \<open>The loop, with fuel; \<open>None\<close> is a loop that is still running.\<close>

fun wait_loop ::
  "('s, json) call \<Rightarrow> 's network \<Rightarrow> rat \<Rightarrow> rat option \<Rightarrow> rat \<Rightarrow> nat \<Rightarrow> 's \<Rightarrow> ((api_error + json) \<times> 's) option" where
  "wait_loop poll net interval limit started 0 s = None"
| "wait_loop poll net interval limit started (Suc n) s =
     (case poll s of
        (Inl e, s1) \<Rightarrow> Some (Inl e, s1)
      | (Inr v, s1) \<Rightarrow>
          (case terminal_state v of
             Inl e \<Rightarrow> Some (Inl e, s1)
           | Inr True \<Rightarrow> Some (Inr v, s1)
           | Inr False \<Rightarrow>
               (case limit of
                  None \<Rightarrow> wait_loop poll net interval limit started n (net_sleep net interval s1)
                | Some d \<Rightarrow>
                    (case net_clock net s1 of (now, s2) \<Rightarrow>
                       if d \<le> now - started then Some (Inl Timed_out, s2)
                       else wait_loop poll net interval limit started n (net_sleep net interval s2)))))"

definition wait ::
  "json_lib \<Rightarrow> 's network \<Rightarrow> helix_client \<Rightarrow> pystr \<Rightarrow> rat \<Rightarrow> rat option \<Rightarrow> nat \<Rightarrow> 's \<Rightarrow> ((api_error + json) \<times> 's) option" where
  "wait lib net c w interval limit fuel s =
     (if interval \<le> 0 then Some (Inl Bad_interval, s)
      else if limit \<noteq> None \<and> the limit < 0 then Some (Inl Bad_timeout, s)
      else case net_clock net s of (started, s1) \<Rightarrow>
        wait_loop (get_workflow lib net c w) net interval limit started fuel s1)"

section \<open>Events\<close>

text \<open>The event being collected, and an event handed out.\<close>

datatype sse_id = Sse_int int | Sse_text pystr

datatype sse_data = Sse_json json | Sse_raw pystr

record sse_state =
  ss_id :: "sse_id option"
  ss_event :: "pystr option"
  ss_data :: "pystr option"

record sse_event =
  ev_sse_id :: "sse_id option"
  ev_sse_event :: "pystr option"
  ev_sse_data :: "sse_data option"

definition no_event :: sse_state where
  "no_event = \<lparr>ss_id = None, ss_event = None, ss_data = None\<rparr>"

definition finish_event :: "json_lib \<Rightarrow> sse_state \<Rightarrow> sse_event" where
  "finish_event lib e = \<lparr>ev_sse_id = ss_id e, ev_sse_event = ss_event e,
     ev_sse_data = map_option (\<lambda>t. case jl_loads lib t of None \<Rightarrow> Sse_raw t | Some v \<Rightarrow> Sse_json v) (ss_data e)\<rparr>"

definition strip_newlines :: "pystr \<Rightarrow> pystr" where
  "strip_newlines s = rev (dropWhile (\<lambda>c. c \<in> {13, 10}) (rev s))"

definition sse_field :: "json_lib \<Rightarrow> pystr \<Rightarrow> pystr \<Rightarrow> sse_state \<Rightarrow> sse_state" where
  "sse_field lib name v e =
     (if name = lit ''id'' then e\<lparr>ss_id := Some (case jl_read_int lib v of Some n \<Rightarrow> Sse_int n | None \<Rightarrow> Sse_text v)\<rparr>
      else if name = lit ''event'' then e\<lparr>ss_event := Some v\<rparr>
      else if name = lit ''data''
        then e\<lparr>ss_data := Some (case ss_data e of None \<Rightarrow> v | Some t \<Rightarrow> t @ [10] @ v)\<rparr>
      else e)"

text \<open>One line of the stream: the next state and the event it completes.\<close>

definition sse_line :: "json_lib \<Rightarrow> sse_state \<Rightarrow> pystr \<Rightarrow> sse_state \<times> sse_event list" where
  "sse_line lib e raw =
     (let line = strip_newlines raw in
      if line = [] then (if e = no_event then (e, []) else (no_event, [finish_event lib e]))
      else if hd line = 58 then (e, [])
      else if 58 \<notin> set line then (e, [])
      else (sse_field lib (takeWhile (\<lambda>c. c \<noteq> 58) line) (dropWhile (\<lambda>c. c = 32) (after_colon line)) e, []))"

fun iter_events_lines :: "json_lib \<Rightarrow> sse_state \<Rightarrow> pystr list \<Rightarrow> sse_event list" where
  "iter_events_lines lib e [] = []"
| "iter_events_lines lib e (l # ls) =
     (case sse_line lib e l of (e', done_events) \<Rightarrow> done_events @ iter_events_lines lib e' ls)"

definition events_request :: "helix_client \<Rightarrow> pystr \<Rightarrow> int option \<Rightarrow> request" where
  "events_request c q last_event_id =
     (let headers = dput (lit ''Accept'') (lit ''text/event-stream'') (client_headers c [])
      in \<lparr>rq_method = ''GET'', rq_url = hc_base_url c @ lit ''/v1/workflows/'' @ q @ lit ''/events'',
          rq_headers = (case last_event_id of None \<Rightarrow> headers | Some n \<Rightarrow> dput (lit ''Last-Event-ID'') (show_int n) headers),
          rq_body = None, rq_timeout = max (hc_timeout c) 30\<rparr>)"

end
