(* ===== verification/Sdk_Calls.thy ===== *)
theory Sdk_Calls
  imports Sdk_Client
begin

text \<open>
  The HTTP client at work: percent encoding loses nothing and stays inside a path segment, waiting
  with a limit ends, and the stream the coordinator writes is read back event by event.
\<close>

section \<open>Percent encoding\<close>

definition code_point :: "int \<Rightarrow> bool" where
  "code_point c \<longleftrightarrow> 0 \<le> c \<and> c < 1114112"

lemma split_64:
  fixes c d :: int
  shows "c div 64 = d div 64 \<Longrightarrow> c mod 64 = d mod 64 \<Longrightarrow> c = d"
  by (metis div_mult_mod_eq)

lemma div_64: fixes c :: int shows "c div 4096 = c div 64 div 64" "c div 262144 = c div 64 div 64 div 64"
  by (simp_all add: zdiv_zmult2_eq [symmetric])

text \<open>The first byte tells the class of a code point, so encodings can be taken apart.\<close>

lemma first_byte:
  assumes "code_point c"
  shows "hd (utf8_point c) < 128 \<longleftrightarrow> c < 128" "hd (utf8_point c) < 224 \<longleftrightarrow> c < 2048"
    "hd (utf8_point c) < 240 \<longleftrightarrow> c < 65536"
proof -
  have "0 \<le> c div 64" "0 \<le> c div 4096" "0 \<le> c div 262144" using assms by (simp_all add: code_point_def pos_imp_zdiv_nonneg_iff)
  moreover have "c < 2048 \<Longrightarrow> c div 64 < 32" "c < 65536 \<Longrightarrow> c div 4096 < 16" by simp_all
  ultimately show "hd (utf8_point c) < 128 \<longleftrightarrow> c < 128" "hd (utf8_point c) < 224 \<longleftrightarrow> c < 2048"
    "hd (utf8_point c) < 240 \<longleftrightarrow> c < 65536"
    by (auto simp: utf8_point_def)
qed

lemma utf8_point_inj:
  assumes "code_point c" "code_point d" "utf8_point c @ xs = utf8_point d @ ys"
  shows "c = d \<and> xs = ys"
proof -
  have "utf8_point c \<noteq> []" "utf8_point d \<noteq> []" by (simp_all add: utf8_point_def)
  then have "hd (utf8_point c) = hd (utf8_point d)" using assms(3) by (metis hd_append2)
  then have classes: "c < 128 \<longleftrightarrow> d < 128" "c < 2048 \<longleftrightarrow> d < 2048" "c < 65536 \<longleftrightarrow> d < 65536"
    using first_byte [OF assms(1)] first_byte [OF assms(2)] by simp_all
  consider "c < 128" | "128 \<le> c" "c < 2048" | "2048 \<le> c" "c < 65536" | "65536 \<le> c" by linarith
  then show ?thesis
  proof cases
    case 1
    then show ?thesis using assms(3) classes by (simp add: utf8_point_def)
  next
    case 2
    then show ?thesis using assms(3) classes split_64 [of c d] by (simp add: utf8_point_def)
  next
    case 3
    then have "c div 64 div 64 = d div 64 div 64" "c div 64 mod 64 = d div 64 mod 64" "c mod 64 = d mod 64" "xs = ys"
      using assms(3) classes by (simp_all add: utf8_point_def div_64)
    then show ?thesis using split_64 [of "c div 64" "d div 64"] split_64 [of c d] by blast
  next
    case 4
    then have "c div 64 div 64 div 64 = d div 64 div 64 div 64" "c div 64 div 64 mod 64 = d div 64 div 64 mod 64"
      "c div 64 mod 64 = d div 64 mod 64" "c mod 64 = d mod 64" "xs = ys"
      using assms(3) classes by (simp_all add: utf8_point_def div_64)
    then show ?thesis
      using split_64 [of "c div 64 div 64" "d div 64 div 64"] split_64 [of "c div 64" "d div 64"] split_64 [of c d] by blast
  qed
qed

lemma utf8_point_bytes: "code_point c \<Longrightarrow> b \<in> set (utf8_point c) \<Longrightarrow> 0 \<le> b \<and> b < 256"
  by (auto simp: utf8_point_def code_point_def split: if_splits)

lemma concat_inj:
  assumes inj: "\<And>a b xs ys. P a \<Longrightarrow> P b \<Longrightarrow> f a @ xs = f b @ ys \<Longrightarrow> a = b \<and> xs = ys"
    and some: "\<And>a. P a \<Longrightarrow> f a \<noteq> []"
  shows "list_all P as \<Longrightarrow> list_all P bs \<Longrightarrow> concat (map f as) = concat (map f bs) \<Longrightarrow> as = bs"
proof (induction as arbitrary: bs)
  case Nil
  then show ?case using some by (cases bs) auto
next
  case (Cons a as)
  then obtain b bs' where bs: "bs = b # bs'" using some by (cases bs) auto
  then have "a = b \<and> concat (map f as) = concat (map f bs')"
    by (intro inj) (use Cons.prems in auto)
  then show ?case using Cons.IH [of bs'] Cons.prems bs by simp
qed

lemma quote_byte_inj:
  assumes "0 \<le> a \<and> a < 256" "0 \<le> b \<and> b < 256" "quote_byte a @ xs = quote_byte b @ ys"
  shows "a = b \<and> xs = ys"
proof -
  have percent: "\<not> unreserved 37" by code_simp
  have hex: "d = e" if "hex_char d = hex_char e" "0 \<le> d" "0 \<le> e" for d e
    using that by (auto simp: hex_char_def split: if_splits)
  have whole: "a = b" if "a div 16 = b div 16" "a mod 16 = b mod 16" using that by (metis div_mult_mod_eq)
  show ?thesis
    using assms percent whole hex [of "a div 16" "b div 16"] hex [of "a mod 16" "b mod 16"]
    by (auto simp: quote_byte_def split: if_splits)
qed

lemma utf8_all_bytes: "list_all code_point s \<Longrightarrow> list_all (\<lambda>b. 0 \<le> b \<and> b < 256) (concat (map utf8_point s))"
  by (induction s) (auto simp: list_all_iff dest: utf8_point_bytes)

lemma quote_inj:
  assumes "list_all code_point s" "list_all code_point t" "quote s = Some q" "quote t = Some q"
  shows "s = t"
proof -
  let ?bytes = "\<lambda>s. concat (map utf8_point s)"
  have "concat (map quote_byte (?bytes s)) = concat (map quote_byte (?bytes t))"
    using assms(3,4) by (auto simp: quote_def utf8_bytes_def split: if_splits)
  then have "?bytes s = ?bytes t"
    by (rule concat_inj [where P = "\<lambda>b. 0 \<le> b \<and> b < 256", OF quote_byte_inj _ utf8_all_bytes utf8_all_bytes, rotated -1])
      (use assms(1,2) in \<open>simp_all add: quote_byte_def\<close>)
  then show ?thesis
    by (rule concat_inj [where P = code_point, OF utf8_point_inj _ assms(1,2), rotated -1]) (simp_all add: utf8_point_def)
qed

definition segment_char :: "int \<Rightarrow> bool" where
  "segment_char c \<longleftrightarrow> alpha c \<or> digit c \<or> c \<in> set (lit ''_.-~%'')"

lemma hex_char_segment: "0 \<le> d \<Longrightarrow> d < 16 \<Longrightarrow> segment_char (hex_char d)"
  by (auto simp: segment_char_def hex_char_def digit_def alpha_def upper_def)

lemma quote_segment:
  assumes "list_all code_point s" "quote s = Some q"
  shows "list_all segment_char q"
proof -
  have byte: "list_all segment_char (quote_byte b)" if "0 \<le> b \<and> b < 256" for b
    using that hex_char_segment [of "b div 16"] hex_char_segment [of "b mod 16"]
    by (auto simp: quote_byte_def unreserved_def) (auto simp: segment_char_def)
  have "q = concat (map quote_byte (concat (map utf8_point s)))"
    using assms(2) by (auto simp: quote_def utf8_bytes_def split: if_splits)
  moreover have "list_all (\<lambda>b. 0 \<le> b \<and> b < 256) bs \<Longrightarrow> list_all segment_char (concat (map quote_byte bs))" for bs
    using byte by (induction bs) simp_all
  ultimately show ?thesis using utf8_all_bytes [OF assms(1)] by simp
qed

section \<open>Waiting\<close>

text \<open>A clock that never goes back, and a sleep that lasts at least as long as asked.\<close>

definition clock_ok :: "'s network \<Rightarrow> ('s \<Rightarrow> rat) \<Rightarrow> bool" where
  "clock_ok net time \<longleftrightarrow>
     (\<forall>s. fst (net_clock net s) = time s \<and> time s \<le> time (snd (net_clock net s)))
     \<and> (\<forall>r s. time s \<le> time (snd (net_send net r s)))
     \<and> (\<forall>d s. 0 \<le> d \<longrightarrow> time s + d \<le> time (net_sleep net d s))"

lemma clock_okD:
  assumes "clock_ok net time"
  shows "net_clock net s = (now, s') \<Longrightarrow> now = time s \<and> time s \<le> time s'"
    "net_send net r s = (x, s') \<Longrightarrow> time s \<le> time s'" "0 \<le> d \<Longrightarrow> time s + d \<le> time (net_sleep net d s)"
  using assms unfolding clock_ok_def by (metis fst_conv snd_conv)+

lemma api_request_time:
  assumes "clock_ok net time" "api_request lib net c method path body extra s = (x, s')"
  shows "time s \<le> time s'"
proof -
  obtain r a where "net_send net r s = (a, s')"
    using assms(2) by (auto simp: api_request_def Let_def split: prod.splits answer.splits option.splits if_splits)
  then show ?thesis by (rule clock_okD(2) [OF assms(1)])
qed

lemma data_of_state: "data_of v s = (x, s') \<Longrightarrow> s' = s"
  by (auto simp: data_of_def ret_def raise_def split: json.splits option.splits)

lemma get_workflow_time:
  assumes "clock_ok net time" "get_workflow lib net c w s = (x, s')"
  shows "time s \<le> time s'"
proof (cases "quote w")
  case None
  then show ?thesis using assms(2) by (simp add: get_workflow_def quoted_def chain_def raise_def)
next
  case (Some q)
  then obtain y where "api_request lib net c ''GET'' (lit ''/v1/workflows/'' @ q) None [] s = (y, s')"
    using assms(2) by (auto simp: get_workflow_def quoted_def chain_def ret_def simp del: lit_Cons
        dest: data_of_state split: prod.splits sum.splits)
  then show ?thesis by (rule api_request_time [OF assms(1)])
qed

text \<open>What a wait may end with.\<close>

definition wait_result :: "(api_error + json) \<times> 's \<Rightarrow> bool" where
  "wait_result r \<longleftrightarrow> (case fst r of Inr v \<Rightarrow> terminal_state v = Inr True | Inl e \<Rightarrow> True)"

lemma wait_result_simps [simp]: "wait_result (Inl e, s)" "wait_result (Inr v, s) \<longleftrightarrow> terminal_state v = Inr True"
  by (simp_all add: wait_result_def)

lemma wait_loop_result: "wait_loop poll net interval limit started n s = Some (x, s') \<Longrightarrow> wait_result (x, s')"
proof (induction n arbitrary: s)
  case (Suc n)
  obtain y s1 where p: "poll s = (y, s1)" by (rule prod.exhaust)
  show ?case
  proof (cases y)
    case (Inl e)
    then show ?thesis using Suc.prems p by auto
  next
    case (Inr v)
    show ?thesis
    proof (cases "terminal_state v = Inr False")
      case True
      then show ?thesis
        using Suc p Inr by (auto split: option.splits prod.splits if_splits)
    next
      case False
      then show ?thesis using Suc.prems p Inr by (auto split: sum.splits bool.splits)
    qed
  qed
qed simp

text \<open>Every turn takes at least the interval, so there are at most limit / interval + 1 of them.\<close>

lemma wait_loop_ends:
  assumes net: "clock_ok net time" and poll: "\<And>s x s'. poll s = (x, s') \<Longrightarrow> time s \<le> time s'" and pos: "0 < interval"
  shows "limit < (time s - started) + of_nat n * interval \<Longrightarrow>
    wait_loop poll net interval (Some limit) started (Suc n) s \<noteq> None"
proof (induction n arbitrary: s)
  case 0
  obtain r s1 where p: "poll s = (r, s1)" by (rule prod.exhaust)
  obtain now s2 where c: "net_clock net s1 = (now, s2)" by (rule prod.exhaust)
  have "limit \<le> now - started" using 0 poll [OF p] clock_okD(1) [OF net c] by simp
  then show ?case using p c by (auto split: sum.split bool.split)
next
  case (Suc n)
  obtain r s1 where p: "poll s = (r, s1)" by (rule prod.exhaust)
  obtain now s2 where c: "net_clock net s1 = (now, s2)" by (rule prod.exhaust)
  have "time s + interval \<le> time (net_sleep net interval s2)"
    using poll [OF p] clock_okD(1) [OF net c] clock_okD(3) [OF net, of interval s2] pos by simp
  then have "limit < (time (net_sleep net interval s2) - started) + of_nat n * interval"
    using Suc.prems by (simp add: algebra_simps)
  note rest = Suc.IH [OF this]
  show ?case
    unfolding wait_loop.simps(2) [of _ _ _ _ _ "Suc n"] p prod.case option.case c
    using rest by (simp del: wait_loop.simps split: sum.split bool.split)
qed

lemma wait_ends_facts:
  assumes net: "clock_ok net time" and pos: "0 < interval" and limit: "0 \<le> limit"
    and fuel: "limit / interval + 1 < of_nat fuel"
  obtains r where "wait lib net c w interval (Some limit) fuel s = Some r" "wait_result r"
proof -
  obtain started s1 where start: "net_clock net s = (started, s1)" by (rule prod.exhaust)
  have "0 \<le> limit / interval" using pos limit by simp
  then obtain n where n: "fuel = Suc n" using fuel by (cases fuel) auto
  have "limit / interval < of_nat n" using fuel n by simp
  then have "limit < of_nat n * interval" using pos by (simp add: pos_divide_less_eq)
  then have "limit < (time s1 - started) + of_nat n * interval" using clock_okD(1) [OF net start] by simp
  then have "wait_loop (get_workflow lib net c w) net interval (Some limit) started (Suc n) s1 \<noteq> None"
    by (rule wait_loop_ends [where time = time, OF net _ pos, rotated]) (rule get_workflow_time [OF net])
  then obtain x s' where r: "wait_loop (get_workflow lib net c w) net interval (Some limit) started fuel s1 = Some (x, s')"
    using n by (auto simp del: wait_loop.simps)
  then have "wait lib net c w interval (Some limit) fuel s = Some (x, s')"
    using start pos limit by (simp add: wait_def)
  then show ?thesis using that wait_loop_result [OF r] by blast
qed

section \<open>Events\<close>

text \<open>What the coordinator writes to the stream (\<open>coordinator/internal/api/server.go\<close>): a keep-alive
  comment, or an event with its id, type and payload on one line each.\<close>

datatype stream_message = Ping | Message int pystr pystr

fun message_lines :: "stream_message \<Rightarrow> pystr list" where
  "message_lines Ping = [lit '': ping'' @ [10], [10]]"
| "message_lines (Message n ty payload) = [lit ''id: '' @ show_int n @ [10], lit ''event: '' @ ty @ [10],
     lit ''data: '' @ payload @ [10], [10]]"

fun message_event :: "json_lib \<Rightarrow> stream_message \<Rightarrow> sse_event list" where
  "message_event lib Ping = []"
| "message_event lib (Message n ty payload) =
     [\<lparr>ev_sse_id = Some (Sse_int n), ev_sse_event = Some ty,
       ev_sse_data = Some (case jl_loads lib payload of None \<Rightarrow> Sse_raw payload | Some v \<Rightarrow> Sse_json v)\<rparr>]"

text \<open>A text that fits on a line: no line break, no space before it.\<close>

definition line_text :: "pystr \<Rightarrow> bool" where
  "line_text s \<longleftrightarrow> s \<noteq> [] \<and> hd s \<noteq> 32 \<and> 10 \<notin> set s \<and> 13 \<notin> set s"

definition message_ok :: "stream_message \<Rightarrow> bool" where
  "message_ok m \<longleftrightarrow> (case m of Ping \<Rightarrow> True | Message n ty payload \<Rightarrow> line_text ty \<and> line_text payload)"

lemma strip_newlines_line:
  assumes "10 \<notin> set s" "13 \<notin> set s"
  shows "strip_newlines (s @ [10]) = s"
proof -
  have "dropWhile (\<lambda>c. c \<in> {13, 10}) (rev s) = rev s"
  proof (cases "rev s")
    case (Cons c cs)
    then have "c \<in> set s" by (metis list.set_intros(1) set_rev)
    then show ?thesis using assms Cons by auto
  qed simp
  then show ?thesis by (simp add: strip_newlines_def)
qed

lemma colon_split:
  assumes "58 \<notin> set name"
  shows "takeWhile (\<lambda>c. c \<noteq> 58) (name @ 58 # v) = name" "dropWhile (\<lambda>c. c \<noteq> 58) (name @ 58 # v) = 58 # v"
  using assms by (induction name) auto

lemma field_line:
  assumes "line_text v" "58 \<notin> set name" "name \<noteq> []" "10 \<notin> set name" "13 \<notin> set name"
  shows "sse_line lib e (name @ [58, 32] @ v @ [10]) = (sse_field lib name v e, [])"
proof -
  have strip: "strip_newlines ((name @ [58, 32] @ v) @ [10]) = name @ [58, 32] @ v"
    using assms by (intro strip_newlines_line) (auto simp: line_text_def)
  have "dropWhile (\<lambda>c. c = 32) (32 # v) = v" using assms(1) by (cases v) (auto simp: line_text_def)
  moreover have "hd (name @ [58, 32] @ v) \<noteq> 58" using assms(2,3) by (cases name) auto
  ultimately show ?thesis
    using strip assms(3) colon_split [OF assms(2)] by (simp add: sse_line_def Let_def after_colon_def)
qed

lemma show_int_line: "line_text (show_int n)"
proof -
  have "c \<noteq> 32 \<and> c \<noteq> 10 \<and> c \<noteq> 13" if "c \<in> set (show_int n)" for c
    using that show_nat_digits [of c] by (auto simp: show_int_def digit_def split: if_splits)
  moreover have "show_int n \<noteq> []" by (simp add: show_int_def)
  ultimately show ?thesis by (auto simp: line_text_def)
qed

lemma message_read:
  assumes "message_ok m" "\<And>n. jl_read_int lib (show_int n) = Some n"
  shows "iter_events_lines lib no_event (message_lines m @ ls) = message_event lib m @ iter_events_lines lib no_event ls"
proof (cases m)
  case Ping
  have "strip_newlines (lit '': ping'' @ [10]) = lit '': ping''" by code_simp
  moreover have "strip_newlines [10] = []" by code_simp
  ultimately show ?thesis using Ping by (simp add: sse_line_def Let_def)
next
  case (Message n ty payload)
  have blank: "strip_newlines [10] = []" by code_simp
  have lines: "line_text ty" "line_text payload" using assms(1) Message by (simp_all add: message_ok_def)
  have "sse_line lib e (lit ''id: '' @ show_int n @ [10]) = (sse_field lib (lit ''id'') (show_int n) e, [])"
    "sse_line lib e (lit ''event: '' @ ty @ [10]) = (sse_field lib (lit ''event'') ty e, [])"
    "sse_line lib e (lit ''data: '' @ payload @ [10]) = (sse_field lib (lit ''data'') payload e, [])" for e
    using field_line [OF show_int_line, of "lit ''id''" lib e n] field_line [OF lines(1), of "lit ''event''" lib e]
      field_line [OF lines(2), of "lit ''data''" lib e] by simp_all
  moreover have "sse_field lib (lit ''data'') payload (sse_field lib (lit ''event'') ty
      (sse_field lib (lit ''id'') (show_int n) no_event))
    = \<lparr>ss_id = Some (Sse_int n), ss_event = Some ty, ss_data = Some payload\<rparr>"
    using assms(2) by (simp add: sse_field_def no_event_def)
  ultimately show ?thesis
    using Message blank by (simp add: sse_line_def [of _ _ "[10]"] Let_def no_event_def finish_event_def del: lit_Cons)
qed

lemma stream_read:
  assumes "list_all message_ok ms" "\<And>n. jl_read_int lib (show_int n) = Some n"
  shows "iter_events_lines lib no_event (concat (map message_lines ms)) = concat (map (message_event lib) ms)"
  using assms(1) by (induction ms) (simp_all add: message_read [OF _ assms(2)])

end
