(* ===== verification/Stats_Count.thy ===== *)
theory Stats_Count
  imports Py_Text "HOL-Library.Multiset"
begin

text \<open>
  The line counter (\<open>scripts/code_stats.py\<close>): the files of a directory tree that belong to a known
  language, the classification of their lines, and the totals. A directory is a tree of names; a file
  that cannot be read or is not UTF-8 has no text. \<open>str.lower\<close> is a parameter.
\<close>

section \<open>Texts\<close>

fun starts_with :: "pystr \<Rightarrow> pystr \<Rightarrow> bool" where
  "starts_with [] s = True"
| "starts_with (p # ps) [] = False"
| "starts_with (p # ps) (c # cs) = (p = c \<and> starts_with ps cs)"

definition ends_with :: "pystr \<Rightarrow> pystr \<Rightarrow> bool" where
  "ends_with p s = starts_with (rev p) (rev s)"

fun contains :: "pystr \<Rightarrow> pystr \<Rightarrow> bool" where
  "contains p [] = (p = [])"
| "contains p (c # cs) = (starts_with p (c # cs) \<or> contains p cs)"

text \<open>\<open>s.split(p, 1)[1]\<close> of a text that contains \<open>p\<close>.\<close>

fun after_first :: "pystr \<Rightarrow> pystr \<Rightarrow> pystr" where
  "after_first p [] = []"
| "after_first p (c # cs) = (if starts_with p (c # cs) then drop (length p) (c # cs) else after_first p cs)"

text \<open>\<open>str.splitlines\<close>: a carriage return and a line feed after it are one break.\<close>

definition line_break :: "int \<Rightarrow> bool" where
  "line_break c \<longleftrightarrow> 10 \<le> c \<and> c \<le> 13 \<or> 28 \<le> c \<and> c \<le> 30 \<or> c = 133 \<or> c = 8232 \<or> c = 8233"

fun split_lines :: "pystr \<Rightarrow> pystr \<Rightarrow> pystr list" where
  "split_lines line [] = (if line = [] then [] else [rev line])"
| "split_lines line (c # cs) =
     (if line_break c
      then rev line # split_lines [] (if c = 13 \<and> cs \<noteq> [] \<and> hd cs = 10 then tl cs else cs)
      else split_lines (c # line) cs)"

definition splitlines :: "pystr \<Rightarrow> pystr list" where
  "splitlines s = split_lines [] s"

section \<open>Languages\<close>

definition languages_of_suffix :: "(pystr \<times> pystr) list" where
  "languages_of_suffix = map (\<lambda>(k, v). (lit k, lit v)) [
     (''.go'', ''Go''), (''.rs'', ''Rust''), (''.py'', ''Python''), (''.ts'', ''TypeScript''),
     (''.tsx'', ''TypeScript''), (''.js'', ''JavaScript''), (''.mjs'', ''JavaScript''), (''.c'', ''C''),
     (''.h'', ''C/C++ Header''), (''.hpp'', ''C/C++ Header''), (''.cc'', ''C++''), (''.cpp'', ''C++''),
     (''.cxx'', ''C++''), (''.java'', ''Java''), (''.kt'', ''Kotlin''), (''.kts'', ''Kotlin''), (''.cs'', ''C#''),
     (''.sql'', ''SQL''), (''.proto'', ''Protocol Buffers''), (''.sh'', ''Shell''), (''.ps1'', ''PowerShell''),
     (''.lua'', ''Lua''), (''.rb'', ''Ruby''), (''.swift'', ''Swift'')]"

definition ignored_dirs :: "pystr list" where
  "ignored_dirs = map lit [''.git'', ''.github'', ''.build'', ''.idea'', ''.vscode'', ''.venv'', ''venv'',
     ''node_modules'', ''target'', ''dist'', ''build'', ''coverage'', ''vendor'', ''__pycache__'',
     ''.pytest_cache'', ''.ruff_cache'', ''.mypy_cache'']"

definition generated_markers :: "pystr list" where
  "generated_markers = map lit [''code generated'', ''@generated'', ''generated file'', ''do not edit'']"

definition is_generated :: "(pystr \<Rightarrow> pystr) \<Rightarrow> pystr \<Rightarrow> bool" where
  "is_generated lowered txt = list_ex (\<lambda>m. contains m (lowered (take 4096 txt))) generated_markers"

definition comment_prefixes :: "pystr \<Rightarrow> pystr list" where
  "comment_prefixes language =
     (if language \<in> set (map lit [''Python'', ''Shell'', ''PowerShell'', ''Ruby'']) then [lit ''#'']
      else if language = lit ''SQL'' then [lit ''--'']
      else if language = lit ''Lua'' then [lit ''--'']
      else [lit ''//''])"

section \<open>Lines\<close>

datatype line_kind = Blank_line | Comment_line | Code_line

text \<open>One line: whether a block comment is open after it, and what it counts as.\<close>

definition classify :: "pystr list \<Rightarrow> bool \<Rightarrow> pystr \<Rightarrow> bool \<times> line_kind" where
  "classify prefixes in_block line =
     (let stripped = strip line in
      if stripped = [] then (in_block, Blank_line)
      else if in_block
        then (if contains (lit ''*/'') stripped
              then (False, if strip (after_first (lit ''*/'') stripped) \<noteq> [] then Code_line else Comment_line)
              else (True, Comment_line))
      else let opened = starts_with (lit ''/*'') stripped \<and> \<not> contains (lit ''*/'') (drop 2 stripped)
        in if starts_with (lit ''/*'') stripped \<and> (ends_with (lit ''*/'') stripped \<or> opened) then (opened, Comment_line)
           else if list_ex (\<lambda>p. starts_with p stripped) prefixes then (False, Comment_line)
           else (False, Code_line))"

fun line_kinds :: "pystr list \<Rightarrow> bool \<Rightarrow> pystr list \<Rightarrow> line_kind list" where
  "line_kinds prefixes in_block [] = []"
| "line_kinds prefixes in_block (l # ls) =
     (case classify prefixes in_block l of (in_block', k) \<Rightarrow> k # line_kinds prefixes in_block' ls)"

definition count_kind :: "line_kind \<Rightarrow> line_kind list \<Rightarrow> int" where
  "count_kind k ks = int (length (filter ((=) k) ks))"

section \<open>Files\<close>

record source_file =
  sf_text :: "pystr option"
  sf_bytes :: int

record file_stats =
  fs_path :: pystr
  fs_language :: pystr
  fs_physical :: int
  fs_blank :: int
  fs_comment_only :: int
  fs_code_like :: int
  fs_bytes :: int

record line_totals =
  lt_files :: int
  lt_physical :: int
  lt_blank :: int
  lt_comment_only :: int
  lt_code_like :: int
  lt_bytes :: int

definition no_lines :: line_totals where
  "no_lines = \<lparr>lt_files = 0, lt_physical = 0, lt_blank = 0, lt_comment_only = 0, lt_code_like = 0, lt_bytes = 0\<rparr>"

text \<open>\<open>Totals.add\<close>, and \<open>LanguageStats.add\<close>, which counts alike.\<close>

definition add_file :: "file_stats \<Rightarrow> line_totals \<Rightarrow> line_totals" where
  "add_file f t = \<lparr>lt_files = lt_files t + 1, lt_physical = lt_physical t + fs_physical f,
     lt_blank = lt_blank t + fs_blank f, lt_comment_only = lt_comment_only t + fs_comment_only f,
     lt_code_like = lt_code_like t + fs_code_like f, lt_bytes = lt_bytes t + fs_bytes f\<rparr>"

text \<open>\<open>path.suffix\<close>\<close>

definition file_suffix :: "pystr \<Rightarrow> pystr" where
  "file_suffix name =
     (let tail = rev (takeWhile (\<lambda>c. c \<noteq> 46) (rev name)) in
      if 46 \<in> set name \<and> tail \<noteq> [] \<and> length tail + 1 < length name then 46 # tail else [])"

definition analyze_file ::
  "(pystr \<Rightarrow> pystr) \<Rightarrow> bool \<Rightarrow> pystr \<times> pystr \<times> source_file \<Rightarrow> file_stats option" where
  "analyze_file lowered include_generated found =
     (case found of (path, language, f) \<Rightarrow>
        (case sf_text f of
           None \<Rightarrow> None
         | Some txt \<Rightarrow>
             if \<not> include_generated \<and> is_generated lowered txt then None
             else let ks = line_kinds (comment_prefixes language) False (splitlines txt)
               in Some \<lparr>fs_path = path, fs_language = language, fs_physical = int (length ks),
                    fs_blank = count_kind Blank_line ks, fs_comment_only = count_kind Comment_line ks,
                    fs_code_like = count_kind Code_line ks, fs_bytes = sf_bytes f\<rparr>))"

text \<open>A directory: its files and its subdirectories.\<close>

datatype tree = Tree "(pystr \<times> source_file) list" "(pystr \<times> tree) list"

definition known_files :: "(pystr \<Rightarrow> pystr) \<Rightarrow> pystr \<Rightarrow> (pystr \<times> source_file) list \<Rightarrow> (pystr \<times> pystr \<times> source_file) list" where
  "known_files lowered base fs = concat (map (\<lambda>(name, f).
     case map_of languages_of_suffix (lowered (file_suffix name)) of
       None \<Rightarrow> [] | Some language \<Rightarrow> [(base @ name, language, f)]) (sort_key fst fs))"

function discover :: "(pystr \<Rightarrow> pystr) \<Rightarrow> pystr \<Rightarrow> tree \<Rightarrow> (pystr \<times> pystr \<times> source_file) list" where
  "discover lowered base (Tree fs dirs) =
     known_files lowered base fs
     @ concat (map (\<lambda>(name, t). discover lowered (base @ name @ lit ''/'') t)
         (sort_key fst (filter (\<lambda>(name, t). name \<notin> set ignored_dirs) dirs)))"
  by pat_completeness auto
termination
  by (relation "measure (\<lambda>(lowered, base, t). size t)") (auto simp: less_Suc_eq_le le_add2 size_list_estimation' trans_le_add2)

definition collect_files ::
  "(pystr \<Rightarrow> pystr) \<Rightarrow> bool \<Rightarrow> tree \<Rightarrow> file_stats list \<times> (pystr, line_totals) dict \<times> line_totals" where
  "collect_files lowered include_generated root =
     (let fs = List.map_filter (analyze_file lowered include_generated) (discover lowered [] root)
      in (sort_key fs_path fs,
          sort_key fst (fold (\<lambda>f d. dput (fs_language f)
            (add_file f (case dget d (fs_language f) of None \<Rightarrow> no_lines | Some t \<Rightarrow> t)) d) fs []),
          fold add_file fs no_lines))"

text \<open>The exit code of \<open>main\<close>, for an existing root.\<close>

definition gate_code :: "int \<Rightarrow> int \<Rightarrow> line_totals \<Rightarrow> int" where
  "gate_code minimum minimum_code t =
     (if minimum \<noteq> 0 \<and> lt_physical t < minimum \<or> minimum_code \<noteq> 0 \<and> lt_code_like t < minimum_code then 1 else 0)"

section \<open>Adding up\<close>

lemma kinds_add_up: "int (length ks) = count_kind Blank_line ks + count_kind Comment_line ks + count_kind Code_line ks"
proof (induction ks)
  case (Cons k ks)
  then show ?case by (cases k) (simp_all add: count_kind_def)
qed (simp add: count_kind_def)

end
