(* ===== verification/Stats_Sums.thy ===== *)
theory Stats_Sums
  imports Stats_Count
begin

text \<open>The numbers of the line counter add up: lines in files, files in languages, languages in totals.\<close>

definition totals_of :: "file_stats list \<Rightarrow> line_totals" where
  "totals_of fs = \<lparr>lt_files = int (length fs), lt_physical = sum_list (map fs_physical fs),
     lt_blank = sum_list (map fs_blank fs), lt_comment_only = sum_list (map fs_comment_only fs),
     lt_code_like = sum_list (map fs_code_like fs), lt_bytes = sum_list (map fs_bytes fs)\<rparr>"

definition plus_totals :: "line_totals \<Rightarrow> line_totals \<Rightarrow> line_totals" where
  "plus_totals a b = \<lparr>lt_files = lt_files a + lt_files b, lt_physical = lt_physical a + lt_physical b,
     lt_blank = lt_blank a + lt_blank b, lt_comment_only = lt_comment_only a + lt_comment_only b,
     lt_code_like = lt_code_like a + lt_code_like b, lt_bytes = lt_bytes a + lt_bytes b\<rparr>"

lemma fold_add_file: "fold add_file fs t = plus_totals t (totals_of fs)"
  by (induction fs arbitrary: t) (auto simp: plus_totals_def totals_of_def add_file_def)

lemma plus_no_lines: "plus_totals no_lines t = t" "plus_totals t no_lines = t"
  by (simp_all add: plus_totals_def no_lines_def)

lemma totals_of_filter: "plus_totals (totals_of (filter p fs)) (totals_of (filter (\<lambda>f. \<not> p f) fs)) = totals_of fs"
  by (induction fs) (auto simp: plus_totals_def totals_of_def)

lemma sum_list_mset_cong:
  fixes g :: "'a \<Rightarrow> int"
  assumes "mset xs = mset ys"
  shows "sum_list (map g xs) = sum_list (map g ys)"
proof -
  have "mset (map g xs) = mset (map g ys)" using assms by simp
  then show ?thesis by (metis sum_mset_sum_list)
qed

lemma totals_of_mset:
  assumes "mset fs = mset fs'"
  shows "totals_of fs = totals_of fs'"
  unfolding totals_of_def sum_list_mset_cong [OF assms] mset_eq_length [OF assms] by (rule refl)

text \<open>The dictionary of languages.\<close>

definition add_language :: "file_stats \<Rightarrow> (pystr, line_totals) dict \<Rightarrow> (pystr, line_totals) dict" where
  "add_language f d = dput (fs_language f) (add_file f (case dget d (fs_language f) of None \<Rightarrow> no_lines | Some t \<Rightarrow> t)) d"

lemma fold_add_language:
  "dget (fold add_language fs d) l =
     (if filter (\<lambda>f. fs_language f = l) fs = [] then dget d l
      else Some (plus_totals (case dget d l of None \<Rightarrow> no_lines | Some t \<Rightarrow> t)
        (totals_of (filter (\<lambda>f. fs_language f = l) fs))))"
  by (induction fs arbitrary: d)
    (auto simp: add_language_def dict_simps totals_of_def plus_totals_def add_file_def split: option.split)

lemma fold_add_language_dwf: "dwf d \<Longrightarrow> dwf (fold add_language fs d)"
  by (induction fs arbitrary: d) (simp_all add: add_language_def dict_simps)

lemma map_of_sorted:
  assumes "dwf d"
  shows "map_of (sort_key fst d) = map_of d"
proof -
  have "mset (map fst (sort_key fst d)) = mset (map fst d)" by simp
  then have "distinct (map fst (sort_key fst d))" using assms by (metis dkeys_def dwf_def mset_eq_imp_distinct_iff)
  then show ?thesis using assms by (intro map_of_eqI) (auto simp: dwf_def dkeys_def)
qed

text \<open>The totals of the languages, put together, are the totals of the files.\<close>

lemma languages_cover:
  assumes "distinct ls" "fs_language ` set fs \<subseteq> set ls"
  shows "sum_list (map (\<lambda>l. lt_physical (totals_of (filter (\<lambda>f. fs_language f = l) fs))) ls) = lt_physical (totals_of fs)"
  using assms
proof (induction ls arbitrary: fs)
  case (Cons l ls)
  let ?rest = "filter (\<lambda>f. fs_language f \<noteq> l) fs"
  have same: "filter (\<lambda>f. fs_language f = k) ?rest = filter (\<lambda>f. fs_language f = k) fs" if "k \<in> set ls" for k
  proof -
    have "k \<noteq> l" using that Cons.prems(1) by auto
    then show ?thesis by (auto intro: filter_cong)
  qed
  have "fs_language ` set ?rest \<subseteq> set ls" using Cons.prems(2) by auto
  then have "sum_list (map (\<lambda>k. lt_physical (totals_of (filter (\<lambda>f. fs_language f = k) fs))) ls) = lt_physical (totals_of ?rest)"
    using Cons.IH [of ?rest] Cons.prems(1) same by (simp cong: map_cong)
  moreover have "lt_physical (totals_of (filter (\<lambda>f. fs_language f = l) fs)) + lt_physical (totals_of ?rest) = lt_physical (totals_of fs)"
    using totals_of_filter [of "\<lambda>f. fs_language f = l" fs] by (metis (no_types, lifting) line_totals.select_convs(2) plus_totals_def)
  ultimately show ?case by simp
qed (simp add: totals_of_def)

lemma analyzed_adds_up:
  assumes "analyze_file lowered include_generated found = Some f"
  shows "fs_physical f = fs_blank f + fs_comment_only f + fs_code_like f \<and> 0 \<le> fs_blank f \<and> 0 \<le> fs_comment_only f
     \<and> 0 \<le> fs_code_like f"
proof -
  obtain ks where "fs_physical f = int (length ks)" "fs_blank f = count_kind Blank_line ks"
    "fs_comment_only f = count_kind Comment_line ks" "fs_code_like f = count_kind Code_line ks"
    using assms by (auto simp: analyze_file_def Let_def split: prod.splits option.splits if_splits)
  then show ?thesis using kinds_add_up [of ks] by (simp add: count_kind_def)
qed

lemma collect_facts:
  assumes "collect_files lowered include_generated root = (fs, languages, totals)"
  shows "totals = totals_of fs" "f \<in> set fs \<Longrightarrow> \<exists>found. analyze_file lowered include_generated found = Some f"
    "map_of languages l = (if filter (\<lambda>f. fs_language f = l) fs = [] then None
       else Some (totals_of (filter (\<lambda>f. fs_language f = l) fs)))"
    "distinct (map fst languages)"
proof -
  define raw where "raw = List.map_filter (analyze_file lowered include_generated) (discover lowered [] root)"
  have parts: "fs = sort_key fs_path raw" "languages = sort_key fst (fold add_language raw [])" "totals = fold add_file raw no_lines"
    using assms by (simp_all add: collect_files_def raw_def Let_def add_language_def [abs_def])
  have same: "mset fs = mset raw" by (simp add: parts(1))
  then show "totals = totals_of fs" using totals_of_mset [OF same] by (simp add: parts(3) fold_add_file plus_no_lines)
  show "f \<in> set fs \<Longrightarrow> \<exists>found. analyze_file lowered include_generated found = Some f"
    unfolding parts(1) raw_def map_filter_def by (auto simp del: split_paired_Ex)
  have "mset (filter (\<lambda>f. fs_language f = l) fs) = mset (filter (\<lambda>f. fs_language f = l) raw)" by (simp add: same)
  from totals_of_mset [OF this] have own: "totals_of (filter (\<lambda>f. fs_language f = l) fs) = totals_of (filter (\<lambda>f. fs_language f = l) raw)" .
  have empty: "filter (\<lambda>f. fs_language f = l) fs = [] \<longleftrightarrow> filter (\<lambda>f. fs_language f = l) raw = []"
    by (simp add: filter_empty_conv parts(1))
  have wf: "dwf (fold add_language raw [])" by (rule fold_add_language_dwf) simp
  show "map_of languages l = (if filter (\<lambda>f. fs_language f = l) fs = [] then None
       else Some (totals_of (filter (\<lambda>f. fs_language f = l) fs)))"
    using fold_add_language [of raw "[]" l] own empty by (simp add: parts(2) map_of_sorted [OF wf] plus_no_lines)
  have "mset (map fst languages) = mset (map fst (fold add_language raw []))" by (simp add: parts(2))
  then show "distinct (map fst languages)" using wf by (metis dkeys_def dwf_def mset_eq_imp_distinct_iff)
qed

end
