(* ===== verification/Files_Audit.thy ===== *)
theory Files_Audit
  imports Prelude "HOL-Library.Multiset"
begin

text \<open>
  The file tools of the worker (\<open>worker/file_tools.py\<close>): what they compute from the list of scanned
  files. The scan of the disk and the SHA-256 of a file are parameters; a file that cannot be read any
  more has no hash and becomes an error. Times and the texts of sizes are left out.
\<close>

record item =
  it_path :: pystr
  it_relative :: pystr
  it_size :: int
  it_mtime_ns :: int
  it_ext :: pystr

section \<open>Inventory\<close>

record extension_row =
  xr_extension :: pystr
  xr_files :: int
  xr_bytes :: int

record inventory_report =
  iv_file_count :: int
  iv_total_bytes :: int
  iv_largest :: "(pystr \<times> int) list"
  iv_extensions :: "extension_row list"

text \<open>\<open>Counter\<close>: a missing key counts as 0.\<close>

definition bump :: "pystr \<Rightarrow> int \<Rightarrow> (pystr, int) dict \<Rightarrow> (pystr, int) dict" where
  "bump k n d = dput k ((case dget d k of None \<Rightarrow> 0 | Some m \<Rightarrow> m) + n) d"

definition counter_value :: "(pystr, int) dict \<Rightarrow> pystr \<Rightarrow> int" where
  "counter_value d k = (case dget d k of None \<Rightarrow> 0 | Some n \<Rightarrow> n)"

definition inventory :: "item list \<Rightarrow> inventory_report" where
  "inventory items =
     (let ext_count = fold (\<lambda>x. bump (it_ext x) 1) items [];
          ext_bytes = fold (\<lambda>x. bump (it_ext x) (it_size x)) items []
      in \<lparr>iv_file_count = int (length items), iv_total_bytes = sum_list (map it_size items),
          iv_largest = map (\<lambda>x. (it_relative x, it_size x))
            (take 100 (sort_key (\<lambda>x. - it_size x) (sort_key it_relative items))),
          iv_extensions = map (\<lambda>e. \<lparr>xr_extension = e, xr_files = counter_value ext_count e,
            xr_bytes = counter_value ext_bytes e\<rparr>) (sort (dkeys ext_count))\<rparr>)"

section \<open>Checksums\<close>

record checksum_row =
  ck_path :: pystr
  ck_bytes :: int
  ck_sha256 :: pystr
  ck_mtime_ns :: int

text \<open>The rows, and the paths of the files that could not be read.\<close>

fun checksums :: "(item \<Rightarrow> pystr option) \<Rightarrow> item list \<Rightarrow> checksum_row list \<times> pystr list" where
  "checksums sha256 [] = ([], [])"
| "checksums sha256 (x # xs) =
     (case checksums sha256 xs of (rows, errors) \<Rightarrow>
        case sha256 x of
          None \<Rightarrow> (rows, it_path x # errors)
        | Some h \<Rightarrow> (\<lparr>ck_path = it_relative x, ck_bytes = it_size x, ck_sha256 = h,
            ck_mtime_ns = it_mtime_ns x\<rparr> # rows, errors))"

section \<open>Duplicates\<close>

record duplicate_group =
  dg_sha256 :: pystr
  dg_copies :: int
  dg_bytes_each :: int
  dg_reclaimable :: int
  dg_paths :: "pystr list"

text \<open>\<open>defaultdict(list)\<close>: the values of every key in order, the keys in the order of their first use.\<close>

definition push :: "'k \<Rightarrow> 'a \<Rightarrow> ('k, 'a list) dict \<Rightarrow> ('k, 'a list) dict" where
  "push k x d = dput k ((case dget d k of None \<Rightarrow> [] | Some xs \<Rightarrow> xs) @ [x]) d"

definition by_size :: "item list \<Rightarrow> (int, item list) dict" where
  "by_size items = fold (\<lambda>x. push (it_size x) x) items []"

definition by_hash :: "(item \<Rightarrow> pystr option) \<Rightarrow> item list \<Rightarrow> (pystr, item list) dict" where
  "by_hash sha256 items = fold (\<lambda>x d. case sha256 x of None \<Rightarrow> d | Some h \<Rightarrow> push h x d) items []"

definition hash_errors :: "(item \<Rightarrow> pystr option) \<Rightarrow> item list \<Rightarrow> pystr list" where
  "hash_errors sha256 items = map it_path (filter (\<lambda>x. sha256 x = None) items)"

definition size_groups :: "(item \<Rightarrow> pystr option) \<Rightarrow> int \<Rightarrow> item list \<Rightarrow> duplicate_group list" where
  "size_groups sha256 n candidates =
     (if length candidates < 2 then []
      else map (\<lambda>(h, matching). \<lparr>dg_sha256 = h, dg_copies = int (length matching), dg_bytes_each = n,
          dg_reclaimable = n * (int (length matching) - 1), dg_paths = map it_relative matching\<rparr>)
        (filter (\<lambda>(h, matching). 2 \<le> length matching) (by_hash sha256 candidates)))"

record duplicates_report =
  dr_groups :: int
  dr_reclaimable :: int
  dr_errors :: "pystr list"
  dr_duplicates :: "duplicate_group list"

definition duplicates :: "(item \<Rightarrow> pystr option) \<Rightarrow> item list \<Rightarrow> duplicates_report" where
  "duplicates sha256 items =
     (let sizes = by_size items;
          groups = sort_key (\<lambda>g. - dg_reclaimable g) (concat (map (\<lambda>(n, xs). size_groups sha256 n xs) sizes));
          errors = concat (map (\<lambda>(n, xs). if length xs < 2 then [] else hash_errors sha256 xs) sizes)
      in \<lparr>dr_groups = int (length groups), dr_reclaimable = sum_list (map dg_reclaimable groups),
          dr_errors = errors, dr_duplicates = groups\<rparr>)"

section \<open>Grouping\<close>

lemma fold_push:
  "dget (fold (\<lambda>x. push (f x) x) xs d) k =
     (if filter (\<lambda>x. f x = k) xs = [] then dget d k
      else Some ((case dget d k of None \<Rightarrow> [] | Some ys \<Rightarrow> ys) @ filter (\<lambda>x. f x = k) xs))"
  by (induction xs arbitrary: d) (auto simp: push_def dict_simps split: option.split)

lemma fold_push_dwf: "dwf d \<Longrightarrow> dwf (fold (\<lambda>x. push (f x) x) xs d)"
  by (induction xs arbitrary: d) (simp_all add: push_def dict_simps)

lemma by_hash_push:
  "fold (\<lambda>x d. case sha256 x of None \<Rightarrow> d | Some h \<Rightarrow> push h x d) xs d
     = fold (\<lambda>x. push (the (sha256 x)) x) (filter (\<lambda>x. sha256 x \<noteq> None) xs) d"
  by (induction xs arbitrary: d) (auto split: option.split)

lemma dict_entries: "dwf d \<Longrightarrow> (k, v) \<in> set d \<longleftrightarrow> dget d k = Some v"
  by (simp add: dwf_def dkeys_def)

lemma by_size_entries: "(n, xs) \<in> set (by_size items) \<longleftrightarrow> xs \<noteq> [] \<and> xs = filter (\<lambda>x. it_size x = n) items"
  using fold_push [of it_size items "[]" n] fold_push_dwf [of "[]" it_size items]
  by (auto simp: by_size_def dict_entries)

lemma by_hash_entries:
  "(h, xs) \<in> set (by_hash sha256 items) \<longleftrightarrow> xs \<noteq> [] \<and> xs = filter (\<lambda>x. sha256 x = Some h) items"
proof -
  have same: "filter (\<lambda>x. the (sha256 x) = h) (filter (\<lambda>x. sha256 x \<noteq> None) items) = filter (\<lambda>x. sha256 x = Some h) items"
    by (auto intro!: filter_cong)
  show ?thesis
    using fold_push [of "\<lambda>x. the (sha256 x)" "filter (\<lambda>x. sha256 x \<noteq> None) items" "[]" h] same
      fold_push_dwf [of "[]" "\<lambda>x. the (sha256 x)" "filter (\<lambda>x. sha256 x \<noteq> None) items"]
    by (auto simp: by_hash_def by_hash_push dict_entries)
qed

end
