(* ===== verification/Files_Dups.thy ===== *)
theory Files_Dups
  imports Files_Audit
begin

text \<open>The groups of duplicates are exactly the contents that occur twice, and the bytes they report as
  reclaimable are what keeping one copy of each content saves.\<close>

section \<open>The groups\<close>

definition copies :: "(item \<Rightarrow> pystr option) \<Rightarrow> int \<Rightarrow> pystr \<Rightarrow> item list \<Rightarrow> item list" where
  "copies sha256 n h items = filter (\<lambda>x. it_size x = n \<and> sha256 x = Some h) items"

definition group_of :: "(item \<Rightarrow> pystr option) \<Rightarrow> int \<Rightarrow> pystr \<Rightarrow> item list \<Rightarrow> duplicate_group" where
  "group_of sha256 n h items = \<lparr>dg_sha256 = h, dg_copies = int (length (copies sha256 n h items)), dg_bytes_each = n,
     dg_reclaimable = n * (int (length (copies sha256 n h items)) - 1),
     dg_paths = map it_relative (copies sha256 n h items)\<rparr>"

lemma copies_filter: "filter (\<lambda>x. sha256 x = Some h) (filter (\<lambda>x. it_size x = n) items) = copies sha256 n h items"
  by (simp add: copies_def conj_commute)

lemma size_groups_entries:
  assumes "xs = filter (\<lambda>x. it_size x = n) items"
  shows "g \<in> set (size_groups sha256 n xs) \<longleftrightarrow> (\<exists>h. 2 \<le> length (copies sha256 n h items) \<and> g = group_of sha256 n h items)"
proof -
  have len: "length (copies sha256 n h items) \<le> length xs" for h
    unfolding copies_filter [symmetric] assms by (rule length_filter_le)
  show ?thesis
  proof (cases "length xs < 2")
    case True
    then have "\<not> 2 \<le> length (copies sha256 n h items)" for h using len [of h] by simp
    then show ?thesis using True by (simp add: size_groups_def)
  next
    case False
    have "g \<in> set (size_groups sha256 n xs) \<longleftrightarrow> (\<exists>h ys. (h, ys) \<in> set (by_hash sha256 xs) \<and> 2 \<le> length ys
        \<and> g = \<lparr>dg_sha256 = h, dg_copies = int (length ys), dg_bytes_each = n,
          dg_reclaimable = n * (int (length ys) - 1), dg_paths = map it_relative ys\<rparr>)"
      using False by (auto simp: size_groups_def)
    also have "\<dots> \<longleftrightarrow> (\<exists>h. 2 \<le> length (copies sha256 n h items) \<and> g = group_of sha256 n h items)"
      unfolding by_hash_entries assms copies_filter group_of_def by auto
    finally show ?thesis .
  qed
qed

lemma duplicates_groups:
  "g \<in> set (dr_duplicates (duplicates sha256 items)) \<longleftrightarrow>
     (\<exists>n h. 2 \<le> length (copies sha256 n h items) \<and> g = group_of sha256 n h items)"
proof -
  have "g \<in> set (dr_duplicates (duplicates sha256 items)) \<longleftrightarrow>
      (\<exists>n xs. (n, xs) \<in> set (by_size items) \<and> g \<in> set (size_groups sha256 n xs))"
    by (auto simp: duplicates_def Let_def)
  also have "\<dots> \<longleftrightarrow> (\<exists>n. filter (\<lambda>x. it_size x = n) items \<noteq> []
      \<and> (\<exists>h. 2 \<le> length (copies sha256 n h items) \<and> g = group_of sha256 n h items))"
    unfolding by_size_entries using size_groups_entries [OF refl] by auto
  also have "\<dots> \<longleftrightarrow> (\<exists>n h. 2 \<le> length (copies sha256 n h items) \<and> g = group_of sha256 n h items)"
  proof -
    have "filter (\<lambda>x. it_size x = n) items \<noteq> []" if "2 \<le> length (copies sha256 n h items)" for n h
    proof
      assume "filter (\<lambda>x. it_size x = n) items = []"
      then have "copies sha256 n h items = []" unfolding copies_filter [symmetric] by simp
      then show False using that by simp
    qed
    then show ?thesis by blast
  qed
  finally show ?thesis .
qed

section \<open>The bytes\<close>

lemma dict_sum:
  fixes f :: "'k \<Rightarrow> 'v \<Rightarrow> int"
  assumes "dwf d"
  shows "sum_list (map (\<lambda>(k, v). f k v) d) = (\<Sum>k \<in> set (dkeys d). f k (the (dget d k)))"
proof -
  have "sum_list (map (\<lambda>(k, v). f k v) d) = sum_list (map (\<lambda>k. f k (the (dget d k))) (dkeys d))"
    using assms by (auto simp: dkeys_def comp_def dict_entries [symmetric] dwf_def intro!: arg_cong [where f = sum_list])
  also have "\<dots> = (\<Sum>k \<in> set (dkeys d). f k (the (dget d k)))"
    using assms by (intro sum_list_distinct_conv_sum_set) (simp add: dwf_def)
  finally show ?thesis .
qed

definition hashes :: "(item \<Rightarrow> pystr option) \<Rightarrow> item list \<Rightarrow> pystr set" where
  "hashes sha256 xs = {h. \<exists>x \<in> set xs. sha256 x = Some h}"

definition readable :: "(item \<Rightarrow> pystr option) \<Rightarrow> item list \<Rightarrow> item list" where
  "readable sha256 xs = filter (\<lambda>x. sha256 x \<noteq> None) xs"

lemma by_hash_dwf: "dwf (by_hash sha256 xs)"
  unfolding by_hash_def by_hash_push by (rule fold_push_dwf) simp

lemma by_hash_keys: "set (dkeys (by_hash sha256 xs)) = hashes sha256 xs"
proof -
  have "h \<in> set (dkeys (by_hash sha256 xs)) \<longleftrightarrow> (\<exists>ys. (h, ys) \<in> set (by_hash sha256 xs))" for h
    by (auto simp: dkeys_def intro: rev_image_eqI)
  also have "\<dots> h \<longleftrightarrow> h \<in> hashes sha256 xs" for h
    by (auto simp: by_hash_entries filter_empty_conv hashes_def)
  finally show ?thesis by blast
qed

lemma finite_hashes: "finite (hashes sha256 xs)"
  unfolding by_hash_keys [symmetric] by simp

lemma hash_counts: "(\<Sum>h \<in> hashes sha256 xs. int (length (filter (\<lambda>x. sha256 x = Some h) xs))) = int (length (readable sha256 xs))"
proof (induction xs)
  case (Cons x xs)
  show ?case
  proof (cases "sha256 x")
    case None
    then show ?thesis using Cons by (simp add: readable_def hashes_def)
  next
    case (Some k)
    have set: "hashes sha256 (x # xs) = insert k (hashes sha256 xs)" using Some by (auto simp: hashes_def)
    have none: "filter (\<lambda>x. sha256 x = Some k) xs = []" if "k \<notin> hashes sha256 xs"
      using that by (auto simp: hashes_def filter_empty_conv)
    have "(\<Sum>h \<in> insert k (hashes sha256 xs). int (length (filter (\<lambda>x. sha256 x = Some h) xs))) = int (length (readable sha256 xs))"
      using Cons none by (cases "k \<in> hashes sha256 xs") (simp_all add: insert_absorb finite_hashes)
    moreover have "(\<Sum>h \<in> insert k (hashes sha256 xs). int (length (filter (\<lambda>x. sha256 x = Some h) (x # xs))))
        = (\<Sum>h \<in> insert k (hashes sha256 xs). int (length (filter (\<lambda>x. sha256 x = Some h) xs)) + (if h = k then 1 else 0))"
      by (intro sum.cong) (auto simp: Some)
    ultimately show ?thesis
      by (simp add: set Some readable_def sum.distrib finite_hashes sum.delta)
  qed
qed (simp add: readable_def hashes_def)

lemma size_groups_sum:
  "sum_list (map dg_reclaimable (size_groups sha256 n xs)) = n * (int (length (readable sha256 xs)) - int (card (hashes sha256 xs)))"
proof (cases "length xs < 2")
  case True
  have "length (readable sha256 xs) = card (hashes sha256 xs)"
  proof (cases xs)
    case (Cons x ys)
    then have "xs = [x]" using True by (cases ys) auto
    then show ?thesis by (cases "sha256 x") (auto simp: readable_def hashes_def)
  qed (simp add: readable_def hashes_def)
  then show ?thesis using True by (simp add: size_groups_def)
next
  case False
  let ?f = "\<lambda>h ys. n * (int (length ys) - 1)"
  have single: "?f h ys = 0" if "(h, ys) \<in> set (by_hash sha256 xs)" "\<not> 2 \<le> length ys" for h and ys :: "item list"
  proof -
    have "ys \<noteq> []" using that(1) unfolding by_hash_entries by (rule conjunct1)
    with that(2) have "length ys = 1" by (cases ys) (auto simp: not_le less_Suc_eq)
    then show ?thesis by simp
  qed
  have "sum_list (map dg_reclaimable (size_groups sha256 n xs))
      = sum_list (map (\<lambda>(h, ys). ?f h ys) (filter (\<lambda>(h, ys). 2 \<le> length ys) (by_hash sha256 xs)))"
    using False by (simp add: size_groups_def comp_def split_def)
  also have "\<dots> = sum_list (map (\<lambda>(h, ys). ?f h ys) (by_hash sha256 xs))"
    by (rule sum_list_map_filter) (use single in auto)
  also have "\<dots> = (\<Sum>h \<in> hashes sha256 xs. ?f h (the (dget (by_hash sha256 xs) h)))"
    using dict_sum [OF by_hash_dwf, of ?f] by (simp add: by_hash_keys)
  also have "\<dots> = (\<Sum>h \<in> hashes sha256 xs. n * (int (length (filter (\<lambda>x. sha256 x = Some h) xs)) - 1))"
  proof (rule sum.cong [OF refl])
    fix h assume "h \<in> hashes sha256 xs"
    then have "(h, filter (\<lambda>x. sha256 x = Some h) xs) \<in> set (by_hash sha256 xs)"
      by (auto simp: by_hash_entries filter_empty_conv hashes_def)
    then show "?f h (the (dget (by_hash sha256 xs) h)) = n * (int (length (filter (\<lambda>x. sha256 x = Some h) xs)) - 1)"
      by (simp add: dict_entries [OF by_hash_dwf])
  qed
  also have "\<dots> = n * (int (length (readable sha256 xs)) - int (card (hashes sha256 xs)))"
    using hash_counts [of sha256 xs] by (simp add: sum_distrib_left [symmetric] sum_subtractf)
  finally show ?thesis .
qed

text \<open>The different contents among the files that can be read.\<close>

definition contents :: "(item \<Rightarrow> pystr option) \<Rightarrow> item list \<Rightarrow> (int \<times> pystr) set" where
  "contents sha256 items = {(n, h). \<exists>x \<in> set items. it_size x = n \<and> sha256 x = Some h}"

lemma size_counts: "(\<Sum>n \<in> it_size ` set items. n * int (length (filter p (filter (\<lambda>x. it_size x = n) items))))
    = sum_list (map it_size (filter p items))"
proof (induction items)
  case (Cons x xs)
  let ?f = "\<lambda>n. n * int (length (filter p (filter (\<lambda>x. it_size x = n) xs)))"
  have none: "?f (it_size x) = 0" if "it_size x \<notin> it_size ` set xs"
  proof -
    have "filter (\<lambda>y. it_size y = it_size x) xs = []" using that by (auto simp: filter_empty_conv intro: rev_image_eqI)
    then show ?thesis by simp
  qed
  have "(\<Sum>n \<in> insert (it_size x) (it_size ` set xs). ?f n) = sum_list (map it_size (filter p xs))"
    using Cons none by (cases "it_size x \<in> it_size ` set xs") (simp_all add: insert_absorb)
  moreover have "(\<Sum>n \<in> insert (it_size x) (it_size ` set xs). n * int (length (filter p (filter (\<lambda>y. it_size y = n) (x # xs)))))
      = (\<Sum>n \<in> insert (it_size x) (it_size ` set xs). ?f n + (if n = it_size x then if p x then it_size x else 0 else 0))"
    by (intro sum.cong) (auto simp: algebra_simps)
  ultimately show ?case by (simp add: sum.distrib sum.delta)
qed simp

lemma sum_list_map_concat:
  fixes f :: "'a \<Rightarrow> int"
  shows "sum_list (map f (concat xss)) = sum_list (map (\<lambda>xs. sum_list (map f xs)) xss)"
  by (induction xss) simp_all

lemma reclaimable_total:
  "dr_reclaimable (duplicates sha256 items) =
     sum_list (map it_size (readable sha256 items)) - (\<Sum>(n, h) \<in> contents sha256 items. n)"
proof -
  let ?own = "\<lambda>n. filter (\<lambda>x. it_size x = n) items"
  let ?sizes = "it_size ` set items"
  have dwf: "dwf (by_size items)" unfolding by_size_def by (rule fold_push_dwf) simp
  have keys: "set (dkeys (by_size items)) = ?sizes"
  proof -
    have "n \<in> set (dkeys (by_size items)) \<longleftrightarrow> (\<exists>xs. (n, xs) \<in> set (by_size items))" for n
      by (auto simp: dkeys_def intro: rev_image_eqI)
    then show ?thesis by (auto simp: by_size_entries filter_empty_conv)
  qed
  have own: "the (dget (by_size items) n) = ?own n" if "n \<in> ?sizes" for n
  proof -
    have "(n, ?own n) \<in> set (by_size items)" using that by (auto simp: by_size_entries filter_empty_conv)
    then show ?thesis by (simp add: dict_entries [OF dwf])
  qed
  have "dr_reclaimable (duplicates sha256 items)
      = sum_list (map dg_reclaimable (concat (map (\<lambda>(n, xs). size_groups sha256 n xs) (by_size items))))"
  proof -
    have "mset (map dg_reclaimable (sort_key (\<lambda>g. - dg_reclaimable g) gs)) = mset (map dg_reclaimable gs)" for gs by simp
    then show ?thesis unfolding duplicates_def Let_def by (simp, metis sum_mset_sum_list)
  qed
  also have "\<dots> = sum_list (map (\<lambda>(n, xs). sum_list (map dg_reclaimable (size_groups sha256 n xs))) (by_size items))"
    by (simp add: sum_list_map_concat comp_def split_def)
  also have "\<dots> = (\<Sum>n \<in> ?sizes. n * (int (length (readable sha256 (?own n))) - int (card (hashes sha256 (?own n)))))"
    using dict_sum [OF dwf, of "\<lambda>n xs. sum_list (map dg_reclaimable (size_groups sha256 n xs))"] own
    by (simp add: size_groups_sum keys)
  also have "\<dots> = (\<Sum>n \<in> ?sizes. n * int (length (readable sha256 (?own n)))) - (\<Sum>n \<in> ?sizes. n * int (card (hashes sha256 (?own n))))"
    by (simp add: right_diff_distrib sum_subtractf)
  also have "(\<Sum>n \<in> ?sizes. n * int (length (readable sha256 (?own n)))) = sum_list (map it_size (readable sha256 items))"
    unfolding readable_def by (rule size_counts)
  also have "(\<Sum>n \<in> ?sizes. n * int (card (hashes sha256 (?own n)))) = (\<Sum>(n, h) \<in> contents sha256 items. n)"
  proof -
    have "contents sha256 items = Sigma ?sizes (\<lambda>n. hashes sha256 (?own n))" by (auto simp: contents_def hashes_def)
    then have "(\<Sum>(n, h) \<in> contents sha256 items. n) = (\<Sum>n \<in> ?sizes. \<Sum>h \<in> hashes sha256 (?own n). n)"
      by (simp add: sum.Sigma [symmetric] finite_hashes)
    then show ?thesis by (simp add: mult.commute)
  qed
  finally show ?thesis .
qed

end
