(* ===== verification/Tools_Props.thy ===== *)
theory Tools_Props
  imports Sdk_Calls Stats_Sums Files_Dups
begin

text \<open>The properties of the HTTP client, of the line counter and of the file tools.\<close>

section \<open>The client\<close>

text \<open>Percent encoding keeps an id inside one path segment, and different ids apart.\<close>

theorem quote_keeps_apart:
  assumes "list_all code_point a" "list_all code_point b" "quote a = Some q" "quote b = Some q"
  shows "a = b" "list_all segment_char q" "47 \<notin> set q"
proof -
  show "a = b" by (rule quote_inj [OF assms])
  show seg: "list_all segment_char q" by (rule quote_segment [OF assms(1,3)])
  have "\<not> segment_char 47" by code_simp
  then show "47 \<notin> set q" using seg by (auto simp: list_all_iff)
qed

text \<open>C29: Waiting with a limit ends, whatever the coordinator answers: with a clock that does not go
  back and a sleep that lasts at least as long as asked, limit / interval + 2 polls are enough. A
  workflow that is returned is in a terminal state; everything else is an error.\<close>

theorem wait_ends:
  assumes "clock_ok net time" "0 < interval" "0 \<le> limit" "limit / interval + 1 < of_nat fuel"
  shows "\<exists>r. wait lib net c w interval (Some limit) fuel s = Some r
    \<and> (case fst r of Inr v \<Rightarrow> terminal_state v = Inr True | Inl e \<Rightarrow> True)"
  by (rule wait_ends_facts [OF assms, of lib c w s]) (auto simp: wait_result_def)

text \<open>A network whose state is the time, and a coordinator that always answers that the workflow runs.\<close>

definition slow_network :: "rat network" where
  "slow_network = \<lparr>net_send = (\<lambda>r s. (Body (lit ''running''), s)), net_clock = (\<lambda>s. (s, s)), net_sleep = (\<lambda>d s. s + d)\<rparr>"

definition demo_lib :: json_lib where
  "demo_lib = \<lparr>jl_loads = (\<lambda>t. if t = lit ''running''
       then Some (JDict [(lit ''data'', JDict [(lit ''state'', JStr (lit ''RUNNING''))])]) else None),
     jl_dumps = (\<lambda>v. []),
     jl_read_int = (\<lambda>t. find (\<lambda>n. show_int n = t) [1, 2, 3])\<rparr>"

definition demo_client :: helix_client where
  "demo_client = \<lparr>hc_base_url = lit ''http://h'', hc_timeout = 15, hc_user_agent = lit ''u''\<rparr>"

theorem wait_ends_witness:
  "\<exists>r. wait demo_lib slow_network demo_client (lit ''w'') (1/2) (Some 3) 8 0 = Some r \<and> fst r = Inl Timed_out"
proof -
  have "clock_ok slow_network (\<lambda>s. s)" by (simp add: clock_ok_def slow_network_def)
  from wait_ends [OF this, of "1/2" 3 8 demo_lib demo_client "lit ''w''" 0]
  have "\<exists>r. wait demo_lib slow_network demo_client (lit ''w'') (1/2) (Some 3) 8 0 = Some r" by auto
  moreover have "map_option fst (wait demo_lib slow_network demo_client (lit ''w'') (1/2) (Some 3) 8 0) = Some (Inl Timed_out)"
    by code_simp
  ultimately show ?thesis by auto
qed

text \<open>C30: The client reads back what the coordinator writes: from a stream of keep-alive comments and
  events, \<open>iter_events\<close> yields exactly the events, in order, with their ids as numbers, their types, and
  their payloads decoded, or as text where they are no JSON.\<close>

theorem stream_read_back:
  assumes "list_all message_ok ms" "\<forall>n. jl_read_int lib (show_int n) = Some n"
  shows "iter_events_lines lib no_event (concat (map message_lines ms)) = concat (map (message_event lib) ms)"
  by (rule stream_read [OF assms(1)]) (use assms(2) in blast)

definition exact_lib :: json_lib where
  "exact_lib = demo_lib\<lparr>jl_read_int := (\<lambda>t. if t \<noteq> [] \<and> hd t = 45 then Some (- dec_value (tl t)) else Some (dec_value t))\<rparr>"

theorem stream_read_back_witness:
  "iter_events_lines exact_lib no_event
     [lit ''id: 7'' @ [10], lit ''event: E'' @ [10], lit ''data: running'' @ [10], [10], lit '': ping'' @ [10], [10]]
   = [\<lparr>ev_sse_id = Some (Sse_int 7), ev_sse_event = Some (lit ''E''),
       ev_sse_data = Some (Sse_json (JDict [(lit ''data'', JDict [(lit ''state'', JStr (lit ''RUNNING''))])]))\<rparr>]"
proof -
  have "jl_read_int exact_lib (show_int n) = Some n" for n
  proof (cases "n < 0")
    case True
    then show ?thesis by (simp add: exact_lib_def show_int_def dec_value_show_nat)
  next
    case False
    have "hd (show_nat k) \<noteq> 45" for k
      using show_nat_digits [of "hd (show_nat k)" k] by (auto simp: digit_def)
    with False show ?thesis by (simp add: exact_lib_def show_int_def dec_value_show_nat)
  qed
  moreover have "list_all message_ok [Message 7 (lit ''E'') (lit ''running''), Ping]" by code_simp
  ultimately have "iter_events_lines exact_lib no_event (concat (map message_lines [Message 7 (lit ''E'') (lit ''running''), Ping]))
      = concat (map (message_event exact_lib) [Message 7 (lit ''E'') (lit ''running''), Ping])"
    using stream_read_back by blast
  moreover have "concat (map message_lines [Message 7 (lit ''E'') (lit ''running''), Ping]) =
      [lit ''id: 7'' @ [10], lit ''event: E'' @ [10], lit ''data: running'' @ [10], [10], lit '': ping'' @ [10], [10]]"
    "concat (map (message_event exact_lib) [Message 7 (lit ''E'') (lit ''running''), Ping]) =
      [\<lparr>ev_sse_id = Some (Sse_int 7), ev_sse_event = Some (lit ''E''),
       ev_sse_data = Some (Sse_json (JDict [(lit ''data'', JDict [(lit ''state'', JStr (lit ''RUNNING''))])]))\<rparr>]"
    by code_simp+
  ultimately show ?thesis by simp
qed

section \<open>The line counter\<close>

text \<open>C31: The counts add up. Every line of a counted file is blank, comment or code; the totals are
  those of the files listed; each language lists exactly the totals of its own files; and the lines of
  the languages together are the lines of the totals.\<close>

theorem counts_add_up:
  assumes "collect_files lowered include_generated dir = (fs, languages, totals)"
  shows "list_all (\<lambda>f. fs_physical f = fs_blank f + fs_comment_only f + fs_code_like f) fs
    \<and> totals = totals_of fs
    \<and> lt_physical totals = lt_blank totals + lt_comment_only totals + lt_code_like totals
    \<and> (\<forall>l. map_of languages l = (let own = filter (\<lambda>f. fs_language f = l) fs
         in if own = [] then None else Some (totals_of own)))
    \<and> sum_list (map (\<lambda>(l, t). lt_physical t) languages) = lt_physical totals"
proof -
  note facts = collect_facts [OF assms]
  have files: "fs_physical f = fs_blank f + fs_comment_only f + fs_code_like f" if "f \<in> set fs" for f
    using facts(2) [OF that] analyzed_adds_up by blast
  then have "sum_list (map fs_physical gs) = sum_list (map fs_blank gs) + sum_list (map fs_comment_only gs)
      + sum_list (map fs_code_like gs)" if "set gs \<subseteq> set fs" for gs
    using that by (induction gs) auto
  from this [of fs] have lines: "lt_physical totals = lt_blank totals + lt_comment_only totals + lt_code_like totals"
    by (simp add: facts(1) totals_of_def)
  have own: "t = totals_of (filter (\<lambda>f. fs_language f = l) fs)" if "(l, t) \<in> set languages" for l t
  proof -
    have "map_of languages l = Some t" using facts(4) that by simp
    then show ?thesis using facts(3) [of l] by (simp split: if_splits)
  qed
  have "l \<in> fst ` set languages" if "l \<in> fs_language ` set fs" for l
  proof -
    have "filter (\<lambda>f. fs_language f = l) fs \<noteq> []" using that by (auto simp: filter_empty_conv)
    then have "map_of languages l \<noteq> None" using facts(3) [of l] by simp
    then show ?thesis by (simp add: map_of_eq_None_iff)
  qed
  then have "sum_list (map (\<lambda>l. lt_physical (totals_of (filter (\<lambda>f. fs_language f = l) fs))) (map fst languages))
      = lt_physical (totals_of fs)"
    by (intro languages_cover [OF facts(4)]) auto
  moreover have "map (\<lambda>l. lt_physical (totals_of (filter (\<lambda>f. fs_language f = l) fs))) (map fst languages)
      = map (\<lambda>(l, t). lt_physical t) languages"
    using own by (auto simp: comp_def)
  ultimately have "sum_list (map (\<lambda>(l, t). lt_physical t) languages) = lt_physical totals"
    by (simp only: facts(1))
  then show ?thesis using files lines facts(1,3) by (simp add: list_all_iff Let_def)
qed

definition demo_tree :: tree where
  "demo_tree = Tree [(lit ''a.py'', \<lparr>sf_text = Some (lit ''# note'' @ [10, 10] @ lit ''x = 1''), sf_bytes = 13\<rparr>)]
     [(lit ''build'', Tree [(lit ''b.py'', \<lparr>sf_text = Some (lit ''y''), sf_bytes = 1\<rparr>)] []),
      (lit ''m'', Tree [(lit ''c.go'', \<lparr>sf_text = Some (lit ''/* a'' @ [10] @ lit ''b */ c''), sf_bytes = 11\<rparr>)] [])]"

theorem counts_add_up_witness:
  "\<exists>fs languages totals. collect_files (\<lambda>s. s) False demo_tree = (fs, languages, totals)
     \<and> lt_physical totals = 5 \<and> lt_blank totals = 1 \<and> lt_comment_only totals = 2 \<and> lt_code_like totals = 2
     \<and> sum_list (map (\<lambda>(l, t). lt_physical t) languages) = 5"
proof -
  obtain fs languages totals where run: "collect_files (\<lambda>s. s) False demo_tree = (fs, languages, totals)" by (rule prod_cases3)
  have "(\<lambda>(fs, languages, t). (lt_physical t, lt_blank t, lt_comment_only t, lt_code_like t))
      (collect_files (\<lambda>s. s) False demo_tree) = (5, 1, 2, 2)" by code_simp
  then have "lt_physical totals = 5 \<and> lt_blank totals = 1 \<and> lt_comment_only totals = 2 \<and> lt_code_like totals = 2"
    by (simp add: run)
  then show ?thesis using counts_add_up [OF run] run by auto
qed

section \<open>The file tools\<close>

text \<open>C32: The report of duplicates is exact. It lists one group for every content, a size and a hash,
  that at least two readable files have, with all their paths; groups that free more come first; and
  the reclaimable bytes are those of all readable files less one copy of each content.\<close>

theorem duplicates_exact:
  "(g \<in> set (dr_duplicates (duplicates sha256 items)) \<longleftrightarrow>
      (\<exists>n h. let same = filter (\<lambda>x. it_size x = n \<and> sha256 x = Some h) items in 2 \<le> length same
        \<and> g = \<lparr>dg_sha256 = h, dg_copies = int (length same), dg_bytes_each = n,
            dg_reclaimable = n * (int (length same) - 1), dg_paths = map it_relative same\<rparr>))
   \<and> sorted (map (\<lambda>g. - dg_reclaimable g) (dr_duplicates (duplicates sha256 items)))
   \<and> dr_reclaimable (duplicates sha256 items) =
       sum_list (map it_size (filter (\<lambda>x. sha256 x \<noteq> None) items)) - (\<Sum>(n, h) \<in> contents sha256 items. n)"
  using duplicates_groups [of g sha256 items] reclaimable_total [of sha256 items]
  by (simp add: copies_def group_of_def readable_def Let_def) (simp add: duplicates_def Let_def)

end
