(* ===== verification/Files_Report.thy ===== *)
theory Files_Report
  imports Files_Audit Stats_Count Py_Json Complex_Main
begin

text \<open>
  What the file tools of the worker (\<open>worker/file_tools.py\<close>) read and write: the scan of a directory, the
  JSON documents of the audits, the table of checksums, and the lines of the summary that is made from the
  three documents; then the five commands on a disk: each scans a directory or reads its inputs, makes the
  parents of its outputs, writes them and prints. Times, the reasons of errors and the operations of the
  disk are parameters; what UTF-8 cannot encode is not: a file name that is no UTF-8 reaches Python with
  lone surrogates in it, and writing one raises \<open>UnicodeEncodeError\<close>, after the file has been opened and so
  emptied.
\<close>

section \<open>Sizes\<close>

definition round_half_even :: "rat \<Rightarrow> int" where
  "round_half_even r = (let f = floor r; d = r - of_int f in
     if d < 1/2 then f else if 1/2 < d then f + 1 else if even f then f else f + 1)"

text \<open>\<open>f"{v:.2f}"\<close> for a value that is not negative.\<close>

definition show_digits2 :: "int \<Rightarrow> pystr" where
  "show_digits2 k = [48 + k div 10 mod 10, 48 + k mod 10]"

definition show_fixed2 :: "rat \<Rightarrow> pystr" where
  "show_fixed2 v = (let h = round_half_even (v * 100) in show_int (h div 100) @ [46] @ show_digits2 (h mod 100))"

fun human_units :: "rat \<Rightarrow> pystr list \<Rightarrow> pystr" where
  "human_units v [] = show_fixed2 v @ lit '' TiB''"
| "human_units v (u # us) =
     (if v < 1024 \<or> u = lit ''TiB'' then show_fixed2 v @ [32] @ u else human_units (v / 1024) us)"

definition human :: "int \<Rightarrow> pystr" where
  "human n = human_units (of_int n) (map lit [''B'', ''KiB'', ''MiB'', ''GiB'', ''TiB''])"

section \<open>The scan\<close>

text \<open>A file, something that is skipped, or a file whose properties cannot be read; a directory, a link to
  one, or one that cannot be listed.\<close>

datatype scan_entry = Regular int int | Skipped | Stat_error pystr

datatype folder = Folder "(pystr \<times> scan_entry) list" "(pystr \<times> folder) list" | Folder_link | Closed_folder pystr

definition scan_entry_of ::
  "(pystr \<Rightarrow> pystr) \<Rightarrow> pystr \<Rightarrow> pystr \<Rightarrow> pystr \<times> scan_entry \<Rightarrow> item list \<times> pystr list" where
  "scan_entry_of lowered path rel = (\<lambda>(name, e). case e of
     Regular n mtime \<Rightarrow>
       (let ext = lowered (file_suffix name) in
        ([\<lparr>it_path = path @ name, it_relative = rel @ name, it_size = n, it_mtime_ns = mtime,
           it_ext = (if ext = [] then lit ''<none>'' else ext)\<rparr>], []))
   | Skipped \<Rightarrow> ([], [])
   | Stat_error t \<Rightarrow> ([], [path @ name @ lit '': '' @ t]))"

text \<open>\<open>os.walk\<close> from the top; \<open>path\<close> and \<open>rel\<close> end with the separator. The directory itself is not the root of
  the file system.\<close>

fun walk :: "(pystr \<Rightarrow> pystr) \<Rightarrow> pystr \<Rightarrow> pystr \<Rightarrow> folder \<Rightarrow> item list \<times> pystr list" where
  "walk lowered path rel Folder_link = ([], [])"
| "walk lowered path rel (Closed_folder t) = ([], [t])"
| "walk lowered path rel (Folder fs ds) =
     (let here = map (scan_entry_of lowered path rel) fs;
          below = map (\<lambda>(name, d). walk lowered (path @ name @ lit ''/'') (rel @ name @ lit ''/'') d) ds
      in (concat (map fst (here @ below)), concat (map snd (here @ below))))"

definition scanned_files :: "(pystr \<Rightarrow> pystr) \<Rightarrow> pystr \<Rightarrow> folder \<Rightarrow> item list \<times> pystr list" where
  "scanned_files lowered dir f = (case walk lowered (dir @ lit ''/'') [] f of (items, errors) \<Rightarrow> (sort_key it_relative items, errors))"

section \<open>The documents\<close>

definition json_texts :: "pystr list \<Rightarrow> json" where
  "json_texts ts = JList (map JStr ts)"

definition json_entries :: "(string \<times> json) list \<Rightarrow> json" where
  "json_entries es = JDict (map (\<lambda>(k, v). (lit k, v)) es)"

definition inventory_json :: "pystr \<Rightarrow> pystr list \<Rightarrow> inventory_report \<Rightarrow> json" where
  "inventory_json stamp errors r = json_entries [
     (''generated_at'', JStr stamp), (''file_count'', JInt (iv_file_count r)), (''total_bytes'', JInt (iv_total_bytes r)),
     (''total_human'', JStr (human (iv_total_bytes r))), (''errors'', json_texts errors),
     (''largest_files'', JList (map (\<lambda>(p, n). json_entries
        [(''path'', JStr p), (''bytes'', JInt n), (''human'', JStr (human n))]) (iv_largest r))),
     (''extensions'', JList (map (\<lambda>x. json_entries [(''extension'', JStr (xr_extension x)), (''files'', JInt (xr_files x)),
        (''bytes'', JInt (xr_bytes x)), (''human'', JStr (human (xr_bytes x)))]) (iv_extensions r)))]"

text \<open>The errors of reading files, with the reason of each.\<close>

definition read_errors :: "(pystr \<Rightarrow> pystr) \<Rightarrow> pystr list \<Rightarrow> pystr list" where
  "read_errors reason paths = map (\<lambda>p. p @ lit '': '' @ reason p) paths"

definition row_json :: "checksum_row \<Rightarrow> json" where
  "row_json r = json_entries [(''path'', JStr (ck_path r)), (''bytes'', JInt (ck_bytes r)),
     (''sha256'', JStr (ck_sha256 r)), (''mtime_ns'', JInt (ck_mtime_ns r))]"

definition checksums_json :: "pystr \<Rightarrow> pystr \<Rightarrow> pystr list \<Rightarrow> checksum_row list \<Rightarrow> json" where
  "checksums_json stamp elapsed errors rows = json_entries [
     (''generated_at'', JStr stamp), (''file_count'', JInt (int (length rows))), (''errors'', json_texts errors),
     (''elapsed_seconds'', JFloat elapsed), (''files'', JList (map row_json rows))]"

text \<open>\<open>csv.DictWriter\<close>: a field with a comma, a quote or a line break is quoted, quotes are doubled.\<close>

definition csv_field :: "pystr \<Rightarrow> pystr" where
  "csv_field s = (if list_ex (\<lambda>c. c \<in> {44, 34, 13, 10}) s
     then [34] @ concat (map (\<lambda>c. if c = 34 then [34, 34] else [c]) s) @ [34] else s)"

definition csv_line :: "pystr list \<Rightarrow> pystr" where
  "csv_line fs = join_with [44] (map csv_field fs) @ [13, 10]"

definition csv_lines :: "checksum_row list \<Rightarrow> pystr list" where
  "csv_lines rows = csv_line (map lit [''path'', ''bytes'', ''sha256'', ''mtime_ns'']) #
     map (\<lambda>r. csv_line [ck_path r, show_int (ck_bytes r), ck_sha256 r, show_int (ck_mtime_ns r)]) rows"

definition progress_lines :: "string \<Rightarrow> nat \<Rightarrow> pystr list" where
  "progress_lines name n = map (\<lambda>i. lit name @ lit '': '' @ show_nat i @ lit ''/'' @ show_nat n)
     (filter (\<lambda>i. i mod 250 = 0) [1..<Suc n])"

definition group_json :: "duplicate_group \<Rightarrow> json" where
  "group_json g = json_entries [(''sha256'', JStr (dg_sha256 g)), (''copies'', JInt (dg_copies g)),
     (''bytes_each'', JInt (dg_bytes_each g)), (''human_each'', JStr (human (dg_bytes_each g))),
     (''reclaimable_bytes'', JInt (dg_reclaimable g)), (''paths'', json_texts (dg_paths g))]"

definition duplicates_json :: "pystr \<Rightarrow> pystr list \<Rightarrow> duplicates_report \<Rightarrow> json" where
  "duplicates_json stamp errors r = json_entries [
     (''generated_at'', JStr stamp), (''groups'', JInt (dr_groups r)), (''reclaimable_bytes'', JInt (dr_reclaimable r)),
     (''reclaimable_human'', JStr (human (dr_reclaimable r))), (''errors'', json_texts errors),
     (''duplicates'', JList (map group_json (dr_duplicates r)))]"

section \<open>The summary\<close>

text \<open>\<open>value[:20]\<close>, and \<open>value[0]\<close>.\<close>

definition first_twenty :: "json \<Rightarrow> py_error + json list" where
  "first_twenty v = (case v of JList xs \<Rightarrow> Inr (take 20 xs) | JStr s \<Rightarrow> Inr (map (\<lambda>c. JStr [c]) (take 20 s)) | _ \<Rightarrow> Inl Type_error)"

definition first_element :: "json \<Rightarrow> py_error + json" where
  "first_element v = (case v of
     JList (x # xs) \<Rightarrow> Inr x | JStr (c # cs) \<Rightarrow> Inr (JStr [c]) | JDict d \<Rightarrow> Inl (Key_error (lit ''0'')) | _ \<Rightarrow> Inl Type_error)"

fun all_lines :: "(json \<Rightarrow> py_error + pystr) \<Rightarrow> json list \<Rightarrow> py_error + pystr list" where
  "all_lines f [] = Inr []"
| "all_lines f (x # xs) = bind_result (f x) (\<lambda>l. bind_result (all_lines f xs) (\<lambda>ls. Inr (l # ls)))"

definition largest_line :: "py_lib \<Rightarrow> json \<Rightarrow> py_error + pystr" where
  "largest_line lib v =
     bind_result (get_or ''human'' (JStr (lit ''?'')) v) (\<lambda>h.
     bind_result (format_value lib Rightwards 12 h) (\<lambda>human_text.
     bind_result (get_or ''path'' (JStr (lit ''?'')) v) (\<lambda>p.
       Inr (lit ''  '' @ human_text @ lit ''  '' @ str_of lib p))))"

definition group_line :: "py_lib \<Rightarrow> json \<Rightarrow> py_error + pystr" where
  "group_line lib v =
     bind_result (get_or ''paths'' JNull v) (\<lambda>ps.
     bind_result (first_element (or_else lib ps (JList [JStr (lit ''?'')]))) (\<lambda>first.
     bind_result (get_or ''copies'' (JInt 0) v) (\<lambda>copies.
     bind_result (get_or ''human_each'' (JStr (lit ''?'')) v) (\<lambda>each.
       Inr (lit ''  '' @ str_of lib copies @ lit '' copies x '' @ str_of lib each @ lit '' - '' @ str_of lib first)))))"

definition summary_lines :: "py_lib \<Rightarrow> json \<Rightarrow> json \<Rightarrow> json \<Rightarrow> py_error + pystr list" where
  "summary_lines lib iv dv cv =
     bind_result (get_or ''file_count'' (JInt 0) iv) (\<lambda>scanned.
     bind_result (get_or ''total_human'' (JStr (lit ''?'')) iv) (\<lambda>total.
     bind_result (get_or ''file_count'' (JInt 0) cv) (\<lambda>records.
     bind_result (get_or ''groups'' (JInt 0) dv) (\<lambda>groups.
     bind_result (get_or ''reclaimable_human'' (JStr (lit ''0 B'')) dv) (\<lambda>reclaimable.
     bind_result (get_or ''largest_files'' (JList []) iv) (\<lambda>largest.
     bind_result (first_twenty largest) (\<lambda>largest_twenty.
     bind_result (all_lines (largest_line lib) largest_twenty) (\<lambda>largest_text.
     bind_result (get_or ''duplicates'' (JList []) dv) (\<lambda>duplicate.
     bind_result (first_twenty duplicate) (\<lambda>duplicate_twenty.
     bind_result (all_lines (group_line lib) duplicate_twenty) (\<lambda>group_text.
       Inr ([lit ''HelixGrid File Audit'', lit ''===================='',
          lit ''Files scanned: '' @ str_of lib scanned, lit ''Total size: '' @ str_of lib total,
          lit ''Checksum records: '' @ str_of lib records, lit ''Duplicate groups: '' @ str_of lib groups,
          lit ''Potential space in duplicates: '' @ str_of lib reclaimable, [], lit ''Largest files:'']
         @ largest_text @ [[], lit ''Largest duplicate groups:''] @ group_text))))))))))))"

definition summary_text :: "pystr list \<Rightarrow> pystr" where
  "summary_text ls = join_with [10] ls @ [10]"

section \<open>The disk\<close>

text \<open>
  \<open>dk_write\<close> opens a file anew, writes a text that can be encoded, and closes it; \<open>dk_read\<close> is \<open>read_text\<close>.
  The last four are \<open>tarfile\<close>'s and \<open>stat\<close> and the hash of the archive.
\<close>

record 'f disk =
  dk_parent :: "pystr \<Rightarrow> ('f, py_error, unit) proc"
  dk_write :: "pystr \<Rightarrow> pystr \<Rightarrow> ('f, py_error, unit) proc"
  dk_read :: "pystr \<Rightarrow> 'f \<Rightarrow> py_error + pystr"
  dk_open_tar :: "pystr \<Rightarrow> ('f, py_error, unit) proc"
  dk_add_tar :: "pystr \<Rightarrow> pystr \<Rightarrow> pystr \<Rightarrow> ('f, py_error, unit) proc"
  dk_close_tar :: "pystr \<Rightarrow> ('f, py_error, unit) proc"
  dk_size :: "pystr \<Rightarrow> 'f \<Rightarrow> py_error + int"
  dk_sha256 :: "pystr \<Rightarrow> 'f \<Rightarrow> py_error + pystr"

record 'f desk =
  desk_files :: 'f
  desk_out :: "pystr list"

type_synonym ('f, 'a) tool = "('f desk, py_error, 'a) proc"

definition on_disk :: "('f, py_error, 'a) proc \<Rightarrow> ('f, 'a) tool" where
  "on_disk c = (\<lambda>s. case c (desk_files s) of (r, f) \<Rightarrow> (r, s\<lparr>desk_files := f\<rparr>))"

definition from_disk :: "('f \<Rightarrow> py_error + 'a) \<Rightarrow> ('f, 'a) tool" where
  "from_disk c = (\<lambda>s. (c (desk_files s), s))"

definition put_lines :: "pystr list \<Rightarrow> ('f, unit) tool" where
  "put_lines ts = modify (\<lambda>s. s\<lparr>desk_out := desk_out s @ ts\<rparr>)"

definition encode_error :: py_error where
  "encode_error = Value_error (lit ''surrogates not allowed'')"

text \<open>A file written piece by piece: the pieces before the first that cannot be encoded are in it.\<close>

definition write_pieces :: "'f disk \<Rightarrow> pystr \<Rightarrow> pystr list \<Rightarrow> ('f, unit) tool" where
  "write_pieces disk p ts =
     (if list_all encodable ts then on_disk (dk_write disk p (concat ts))
      else andThen (on_disk (dk_write disk p (concat (takeWhile encodable ts)))) (raise encode_error))"

text \<open>\<open>path.write_text(text, encoding="utf-8")\<close>\<close>

definition write_text :: "'f disk \<Rightarrow> pystr \<Rightarrow> pystr \<Rightarrow> ('f, unit) tool" where
  "write_text disk p t = write_pieces disk p [t]"

text \<open>\<open>json.dumps(data, indent=2, ensure_ascii=False)\<close> is \<open>py_dumps\<close>.\<close>

definition save :: "py_lib \<Rightarrow> 'f disk \<Rightarrow> pystr \<Rightarrow> json \<Rightarrow> ('f, unit) tool" where
  "save lib disk p v = andThen (on_disk (dk_parent disk p)) (write_text disk p (py_dumps lib v @ [10]))"

definition load_document :: "py_lib \<Rightarrow> 'f disk \<Rightarrow> pystr \<Rightarrow> ('f, json) tool" where
  "load_document lib disk p = chain (from_disk (dk_read disk p)) (\<lambda>t.
     case py_loads lib t of None \<Rightarrow> raise (Value_error t) | Some v \<Rightarrow> ret v)"

section \<open>The commands\<close>

definition inventory_run ::
  "py_lib \<Rightarrow> 'f disk \<Rightarrow> (pystr \<Rightarrow> pystr) \<Rightarrow> pystr \<Rightarrow> pystr \<Rightarrow> folder \<Rightarrow> pystr \<Rightarrow> ('f, unit) tool" where
  "inventory_run lib disk lowered stamp dir f output = (case scanned_files lowered dir f of (items, errors) \<Rightarrow>
     let r = inventory items in
     andThen (save lib disk output (inventory_json stamp errors r))
       (put_lines [lit ''inventory: '' @ show_int (int (length items)) @ lit '' files, '' @ human (iv_total_bytes r)]))"

definition checksums_run ::
  "py_lib \<Rightarrow> 'f disk \<Rightarrow> (pystr \<Rightarrow> pystr) \<Rightarrow> (item \<Rightarrow> pystr option) \<Rightarrow> (pystr \<Rightarrow> pystr) \<Rightarrow> pystr \<Rightarrow> pystr \<Rightarrow> pystr \<Rightarrow> folder
   \<Rightarrow> pystr \<Rightarrow> pystr \<Rightarrow> ('f, unit) tool" where
  "checksums_run lib disk lowered sha256 reason stamp elapsed dir f output csv =
     (case scanned_files lowered dir f of (items, errors) \<Rightarrow>
      case checksums sha256 items of (rows, failed) \<Rightarrow>
        andThen (put_lines (progress_lines ''checksums'' (length items)))
        (andThen (save lib disk output (checksums_json stamp elapsed (errors @ read_errors reason failed) rows))
        (andThen (on_disk (dk_parent disk csv))
        (andThen (write_pieces disk csv (csv_lines rows))
          (put_lines [lit ''checksums: '' @ show_int (int (length rows)) @ lit '' files''])))))"

definition duplicates_run ::
  "py_lib \<Rightarrow> 'f disk \<Rightarrow> (pystr \<Rightarrow> pystr) \<Rightarrow> (item \<Rightarrow> pystr option) \<Rightarrow> (pystr \<Rightarrow> pystr) \<Rightarrow> pystr \<Rightarrow> pystr \<Rightarrow> folder
   \<Rightarrow> pystr \<Rightarrow> ('f, unit) tool" where
  "duplicates_run lib disk lowered sha256 reason stamp dir f output = (case scanned_files lowered dir f of (items, errors) \<Rightarrow>
     let r = duplicates sha256 items in
     andThen (save lib disk output (duplicates_json stamp (errors @ read_errors reason (dr_errors r)) r))
       (put_lines [lit ''duplicates: '' @ show_int (dr_groups r) @ lit '' groups, '' @ human (dr_reclaimable r) @ lit '' reclaimable'']))"

text \<open>The backup adds the files one by one; an \<open>OSError\<close> of one is noted, any other exception ends it.\<close>

fun add_files :: "py_lib \<Rightarrow> 'f disk \<Rightarrow> pystr \<Rightarrow> nat \<Rightarrow> nat \<Rightarrow> item list \<Rightarrow> ('f, pystr list) tool" where
  "add_files lib disk output n i [] = ret []"
| "add_files lib disk output n i (x # xs) =
     chain (catch (andThen (on_disk (dk_add_tar disk output (it_path x) (it_relative x))) (ret []))
       is_os_error (\<lambda>e. ret [it_path x @ lit '': '' @ py_message lib e])) (\<lambda>found.
     andThen (put_lines (if i mod 250 = 0 then [lit ''backup: '' @ show_nat i @ lit ''/'' @ show_nat n] else []))
     (chain (add_files lib disk output n (i + 1) xs) (\<lambda>rest. ret (found @ rest))))"

definition backup_json :: "pystr \<Rightarrow> pystr \<Rightarrow> nat \<Rightarrow> pystr \<Rightarrow> int \<Rightarrow> pystr \<Rightarrow> pystr list \<Rightarrow> json" where
  "backup_json stamp elapsed n output archive_size archive_hash errors = json_entries [
     (''generated_at'', JStr stamp), (''file_count'', JInt (int n)), (''archive'', JStr output),
     (''archive_bytes'', JInt archive_size), (''archive_human'', JStr (human archive_size)), (''sha256'', JStr archive_hash),
     (''errors'', json_texts errors), (''elapsed_seconds'', JFloat elapsed)]"

definition backup_run ::
  "py_lib \<Rightarrow> 'f disk \<Rightarrow> (pystr \<Rightarrow> pystr) \<Rightarrow> pystr \<Rightarrow> pystr \<Rightarrow> pystr \<Rightarrow> folder \<Rightarrow> pystr \<Rightarrow> pystr \<Rightarrow> ('f, unit) tool" where
  "backup_run lib disk lowered stamp elapsed dir f output metadata =
     (case scanned_files lowered dir f of (items, errors) \<Rightarrow>
        andThen (on_disk (dk_parent disk output))
        (andThen (on_disk (dk_open_tar disk output))
        (chain (add_files lib disk output (length items) 1 items) (\<lambda>failed.
         andThen (on_disk (dk_close_tar disk output))
        (chain (from_disk (dk_size disk output)) (\<lambda>archive_size.
         chain (from_disk (dk_sha256 disk output)) (\<lambda>archive_hash.
         andThen (save lib disk metadata
           (backup_json stamp elapsed (length items) output archive_size archive_hash (errors @ failed)))
        (put_lines [lit ''backup: '' @ show_int (int (length items)) @ lit '' files -> '' @ output]))))))))"

definition summary_run :: "py_lib \<Rightarrow> 'f disk \<Rightarrow> pystr \<Rightarrow> pystr \<Rightarrow> pystr \<Rightarrow> pystr \<Rightarrow> ('f, unit) tool" where
  "summary_run lib disk inventory_file duplicates_file checksums_file output =
     chain (load_document lib disk inventory_file) (\<lambda>iv.
     chain (load_document lib disk duplicates_file) (\<lambda>dv.
     chain (load_document lib disk checksums_file) (\<lambda>cv.
     andThen (on_disk (dk_parent disk output))
     (chain (of_result (summary_lines lib iv dv cv)) (\<lambda>ls.
      andThen (write_text disk output (summary_text ls))
     (chain (from_disk (dk_read disk output)) (\<lambda>t. put_lines [t])))))))"

section \<open>What the summary shows\<close>

lemma get_entries [simp]:
  "get_or k d (json_entries es) = Inr (case map_of (map (\<lambda>(k, v). (lit k, v)) es) (lit k) of None \<Rightarrow> d | Some x \<Rightarrow> x)"
  by (simp add: get_or_def json_entries_def)

lemma all_lines_map: "(\<And>x. x \<in> set xs \<Longrightarrow> f (g x) = Inr (h x)) \<Longrightarrow> all_lines f (map g xs) = Inr (map h xs)"
  by (induction xs) simp_all

definition largest_text :: "pystr \<times> int \<Rightarrow> pystr" where
  "largest_text = (\<lambda>(p, n). lit ''  '' @ pad_left 12 (human n) @ lit ''  '' @ p)"

definition group_text :: "duplicate_group \<Rightarrow> pystr" where
  "group_text g = lit ''  '' @ show_int (dg_copies g) @ lit '' copies x '' @ human (dg_bytes_each g) @ lit '' - '' @ hd (dg_paths g)"

lemma largest_line_entry:
  "largest_line lib (json_entries [(''path'', JStr p), (''bytes'', JInt n), (''human'', JStr (human n))]) = Inr (largest_text (p, n))"
  by (simp add: largest_line_def largest_text_def format_value_def str_of_def)

lemma group_line_entry: "dg_paths g \<noteq> [] \<Longrightarrow> group_line lib (group_json g) = Inr (group_text g)"
  by (cases "dg_paths g") (simp_all add: group_line_def group_json_def group_text_def json_texts_def or_else_def truthy_def
      first_element_def str_of_def)

lemma summary_of_reports:
  assumes "\<And>g. g \<in> set (dr_duplicates d) \<Longrightarrow> dg_paths g \<noteq> []"
  shows "summary_lines lib (inventory_json stamp e1 i) (duplicates_json stamp' e2 d) (checksums_json stamp'' elapsed e3 rows) =
    Inr ([lit ''HelixGrid File Audit'', lit ''===================='',
          lit ''Files scanned: '' @ show_int (iv_file_count i), lit ''Total size: '' @ human (iv_total_bytes i),
          lit ''Checksum records: '' @ show_int (int (length rows)), lit ''Duplicate groups: '' @ show_int (dr_groups d),
          lit ''Potential space in duplicates: '' @ human (dr_reclaimable d), [], lit ''Largest files:'']
         @ map largest_text (take 20 (iv_largest i)) @ [[], lit ''Largest duplicate groups:'']
         @ map group_text (take 20 (dr_duplicates d)))"
proof -
  have large: "all_lines (largest_line lib) (take 20 (map (\<lambda>(p, n). json_entries
      [(''path'', JStr p), (''bytes'', JInt n), (''human'', JStr (human n))]) (iv_largest i)))
      = Inr (map largest_text (take 20 (iv_largest i)))"
    unfolding take_map by (rule all_lines_map) (auto simp: largest_line_entry split: prod.split)
  have groups: "all_lines (group_line lib) (take 20 (map group_json (dr_duplicates d)))
      = Inr (map group_text (take 20 (dr_duplicates d)))"
    unfolding take_map by (rule all_lines_map) (use assms in \<open>auto simp: group_line_entry dest: in_set_takeD\<close>)
  show ?thesis
    by (simp add: summary_lines_def inventory_json_def duplicates_json_def checksums_json_def first_twenty_def
        large groups str_of_def)
qed

end
