(* ===== verification/Stats_Report.thy ===== *)
theory Stats_Report
  imports Stats_Sums Files_Report "HOL-Library.Product_Lexorder"
begin

text \<open>
  What the line counter (\<open>scripts/code_stats.py\<close>) prints, its JSON document and its exit codes. The root is
  a directory tree, or \<open>None\<close> where there is no directory; the parsed arguments are a record.
\<close>

section \<open>The table\<close>

text \<open>\<open>f"{v:.1f}"\<close> for a value that is not negative.\<close>

definition show_fixed1 :: "rat \<Rightarrow> pystr" where
  "show_fixed1 v = (let h = round_half_even (v * 10) in show_int (h div 10) @ [46, 48 + h mod 10])"

fun byte_units :: "rat \<Rightarrow> pystr list \<Rightarrow> pystr" where
  "byte_units v [] = []"
| "byte_units v (u # us) =
     (if v < 1024 \<or> us = []
      then (if u \<noteq> lit ''B'' then show_fixed1 v else show_int (floor v)) @ u
      else byte_units (v / 1024) us)"

definition format_bytes :: "int \<Rightarrow> pystr" where
  "format_bytes n = byte_units (of_int n) (map lit [''B'', ''KiB'', ''MiB'', ''GiB''])"

definition rule_line :: "int \<Rightarrow> pystr" where
  "rule_line c = replicate 79 c"

definition number_cells :: "line_totals \<Rightarrow> pystr" where
  "number_cells t = pad_left 7 (show_int (lt_files t)) @ [32] @ pad_left 10 (show_int (lt_physical t)) @ [32]
     @ pad_left 10 (show_int (lt_code_like t)) @ [32] @ pad_left 10 (show_int (lt_comment_only t)) @ [32]
     @ pad_left 8 (show_int (lt_blank t)) @ [32] @ pad_left 10 (format_bytes (lt_bytes t))"

definition header_line :: pystr where
  "header_line = pad_right 20 (lit ''Language'') @ [32] @ pad_left 7 (lit ''Files'') @ [32] @ pad_left 10 (lit ''Physical'') @ [32]
     @ pad_left 10 (lit ''Code-like'') @ [32] @ pad_left 10 (lit ''Comments'') @ [32] @ pad_left 8 (lit ''Blank'') @ [32]
     @ pad_left 10 (lit ''Bytes'')"

definition by_physical :: "(pystr, line_totals) dict \<Rightarrow> (pystr \<times> line_totals) list" where
  "by_physical languages = sort_key (\<lambda>(l, t). (- lt_physical t, l)) languages"

definition file_line :: "file_stats \<Rightarrow> pystr" where
  "file_line f = pad_left 7 (show_int (fs_physical f)) @ [32, 32] @ pad_right 18 (fs_language f) @ [32, 32] @ fs_path f"

definition print_human ::
  "file_stats list \<Rightarrow> (pystr, line_totals) dict \<Rightarrow> line_totals \<Rightarrow> bool \<Rightarrow> pystr list" where
  "print_human fs languages totals show_files =
     [lit ''HelixGrid source statistics'', rule_line 61, header_line, rule_line 45]
     @ map (\<lambda>(l, t). pad_right 20 l @ [32] @ number_cells t) (by_physical languages)
     @ [rule_line 45, pad_right 20 (lit ''TOTAL'') @ [32] @ number_cells totals]
     @ (if show_files then [[], lit ''Files'', rule_line 45] @ map file_line fs else [])"

section \<open>The document\<close>

definition counts_json :: "line_totals \<Rightarrow> (string \<times> json) list" where
  "counts_json t = [(''files'', JInt (lt_files t)), (''physical'', JInt (lt_physical t)), (''blank'', JInt (lt_blank t)),
     (''comment_only'', JInt (lt_comment_only t)), (''code_like'', JInt (lt_code_like t)), (''bytes'', JInt (lt_bytes t))]"

definition file_json :: "file_stats \<Rightarrow> json" where
  "file_json f = json_entries [(''path'', JStr (fs_path f)), (''language'', JStr (fs_language f)),
     (''physical'', JInt (fs_physical f)), (''blank'', JInt (fs_blank f)), (''comment_only'', JInt (fs_comment_only f)),
     (''code_like'', JInt (fs_code_like f)), (''bytes'', JInt (fs_bytes f))]"

definition json_payload ::
  "file_stats list \<Rightarrow> (pystr, line_totals) dict \<Rightarrow> line_totals \<Rightarrow> bool \<Rightarrow> json" where
  "json_payload fs languages totals show_files = json_entries (
     [(''totals'', json_entries (counts_json totals)),
      (''languages'', JList (map (\<lambda>(l, t). json_entries ((''language'', JStr l) # counts_json t)) (by_physical languages)))]
     @ (if show_files then [(''files'', JList (map file_json fs))] else []))"

section \<open>The command line\<close>

record stats_args =
  sa_root :: pystr
  sa_include_generated :: bool
  sa_json :: bool
  sa_files :: bool
  sa_minimum :: int
  sa_minimum_code :: int

definition gate_lines :: "stats_args \<Rightarrow> line_totals \<Rightarrow> pystr list" where
  "gate_lines a t =
     (if sa_minimum a \<noteq> 0 \<and> lt_physical t < sa_minimum a
      then [lit ''error: source-size gate failed: '' @ show_int (lt_physical t) @ lit '' physical lines < required ''
        @ show_int (sa_minimum a)] else [])
     @ (if sa_minimum_code a \<noteq> 0 \<and> lt_code_like t < sa_minimum_code a
      then [lit ''error: code-like gate failed: '' @ show_int (lt_code_like t) @ lit '' lines < required ''
        @ show_int (sa_minimum_code a)] else [])"

text \<open>The lines of the two streams and the exit code.\<close>

definition stats_main ::
  "(pystr \<Rightarrow> pystr) \<Rightarrow> (json \<Rightarrow> pystr) \<Rightarrow> stats_args \<Rightarrow> tree option \<Rightarrow> pystr list \<times> pystr list \<times> int" where
  "stats_main lowered pretty a dir = (case dir of
     None \<Rightarrow> ([], [lit ''error: not a directory: '' @ sa_root a], 2)
   | Some root_tree \<Rightarrow>
       (case collect_files lowered (sa_include_generated a) root_tree of (fs, languages, totals) \<Rightarrow>
          (if sa_json a then [pretty (json_payload fs languages totals (sa_files a))]
           else print_human fs languages totals (sa_files a),
           gate_lines a totals,
           if gate_lines a totals = [] then 0 else 1)))"

lemma gate_code_lines: "gate_code (sa_minimum a) (sa_minimum_code a) t = (if gate_lines a t = [] then 0 else 1)"
  by (simp add: gate_code_def gate_lines_def)

text \<open>The exit code says what is on the error stream, and is the verdict of the two gates on the directory.\<close>

theorem stats_exit:
  assumes "stats_main lowered pretty a dir = (out, err, code)"
  shows "(code = 0 \<longleftrightarrow> err = []) \<and> (code = 2 \<longleftrightarrow> dir = None)
    \<and> (\<forall>d. dir = Some d \<longrightarrow> code = gate_code (sa_minimum a) (sa_minimum_code a) (snd (snd (collect_files lowered (sa_include_generated a) d))))"
  using assms by (auto simp: stats_main_def gate_code_lines split: option.splits prod.splits if_splits)

end
