(* ===== verification/Audit_Props.thy ===== *)
theory Audit_Props
  imports Files_Report Files_Dups
begin

text \<open>
  The audit as a whole: the inventory, the duplicates and the checksums of a directory, and the summary of
  what they saved. Whether it ends well is a matter of the texts it writes.
\<close>

section \<open>What is relied on\<close>

text \<open>The texts in a document. A float is kept as its text.\<close>

fun json_encodable :: "json \<Rightarrow> bool" where
  "json_encodable (JStr s) \<longleftrightarrow> encodable s"
| "json_encodable (JFloat s) \<longleftrightarrow> encodable s"
| "json_encodable (JList vs) \<longleftrightarrow> list_all json_encodable vs"
| "json_encodable (JDict d) \<longleftrightarrow> list_all (\<lambda>(k, v). encodable k \<and> json_encodable v) d"
| "json_encodable v \<longleftrightarrow> True"

text \<open>\<open>json\<close>: what is dumped is loaded again; control characters are escaped; every other one is written as it is.\<close>

definition json_law :: "py_lib \<Rightarrow> json \<Rightarrow> bool" where
  "json_law lib v \<longleftrightarrow> reads_back lib v \<and> 13 \<notin> set (py_dumps lib v) \<and> (encodable (py_dumps lib v) \<longleftrightarrow> json_encodable v)"

text \<open>Line breaks as \<open>read_text\<close> gives them.\<close>

fun newlines :: "bool \<Rightarrow> pystr \<Rightarrow> pystr" where
  "newlines cr [] = []"
| "newlines cr (c # s) =
     (if c = 13 then 10 # newlines True s else if c = 10 \<and> cr then newlines False s else c # newlines False s)"

lemma newlines_plain: "13 \<notin> set s \<Longrightarrow> newlines False s = s"
  by (induction s) auto

text \<open>The paths name different files that can be made and written: what was written last is read.\<close>

definition writable :: "'f disk \<Rightarrow> pystr list \<Rightarrow> bool" where
  "writable disk ps \<longleftrightarrow> distinct ps \<and> (\<forall>p \<in> set ps. \<forall>f.
     fst (dk_parent disk p f) = Inr () \<and> (\<forall>q \<in> set ps. dk_read disk q (snd (dk_parent disk p f)) = dk_read disk q f)
     \<and> (\<forall>t. encodable t \<longrightarrow> fst (dk_write disk p t f) = Inr () \<and> dk_read disk p (snd (dk_write disk p t f)) = Inr (newlines False t)
         \<and> (\<forall>q \<in> set ps. q \<noteq> p \<longrightarrow> dk_read disk q (snd (dk_write disk p t f)) = dk_read disk q f)))"

lemma writable_parent:
  assumes "writable disk ps" "p \<in> set ps"
  obtains g where "on_disk (dk_parent disk p) s = (Inr (), s\<lparr>desk_files := g\<rparr>)"
    "\<And>q. q \<in> set ps \<Longrightarrow> dk_read disk q g = dk_read disk q (desk_files s)"
proof -
  have "fst (dk_parent disk p (desk_files s)) = Inr ()"
    "\<forall>q \<in> set ps. dk_read disk q (snd (dk_parent disk p (desk_files s))) = dk_read disk q (desk_files s)"
    using assms unfolding writable_def by blast+
  then show ?thesis using that by (cases "dk_parent disk p (desk_files s)") (auto simp: on_disk_def)
qed

lemma encodable_takeWhile: "encodable (concat (takeWhile encodable ts))"
  by (auto simp: encodable_concat dest: set_takeWhileD)

lemma writable_pieces:
  assumes "writable disk ps" "p \<in> set ps"
  obtains g where "write_pieces disk p ts s = (if list_all encodable ts then Inr () else Inl encode_error, s\<lparr>desk_files := g\<rparr>)"
    "list_all encodable ts \<Longrightarrow> dk_read disk p g = Inr (newlines False (concat ts))"
    "\<And>q. q \<in> set ps \<Longrightarrow> q \<noteq> p \<Longrightarrow> dk_read disk q g = dk_read disk q (desk_files s)"
proof -
  define t where "t = (if list_all encodable ts then concat ts else concat (takeWhile encodable ts))"
  have "encodable t" using encodable_takeWhile by (auto simp: t_def encodable_concat list_all_iff)
  then have "fst (dk_write disk p t (desk_files s)) = Inr ()"
    "dk_read disk p (snd (dk_write disk p t (desk_files s))) = Inr (newlines False t)"
    "\<forall>q \<in> set ps. q \<noteq> p \<longrightarrow> dk_read disk q (snd (dk_write disk p t (desk_files s))) = dk_read disk q (desk_files s)"
    using assms unfolding writable_def by blast+
  then show ?thesis
    using that [of "snd (dk_write disk p t (desk_files s))"]
    by (cases "dk_write disk p t (desk_files s)") (auto simp: write_pieces_def on_disk_def t_def proc_simps split: if_splits)
qed

lemma save_writes:
  assumes "writable disk ps" "p \<in> set ps" "json_law lib v"
  obtains g where "save lib disk p v s = (if json_encodable v then Inr () else Inl encode_error, s\<lparr>desk_files := g\<rparr>)"
    "json_encodable v \<Longrightarrow> dk_read disk p g = Inr (py_dumps lib v @ [10])"
    "\<And>q. q \<in> set ps \<Longrightarrow> q \<noteq> p \<Longrightarrow> dk_read disk q g = dk_read disk q (desk_files s)"
proof -
  obtain g where g: "on_disk (dk_parent disk p) s = (Inr (), s\<lparr>desk_files := g\<rparr>)"
    "\<And>q. q \<in> set ps \<Longrightarrow> dk_read disk q g = dk_read disk q (desk_files s)"
    using writable_parent [OF assms(1,2)] by blast
  obtain h where h: "write_pieces disk p [py_dumps lib v @ [10]] (s\<lparr>desk_files := g\<rparr>) =
      (if list_all encodable [py_dumps lib v @ [10]] then Inr () else Inl encode_error, s\<lparr>desk_files := g\<rparr>\<lparr>desk_files := h\<rparr>)"
    "list_all encodable [py_dumps lib v @ [10]] \<Longrightarrow> dk_read disk p h = Inr (newlines False (concat [py_dumps lib v @ [10]]))"
    "\<And>q. q \<in> set ps \<Longrightarrow> q \<noteq> p \<Longrightarrow> dk_read disk q h = dk_read disk q (desk_files (s\<lparr>desk_files := g\<rparr>))"
    using writable_pieces [OF assms(1,2)] by blast
  show ?thesis
    by (rule that [of h]) (use g h assms(3) in \<open>auto simp: save_def write_text_def andThen_Inr [where c = "on_disk (dk_parent disk p)" and s = s, OF g(1)] json_law_def newlines_plain\<close>)
qed

lemma load_saved: "json_law lib v \<Longrightarrow> dk_read disk p (desk_files s) = Inr (py_dumps lib v @ [10]) \<Longrightarrow>
    load_document lib disk p s = (Inr v, s)"
  by (simp add: load_document_def from_disk_def json_law_def reads_back_def proc_simps)

section \<open>The texts of the documents\<close>

lemma encodable_digits: "(\<And>c. c \<in> set s \<Longrightarrow> digit c) \<Longrightarrow> encodable s"
  by (induction s) (fastforce simp: digit_def)+

lemma encodable_numbers [simp]: "encodable (show_nat n)" "encodable (show_int i)" "encodable (show_digits2 k)"
proof -
  show n: "encodable (show_nat n)" for n using show_nat_digits by (rule encodable_digits)
  show "encodable (show_int i)" using n by (simp add: show_int_def)
  have "k div 10 mod 10 < 10" "k mod 10 < 10" by simp_all
  then have "\<not> 55248 \<le> k div 10 mod 10" "\<not> 55248 \<le> k mod 10" by linarith+
  then show "encodable (show_digits2 k)" unfolding show_digits2_def by simp
qed

lemma encodable_human [simp]: "encodable (human n)"
proof -
  have "encodable (human_units v us)" if "\<forall>u \<in> set us. encodable u" for v us
    using that by (induction us arbitrary: v) (auto simp: show_fixed2_def Let_def)
  moreover have "\<forall>u \<in> set (map lit [''B'', ''KiB'', ''MiB'', ''GiB'', ''TiB'']). encodable u" by simp
  ultimately show ?thesis unfolding human_def by blast
qed

lemma json_encodable_entries:
  "json_encodable (json_entries es) \<longleftrightarrow> (\<forall>(k, v) \<in> set es. encodable (lit k) \<and> json_encodable v)"
  by (auto simp: json_entries_def list_all_iff)

lemma json_encodable_texts: "json_encodable (json_texts ts) \<longleftrightarrow> list_all encodable ts"
  by (simp add: json_texts_def list_all_iff)

lemma bump_keys: "set (dkeys (fold (\<lambda>x. bump (g x) (h x)) xs d)) = set (dkeys d) \<union> g ` set xs"
  by (induction xs arbitrary: d) (auto simp: bump_def dict_simps)

lemma inventory_encodable:
  "json_encodable (inventory_json stamp errors (inventory items)) \<longleftrightarrow> encodable stamp \<and> list_all encodable errors
     \<and> (\<forall>(p, n) \<in> set (iv_largest (inventory items)). encodable p) \<and> (\<forall>x \<in> set items. encodable (it_ext x))"
  by (auto simp: inventory_json_def json_encodable_entries json_encodable_texts list_all_iff inventory_def Let_def bump_keys)

lemma checksums_encodable:
  "json_encodable (checksums_json stamp elapsed errors rows) \<longleftrightarrow> encodable stamp \<and> encodable elapsed \<and> list_all encodable errors
     \<and> (\<forall>r \<in> set rows. encodable (ck_path r) \<and> encodable (ck_sha256 r))"
  by (auto simp: checksums_json_def json_encodable_entries json_encodable_texts list_all_iff row_json_def)

lemma duplicates_encodable:
  "json_encodable (duplicates_json stamp errors r) \<longleftrightarrow> encodable stamp \<and> list_all encodable errors
     \<and> (\<forall>g \<in> set (dr_duplicates r). encodable (dg_sha256 g) \<and> list_all encodable (dg_paths g))"
  by (auto simp: duplicates_json_def json_encodable_entries json_encodable_texts list_all_iff group_json_def)

section \<open>The texts of a directory\<close>

lemma checksums_rows:
  "checksums sha256 items = (rows, failed) \<Longrightarrow>
     rows = map (\<lambda>x. \<lparr>ck_path = it_relative x, ck_bytes = it_size x, ck_sha256 = the (sha256 x), ck_mtime_ns = it_mtime_ns x\<rparr>)
       (filter (\<lambda>x. sha256 x \<noteq> None) items)
     \<and> failed = map it_path (filter (\<lambda>x. sha256 x = None) items)"
  by (induction items arbitrary: rows failed) (auto split: prod.splits option.splits)

lemma checksums_lengths:
  "checksums sha256 items = (rows, failed) \<Longrightarrow> length rows + length failed = length items"
  by (induction items arbitrary: rows failed) (auto split: prod.splits option.splits)

lemma duplicates_have_paths: "g \<in> set (dr_duplicates (duplicates sha256 items)) \<Longrightarrow> dg_paths g \<noteq> []"
  unfolding duplicates_groups by (auto simp: copies_def group_of_def)

lemma duplicates_texts:
  assumes "g \<in> set (dr_duplicates (duplicates sha256 items))"
  shows "(\<exists>x \<in> set items. sha256 x = Some (dg_sha256 g)) \<and> set (dg_paths g) \<subseteq> it_relative ` set items"
proof -
  obtain n h where g: "2 \<le> length (copies sha256 n h items)" "g = group_of sha256 n h items"
    using assms unfolding duplicates_groups by blast
  then obtain x where "x \<in> set (copies sha256 n h items)" by (cases "copies sha256 n h items") auto
  then show ?thesis using g(2) by (auto simp: copies_def group_of_def)
qed

lemma duplicates_errors: "set (dr_errors (duplicates sha256 items)) \<subseteq> it_path ` {x \<in> set items. sha256 x = None}"
proof -
  have "x \<in> set items" if "(n, xs) \<in> set (by_size items)" "x \<in> set xs" for n xs x
    using that by (auto simp: by_size_entries)
  then show ?thesis by (fastforce simp: duplicates_def Let_def hash_errors_def split: if_splits prod.splits)
qed

lemma walk_paths: "x \<in> set (fst (walk lowered path rel f)) \<Longrightarrow> \<exists>n. it_path x = path @ n \<and> it_relative x = rel @ n"
proof (induction lowered path rel f rule: walk.induct)
  case (3 lowered path rel fs ds)
  have "(\<exists>e \<in> set fs. x \<in> set (fst (scan_entry_of lowered path rel e)))
      \<or> (\<exists>(name, d) \<in> set ds. x \<in> set (fst (walk lowered (path @ name @ lit ''/'') (rel @ name @ lit ''/'') d)))"
    using "3.prems" by (auto simp: Let_def simp del: lit_Cons)
  then show ?case
  proof
    assume "\<exists>e \<in> set fs. x \<in> set (fst (scan_entry_of lowered path rel e))"
    then show ?thesis by (auto simp: scan_entry_of_def Let_def split: scan_entry.splits)
  next
    assume "\<exists>(name, d) \<in> set ds. x \<in> set (fst (walk lowered (path @ name @ lit ''/'') (rel @ name @ lit ''/'') d))"
    then obtain name d where d: "(name, d) \<in> set ds"
      "x \<in> set (fst (walk lowered (path @ name @ lit ''/'') (rel @ name @ lit ''/'') d))" by blast
    have "\<exists>n. it_path x = (path @ name @ lit ''/'') @ n \<and> it_relative x = (rel @ name @ lit ''/'') @ n"
      by (rule "3.IH" [OF refl d(1) refl d(2)])
    then show ?thesis by (auto simp del: lit_Cons)
  qed
qed simp_all

text \<open>What the audit of a directory writes about it: the names of its files and of their extensions, and the errors
  of listing it and of reading the files.\<close>

definition audit_texts ::
  "(pystr \<Rightarrow> pystr) \<Rightarrow> (item \<Rightarrow> pystr option) \<Rightarrow> (pystr \<Rightarrow> pystr) \<Rightarrow> pystr \<Rightarrow> folder \<Rightarrow> pystr list" where
  "audit_texts lowered sha256 reason dir f = (case scanned_files lowered dir f of (items, errors) \<Rightarrow>
     errors @ map it_relative items @ map it_ext items @ read_errors reason (snd (checksums sha256 items)))"

lemma scanned_paths:
  assumes "scanned_files lowered dir f = (items, errors)" "x \<in> set items"
  shows "encodable (it_path x) \<Longrightarrow> encodable (it_relative x)"
proof -
  have "x \<in> set (fst (walk lowered (dir @ lit ''/'') [] f))"
    using assms by (auto simp: scanned_files_def simp del: lit_Cons split: prod.splits)
  then obtain n where "it_path x = dir @ lit ''/'' @ n" "it_relative x = n" by (auto dest: walk_paths)
  then show "encodable (it_path x) \<Longrightarrow> encodable (it_relative x)" by simp
qed

lemma read_errors_encodable:
  "list_all encodable (read_errors reason ps) \<longleftrightarrow> (\<forall>p \<in> set ps. encodable p \<and> encodable (reason p))"
  by (auto simp: read_errors_def list_all_iff)

text \<open>Exactly these texts decide whether the three documents can be encoded.\<close>

lemma documents_encodable:
  assumes scan: "scanned_files lowered dir f = (items, errors)" and ck: "checksums sha256 items = (rows, failed)"
    and stamps: "list_all encodable [t1, t2, t3, elapsed]" and hashes: "\<forall>x h. sha256 x = Some h \<longrightarrow> encodable h"
  defines "d \<equiv> duplicates sha256 items"
  shows "json_encodable (inventory_json t1 errors (inventory items))
      \<and> json_encodable (duplicates_json t2 (errors @ read_errors reason (dr_errors d)) d)
      \<and> json_encodable (checksums_json t3 elapsed (errors @ read_errors reason failed) rows)
    \<longleftrightarrow> list_all encodable (audit_texts lowered sha256 reason dir f)" (is "?docs \<longleftrightarrow> ?texts")
proof
  assume docs: ?docs
  have failed: "encodable p \<and> encodable (reason p)" if "p \<in> set failed" for p
    using docs that by (simp add: checksums_encodable read_errors_encodable)
  have "encodable (it_relative x)" if x: "x \<in> set items" for x
  proof (cases "sha256 x")
    case None
    then have "it_path x \<in> set failed" using checksums_rows [OF ck] x by auto
    then show ?thesis using failed scanned_paths [OF scan x] by blast
  next
    case (Some h)
    then show ?thesis using docs checksums_rows [OF ck] x by (auto simp: checksums_encodable)
  qed
  then show ?texts
    using docs failed by (auto simp: audit_texts_def scan ck inventory_encodable read_errors_encodable list_all_iff [of _ "map f xs" for f xs])
next
  assume ?texts
  then have texts: "list_all encodable errors" "\<forall>x \<in> set items. encodable (it_relative x) \<and> encodable (it_ext x)"
    "\<forall>p \<in> set failed. encodable p \<and> encodable (reason p)"
    by (auto simp: audit_texts_def scan ck read_errors_encodable list_all_iff [of _ "map f xs" for f xs])
  have "set (dr_errors d) \<subseteq> set failed" using duplicates_errors checksums_rows [OF ck] unfolding d_def by fastforce
  moreover have "\<forall>(p, n) \<in> set (iv_largest (inventory items)). encodable p"
    using texts(2) by (auto simp: inventory_def Let_def dest!: in_set_takeD)
  moreover have "\<forall>g \<in> set (dr_duplicates d). encodable (dg_sha256 g) \<and> list_all encodable (dg_paths g)"
    using duplicates_texts [of _ sha256 items] texts(2) hashes unfolding d_def list_all_iff by fastforce
  moreover have "\<forall>r \<in> set rows. encodable (ck_path r) \<and> encodable (ck_sha256 r)"
    using checksums_rows [OF ck] texts(2) hashes by auto
  ultimately show ?docs
    using texts stamps by (auto simp: inventory_encodable duplicates_encodable checksums_encodable read_errors_encodable)
qed

section \<open>The commands in a row\<close>

lemma put_lines_then: "andThen (put_lines ls) c s = c (s\<lparr>desk_out := desk_out s @ ls\<rparr>)"
  by (simp add: put_lines_def andThen_modify)

lemma andThen_assoc: "andThen (andThen a b) c = andThen a (andThen b c)"
  by (rule ext) (auto simp: andThen_def chain_def split: prod.split sum.split)

lemma saved_then:
  fixes disk :: "'f disk"
  assumes "writable disk ps" "p \<in> set ps" "json_law lib v"
  obtains g where "\<And>rest :: ('f, unit) tool. andThen (andThen (save lib disk p v) (put_lines ls)) rest s =
      (if json_encodable v then rest (s\<lparr>desk_files := g, desk_out := desk_out s @ ls\<rparr>) else (Inl encode_error, s\<lparr>desk_files := g\<rparr>))"
    "json_encodable v \<Longrightarrow> dk_read disk p g = Inr (py_dumps lib v @ [10])"
    "\<And>q. q \<in> set ps \<Longrightarrow> q \<noteq> p \<Longrightarrow> dk_read disk q g = dk_read disk q (desk_files s)"
proof -
  obtain g where g: "save lib disk p v s = (if json_encodable v then Inr () else Inl encode_error, s\<lparr>desk_files := g\<rparr>)"
    "json_encodable v \<Longrightarrow> dk_read disk p g = Inr (py_dumps lib v @ [10])"
    "\<And>q. q \<in> set ps \<Longrightarrow> q \<noteq> p \<Longrightarrow> dk_read disk q g = dk_read disk q (desk_files s)"
    using save_writes [OF assms] by blast
  have "andThen (andThen (save lib disk p v) (put_lines ls)) rest s =
      (if json_encodable v then rest (s\<lparr>desk_files := g, desk_out := desk_out s @ ls\<rparr>) else (Inl encode_error, s\<lparr>desk_files := g\<rparr>))"
    for rest :: "('f, unit) tool"
    using g(1) unfolding andThen_assoc
    by (auto simp: andThen_Inr [where c = "save lib disk p v"] andThen_Inl [where c = "save lib disk p v"] put_lines_then)
  then show ?thesis using that g(2,3) by blast
qed

lemma csv_encodable:
  "list_all encodable (csv_lines rows) \<longleftrightarrow> (\<forall>r \<in> set rows. encodable (ck_path r) \<and> encodable (ck_sha256 r))"
proof -
  have field: "encodable (csv_field t) \<longleftrightarrow> encodable t" for t
  proof -
    have "encodable (concat (map (\<lambda>c. if c = 34 then [34, 34] else [c]) t)) \<longleftrightarrow> encodable t" by (induction t) auto
    then show ?thesis by (simp add: csv_field_def)
  qed
  have line: "encodable (csv_line [a, b, c, d]) \<longleftrightarrow> encodable a \<and> encodable b \<and> encodable c \<and> encodable d" for a b c d
    by (simp add: csv_line_def field conj_assoc)
  show ?thesis by (auto simp: csv_lines_def line list_all_iff)
qed

text \<open>The summary reads what the other three saved.\<close>

lemma summary_written:
  assumes "writable disk ps" "out \<in> set ps"
    "load_document lib disk p1 s = (Inr iv, s)" "load_document lib disk p2 s = (Inr dv, s)" "load_document lib disk p3 s = (Inr cv, s)"
    "summary_lines lib iv dv cv = Inr ls" "encodable (summary_text ls)"
  shows "\<exists>g. summary_run lib disk p1 p2 p3 out s =
      (Inr (), s\<lparr>desk_files := g, desk_out := desk_out s @ [newlines False (summary_text ls)]\<rparr>)
    \<and> dk_read disk out g = Inr (newlines False (summary_text ls))"
proof -
  obtain g where g: "on_disk (dk_parent disk out) s = (Inr (), s\<lparr>desk_files := g\<rparr>)"
    using writable_parent [OF assms(1,2)] by blast
  obtain h where h: "write_pieces disk out [summary_text ls] (s\<lparr>desk_files := g\<rparr>) =
      (if list_all encodable [summary_text ls] then Inr () else Inl encode_error, s\<lparr>desk_files := g\<rparr>\<lparr>desk_files := h\<rparr>)"
    "list_all encodable [summary_text ls] \<Longrightarrow> dk_read disk out h = Inr (newlines False (concat [summary_text ls]))"
    using writable_pieces [OF assms(1,2)] by blast
  have w: "write_text disk out (summary_text ls) (s\<lparr>desk_files := g\<rparr>) = (Inr (), s\<lparr>desk_files := h\<rparr>)"
    "dk_read disk out h = Inr (newlines False (summary_text ls))"
    using h assms(7) by (simp_all add: write_text_def)
  show ?thesis
    using assms(3-6) g w
    by (intro exI [of _ h]) (simp add: summary_run_def chain_def andThen_def of_result_def from_disk_def put_lines_def modify_def)
qed

lemma pad_left_encodable [simp]: "encodable (pad_left n t) \<longleftrightarrow> encodable t"
proof -
  have "encodable (replicate k 32)" for k by (induction k) auto
  then show ?thesis by (simp add: pad_left_def)
qed

lemma encodable_joined: "encodable sep \<Longrightarrow> list_all encodable ts \<Longrightarrow> encodable (join_with sep ts)"
  by (induction sep ts rule: join_with.induct) auto

lemma checksums_then:
  fixes disk :: "'f disk"
  assumes "writable disk ps" "p \<in> set ps" "csv \<in> set ps" "p \<noteq> csv" "json_law lib v"
    "json_encodable v \<Longrightarrow> list_all encodable ts"
  obtains g where "\<And>rest :: ('f, unit) tool. andThen (andThen (put_lines progress) (andThen (save lib disk p v) (andThen (on_disk (dk_parent disk csv))
      (andThen (write_pieces disk csv ts) (put_lines ls))))) rest s =
      (if json_encodable v then rest (s\<lparr>desk_files := g, desk_out := desk_out s @ progress @ ls\<rparr>)
       else (Inl encode_error, s\<lparr>desk_files := g, desk_out := desk_out s @ progress\<rparr>))"
    "json_encodable v \<Longrightarrow> dk_read disk p g = Inr (py_dumps lib v @ [10])"
    "\<And>q. q \<in> set ps \<Longrightarrow> q \<noteq> p \<Longrightarrow> q \<noteq> csv \<Longrightarrow> dk_read disk q g = dk_read disk q (desk_files s)"
proof -
  define s1 where "s1 = s\<lparr>desk_out := desk_out s @ progress\<rparr>"
  obtain g where g: "save lib disk p v s1 = (if json_encodable v then Inr () else Inl encode_error, s1\<lparr>desk_files := g\<rparr>)"
    "json_encodable v \<Longrightarrow> dk_read disk p g = Inr (py_dumps lib v @ [10])"
    "\<And>q. q \<in> set ps \<Longrightarrow> q \<noteq> p \<Longrightarrow> dk_read disk q g = dk_read disk q (desk_files s1)"
    using save_writes [OF assms(1,2,5)] by blast
  obtain h where h: "on_disk (dk_parent disk csv) (s1\<lparr>desk_files := g\<rparr>) = (Inr (), s1\<lparr>desk_files := h\<rparr>)"
    "\<And>q. q \<in> set ps \<Longrightarrow> dk_read disk q h = dk_read disk q g"
    using writable_parent [OF assms(1,3), of "s1\<lparr>desk_files := g\<rparr>"] by auto
  obtain k where k: "write_pieces disk csv ts (s1\<lparr>desk_files := h\<rparr>) =
      (if list_all encodable ts then Inr () else Inl encode_error, s1\<lparr>desk_files := k\<rparr>)"
    "\<And>q. q \<in> set ps \<Longrightarrow> q \<noteq> csv \<Longrightarrow> dk_read disk q k = dk_read disk q h"
    using writable_pieces [OF assms(1,3), of ts "s1\<lparr>desk_files := h\<rparr>"] by auto
  show ?thesis
  proof (cases "json_encodable v")
    case True
    then show ?thesis
      using that [of k] g h k assms(2,4,6)
      by (simp add: andThen_assoc put_lines_then s1_def [symmetric] andThen_Inr [where c = "save lib disk p v"]
          andThen_Inr [where c = "on_disk c" for c] andThen_Inr [where c = "write_pieces disk csv ts"]) (simp add: s1_def)
  next
    case False
    then show ?thesis
      using that [of g] g
      by (simp add: andThen_assoc put_lines_then s1_def [symmetric] andThen_Inl [where c = "save lib disk p v"]) (simp add: s1_def)
  qed
qed

definition audit_lines :: "item list \<Rightarrow> duplicates_report \<Rightarrow> pystr list \<Rightarrow> pystr list" where
  "audit_lines items d failed =
     [lit ''HelixGrid File Audit'', lit ''===================='',
      lit ''Files scanned: '' @ show_int (int (length items)),
      lit ''Total size: '' @ human (sum_list (map it_size items)),
      lit ''Checksum records: '' @ show_int (int (length items) - int (length failed)),
      lit ''Duplicate groups: '' @ show_int (dr_groups d),
      lit ''Potential space in duplicates: '' @ human (dr_reclaimable d), [], lit ''Largest files:'']
     @ map largest_text (take 20 (iv_largest (inventory items))) @ [[], lit ''Largest duplicate groups:'']
     @ map group_text (take 20 (dr_duplicates d))"

lemma audit_lines_summary:
  assumes "checksums sha256 items = (rows, failed)"
  shows "summary_lines lib (inventory_json t1 e1 (inventory items)) (duplicates_json t2 e2 (duplicates sha256 items))
      (checksums_json t3 elapsed e3 rows) = Inr (audit_lines items (duplicates sha256 items) failed)"
proof -
  have "int (length rows) = int (length items) - int (length failed)" using checksums_lengths [OF assms] by simp
  moreover have "iv_file_count (inventory items) = int (length items)" "iv_total_bytes (inventory items) = sum_list (map it_size items)"
    by (simp_all add: inventory_def Let_def)
  ultimately show ?thesis
    by (subst summary_of_reports [OF duplicates_have_paths]) (simp_all add: audit_lines_def del: lit_Cons)
qed

lemma audit_lines_encodable:
  assumes "\<forall>x \<in> set items. encodable (it_relative x)"
  shows "encodable (summary_text (audit_lines items (duplicates sha256 items) failed))"
proof -
  have "encodable (largest_text x)" if "x \<in> set (take 20 (iv_largest (inventory items)))" for x
    using that assms by (auto simp: largest_text_def inventory_def Let_def split: prod.splits dest!: in_set_takeD)
  moreover have "encodable (group_text g)" if "g \<in> set (take 20 (dr_duplicates (duplicates sha256 items)))" for g
  proof -
    have g: "g \<in> set (dr_duplicates (duplicates sha256 items))" using that by (rule in_set_takeD)
    have "hd (dg_paths g) \<in> it_relative ` set items" using duplicates_texts [OF g] duplicates_have_paths [OF g] hd_in_set by blast
    then show ?thesis using assms by (auto simp: group_text_def)
  qed
  ultimately have "list_all encodable (audit_lines items (duplicates sha256 items) failed)"
    by (auto simp: audit_lines_def list_all_iff)
  then show ?thesis unfolding summary_text_def by (simp add: encodable_joined)
qed

lemma commands_in_a_row:
  fixes s :: "'f desk" and ls1 ls2 ls3 progress :: "pystr list"
  assumes disk: "writable disk [f1, f2, f3, csv, out]" and laws: "json_law lib iv" "json_law lib dv" "json_law lib cv"
    and csv: "json_encodable cv \<Longrightarrow> list_all encodable ts" and ls: "summary_lines lib iv dv cv = Inr ls"
    and shown: "json_encodable iv \<and> json_encodable dv \<and> json_encodable cv \<Longrightarrow> encodable (summary_text ls)"
  defines "r \<equiv> andThen (andThen (save lib disk f1 iv) (put_lines ls1)) (andThen (andThen (save lib disk f2 dv) (put_lines ls2))
      (andThen (andThen (put_lines progress) (andThen (save lib disk f3 cv) (andThen (on_disk (dk_parent disk csv))
        (andThen (write_pieces disk csv ts) (put_lines ls3))))) (summary_run lib disk f1 f2 f3 out))) s"
  shows "if json_encodable iv \<and> json_encodable dv \<and> json_encodable cv
    then fst r = Inr () \<and> dk_read disk out (desk_files (snd r)) = Inr (newlines False (summary_text ls))
      \<and> desk_out (snd r) = desk_out s @ ls1 @ ls2 @ progress @ ls3 @ [newlines False (summary_text ls)]
    else fst r = Inl encode_error"
proof -
  let ?ps = "[f1, f2, f3, csv, out]"
  have apart: "distinct ?ps" using disk unfolding writable_def by blast
  obtain g1 where g1: "\<And>rest :: ('f, unit) tool. andThen (andThen (save lib disk f1 iv) (put_lines ls1)) rest s =
      (if json_encodable iv then rest (s\<lparr>desk_files := g1, desk_out := desk_out s @ ls1\<rparr>) else (Inl encode_error, s\<lparr>desk_files := g1\<rparr>))"
    "json_encodable iv \<Longrightarrow> dk_read disk f1 g1 = Inr (py_dumps lib iv @ [10])"
    "\<And>q. q \<in> set ?ps \<Longrightarrow> q \<noteq> f1 \<Longrightarrow> dk_read disk q g1 = dk_read disk q (desk_files s)"
    by (rule saved_then [OF disk _ laws(1), of f1 ls1 s]) simp_all
  define s1 where "s1 = s\<lparr>desk_files := g1, desk_out := desk_out s @ ls1\<rparr>"
  obtain g2 where g2: "\<And>rest :: ('f, unit) tool. andThen (andThen (save lib disk f2 dv) (put_lines ls2)) rest s1 =
      (if json_encodable dv then rest (s1\<lparr>desk_files := g2, desk_out := desk_out s1 @ ls2\<rparr>) else (Inl encode_error, s1\<lparr>desk_files := g2\<rparr>))"
    "json_encodable dv \<Longrightarrow> dk_read disk f2 g2 = Inr (py_dumps lib dv @ [10])"
    "\<And>q. q \<in> set ?ps \<Longrightarrow> q \<noteq> f2 \<Longrightarrow> dk_read disk q g2 = dk_read disk q (desk_files s1)"
    by (rule saved_then [OF disk _ laws(2), of f2 ls2 s1]) simp_all
  define s2 where "s2 = s1\<lparr>desk_files := g2, desk_out := desk_out s1 @ ls2\<rparr>"
  obtain g3 where g3: "\<And>rest :: ('f, unit) tool. andThen (andThen (put_lines progress) (andThen (save lib disk f3 cv) (andThen (on_disk (dk_parent disk csv))
      (andThen (write_pieces disk csv ts) (put_lines ls3))))) rest s2 =
      (if json_encodable cv then rest (s2\<lparr>desk_files := g3, desk_out := desk_out s2 @ progress @ ls3\<rparr>)
       else (Inl encode_error, s2\<lparr>desk_files := g3, desk_out := desk_out s2 @ progress\<rparr>))"
    "json_encodable cv \<Longrightarrow> dk_read disk f3 g3 = Inr (py_dumps lib cv @ [10])"
    "\<And>q. q \<in> set ?ps \<Longrightarrow> q \<noteq> f3 \<Longrightarrow> q \<noteq> csv \<Longrightarrow> dk_read disk q g3 = dk_read disk q (desk_files s2)"
    by (rule checksums_then [OF disk _ _ _ laws(3) csv, where p = f3 and csv = csv and progress = progress and ls = ls3 and s = s2]) (use apart in simp_all)
  define s3 where "s3 = s2\<lparr>desk_files := g3, desk_out := desk_out s2 @ progress @ ls3\<rparr>"
  show ?thesis
  proof (cases "json_encodable iv \<and> json_encodable dv \<and> json_encodable cv")
    case True
    have "dk_read disk f1 g3 = Inr (py_dumps lib iv @ [10])" "dk_read disk f2 g3 = Inr (py_dumps lib dv @ [10])"
      "dk_read disk f3 g3 = Inr (py_dumps lib cv @ [10])"
      using True apart g1(2) g2(2,3) g3(2,3) by (simp_all add: s1_def s2_def)
    then have "load_document lib disk f1 s3 = (Inr iv, s3)" "load_document lib disk f2 s3 = (Inr dv, s3)"
      "load_document lib disk f3 s3 = (Inr cv, s3)"
      using laws by (simp_all add: load_saved s3_def)
    then obtain g4 where g4: "summary_run lib disk f1 f2 f3 out s3 =
        (Inr (), s3\<lparr>desk_files := g4, desk_out := desk_out s3 @ [newlines False (summary_text ls)]\<rparr>)"
      "dk_read disk out g4 = Inr (newlines False (summary_text ls))"
      using summary_written [OF disk _ _ _ _ ls shown [OF True], of out f1 s3 f2 f3] by auto
    have "r = summary_run lib disk f1 f2 f3 out s3"
      unfolding r_def g1(1) s1_def [symmetric] using True by (simp add: g2(1) s2_def [symmetric] g3(1) s3_def [symmetric])
    then show ?thesis using True g4 by (simp add: s3_def s2_def s1_def)
  next
    case False
    have "fst r = Inl encode_error"
      unfolding r_def g1(1) s1_def [symmetric] using False by (simp add: g2(1) s2_def [symmetric] g3(1) s3_def [symmetric])
    then show ?thesis using False by auto
  qed
qed

text \<open>C40: The file audit (\<open>examples/windows-file-audit.json\<close>: inventory, duplicates, checksums, then the summary of what
  they saved) of a directory that does not change meanwhile, on a disk where every file can be written. It
  ends without an error exactly if UTF-8 can encode everything it writes about the directory: the names and
  the extensions of the scanned files, and the errors of listing it and of reading the files; otherwise it
  ends with \<open>UnicodeEncodeError\<close>. Without an error, it printed its lines, and the file of the summary shows the
  number and the size of the scanned files, how many of them have a checksum, the groups of duplicates and
  what they waste, and at most twenty of the largest files and of the groups that waste most. No scanned file
  gets lost: it has a checksum record or an error.\<close>

theorem audit_summary:
  assumes disk: "writable disk [f1, f2, f3, csv, out]"
    and scan: "scanned_files lowered dir f = (items, errors)" and ck: "checksums sha256 items = (rows, failed)"
    and json: "json_law lib (inventory_json t1 errors (inventory items))"
      "json_law lib (duplicates_json t2 (errors @ read_errors reason (dr_errors (duplicates sha256 items))) (duplicates sha256 items))"
      "json_law lib (checksums_json t3 elapsed (errors @ read_errors reason failed) rows)"
    and stamps: "list_all encodable [t1, t2, t3, elapsed]" and hashes: "\<forall>x h. sha256 x = Some h \<longrightarrow> encodable h"
  shows "let d = duplicates sha256 items;
      shown = newlines False (summary_text (audit_lines items d failed));
      (r, t) = andThen (inventory_run lib disk lowered t1 dir f f1)
        (andThen (duplicates_run lib disk lowered sha256 reason t2 dir f f2)
        (andThen (checksums_run lib disk lowered sha256 reason t3 elapsed dir f f3 csv)
        (summary_run lib disk f1 f2 f3 out))) s
    in if list_all encodable (audit_texts lowered sha256 reason dir f)
       then r = Inr () \<and> dk_read disk out (desk_files t) = Inr shown
         \<and> desk_out t = desk_out s
           @ [lit ''inventory: '' @ show_int (int (length items)) @ lit '' files, '' @ human (sum_list (map it_size items)),
              lit ''duplicates: '' @ show_int (dr_groups d) @ lit '' groups, '' @ human (dr_reclaimable d) @ lit '' reclaimable'']
           @ progress_lines ''checksums'' (length items)
           @ [lit ''checksums: '' @ show_int (int (length items) - int (length failed)) @ lit '' files'', shown]
       else r = Inl encode_error"
proof -
  define d where "d = duplicates sha256 items"
  define iv where "iv = inventory_json t1 errors (inventory items)"
  define dv where "dv = duplicates_json t2 (errors @ read_errors reason (dr_errors d)) d"
  define cv where "cv = checksums_json t3 elapsed (errors @ read_errors reason failed) rows"
  have laws: "json_law lib iv" "json_law lib dv" "json_law lib cv" using json unfolding iv_def dv_def cv_def d_def by blast+
  have texts: "json_encodable iv \<and> json_encodable dv \<and> json_encodable cv \<longleftrightarrow> list_all encodable (audit_texts lowered sha256 reason dir f)"
    unfolding iv_def dv_def cv_def d_def by (rule documents_encodable [OF scan ck stamps hashes])
  have csv: "json_encodable cv \<Longrightarrow> list_all encodable (csv_lines rows)" by (simp add: csv_encodable cv_def checksums_encodable)
  have summary: "summary_lines lib iv dv cv = Inr (audit_lines items d failed)"
    unfolding iv_def dv_def cv_def d_def by (rule audit_lines_summary [OF ck])
  have shown: "encodable (summary_text (audit_lines items d failed))" if "list_all encodable (audit_texts lowered sha256 reason dir f)"
    unfolding d_def using that by (intro audit_lines_encodable) (auto simp: audit_texts_def scan list_all_iff)
  have rows: "int (length rows) = int (length items) - int (length failed)" using checksums_lengths [OF ck] by simp
  have bytes: "iv_total_bytes (inventory items) = sum_list (map it_size items)" by (simp add: inventory_def Let_def)
  show ?thesis
    using commands_in_a_row [OF disk laws csv summary shown, unfolded texts,
        of "[lit ''inventory: '' @ show_int (int (length items)) @ lit '' files, '' @ human (sum_list (map it_size items))]"
          "[lit ''duplicates: '' @ show_int (dr_groups d) @ lit '' groups, '' @ human (dr_reclaimable d) @ lit '' reclaimable'']"
          "progress_lines ''checksums'' (length items)"
          "[lit ''checksums: '' @ show_int (int (length items) - int (length failed)) @ lit '' files'']" s]
    by (simp add: inventory_run_def duplicates_run_def checksums_run_def scan ck Let_def d_def [symmetric] iv_def [symmetric]
        dv_def [symmetric] cv_def [symmetric] rows bytes split_beta del: lit_Cons)
qed

section \<open>A run\<close>

text \<open>A directory with two copies of a file.\<close>

definition two_files :: folder where
  "two_files = Folder [(lit ''a'', Regular 3 0), (lit ''b.txt'', Regular 3 0)] []"

definition two_items :: "item list" where
  "two_items = fst (scanned_files id (lit ''d'') two_files)"

definition same_hash :: "item \<Rightarrow> pystr option" where
  "same_hash x = Some (lit ''h'')"

definition two_documents :: "json \<times> json \<times> json" where
  "two_documents = (inventory_json [] [] (inventory two_items), duplicates_json [] [] (duplicates same_hash two_items),
     checksums_json [] [] [] (fst (checksums same_hash two_items)))"

definition two_lib :: py_lib where
  "two_lib = \<lparr>py_loads = (\<lambda>t. case two_documents of (iv, dv, cv) \<Rightarrow>
       Some (if take 1 t = lit ''i'' then iv else if take 1 t = lit ''d'' then dv else cv)),
     py_dumps = (\<lambda>v. case two_documents of (iv, dv, cv) \<Rightarrow> if v = iv then lit ''i'' else if v = dv then lit ''d'' else lit ''c''),
     py_str = (\<lambda>v. []), py_int_text = (\<lambda>t. None), py_int_float = (\<lambda>t. Inl Type_error), py_float_zero = (\<lambda>t. False),
     py_message = (\<lambda>e. [])\<rparr>"

definition plain_disk :: "(pystr \<Rightarrow> pystr) disk" where
  "plain_disk = \<lparr>dk_parent = (\<lambda>p. ret ()), dk_write = (\<lambda>p t. modify (\<lambda>f. f(p := newlines False t))), dk_read = (\<lambda>p f. Inr (f p)),
     dk_open_tar = (\<lambda>p. ret ()), dk_add_tar = (\<lambda>p a b. ret ()), dk_close_tar = (\<lambda>p. ret ()), dk_size = (\<lambda>p f. Inr 0),
     dk_sha256 = (\<lambda>p f. Inr [])\<rparr>"

definition two_audit :: "(py_error + unit) \<times> (pystr \<Rightarrow> pystr) desk" where
  "two_audit = andThen (inventory_run two_lib plain_disk id [] (lit ''d'') two_files (lit ''1''))
     (andThen (duplicates_run two_lib plain_disk id same_hash id [] (lit ''d'') two_files (lit ''2''))
     (andThen (checksums_run two_lib plain_disk id same_hash id [] [] (lit ''d'') two_files (lit ''3'') (lit ''4''))
     (summary_run two_lib plain_disk (lit ''1'') (lit ''2'') (lit ''3'') (lit ''5''))))
     \<lparr>desk_files = (\<lambda>p. []), desk_out = []\<rparr>"

lemma plain_disk_writable: "distinct ps \<Longrightarrow> writable plain_disk ps"
  by (simp add: writable_def plain_disk_def proc_simps)

lemma two_laws:
  "json_law two_lib (fst two_documents)" "json_law two_lib (fst (snd two_documents))" "json_law two_lib (snd (snd two_documents))"
  unfolding json_law_def reads_back_def by code_simp+

theorem audit_summary_witness:
  "fst two_audit = Inr () \<and> dk_read plain_disk (lit ''5'') (desk_files (snd two_audit)) =
     Inr (summary_text (audit_lines two_items (duplicates same_hash two_items) []))"
proof -
  have scan: "scanned_files id (lit ''d'') two_files = (two_items, [])" by code_simp
  have ck: "checksums same_hash two_items = (fst (checksums same_hash two_items), [])" by code_simp
  have laws: "json_law two_lib (inventory_json [] [] (inventory two_items))"
    "json_law two_lib (duplicates_json [] ([] @ read_errors id (dr_errors (duplicates same_hash two_items))) (duplicates same_hash two_items))"
    "json_law two_lib (checksums_json [] [] ([] @ read_errors id []) (fst (checksums same_hash two_items)))"
  proof -
    have "dr_errors (duplicates same_hash two_items) = []" by code_simp
    then show "json_law two_lib (duplicates_json [] ([] @ read_errors id (dr_errors (duplicates same_hash two_items))) (duplicates same_hash two_items))"
      using two_laws(2) by (simp add: two_documents_def read_errors_def)
  qed (use two_laws(1,3) in \<open>simp_all add: two_documents_def read_errors_def\<close>)
  have disk: "writable plain_disk [lit ''1'', lit ''2'', lit ''3'', lit ''4'', lit ''5'']" by (rule plain_disk_writable) simp
  have texts: "list_all encodable (audit_texts id same_hash id (lit ''d'') two_files)" by code_simp
  have plain: "newlines False (summary_text (audit_lines two_items (duplicates same_hash two_items) []))
      = summary_text (audit_lines two_items (duplicates same_hash two_items) [])" by code_simp
  have hash: "encodable (lit ''h'')" by simp
  show ?thesis
    using audit_summary [OF disk scan ck laws, of "\<lparr>desk_files = (\<lambda>p. []), desk_out = []\<rparr>"] texts hash
    unfolding two_audit_def [symmetric] by (simp add: Let_def split_beta plain same_hash_def del: lit_Cons)
qed

end
