(* ===== verification/Sdk_Cli.thy ===== *)
theory Sdk_Cli
  imports Sdk_Client Py_Json
begin

text \<open>
  The command line of the client library (\<open>sdk/python/src/helixgrid/cli.py\<close>), with \<open>load_workflow_file\<close>,
  \<open>summarize_workflow\<close> and the request of \<open>iter_events\<close> from \<open>client.py\<close>. Its input is a parsed command:
  \<open>argparse\<close> is a library. Every \<open>print\<close> is kept as one text; that printing itself fails is left out. The
  network, the file that is read, the stream of events and the \<open>json\<close> module are parameters.
\<close>

section \<open>The state and the errors\<close>

datatype cli_error = Api api_error | Py py_error | Interrupted

text \<open>
  A request for the stream of events is answered by a stream, an error status with its body, or an
  exception. The coordinator keeps the stream open for as long as the client reads, so the next line comes
  when it is asked for: a line with its errors replaced, the end when the coordinator closed, an exception
  of the connection, or the interruption that ends most watches.
\<close>

datatype stream_answer = Opened | Stream_status int pystr | Stream_failed pystr | Stream_broken wire_error

datatype line_answer = Line pystr | Closed | Line_failed wire_error | Keyboard

record 's cli_env =
  ce_py :: py_lib
  ce_json :: json_lib
  ce_net :: "'s network"
  ce_file :: "pystr \<Rightarrow> 's \<Rightarrow> py_error + json"
  ce_stream :: "request \<Rightarrow> 's \<Rightarrow> stream_answer \<times> 's"
  ce_line :: "'s \<Rightarrow> line_answer \<times> 's"
  ce_pretty :: "json \<Rightarrow> pystr"
  ce_dump_event :: "sse_event \<Rightarrow> pystr"
  ce_repr_event :: "sse_event \<Rightarrow> pystr"
  ce_lower :: "pystr \<Rightarrow> pystr"
  ce_sorted :: "json list \<Rightarrow> py_error + json list"
  ce_urlparse :: "pystr \<Rightarrow> pystr \<times> pystr"
  ce_message :: "cli_error \<Rightarrow> pystr"
  ce_fuel :: nat

record 's cli =
  cli_net :: 's
  cli_out :: "pystr list"
  cli_err :: "pystr list"

type_synonym ('s, 'a) cmd = "('s cli, cli_error, 'a) run"

definition cli_call :: "('s, api_error, 'a) proc \<Rightarrow> ('s, 'a) cmd" where
  "cli_call c s = (case c (cli_net s) of
     (Inl e, n) \<Rightarrow> Some (Inl (Api e), s\<lparr>cli_net := n\<rparr>) | (Inr x, n) \<Rightarrow> Some (Inr x, s\<lparr>cli_net := n\<rparr>))"

definition cli_wait :: "('s \<Rightarrow> ((api_error + json) \<times> 's) option) \<Rightarrow> ('s, json) cmd" where
  "cli_wait c s = (case c (cli_net s) of
     None \<Rightarrow> None
   | Some (Inl e, n) \<Rightarrow> Some (Inl (Api e), s\<lparr>cli_net := n\<rparr>)
   | Some (Inr x, n) \<Rightarrow> Some (Inr x, s\<lparr>cli_net := n\<rparr>))"

definition of_py :: "py_error + 'a \<Rightarrow> ('s, 'a) cmd" where
  "of_py r = (case r of Inl e \<Rightarrow> run_raise (Py e) | Inr x \<Rightarrow> run_ret x)"

definition say :: "pystr \<Rightarrow> ('s, unit) cmd" where
  "say t s = Some (Inr (), s\<lparr>cli_out := cli_out s @ [t]\<rparr>)"

fun run_each :: "'a list \<Rightarrow> ('a \<Rightarrow> ('s, unit) cmd) \<Rightarrow> ('s, unit) cmd" where
  "run_each [] f = run_ret ()"
| "run_each (x # xs) f = run_then (f x) (\<lambda>_. run_each xs f)"

section \<open>Dictionaries and summaries\<close>

text \<open>\<open>value.get(key, default)\<close> with any key.\<close>

definition get_any :: "json \<Rightarrow> json \<Rightarrow> json \<Rightarrow> py_error + json" where
  "get_any k fallback v = (case v of
     JDict d \<Rightarrow> (case k of
         JStr s \<Rightarrow> Inr (case map_of d s of None \<Rightarrow> fallback | Some x \<Rightarrow> x)
       | JList _ \<Rightarrow> Inl Type_error | JDict _ \<Rightarrow> Inl Type_error | _ \<Rightarrow> Inr fallback)
   | _ \<Rightarrow> Inl Attribute_error)"

definition add_count :: "py_lib \<Rightarrow> json \<Rightarrow> (pystr, int) dict \<Rightarrow> (pystr, int) dict" where
  "add_count lib v counts = (case v of
     JDict d \<Rightarrow> (let state = str_of lib (case map_of d (lit ''state'') of None \<Rightarrow> JStr (lit ''UNKNOWN'') | Some x \<Rightarrow> x)
       in dput state ((case dget counts state of None \<Rightarrow> 0 | Some n \<Rightarrow> n) + 1) counts)
   | _ \<Rightarrow> counts)"

definition summary_counts :: "py_lib \<Rightarrow> json \<Rightarrow> (pystr, int) dict" where
  "summary_counts lib runtime = (case runtime of JDict d \<Rightarrow> fold (add_count lib) (map snd d) [] | _ \<Rightarrow> [])"

definition task_summary :: "(pystr \<Rightarrow> pystr) \<Rightarrow> (pystr, int) dict \<Rightarrow> pystr" where
  "task_summary lowered counts = join_with (lit '', '')
     (map (\<lambda>k. lowered k @ lit ''='' @ show_int (the (dget counts k))) (sort (dkeys counts)))"

definition summarize_workflow :: "py_lib \<Rightarrow> (pystr \<Rightarrow> pystr) \<Rightarrow> json \<Rightarrow> py_error + pystr" where
  "summarize_workflow lib lowered w =
     bind_result (get_or ''runtime'' JNull w) (\<lambda>runtime.
     bind_result (get_or ''id'' (JStr (lit ''?'')) w) (\<lambda>i.
     bind_result (get_or ''state'' (JStr (lit ''?'')) w) (\<lambda>state.
     bind_result (format_value lib Natural 10 state) (\<lambda>state_text.
     bind_result (get_or ''name'' (JStr (lit ''?'')) w) (\<lambda>name.
       Inr (str_of lib i @ lit ''  '' @ state_text @ lit ''  '' @ str_of lib name @ lit ''  '' @
         task_summary lowered (summary_counts lib (or_else lib runtime (JDict []))))))))) "

definition sorted_keys :: "'s cli_env \<Rightarrow> json \<Rightarrow> py_error + json" where
  "sorted_keys env v = (case v of
     JDict d \<Rightarrow> Inr (JList (map JStr (sort (map fst d))))
   | JStr s \<Rightarrow> Inr (JList (map (\<lambda>c. JStr [c]) (sort s)))
   | JList xs \<Rightarrow> map_sum id JList (ce_sorted env xs)
   | _ \<Rightarrow> Inl Type_error)"

definition task_line :: "py_lib \<Rightarrow> json \<Rightarrow> json \<Rightarrow> json \<Rightarrow> py_error + pystr" where
  "task_line lib runtime tasks task_id =
     bind_result (get_any task_id (JDict []) runtime) (\<lambda>r.
     bind_result (get_or ''state'' (JStr (lit ''?'')) r) (\<lambda>state.
     bind_result (get_or ''attempt'' (JInt 0) r) (\<lambda>attempt.
     bind_result (get_any task_id (JDict []) tasks) (\<lambda>t.
     bind_result (get_or ''command'' (JList []) t) (\<lambda>command.
     bind_result (format_value lib Natural 24 task_id) (\<lambda>id_text.
     bind_result (format_value lib Natural 12 state) (\<lambda>state_text.
     bind_result (format_value lib Leftwards 3 attempt) (\<lambda>attempt_text.
     bind_result (iter_of command) (\<lambda>parts.
       Inr (lit ''  '' @ id_text @ lit '' '' @ state_text @ lit '' attempt='' @ attempt_text @ lit '' '' @
         join_with (lit '' '') (map (str_of lib) parts)))))))))))"

definition print_workflow :: "'s cli_env \<Rightarrow> bool \<Rightarrow> json \<Rightarrow> ('s, unit) cmd" where
  "print_workflow env detailed w =
     run_then (of_py (summarize_workflow (ce_py env) (ce_lower env) w)) (\<lambda>line.
     run_then (say line) (\<lambda>_.
       if \<not> detailed then run_ret ()
       else run_then (say []) (\<lambda>_.
         run_then (of_py (get_or ''runtime'' JNull w)) (\<lambda>r.
         run_then (of_py (get_or ''tasks'' JNull w)) (\<lambda>t.
         run_then (of_py (get_or ''order'' JNull w)) (\<lambda>order.
           let runtime = or_else (ce_py env) r (JDict []); tasks = or_else (ce_py env) t (JDict [])
           in run_then (of_py (if truthy (ce_py env) order then Inr order else sorted_keys env runtime)) (\<lambda>ids.
              run_then (of_py (iter_of ids)) (\<lambda>xs.
                run_each xs (\<lambda>x. run_then (of_py (task_line (ce_py env) runtime tasks x)) say)))))))))"

definition print_json :: "'s cli_env \<Rightarrow> json \<Rightarrow> ('s, unit) cmd" where
  "print_json env v = say (ce_pretty env v)"

section \<open>The commands\<close>

datatype cli_command =
  Submit pystr "pystr option" bool | List_all | Get pystr | Watch pystr "int option" | Wait_for pystr "rat option"
  | Cancel_one pystr | Workers

definition show_result :: "'s cli_env \<Rightarrow> bool \<Rightarrow> json \<Rightarrow> ('s, unit) cmd" where
  "show_result env json_output w = (if json_output then print_json env w else print_workflow env True w)"

definition load_workflow_file :: "'s cli_env \<Rightarrow> pystr \<Rightarrow> ('s, (pystr \<times> json) list) cmd" where
  "load_workflow_file env path s = of_py (case ce_file env path (cli_net s) of
     Inl e \<Rightarrow> Inl e
   | Inr (JDict d) \<Rightarrow> Inr d
   | Inr _ \<Rightarrow> Inl (Value_error (lit ''workflow file must contain a JSON object''))) s"

text \<open>\<open>client.wait(i)\<close>; an id that is no text is refused when it is quoted.\<close>

definition wait_for :: "'s cli_env \<Rightarrow> helix_client \<Rightarrow> json \<Rightarrow> rat option \<Rightarrow> ('s, json) cmd" where
  "wait_for env c i timeout = (case i of
     JStr w \<Rightarrow> cli_wait (wait (ce_json env) (ce_net env) c w (1/2) timeout (ce_fuel env))
   | _ \<Rightarrow> run_raise (Py Type_error))"

definition exit_of_state :: "json \<Rightarrow> ('s, int) cmd" where
  "exit_of_state w = run_then (of_py (get_or ''state'' JNull w)) (\<lambda>state.
     run_ret (if state = JStr (lit ''SUCCEEDED'') then 0 else 2))"

definition command_submit :: "'s cli_env \<Rightarrow> helix_client \<Rightarrow> bool \<Rightarrow> pystr \<Rightarrow> pystr option \<Rightarrow> bool \<Rightarrow> ('s, int) cmd" where
  "command_submit env c json_output path key waiting =
     run_then (load_workflow_file env path) (\<lambda>payload.
     run_then (cli_call (submit_workflow (ce_json env) (ce_net env) c (Inr payload) key)) (\<lambda>submitted.
     run_then (if waiting then run_then (of_py (subscript ''id'' submitted)) (\<lambda>i. wait_for env c i None)
               else run_ret submitted) (\<lambda>w.
     run_then (show_result env json_output w) (\<lambda>_.
       if waiting then exit_of_state w else run_ret 0))))"

definition command_list :: "'s cli_env \<Rightarrow> helix_client \<Rightarrow> bool \<Rightarrow> ('s, int) cmd" where
  "command_list env c json_output =
     run_then (cli_call (list_workflows (ce_json env) (ce_net env) c)) (\<lambda>v.
     run_then (if json_output then print_json env v
               else if \<not> truthy (ce_py env) v then say (lit ''No workflows.'')
               else run_then (of_py (iter_of v)) (\<lambda>xs. run_each xs (print_workflow env False))) (\<lambda>_.
     run_ret 0))"

definition command_get :: "'s cli_env \<Rightarrow> helix_client \<Rightarrow> bool \<Rightarrow> pystr \<Rightarrow> ('s, int) cmd" where
  "command_get env c json_output w =
     run_then (cli_call (get_workflow (ce_json env) (ce_net env) c w)) (\<lambda>v.
     run_then (show_result env json_output v) (\<lambda>_. run_ret 0))"

definition command_cancel :: "'s cli_env \<Rightarrow> helix_client \<Rightarrow> bool \<Rightarrow> pystr \<Rightarrow> ('s, int) cmd" where
  "command_cancel env c json_output w =
     run_then (cli_call (client_cancel (ce_json env) (ce_net env) c w)) (\<lambda>v.
     run_then (show_result env json_output v) (\<lambda>_. run_ret 0))"

definition command_wait :: "'s cli_env \<Rightarrow> helix_client \<Rightarrow> bool \<Rightarrow> pystr \<Rightarrow> rat option \<Rightarrow> ('s, int) cmd" where
  "command_wait env c json_output w timeout =
     run_then (wait_for env c (JStr w) timeout) (\<lambda>v.
     run_then (show_result env json_output v) (\<lambda>_. exit_of_state v))"

definition worker_line :: "py_lib \<Rightarrow> json \<Rightarrow> py_error + pystr" where
  "worker_line lib worker =
     bind_result (get_or ''labels'' JNull worker) (\<lambda>l.
     bind_result (case or_else lib l (JDict []) of JDict d \<Rightarrow> Inr d | _ \<Rightarrow> Inl Attribute_error) (\<lambda>d.
     bind_result (get_or ''id'' (JStr (lit ''?'')) worker) (\<lambda>i.
     bind_result (get_or ''name'' (JStr (lit ''?'')) worker) (\<lambda>name.
     bind_result (format_value lib Natural 20 name) (\<lambda>name_text.
     bind_result (get_or ''active_leases'' (JInt 0) worker) (\<lambda>active.
     bind_result (get_or ''capacity'' (JStr (lit ''?'')) worker) (\<lambda>capacity.
       Inr (str_of lib i @ lit ''  '' @ name_text @ lit '' slots='' @ str_of lib active @ lit ''/'' @ str_of lib capacity
         @ lit ''  '' @ join_with (lit '','') (map (\<lambda>(k, v). k @ lit ''='' @ str_of lib v) (sort_key fst d))))))))))"

definition command_workers :: "'s cli_env \<Rightarrow> helix_client \<Rightarrow> bool \<Rightarrow> ('s, int) cmd" where
  "command_workers env c json_output =
     run_then (cli_call (list_workers (ce_json env) (ce_net env) c)) (\<lambda>v.
     run_then (if json_output then print_json env v
               else if \<not> truthy (ce_py env) v then say (lit ''No workers registered.'')
               else run_then (of_py (iter_of v)) (\<lambda>xs.
                 run_each xs (\<lambda>x. run_then (of_py (worker_line (ce_py env) x)) say))) (\<lambda>_.
     run_ret 0))"

text \<open>One event of \<open>watch\<close>. Data that is false counts as an empty object.\<close>

definition event_line :: "'s cli_env \<Rightarrow> sse_event \<Rightarrow> py_error + pystr" where
  "event_line env e =
     (let lib = ce_py env;
          data = (case ev_sse_data e of None \<Rightarrow> JDict [] | Some (Sse_raw t) \<Rightarrow> or_else lib (JStr t) (JDict [])
            | Some (Sse_json v) \<Rightarrow> or_else lib v (JDict []));
          kind = (case ev_sse_event e of None \<Rightarrow> JStr (lit ''event'') | Some t \<Rightarrow> JStr t);
          i = (case ev_sse_id e of None \<Rightarrow> JStr (lit ''?'') | Some (Sse_int n) \<Rightarrow> JInt n | Some (Sse_text t) \<Rightarrow> JStr t)
      in case data of
           JDict d \<Rightarrow>
             bind_result (get_or ''type'' kind data) (\<lambda>event_type.
             bind_result (get_or ''task_id'' (JStr []) data) (\<lambda>task_id.
             bind_result (get_or ''data'' JNull data) (\<lambda>inner.
             bind_result (format_value lib Rightwards 5 i) (\<lambda>id_text.
             bind_result (format_value lib Natural 24 event_type) (\<lambda>type_text.
               let details = or_else lib inner (JDict []) in
               Inr (lit ''['' @ id_text @ lit ''] '' @ type_text @ lit '' '' @ str_of lib task_id
                 @ (if truthy lib details then lit '' '' @ py_dumps lib details else [])))))))
         | _ \<Rightarrow> Inr (ce_repr_event env e))"

definition show_event :: "'s cli_env \<Rightarrow> bool \<Rightarrow> sse_event \<Rightarrow> ('s, unit) cmd" where
  "show_event env json_output e =
     (if json_output then say (ce_dump_event env e) else run_then (of_py (event_line env e)) say)"

definition open_stream :: "'s cli_env \<Rightarrow> helix_client \<Rightarrow> pystr \<Rightarrow> int option \<Rightarrow> ('s, unit) cmd" where
  "open_stream env c w after = run_then (cli_call (quoted w)) (\<lambda>q s.
     case ce_stream env (events_request c q after) (cli_net s) of
       (Opened, n) \<Rightarrow> Some (Inr (), s\<lparr>cli_net := n\<rparr>)
     | (Stream_status code t, n) \<Rightarrow> Some (Inl (Api (http_error (ce_json env) code t)), s\<lparr>cli_net := n\<rparr>)
     | (Stream_failed t, n) \<Rightarrow> Some (Inl (Py (Url_error t)), s\<lparr>cli_net := n\<rparr>)
     | (Stream_broken e, n) \<Rightarrow> Some (Inl (Api (Wire e)), s\<lparr>cli_net := n\<rparr>))"

definition next_line :: "'s cli_env \<Rightarrow> ('s, pystr option) cmd" where
  "next_line env s = (case ce_line env (cli_net s) of
     (Line t, n) \<Rightarrow> Some (Inr (Some t), s\<lparr>cli_net := n\<rparr>)
   | (Closed, n) \<Rightarrow> Some (Inr None, s\<lparr>cli_net := n\<rparr>)
   | (Line_failed e, n) \<Rightarrow> Some (Inl (Api (Wire e)), s\<lparr>cli_net := n\<rparr>)
   | (Keyboard, n) \<Rightarrow> Some (Inl Interrupted, s\<lparr>cli_net := n\<rparr>))"

text \<open>\<open>for event in client.iter_events(...)\<close>: a line is read, and the event it completes is printed before the
  next one is read. \<open>None\<close> is a watch that is still running.\<close>

fun watch_lines :: "'s cli_env \<Rightarrow> bool \<Rightarrow> sse_state \<Rightarrow> nat \<Rightarrow> ('s, unit) cmd" where
  "watch_lines env json_output e 0 s = None"
| "watch_lines env json_output e (Suc n) s =
     run_then (next_line env) (\<lambda>l. case l of
       None \<Rightarrow> run_ret ()
     | Some raw \<Rightarrow> (case sse_line (ce_json env) e raw of (e', found) \<Rightarrow>
         run_then (run_each found (show_event env json_output)) (\<lambda>_.
           watch_lines env json_output e' n))) s"

definition command_watch :: "'s cli_env \<Rightarrow> helix_client \<Rightarrow> bool \<Rightarrow> pystr \<Rightarrow> int option \<Rightarrow> ('s, int) cmd" where
  "command_watch env c json_output w after =
     run_then (open_stream env c w after) (\<lambda>_.
     run_then (watch_lines env json_output no_event (ce_fuel env)) (\<lambda>_. run_ret 0))"

definition run_command_line :: "'s cli_env \<Rightarrow> helix_client \<Rightarrow> bool \<Rightarrow> cli_command \<Rightarrow> ('s, int) cmd" where
  "run_command_line env c json_output cmd = (case cmd of
     Submit path key waiting \<Rightarrow> command_submit env c json_output path key waiting
   | List_all \<Rightarrow> command_list env c json_output
   | Get w \<Rightarrow> command_get env c json_output w
   | Watch w after \<Rightarrow> command_watch env c json_output w after
   | Wait_for w timeout \<Rightarrow> command_wait env c json_output w timeout
   | Cancel_one w \<Rightarrow> command_cancel env c json_output w
   | Workers \<Rightarrow> command_workers env c json_output)"

section \<open>Exit codes\<close>

datatype exit_status = Exit int | Uncaught cli_error

text \<open>Which errors are \<open>HelixError\<close>, \<open>OSError\<close> or \<open>ValueError\<close>. A \<open>TimeoutError\<close> is an \<open>OSError\<close>, a failed
  encoding or decoding a \<open>ValueError\<close>; a missing \<open>"data"\<close> is a \<open>KeyError\<close>.\<close>

fun handled_error :: "cli_error \<Rightarrow> bool" where
  "handled_error (Api e) \<longleftrightarrow> (case e of
     Unreachable _ \<Rightarrow> True | Timed_out \<Rightarrow> True | Bad_json \<Rightarrow> True | Bad_interval \<Rightarrow> True | Bad_timeout \<Rightarrow> True
   | Bad_url \<Rightarrow> True | Not_encodable \<Rightarrow> True | Wire (Wire_os _) \<Rightarrow> True | Wire (Wire_value _) \<Rightarrow> True
   | _ \<Rightarrow> False)"
| "handled_error (Py e) \<longleftrightarrow> is_os_error e \<or> is_value_error e"
| "handled_error Interrupted \<longleftrightarrow> False"

definition complain :: "pystr \<Rightarrow> 's cli \<Rightarrow> 's cli" where
  "complain t s = s\<lparr>cli_err := cli_err s @ [t]\<rparr>"

text \<open>The \<open>except\<close> clauses of \<open>main\<close>. An interruption can come at any time.\<close>

definition exit_of :: "'s cli_env \<Rightarrow> (cli_error + int) \<times> 's cli \<Rightarrow> exit_status \<times> 's cli" where
  "exit_of env = (\<lambda>(r, s). case r of
     Inr n \<Rightarrow> (Exit n, s)
   | Inl (Api (Api_error code message body)) \<Rightarrow> (Exit 3, complain (lit ''API error: '' @ message) s)
   | Inl e \<Rightarrow>
       if handled_error e then (Exit 1, complain (lit ''error: '' @ ce_message env e) s)
       else if e = Interrupted then (Exit 130, complain (lit ''interrupted'') s)
       else (Uncaught e, s))"

definition cli_main :: "'s cli_env \<Rightarrow> pystr \<Rightarrow> bool \<Rightarrow> cli_command \<Rightarrow> 's cli \<Rightarrow> (exit_status \<times> 's cli) option" where
  "cli_main env url json_output cmd s =
     (case new_client (ce_urlparse env) url 15 (lit ''helixgrid-python/0.1.0'') of
        Inl e \<Rightarrow> Some (Uncaught (Api e), s)
      | Inr c \<Rightarrow> map_option (exit_of env) (run_command_line env c json_output cmd s))"

end
