(* ===== verification/Sdk_Cli_Props.thy ===== *)
theory Sdk_Cli_Props
  imports Sdk_Cli Tools_Props
begin

text \<open>
  The command line: which commands end, what their exit codes mean, and that errors and results go to
  different streams.
\<close>

section \<open>What a command leaves behind\<close>

text \<open>Nothing but \<open>main\<close> writes to the error stream, and what was printed stays.\<close>

definition clean :: "('s, 'a) cmd \<Rightarrow> bool" where
  "clean c \<longleftrightarrow> (\<forall>s r t. c s = Some (r, t) \<longrightarrow> cli_err t = cli_err s \<and> (\<exists>ls. cli_out t = cli_out s @ ls))"

named_theorems clean_rules \<open>commands that leave the error stream alone\<close>

lemma cleanI: "(\<And>s r t. c s = Some (r, t) \<Longrightarrow> cli_err t = cli_err s \<and> cli_out t = cli_out s) \<Longrightarrow> clean c"
  by (auto simp: clean_def)

lemma clean_simple [clean_rules]:
  "clean (run_ret x)" "clean (run_raise e)" "clean (cli_call f)" "clean (cli_wait g)" "clean (of_py r)"
  by (rule cleanI, auto simp: run_ret_def run_raise_def cli_call_def cli_wait_def of_py_def
      split: prod.splits sum.splits option.splits)+

lemma clean_say [clean_rules]: "clean (say t)"
  by (auto simp: clean_def say_def)

lemma clean_then [clean_rules]: "clean c \<Longrightarrow> (\<And>x. clean (f x)) \<Longrightarrow> clean (run_then c f)"
  unfolding clean_def run_then_def by (fastforce split: option.splits sum.splits)

lemma clean_each [clean_rules]: "(\<And>x. clean (f x)) \<Longrightarrow> clean (run_each xs f)"
  by (induction xs) (auto intro: clean_rules)

lemma clean_if [clean_rules]: "clean c \<Longrightarrow> clean d \<Longrightarrow> clean (if b then c else d)"
  by simp

lemma ends_cli [ends_rules]: "ends (cli_call f)" "ends (of_py r)" "ends (say t)"
  by (auto simp: ends_def cli_call_def of_py_def say_def run_ret_def run_raise_def split: prod.split sum.split)

lemma ends_each [ends_rules]: "(\<And>x. ends (f x)) \<Longrightarrow> ends (run_each xs f)"
  by (induction xs) (auto intro: ends_rules)

lemma print_workflow_rules [clean_rules, ends_rules]: "clean (print_workflow env d w)" "ends (print_workflow env d w)"
  unfolding print_workflow_def Let_def by (intro clean_rules ends_rules)+

lemma show_result_rules [clean_rules, ends_rules]: "clean (show_result env j w)" "ends (show_result env j w)"
  unfolding show_result_def print_json_def by (intro clean_rules ends_rules)+

lemma print_json_rules [clean_rules, ends_rules]: "clean (print_json env w)" "ends (print_json env w)"
  unfolding print_json_def by (intro clean_rules ends_rules)+

lemma exit_of_state_rules [clean_rules, ends_rules]: "clean (exit_of_state w)" "ends (exit_of_state w)"
  unfolding exit_of_state_def by (intro clean_rules ends_rules)+

lemma show_event_rules [clean_rules, ends_rules]: "clean (show_event env j e)" "ends (show_event env j e)"
  unfolding show_event_def by (intro clean_rules ends_rules)+

lemma load_file_rules [clean_rules, ends_rules]: "clean (load_workflow_file env p)" "ends (load_workflow_file env p)"
proof -
  have "\<exists>r. load_workflow_file env p s = of_py r s" for s by (auto simp: load_workflow_file_def)
  then show "clean (load_workflow_file env p)" "ends (load_workflow_file env p)"
    using clean_simple(5) ends_cli(2) unfolding clean_def ends_def by metis+
qed

lemma wait_for_clean [clean_rules]: "clean (wait_for env c i timeout)"
  by (cases i) (simp_all add: wait_for_def clean_rules)

lemma open_stream_rules [clean_rules, ends_rules]: "clean (open_stream env c w after)" "ends (open_stream env c w after)"
proof -
  have "clean (\<lambda>s :: 'a cli. case ce_stream env (events_request c q after) (cli_net s) of
       (Opened, n) \<Rightarrow> Some (Inr (), s\<lparr>cli_net := n\<rparr>)
     | (Stream_status code t, n) \<Rightarrow> Some (Inl (Api (http_error (ce_json env) code t)), s\<lparr>cli_net := n\<rparr>)
     | (Stream_failed t, n) \<Rightarrow> Some (Inl (Py (Url_error t)), s\<lparr>cli_net := n\<rparr>)
     | (Stream_broken e, n) \<Rightarrow> Some (Inl (Api (Wire e)), s\<lparr>cli_net := n\<rparr>))" for q
    by (rule cleanI) (auto split: prod.splits stream_answer.splits)
  then show "clean (open_stream env c w after)" unfolding open_stream_def by (intro clean_rules)
  show "ends (open_stream env c w after)"
    unfolding open_stream_def by (intro ends_rules) (auto simp: ends_def split: prod.split stream_answer.split)
qed

lemma next_line_clean [clean_rules]: "clean (next_line env)"
  by (rule cleanI) (auto simp: next_line_def split: prod.splits line_answer.splits)

lemma watch_clean [clean_rules]: "clean (watch_lines env j e n)"
proof (induction n arbitrary: e)
  case 0
  then show ?case by (simp add: clean_def)
next
  case (Suc n)
  have "watch_lines env j e (Suc n) = run_then (next_line env) (\<lambda>l. case l of
       None \<Rightarrow> run_ret ()
     | Some raw \<Rightarrow> (case sse_line (ce_json env) e raw of (e', found) \<Rightarrow>
         run_then (run_each found (show_event env j)) (\<lambda>_. watch_lines env j e' n)))"
    by (rule ext) simp
  moreover have "clean (case l of None \<Rightarrow> run_ret ()
     | Some raw \<Rightarrow> (case sse_line (ce_json env) e raw of (e', found) \<Rightarrow>
         run_then (run_each found (show_event env j)) (\<lambda>_. watch_lines env j e' n)))" for l
    by (auto split: option.split prod.split intro!: clean_rules Suc)
  ultimately show ?case by (simp only: clean_then next_line_clean)
qed

text \<open>A command that watches, or waits without a limit, may run for ever.\<close>

definition limited :: "'s cli_env \<Rightarrow> cli_command \<Rightarrow> bool" where
  "limited env cmd \<longleftrightarrow> (case cmd of
     Submit path key waiting \<Rightarrow> \<not> waiting
   | Wait_for w timeout \<Rightarrow> (case timeout of None \<Rightarrow> False | Some d \<Rightarrow> 2 * d + 1 < of_nat (ce_fuel env))
   | Watch w after \<Rightarrow> False
   | _ \<Rightarrow> True)"

lemma command_clean: "clean (run_command_line env c j cmd)"
  by (cases cmd) (auto simp: run_command_line_def command_submit_def command_list_def command_get_def command_cancel_def
      command_wait_def command_workers_def command_watch_def intro!: clean_rules split: option.split)

lemma wait_for_ends:
  assumes "clock_ok (ce_net env) time" "2 * d + 1 < of_nat (ce_fuel env)"
  shows "ends (wait_for env c (JStr w) (Some d))"
proof -
  have "wait (ce_json env) (ce_net env) c w (1/2) (Some d) (ce_fuel env) s \<noteq> None" for s
  proof (cases "0 \<le> d")
    case True
    then show ?thesis
      using wait_ends_facts [OF assms(1), of "1/2" d "ce_fuel env" "ce_json env" c w s] assms(2) by fastforce
  next
    case False
    then show ?thesis by (simp add: wait_def)
  qed
  then show ?thesis by (auto simp: wait_for_def ends_def cli_wait_def split: option.split sum.split)
qed

lemma command_ends:
  assumes "clock_ok (ce_net env) time" "limited env cmd"
  shows "ends (run_command_line env c j cmd)"
  using assms wait_for_ends [OF assms(1)]
  by (cases cmd) (auto simp: limited_def run_command_line_def command_submit_def command_list_def command_get_def
      command_cancel_def command_wait_def command_workers_def command_watch_def intro!: ends_rules split: option.splits)

section \<open>Exit codes\<close>

text \<open>The codes a command returns are those of \<open>exit_of_state\<close> and zero.\<close>

definition codes :: "('s, int) cmd \<Rightarrow> bool" where
  "codes c \<longleftrightarrow> (\<forall>s n t. c s = Some (Inr n, t) \<longrightarrow> n = 0 \<or> n = 2)"

named_theorems codes_rules \<open>commands that return zero or two\<close>

lemma codes_basic [codes_rules]: "codes (run_ret 0)" "codes (run_raise e)" "codes (exit_of_state w)"
  by (auto simp: codes_def run_simple_Inr exit_of_state_def run_then_Inr)

lemma codes_then [codes_rules]: "(\<And>x. codes (f x)) \<Longrightarrow> codes (run_then c f)"
  unfolding codes_def run_then_Inr by blast

lemma codes_if [codes_rules]: "codes c \<Longrightarrow> codes d \<Longrightarrow> codes (if b then c else d)"
  by simp

lemma command_codes: "codes (run_command_line env c j cmd)"
  by (cases cmd) (auto simp: run_command_line_def command_submit_def command_list_def command_get_def command_cancel_def
      command_wait_def command_workers_def command_watch_def intro!: codes_rules split: option.split)

lemma exit_of_result: "exit_of env (r, u) = (Exit n, t) \<Longrightarrow> n = 0 \<or> n = 2 \<Longrightarrow> r = Inr n \<and> u = t"
proof (cases r)
  case (Inl e)
  then show "exit_of env (r, u) = (Exit n, t) \<Longrightarrow> n = 0 \<or> n = 2 \<Longrightarrow> r = Inr n \<and> u = t"
    by (cases e) (auto simp: exit_of_def split: api_error.splits if_splits)
qed (auto simp: exit_of_def)

lemma exit_of_error:
  "case exit_of env (Inl e, u) of (r, t) \<Rightarrow> cli_out t = cli_out u \<and>
      (case r of
         Exit n \<Rightarrow> (n = 3 \<and> (\<exists>m. cli_err t = cli_err u @ [lit ''API error: '' @ m]))
           \<or> (n = 1 \<and> (\<exists>m. cli_err t = cli_err u @ [lit ''error: '' @ m]))
           \<or> (n = 130 \<and> cli_err t = cli_err u @ [lit ''interrupted''])
       | Uncaught e \<Rightarrow> cli_err t = cli_err u
           \<and> \<not> handled_error e \<and> e \<noteq> Interrupted \<and> (\<forall>code m b. e \<noteq> Api (Api_error code m b)))"
proof (cases "\<exists>code m b. e = Api (Api_error code m b)")
  case True
  then show ?thesis by (auto simp: exit_of_def complain_def simp del: lit_Cons)
next
  case False
  then have "exit_of env (Inl e, u) = (if handled_error e then (Exit 1, complain (lit ''error: '' @ ce_message env e) u)
       else if e = Interrupted then (Exit 130, complain (lit ''interrupted'') u) else (Uncaught e, u))"
    by (auto simp: exit_of_def simp del: lit_Cons split: cli_error.split api_error.split)
  then show ?thesis using False by (auto simp: complain_def simp del: lit_Cons)
qed

section \<open>What a wait has done\<close>

text \<open>Printing leaves the network alone.\<close>

definition still :: "('s, 'a) cmd \<Rightarrow> bool" where
  "still c \<longleftrightarrow> (\<forall>s r t. c s = Some (r, t) \<longrightarrow> cli_net t = cli_net s)"

named_theorems still_rules \<open>commands that leave the network alone\<close>

lemma still_simple [still_rules]:
  "still (run_ret x)" "still (run_raise e)" "still (of_py q)" "still (say m)"
  by (auto simp: still_def run_ret_def run_raise_def of_py_def say_def split: sum.splits)

lemma still_then [still_rules]: "still c \<Longrightarrow> (\<And>x. still (f x)) \<Longrightarrow> still (run_then c f)"
  unfolding still_def run_then_def by (fastforce split: option.splits sum.splits)

lemma still_each [still_rules]: "(\<And>x. still (f x)) \<Longrightarrow> still (run_each xs f)"
  by (induction xs) (auto intro: still_rules)

lemma still_if [still_rules]: "still c \<Longrightarrow> still d \<Longrightarrow> still (if b then c else d)"
  by simp

lemma still_shown: "still (run_then (show_result env j v) (\<lambda>_. exit_of_state v))"
  unfolding show_result_def print_json_def print_workflow_def exit_of_state_def Let_def by (intro still_rules)

lemma wait_loop_last:
  "wait_loop poll net interval limit started n s = Some (Inr v, s') \<Longrightarrow> \<exists>u. poll u = (Inr v, s')"
proof (induction n arbitrary: s)
  case (Suc n)
  obtain y s1 where p: "poll s = (y, s1)" by (rule prod.exhaust)
  show ?case
  proof (cases y)
    case (Inl e)
    then show ?thesis using Suc.prems p by simp
  next
    case (Inr x)
    show ?thesis
    proof (cases "terminal_state x = Inr False")
      case True
      then show ?thesis using Suc p Inr by (auto split: option.splits prod.splits if_splits)
    next
      case False
      then show ?thesis using Suc.prems p Inr by (auto split: sum.splits bool.splits)
    qed
  qed
qed simp

lemma wait_last:
  assumes "wait lib net c w interval limit fuel s = Some (Inr v, s')"
  obtains u where "get_workflow lib net c w u = (Inr v, s')" "terminal_state v = Inr True"
proof -
  obtain started s1 where loop: "wait_loop (get_workflow lib net c w) net interval limit started fuel s1 = Some (Inr v, s')"
    using assms by (auto simp: wait_def split: if_splits prod.splits)
  then show ?thesis using that wait_loop_last [OF loop] wait_loop_result [OF loop] by auto
qed

text \<open>The parts of a waiting command.\<close>

lemma waiting_parts:
  assumes "run_command_line env c json_output cmd s = Some (Inr n, t)"
    "case cmd of Wait_for w limit \<Rightarrow> True | Submit path key waiting \<Rightarrow> waiting | _ \<Rightarrow> False"
  obtains w limit u v u' where "case cmd of
         Wait_for i d \<Rightarrow> w = i \<and> limit = d \<and> cli_net u = cli_net s
       | Submit path key waiting \<Rightarrow> limit = None \<and> (\<exists>payload answer.
           ce_file env path (cli_net s) = Inr (JDict payload)
           \<and> submit_workflow (ce_json env) (ce_net env) c (Inr payload) key (cli_net s) = (Inr answer, cli_net u)
           \<and> subscript ''id'' answer = Inr (JStr w))
       | _ \<Rightarrow> False"
    "wait_for env c (JStr w) limit u = Some (Inr v, u')"
    "run_then (show_result env json_output v) (\<lambda>_. exit_of_state v) u' = Some (Inr n, t)"
proof (cases cmd)
  case (Wait_for w limit)
  then obtain v u' where "wait_for env c (JStr w) limit s = Some (Inr v, u')"
    "run_then (show_result env json_output v) (\<lambda>_. exit_of_state v) u' = Some (Inr n, t)"
    using assms(1) by (auto simp: run_command_line_def command_wait_def run_then_Inr [of "wait_for env c (JStr w) limit"])
  then show ?thesis using that [where w = w and limit = limit and u = s and v = v and u' = u'] Wait_for by simp
next
  case (Submit path key waiting)
  then have waiting: "waiting" using assms(2) by simp
  obtain payload u1 answer u2 i u3 v u' where parts:
    "load_workflow_file env path s = Some (Inr payload, u1)"
    "cli_call (submit_workflow (ce_json env) (ce_net env) c (Inr payload) key) u1 = Some (Inr answer, u2)"
    "of_py (subscript ''id'' answer) u2 = Some (Inr i, u3)" "wait_for env c i None u3 = Some (Inr v, u')"
    "run_then (show_result env json_output v) (\<lambda>_. exit_of_state v) u' = Some (Inr n, t)"
    using assms(1) Submit waiting unfolding run_command_line_def command_submit_def
    by (auto simp: run_then_Inr [where c = "load_workflow_file env path"] run_then_Inr [where c = "cli_call x" for x]
        run_then_Inr [where c = "run_then x y" for x y] run_then_Inr [where c = "of_py x" for x] simp del: lit_Cons)
  have loaded: "ce_file env path (cli_net s) = Inr (JDict payload)" "u1 = s"
    using parts(1) by (auto simp: load_workflow_file_def of_py_def run_ret_def run_raise_def split: sum.splits json.splits)
  have id: "subscript ''id'' answer = Inr i" "u3 = u2"
    using parts(3) by (auto simp: of_py_def run_ret_def run_raise_def split: sum.splits)
  obtain w where w: "i = JStr w" using parts(4) by (cases i) (auto simp: wait_for_def run_raise_def)
  have "submit_workflow (ce_json env) (ce_net env) c (Inr payload) key (cli_net s) = (Inr answer, cli_net u2)"
    using parts(2) loaded(2) by (auto simp: cli_call_def split: prod.splits sum.splits)
  then show ?thesis using that [where w = w and limit = None and u = u2 and v = v and u' = u'] parts(4,5) loaded id w Submit by auto
qed (use assms(2) in simp_all)

text \<open>C38: How a command ends. Whenever one does, what was printed before is still there, and it ends in one of
  five ways: with code 0 or 2 and nothing on the error stream; with 3 and one message \<open>API error\<close>; with 1
  and one message \<open>error\<close>; with 130 and the message \<open>interrupted\<close>; or with a traceback, \<open>main\<close> having
  written no message, only for an exception that no clause of \<open>main\<close> names, or an address that is no URL.
  Every command comes to an end, but for \<open>watch\<close> and a wait without a limit, which may go on for ever: with
  a clock that does not go back and a sleep that lasts as long as asked, a wait of at most \<open>d\<close> seconds has
  ended after \<open>2 d + 2\<close> polls.\<close>

theorem commands_end:
  assumes "clock_ok (ce_net env) time"
  shows "(\<forall>r t. cli_main env url json_output cmd s = Some (r, t) \<longrightarrow>
      (\<exists>ls. cli_out t = cli_out s @ ls) \<and>
      (case r of
         Exit n \<Rightarrow> (n \<in> {0, 2} \<and> cli_err t = cli_err s)
           \<or> (n = 3 \<and> (\<exists>m. cli_err t = cli_err s @ [lit ''API error: '' @ m]))
           \<or> (n = 1 \<and> (\<exists>m. cli_err t = cli_err s @ [lit ''error: '' @ m]))
           \<or> (n = 130 \<and> cli_err t = cli_err s @ [lit ''interrupted''])
       | Uncaught e \<Rightarrow> cli_err t = cli_err s
           \<and> (\<not> handled_error e \<and> e \<noteq> Interrupted \<and> (\<forall>code m b. e \<noteq> Api (Api_error code m b)) \<or> e = Api Bad_url)))
    \<and> (limited env cmd \<longrightarrow> cli_main env url json_output cmd s \<noteq> None)"
proof (cases "new_client (ce_urlparse env) url 15 (lit ''helixgrid-python/0.1.0'')")
  case (Inl e)
  then have "e = Bad_url" by (auto simp: new_client_def simp del: lit_Cons split: prod.splits if_splits)
  then show ?thesis using Inl by (simp add: cli_main_def del: lit_Cons)
next
  case (Inr c)
  have main: "cli_main env url json_output cmd s = map_option (exit_of env) (run_command_line env c json_output cmd s)"
    using Inr by (simp add: cli_main_def del: lit_Cons)
  have "limited env cmd \<longrightarrow> cli_main env url json_output cmd s \<noteq> None"
    using command_ends [OF assms, of cmd c json_output] main unfolding ends_def by simp
  moreover have "(\<exists>ls. cli_out t = cli_out s @ ls) \<and>
      (case r of
         Exit n \<Rightarrow> (n \<in> {0, 2} \<and> cli_err t = cli_err s)
           \<or> (n = 3 \<and> (\<exists>m. cli_err t = cli_err s @ [lit ''API error: '' @ m]))
           \<or> (n = 1 \<and> (\<exists>m. cli_err t = cli_err s @ [lit ''error: '' @ m]))
           \<or> (n = 130 \<and> cli_err t = cli_err s @ [lit ''interrupted''])
       | Uncaught e \<Rightarrow> cli_err t = cli_err s
           \<and> (\<not> handled_error e \<and> e \<noteq> Interrupted \<and> (\<forall>code m b. e \<noteq> Api (Api_error code m b)) \<or> e = Api Bad_url))"
    if ended: "cli_main env url json_output cmd s = Some (r, t)" for r t
  proof -
    obtain q u where run: "run_command_line env c json_output cmd s = Some (q, u)" "exit_of env (q, u) = (r, t)"
      using ended main by auto
    have u: "cli_err u = cli_err s \<and> (\<exists>ls. cli_out u = cli_out s @ ls)" using command_clean run(1) unfolding clean_def by blast
    show ?thesis
    proof (cases q)
      case (Inr n)
      then have "n = 0 \<or> n = 2" using command_codes run(1) unfolding codes_def by blast
      then show ?thesis using run(2) u Inr by (auto simp: exit_of_def)
    next
      case (Inl e)
      then show ?thesis using exit_of_error [where env = env and e = e and u = u] run(2) u by (cases r) auto
    qed
  qed
  ultimately show ?thesis by blast
qed

text \<open>C39: The exit code of a wait. \<open>wait\<close>, and \<open>submit --wait\<close>, exit with 0 or 2 only if the client made from the
  address waited for a workflow, the one of the command or the one with the identifier that the
  submission of the file was answered with, under the limit of the command or without one, and the last
  thing it asked for was this workflow, whose state was \<open>SUCCEEDED\<close>, \<open>FAILED\<close> or \<open>CANCELLED\<close>. The code is 0
  exactly when it was \<open>SUCCEEDED\<close>.\<close>

theorem wait_exit_code:
  assumes "cli_main env url json_output cmd s = Some (Exit n, t)" "n = 0 \<or> n = 2"
    "case cmd of Wait_for w limit \<Rightarrow> True | Submit path key waiting \<Rightarrow> waiting | _ \<Rightarrow> False"
  shows "\<exists>c w limit begun u d state.
    new_client (ce_urlparse env) url 15 (lit ''helixgrid-python/0.1.0'') = Inr c
    \<and> (case cmd of
         Wait_for i d \<Rightarrow> w = i \<and> limit = d \<and> begun = cli_net s
       | Submit path key waiting \<Rightarrow> limit = None \<and> (\<exists>payload answer.
           ce_file env path (cli_net s) = Inr (JDict payload)
           \<and> submit_workflow (ce_json env) (ce_net env) c (Inr payload) key (cli_net s) = (Inr answer, begun)
           \<and> subscript ''id'' answer = Inr (JStr w))
       | _ \<Rightarrow> False)
    \<and> wait (ce_json env) (ce_net env) c w (1/2) limit (ce_fuel env) begun = Some (Inr (JDict d), cli_net t)
    \<and> get_workflow (ce_json env) (ce_net env) c w u = (Inr (JDict d), cli_net t)
    \<and> map_of d (lit ''state'') = Some (JStr state) \<and> state \<in> {lit ''SUCCEEDED'', lit ''FAILED'', lit ''CANCELLED''}
    \<and> (n = 0 \<longleftrightarrow> state = lit ''SUCCEEDED'')"
proof -
  obtain c r u0 where c: "new_client (ce_urlparse env) url 15 (lit ''helixgrid-python/0.1.0'') = Inr c"
    "run_command_line env c json_output cmd s = Some (r, u0)" "exit_of env (r, u0) = (Exit n, t)"
    using assms(1) by (auto simp: cli_main_def simp del: lit_Cons split: sum.splits)
  then have run: "run_command_line env c json_output cmd s = Some (Inr n, t)" using exit_of_result assms(2) by blast
  obtain w limit u v u' where for_this: "case cmd of
         Wait_for i d \<Rightarrow> w = i \<and> limit = d \<and> cli_net u = cli_net s
       | Submit path key waiting \<Rightarrow> limit = None \<and> (\<exists>payload answer.
           ce_file env path (cli_net s) = Inr (JDict payload)
           \<and> submit_workflow (ce_json env) (ce_net env) c (Inr payload) key (cli_net s) = (Inr answer, cli_net u)
           \<and> subscript ''id'' answer = Inr (JStr w))
       | _ \<Rightarrow> False"
    and waited: "wait_for env c (JStr w) limit u = Some (Inr v, u')"
    and shown: "run_then (show_result env json_output v) (\<lambda>_. exit_of_state v) u' = Some (Inr n, t)"
    using run assms(3) by (rule waiting_parts) blast
  have wait: "wait (ce_json env) (ce_net env) c w (1/2) limit (ce_fuel env) (cli_net u) = Some (Inr v, cli_net u')"
    using waited by (auto simp: wait_for_def cli_wait_def split: option.splits sum.splits)
  obtain last where "get_workflow (ce_json env) (ce_net env) c w last = (Inr v, cli_net u')" "terminal_state v = Inr True"
    using wait by (rule wait_last)
  moreover have net: "cli_net t = cli_net u'" using still_shown shown unfolding still_def by blast
  moreover obtain d state where d: "v = JDict d" "map_of d (lit ''state'') = Some (JStr state)"
    "state \<in> {lit ''SUCCEEDED'', lit ''FAILED'', lit ''CANCELLED''}"
    using calculation(2) by (auto simp: terminal_state_def simp del: lit_Cons split: json.splits option.splits)
  moreover have "n = 0 \<longleftrightarrow> state = lit ''SUCCEEDED''"
    using shown d by (auto simp: exit_of_state_def of_py_def get_or_def run_then_Inr run_simple_Inr simp del: lit_Cons)
  ultimately show ?thesis
    using c(1) for_this wait by (intro exI [of _ c] exI [of _ w] exI [of _ limit] exI [of _ "cli_net u"] exI [of _ last]) auto
qed

section \<open>A run\<close>

definition cli_lib :: py_lib where
  "cli_lib = \<lparr>py_loads = (\<lambda>t. None), py_dumps = (\<lambda>v. []), py_str = (\<lambda>v. []), py_int_text = (\<lambda>t. None),
     py_int_float = (\<lambda>t. Inl Type_error), py_float_zero = (\<lambda>t. False), py_message = (\<lambda>e. [])\<rparr>"

text \<open>A coordinator whose workflow has failed.\<close>

definition failed_lib :: json_lib where
  "failed_lib = demo_lib\<lparr>jl_loads := (\<lambda>t. Some (JDict [(lit ''data'', JDict [(lit ''id'', JStr (lit ''w'')),
     (lit ''state'', JStr (lit ''FAILED'')), (lit ''runtime'', JDict [(lit ''a'', JDict [(lit ''state'', JStr (lit ''FAILED''))])])])]))\<rparr>"

definition cli_demo :: "rat cli_env" where
  "cli_demo = \<lparr>ce_py = cli_lib, ce_json = failed_lib, ce_net = slow_network, ce_file = (\<lambda>p s. Inl (Os_error p)),
     ce_stream = (\<lambda>r s. (Opened, s)), ce_line = (\<lambda>s. (Closed, s)), ce_pretty = (\<lambda>v. []), ce_dump_event = (\<lambda>e. []), ce_repr_event = (\<lambda>e. []),
     ce_lower = (\<lambda>t. t), ce_sorted = Inr, ce_urlparse = (\<lambda>u. (lit ''http'', lit ''h'')), ce_message = (\<lambda>e. []), ce_fuel = 9\<rparr>"

definition cli_fresh :: "rat cli" where
  "cli_fresh = \<lparr>cli_net = 0, cli_out = [], cli_err = []\<rparr>"

lemma cli_demo_clock: "clock_ok (ce_net cli_demo) (\<lambda>s. s)"
  by (simp add: cli_demo_def clock_ok_def slow_network_def)

theorem commands_end_witness:
  "\<exists>r t. cli_main cli_demo (lit ''u'') False (Wait_for (lit ''w'') (Some 3)) cli_fresh = Some (r, t)
     \<and> (\<exists>ls. cli_out t = [] @ ls)"
proof -
  have limited: "limited cli_demo (Wait_for (lit ''w'') (Some 3))" by (simp add: limited_def cli_demo_def)
  note both = commands_end [OF cli_demo_clock, of "lit ''u''" False "Wait_for (lit ''w'') (Some 3)" cli_fresh]
  obtain r t where run: "cli_main cli_demo (lit ''u'') False (Wait_for (lit ''w'') (Some 3)) cli_fresh = Some (r, t)"
    using both limited by fastforce
  then have "\<exists>ls. cli_out t = cli_out cli_fresh @ ls" using both by blast
  with run show ?thesis by (auto simp: cli_fresh_def simp del: lit_Cons)
qed

theorem wait_exit_code_witness:
  "map_option (\<lambda>(r, t). (r, cli_out t)) (cli_main cli_demo (lit ''u'') False (Wait_for (lit ''w'') (Some 3)) cli_fresh)
     = Some (Exit 2, [lit ''w  FAILED      ?  FAILED=1'', [], lit ''  a'' @ replicate 23 32 @ lit '' FAILED       attempt=0   ''])
   \<and> (\<exists>c u u' d state. get_workflow (ce_json cli_demo) (ce_net cli_demo) c (lit ''w'') u = (Inr (JDict d), u')
        \<and> map_of d (lit ''state'') = Some (JStr state) \<and> state \<noteq> lit ''SUCCEEDED'')"
proof -
  have eval: "map_option (\<lambda>(r, t). (r, cli_out t)) (cli_main cli_demo (lit ''u'') False (Wait_for (lit ''w'') (Some 3)) cli_fresh)
     = Some (Exit 2, [lit ''w  FAILED      ?  FAILED=1'', [], lit ''  a'' @ replicate 23 32 @ lit '' FAILED       attempt=0   ''])"
    by code_simp
  then obtain t where run: "cli_main cli_demo (lit ''u'') False (Wait_for (lit ''w'') (Some 3)) cli_fresh = Some (Exit 2, t)"
    by (auto simp del: lit_Cons)
  from wait_exit_code [OF run] eval show ?thesis by (simp del: lit_Cons) blast
qed

text \<open>An address that is no URL is not reported: the client is made before the \<open>try\<close>.\<close>

lemma bad_url_uncaught:
  "fst (ce_urlparse env url) \<notin> {lit ''http'', lit ''https''} \<Longrightarrow>
     cli_main env url json_output cmd s = Some (Uncaught (Api Bad_url), s)"
  by (simp add: cli_main_def new_client_def split_beta del: lit_Cons)

end
