(* ===== verification/Dash_Config.thy ===== *)
theory Dash_Config
  imports Py_Json Py_Text Sdk_Client
begin

text \<open>
  The settings of the dashboard (\<open>dashboard/helix_dashboard.py\<close>) and the state its window keeps. The
  outside world is a state of its own, with the operations on it in a record: the file system, Docker,
  the coordinator behind HTTP, the clock. A path is the list of its parts; \<open>Path.resolve\<close>, the case
  folding of path comparison and the text of a path are parameters.
\<close>

section \<open>The outside\<close>

type_synonym path = "pystr list"

record dash_config =
  dc_workspace :: pystr
  dc_results :: pystr
  dc_workers :: int
  dc_auto_start :: bool

record docker_command =
  cmd_args :: "pystr list"
  cmd_workspace :: pystr
  cmd_results :: pystr
  cmd_timeout :: int

datatype process_result = Finished int pystr pystr | Overdue | Not_started pystr

datatype settings_file = No_settings | Settings_error py_error | Settings_text pystr

record 'w outside =
  out_root :: path
  out_str :: "path \<Rightarrow> pystr"
  out_fold :: "pystr \<Rightarrow> pystr"
  out_resolve :: "'w \<Rightarrow> pystr \<Rightarrow> py_error + path"
  out_mkdir :: "pystr \<Rightarrow> ('w, py_error, unit) proc"
  out_settings :: "'w \<Rightarrow> settings_file"
  out_write_settings :: "pystr \<Rightarrow> ('w, py_error, unit) proc"
  out_example :: "pystr \<Rightarrow> 'w \<Rightarrow> py_error + json"
  out_summary :: "pystr \<Rightarrow> 'w \<Rightarrow> (py_error + pystr) option"
  out_exists :: "'w \<Rightarrow> pystr \<Rightarrow> bool"
  out_desktops :: "pystr list"
  out_docker_info :: "'w \<Rightarrow> process_result \<times> 'w"
  out_run :: "docker_command \<Rightarrow> 'w \<Rightarrow> process_result \<times> 'w"
  out_popen :: "pystr list \<Rightarrow> ('w, py_error, unit) proc"
  out_open :: "pystr \<Rightarrow> ('w, py_error, unit) proc"
  out_send :: "request \<Rightarrow> 'w \<Rightarrow> answer \<times> 'w"
  out_clock :: "'w \<Rightarrow> rat \<times> 'w"
  out_sleep :: "rat \<Rightarrow> 'w \<Rightarrow> 'w"
  out_int_var :: "pystr \<Rightarrow> py_error + int"

section \<open>Configurations\<close>

definition default_settings :: "'w outside \<Rightarrow> dash_config" where
  "default_settings out =
     \<lparr>dc_workspace = out_str out (out_root out @ [lit ''workspace'']),
      dc_results = out_str out (out_root out @ [lit ''helix-results'']), dc_workers = 3, dc_auto_start = True\<rparr>"

definition clamp_workers :: "int \<Rightarrow> int" where
  "clamp_workers n = max 1 (min 16 n)"

text \<open>The fields in the order of the call; every one may raise.\<close>

definition config_of_json :: "py_lib \<Rightarrow> dash_config \<Rightarrow> json \<Rightarrow> py_error + dash_config" where
  "config_of_json lib d raw =
     bind_result (get_or ''workspace'' JNull raw) (\<lambda>ws.
     bind_result (get_or ''results'' JNull raw) (\<lambda>rs.
     bind_result (get_or ''workers'' (JInt 3) raw) (\<lambda>n.
     bind_result (int_of lib n) (\<lambda>workers.
     bind_result (get_or ''auto_start'' (JBool True) raw) (\<lambda>auto.
       Inr \<lparr>dc_workspace = str_of lib (or_else lib ws (JStr (dc_workspace d))),
            dc_results = str_of lib (or_else lib rs (JStr (dc_results d))),
            dc_workers = clamp_workers workers, dc_auto_start = truthy lib auto\<rparr>)))))"

text \<open>\<open>except (OSError, ValueError, TypeError, json.JSONDecodeError)\<close>\<close>

definition load_forgives :: "py_error \<Rightarrow> bool" where
  "load_forgives e \<longleftrightarrow> is_os_error e \<or> is_value_error e \<or> e = Type_error"

definition load_config :: "py_lib \<Rightarrow> 'w outside \<Rightarrow> 'w \<Rightarrow> py_error + dash_config" where
  "load_config lib out w =
     (case out_settings out w of
        No_settings \<Rightarrow> Inr (default_settings out)
      | Settings_error e \<Rightarrow> if load_forgives e then Inr (default_settings out) else Inl e
      | Settings_text t \<Rightarrow>
          (case py_loads lib t of
             None \<Rightarrow> Inr (default_settings out)
           | Some raw \<Rightarrow>
               (case config_of_json lib (default_settings out) raw of
                  Inl e \<Rightarrow> if load_forgives e then Inr (default_settings out) else Inl e
                | Inr c \<Rightarrow> Inr c)))"

definition config_as_json :: "dash_config \<Rightarrow> json" where
  "config_as_json c = JDict [(lit ''workspace'', JStr (dc_workspace c)), (lit ''results'', JStr (dc_results c)),
     (lit ''workers'', JInt (dc_workers c)), (lit ''auto_start'', JBool (dc_auto_start c))]"

definition save_config :: "py_lib \<Rightarrow> 'w outside \<Rightarrow> dash_config \<Rightarrow> ('w, py_error, unit) proc" where
  "save_config lib out c = out_write_settings out (py_dumps lib (config_as_json c) @ [10])"

section \<open>Paths\<close>

text \<open>\<open>p.parents\<close> for an absolute path, whose first part is its anchor, and equality of paths.\<close>

definition parents :: "path \<Rightarrow> path list" where
  "parents p = map (\<lambda>n. take n p) (rev [1..<length p])"

definition path_eq :: "'w outside \<Rightarrow> path \<Rightarrow> path \<Rightarrow> bool" where
  "path_eq out p q \<longleftrightarrow> map (out_fold out) p = map (out_fold out) q"

definition path_in :: "'w outside \<Rightarrow> path \<Rightarrow> path list \<Rightarrow> bool" where
  "path_in out p qs \<longleftrightarrow> list_ex (path_eq out p) qs"

section \<open>The window\<close>

datatype run_mode = Audit | Backup

text \<open>The closures that run in the background, with the configuration they captured.\<close>

datatype dash_job = Start_job dash_config | Stop_job dash_config | Restart_job dash_config
  | Run_job run_mode dash_config | Logs_job dash_config

datatype dash_event =
  Success pystr | Failure py_error | Idle | Probe bool bool json json | Logs pystr | Progress pystr
  | Workflow_started json | Show_status pystr

datatype dialog = Error_dialog pystr | Info_dialog pystr

text \<open>
  The window: its settings, the text in its fields, the event queue, the busy flag, the background
  thread with its job and whether it has put its outcome, the number of running probes, and what is
  shown. \<open>ui_polling\<close> says that the next \<open>_poll_events\<close> is scheduled, \<open>ui_draining\<close> that one is in its loop.
\<close>

record 'w window =
  ui_config :: dash_config
  ui_workspace_var :: pystr
  ui_results_var :: pystr
  ui_workers_var :: pystr
  ui_auto_var :: bool
  ui_status :: pystr
  ui_docker :: pystr
  ui_coordinator :: pystr
  ui_workers_label :: pystr
  ui_workflows_label :: pystr
  ui_activity :: pystr
  ui_events :: "dash_event list"
  ui_busy :: bool
  ui_thread :: "(dash_job \<times> bool) option"
  ui_probes :: nat
  ui_polling :: bool
  ui_draining :: bool
  ui_open :: bool
  ui_last_workflows :: json
  ui_tree :: "(pystr option \<times> json \<times> json \<times> json) list"
  ui_logs :: pystr
  ui_summary :: pystr
  ui_dialogs :: "dialog list"
  ui_world :: 'w

type_synonym ('w, 'a) ui = "('w window, py_error, 'a) proc"

text \<open>An operation of the outside, carried out by the window's thread.\<close>

definition outside_proc :: "('w, py_error, 'a) proc \<Rightarrow> ('w, 'a) ui" where
  "outside_proc c = (\<lambda>s. case c (ui_world s) of (r, w) \<Rightarrow> (r, s\<lparr>ui_world := w\<rparr>))"

definition set_status :: "pystr \<Rightarrow> ('w, unit) ui" where
  "set_status t = modify (\<lambda>s. s\<lparr>ui_status := t\<rparr>)"

definition show_dialog :: "dialog \<Rightarrow> ('w, unit) ui" where
  "show_dialog d = modify (\<lambda>s. s\<lparr>ui_dialogs := ui_dialogs s @ [d]\<rparr>)"

definition nested_text :: pystr where
  "nested_text = lit ''Resultatmappen og arbejdsmappen skal v'' @ [230] @ lit ''re to separate mapper.''"

definition nested :: "'w outside \<Rightarrow> path \<Rightarrow> path \<Rightarrow> bool" where
  "nested out p q \<longleftrightarrow> path_eq out p q \<or> path_in out p (parents q) \<or> path_in out q (parents p)"

definition read_workers :: "'w outside \<Rightarrow> ('w, int) ui" where
  "read_workers out = catch (chain (reads ui_workers_var) (\<lambda>t. of_result (out_int_var out t)))
     (\<lambda>e. is_value_error e \<or> e = Type_error)
     (\<lambda>e. andThen (modify (\<lambda>s. s\<lparr>ui_workers_var := show_int 3\<rparr>)) (ret 3))"

definition folder_text :: "pystr \<Rightarrow> pystr \<Rightarrow> pystr" where
  "folder_text entered fallback = (if strip entered = [] then fallback else strip entered)"

definition current_config :: "'w outside \<Rightarrow> ('w, dash_config) ui" where
  "current_config out =
     chain (read_workers out) (\<lambda>workers.
     chain (reads (\<lambda>s. folder_text (ui_workspace_var s) (dc_workspace (default_settings out)))) (\<lambda>ws.
     chain (reads (\<lambda>s. folder_text (ui_results_var s) (dc_results (default_settings out)))) (\<lambda>rs.
     chain (\<lambda>s. of_result (out_resolve out (ui_world s) ws) s) (\<lambda>p.
     chain (\<lambda>s. of_result (out_resolve out (ui_world s) rs) s) (\<lambda>q.
       if nested out p q then raise (Value_error nested_text)
       else chain (reads ui_auto_var) (\<lambda>auto.
         ret \<lparr>dc_workspace = out_str out p, dc_results = out_str out q,
              dc_workers = clamp_workers workers, dc_auto_start = auto\<rparr>))))))"

text \<open>\<open>True\<close> is the answer of a saved configuration; an error while it is stored escapes.\<close>

definition save_settings :: "py_lib \<Rightarrow> 'w outside \<Rightarrow> ('w, bool) ui" where
  "save_settings lib out =
     chain (catch (chain (current_config out) (\<lambda>c. ret (Some c))) (\<lambda>e. is_value_error e \<or> is_os_error e)
       (\<lambda>e. andThen (show_dialog (Error_dialog (py_message lib e))) (ret None))) (\<lambda>r.
     case r of
       None \<Rightarrow> ret False
     | Some c \<Rightarrow>
         andThen (outside_proc (out_mkdir out (dc_workspace c)))
        (andThen (outside_proc (out_mkdir out (dc_results c)))
        (andThen (outside_proc (save_config lib out c))
        (andThen (modify (\<lambda>s. s\<lparr>ui_config := c\<rparr>))
        (andThen (set_status (lit ''Indstillinger gemt''))
        (ret True))))))"

text \<open>The folder pickers; an empty answer is a dialog that was closed.\<close>

definition choose_workspace :: "py_lib \<Rightarrow> 'w outside \<Rightarrow> pystr \<Rightarrow> ('w, unit) ui" where
  "choose_workspace lib out selected =
     (if selected = [] then ret ()
      else andThen (modify (\<lambda>s. s\<lparr>ui_workspace_var := selected\<rparr>))
        (chain (save_settings lib out) (\<lambda>saved. ret ())))"

definition choose_results :: "py_lib \<Rightarrow> 'w outside \<Rightarrow> pystr \<Rightarrow> ('w, unit) ui" where
  "choose_results lib out selected =
     (if selected = [] then ret ()
      else andThen (modify (\<lambda>s. s\<lparr>ui_results_var := selected\<rparr>))
        (chain (save_settings lib out) (\<lambda>saved. ret ())))"

end
