(* ===== verification/Dash_Jobs.thy ===== *)
theory Dash_Jobs
  imports Dash_Config
begin

text \<open>
  What the dashboard asks of Docker and of the coordinator, and the closures it runs in the background
  (\<open>dashboard/helix_dashboard.py\<close>). A closure puts events for the window into a queue; its loops poll a
  clock, so it is bounded by fuel, and \<open>None\<close> is a closure that is still running.
\<close>

section \<open>Docker\<close>

definition docker_env :: "'w outside \<Rightarrow> dash_config \<Rightarrow> ('w, py_error, pystr \<times> pystr) proc" where
  "docker_env out c =
     chain (\<lambda>w. (out_resolve out w (dc_workspace c), w)) (\<lambda>p.
     chain (\<lambda>w. (out_resolve out w (dc_results c), w)) (\<lambda>q. ret (out_str out p, out_str out q)))"

text \<open>\<open>run_command\<close>: the return code and the two outputs.\<close>

definition run_command :: "'w outside \<Rightarrow> pystr list \<Rightarrow> dash_config \<Rightarrow> int \<Rightarrow> bool \<Rightarrow> ('w, py_error, int \<times> pystr \<times> pystr) proc" where
  "run_command out args c timeout check = chain (docker_env out c) (\<lambda>(ws, rs) w.
     case out_run out \<lparr>cmd_args = args, cmd_workspace = ws, cmd_results = rs, cmd_timeout = timeout\<rparr> w of
       (Finished code text err, w') \<Rightarrow> if check \<and> code \<noteq> 0 then (Inl (Process_error code), w') else (Inr (code, text, err), w')
     | (Overdue, w') \<Rightarrow> (Inl Timeout_expired, w')
     | (Not_started t, w') \<Rightarrow> (Inl (Os_error t), w'))"

definition scale_args :: "dash_config \<Rightarrow> pystr list" where
  "scale_args c = [lit ''--scale'', lit ''worker='' @ show_int (dc_workers c)]"

definition up_args :: "dash_config \<Rightarrow> pystr list" where
  "up_args c = [lit ''docker'', lit ''compose'', lit ''up'', lit ''-d''] @ scale_args c"

definition build_args :: "dash_config \<Rightarrow> pystr list" where
  "build_args c = [lit ''docker'', lit ''compose'', lit ''up'', lit ''-d'', lit ''--build''] @ scale_args c"

definition down_args :: "pystr list" where
  "down_args = [lit ''docker'', lit ''compose'', lit ''down'']"

definition logs_args :: "pystr list" where
  "logs_args = [lit ''docker'', lit ''compose'', lit ''logs'', lit ''--no-color'', lit ''--tail'', lit ''350'']"

definition compose_up :: "'w outside \<Rightarrow> dash_config \<Rightarrow> ('w, py_error, unit) proc" where
  "compose_up out c = chain (run_command out (up_args c) c 180 False) (\<lambda>(code, _, _).
     if code = 0 then ret ()
     else chain (run_command out (build_args c) c 900 True) (\<lambda>_. ret ()))"

definition docker_available :: "'w outside \<Rightarrow> 'w \<Rightarrow> bool \<times> 'w" where
  "docker_available out w = (case out_docker_info out w of
     (Finished code _ _, w') \<Rightarrow> (code = 0, w') | (_, w') \<Rightarrow> (False, w'))"

fun launch_candidate :: "'w outside \<Rightarrow> pystr list \<Rightarrow> ('w, py_error, bool) proc" where
  "launch_candidate out [] = ret False"
| "launch_candidate out (p # ps) = chain (reads (\<lambda>w. out_exists out w p)) (\<lambda>found.
     if found then andThen (out_popen out [p]) (ret True) else launch_candidate out ps)"

definition launch_docker_desktop :: "'w outside \<Rightarrow> ('w, py_error, bool) proc" where
  "launch_docker_desktop out = (\<lambda>w. case docker_available out w of
     (True, w') \<Rightarrow> (Inr True, w') | (False, w') \<Rightarrow> launch_candidate out (out_desktops out) w')"

section \<open>The coordinator\<close>

definition api_base :: pystr where
  "api_base = lit ''http://127.0.0.1:8080''"

definition dash_request :: "py_lib \<Rightarrow> 'w outside \<Rightarrow> string \<Rightarrow> pystr \<Rightarrow> json option \<Rightarrow> rat \<Rightarrow> ('w, py_error, json) proc" where
  "dash_request lib out method path body timeout = (\<lambda>w.
     case out_send out \<lparr>rq_method = method, rq_url = api_base @ path,
         rq_headers = (lit ''Accept'', lit ''application/json'') #
           (if body = None then [] else [(lit ''Content-Type'', lit ''application/json'')]),
         rq_body = map_option (py_dumps lib) body, rq_timeout = timeout\<rparr> w of
       (Body t, w') \<Rightarrow>
         if t = [] then (Inr (JDict []), w')
         else (case py_loads lib t of None \<Rightarrow> (Inl (Value_error t), w') | Some v \<Rightarrow> (Inr v, w'))
     | (Status code t, w') \<Rightarrow> (Inl (Http_error code t), w')
     | (No_route t, w') \<Rightarrow> (Inl (Url_error t), w')
     | (Broken e, w') \<Rightarrow> (Inl (case e of Wire_os t \<Rightarrow> Os_error t | Wire_value t \<Rightarrow> Value_error t
         | Wire_other t \<Rightarrow> Other_error t), w'))"

text \<open>\<open>coordinator_online\<close>: every exception is an answer of \<open>False\<close>.\<close>

definition coordinator_online :: "py_lib \<Rightarrow> 'w outside \<Rightarrow> 'w \<Rightarrow> bool \<times> 'w" where
  "coordinator_online lib out w =
     (case chain (dash_request lib out ''GET'' (lit ''/healthz'') None (3/2)) (\<lambda>v. of_result (get_or ''status'' JNull v)) w of
        (Inl _, w') \<Rightarrow> (False, w')
      | (Inr v, w') \<Rightarrow> (v = JStr (lit ''ok''), w'))"

section \<open>Background closures\<close>

record 'w bg =
  bg_world :: 'w
  bg_put :: "dash_event list"

type_synonym ('w, 'a) job = "('w bg, py_error, 'a) run"

definition job_call :: "('w, py_error, 'a) proc \<Rightarrow> ('w, 'a) job" where
  "job_call c s = (case c (bg_world s) of (r, w) \<Rightarrow> Some (r, s\<lparr>bg_world := w\<rparr>))"

definition job_ask :: "('w \<Rightarrow> 'a \<times> 'w) \<Rightarrow> ('w, 'a) job" where
  "job_ask f s = (case f (bg_world s) of (x, w) \<Rightarrow> Some (Inr x, s\<lparr>bg_world := w\<rparr>))"

definition job_put :: "dash_event \<Rightarrow> ('w, unit) job" where
  "job_put e s = Some (Inr (), s\<lparr>bg_put := bg_put s @ [e]\<rparr>)"

text \<open>\<open>while time.monotonic() < deadline: if check(): return; time.sleep(period)\<close>, and whether it returned.\<close>

fun poll_until :: "'w outside \<Rightarrow> ('w \<Rightarrow> bool \<times> 'w) \<Rightarrow> rat \<Rightarrow> rat \<Rightarrow> nat \<Rightarrow> ('w, bool) job" where
  "poll_until out check deadline period 0 s = None"
| "poll_until out check deadline period (Suc n) s =
     (case out_clock out (bg_world s) of (now, w1) \<Rightarrow>
        if now < deadline then
          (case check w1 of (answer, w2) \<Rightarrow>
             if answer then Some (Inr True, s\<lparr>bg_world := w2\<rparr>)
             else poll_until out check deadline period n (s\<lparr>bg_world := out_sleep out period w2\<rparr>))
        else Some (Inr False, s\<lparr>bg_world := w1\<rparr>))"

definition no_docker_text :: pystr where
  "no_docker_text = lit ''Docker Desktop blev ikke fundet. K'' @ [248] @ lit ''r windows-install.bat igen.''"

definition docker_stuck_text :: pystr where
  "docker_stuck_text = lit ''Docker Desktop startede ikke. '' @ [197] @ lit ''bn Docker Desktop og pr'' @ [248] @ lit ''v igen.''"

definition wait_for_docker :: "'w outside \<Rightarrow> rat \<Rightarrow> nat \<Rightarrow> ('w, unit) job" where
  "wait_for_docker out seconds fuel =
     run_then (job_ask (docker_available out)) (\<lambda>up.
       if up then run_ret ()
       else run_then (job_call (launch_docker_desktop out)) (\<lambda>launched.
         if \<not> launched then run_raise (Runtime_error no_docker_text)
         else run_then (job_ask (out_clock out)) (\<lambda>now.
           run_then (poll_until out (docker_available out) (now + seconds) 2 fuel) (\<lambda>ready.
             if ready then run_ret () else run_raise (Runtime_error docker_stuck_text)))))"

definition starting_text :: pystr where "starting_text = lit ''Starter Docker'' @ [8230]"

definition running_text :: pystr where "running_text = lit ''HelixGrid k'' @ [248] @ lit ''rer''"

definition stopped_text :: pystr where "stopped_text = lit ''HelixGrid stoppet''"

definition restarted_text :: pystr where "restarted_text = lit ''HelixGrid genstartet''"

definition logs_text :: pystr where "logs_text = lit ''Logs opdateret''"

definition not_ready_text :: pystr where
  "not_ready_text = lit ''Coordinator blev ikke klar. Se fanen Logs.''"

definition start_work :: "py_lib \<Rightarrow> 'w outside \<Rightarrow> nat \<Rightarrow> dash_config \<Rightarrow> ('w, pystr) job" where
  "start_work lib out fuel c =
     run_then (job_put (Show_status starting_text)) (\<lambda>_.
     run_then (wait_for_docker out 90 fuel) (\<lambda>_.
     run_then (job_call (compose_up out c)) (\<lambda>_.
     run_then (job_ask (out_clock out)) (\<lambda>now.
     run_then (poll_until out (coordinator_online lib out) (now + 60) 1 fuel) (\<lambda>online.
       if online then run_ret running_text else run_raise (Runtime_error not_ready_text))))))"

definition stop_work :: "'w outside \<Rightarrow> dash_config \<Rightarrow> ('w, pystr) job" where
  "stop_work out c = run_then (job_ask (docker_available out)) (\<lambda>up.
     if up then run_then (job_call (run_command out down_args c 120 False)) (\<lambda>_. run_ret stopped_text)
     else run_ret stopped_text)"

definition restart_work :: "'w outside \<Rightarrow> nat \<Rightarrow> dash_config \<Rightarrow> ('w, pystr) job" where
  "restart_work out fuel c =
     run_then (wait_for_docker out 90 fuel) (\<lambda>_.
     run_then (job_call (run_command out down_args c 120 False)) (\<lambda>_.
     run_then (job_call (compose_up out c)) (\<lambda>_. run_ret restarted_text)))"

definition example_file :: "run_mode \<Rightarrow> pystr" where
  "example_file mode = (case mode of Audit \<Rightarrow> lit ''windows-file-audit.json'' | Backup \<Rightarrow> lit ''windows-file-backup.json'')"

definition finished_text :: "run_mode \<Rightarrow> pystr" where
  "finished_text mode = (case mode of Audit \<Rightarrow> lit ''Audit f'' @ [230] @ lit ''rdig'' | Backup \<Rightarrow> lit ''Backup f'' @ [230] @ lit ''rdig'')"

text \<open>\<open>status in TERMINAL_STATES\<close>; a list or an object is not hashable.\<close>

definition in_terminal_states :: "json \<Rightarrow> py_error + bool" where
  "in_terminal_states v = (case v of
     JStr s \<Rightarrow> Inr (s \<in> {lit ''SUCCEEDED'', lit ''FAILED'', lit ''CANCELLED''})
   | JList _ \<Rightarrow> Inl Type_error | JDict _ \<Rightarrow> Inl Type_error | _ \<Rightarrow> Inr False)"

text \<open>One turn of the loop that follows a workflow; \<open>Some\<close> ends it.\<close>

definition follow_once :: "py_lib \<Rightarrow> 'w outside \<Rightarrow> run_mode \<Rightarrow> json \<Rightarrow> json \<Rightarrow> ('w, pystr option) job" where
  "follow_once lib out mode payload i =
     run_then (job_call (dash_request lib out ''GET'' (lit ''/v1/workflows/'' @ str_of lib i) None 10)) (\<lambda>answer.
     run_then (job_call (of_result (subscript ''data'' answer))) (\<lambda>state.
     run_then (job_call (of_result (subscript ''state'' state))) (\<lambda>status.
     run_then (job_call (of_result (subscript ''name'' payload))) (\<lambda>name.
     run_then (job_put (Progress (str_of lib name @ lit '': '' @ str_of lib status))) (\<lambda>_.
     run_then (job_call (of_result (in_terminal_states status))) (\<lambda>finished.
       if \<not> finished then run_ret None
       else if status \<noteq> JStr (lit ''SUCCEEDED'')
         then run_raise (Runtime_error (lit ''Workflow endte som '' @ str_of lib status))
       else run_ret (Some (finished_text mode))))))))"

fun follow :: "py_lib \<Rightarrow> 'w outside \<Rightarrow> run_mode \<Rightarrow> json \<Rightarrow> json \<Rightarrow> nat \<Rightarrow> ('w, pystr) job" where
  "follow lib out mode payload i 0 s = None"
| "follow lib out mode payload i (Suc n) s =
     run_then (follow_once lib out mode payload i) (\<lambda>r. case r of
        Some text \<Rightarrow> run_ret text
      | None \<Rightarrow> run_then (job_ask (\<lambda>w. ((), out_sleep out (4/5) w))) (\<lambda>_. follow lib out mode payload i n)) s"

definition no_coordinator_text :: pystr where "no_coordinator_text = lit ''Coordinator er ikke klar''"

definition run_work :: "py_lib \<Rightarrow> 'w outside \<Rightarrow> nat \<Rightarrow> run_mode \<Rightarrow> dash_config \<Rightarrow> ('w, pystr) job" where
  "run_work lib out fuel mode c =
     run_then (wait_for_docker out 90 fuel) (\<lambda>_.
     run_then (job_call (compose_up out c)) (\<lambda>_.
     run_then (job_ask (out_clock out)) (\<lambda>now.
     run_then (poll_until out (coordinator_online lib out) (now + 60) 1 fuel) (\<lambda>_.
     run_then (job_ask (coordinator_online lib out)) (\<lambda>online.
       if \<not> online then run_raise (Runtime_error no_coordinator_text)
       else run_then (job_call (\<lambda>w. (out_example out (example_file mode) w, w))) (\<lambda>payload.
         run_then (job_call (dash_request lib out ''POST'' (lit ''/v1/workflows'') (Some payload) 10)) (\<lambda>response.
         run_then (job_call (of_result (subscript ''data'' response))) (\<lambda>workflow.
         run_then (job_call (of_result (subscript ''id'' workflow))) (\<lambda>i.
         run_then (job_put (Workflow_started i)) (\<lambda>_.
           follow lib out mode payload i fuel))))))))))"

definition logs_work :: "'w outside \<Rightarrow> dash_config \<Rightarrow> ('w, pystr) job" where
  "logs_work out c = run_then (job_call (run_command out logs_args c 20 False)) (\<lambda>(_, text, err).
     run_then (job_put (Logs (text @ err))) (\<lambda>_. run_ret logs_text))"

definition work_of :: "py_lib \<Rightarrow> 'w outside \<Rightarrow> nat \<Rightarrow> dash_job \<Rightarrow> ('w, pystr) job" where
  "work_of lib out fuel j = (case j of
     Start_job c \<Rightarrow> start_work lib out fuel c
   | Stop_job c \<Rightarrow> stop_work out c
   | Restart_job c \<Rightarrow> restart_work out fuel c
   | Run_job mode c \<Rightarrow> run_work lib out fuel mode c
   | Logs_job c \<Rightarrow> logs_work out c)"

text \<open>\<open>runner\<close> of \<open>_background\<close>: the outcome, and then in any case the end.\<close>

definition runner :: "('w, pystr) job \<Rightarrow> 'w bg \<Rightarrow> 'w bg option" where
  "runner fn s = (case fn s of
     None \<Rightarrow> None
   | Some (Inr text, s') \<Rightarrow> Some (s'\<lparr>bg_put := bg_put s' @ [Success text, Idle]\<rparr>)
   | Some (Inl e, s') \<Rightarrow> Some (s'\<lparr>bg_put := bg_put s' @ [Failure e, Idle]\<rparr>))"

text \<open>\<open>probe\<close> of \<open>refresh_status\<close>; what the first request gave stays when the second fails.\<close>

definition get_data :: "py_lib \<Rightarrow> 'w outside \<Rightarrow> pystr \<Rightarrow> rat \<Rightarrow> ('w, py_error, json) proc" where
  "get_data lib out path timeout =
     chain (dash_request lib out ''GET'' path None timeout) (\<lambda>v. of_result (get_or ''data'' (JList []) v))"

definition probe :: "py_lib \<Rightarrow> 'w outside \<Rightarrow> 'w \<Rightarrow> dash_event \<times> 'w" where
  "probe lib out w =
     (case docker_available out w of (docker, w1) \<Rightarrow>
      case (if docker then coordinator_online lib out w1 else (False, w1)) of (coordinator, w2) \<Rightarrow>
        if \<not> coordinator then (Probe docker coordinator (JList []) (JList []), w2)
        else (case get_data lib out (lit ''/v1/workers'') 2 w2 of
            (Inl _, w3) \<Rightarrow> (Probe docker coordinator (JList []) (JList []), w3)
          | (Inr workers, w3) \<Rightarrow>
              (case get_data lib out (lit ''/v1/workflows'') 2 w3 of
                 (Inl _, w4) \<Rightarrow> (Probe docker coordinator workers (JList []), w4)
               | (Inr workflows, w4) \<Rightarrow> (Probe docker coordinator workers workflows, w4))))"

end
