(* ===== verification/Dash_Window.thy ===== *)
theory Dash_Window
  imports Dash_Jobs
begin

text \<open>
  The window of the dashboard (\<open>dashboard/helix_dashboard.py\<close>): its buttons, the event queue it polls, and the
  steps that the window's thread, the background thread and the probes take in any order. What a widget
  looks like is not modelled.
\<close>

section \<open>Background work\<close>

definition already_text :: pystr where "already_text = lit ''Der k'' @ [248] @ lit ''rer allerede en handling''"

definition background :: "pystr \<Rightarrow> dash_job \<Rightarrow> ('w, unit) ui" where
  "background label j = chain (reads ui_busy) (\<lambda>busy.
     if busy then set_status already_text
     else modify (\<lambda>s. s\<lparr>ui_busy := True, ui_activity := label, ui_thread := Some (j, False)\<rparr>))"

text \<open>\<open>if not self.save_settings(): return\<close>, and then the job on the configuration that was saved.\<close>

definition with_saved :: "py_lib \<Rightarrow> 'w outside \<Rightarrow> (dash_config \<Rightarrow> ('w, unit) ui) \<Rightarrow> ('w, unit) ui" where
  "with_saved lib out f = chain (save_settings lib out) (\<lambda>saved.
     if saved then chain (reads ui_config) f else ret ())"

definition start_cluster :: "py_lib \<Rightarrow> 'w outside \<Rightarrow> ('w, unit) ui" where
  "start_cluster lib out = with_saved lib out (\<lambda>c. background (lit ''Starter HelixGrid'' @ [8230]) (Start_job c))"

definition stop_cluster :: "py_lib \<Rightarrow> 'w outside \<Rightarrow> ('w, unit) ui" where
  "stop_cluster lib out = with_saved lib out (\<lambda>c. background (lit ''Stopper'' @ [8230]) (Stop_job c))"

definition restart_cluster :: "py_lib \<Rightarrow> 'w outside \<Rightarrow> ('w, unit) ui" where
  "restart_cluster lib out = with_saved lib out (\<lambda>c. background (lit ''Genstarter'' @ [8230]) (Restart_job c))"

definition run_workflow :: "py_lib \<Rightarrow> 'w outside \<Rightarrow> run_mode \<Rightarrow> ('w, unit) ui" where
  "run_workflow lib out mode = with_saved lib out (\<lambda>c. background
     (case mode of Audit \<Rightarrow> lit ''K'' @ [248] @ lit ''rer audit'' @ [8230] | Backup \<Rightarrow> lit ''Laver backup'' @ [8230]) (Run_job mode c))"

definition refresh_logs :: "py_lib \<Rightarrow> 'w outside \<Rightarrow> ('w, unit) ui" where
  "refresh_logs lib out = with_saved lib out (\<lambda>c. background (lit ''Henter logs'' @ [8230]) (Logs_job c))"

definition ui_online :: "py_lib \<Rightarrow> 'w outside \<Rightarrow> ('w, bool) ui" where
  "ui_online lib out = outside_proc (\<lambda>w. case coordinator_online lib out w of (b, w') \<Rightarrow> (Inr b, w'))"

definition ensure_started :: "py_lib \<Rightarrow> 'w outside \<Rightarrow> ('w, unit) ui" where
  "ensure_started lib out = chain (ui_online lib out) (\<lambda>online.
     if online then ret () else start_cluster lib out)"

section \<open>What is shown\<close>

definition refresh_status :: "('w, unit) ui" where
  "refresh_status = modify (\<lambda>s. s\<lparr>ui_probes := Suc (ui_probes s)\<rparr>)"

text \<open>A row of the table: its id has to be a new one, and the empty id is that of the table itself.\<close>

definition insert_row :: "py_lib \<Rightarrow> json \<Rightarrow> ('w, unit) ui" where
  "insert_row lib v =
     chain (of_result (get_or ''id'' JNull v)) (\<lambda>i.
     chain (of_result (get_or ''name'' (JStr (lit ''?'')) v)) (\<lambda>name.
     chain (of_result (get_or ''state'' (JStr (lit ''?'')) v)) (\<lambda>state.
     chain (of_result (get_or ''created_at'' (JStr []) v)) (\<lambda>created.
     chain (reads ui_tree) (\<lambda>rows.
       let iid = (if i = JNull then None else Some (str_of lib i))
       in if iid \<noteq> None \<and> iid \<in> insert (Some []) (set (map fst rows))
          then raise (Tcl_error (lit ''Item '' @ the iid @ lit '' already exists''))
          else modify (\<lambda>s. s\<lparr>ui_tree := ui_tree s @ [(iid, name, state, created)]\<rparr>))))))"

definition refresh_workflows :: "py_lib \<Rightarrow> 'w outside \<Rightarrow> ('w, unit) ui" where
  "refresh_workflows lib out = chain (ui_online lib out) (\<lambda>online.
     if \<not> online then ret ()
     else chain (catch (chain (outside_proc (get_data lib out (lit ''/v1/workflows'') 3)) (\<lambda>v. ret (Some v)))
         (\<lambda>e. True) (\<lambda>e. ret None)) (\<lambda>r. case r of
       None \<Rightarrow> ret ()
     | Some workflows \<Rightarrow>
         andThen (modify (\<lambda>s. s\<lparr>ui_last_workflows := workflows, ui_tree := []\<rparr>))
           (chain (of_result (iter_of workflows)) (\<lambda>rows. for_each rows (insert_row lib)))))"

definition cancel_selected_workflow :: "py_lib \<Rightarrow> 'w outside \<Rightarrow> pystr list \<Rightarrow> ('w, unit) ui" where
  "cancel_selected_workflow lib out selection = (case selection of
     [] \<Rightarrow> show_dialog (Info_dialog (lit ''V'' @ [230] @ lit ''lg et workflow f'' @ [248] @ lit ''rst.''))
   | i # _ \<Rightarrow> catch
       (chain (outside_proc (dash_request lib out ''POST'' (lit ''/v1/workflows/'' @ i @ lit ''/cancel'') (Some (JDict [])) 5))
         (\<lambda>_. refresh_workflows lib out))
       (\<lambda>e. True) (\<lambda>e. show_dialog (Error_dialog (py_message lib e))))"

definition no_summary_text :: pystr where
  "no_summary_text = lit ''Der er endnu ingen audit-rapport.'' @ [10, 10] @ lit ''V'' @ [230] @ lit ''lg en mappe og klik ''
     @ [8220] @ lit ''Start audit'' @ [8221] @ lit ''.''"

definition load_summary :: "py_lib \<Rightarrow> 'w outside \<Rightarrow> ('w, unit) ui" where
  "load_summary lib out = (\<lambda>s.
     let folder = (if ui_results_var s = [] then dc_results (ui_config s) else ui_results_var s)
     in case out_summary out folder (ui_world s) of
          None \<Rightarrow> (Inr (), s\<lparr>ui_summary := no_summary_text\<rparr>)
        | Some (Inr text) \<Rightarrow> (Inr (), s\<lparr>ui_summary := text\<rparr>)
        | Some (Inl e) \<Rightarrow> if is_os_error e then (Inr (), s\<lparr>ui_summary := py_message lib e\<rparr>) else (Inl e, s))"

definition open_results :: "'w outside \<Rightarrow> ('w, unit) ui" where
  "open_results out = chain (reads ui_results_var) (\<lambda>p.
     andThen (outside_proc (out_mkdir out p)) (outside_proc (out_open out p)))"

definition destroy :: "('w, unit) ui" where
  "destroy = modify (\<lambda>s. s\<lparr>ui_open := False\<rparr>)"

definition on_close :: "py_lib \<Rightarrow> 'w outside \<Rightarrow> ('w, unit) ui" where
  "on_close lib out = chain (save_settings lib out) (\<lambda>saved. destroy)"

definition no_updater_text :: pystr where
  "no_updater_text = lit ''update.bat blev ikke fundet. K'' @ [248] @ lit ''r windows-install.bat igen.''"

definition update_failed_text :: pystr where
  "update_failed_text = lit ''Updateren kunne ikke startes:'' @ [10]"

text \<open>The updater; \<open>agreed\<close> is the answer to the question.\<close>

definition update_helixgrid :: "py_lib \<Rightarrow> 'w outside \<Rightarrow> bool \<Rightarrow> ('w, unit) ui" where
  "update_helixgrid lib out agreed =
     (let updater = out_str out (out_root out @ [lit ''update.bat'']) in
      chain (reads (\<lambda>s. out_exists out (ui_world s) updater)) (\<lambda>found.
        if \<not> found then show_dialog (Error_dialog no_updater_text)
        else if \<not> agreed then ret ()
        else chain (save_settings lib out) (\<lambda>saved.
          chain (catch (andThen (outside_proc (out_popen out [lit ''cmd.exe'', lit ''/c'', updater])) (ret True))
            is_os_error
            (\<lambda>e. andThen (show_dialog (Error_dialog (update_failed_text @ py_message lib e))) (ret False)))
          (\<lambda>started. if started then destroy else ret ()))))"

section \<open>Events\<close>

text \<open>\<open>_handle_custom_event\<close>: whether the event was one of its own.\<close>

definition handle_custom_event :: "py_lib \<Rightarrow> dash_event \<Rightarrow> ('w, bool) ui" where
  "handle_custom_event lib e = (case e of
     Probe docker coordinator workers workflows \<Rightarrow>
       andThen (modify (\<lambda>s. s\<lparr>ui_docker := (if docker then lit ''K'' @ [248] @ lit ''rer'' else lit ''Stoppet'')\<rparr>))
      (andThen (modify (\<lambda>s. s\<lparr>ui_coordinator := (if coordinator then lit ''Online'' else lit ''Offline'')\<rparr>))
      (chain (of_result (len_of workers)) (\<lambda>n.
       andThen (modify (\<lambda>s. s\<lparr>ui_workers_label := show_int n @ lit '' workers''\<rparr>))
      (chain (of_result (len_of workflows)) (\<lambda>k.
       andThen (modify (\<lambda>s. s\<lparr>ui_workflows_label := show_int k @ lit '' workflows''\<rparr>))
      (andThen (set_status (if coordinator then lit ''Systemet er klar'' else lit ''HelixGrid er ikke startet''))
      (ret True)))))))
   | Logs text \<Rightarrow> andThen (modify (\<lambda>s. s\<lparr>ui_logs := text\<rparr>)) (ret True)
   | Progress text \<Rightarrow> andThen (set_status text) (ret True)
   | Workflow_started i \<Rightarrow> andThen (set_status (lit ''Workflow startet: '' @ str_of lib i)) (ret True)
   | Show_status text \<Rightarrow> andThen (set_status text) (ret True)
   | _ \<Rightarrow> ret False)"

definition handle_event :: "py_lib \<Rightarrow> 'w outside \<Rightarrow> dash_event \<Rightarrow> ('w, unit) ui" where
  "handle_event lib out e = chain (handle_custom_event lib e) (\<lambda>handled.
     if handled then ret ()
     else case e of
       Success text \<Rightarrow> if text = [] then ret () else set_status text
     | Failure err \<Rightarrow> andThen (set_status (lit ''Fejl: '' @ py_message lib err))
         (show_dialog (Error_dialog (py_message lib err)))
     | Idle \<Rightarrow> andThen (modify (\<lambda>s. s\<lparr>ui_busy := False, ui_activity := lit ''Klar''\<rparr>))
         (andThen refresh_status (andThen (refresh_workflows lib out) (load_summary lib out)))
     | _ \<Rightarrow> ret ())"

definition take_event :: "py_lib \<Rightarrow> 'w outside \<Rightarrow> dash_event \<Rightarrow> ('w, unit) ui" where
  "take_event lib out e = andThen (modify (\<lambda>s. s\<lparr>ui_events := tl (ui_events s)\<rparr>)) (handle_event lib out e)"

text \<open>
  \<open>_poll_events\<close>: the timer calls it; it takes one event after the other, also those that are put
  while it runs; when the queue is empty it schedules the next call. A handler that raises ends the call
  before that.
\<close>

definition poll_begin :: "'w window \<Rightarrow> 'w window" where
  "poll_begin s = s\<lparr>ui_polling := False, ui_draining := True\<rparr>"

definition schedule_poll :: "('w, unit) ui" where
  "schedule_poll = modify (\<lambda>s. s\<lparr>ui_draining := False, ui_polling := True\<rparr>)"

definition poll_turn :: "py_lib \<Rightarrow> 'w outside \<Rightarrow> ('w, unit) ui" where
  "poll_turn lib out s = (case ui_events s of
     [] \<Rightarrow> schedule_poll s
   | e # es \<Rightarrow> (case take_event lib out e s of
         (Inl err, t) \<Rightarrow> (Inl err, t\<lparr>ui_draining := False\<rparr>)
       | (Inr u, t) \<Rightarrow> (Inr u, t)))"

section \<open>The window at work\<close>

definition checking_text :: pystr where "checking_text = lit ''Kontrollerer'' @ [8230]"

text \<open>The construction of the window; \<open>_build_results\<close> loads the report, and an error of it that is no
  \<open>OSError\<close> escapes.\<close>

definition fresh_window :: "dash_config \<Rightarrow> 'w \<Rightarrow> 'w window" where
  "fresh_window c w =
     \<lparr>ui_config = c, ui_workspace_var = dc_workspace c, ui_results_var = dc_results c,
      ui_workers_var = show_int (dc_workers c), ui_auto_var = dc_auto_start c,
      ui_status = lit ''Kontrollerer systemet'' @ [8230], ui_docker = checking_text, ui_coordinator = checking_text,
      ui_workers_label = lit ''0 workers'', ui_workflows_label = lit ''0 workflows'', ui_activity = lit ''Klar'',
      ui_events = [], ui_busy = False, ui_thread = None, ui_probes = 0, ui_polling = True, ui_draining = False,
      ui_open = True, ui_last_workflows = JList [], ui_tree = [], ui_logs = [], ui_summary = [], ui_dialogs = [],
      ui_world = w\<rparr>"

definition new_window :: "py_lib \<Rightarrow> 'w outside \<Rightarrow> 'w \<Rightarrow> (py_error + 'w window) \<times> 'w" where
  "new_window lib out =
     chain (\<lambda>w. (load_config lib out w, w)) (\<lambda>c.
     andThen (out_mkdir out (dc_workspace c))
    (andThen (out_mkdir out (dc_results c))
    (chain (reads (fresh_window c)) (\<lambda>s.
       of_result (case load_summary lib out s of (Inl e, t) \<Rightarrow> Inl e | (Inr _, t) \<Rightarrow> Inr t)))))"

text \<open>What the user and the timers do: buttons, fields, the answers to dialogs.\<close>

datatype ui_action =
  Press_start | Press_stop | Press_restart | Press_run run_mode | Press_logs | Press_save | Press_refresh
  | Press_list | Press_cancel "pystr list" | Press_summary | Press_open | Press_update bool | Auto_start | Close
  | Pick_workspace pystr | Pick_results pystr | Edit_workspace pystr | Edit_results pystr | Edit_workers pystr
  | Toggle_auto bool | Clear_logs

definition dispatch :: "py_lib \<Rightarrow> 'w outside \<Rightarrow> ui_action \<Rightarrow> ('w, unit) ui" where
  "dispatch lib out a = (case a of
     Press_start \<Rightarrow> start_cluster lib out
   | Press_stop \<Rightarrow> stop_cluster lib out
   | Press_restart \<Rightarrow> restart_cluster lib out
   | Press_run mode \<Rightarrow> run_workflow lib out mode
   | Press_logs \<Rightarrow> refresh_logs lib out
   | Press_save \<Rightarrow> chain (save_settings lib out) (\<lambda>saved. ret ())
   | Press_refresh \<Rightarrow> refresh_status
   | Press_list \<Rightarrow> refresh_workflows lib out
   | Press_cancel selection \<Rightarrow> cancel_selected_workflow lib out selection
   | Press_summary \<Rightarrow> load_summary lib out
   | Press_open \<Rightarrow> open_results out
   | Press_update agreed \<Rightarrow> update_helixgrid lib out agreed
   | Auto_start \<Rightarrow> ensure_started lib out
   | Close \<Rightarrow> on_close lib out
   | Pick_workspace p \<Rightarrow> choose_workspace lib out p
   | Pick_results p \<Rightarrow> choose_results lib out p
   | Edit_workspace t \<Rightarrow> modify (\<lambda>s. s\<lparr>ui_workspace_var := t\<rparr>)
   | Edit_results t \<Rightarrow> modify (\<lambda>s. s\<lparr>ui_results_var := t\<rparr>)
   | Edit_workers t \<Rightarrow> modify (\<lambda>s. s\<lparr>ui_workers_var := t\<rparr>)
   | Toggle_auto b \<Rightarrow> andThen (modify (\<lambda>s. s\<lparr>ui_auto_var := b\<rparr>)) (chain (save_settings lib out) (\<lambda>saved. ret ()))
   | Clear_logs \<Rightarrow> modify (\<lambda>s. s\<lparr>ui_logs := []\<rparr>))"

text \<open>The events that end a job, and those a job may put before.\<close>

fun job_outcome :: "dash_event \<Rightarrow> bool" where
  "job_outcome (Success text) = True" | "job_outcome (Failure e) = True" | "job_outcome e = False"

definition closing_event :: "dash_event \<Rightarrow> bool" where
  "closing_event e \<longleftrightarrow> job_outcome e \<or> e = Idle"

text \<open>What a closure puts while it runs.\<close>

fun job_event :: "dash_event \<Rightarrow> bool" where
  "job_event (Logs text) = True" | "job_event (Progress text) = True" | "job_event (Workflow_started i) = True"
| "job_event (Show_status text) = True" | "job_event e = False"

text \<open>The polling of the window's thread.\<close>

inductive poll_step :: "py_lib \<Rightarrow> 'w outside \<Rightarrow> 'w window \<Rightarrow> 'w window \<Rightarrow> bool" for lib out where
  begins: "ui_open s \<Longrightarrow> ui_polling s \<Longrightarrow> poll_step lib out s (poll_begin s)"
| turn: "ui_draining s \<Longrightarrow> poll_turn lib out s = (r, t) \<Longrightarrow> poll_step lib out s t"

text \<open>One step of the window's thread, of the background thread, of a probe, or of the world outside.
  A button whose handler raises leaves the window as it was when it raised.\<close>

inductive dash_step :: "py_lib \<Rightarrow> 'w outside \<Rightarrow> 'w window \<Rightarrow> 'w window \<Rightarrow> bool" for lib out where
  act: "ui_open s \<Longrightarrow> dispatch lib out a s = (r, t) \<Longrightarrow> dash_step lib out s t"
| poll: "poll_step lib out s t \<Longrightarrow> dash_step lib out s t"
| thread_puts: "ui_thread s = Some (j, False) \<Longrightarrow> job_event e \<Longrightarrow> dash_step lib out s (s\<lparr>ui_events := ui_events s @ [e]\<rparr>)"
| thread_ends: "ui_thread s = Some (j, False) \<Longrightarrow> job_outcome e \<Longrightarrow>
    dash_step lib out s (s\<lparr>ui_events := ui_events s @ [e], ui_thread := Some (j, True)\<rparr>)"
| thread_idle: "ui_thread s = Some (j, True) \<Longrightarrow>
    dash_step lib out s (s\<lparr>ui_events := ui_events s @ [Idle], ui_thread := None\<rparr>)"
| probe_ends: "ui_probes s = Suc n \<Longrightarrow> probe lib out (ui_world s) = (e, w) \<Longrightarrow>
    dash_step lib out s (s\<lparr>ui_events := ui_events s @ [e], ui_probes := n, ui_world := w\<rparr>)"
| outside_moves: "dash_step lib out s (s\<lparr>ui_world := w\<rparr>)"

inductive_cases dash_stepE: "dash_step lib out s t"

definition opened :: "py_lib \<Rightarrow> 'w outside \<Rightarrow> 'w window \<Rightarrow> bool" where
  "opened lib out s \<longleftrightarrow> (\<exists>w w'. new_window lib out w = (Inr s, w'))"

definition dash_reachable :: "py_lib \<Rightarrow> 'w outside \<Rightarrow> 'w window \<Rightarrow> bool" where
  "dash_reachable lib out t \<longleftrightarrow> (\<exists>s. opened lib out s \<and> (dash_step lib out)\<^sup>*\<^sup>* s t)"

end
