(* ===== verification/Dash_Facts.thy ===== *)
theory Dash_Facts
  imports Dash_Window
begin

text \<open>
  The invariant of the dashboard's window: at most one job runs, the busy flag is set from its start
  until its last event is handled, and its configuration is a valid one. Every step keeps it.
\<close>

section \<open>Valid configurations\<close>

definition valid_config :: "'w outside \<Rightarrow> dash_config \<Rightarrow> bool" where
  "valid_config out c \<longleftrightarrow> 1 \<le> dc_workers c \<and> dc_workers c \<le> 16
     \<and> (\<exists>p q. dc_workspace c = out_str out p \<and> dc_results c = out_str out q \<and> \<not> nested out p q)"

fun job_config :: "dash_job \<Rightarrow> dash_config" where
  "job_config (Start_job c) = c" | "job_config (Stop_job c) = c" | "job_config (Restart_job c) = c"
| "job_config (Run_job mode c) = c" | "job_config (Logs_job c) = c"

lemma clamp_bounds: "1 \<le> clamp_workers n" "clamp_workers n \<le> 16"
  by (simp_all add: clamp_workers_def)

lemma clamp_id: "1 \<le> n \<Longrightarrow> n \<le> 16 \<Longrightarrow> clamp_workers n = n"
  by (simp add: clamp_workers_def)

lemma chain_returns: "chain c f s = (Inr y, t) \<longleftrightarrow> (\<exists>x u. c s = (Inr x, u) \<and> f x u = (Inr y, t))"
  by (auto simp: chain_def split: prod.splits sum.splits)

lemma andThen_returns: "andThen c d s = (Inr y, t) \<longleftrightarrow> (\<exists>u. c s = (Inr (), u) \<and> d u = (Inr y, t))"
  by (simp add: andThen_def chain_returns)

lemma simple_returns:
  "ret x s = (Inr y, t) \<longleftrightarrow> y = x \<and> t = s" "\<not> raise e s = (Inr y, t)"
  "reads f s = (Inr y', t) \<longleftrightarrow> y' = f s \<and> t = s" "modify g s = (Inr u, t) \<longleftrightarrow> t = g s"
  "of_result r s = (Inr z, t) \<longleftrightarrow> r = Inr z \<and> t = s"
  by (auto simp: ret_def raise_def reads_def modify_def of_result_def)

lemma catch_Inr:
  "catch c matching handler s = (Inr y, t) \<Longrightarrow>
     c s = (Inr y, t) \<or> (\<exists>e u. c s = (Inl e, u) \<and> matching e \<and> handler e u = (Inr y, t))"
  by (auto simp: catch_def split: prod.splits sum.splits if_splits)

lemmas returns_iffs = chain_returns andThen_returns simple_returns

lemma current_config_valid:
  assumes "current_config out s = (Inr c, t)"
  shows "valid_config out c"
proof -
  obtain workers p q auto where "\<not> nested out p q"
    "c = \<lparr>dc_workspace = out_str out p, dc_results = out_str out q, dc_workers = clamp_workers workers, dc_auto_start = auto\<rparr>"
    using assms unfolding current_config_def returns_iffs by (auto simp: returns_iffs split: if_splits)
  then show ?thesis using clamp_bounds by (auto simp: valid_config_def)
qed

text \<open>A saved configuration comes from the fields, is valid, and is what was written.\<close>

lemma save_settings_saved:
  assumes "save_settings lib out s = (Inr True, t)"
  obtains c u w where "current_config out s = (Inr c, u)" "ui_config t = c"
    "save_config lib out c w = (Inr (), ui_world t)" "valid_config out c"
proof -
  obtain r u where r: "catch (chain (current_config out) (\<lambda>c. ret (Some c))) (\<lambda>e. is_value_error e \<or> is_os_error e)
       (\<lambda>e. andThen (show_dialog (Error_dialog (py_message lib e))) (ret None)) s = (Inr r, u)"
    and rest: "(case r of None \<Rightarrow> ret False | Some c \<Rightarrow>
         andThen (outside_proc (out_mkdir out (dc_workspace c)))
        (andThen (outside_proc (out_mkdir out (dc_results c)))
        (andThen (outside_proc (save_config lib out c))
        (andThen (modify (\<lambda>s. s\<lparr>ui_config := c\<rparr>))
        (andThen (set_status (lit ''Indstillinger gemt''))
        (ret True)))))) u = (Inr True, t)"
    using assms unfolding save_settings_def chain_returns by blast
  obtain c where c: "r = Some c" using rest by (cases r) (auto simp: simple_returns)
  have cur: "current_config out s = (Inr c, u)"
    using catch_Inr [OF r] c by (auto simp: returns_iffs)
  obtain w where "save_config lib out c w = (Inr (), ui_world t) \<and> ui_config t = c"
    using rest c unfolding outside_proc_def set_status_def by (auto simp: returns_iffs split: prod.splits)
  then show ?thesis using that cur current_config_valid [OF cur] by blast
qed

section \<open>What leaves the queue and the flags alone\<close>

type_synonym core = "dash_event list \<times> bool \<times> (dash_job \<times> bool) option"

abbreviation window_core :: "'w window \<Rightarrow> core \<times> bool \<times> bool" where
  "window_core s \<equiv> ((ui_events s, ui_busy s, ui_thread s), ui_polling s, ui_draining s)"

definition steady :: "core \<times> bool \<times> bool \<Rightarrow> 'w window \<Rightarrow> bool" where
  "steady c s \<longleftrightarrow> window_core s = c"

abbreviation stays :: "core \<times> bool \<times> bool \<Rightarrow> (py_error + 'a) \<times> 'w window \<Rightarrow> bool" where
  "stays c \<equiv> keeps (steady c) (\<lambda>_. True)"

named_theorems stays_rules \<open>operations that leave the queue, the flag and the thread alone\<close>

lemma keeps_outside [stays_rules]: "steady c s \<Longrightarrow> stays c (outside_proc f s)"
  by (auto simp: outside_proc_def steady_def keeps_def split: prod.splits)

lemma keeps_result [stays_rules]: "I s \<Longrightarrow> keeps I (\<lambda>_. True) (of_result r s)"
  by (simp add: keeps_def of_result_def)

lemma keeps_reads [stays_rules]: "I s \<Longrightarrow> keeps I F (reads f s)"
  by (simp add: keeps_def reads_def)

lemma keeps_raise_any [stays_rules]: "I s \<Longrightarrow> keeps I (\<lambda>_. True) (raise e s)"
  by (simp add: keeps_raise)

lemma keeps_catch_any [stays_rules]:
  "keeps I (\<lambda>_. True) (c s) \<Longrightarrow> (\<And>e s'. I s' \<Longrightarrow> keeps I (\<lambda>_. True) (handler e s')) \<Longrightarrow>
     keeps I (\<lambda>_. True) (catch c matching handler s)"
  by (rule keeps_catch [where G = "\<lambda>_. True"]) auto

lemma keeps_chain_any [stays_rules]:
  "keeps I F (c s) \<Longrightarrow> (\<And>x s'. I s' \<Longrightarrow> keeps I F (f x s')) \<Longrightarrow> keeps I F (chain c f s)"
  by (rule keeps_chain)

lemma keeps_andThen_any [stays_rules]:
  "keeps I F (c s) \<Longrightarrow> (\<And>s'. I s' \<Longrightarrow> keeps I F (d s')) \<Longrightarrow> keeps I F (andThen c d s)"
  by (rule keeps_andThen)

lemmas [stays_rules] = keeps_ret keeps_modify keeps_for_each

lemma stays_status [stays_rules]: "steady c s \<Longrightarrow> stays c (set_status t s)"
  by (simp add: set_status_def keeps_modify steady_def)

lemma stays_dialog [stays_rules]: "steady c s \<Longrightarrow> stays c (show_dialog d s)"
  by (simp add: show_dialog_def keeps_modify steady_def)

lemma stays_refresh_status [stays_rules]: "steady c s \<Longrightarrow> stays c (refresh_status s)"
  by (simp add: refresh_status_def keeps_modify steady_def)

lemma stays_resolve: "steady c s \<Longrightarrow> stays c (of_result (f s) s)"
  by (rule keeps_result)

lemma stays_current_config [stays_rules]: "steady c s \<Longrightarrow> stays c (current_config out s)"
  unfolding current_config_def read_workers_def
  by (intro stays_rules) (auto simp: steady_def intro!: stays_rules)

lemma stays_save [stays_rules]: "steady c s \<Longrightarrow> stays c (save_settings lib out s)"
  unfolding save_settings_def
  by (intro stays_rules; (assumption | simp add: steady_def)?)
    (auto simp: steady_def split: option.split intro!: stays_rules)

lemma stays_choose [stays_rules]:
  "steady c s \<Longrightarrow> stays c (choose_workspace lib out p s)" "steady c s \<Longrightarrow> stays c (choose_results lib out p s)"
  unfolding choose_workspace_def choose_results_def by (auto simp: steady_def intro!: stays_rules)

lemma stays_online [stays_rules]: "steady c s \<Longrightarrow> stays c (ui_online lib out s)"
  unfolding ui_online_def by (rule keeps_outside)

lemma stays_insert_row [stays_rules]: "steady c s \<Longrightarrow> stays c (insert_row lib v s)"
  unfolding insert_row_def Let_def by (auto simp: steady_def intro!: stays_rules)

lemma stays_list [stays_rules]: "steady c s \<Longrightarrow> stays c (refresh_workflows lib out s)"
  unfolding refresh_workflows_def
  by (auto simp: steady_def split: option.split intro!: stays_rules)

lemma stays_cancel [stays_rules]: "steady c s \<Longrightarrow> stays c (cancel_selected_workflow lib out sel s)"
  unfolding cancel_selected_workflow_def by (auto split: list.split intro!: stays_rules)

lemma stays_summary [stays_rules]: "steady c s \<Longrightarrow> stays c (load_summary lib out s)"
  by (auto simp: load_summary_def Let_def steady_def keeps_def split: option.split sum.split)

lemma stays_open [stays_rules]: "steady c s \<Longrightarrow> stays c (open_results out s)"
  unfolding open_results_def by (auto intro!: stays_rules)

lemma stays_destroy [stays_rules]: "steady c s \<Longrightarrow> stays c (destroy s)"
  by (simp add: destroy_def keeps_modify steady_def)

lemma stays_close [stays_rules]: "steady c s \<Longrightarrow> stays c (on_close lib out s)"
  unfolding on_close_def by (intro stays_rules)

lemma stays_update [stays_rules]: "steady c s \<Longrightarrow> stays c (update_helixgrid lib out agreed s)"
  unfolding update_helixgrid_def Let_def by (auto intro!: stays_rules)

lemma stays_custom [stays_rules]: "steady c s \<Longrightarrow> stays c (handle_custom_event lib e s)"
  unfolding handle_custom_event_def by (cases e) (auto simp: steady_def intro!: stays_rules)

section \<open>The invariant\<close>

definition queue_protocol :: "'w outside \<Rightarrow> dash_event list \<times> bool \<times> (dash_job \<times> bool) option \<Rightarrow> bool" where
  "queue_protocol out = (\<lambda>(events, busy, thread). let es = filter closing_event events in
     case thread of
       None \<Rightarrow> (\<not> busy \<and> es = []) \<or> (busy \<and> (es = [Idle] \<or> (\<exists>e. job_outcome e \<and> es = [e, Idle])))
     | Some (j, ended) \<Rightarrow> busy \<and> valid_config out (job_config j)
         \<and> (es = [] \<or> (ended \<and> (\<exists>e. job_outcome e \<and> es = [e]))))"

definition window_ok :: "'w outside \<Rightarrow> 'w window \<Rightarrow> bool" where
  "window_ok out s \<longleftrightarrow> queue_protocol out (ui_events s, ui_busy s, ui_thread s)"

lemmas protocol_defs = window_ok_def queue_protocol_def Let_def

lemma steady_ok: "steady c s \<Longrightarrow> window_ok out s \<longleftrightarrow> queue_protocol out (fst c)"
  by (auto simp: steady_def window_ok_def)

lemma closing_event_simps [simp]: "job_outcome e \<Longrightarrow> closing_event e" "closing_event Idle" "\<not> job_outcome Idle"
  by (simp_all add: closing_event_def)

lemma steady_refl: "steady (window_core s) s"
  by (simp add: steady_def)

lemma stays_ok:
  assumes "\<And>c. steady c s \<Longrightarrow> stays c r" "window_ok out s"
  shows "keeps (window_ok out) (\<lambda>_. True) r"
  using assms(1) [OF steady_refl] assms(2) steady_ok [OF steady_refl] by (auto simp: keeps_def steady_ok)

lemma background_ok:
  assumes "window_ok out s" "valid_config out (job_config j)"
  shows "keeps (window_ok out) (\<lambda>_. True) (background label j s)"
proof (cases "ui_busy s")
  case True
  then show ?thesis
    using assms(1) by (simp add: background_def chain_reads set_status_def keeps_def modify_def window_ok_def)
next
  case False
  then have "filter closing_event (ui_events s) = []"
    using assms(1) by (auto simp: protocol_defs split: option.splits)
  then show ?thesis
    using False assms(2) by (simp add: background_def chain_reads keeps_def modify_def protocol_defs)
qed

text \<open>
  What holds of the queue, the flag and the thread, and is kept by the start of a job on a valid
  configuration, is kept by every button.
\<close>

lemma stays_keeps:
  assumes "\<And>c. steady c s \<Longrightarrow> stays c r" "P (window_core s)"
  shows "keeps (\<lambda>t. P (window_core t)) (\<lambda>_. True) r"
  using assms(1) [OF steady_refl] assms(2) by (simp add: keeps_def steady_def)

lemma dispatch_keeps:
  fixes P lib out s a
  defines "I \<equiv> \<lambda>t :: 'w window. P (window_core t)"
  assumes start: "\<And>label j t. I t \<Longrightarrow> valid_config out (job_config j) \<Longrightarrow> keeps I (\<lambda>_. True) (background label j t)"
    and "I s"
  shows "keeps I (\<lambda>_. True) (dispatch lib out a s)"
proof -
  note jobs = start_cluster_def stop_cluster_def restart_cluster_def run_workflow_def refresh_logs_def
  have job: "keeps I (\<lambda>_. True) (with_saved lib out (\<lambda>c. background label (mk c)) s)"
    if mk: "\<And>c. job_config (mk c) = c" and ok: "I s" for label mk s
    unfolding with_saved_def
  proof (rule keeps_chain)
    show "keeps I (\<lambda>_. True) (save_settings lib out s)"
      using stays_keeps [OF stays_save, where P = P and s = s] ok unfolding I_def by blast
  next
    fix saved t
    assume saved: "save_settings lib out s = (Inr saved, t)" and t: "I t"
    have "valid_config out (ui_config t)" if "saved" using saved that by (metis save_settings_saved)
    then show "keeps I (\<lambda>_. True) ((if saved then chain (reads ui_config) (\<lambda>c. background label (mk c)) else ret ()) t)"
      using start [OF t] mk t by (auto simp: chain_reads keeps_ret)
  qed
  have "keeps I (\<lambda>_. True) (ensure_started lib out s)"
    unfolding ensure_started_def
  proof (rule keeps_chain)
    show "keeps I (\<lambda>_. True) (ui_online lib out s)"
      using stays_keeps [OF stays_online, where P = P and s = s] \<open>I s\<close> unfolding I_def by blast
  next
    fix online t assume "I t"
    then show "keeps I (\<lambda>_. True) ((if online then ret () else start_cluster lib out) t)"
      using job [of Start_job] by (simp add: keeps_ret start_cluster_def)
  qed
  moreover have "\<And>c. steady c s \<Longrightarrow> stays c (dispatch lib out a s)"
    if "a \<notin> {Press_start, Press_stop, Press_restart, Press_logs, Auto_start}" "\<And>m. a \<noteq> Press_run m"
    using that by (cases a) (auto simp: dispatch_def steady_def intro!: stays_rules)
  then have "keeps I (\<lambda>_. True) (dispatch lib out a s)"
    if "a \<notin> {Press_start, Press_stop, Press_restart, Press_logs, Auto_start}" "\<And>m. a \<noteq> Press_run m"
    using that stays_keeps [where P = P and s = s] \<open>I s\<close> unfolding I_def by blast
  ultimately show ?thesis
    using job [OF _ \<open>I s\<close>] by (cases a) (auto simp: dispatch_def jobs)
qed

lemma dispatch_ok:
  assumes "window_ok out s"
  shows "keeps (window_ok out) (\<lambda>_. True) (dispatch lib out a s)"
proof -
  let ?P = "\<lambda>c. queue_protocol out (fst c)"
  have "keeps (\<lambda>t. ?P (window_core t)) (\<lambda>_. True) (dispatch lib out a s)"
    by (rule dispatch_keeps) (use background_ok [of out, unfolded window_ok_def] assms in \<open>simp_all add: window_ok_def\<close>)
  moreover have "window_ok out = (\<lambda>t. ?P (window_core t))" by (simp add: window_ok_def fun_eq_iff)
  ultimately show ?thesis by simp
qed

text \<open>While a job runs, no button starts another.\<close>

lemma dispatch_running:
  assumes "ui_busy s" "ui_thread s = Some (j, ended)"
  shows "ui_thread (snd (dispatch lib out a s)) = Some (j, ended)"
proof -
  let ?P = "\<lambda>((events :: dash_event list, busy, thread), polling :: bool, draining :: bool). busy \<and> thread = Some (j, ended)"
  have "keeps (\<lambda>t. ?P (window_core t)) (\<lambda>_. True) (dispatch lib out a s)"
    by (rule dispatch_keeps) (use assms in \<open>auto simp: background_def chain_reads set_status_def keeps_def modify_def\<close>)
  then show ?thesis by (simp add: keeps_def)
qed

text \<open>One event, taken from the queue and handled.\<close>

lemma handle_ok:
  assumes "window_ok out s" "ui_events s = e # es"
  shows "keeps (\<lambda>t. window_ok out t \<and> ui_events t = es \<and> ui_thread t = ui_thread s \<and> ui_polling t = ui_polling s
    \<and> ui_draining t = ui_draining s) (\<lambda>_. True) (take_event lib out e s)"
proof -
  let ?u = "s\<lparr>ui_events := es\<rparr>"
  have pop: "take_event lib out e s = handle_event lib out e ?u"
    using assms(2) by (simp add: take_event_def andThen_modify)
  have steady_case: "keeps (\<lambda>t. window_ok out t \<and> ui_events t = es \<and> ui_thread t = ui_thread s \<and> ui_polling t = ui_polling s
      \<and> ui_draining t = ui_draining s) (\<lambda>_. True) r"
    if "\<And>c. steady c u \<Longrightarrow> stays c r" "window_ok out u" "ui_events u = es" "ui_thread u = ui_thread s"
      "ui_polling u = ui_polling s" "ui_draining u = ui_draining s" for u and r :: "(py_error + unit) \<times> 'a window"
    using that(1) [OF steady_refl] that(2-6) unfolding keeps_def steady_def window_ok_def by simp
  show ?thesis
  proof (cases "e = Idle")
    case True
    have none: "ui_thread s = None" "ui_busy s" "filter closing_event es = []"
      using assms True by (auto simp: protocol_defs split: option.splits)
    let ?v = "?u\<lparr>ui_busy := False, ui_activity := lit ''Klar''\<rparr>"
    have "handle_event lib out e ?u = andThen refresh_status (andThen (refresh_workflows lib out) (load_summary lib out)) ?v"
      using True by (simp add: handle_event_def handle_custom_event_def chain_def ret_def andThen_modify)
    moreover have "window_ok out ?v" using none by (simp add: protocol_defs)
    moreover have "stays c (andThen refresh_status (andThen (refresh_workflows lib out) (load_summary lib out)) ?v)"
      if "steady c ?v" for c using that by (intro stays_rules)
    ultimately show ?thesis using steady_case [of ?v] by (simp add: pop)
  next
    case False
    have "window_ok out ?u"
      using assms False by (auto simp: protocol_defs closing_event_def split: option.splits if_splits)
    moreover have "stays c (handle_event lib out e ?u)" if "steady c ?u" for c
      unfolding handle_event_def
      by (intro stays_rules that, use False in \<open>cases e\<close>) (auto intro!: stays_rules)
    ultimately show ?thesis using steady_case [of ?u] by (simp add: pop)
  qed
qed

lemma window_ok_flags:
  "window_ok out (s\<lparr>ui_polling := b\<rparr>) = window_ok out s" "window_ok out (s\<lparr>ui_draining := d\<rparr>) = window_ok out s"
  by (simp_all add: window_ok_def)

lemma poll_turn_ok:
  assumes "window_ok out s" "poll_turn lib out s = (r, t)"
  shows "window_ok out t \<and> ui_thread t = ui_thread s"
proof (cases "ui_events s")
  case Nil
  then show ?thesis using assms by (auto simp: poll_turn_def schedule_poll_def modify_def window_ok_flags)
next
  case (Cons e es)
  then show ?thesis using assms(2) handle_ok [OF assms(1) Cons, of lib]
    by (auto simp: poll_turn_def keeps_def window_ok_flags split: prod.splits sum.splits)
qed

lemma poll_step_ok:
  assumes "poll_step lib out s t" "window_ok out s"
  shows "window_ok out t \<and> ui_thread t = ui_thread s"
  using assms
proof (induction rule: poll_step.induct)
  case (turn s r t)
  then show ?case using poll_turn_ok by blast
qed (simp add: poll_begin_def window_ok_flags)

lemma probe_ordinary: "probe lib out w = (e, w') \<Longrightarrow> \<not> closing_event e"
  by (auto simp: probe_def closing_event_def split: prod.splits sum.splits if_splits)

lemma job_event_ordinary: "job_event e \<Longrightarrow> \<not> closing_event e"
  by (cases e) (simp_all add: closing_event_def)

lemma dash_step_ok: "dash_step lib out s t \<Longrightarrow> window_ok out s \<Longrightarrow> window_ok out t"
proof (induction rule: dash_step.induct)
  case (act s a r t)
  then show ?case using dispatch_ok [of out s lib a] by (simp add: keeps_def)
next
  case (poll s t)
  then show ?case using poll_step_ok by blast
next
  case (probe_ends s n e w)
  then show ?case using probe_ordinary [OF probe_ends(2)] by (simp add: protocol_defs)
next
  case (thread_puts s j e)
  then have "\<not> closing_event e" using job_event_ordinary by blast
  with thread_puts show ?case by (auto simp: protocol_defs)
qed (auto simp: protocol_defs split: if_splits)

lemma opened_core: "opened lib out s \<Longrightarrow> window_core s = (([], False, None), True, False)"
proof -
  assume "opened lib out s"
  then obtain c w where loaded: "(case load_summary lib out (fresh_window c w) of
      (Inl e, t) \<Rightarrow> Inl e | (Inr _, t) \<Rightarrow> Inr t) = Inr s"
    unfolding opened_def new_window_def returns_iffs by metis
  obtain r u where run: "load_summary lib out (fresh_window c w) = (r, u)" by (rule prod.exhaust)
  then have "u = s" using loaded by (cases r) simp_all
  moreover have "window_core (fresh_window c w) = (([], False, None), True, False)" by (simp add: fresh_window_def)
  ultimately show "window_core s = (([], False, None), True, False)"
    using stays_summary [OF steady_refl, of "fresh_window c w" lib out] run by (simp add: keeps_def steady_def)
qed

lemma opened_ok: "opened lib out s \<Longrightarrow> window_ok out s"
  using opened_core [of lib out s] by (simp add: protocol_defs)

interpretation dash_run: state_machine "opened lib out" "dash_step lib out" "window_ok out" for lib out
  by unfold_locales (auto intro: opened_ok dash_step_ok)

lemma reachable_ok: "dash_reachable lib out s \<Longrightarrow> window_ok out s"
  unfolding dash_reachable_def using dash_run.runs_keep by blast

lemma window_ok_busy:
  assumes "window_ok out s"
  shows "ui_busy s \<longleftrightarrow> ui_thread s \<noteq> None \<or> Idle \<in> set (ui_events s)"
    "ui_thread s \<noteq> None \<Longrightarrow> Idle \<notin> set (ui_events s)" "length (filter closing_event (ui_events s)) \<le> 2"
    "ui_thread s = Some (j, ended) \<Longrightarrow> valid_config out (job_config j)"
proof -
  have "(ui_busy s \<longleftrightarrow> ui_thread s \<noteq> None \<or> Idle \<in> set (filter closing_event (ui_events s)))
    \<and> (ui_thread s \<noteq> None \<longrightarrow> Idle \<notin> set (filter closing_event (ui_events s)))"
    using assms unfolding window_ok_def queue_protocol_def Let_def by (auto split: option.splits simp del: set_filter)
  then show "ui_busy s \<longleftrightarrow> ui_thread s \<noteq> None \<or> Idle \<in> set (ui_events s)"
    "ui_thread s \<noteq> None \<Longrightarrow> Idle \<notin> set (ui_events s)" by simp_all
  show "length (filter closing_event (ui_events s)) \<le> 2" "ui_thread s = Some (j, ended) \<Longrightarrow> valid_config out (job_config j)"
    using assms by (auto simp: protocol_defs split: option.splits)
qed

end
