(* ===== verification/Dash_Runs.thy ===== *)
theory Dash_Runs
  imports Dash_Facts
begin

text \<open>
  The background closures of the dashboard: what they put into the queue, that those for Docker end, and
  what their success means. The last section is the round trip of the saved settings.
\<close>

section \<open>What a closure puts\<close>

text \<open>A closure ends with a prefix-extended queue, and what it adds satisfies a predicate.\<close>

definition puts :: "(dash_event \<Rightarrow> bool) \<Rightarrow> ('w, 'a) job \<Rightarrow> bool" where
  "puts P c \<longleftrightarrow> (\<forall>s r t. c s = Some (r, t) \<longrightarrow> (\<exists>es. bg_put t = bg_put s @ es \<and> list_all P es))"

named_theorems puts_rules \<open>what the parts of a closure put into the queue\<close>

lemma putsD: "puts P c \<Longrightarrow> c s = Some (r, t) \<Longrightarrow> \<exists>es. bg_put t = bg_put s @ es \<and> list_all P es"
  by (simp add: puts_def)

lemma puts_nothing: "(\<And>s r t. c s = Some (r, t) \<Longrightarrow> bg_put t = bg_put s) \<Longrightarrow> puts P c"
  by (auto simp: puts_def)

lemma puts_simple [puts_rules]:
  "puts P (run_ret x)" "puts P (run_raise e)" "puts P (job_call f)" "puts P (job_ask g)"
  by (rule puts_nothing, auto simp: run_ret_def run_raise_def job_call_def job_ask_def split: prod.splits)+

lemma puts_put [puts_rules]: "P e \<Longrightarrow> puts P (job_put e)"
  by (simp add: puts_def job_put_def)

lemma puts_then [puts_rules]:
  assumes "puts P c" "\<And>x. puts P (f x)"
  shows "puts P (run_then c f)"
  unfolding puts_def
proof (intro allI impI)
  fix s r t assume run: "run_then c f s = Some (r, t)"
  then obtain r' u where c: "c s = Some (r', u)" by (auto simp: run_then_def split: option.splits)
  obtain es where es: "bg_put u = bg_put s @ es" "list_all P es" using putsD [OF assms(1) c] by blast
  show "\<exists>es. bg_put t = bg_put s @ es \<and> list_all P es"
  proof (cases r')
    case (Inl e)
    then show ?thesis using run c es by (auto simp: run_then_def)
  next
    case (Inr x)
    then have "f x u = Some (r, t)" using run c by (simp add: run_then_def)
    then obtain fs where "bg_put t = bg_put u @ fs" "list_all P fs" using putsD [OF assms(2)] by blast
    then show ?thesis using es by auto
  qed
qed

lemma puts_poll [puts_rules]: "puts P (poll_until out check deadline period n)"
proof (rule puts_nothing)
  fix s r t assume "poll_until out check deadline period n s = Some (r, t)"
  then show "bg_put t = bg_put s"
    by (induction n arbitrary: s) (auto split: prod.splits if_splits)
qed

lemma puts_if [puts_rules]: "puts P c \<Longrightarrow> puts P d \<Longrightarrow> puts P (if b then c else d)"
  by simp

lemma puts_wait [puts_rules]: "puts P (wait_for_docker out seconds fuel)"
  unfolding wait_for_docker_def by (intro puts_rules)

lemma puts_follow:
  assumes "\<And>text. P (Progress text)"
  shows "puts P (follow lib out mode payload i n)"
proof (induction n)
  case (Suc n)
  have "follow lib out mode payload i (Suc n) = run_then (follow_once lib out mode payload i) (\<lambda>r. case r of
        Some text \<Rightarrow> run_ret text
      | None \<Rightarrow> run_then (job_ask (\<lambda>w. ((), out_sleep out (4/5) w))) (\<lambda>_. follow lib out mode payload i n))"
    by (rule ext) simp
  moreover have "puts P (follow_once lib out mode payload i)"
    unfolding follow_once_def by (intro puts_rules assms)
  moreover have "puts P (case r of Some text \<Rightarrow> run_ret text
      | None \<Rightarrow> run_then (job_ask (\<lambda>w. ((), out_sleep out (4/5) w))) (\<lambda>_. follow lib out mode payload i n))" for r
    by (cases r) (auto intro: puts_rules Suc)
  ultimately show ?case by (simp only: puts_then)
qed (simp add: puts_def)

text \<open>Nothing that closes a job comes from the job itself.\<close>

lemma work_puts: "puts job_event (work_of lib out fuel j)"
proof -
  note defs = work_of_def start_work_def stop_work_def restart_work_def run_work_def logs_work_def
  show ?thesis
    by (cases j) (auto simp: defs split: prod.split intro!: puts_rules puts_follow)
qed

lemma runner_puts:
  assumes "runner (work_of lib out fuel j) s = Some t"
  obtains es e where "bg_put t = bg_put s @ es @ [e, Idle]" "list_all job_event es" "job_outcome e"
proof -
  obtain r u where run: "work_of lib out fuel j s = Some (r, u)" and t: "t = u\<lparr>bg_put := bg_put u @
      [case r of Inr text \<Rightarrow> Success text | Inl err \<Rightarrow> Failure err, Idle]\<rparr>"
    using assms by (auto simp: runner_def split: option.splits sum.splits)
  obtain es where "bg_put u = bg_put s @ es" "list_all job_event es" using putsD [OF work_puts run] by blast
  then show ?thesis using that [of es "case r of Inr text \<Rightarrow> Success text | Inl err \<Rightarrow> Failure err"] t
    by (simp split: sum.split)
qed

text \<open>A run of the background thread is a run of the thread steps of the window.\<close>

lemma thread_steps:
  assumes "ui_thread s = Some (j, False)" "list_all job_event es"
  shows "(dash_step lib out)\<^sup>*\<^sup>* s (s\<lparr>ui_events := ui_events s @ es\<rparr>)"
  using assms
proof (induction es arbitrary: s)
  case (Cons e es)
  let ?u = "s\<lparr>ui_events := ui_events s @ [e]\<rparr>"
  have "dash_step lib out s ?u" using Cons.prems by (intro dash_step.thread_puts) auto
  moreover have "(dash_step lib out)\<^sup>*\<^sup>* ?u (?u\<lparr>ui_events := ui_events ?u @ es\<rparr>)"
    using Cons.prems by (intro Cons.IH) auto
  ultimately show ?case by (simp add: converse_rtranclp_into_rtranclp)
qed simp

lemma runner_steps:
  assumes thread: "ui_thread s = Some (j, False)"
    and run: "runner (work_of lib out fuel j) \<lparr>bg_world = ui_world s, bg_put = []\<rparr> = Some t"
  shows "(dash_step lib out)\<^sup>*\<^sup>* s
    (s\<lparr>ui_events := ui_events s @ bg_put t, ui_thread := None, ui_world := bg_world t\<rparr>)"
proof -
  obtain es e where es: "bg_put t = es @ [e, Idle]" "list_all job_event es" "job_outcome e"
    using runner_puts [OF run] by auto
  let ?a = "s\<lparr>ui_events := ui_events s @ es\<rparr>"
  let ?b = "?a\<lparr>ui_events := ui_events ?a @ [e], ui_thread := Some (j, True)\<rparr>"
  let ?c = "?b\<lparr>ui_events := ui_events ?b @ [Idle], ui_thread := None\<rparr>"
  have "dash_step lib out ?a ?b" using thread es(3) by (intro dash_step.thread_ends) simp_all
  moreover have "dash_step lib out ?b ?c" by (intro dash_step.thread_idle) simp
  moreover have "dash_step lib out ?c (?c\<lparr>ui_world := bg_world t\<rparr>)" by (rule dash_step.outside_moves)
  ultimately have "(dash_step lib out)\<^sup>*\<^sup>* s (?c\<lparr>ui_world := bg_world t\<rparr>)"
    using thread_steps [OF thread es(2)] by (meson rtranclp.rtrancl_into_rtrancl)
  then show ?thesis using es(1) by simp
qed

section \<open>Closures that end\<close>

text \<open>A clock that never goes back, whatever is asked of the outside, and a sleep as long as asked.\<close>

definition clock_laws :: "'w outside \<Rightarrow> ('w \<Rightarrow> rat) \<Rightarrow> bool" where
  "clock_laws out time \<longleftrightarrow>
     (\<forall>w. fst (out_clock out w) = time w \<and> time w \<le> time (snd (out_clock out w)))
     \<and> (\<forall>w. time w \<le> time (snd (out_docker_info out w)))
     \<and> (\<forall>r w. time w \<le> time (snd (out_send out r w)))
     \<and> (\<forall>d w. 0 \<le> d \<longrightarrow> time w + d \<le> time (out_sleep out d w))"

lemma clock_lawsD:
  assumes "clock_laws out time"
  shows "out_clock out w = (now, w') \<Longrightarrow> now = time w \<and> time w \<le> time w'"
    "out_docker_info out w = (x, w') \<Longrightarrow> time w \<le> time w'" "out_send out r w = (y, w') \<Longrightarrow> time w \<le> time w'"
    "0 \<le> d \<Longrightarrow> time w + d \<le> time (out_sleep out d w)"
  using assms unfolding clock_laws_def by (metis fst_conv snd_conv)+

lemma docker_time: "clock_laws out time \<Longrightarrow> docker_available out w = (b, w') \<Longrightarrow> time w \<le> time w'"
  by (auto simp: docker_available_def split: prod.splits process_result.splits dest: clock_lawsD(2))

lemma online_time: "clock_laws out time \<Longrightarrow> coordinator_online lib out w = (b, w') \<Longrightarrow> time w \<le> time w'"
  by (auto simp: coordinator_online_def dash_request_def chain_def of_result_def
      split: prod.splits sum.splits answer.splits option.splits if_splits dest: clock_lawsD(3))

text \<open>Every turn takes at least the period.\<close>

lemma poll_ends:
  assumes laws: "clock_laws out time" and check: "\<And>w b w'. check w = (b, w') \<Longrightarrow> time w \<le> time w'" and pos: "0 < period"
  shows "deadline \<le> time (bg_world s) + of_nat n * period \<Longrightarrow> poll_until out check deadline period (Suc n) s \<noteq> None"
proof (induction n arbitrary: s)
  case 0
  obtain now w where c: "out_clock out (bg_world s) = (now, w)" by (rule prod.exhaust)
  then have "\<not> now < deadline" using 0 clock_lawsD(1) [OF laws c] by simp
  then show ?case using c by simp
next
  case (Suc n)
  obtain now w where c: "out_clock out (bg_world s) = (now, w)" by (rule prod.exhaust)
  obtain b u where k: "check w = (b, u)" by (rule prod.exhaust)
  let ?t = "s\<lparr>bg_world := out_sleep out period u\<rparr>"
  have "time (bg_world s) + period \<le> time (bg_world ?t)"
    using clock_lawsD(1) [OF laws c] check [OF k] clock_lawsD(4) [OF laws, of period u] pos by simp
  then have "deadline \<le> time (bg_world ?t) + of_nat n * period" using Suc.prems by (simp add: algebra_simps)
  note rest = Suc.IH [OF this]
  show ?case
    unfolding poll_until.simps(2) [of _ _ _ _ "Suc n"] c k prod.case using rest by (simp del: poll_until.simps)
qed

lemma ends_simple [ends_rules]:
  "ends (job_call f)" "ends (job_ask g)" "ends (job_put ev)"
  by (auto simp: ends_def job_call_def job_ask_def job_put_def split: prod.split)

text \<open>A loop started with a deadline relative to now.\<close>

lemma ends_poll:
  assumes laws: "clock_laws out time" and check: "\<And>w b w'. check w = (b, w') \<Longrightarrow> time w \<le> time w'" and pos: "0 < period"
    and fuel: "seconds \<le> of_nat n * period" and rest: "\<And>x. ends (f x)"
  shows "ends (run_then (job_ask (out_clock out)) (\<lambda>now.
     run_then (poll_until out check (now + seconds) period (Suc n)) f))"
  unfolding ends_def
proof (intro allI)
  fix s :: "'a bg"
  obtain now w where c: "out_clock out (bg_world s) = (now, w)" by (rule prod.exhaust)
  let ?u = "s\<lparr>bg_world := w\<rparr>"
  have bound: "now + seconds \<le> time (bg_world ?u) + of_nat n * period"
    using clock_lawsD(1) [OF laws c] fuel by simp
  have "poll_until out check (now + seconds) period (Suc n) ?u \<noteq> None"
    by (rule poll_ends [where check = check and time = time, OF laws _ pos bound]) (rule check)
  then obtain r t where "poll_until out check (now + seconds) period (Suc n) ?u = Some (r, t)" by (metis not_None_eq prod.exhaust)
  then show "run_then (job_ask (out_clock out)) (\<lambda>now. run_then (poll_until out check (now + seconds) period (Suc n)) f) s \<noteq> None"
    using rest c unfolding ends_def by (simp add: run_then_def job_ask_def del: poll_until.simps split: sum.split)
qed

lemma ends_wait:
  assumes "clock_laws out time" "45 \<le> n"
  shows "ends (wait_for_docker out 90 (Suc n))"
proof -
  have "90 \<le> of_nat n * (2::rat)" using assms(2) by simp
  then show ?thesis
    unfolding wait_for_docker_def by (intro ends_rules ends_poll [OF assms(1) docker_time [OF assms(1)]]) simp_all
qed

definition cluster_job :: "dash_job \<Rightarrow> bool" where
  "cluster_job j \<longleftrightarrow> (case j of Run_job _ _ \<Rightarrow> False | _ \<Rightarrow> True)"

lemma cluster_job_ends:
  assumes "clock_laws out time" "cluster_job j" "60 < fuel"
  shows "ends (work_of lib out fuel j)"
proof -
  obtain n where n: "fuel = Suc n" "60 \<le> n" using assms(3) by (cases fuel) auto
  then have sixty: "60 \<le> of_nat n * (1::rat)" and docker: "45 \<le> n" by simp_all
  have "ends (start_work lib out (Suc n) c)" for c
    unfolding start_work_def
    by (intro ends_rules ends_wait [OF assms(1) docker] ends_poll [OF assms(1) online_time [OF assms(1)] _ sixty]) simp_all
  moreover have "ends (stop_work out c)" "ends (logs_work out c)" for c
    unfolding stop_work_def logs_work_def by (auto intro!: ends_rules split: prod.split)
  moreover have "ends (restart_work out (Suc n) c)" for c
    unfolding restart_work_def by (intro ends_rules ends_wait [OF assms(1) docker])
  ultimately show ?thesis using assms(2) n(1) by (simp add: work_of_def cluster_job_def split: dash_job.split dash_job.splits)
qed

section \<open>What success means\<close>

lemma job_put_Inr: "job_put ev s = Some (Inr u, t) \<longleftrightarrow> t = s\<lparr>bg_put := bg_put s @ [ev]\<rparr>"
  by (auto simp: job_put_def)

lemmas job_simple_Inr = run_simple_Inr job_put_Inr

lemma poll_True:
  "poll_until out check deadline period n s = Some (Inr True, t) \<Longrightarrow> \<exists>w. check w = (True, bg_world t)"
  by (induction n arbitrary: s) (auto split: prod.splits if_splits)

lemma start_success:
  assumes "start_work lib out fuel c s = Some (Inr text, t)"
  shows "text = running_text \<and> (\<exists>w. coordinator_online lib out w = (True, bg_world t))"
proof -
  obtain now u where "poll_until out (coordinator_online lib out) (now + 60) 1 fuel u = Some (Inr True, t)" "text = running_text"
    using assms unfolding start_work_def run_then_Inr by (auto simp: job_simple_Inr split: if_splits)
  then show ?thesis using poll_True by blast
qed

text \<open>The answer that ends the loop.\<close>

definition said_succeeded :: "json \<Rightarrow> bool" where
  "said_succeeded answer \<longleftrightarrow> (\<exists>state. subscript ''data'' answer = Inr state \<and> subscript ''state'' state = Inr (JStr (lit ''SUCCEEDED'')))"

lemma follow_once_success:
  assumes "follow_once lib out mode payload i s = Some (Inr (Some text), t)"
  shows "\<exists>w answer. dash_request lib out ''GET'' (lit ''/v1/workflows/'' @ str_of lib i) None 10 w = (Inr answer, bg_world t)
    \<and> said_succeeded answer \<and> text = finished_text mode"
proof -
  have call: "job_call (of_result r) u = Some (Inr x, v) \<longleftrightarrow> r = Inr x \<and> v = u" for r :: "py_error + 'x" and x u v
    by (auto simp: job_call_def of_result_def)
  obtain answer u state where req: "job_call (dash_request lib out ''GET'' (lit ''/v1/workflows/'' @ str_of lib i) None 10) s
      = Some (Inr answer, u)"
    and "subscript ''data'' answer = Inr state" "subscript ''state'' state = Inr (JStr (lit ''SUCCEEDED''))"
      "text = finished_text mode" "bg_world t = bg_world u"
    using assms unfolding follow_once_def run_then_Inr call
    by (auto simp: job_simple_Inr simp del: lit_Cons split: if_splits)
  moreover obtain w where "dash_request lib out ''GET'' (lit ''/v1/workflows/'' @ str_of lib i) None 10 w = (Inr answer, bg_world u)"
    using req by (auto simp: job_call_def simp del: lit_Cons split: prod.splits)
  ultimately show ?thesis unfolding said_succeeded_def by metis
qed

lemma follow_success:
  "follow lib out mode payload i n s = Some (Inr text, t) \<Longrightarrow>
    \<exists>w answer. dash_request lib out ''GET'' (lit ''/v1/workflows/'' @ str_of lib i) None 10 w = (Inr answer, bg_world t)
      \<and> said_succeeded answer \<and> text = finished_text mode"
proof (induction n arbitrary: s)
  case (Suc n)
  obtain r u where one: "follow_once lib out mode payload i s = Some (Inr r, u)"
    and rest: "(case r of Some text \<Rightarrow> run_ret text
      | None \<Rightarrow> run_then (job_ask (\<lambda>w. ((), out_sleep out (4/5) w))) (\<lambda>_. follow lib out mode payload i n)) u = Some (Inr text, t)"
    using Suc.prems unfolding follow.simps run_then_Inr by blast
  show ?case
  proof (cases r)
    case None
    then show ?thesis using rest
      by (simp add: run_then_Inr del: lit_Cons) (elim exE conjE, erule Suc.IH)
  next
    case (Some x)
    then have "x = text" "u = t" using rest by (simp_all add: job_simple_Inr)
    then show ?thesis using follow_once_success one Some by blast
  qed
qed simp

text \<open>The workflow that is followed is the one the coordinator answered with when it was submitted.\<close>

lemma run_success:
  assumes "run_work lib out fuel mode c s = Some (Inr text, t)"
  obtains payload w0 w1 response workflow i w answer where
    "out_example out (example_file mode) w0 = Inr payload"
    "dash_request lib out ''POST'' (lit ''/v1/workflows'') (Some payload) 10 w0 = (Inr response, w1)"
    "subscript ''data'' response = Inr workflow" "subscript ''id'' workflow = Inr i"
    "Workflow_started i \<in> set (bg_put t)"
    "dash_request lib out ''GET'' (lit ''/v1/workflows/'' @ str_of lib i) None 10 w = (Inr answer, bg_world t)"
    "said_succeeded answer" "text = finished_text mode"
proof -
  have call: "job_call (of_result r) u = Some (Inr x, v) \<longleftrightarrow> r = Inr x \<and> v = u" for r :: "py_error + 'x" and x u v
    by (auto simp: job_call_def of_result_def)
  obtain payload u0 u1 u2 response workflow i u v where
    example: "job_call (\<lambda>w. (out_example out (example_file mode) w, w)) u0 = Some (Inr payload, u1)"
    and post: "job_call (dash_request lib out ''POST'' (lit ''/v1/workflows'') (Some payload) 10) u1 = Some (Inr response, u2)"
    and ids: "subscript ''data'' response = Inr workflow" "subscript ''id'' workflow = Inr i"
    and started: "job_put (Workflow_started i) u = Some (Inr (), v)"
    and rest: "follow lib out mode payload i fuel v = Some (Inr text, t)"
    using assms unfolding run_work_def run_then_Inr call
    by (auto simp: job_simple_Inr run_then_Inr call simp del: lit_Cons split: if_splits)
  have "Workflow_started i \<in> set (bg_put v)" using started by (auto simp: job_simple_Inr)
  moreover obtain es where "bg_put t = bg_put v @ es"
    using putsD [OF puts_follow [where P = "\<lambda>e. True"] rest] by blast
  moreover have "bg_world u1 = bg_world u0" "out_example out (example_file mode) (bg_world u0) = Inr payload"
    using example by (auto simp: job_call_def)
  moreover have "dash_request lib out ''POST'' (lit ''/v1/workflows'') (Some payload) 10 (bg_world u1) = (Inr response, bg_world u2)"
    using post by (auto simp: job_call_def simp del: lit_Cons split: prod.splits)
  ultimately show ?thesis using that ids follow_success [OF rest] by (metis Un_iff set_append)
qed

lemma job_call_Inr: "job_call c s = Some (Inr x, t) \<Longrightarrow> c (bg_world s) = (Inr x, bg_world t)"
  by (auto simp: job_call_def split: prod.splits)

text \<open>One of the two commands that start the containers has ended with code zero.\<close>

lemma compose_up_Inr:
  assumes "compose_up out c w = (Inr (), w')"
  shows "\<exists>u o' e'. run_command out (up_args c) c 180 False u = (Inr (0, o', e'), w')
    \<or> run_command out (build_args c) c 900 True u = (Inr (0, o', e'), w')"
proof -
  obtain code o1 e1 v where first: "run_command out (up_args c) c 180 False w = (Inr (code, o1, e1), v)"
    and rest: "(if code = 0 then ret () else chain (run_command out (build_args c) c 900 True) (\<lambda>_. ret ())) v = (Inr (), w')"
    using assms unfolding compose_up_def returns_iffs by auto
  show ?thesis
  proof (cases "code = 0")
    case True
    with first rest show ?thesis by (auto simp: simple_returns)
  next
    case False
    then obtain k o2 e2 where again: "run_command out (build_args c) c 900 True v = (Inr (k, o2, e2), w')"
      using rest by (auto simp: returns_iffs)
    then have "k = 0"
      by (auto simp: run_command_def chain_def split: prod.splits sum.splits process_result.splits if_splits)
    with again show ?thesis by blast
  qed
qed

lemma restart_success:
  assumes "restart_work out fuel c s = Some (Inr text, t)"
  shows "\<exists>w. compose_up out c w = (Inr (), bg_world t)"
  using assms unfolding restart_work_def run_then_Inr by (auto simp: job_simple_Inr dest!: job_call_Inr)

lemma stop_success:
  assumes "stop_work out c s = Some (Inr text, t)"
  shows "(\<exists>w. docker_available out w = (False, bg_world t))
    \<or> (\<exists>w code o' e'. run_command out down_args c 120 False w = (Inr (code, o', e'), bg_world t))"
proof -
  obtain up u where ask: "job_ask (docker_available out) s = Some (Inr up, u)"
    and rest: "(if up then run_then (job_call (run_command out down_args c 120 False)) (\<lambda>_. run_ret stopped_text)
       else run_ret stopped_text) u = Some (Inr text, t)"
    using assms unfolding stop_work_def run_then_Inr by blast
  have "docker_available out (bg_world s) = (up, bg_world u)"
    using ask by (auto simp: job_ask_def split: prod.splits)
  then show ?thesis using rest by (cases up) (auto simp: run_then_Inr job_simple_Inr dest!: job_call_Inr)
qed

lemma logs_success:
  assumes "logs_work out c s = Some (Inr text, t)"
  shows "\<exists>w code o' e'. run_command out logs_args c 20 False w = (Inr (code, o', e'), bg_world t)
    \<and> Logs (o' @ e') \<in> set (bg_put t)"
proof -
  obtain code o' e' u where "run_command out logs_args c 20 False (bg_world s) = (Inr (code, o', e'), bg_world u)"
    "t = u\<lparr>bg_put := bg_put u @ [Logs (o' @ e')]\<rparr>"
    using assms unfolding logs_work_def run_then_Inr
    by (auto simp: job_simple_Inr run_then_Inr dest!: job_call_Inr split: prod.splits)
  then show ?thesis by auto
qed

section \<open>Saved settings\<close>

text \<open>A file that was written holds what was written, and a path has a text.\<close>

definition file_laws :: "'w outside \<Rightarrow> bool" where
  "file_laws out \<longleftrightarrow> (\<forall>t w w'. out_write_settings out t w = (Inr (), w') \<longrightarrow> out_settings out w' = Settings_text t)
     \<and> (\<forall>p. out_str out p \<noteq> [])"

lemma config_read_back:
  assumes "1 \<le> dc_workers c" "dc_workers c \<le> 16" "dc_workspace c \<noteq> []" "dc_results c \<noteq> []"
  shows "config_of_json lib d (config_as_json c) = Inr c"
  using assms clamp_id [of "dc_workers c"]
  by (simp add: config_of_json_def config_as_json_def get_or_def int_of_def or_else_def truthy_def str_of_def)

lemma saved_is_loaded:
  assumes "file_laws out" "reads_back lib (config_as_json (ui_config t))" "save_settings lib out s = (Inr True, t)"
  shows "load_config lib out (ui_world t) = Inr (ui_config t)" "valid_config out (ui_config t)"
proof -
  obtain c w where c: "ui_config t = c" "save_config lib out c w = (Inr (), ui_world t)" "valid_config out c"
    using save_settings_saved [OF assms(3)] by blast
  have "out_settings out (ui_world t) = Settings_text (py_dumps lib (config_as_json c) @ [10])"
    using c(2) assms(1) by (auto simp: save_config_def file_laws_def)
  moreover have "dc_workspace c \<noteq> []" "dc_results c \<noteq> []" "1 \<le> dc_workers c" "dc_workers c \<le> 16"
    using c(3) assms(1) unfolding valid_config_def file_laws_def by metis+
  ultimately show "load_config lib out (ui_world t) = Inr (ui_config t)"
    using config_read_back assms(2) c(1) by (simp add: load_config_def reads_back_def)
  show "valid_config out (ui_config t)" using c by simp
qed

end
