(* ===== verification/Dash_Polls.thy ===== *)
theory Dash_Polls
  imports Dash_Runs
begin

text \<open>
  The polling of the event queue. With a coordinator that answers with lists of workflows that have ids
  of their own, no handler raises, so a call of \<open>_poll_events\<close> is always scheduled or running, and the
  polling alone empties the queue and frees the window.
\<close>

section \<open>Answers that can be shown\<close>

text \<open>The id under which a workflow is put into the table, if it has one.\<close>

definition row_ids :: "py_lib \<Rightarrow> json \<Rightarrow> pystr list" where
  "row_ids lib v = (case get_or ''id'' JNull v of
     Inl e \<Rightarrow> [] | Inr i \<Rightarrow> if i = JNull then [] else [str_of lib i])"

definition is_object :: "json \<Rightarrow> bool" where
  "is_object v \<longleftrightarrow> (case v of JDict d \<Rightarrow> True | _ \<Rightarrow> False)"

definition rows_ok :: "py_lib \<Rightarrow> json \<Rightarrow> bool" where
  "rows_ok lib v \<longleftrightarrow> (case v of
     JList rows \<Rightarrow> list_all is_object rows \<and> distinct ([] # concat (map (row_ids lib) rows))
   | _ \<Rightarrow> False)"

text \<open>
  What is relied on: workflows come as a list of objects with different ids, workers as a list, and the
  report can be read or raises an \<open>OSError\<close>. Requests may fail in any way.
\<close>

definition answers_ok :: "py_lib \<Rightarrow> 'w outside \<Rightarrow> bool" where
  "answers_ok lib out \<longleftrightarrow>
     (\<forall>limit w v w'. get_data lib out (lit ''/v1/workflows'') limit w = (Inr v, w') \<longrightarrow> rows_ok lib v)
     \<and> (\<forall>limit w v w'. get_data lib out (lit ''/v1/workers'') limit w = (Inr v, w') \<longrightarrow> (\<exists>n. len_of v = Inr n))
     \<and> (\<forall>p w e. out_summary out p w = Some (Inl e) \<longrightarrow> is_os_error e)"

text \<open>Events whose handling needs no more than a number of workers and of workflows.\<close>

definition sized :: "dash_event \<Rightarrow> bool" where
  "sized e \<longleftrightarrow> (case e of Probe _ _ workers workflows \<Rightarrow> ok_part (len_of workers) \<noteq> None \<and> ok_part (len_of workflows) \<noteq> None
     | _ \<Rightarrow> True)"

lemma sized_simps [simp]: "job_event e \<Longrightarrow> sized e" "job_outcome e \<Longrightarrow> sized e" "sized Idle"
  by (cases e; simp add: sized_def)+

lemma rows_len: "rows_ok lib v \<Longrightarrow> \<exists>n. len_of v = Inr n"
  by (auto simp: rows_ok_def len_of_def split: json.splits)

lemma probe_sized:
  assumes "answers_ok lib out" "probe lib out w = (e, w')"
  shows "sized e"
proof -
  have flows: "\<exists>n. len_of v = Inr n" if "get_data lib out (lit ''/v1/workflows'') 2 u = (Inr v, u')" for u v u'
    using assms(1) that rows_len unfolding answers_ok_def by blast
  have workers: "\<exists>n. len_of v = Inr n" if "get_data lib out (lit ''/v1/workers'') 2 u = (Inr v, u')" for u v u'
    using assms(1) that unfolding answers_ok_def by blast
  have none: "len_of (JList []) = Inr 0" by (simp add: len_of_def)
  show ?thesis
    using assms(2) none unfolding probe_def sized_def
    by (auto simp del: lit_Cons split: prod.splits sum.splits if_splits dest!: flows workers)
qed

section \<open>Handlers that do not raise\<close>

lemma insert_rows:
  assumes "list_all is_object rows" "distinct ([] # concat (map (row_ids lib) rows))"
    "\<forall>i \<in> set (concat (map (row_ids lib) rows)). Some i \<notin> fst ` set (ui_tree s)"
  shows "\<exists>t. for_each rows (insert_row lib) s = (Inr (), t)"
  using assms
proof (induction rows arbitrary: s)
  case Nil
  then show ?case by (simp add: ret_def)
next
  case (Cons r rows)
  have "is_object r" using Cons.prems(1) by simp
  then have get: "\<exists>x. get_or k v r = Inr x" for k v by (cases r) (auto simp: is_object_def get_or_def)
  obtain i name state created where got: "get_or ''id'' JNull r = Inr i" "get_or ''name'' (JStr (lit ''?'')) r = Inr name"
    "get_or ''state'' (JStr (lit ''?'')) r = Inr state" "get_or ''created_at'' (JStr []) r = Inr created"
    using get by metis
  let ?iid = "if i = JNull then None else Some (str_of lib i)"
  have ids: "row_ids lib r = (if i = JNull then [] else [str_of lib i])"
    by (simp add: row_ids_def got(1))
  have free: "\<not> (?iid \<noteq> None \<and> ?iid \<in> insert (Some []) (set (map fst (ui_tree s))))"
    using Cons.prems(2,3) ids by auto
  have one: "insert_row lib r s = (Inr (), s\<lparr>ui_tree := ui_tree s @ [(?iid, name, state, created)]\<rparr>)"
    using free unfolding insert_row_def got Let_def
    by (simp only: chain_def of_result_def reads_def modify_def prod.case sum.case if_False)
  let ?u = "s\<lparr>ui_tree := ui_tree s @ [(?iid, name, state, created)]\<rparr>"
  have "\<exists>t. for_each rows (insert_row lib) ?u = (Inr (), t)"
    by (rule Cons.IH) (use Cons.prems ids in \<open>auto split: if_splits\<close>)
  then show ?case using one by (simp add: andThen_Inr)
qed

lemma online_runs: "\<exists>b t. ui_online lib out s = (Inr b, t)"
  by (simp add: ui_online_def outside_proc_def split: prod.split)

lemma refresh_workflows_runs:
  assumes "answers_ok lib out"
  shows "\<exists>t. refresh_workflows lib out s = (Inr (), t)"
proof -
  obtain b u where on: "ui_online lib out s = (Inr b, u)" using online_runs by blast
  obtain r w where data: "get_data lib out (lit ''/v1/workflows'') 3 (ui_world u) = (r, w)" by (rule prod.exhaust)
  show ?thesis
  proof (cases "b \<and> (\<exists>v. r = Inr v)")
    case False
    then show ?thesis
      using on data by (cases r) (auto simp: refresh_workflows_def chain_def outside_proc_def catch_def ret_def simp del: lit_Cons)
  next
    case True
    then obtain v where v: "r = Inr v" by blast
    then have "rows_ok lib v" using assms data unfolding answers_ok_def by blast
    then obtain rows where rows: "v = JList rows" "list_all is_object rows" "distinct ([] # concat (map (row_ids lib) rows))"
      by (auto simp: rows_ok_def split: json.splits)
    have "\<exists>t. for_each rows (insert_row lib) (u\<lparr>ui_world := w, ui_last_workflows := v, ui_tree := []\<rparr>) = (Inr (), t)"
      by (rule insert_rows [OF rows(2,3)]) simp
    then show ?thesis
      using on data v True rows(1)
      by (simp add: refresh_workflows_def chain_def outside_proc_def catch_def ret_def andThen_modify of_result_def
          iter_of_def del: lit_Cons)
  qed
qed

lemma load_summary_runs:
  assumes "answers_ok lib out"
  shows "\<exists>t. load_summary lib out s = (Inr (), t)"
  using assms unfolding answers_ok_def
  by (auto simp: load_summary_def Let_def split: option.split sum.split)

lemma event_handled:
  assumes "answers_ok lib out" "sized e"
  shows "\<exists>t. take_event lib out e s = (Inr (), t)"
proof (cases e)
  case Idle
  let ?v = "s\<lparr>ui_events := tl (ui_events s), ui_busy := False, ui_activity := lit ''Klar'', ui_probes := Suc (ui_probes s)\<rparr>"
  obtain t where t: "refresh_workflows lib out ?v = (Inr (), t)" using refresh_workflows_runs [OF assms(1)] by blast
  obtain z where "load_summary lib out t = (Inr (), z)" using load_summary_runs [OF assms(1)] by blast
  then show ?thesis
    using Idle t by (simp add: take_event_def handle_event_def handle_custom_event_def andThen_modify chain_def ret_def
        refresh_status_def andThen_Inr)
next
  case (Probe a b c d)
  then obtain n k where "len_of c = Inr n" "len_of d = Inr k" using assms(2) by (auto simp: sized_def)
  then show ?thesis using Probe
    by (simp add: take_event_def handle_event_def handle_custom_event_def proc_simps of_result_def set_status_def)
qed (simp_all add: take_event_def handle_event_def handle_custom_event_def proc_simps set_status_def show_dialog_def)

section \<open>The polling never stops\<close>

definition listening :: "'w window \<Rightarrow> bool" where
  "listening s \<longleftrightarrow> (ui_polling s \<or> ui_draining s) \<and> list_all sized (ui_events s)"

lemma poll_turn_take:
  assumes "answers_ok lib out" "window_ok out s" "ui_events s = e # es" "sized e"
  obtains t where "poll_turn lib out s = (Inr (), t)" "window_ok out t" "ui_events t = es" "ui_thread t = ui_thread s"
    "ui_polling t = ui_polling s" "ui_draining t = ui_draining s"
proof -
  obtain t where t: "take_event lib out e s = (Inr (), t)" using event_handled [OF assms(1,4)] by blast
  then show ?thesis
    using that handle_ok [OF assms(2,3), of lib] assms(3) by (simp add: poll_turn_def keeps_def)
qed

lemma listening_step:
  assumes "answers_ok lib out" "dash_step lib out s t" "window_ok out s" "listening s"
  shows "listening t"
  using assms(2-4)
proof (induction rule: dash_step.induct)
  case (act s a r t)
  let ?P = "\<lambda>((events, busy :: bool, thread :: (dash_job \<times> bool) option), polling, draining).
    (polling \<or> draining) \<and> list_all sized events"
  have "keeps (\<lambda>t. ?P (window_core t)) (\<lambda>_. True) (dispatch lib out a s)"
    by (rule dispatch_keeps)
      (use act in \<open>auto simp: listening_def background_def chain_reads set_status_def keeps_def modify_def\<close>)
  then show ?case using act by (simp add: keeps_def listening_def)
next
  case (poll s t)
  then show ?case
  proof (induction rule: poll_step.induct)
    case (begins s)
    then show ?case by (simp add: listening_def poll_begin_def)
  next
    case (turn s r t)
    show ?case
    proof (cases "ui_events s")
      case Nil
      then show ?thesis using turn by (auto simp: poll_turn_def schedule_poll_def modify_def listening_def)
    next
      case (Cons e es)
      then have "sized e" "list_all sized es" using turn(4) by (simp_all add: listening_def)
      with poll_turn_take [OF assms(1) turn(3) Cons] turn show ?thesis by (auto simp: listening_def)
    qed
  qed
next
  case (probe_ends s n e w)
  then show ?case using probe_sized [OF assms(1) probe_ends(2)] by (simp add: listening_def)
qed (auto simp: listening_def)

lemma listening_reachable:
  assumes "answers_ok lib out" "dash_reachable lib out s"
  shows "listening s"
proof -
  obtain s0 where s0: "opened lib out s0" "(dash_step lib out)\<^sup>*\<^sup>* s0 s" using assms(2) unfolding dash_reachable_def by blast
  from s0(2) have "window_ok out s \<and> listening s"
  proof (induction rule: rtranclp_induct)
    case base
    then show ?case using opened_core [OF s0(1)] opened_ok [OF s0(1)] by (simp add: listening_def)
  next
    case (step t u)
    then show ?case using dash_step_ok listening_step [OF assms(1)] by blast
  qed
  then show ?thesis ..
qed

section \<open>The polling empties the queue\<close>

lemma drain_run:
  assumes "answers_ok lib out" "window_ok out s" "ui_thread s = None" "ui_draining s" "list_all sized (ui_events s)"
  shows "\<exists>t. (poll_step lib out ^^ Suc (length (ui_events s))) s t \<and> \<not> ui_busy t \<and> ui_events t = [] \<and> ui_polling t"
  using assms(2-)
proof (induction "ui_events s" arbitrary: s)
  case Nil
  let ?t = "s\<lparr>ui_draining := False, ui_polling := True\<rparr>"
  have "poll_turn lib out s = (Inr (), ?t)"
    using Nil(1) [symmetric] by (simp add: poll_turn_def schedule_poll_def modify_def)
  then have "poll_step lib out s ?t" using Nil(4) by (rule poll_step.turn [rotated])
  moreover have "\<not> ui_busy s" using Nil(2,3) Nil(1) [symmetric] by (simp add: protocol_defs)
  ultimately show ?case using Nil(1) [symmetric] by (intro exI [of _ ?t]) auto
next
  case (Cons e es)
  have sized: "sized e" "list_all sized es" using Cons.prems(4) Cons(2) [symmetric] by simp_all
  obtain u where u: "poll_turn lib out s = (Inr (), u)" "window_ok out u" "ui_events u = es" "ui_thread u = ui_thread s"
    "ui_draining u = ui_draining s"
    using poll_turn_take [OF assms(1) Cons.prems(1) Cons(2) [symmetric] sized(1)] by blast
  have "poll_step lib out s u" using Cons.prems(3) u(1) by (rule poll_step.turn)
  moreover obtain t where "(poll_step lib out ^^ Suc (length (ui_events u))) u t" "\<not> ui_busy t" "ui_events t = []" "ui_polling t"
    using Cons.hyps(1) [OF u(3) [symmetric] u(2)] u(3-5) Cons.prems(2,3) sized(2) by auto
  ultimately show ?case using u(3) Cons(2) [symmetric] by (metis length_Cons relpowp_Suc_I2)
qed

lemma polls_free:
  assumes "answers_ok lib out" "window_ok out s" "listening s" "ui_thread s = None" "ui_open s"
  shows "\<exists>n t. n \<le> length (ui_events s) + 2 \<and> (poll_step lib out ^^ n) s t \<and> \<not> ui_busy t \<and> ui_events t = [] \<and> ui_polling t"
proof (cases "ui_draining s")
  case True
  then obtain t where "(poll_step lib out ^^ Suc (length (ui_events s))) s t \<and> \<not> ui_busy t \<and> ui_events t = [] \<and> ui_polling t"
    using drain_run [OF assms(1,2,4)] assms(3) unfolding listening_def by blast
  then show ?thesis by (intro exI [of _ "Suc (length (ui_events s))"] exI [of _ t]) simp
next
  case False
  then have polling: "ui_polling s" "list_all sized (ui_events s)" using assms(3) by (simp_all add: listening_def)
  let ?u = "poll_begin s"
  have u: "window_ok out ?u" "ui_thread ?u = None" "ui_draining ?u" "ui_events ?u = ui_events s"
    using assms(2,4) by (simp_all add: poll_begin_def window_ok_flags)
  have "poll_step lib out s ?u" using assms(5) polling(1) by (rule poll_step.begins)
  moreover obtain t where t: "(poll_step lib out ^^ Suc (length (ui_events s))) ?u t" "\<not> ui_busy t" "ui_events t = []" "ui_polling t"
    using drain_run [OF assms(1) u(1,2,3)] polling(2) u(4) by auto
  ultimately have "(poll_step lib out ^^ Suc (Suc (length (ui_events s)))) s t" by (blast intro: relpowp_Suc_I2)
  with t show ?thesis by (intro exI [of _ "Suc (Suc (length (ui_events s)))"] exI [of _ t]) simp
qed

lemma poll_steps_run: "(poll_step lib out)\<^sup>*\<^sup>* s t \<Longrightarrow> (dash_step lib out)\<^sup>*\<^sup>* s t"
  by (erule mono_rtranclp [rule_format, rotated]) (rule dash_step.poll)

end
