(* ===== verification/Dash_Props.thy ===== *)
theory Dash_Props
  imports Dash_Polls
begin

text \<open>The properties of the dashboard, and three faults of it.\<close>

section \<open>An outside to run against\<close>

text \<open>Its state is the time and the file of settings; Docker runs and the coordinator is well.\<close>

definition demo_settings :: json where
  "demo_settings = JDict [(lit ''workspace'', JStr (lit ''/a/'')), (lit ''results'', JStr (lit ''/b/'')),
     (lit ''workers'', JInt 5), (lit ''auto_start'', JBool True)]"

definition demo_py :: py_lib where
  "demo_py = \<lparr>py_loads = (\<lambda>t. if t = lit ''S'' \<or> t = lit ''S'' @ [10] then Some demo_settings
       else if t = lit ''ok'' then Some (JDict [(lit ''status'', JStr (lit ''ok''))]) else None),
     py_dumps = (\<lambda>v. lit ''S''), py_str = (\<lambda>v. []), py_int_text = (\<lambda>t. None), py_int_float = (\<lambda>t. Inl Type_error),
     py_float_zero = (\<lambda>t. False), py_message = (\<lambda>e. lit ''error'')\<rparr>"

definition demo_outside :: "(rat \<times> pystr) outside" where
  "demo_outside = \<lparr>out_root = [lit ''grid''], out_str = (\<lambda>p. 47 # concat (map (\<lambda>x. x @ [47]) p)), out_fold = (\<lambda>x. x),
     out_resolve = (\<lambda>w t. Inr [filter (\<lambda>c. c \<noteq> 47) t]), out_mkdir = (\<lambda>p. ret ()), out_settings = (\<lambda>w. Settings_text (snd w)),
     out_write_settings = (\<lambda>t w. (Inr (), (fst w, t))), out_example = (\<lambda>f w. Inl (Os_error f)), out_summary = (\<lambda>p w. None),
     out_exists = (\<lambda>w p. False), out_desktops = [], out_docker_info = (\<lambda>w. (Finished 0 [] [], w)),
     out_run = (\<lambda>c w. (Finished 0 [] [], w)), out_popen = (\<lambda>c. ret ()), out_open = (\<lambda>p. ret ()),
     out_send = (\<lambda>r w. (Body (lit ''ok''), w)), out_clock = (\<lambda>w. (fst w, w)), out_sleep = (\<lambda>d w. (fst w + d, snd w)),
     out_int_var = (\<lambda>t. if t = [] then Inl (Tcl_error []) else Inr (dec_value t))\<rparr>"

definition demo_window :: "(rat \<times> pystr) window" where
  "demo_window = (case fst (new_window demo_py demo_outside (0, lit ''S'')) of Inr s \<Rightarrow> s)"

lemma demo_opened: "opened demo_py demo_outside demo_window"
proof -
  obtain r w where run: "new_window demo_py demo_outside (0, lit ''S'') = (r, w)" by (rule prod.exhaust)
  have "(case fst (new_window demo_py demo_outside (0, lit ''S'')) of Inr s \<Rightarrow> True | Inl e \<Rightarrow> False)" by code_simp
  then obtain s where "r = Inr s" using run by (cases r) auto
  then show ?thesis using run unfolding opened_def demo_window_def by (metis fst_conv sum.case(2))
qed

lemma demo_window_reachable: "dash_reachable demo_py demo_outside demo_window"
  using demo_opened unfolding dash_reachable_def by blast

definition demo_started :: "(rat \<times> pystr) window" where
  "demo_started = snd (dispatch demo_py demo_outside Press_start demo_window)"

lemma demo_step: "dash_step demo_py demo_outside demo_window demo_started"
proof (rule dash_step.act)
  show "ui_open demo_window" by code_simp
  show "dispatch demo_py demo_outside Press_start demo_window
      = (fst (dispatch demo_py demo_outside Press_start demo_window), demo_started)" by (simp add: demo_started_def)
qed

lemma demo_started_reachable: "dash_reachable demo_py demo_outside demo_started"
  using demo_opened demo_step unfolding dash_reachable_def by blast

definition demo_config :: dash_config where
  "demo_config = \<lparr>dc_workspace = lit ''/a/'', dc_results = lit ''/b/'', dc_workers = 5, dc_auto_start = True\<rparr>"

lemma demo_started_thread: "ui_thread demo_started = Some (Start_job demo_config, False)"
  by code_simp

section \<open>One job at a time\<close>

text \<open>C33: One job at a time, on valid settings. In every state the dashboard can reach, whatever the order in
  which buttons, timers, the background thread, probes and the outside act, the busy flag is set exactly
  while a job runs or its last event waits to be handled, and no old end waits while a new job runs. The job
  that runs asks for one to sixteen workers and has two folders that are neither equal nor one inside the
  other, whatever settings were loaded. A step never replaces the job that runs.\<close>

theorem one_job_at_a_time:
  assumes "dash_reachable lib out s" "dash_step lib out s t"
  shows "(ui_busy s \<longleftrightarrow> ui_thread s \<noteq> None \<or> Idle \<in> set (ui_events s))
    \<and> \<not> (ui_thread s \<noteq> None \<and> Idle \<in> set (ui_events s))
    \<and> (\<forall>j ended. ui_thread s = Some (j, ended) \<longrightarrow>
        (1 \<le> dc_workers (job_config j) \<and> dc_workers (job_config j) \<le> 16
         \<and> (\<exists>p q. dc_workspace (job_config j) = out_str out p \<and> dc_results (job_config j) = out_str out q
              \<and> \<not> path_eq out p q \<and> \<not> path_in out p (parents q) \<and> \<not> path_in out q (parents p)))
        \<and> (ui_thread t = None \<or> (\<exists>ended'. ui_thread t = Some (j, ended'))))"
proof -
  note ok = reachable_ok [OF assms(1)]
  have "ui_thread t = None \<or> (\<exists>ended'. ui_thread t = Some (j, ended'))" if thread: "ui_thread s = Some (j, ended)" for j ended
    using assms(2)
  proof (cases rule: dash_step.cases)
    case (act a r)
    have "ui_busy s" using window_ok_busy(1) [OF ok] thread by simp
    then show ?thesis using dispatch_running [OF _ thread, of lib out a] act(2) by simp
  next
    case poll
    then show ?thesis using poll_step_ok [OF _ ok] thread by auto
  qed (use thread in auto)
  moreover have "valid_config out (job_config j)" if "ui_thread s = Some (j, ended)" for j ended
    using window_ok_busy(4) [OF ok that] .
  ultimately show ?thesis
    using window_ok_busy(1,2) [OF ok] unfolding valid_config_def nested_def by blast
qed

theorem one_job_at_a_time_witness:
  "\<not> ui_busy demo_window \<and> dash_step demo_py demo_outside demo_window demo_started
     \<and> ui_thread demo_started = Some (Start_job demo_config, False) \<and> ui_busy demo_started
     \<and> 1 \<le> dc_workers demo_config \<and> dc_workers demo_config \<le> 16"
proof -
  have "ui_thread demo_window = None \<and> Idle \<notin> set (ui_events demo_window)" by code_simp
  then have "\<not> ui_busy demo_window" using one_job_at_a_time [OF demo_window_reachable demo_step] by simp
  moreover have "dash_step demo_py demo_outside demo_started (demo_started\<lparr>ui_world := (0, [])\<rparr>)"
    by (rule dash_step.outside_moves)
  from one_job_at_a_time [OF demo_started_reachable this] demo_started_thread
  have "ui_busy demo_started" "1 \<le> dc_workers demo_config \<and> dc_workers demo_config \<le> 16" by auto
  ultimately show ?thesis using demo_step demo_started_thread by simp
qed

section \<open>Jobs end\<close>

text \<open>C34: Starting, stopping, restarting and fetching logs end: with a clock that does not go back and a
  sleep that lasts as long as asked, sixty-one turns of each loop are enough, and the last two events are the
  outcome and the end. The thread steps of the window run through exactly these events.\<close>

theorem cluster_jobs_end:
  assumes "clock_laws out time" "cluster_job j" "60 < fuel" "ui_thread s = Some (j, False)"
  shows "\<exists>t es e. runner (work_of lib out fuel j) \<lparr>bg_world = ui_world s, bg_put = []\<rparr> = Some t
    \<and> bg_put t = es @ [e, Idle] \<and> job_outcome e \<and> \<not> list_ex closing_event es
    \<and> (dash_step lib out)\<^sup>*\<^sup>* s (s\<lparr>ui_events := ui_events s @ bg_put t, ui_thread := None, ui_world := bg_world t\<rparr>)"
proof -
  let ?s = "\<lparr>bg_world = ui_world s, bg_put = []\<rparr>"
  obtain r u where "work_of lib out fuel j ?s = Some (r, u)"
    using cluster_job_ends [OF assms(1-3), of lib] unfolding ends_def by fastforce
  then obtain t where t: "runner (work_of lib out fuel j) ?s = Some t" by (cases r) (auto simp: runner_def)
  obtain es e where "bg_put t = es @ [e, Idle]" "job_outcome e" "list_all job_event es"
    using runner_puts [OF t] by (metis append_Nil bg.select_convs(2))
  moreover from this(3) have "\<not> list_ex closing_event es" using job_event_ordinary by (auto simp: list_all_iff list_ex_iff)
  ultimately show ?thesis using t runner_steps [OF assms(4) t] by blast
qed

lemma demo_clock: "clock_laws demo_outside fst"
  by (auto simp: clock_laws_def demo_outside_def)

theorem cluster_jobs_end_witness:
  "\<exists>t es e. runner (work_of demo_py demo_outside 61 (Start_job demo_config)) \<lparr>bg_world = ui_world demo_started, bg_put = []\<rparr> = Some t
     \<and> bg_put t = es @ [e, Idle] \<and> job_outcome e"
proof -
  have "cluster_job (Start_job demo_config)" by (simp add: cluster_job_def)
  from cluster_jobs_end [OF demo_clock this _ demo_started_thread, of 61 demo_py] show ?thesis by auto
qed

text \<open>C35: What it means that a job reports success. A start: the last thing it did was to ask the coordinator,
  which answered that it is well. An audit or a backup: the coordinator took the example file as a
  workflow, the identifier of its answer was reported, and the last thing the job did was to ask for the
  workflow with that identifier, which had succeeded. A restart: one of the two commands that start the
  containers ended with code zero, as the last thing. Fetching the logs: \<open>docker compose logs\<close> was run
  last, whatever its code, and its output was handed to the window. A stop: no more than that Docker was
  not running or that \<open>docker compose down\<close> ended within its time, whatever its code.\<close>

theorem success_is_true:
  assumes "runner (work_of lib out fuel j) s = Some t" "bg_put t = es @ [Success text, Idle]"
  shows "case j of
      Start_job c \<Rightarrow> text = running_text \<and> (\<exists>w. coordinator_online lib out w = (True, bg_world t))
    | Run_job mode c \<Rightarrow> text = finished_text mode \<and> (\<exists>payload w0 response w1 workflow i w answer state.
        out_example out (example_file mode) w0 = Inr payload
        \<and> dash_request lib out ''POST'' (lit ''/v1/workflows'') (Some payload) 10 w0 = (Inr response, w1)
        \<and> subscript ''data'' response = Inr workflow \<and> subscript ''id'' workflow = Inr i \<and> Workflow_started i \<in> set es
        \<and> dash_request lib out ''GET'' (lit ''/v1/workflows/'' @ str_of lib i) None 10 w = (Inr answer, bg_world t)
        \<and> subscript ''data'' answer = Inr state \<and> subscript ''state'' state = Inr (JStr (lit ''SUCCEEDED'')))
    | Restart_job c \<Rightarrow> (\<exists>w o' e'. run_command out (up_args c) c 180 False w = (Inr (0, o', e'), bg_world t)
        \<or> run_command out (build_args c) c 900 True w = (Inr (0, o', e'), bg_world t))
    | Logs_job c \<Rightarrow> (\<exists>w code o' e'. run_command out logs_args c 20 False w = (Inr (code, o', e'), bg_world t)
        \<and> Logs (o' @ e') \<in> set es)
    | Stop_job c \<Rightarrow> (\<exists>w. docker_available out w = (False, bg_world t))
        \<or> (\<exists>w code o' e'. run_command out down_args c 120 False w = (Inr (code, o', e'), bg_world t))"
proof -
  obtain u where run: "work_of lib out fuel j s = Some (Inr text, u)" and t: "bg_world t = bg_world u" "bg_put u = es"
    using assms by (auto simp: runner_def split: option.splits sum.splits)
  show ?thesis
  proof (cases j)
    case (Start_job c)
    then show ?thesis using start_success [of lib out fuel c s "text" u] run t by (simp add: work_of_def)
  next
    case (Stop_job c)
    then show ?thesis using stop_success [of out c s "text" u] run t by (simp add: work_of_def)
  next
    case (Restart_job c)
    then have "restart_work out fuel c s = Some (Inr text, u)" using run by (simp add: work_of_def)
    then obtain w where "compose_up out c w = (Inr (), bg_world u)" using restart_success by blast
    then show ?thesis using compose_up_Inr [of out c w] Restart_job t by simp
  next
    case (Run_job mode c)
    then have "run_work lib out fuel mode c s = Some (Inr text, u)" using run by (simp add: work_of_def)
    then show ?thesis
    proof (rule run_success)
      fix payload w0 w1 response workflow i w answer
      assume facts: "out_example out (example_file mode) w0 = Inr payload"
        "dash_request lib out ''POST'' (lit ''/v1/workflows'') (Some payload) 10 w0 = (Inr response, w1)"
        "subscript ''data'' response = Inr workflow" "subscript ''id'' workflow = Inr i" "Workflow_started i \<in> set (bg_put u)"
        "dash_request lib out ''GET'' (lit ''/v1/workflows/'' @ str_of lib i) None 10 w = (Inr answer, bg_world u)"
        "said_succeeded answer" "text = finished_text mode"
      then obtain state where "subscript ''data'' answer = Inr state" "subscript ''state'' state = Inr (JStr (lit ''SUCCEEDED''))"
        unfolding said_succeeded_def by blast
      then show ?thesis using facts(1-6,8) unfolding Run_job dash_job.case t(1) t(2) [symmetric] by blast
    qed
  next
    case (Logs_job c)
    then show ?thesis using logs_success [of out c s "text" u] run t by (simp add: work_of_def)
  qed
qed

definition dash_demo_run :: "(rat \<times> pystr) bg" where
  "dash_demo_run = the (runner (work_of demo_py demo_outside 61 (Start_job demo_config)) \<lparr>bg_world = (0, []), bg_put = []\<rparr>)"

theorem success_is_true_witness:
  "bg_put dash_demo_run = [Show_status starting_text] @ [Success running_text, Idle]
     \<and> (\<exists>w. coordinator_online demo_py demo_outside w = (True, bg_world dash_demo_run))"
proof -
  have run: "runner (work_of demo_py demo_outside 61 (Start_job demo_config)) \<lparr>bg_world = (0, []), bg_put = []\<rparr> = Some dash_demo_run"
    by code_simp
  have puts: "bg_put dash_demo_run = [Show_status starting_text] @ [Success running_text, Idle]" by code_simp
  show ?thesis using success_is_true [OF run puts] puts by simp
qed

section \<open>The window is free again\<close>

text \<open>C36: A finished job frees the window. In every reachable state of an open window whose job has ended, if
  the coordinator lists workflows as objects with different ids and workers as a list, and the report
  can be read or raises an \<open>OSError\<close>, the polling alone empties the queue and clears the busy flag: a call
  is scheduled or running, no handler raises, and after at most two steps more than events wait the
  window is not busy, nothing waits, and the next call is scheduled. It is a run of the window.\<close>

theorem finished_job_frees:
  assumes "dash_reachable lib out s" "ui_open s" "ui_thread s = None" "answers_ok lib out"
  shows "\<exists>n t. n \<le> length (ui_events s) + 2 \<and> (poll_step lib out ^^ n) s t \<and> (dash_step lib out)\<^sup>*\<^sup>* s t
    \<and> \<not> ui_busy t \<and> ui_events t = [] \<and> ui_polling t"
proof -
  obtain n t where t: "n \<le> length (ui_events s) + 2" "(poll_step lib out ^^ n) s t" "\<not> ui_busy t" "ui_events t = []" "ui_polling t"
    using polls_free [OF assms(4) reachable_ok [OF assms(1)] listening_reachable [OF assms(4,1)] assms(3,2)] by blast
  then have "(dash_step lib out)\<^sup>*\<^sup>* s t" using poll_steps_run relpowp_imp_rtranclp by metis
  with t show ?thesis by blast
qed

definition demo_finished :: "(rat \<times> pystr) window" where
  "demo_finished = demo_started\<lparr>ui_events := ui_events demo_started @ bg_put dash_demo_run, ui_thread := None,
     ui_world := (0, lit ''S'' @ [10])\<rparr>"

lemma demo_finished_reachable: "dash_reachable demo_py demo_outside demo_finished"
proof -
  have world: "ui_world demo_started = (0, lit ''S'' @ [10])" by code_simp
  let ?run = "the (runner (work_of demo_py demo_outside 61 (Start_job demo_config)) \<lparr>bg_world = (0, lit ''S'' @ [10]), bg_put = []\<rparr>)"
  have run: "runner (work_of demo_py demo_outside 61 (Start_job demo_config)) \<lparr>bg_world = ui_world demo_started, bg_put = []\<rparr> = Some ?run"
    unfolding world by code_simp
  have same: "bg_put ?run = bg_put dash_demo_run" "bg_world ?run = (0, lit ''S'' @ [10])" by code_simp+
  have "(dash_step demo_py demo_outside)\<^sup>*\<^sup>* demo_started demo_finished"
    using runner_steps [OF demo_started_thread run] unfolding demo_finished_def same .
  then show ?thesis using demo_started_reachable unfolding dash_reachable_def by (meson rtranclp_trans)
qed

lemma demo_answers: "answers_ok demo_py demo_outside"
proof -
  have request: "dash_request demo_py demo_outside meth path body limit w
      = (Inr (JDict [(lit ''status'', JStr (lit ''ok''))]), w)" for meth path body limit w
    by (simp add: dash_request_def demo_outside_def demo_py_def)
  have "get_data demo_py demo_outside path limit w = (Inr (JList []), w)" for path limit w
    by (simp add: get_data_def chain_def request of_result_def get_or_def)
  moreover have "out_summary demo_outside p w = None" for p w by (simp add: demo_outside_def)
  ultimately show ?thesis by (simp add: answers_ok_def rows_ok_def len_of_def)
qed

theorem finished_job_frees_witness:
  "ui_busy demo_finished \<and> (\<exists>t. (dash_step demo_py demo_outside)\<^sup>*\<^sup>* demo_finished t \<and> \<not> ui_busy t \<and> ui_polling t)"
proof -
  have "ui_busy demo_finished" "ui_open demo_finished" "ui_thread demo_finished = None" by code_simp+
  then show ?thesis using finished_job_frees [OF demo_finished_reachable _ _ demo_answers] by blast
qed

section \<open>Settings\<close>

text \<open>C37: Saved settings come back: after \<open>save_settings\<close> has answered that it saved, the next start of the
  dashboard loads exactly the configuration that was saved, and it is a valid one.\<close>

theorem saved_settings_load:
  assumes "file_laws out" "reads_back lib (config_as_json (ui_config t))" "save_settings lib out s = (Inr True, t)"
  shows "load_config lib out (ui_world t) = Inr (ui_config t) \<and> valid_config out (ui_config t)"
  using saved_is_loaded [OF assms] by simp

theorem saved_settings_load_witness:
  "\<exists>t. save_settings demo_py demo_outside demo_window = (Inr True, t) \<and> load_config demo_py demo_outside (ui_world t) = Inr demo_config"
proof -
  obtain r t where run: "save_settings demo_py demo_outside demo_window = (r, t)" by (rule prod.exhaust)
  have "(case save_settings demo_py demo_outside demo_window of (r, t) \<Rightarrow> r = Inr True \<and> ui_config t = demo_config)" by code_simp
  then have saved: "save_settings demo_py demo_outside demo_window = (Inr True, t)" "ui_config t = demo_config" using run by auto
  have "file_laws demo_outside" by (auto simp: file_laws_def demo_outside_def)
  moreover have "reads_back demo_py (config_as_json demo_config)" unfolding reads_back_def by code_simp
  ultimately show ?thesis using saved_settings_load saved by metis
qed

section \<open>Three faults\<close>

text \<open>A field of workers that holds no number makes the settings, and with them the closing of the window, raise.\<close>

lemma close_needs_a_number:
  assumes "out_int_var out (ui_workers_var s) = Inl (Tcl_error m)"
  shows "dispatch lib out Close s = (Inl (Tcl_error m), s)"
  using assms by (simp add: dispatch_def on_close_def save_settings_def current_config_def read_workers_def
      catch_def chain_def reads_def of_result_def is_value_error_def is_os_error_def)

text \<open>A probe that brings no list stops the polling: the handler raises before the next poll is scheduled.\<close>

lemma bad_answer_stops_polling:
  assumes "ui_events s = Probe docker True JNull workflows # es" "\<not> ui_polling s"
  shows "fst (poll_turn lib out s) = Inl Type_error \<and> \<not> ui_polling (snd (poll_turn lib out s))
    \<and> \<not> ui_draining (snd (poll_turn lib out s))"
  using assms by (simp add: poll_turn_def take_event_def handle_event_def handle_custom_event_def len_of_def of_result_def
      proc_simps)

text \<open>A stop reports success when \<open>docker compose down\<close> failed.\<close>

lemma failed_stop_reports_success:
  assumes "docker_available out (bg_world s) = (True, w)" "run_command out down_args c 120 False w = (Inr (code, o', e'), w')"
  shows "runner (work_of lib out fuel (Stop_job c)) s
    = Some (s\<lparr>bg_world := w', bg_put := bg_put s @ [Success stopped_text, Idle]\<rparr>)"
  using assms by (simp add: runner_def work_of_def stop_work_def run_then_def job_ask_def job_call_def run_ret_def)

end
