(* ===== verification/Spec2Isabelle.thy ===== *)
theory Spec2Isabelle
  imports Chaos_Props Chaos_Results Sdk_Props Dsl_Props Dsl_Text_Props Lab_Main_Props Tools_Props Stats_Report Audit_Props Sdk_Cli_Props Dash_Props
begin

text \<open>
  A verification of the Python part of HelixGrid, a grid that runs workflows of dependent tasks on
  leased workers. What is modelled is the code that carries the rules of the system: the reference
  model of the scheduler and the laboratory that tests it (\<open>src/tools/chaos_lab\<close>), the workflow
  language (\<open>src/sdk/python/src/helixgrid/dsl.py\<close>), the client library and its command line (\<open>client.py\<close> and \<open>cli.py\<close>
  beside it), the desktop dashboard (\<open>src/dashboard/helix_dashboard.py\<close>), the file tools of the worker
  (\<open>src/worker/file_tools.py\<close>) and the line counter (\<open>src/scripts/code_stats.py\<close>). A definition has the name of
  the function, method or class it translates where that name is free.

  How the parts meet. A workflow is written in the workflow language or built by method calls; both
  give the client a list of tasks in dependency order. The scheduler accepts the list if
  \<open>validate_dag\<close> does, and then offers ready tasks to workers, one lease at a time. The generator of
  the laboratory draws workflows, workers and requests, the runner replays them against the model with
  a self-check after every request, and the shrinker reduces a failing replay. The command line and the
  dashboard submit workflows to a coordinator over HTTP and follow them; the dashboard's workflows run the
  file tools. This theory holds the properties that span components: what the compiler and the builder
  produce the scheduler accepts, but for a task with an empty id, and the three topological sorts of the
  repository agree.

  Shared theories. \<open>Prelude\<close>: texts as lists of code points, dictionaries as association lists in
  insertion order, the monad \<open>proc\<close> of state and error with its rule \<open>keeps\<close>, decimal numbers, and the
  contract \<open>keyed_store\<close> of a dictionary. \<open>encodable\<close> are the texts that UTF-8 can encode. \<open>Dag\<close>: Kahn's loop, the least topological order it computes, and
  the contract \<open>topo_sorter\<close> that all three sorters are interpreted in. \<open>Py_Text\<close>: \<open>str.strip\<close> and the
  string literals of \<open>json.dumps\<close>. \<open>Json\<close> and \<open>Py_Json\<close>: JSON values, the exceptions of Python that the tools
  meet, formatting, and computations \<open>run\<close> whose loops may go on (\<open>None\<close>).

  The scheduler, \<open>model.py\<close>. \<open>Chaos_Types\<close> holds the records and enumerations, \<open>Chaos_Dag\<close>
  \<open>validate_dag\<close>, \<open>Chaos_Model\<close> every method of \<open>Model\<close> that changes state, \<open>Chaos_Check\<close> the ten checks of
  \<open>check_invariants\<close>, \<open>Chaos_Query\<close> the queries. An exception is a value of \<open>chaos_error\<close> next to the state
  the method had reached, because Python keeps what was done before a raise. \<open>Chaos_Inv\<close> states the
  invariant; \<open>Chaos_Updates\<close>, \<open>Chaos_Growth\<close>, \<open>Chaos_History\<close>, \<open>Chaos_Recompute\<close>, \<open>Chaos_Leases\<close>,
  \<open>Chaos_Requests\<close> and \<open>Chaos_Sched\<close> show that the operations keep it, and \<open>Chaos_Reach\<close> and \<open>Chaos_Runs\<close> turn
  that into the step relation \<open>chaos_step\<close>, its reachable states and the contract \<open>state_machine\<close>. A reachable
  state is what any requests reach from a new model of any limits, as long as the token a lease request makes
  is not in use. \<open>Chaos_Index\<close> treats the indexes of the workers (\<open>indexed\<close>): a dropped worker that is registered
  again gets an empty one (\<open>replaces_busy\<close>), every other request keeps them complete.
  \<open>Chaos_Outcome\<close>, \<open>Chaos_Props\<close> and \<open>Chaos_Results\<close> hold the results: the verdict of the self-check, exclusive
  leases, capacity, attempts, dependencies, liveness, what a lease, a completion or a cancellation does.

  The laboratory, \<open>runner.py\<close>, \<open>generator.py\<close>, \<open>shrinker.py\<close>. \<open>Lab_Runner\<close> models scenarios, reports,
  bootstrap and replay; \<open>Lab_Errors\<close> shows which exceptions a request can raise, what a replay can
  report and where it stops; \<open>Lab_Setup\<close> that setting up passes the self-check. \<open>Lab_Generator\<close> models every draw,
  \<open>Lab_Generated\<close> shows that the runner repeats what the generator tried, \<open>Lab_Valid\<close> that drawn
  workflows and workers are valid. \<open>Lab_Campaign\<close> models campaigns, \<open>Lab_Trace\<close> the JSON values of
  scenarios. \<open>Lab_Shrinker\<close> models the four reductions, \<open>Lab_Shrunk\<close> and \<open>Lab_Rewire\<close> show what they keep.
  \<open>Lab_Report\<close> holds the JSON values of reports, \<open>Lab_Main\<close> the command line of the laboratory and the
  signature of a failure. The properties are in \<open>Lab_Props\<close> and \<open>Lab_Main_Props\<close>.

  The workflow language, \<open>dsl.py\<close>. \<open>Dsl_Types\<close> holds the syntax tree and durations, \<open>Dsl_Lexer\<close> and
  \<open>Dsl_Parser\<close> with \<open>Dsl_Blocks\<close> the two stages of \<open>parse\<close>, \<open>Dsl_Format\<close> the printer and the graph rendering,
  \<open>Dsl_Graph\<close> the graph functions, \<open>validate\<close> and the statistics, \<open>Dsl_Compile\<close> the compiler. \<open>Dsl_Relex\<close>,
  \<open>Dsl_Reparse\<close>, \<open>Dsl_Reblock\<close>, \<open>Dsl_Reread\<close> and \<open>Dsl_Print\<close> prove that a printed workflow is read back,
  \<open>Dsl_Shape\<close> that a parsed one is well formed (both in \<open>Dsl_Text_Props\<close>). \<open>Dsl_Order\<close>, \<open>Dsl_Cycle\<close>, \<open>Dsl_Path\<close>
  and \<open>Dsl_Levels\<close> treat the sort, the search for a cycle, the critical path and the levels (\<open>Dsl_Props\<close>).

  The client library, \<open>client.py\<close>. \<open>Sdk_Builder\<close> models \<open>WorkflowBuilder\<close>, the retry policy and the payloads;
  \<open>Sdk_Facts\<close> and \<open>Sdk_Props\<close> hold the invariant of the builder, the decision of \<open>build\<close> and the type safety of
  the payload. \<open>Sdk_Client\<close> models \<open>HelixClient\<close> over a network that is a parameter, and \<open>Sdk_Calls\<close> proves that
  waiting ends, that ids stay inside a path segment and that the event stream is read back.

  The command line, \<open>cli.py\<close>. \<open>Sdk_Cli\<close> models every command with what it prints, and the exit codes of
  \<open>main\<close>. A stream of events is read line by line from the outside and may never end; each line can fail.
  \<open>Sdk_Cli_Props\<close> shows which commands end, and what an exit code says about the last request.

  The dashboard, \<open>helix_dashboard.py\<close>. \<open>Dash_Config\<close> models the settings and the outside (files, Docker, HTTP,
  the clock, dialogs), \<open>Dash_Jobs\<close> the closures that run in the background thread, \<open>Dash_Window\<close> the window:
  every button, the event queue, the construction, and the steps \<open>dash_step\<close> in which buttons, timers, the
  background thread, probes and the outside interleave. A call of \<open>_poll_events\<close> is itself a sequence of steps
  (\<open>poll_begin\<close>, one \<open>poll_turn\<close> per event, \<open>schedule_poll\<close>), so that events may arrive meanwhile and a handler
  that raises ends it. \<open>Dash_Facts\<close> holds the invariant of the window, \<open>Dash_Runs\<close> what a closure puts into the
  queue and that it ends, \<open>Dash_Polls\<close> that the polling goes on while the answers can be shown. The properties
  are in \<open>Dash_Props\<close>.

  The tools. \<open>Stats_Count\<close> models the line counter on a tree of directories, \<open>Stats_Report\<close> what it prints and
  its exit code, and \<open>Stats_Sums\<close> shows that its numbers add up. \<open>Files_Audit\<close> models what the file tools compute
  from the scanned files, and \<open>Files_Dups\<close> shows that the duplicates are exact; \<open>Files_Report\<close> holds the scan
  and the documents, \<open>Files_Tools\<close> the five commands on a disk, with every error of reading and writing, and
  \<open>Audit_Props\<close> decides when an audit ends well. The properties of the client's calls, the line counter and
  the duplicates are in \<open>Tools_Props\<close>.

  Numbers and loops. Python's integers are unbounded and are \<open>int\<close> here; a float of the generator is
  the rational it stands for, so the rounding of sums is not modelled. Loops are structural recursion
  or recursion with a measure. Five carry a bound. \<open>visit\<close> of \<open>find_cycle\<close> may go as deep as there are
  ids plus one, and a property shows that it never goes deeper. \<open>follow_parents\<close> takes at most as many steps
  as the order is long. The granularity of the delta debugger starts at two and never falls below.
  The parser is bounded by the number of tokens it consumes. The loop of \<open>wait\<close> has fuel: limit /
  interval + 2 polls are enough, and without a limit it may run for ever, which is \<open>None\<close>; so may
  \<open>watch\<close> (\<open>watch_lines\<close>, one unit of fuel per line) and \<open>follow\<close> of the dashboard. The waiting loops of the
  dashboard have a deadline, and 61 turns of each are enough. A window whose job has ended is free after at
  most two polling steps more than events wait. Python's limit on the depth of a recursion is left out.

  Parameters. The hash behind generated ids is a function \<open>digest\<close>, the hash of a snapshot a function
  \<open>fingerprint\<close>; where a result needs that a new token is not one in use, that is a hypothesis
  (\<open>fresh_token\<close>, in \<open>admissible\<close> and \<open>tokens_fresh\<close>). Python's random source is a record of four functions with the
  ranges its documentation gives (\<open>rng_ok\<close>). The details of the laboratory's messages are functions of the
  exception and the step. The network, the clock and the \<open>json\<close> module of the client, the predicate of the
  shrinker, \<open>str\<close> and \<open>int\<close> of a JSON value, the outside of the dashboard (\<open>outside\<close>), the files and streams of the
  command line (\<open>cli_env\<close>), the disk of the file tools (\<open>disk\<close>), the scan of a directory and the hash of a file are
  parameters too. What is relied on is a named hypothesis: \<open>clock_ok\<close>, \<open>reads_back\<close>, \<open>json_law\<close>, \<open>writable\<close>,
  \<open>answers_ok\<close>.

  Not modelled. The \<open>argparse\<close> parsers, the layout and the style of the dashboard's widgets, a \<open>print\<close> that
  fails, \<open>compile_file\<close>, which only reads a file, the example text of the workflow language, and the \<open>clone\<close>
  methods of workers and leases, which copy values. Times are parameters or left out. The coordinator, the
  worker, the replay verifier, the simulator and the other clients are written in other languages.
\<close>

section \<open>Components together\<close>

text \<open>The ids and dependencies of a workflow definition's tasks.\<close>

abbreviation listed :: "workflow_definition \<Rightarrow> pystr graph" where
  "listed w \<equiv> map (\<lambda>t. (st_id t, st_depends_on t)) (wd_tasks w)"

text \<open>Listing the tasks of a graph in another order gives the reference model the same order.\<close>

lemma reordered_graph:
  assumes ok: "graph_ok g" and perm: "mset h = mset g" and full: "chaos_sorter g = Some order"
  shows "chaos_sorter h = Some order"
proof -
  have "mset (dkeys h) = mset (dkeys g)" using perm by (simp add: dkeys_def)
  then have keys: "set (dkeys h) = set (dkeys g)" "length h = length g"
    using mset_eq_setD mset_eq_length [OF perm] by blast+
  have wf: "dwf g" "dwf h"
    using ok mset_eq_imp_distinct_iff [OF \<open>mset (dkeys h) = mset (dkeys g)\<close>]
    by (simp_all add: graph_ok_def dwf_def)
  have mem: "set h = set g" using perm by (rule mset_eq_setD)
  have same: "gdeps h v = gdeps g v" for v
  proof -
    have "dget h v = dget g v"
      using dget_iff_mem [OF wf(1), of v] dget_iff_mem [OF wf(2), of v] mem
      by (cases "dget h v"; cases "dget g v") auto
    then show ?thesis by (simp add: gdeps_def)
  qed
  have ok_h: "graph_ok h" using ok wf mem keys perm by (auto simp: graph_ok_def)
  have "topo_order (gdeps h) (dkeys h) = topo_order (gdeps g) (dkeys g)"
    unfolding topo_order_def
    using least_topo_perm [OF \<open>mset (dkeys h) = mset (dkeys g)\<close>] same
    by (metis least_topo_cong)
  with chaos.sorter [OF ok] chaos.sorter [OF ok_h] full keys(2) show ?thesis by simp
qed

lemma model_accepts:
  assumes "graph_ok g" "mset (listed w) = mset g" "chaos_sorter g = Some (map st_id (wd_tasks w))"
    "task_graph ts = listed w"
  shows "validate_dag ts = Inr (map st_id (wd_tasks w))"
proof -
  have "chaos_sorter (task_graph ts) = Some (map st_id (wd_tasks w))"
    unfolding assms(4) by (rule reordered_graph [OF assms(1,2,3)])
  then show ?thesis by (simp add: chaos_sorter_tasks)
qed

text \<open>C14: The reference model, the DSL and the client's builder order tasks alike: on every
  well-formed graph they return the same list of ids, or all refuse it as cyclic.\<close>

theorem three_sorters_agree:
  assumes "graph_ok g"
  shows "ok_part (topological_order (graph_node g)) = ok_part (validate_dag (map graph_task g))
    \<and> builder_sorter g = ok_part (validate_dag (map graph_task g))"
  using chaos.sorters_agree [OF dsl.topo_sorter_axioms assms]
    chaos.sorters_agree [OF sdk.topo_sorter_axioms assms]
  by (simp add: dsl_sorter_def chaos_sorter_def)

theorem three_sorters_agree_witness:
  "ok_part (validate_dag (map graph_task diamond)) = Some [lit ''a'', lit ''b'', lit ''c'', lit ''d'']"
  using three_sorters_agree [OF diamond_ok(1)] valid_node_facts(4) [OF diamond_ok(2)] diamond_facts(1) by simp

lemma compiled_accepted:
  assumes w: "compile_node node = Inr w" and ts: "task_graph ts = listed w"
  shows "validate_dag ts = Inr (map st_id (wd_tasks w))"
proof -
  have valid: "valid_node node" using w by (auto simp: compile_node_run split: if_splits)
  note facts = valid_node_facts [OF valid]
  have "mset (listed w)
      = image_mset (\<lambda>t. (st_id t, st_depends_on t)) (mset (map compile_task (wn_tasks node)))"
    using compiled_mset [OF valid w] by simp
  also have "\<dots> = mset (node_graph node)"
    by (simp add: node_graph_def compile_task_def image_mset.compositionality comp_def)
  finally have perm: "mset (listed w) = mset (node_graph node)" .
  have "chaos_sorter (node_graph node) = Some (map st_id (wd_tasks w))"
    using chaos.sorters_agree [OF dsl.topo_sorter_axioms facts(1)] dsl_sorter_node [OF facts(1)]
      facts(4) compiled_task(1) [OF valid w] by simp
  with facts(1) perm show ?thesis using ts by (rule model_accepts)
qed

lemma built_accepted:
  assumes ok: "builder_ok b'" and built: "build b' = Inr w" and ts: "task_graph ts = listed w"
  shows "validate_dag ts = Inr (map st_id (wd_tasks w))"
proof -
  have ne: "wb_tasks b' \<noteq> []" using built by (auto simp: build_def)
  let ?g = "builder_graph (wb_tasks b')"
  note graph = builder_ok_graph(1) [OF ok ne]
  from build_run [OF ok] ne built obtain order where order: "builder_sorter ?g = Some order"
    and w: "wd_tasks w = map (\<lambda>k. the (dget (wb_tasks b') k)) order" by (auto split: option.splits)
  note sound = sdk.order_sound [OF graph order]
  have wf: "dwf (wb_tasks b')" using ok by (simp add: builder_ok_def)
  have id: "st_id (the (dget (wb_tasks b') k)) = k" if "k \<in> set order" for k
  proof -
    from that sound(2) obtain t where "dget (wb_tasks b') k = Some t" by (auto simp: dget_dkeys)
    with ok show ?thesis by (auto simp: builder_ok_def sdk_task_ok_def)
  qed
  then have ids: "map st_id (wd_tasks w) = order" unfolding w by (simp add: map_idI)
  have "mset order = mset (dkeys (wb_tasks b'))"
    using set_eq_iff_mset_eq_distinct [OF sound(1), of "dkeys (wb_tasks b')"] sound(2) wf
    by (simp add: dwf_def)
  then have "mset (listed w)
      = mset (map ((\<lambda>t. (st_id t, st_depends_on t)) \<circ> (\<lambda>k. the (dget (wb_tasks b') k))) (dkeys (wb_tasks b')))"
    unfolding w map_map mset_map by simp
  also have "map ((\<lambda>t. (st_id t, st_depends_on t)) \<circ> (\<lambda>k. the (dget (wb_tasks b') k))) (dkeys (wb_tasks b')) = ?g"
  proof -
    have "st_id t = k" "dget (wb_tasks b') k = Some t" if "(k, t) \<in> set (wb_tasks b')" for k t
      using that ok dget_iff_mem [OF wf] by (auto simp: builder_ok_def sdk_task_ok_def)
    then show ?thesis by (auto simp: dkeys_def builder_graph_def)
  qed
  finally have perm: "mset (listed w) = mset ?g" .
  have "chaos_sorter ?g = Some (map st_id (wd_tasks w))"
    using chaos.sorters_agree [OF sdk.topo_sorter_axioms graph] order ids by simp
  with graph perm show ?thesis using ts by (rule model_accepts)
qed

lemma new_task_cases:
  "0 \<le> timeout \<Longrightarrow> (if k = [] then new_task k deps labels retry timeout = Inl BadValue
     else \<exists>t. new_task k deps labels retry timeout = Inr t \<and> t_id t = k \<and> t_depends_on t = deps)"
  by (simp add: new_task_def task_post_init_def Let_def)

text \<open>C13: What the DSL compiles and what the builder builds, the reference model can run. Its \<open>Task\<close>
  constructor takes each of the tasks, unless the id is empty, which it refuses with \<open>ValueError\<close>;
  and however the tasks were made, if their ids and dependencies are those listed in the definition,
  \<open>validate_dag\<close> accepts them and keeps them in the order in which they are listed.\<close>

theorem definitions_accepted:
  assumes "compile_node node = Inr w \<or> fresh_builder b \<and> builder_step\<^sup>*\<^sup>* b b' \<and> build b' = Inr w"
  shows "(\<forall>s \<in> set (wd_tasks w). \<forall>labels retry timeout. 0 \<le> timeout \<longrightarrow>
      (if st_id s = [] then new_task (st_id s) (st_depends_on s) labels retry timeout = Inl BadValue
       else \<exists>t. new_task (st_id s) (st_depends_on s) labels retry timeout = Inr t
         \<and> t_id t = st_id s \<and> t_depends_on t = st_depends_on s))
    \<and> (\<forall>ts. map (\<lambda>t. (t_id t, t_depends_on t)) ts = map (\<lambda>s. (st_id s, st_depends_on s)) (wd_tasks w) \<longrightarrow>
      validate_dag ts = Inr (map st_id (wd_tasks w)))"
proof (intro conjI ballI allI impI)
  show "if st_id s = [] then new_task (st_id s) (st_depends_on s) labels retry timeout = Inl BadValue
       else \<exists>t. new_task (st_id s) (st_depends_on s) labels retry timeout = Inr t
         \<and> t_id t = st_id s \<and> t_depends_on t = st_depends_on s"
    if "0 \<le> timeout" for s labels retry timeout using that by (rule new_task_cases)
  show "validate_dag ts = Inr (map st_id (wd_tasks w))"
    if "map (\<lambda>t. (t_id t, t_depends_on t)) ts = listed w" for ts
    using assms compiled_accepted built_accepted builder_run.runs_keep that [folded task_graph_def] by blast
qed

theorem definitions_accepted_witness:
  "\<exists>w. compile_node (graph_node diamond) = Inr w
     \<and> validate_dag (map graph_task (map (\<lambda>s. (st_id s, st_depends_on s)) (wd_tasks w))) = Inr (map st_id (wd_tasks w))"
proof -
  from compile_node_run [of "graph_node diamond"] diamond_ok(2)
  obtain w where w: "compile_node (graph_node diamond) = Inr w" by simp
  have "map (\<lambda>t. (t_id t, t_depends_on t)) (map graph_task (listed w)) = listed w"
    using task_graph_graph_task [of "listed w"] by (simp add: task_graph_def)
  with definitions_accepted [of "graph_node diamond" w, OF disjI1 [OF w], THEN conjunct2] w show ?thesis by blast
qed

text \<open>The DSL compiles a task with an empty id, which the reference model cannot hold.\<close>

theorem empty_id_compiles:
  "\<exists>w. compile_node (graph_node [([], [])]) = Inr w \<and> map st_id (wd_tasks w) = [[]]
     \<and> new_task [] [] [] default_retry 0 = Inl BadValue"
proof -
  have "case compile_node (graph_node [([], [])]) of Inr w \<Rightarrow> map st_id (wd_tasks w) = [[]] | Inl _ \<Rightarrow> False"
    "new_task [] [] [] default_retry 0 = Inl BadValue" by code_simp+
  then show ?thesis by (auto split: sum.splits)
qed

end
